(* ===== verification/Sctp_Prelude.thy ===== *)
theory Sctp_Prelude
  imports Main "HOL-Library.Word" "HOL-Library.Multiset"
begin

unbundle bit_operations_syntax

text \<open>
  Shared vocabulary of the development: machine integers, the outcome of fallible code, the byte
  readers and writers of the \<^verbatim>\<open>bytes\<close> crate, Rust's \<^verbatim>\<open>sort_by\<close> and \<^verbatim>\<open>HashMap\<close>, and the generic
  lemmas on them.

  Unsigned integers are words of their width, so that arithmetic wraps around as it does in a
  release build; \<^verbatim>\<open>usize\<close> lengths of buffers are natural numbers. A computation ends in one of three
  ways: \<open>Ok\<close>, \<open>Err\<close> (the \<^verbatim>\<open>Result\<close> error) or \<open>Panic\<close> (an out-of-range slice or a read past the end
  of a buffer, which abort the task).
\<close>

named_theorems codec_simps \<open>evaluation of byte readers and writers\<close>
named_theorems hm_simps \<open>lookup, insertion and removal in hash maps\<close>

type_synonym u8 = "8 word"
type_synonym u16 = "16 word"
type_synonym u32 = "32 word"
type_synonym u64 = "64 word"
type_synonym bytes = "u8 list"

section \<open>Outcomes\<close>

datatype ('e, 'a) outcome = Ok 'a | Err 'e | Panic

fun obind :: "('e, 'a) outcome \<Rightarrow> ('a \<Rightarrow> ('e, 'b) outcome) \<Rightarrow> ('e, 'b) outcome" where
  "obind (Ok x) f = f x"
| "obind (Err e) f = Err e"
| "obind Panic f = Panic"

lemma obind_eq_Ok: "obind m f = Ok y \<longleftrightarrow> (\<exists>x. m = Ok x \<and> f x = Ok y)"
  by (cases m) auto

lemma obind_assoc: "obind (obind m f) g = obind m (\<lambda>x. obind (f x) g)"
  by (cases m) auto

lemma obind_cong [fundef_cong]:
  "m = m' \<Longrightarrow> (\<And>x. m' = Ok x \<Longrightarrow> f x = f' x) \<Longrightarrow> obind m f = obind m' f'"
  by (cases m') auto

section \<open>Byte buffers\<close>

text \<open>\<^verbatim>\<open>Bytes::slice(a..b)\<close> panics unless \<open>a \<le> b \<le> len\<close>.\<close>

definition bytes_slice :: "bytes \<Rightarrow> nat \<Rightarrow> nat \<Rightarrow> ('e, bytes) outcome" where
  "bytes_slice raw a b = (if a \<le> b \<and> b \<le> length raw then Ok (take (b - a) (drop a raw)) else Panic)"

definition put_u8 :: "u8 \<Rightarrow> bytes" where
  "put_u8 x = [x]"

definition put_u16 :: "u16 \<Rightarrow> bytes" where
  "put_u16 x = [ucast (drop_bit 8 x), ucast x]"

definition put_u32 :: "u32 \<Rightarrow> bytes" where
  "put_u32 x = [ucast (drop_bit 24 x), ucast (drop_bit 16 x), ucast (drop_bit 8 x), ucast x]"

definition put_u32_le :: "u32 \<Rightarrow> bytes" where
  "put_u32_le x = rev (put_u32 x)"

text \<open>The readers of \<^verbatim>\<open>Buf\<close> consume from the front and panic when too few bytes remain.\<close>

fun get_u8 :: "bytes \<Rightarrow> ('e, u8 \<times> bytes) outcome" where
  "get_u8 (a # r) = Ok (a, r)"
| "get_u8 [] = Panic"

fun get_u16 :: "bytes \<Rightarrow> ('e, u16 \<times> bytes) outcome" where
  "get_u16 (a # b # r) = Ok (push_bit 8 (ucast a) OR ucast b, r)"
| "get_u16 _ = Panic"

fun get_u32 :: "bytes \<Rightarrow> ('e, u32 \<times> bytes) outcome" where
  "get_u32 (a # b # c # d # r) =
     Ok (push_bit 24 (ucast a) OR push_bit 16 (ucast b) OR push_bit 8 (ucast c) OR ucast d, r)"
| "get_u32 _ = Panic"

fun get_u32_le :: "bytes \<Rightarrow> ('e, u32 \<times> bytes) outcome" where
  "get_u32_le (a # b # c # d # r) =
     Ok (push_bit 24 (ucast d) OR push_bit 16 (ucast c) OR push_bit 8 (ucast b) OR ucast a, r)"
| "get_u32_le _ = Panic"

text \<open>A counted loop of reads: \<^verbatim>\<open>for _ in 0..n\<close> pushing one element per iteration.\<close>

fun get_many :: "(bytes \<Rightarrow> ('e, 'a \<times> bytes) outcome) \<Rightarrow> nat \<Rightarrow> bytes \<Rightarrow> ('e, 'a list \<times> bytes) outcome"
  where
  "get_many g 0 r = Ok ([], r)"
| "get_many g (Suc n) r =
     obind (g r) (\<lambda>(x, r'). obind (get_many g n r') (\<lambda>(xs, r''). Ok (x # xs, r'')))"

lemma u16_split:
  "push_bit 8 (ucast (ucast (drop_bit 8 x) :: u8)) OR ucast (ucast x :: u8) = (x :: u16)"
  by (rule bit_word_eqI) (auto simp: bit_simps)

lemma u32_split:
  "push_bit 24 (ucast (ucast (drop_bit 24 x) :: u8)) OR push_bit 16 (ucast (ucast (drop_bit 16 x) :: u8))
     OR push_bit 8 (ucast (ucast (drop_bit 8 x) :: u8)) OR ucast (ucast x :: u8) = (x :: u32)"
proof (rule bit_word_eqI, goal_cases)
  case (1 n)
  then consider "n < 8" | "8 \<le> n" "n < 16" | "16 \<le> n" "n < 24" | "24 \<le> n" "n < 32"
    by fastforce
  then show ?case
    by cases (auto simp: bit_simps)
qed

lemma length_put [simp]:
  "length (put_u8 a) = 1" "length (put_u16 b) = 2" "length (put_u32 c) = 4" "length (put_u32_le c) = 4"
  by (simp_all add: put_u8_def put_u16_def put_u32_def put_u32_le_def)

lemma get_put_u8 [codec_simps]: "get_u8 (put_u8 x @ r) = Ok (x, r)"
  by (simp add: put_u8_def)

lemma get_put_u16 [codec_simps]: "get_u16 (put_u16 x @ r) = Ok (x, r)"
  by (simp add: put_u16_def u16_split)

lemma get_put_u32 [codec_simps]: "get_u32 (put_u32 x @ r) = Ok (x, r)"
  by (simp add: put_u32_def u32_split)

lemma get_put_u32_le [codec_simps]: "get_u32_le (put_u32_le x @ r) = Ok (x, r)"
  by (simp add: put_u32_le_def put_u32_def u32_split)

lemmas get_put_Nil [codec_simps] =
  get_put_u8 [where r = "[]", simplified] get_put_u16 [where r = "[]", simplified]
  get_put_u32 [where r = "[]", simplified]

lemma get_many_concat:
  assumes "\<And>x r. x \<in> set xs \<Longrightarrow> g (p x @ r) = Ok (x, r)"
  shows "get_many g (length xs) (concat (map p xs) @ r) = Ok (xs, r)"
  using assms by (induction xs) auto

lemma slice_all [codec_simps]: "bytes_slice raw 0 (length raw) = Ok raw"
  by (simp add: bytes_slice_def)

lemma slice_Ok_iff: "bytes_slice raw a b = Ok s \<longleftrightarrow> a \<le> b \<and> b \<le> length raw \<and> s = take (b - a) (drop a raw)"
  by (auto simp: bytes_slice_def)

lemma slice_append_mid:
  "length pre = a \<Longrightarrow> b = a + length mid \<Longrightarrow> bytes_slice (pre @ mid @ post) a b = Ok mid"
  by (simp add: bytes_slice_def)

lemma get_u16_long:
  "2 \<le> length r \<Longrightarrow> \<exists>x. get_u16 r = Ok (x, drop 2 r)"
  by (cases r rule: get_u16.cases) auto

lemma get_u32_long:
  "4 \<le> length r \<Longrightarrow> \<exists>x. get_u32 r = Ok (x, drop 4 r)"
  by (cases r rule: get_u32.cases) auto

section \<open>Sorting\<close>

text \<open>
  \<^verbatim>\<open>Vec::sort_by\<close> with a comparator that answers \<^verbatim>\<open>Less\<close> or \<^verbatim>\<open>Greater\<close>. The standard library promises
  the stable sorted permutation when the comparator is a strict total order on the elements, and
  nothing otherwise; insertion sort computes that permutation.
\<close>

fun insert_by :: "('a \<Rightarrow> 'a \<Rightarrow> bool) \<Rightarrow> 'a \<Rightarrow> 'a list \<Rightarrow> 'a list" where
  "insert_by lt x [] = [x]"
| "insert_by lt x (y # ys) = (if lt x y then x # y # ys else y # insert_by lt x ys)"

definition sort_by :: "('a \<Rightarrow> 'a \<Rightarrow> bool) \<Rightarrow> 'a list \<Rightarrow> 'a list" where
  "sort_by lt xs = foldl (\<lambda>acc x. insert_by lt x acc) [] xs"

lemma mset_insert_by [simp]: "mset (insert_by lt x xs) = add_mset x (mset xs)"
  by (induction xs) auto

lemma sort_by_snoc: "sort_by lt (xs @ [x]) = insert_by lt x (sort_by lt xs)"
  by (simp add: sort_by_def)

lemma sort_by_Nil [simp]: "sort_by lt [] = []"
  by (simp add: sort_by_def)

lemma mset_sort_by [simp]: "mset (sort_by lt xs) = mset xs"
  by (induction xs rule: rev_induct) (simp_all add: sort_by_snoc)

lemma set_sort_by [simp]: "set (sort_by lt xs) = set xs"
  by (metis mset_sort_by set_mset_mset)

lemma set_insert_by [simp]: "set (insert_by lt x xs) = insert x (set xs)"
  by (metis mset_insert_by set_mset_add_mset_insert set_mset_mset)

lemma length_insert_by [simp]: "length (insert_by lt x xs) = Suc (length xs)"
  by (induction xs) auto

lemma length_sort_by [simp]: "length (sort_by lt xs) = length xs"
  by (induction xs rule: rev_induct) (simp_all add: sort_by_snoc)

lemma distinct_sort_by [simp]: "distinct (sort_by lt xs) = distinct xs"
  by (metis mset_sort_by mset_eq_imp_distinct_iff)

lemma insert_by_last: "\<forall>y \<in> set xs. \<not> lt x y \<Longrightarrow> insert_by lt x xs = xs @ [x]"
  by (induction xs) auto

lemma insert_by_cong:
  "(\<And>y. y \<in> set xs \<Longrightarrow> lt x y = lt' x y) \<Longrightarrow> insert_by lt x xs = insert_by lt' x xs"
  by (induction xs) auto

text \<open>Inserting into a list sorted by a relation that is total and transitive on its elements.\<close>

lemma sorted_wrt_insert_by:
  assumes "sorted_wrt lt xs"
    and "\<And>y. y \<in> set xs \<Longrightarrow> lt x y \<or> lt y x"
    and "\<And>y z. y \<in> set xs \<Longrightarrow> z \<in> set xs \<Longrightarrow> lt x y \<Longrightarrow> lt y z \<Longrightarrow> lt x z"
  shows "sorted_wrt lt (insert_by lt x xs)"
  using assms by (induction xs) auto

lemma sort_by_sorted:
  assumes "sorted_wrt lt xs" and "\<And>x y. x \<in> set xs \<Longrightarrow> y \<in> set xs \<Longrightarrow> lt x y \<Longrightarrow> \<not> lt y x"
  shows "sort_by lt xs = xs"
  using assms
proof (induction xs rule: rev_induct)
  case (snoc x xs)
  have "\<forall>y \<in> set xs. \<not> lt x y"
    using snoc.prems by (auto simp: sorted_wrt_append)
  moreover have "sort_by lt xs = xs"
    using snoc.prems by (intro snoc.IH) (auto simp: sorted_wrt_append)
  ultimately show ?case
    by (simp add: sort_by_snoc insert_by_last)
qed simp

lemma insert_by_map: "insert_by lt (g x) (map g xs) = map g (insert_by (\<lambda>a b. lt (g a) (g b)) x xs)"
  by (induction xs) auto

lemma sort_by_map: "sort_by lt (map g xs) = map g (sort_by (\<lambda>a b. lt (g a) (g b)) xs)"
  by (induction xs rule: rev_induct) (simp_all add: sort_by_snoc insert_by_map)

lemma sort_key_mset_eq:
  assumes "mset xs = mset ys" and "inj_on f (set xs)"
  shows "sort_key f xs = sort_key f ys"
proof (rule properties_for_sort_key)
  have s: "set xs = set ys" using assms(1) by (metis set_mset_mset)
  fix k assume "k \<in> set (sort_key f ys)"
  then have k: "k \<in> set xs" by (simp add: s)
  have e: "filter (\<lambda>x. f k = f x) zs = filter ((=) k) zs" if "set zs \<subseteq> set xs" for zs
    using that k assms(2) by (intro filter_cong) (auto dest: inj_onD)
  have "count (mset (sort_key f ys)) k = count (mset xs) k" using assms(1) by simp
  then show "filter (\<lambda>x. f k = f x) (sort_key f ys) = filter (\<lambda>x. f k = f x) xs"
    using e [of xs] e [of "sort_key f ys"] s
    by (metis order_refl replicate_count_mset_eq_filter_eq set_sort)
qed (use assms in simp_all)

lemma sorted_insert_by:
  assumes "\<And>y. y \<in> set xs \<Longrightarrow> lt x y \<longleftrightarrow> f x < (f y :: 'b::linorder)" and "sorted (map f xs)"
  shows "sorted (map f (insert_by lt x xs))"
  using assms by (induction xs) (fastforce simp: not_less)+

text \<open>A comparator that agrees with a key sorts by the key.\<close>

lemma sort_by_key:
  assumes "\<And>x y. x \<in> set xs \<Longrightarrow> y \<in> set xs \<Longrightarrow> lt x y \<longleftrightarrow> f x < (f y :: 'b::linorder)"
    and "inj_on f (set xs)"
  shows "sort_by lt xs = sort_key f xs"
proof -
  have "sorted (map f (sort_by lt xs))"
    using assms(1)
  proof (induction xs rule: rev_induct)
    case (snoc x xs)
    then have "sorted (map f (sort_by lt xs))" by auto
    with snoc.prems show ?case unfolding sort_by_snoc by (intro sorted_insert_by) auto
  qed simp
  then have "sort_by lt xs = sort_key f (sort_by lt xs)" by (simp add: sorted_sort_id sort_key_id_if_sorted)
  also have "\<dots> = sort_key f xs" using assms(2) by (intro sort_key_mset_eq) simp_all
  finally show ?thesis .
qed

section \<open>Hash maps\<close>

text \<open>
  A \<^verbatim>\<open>HashMap\<close> is an association list with distinct keys, in the order the map iterates. Rust
  leaves that order open; an insertion of a new key appends here.
\<close>

type_synonym ('k, 'v) hash_map = "('k \<times> 'v) list"

definition hm_get :: "('k, 'v) hash_map \<Rightarrow> 'k \<Rightarrow> 'v option" where
  "hm_get m k = map_of m k"

fun hm_insert :: "'k \<Rightarrow> 'v \<Rightarrow> ('k, 'v) hash_map \<Rightarrow> ('k, 'v) hash_map" where
  "hm_insert k v [] = [(k, v)]"
| "hm_insert k v ((k', v') # m) = (if k = k' then (k, v) # m else (k', v') # hm_insert k v m)"

definition hm_remove :: "'k \<Rightarrow> ('k, 'v) hash_map \<Rightarrow> ('k, 'v) hash_map" where
  "hm_remove k m = filter (\<lambda>(k', v). k' \<noteq> k) m"

definition hm_keys :: "('k, 'v) hash_map \<Rightarrow> 'k list" where
  "hm_keys m = map fst m"

definition hm_values :: "('k, 'v) hash_map \<Rightarrow> 'v list" where
  "hm_values m = map snd m"

text \<open>\<^verbatim>\<open>values_mut\<close> and \<^verbatim>\<open>get_mut\<close>: update every value, or the value of one key.\<close>

definition hm_map :: "('v \<Rightarrow> 'v) \<Rightarrow> ('k, 'v) hash_map \<Rightarrow> ('k, 'v) hash_map" where
  "hm_map f m = map (\<lambda>(k, v). (k, f v)) m"

definition hm_adjust :: "'k \<Rightarrow> ('v \<Rightarrow> 'v) \<Rightarrow> ('k, 'v) hash_map \<Rightarrow> ('k, 'v) hash_map" where
  "hm_adjust k f m = map (\<lambda>(k', v). (k', if k' = k then f v else v)) m"

definition hm_inv :: "('k, 'v) hash_map \<Rightarrow> bool" where
  "hm_inv m \<longleftrightarrow> distinct (hm_keys m)"

lemma hm_get_insert [hm_simps]: "hm_get (hm_insert k v m) j = (if j = k then Some v else hm_get m j)"
  by (induction m) (auto simp: hm_get_def)

lemma hm_get_remove [hm_simps]: "hm_get (hm_remove k m) j = (if j = k then None else hm_get m j)"
  by (induction m) (auto simp: hm_get_def hm_remove_def)

lemma hm_get_map [hm_simps]: "hm_get (hm_map f m) j = map_option f (hm_get m j)"
  by (induction m) (auto simp: hm_get_def hm_map_def)

lemma hm_get_adjust [hm_simps]:
  "hm_get (hm_adjust k f m) j = (if j = k then map_option f (hm_get m j) else hm_get m j)"
  by (induction m) (auto simp: hm_get_def hm_adjust_def)

lemma hm_get_Nil [hm_simps]: "hm_get [] j = None"
  by (simp add: hm_get_def)

lemma hm_get_None_iff: "hm_get m k = None \<longleftrightarrow> k \<notin> set (hm_keys m)"
  by (simp add: hm_get_def hm_keys_def map_of_eq_None_iff)

lemma hm_get_in: "hm_get m k = Some v \<Longrightarrow> (k, v) \<in> set m"
  by (simp add: hm_get_def map_of_SomeD)

lemma hm_get_eq_in: "hm_inv m \<Longrightarrow> hm_get m k = Some v \<longleftrightarrow> (k, v) \<in> set m"
  by (simp add: hm_get_def hm_inv_def hm_keys_def map_of_eq_Some_iff)

lemma hm_keys_insert [hm_simps]:
  "hm_keys (hm_insert k v m) = (if k \<in> set (hm_keys m) then hm_keys m else hm_keys m @ [k])"
  by (induction m) (auto simp: hm_keys_def rev_image_eqI)

lemma hm_insert_new: "k \<notin> set (hm_keys m) \<Longrightarrow> hm_insert k v m = m @ [(k, v)]"
  by (induction m) (auto simp: hm_keys_def)

lemma length_hm_insert_new: "k \<notin> set (hm_keys m) \<Longrightarrow> length (hm_insert k v m) = Suc (length m)"
  by (simp add: hm_insert_new)

lemma hm_keys_remove [hm_simps]: "hm_keys (hm_remove k m) = filter (\<lambda>j. j \<noteq> k) (hm_keys m)"
  by (induction m) (auto simp: hm_keys_def hm_remove_def)

lemma hm_keys_map [hm_simps]: "hm_keys (hm_map f m) = hm_keys m"
  by (induction m) (auto simp: hm_keys_def hm_map_def)

lemma hm_keys_adjust [hm_simps]: "hm_keys (hm_adjust k f m) = hm_keys m"
  by (induction m) (auto simp: hm_keys_def hm_adjust_def)

lemma hm_keys_Nil [hm_simps]: "hm_keys [] = []"
  by (simp add: hm_keys_def)

lemma hm_inv_insert: "hm_inv m \<Longrightarrow> hm_inv (hm_insert k v m)"
  by (simp add: hm_inv_def hm_simps)

lemma hm_inv_remove: "hm_inv m \<Longrightarrow> hm_inv (hm_remove k m)"
  by (simp add: hm_inv_def hm_simps)

lemma length_hm_keys: "length (hm_keys m) = length m"
  by (simp add: hm_keys_def)

text \<open>Sums over the values of a map.\<close>

lemma hm_remove_absent: "k \<notin> set (hm_keys m) \<Longrightarrow> hm_remove k m = m"
  by (induction m) (auto simp: hm_remove_def hm_keys_def)

lemma hm_adjust_absent: "k \<notin> set (hm_keys m) \<Longrightarrow> hm_adjust k f m = m"
  by (induction m) (auto simp: hm_adjust_def hm_keys_def)

lemma length_hm_adjust [simp]: "length (hm_adjust k f m) = length m"
  by (simp add: hm_adjust_def)

lemma length_hm_map [simp]: "length (hm_map f m) = length m"
  by (simp add: hm_map_def)

lemma hm_in_remove: "(j, v) \<in> set (hm_remove k m) \<longleftrightarrow> j \<noteq> k \<and> (j, v) \<in> set m"
  by (auto simp: hm_remove_def)

lemma hm_in_adjust: "(j, v) \<in> set (hm_adjust k f m) \<longleftrightarrow> (\<exists>w. (j, w) \<in> set m \<and> v = (if j = k then f w else w))"
  by (induction m) (auto simp: hm_adjust_def)

lemma hm_in_map: "(j, v) \<in> set (hm_map f m) \<longleftrightarrow> (\<exists>w. (j, w) \<in> set m \<and> v = f w)"
  by (induction m) (auto simp: hm_map_def)

lemma hm_in_insert: "(j, v) \<in> set (hm_insert k w m) \<Longrightarrow> j = k \<and> v = w \<or> (j, v) \<in> set m"
  by (induction m) (auto split: if_splits)

lemma sum_hm_values_remove:
  "hm_inv m \<Longrightarrow> hm_get m k = Some v \<Longrightarrow>
   sum_list (map f (hm_values m)) = (f v :: nat) + sum_list (map f (hm_values (hm_remove k m)))"
proof (induction m)
  case (Cons e m)
  obtain j w where e: "e = (j, w)" by (cases e)
  have inv: "hm_inv m" "j \<notin> set (hm_keys m)" using Cons.prems(1) e by (auto simp: hm_inv_def hm_keys_def)
  show ?case
  proof (cases "j = k")
    case True
    with hm_remove_absent [of k m] inv(2) e Cons.prems show ?thesis by (simp add: hm_get_def hm_remove_def hm_values_def)
  next
    case False
    with Cons e inv show ?thesis by (simp add: hm_get_def hm_remove_def hm_values_def)
  qed
qed (simp add: hm_get_def)

lemma sum_hm_values_adjust:
  "hm_inv m \<Longrightarrow> hm_get m k = Some v \<Longrightarrow>
   sum_list (map f (hm_values (hm_adjust k g m))) + f v = sum_list (map f (hm_values m)) + (f (g v) :: nat)"
proof (induction m)
  case (Cons e m)
  obtain j w where e: "e = (j, w)" by (cases e)
  have inv: "hm_inv m" "j \<notin> set (hm_keys m)" using Cons.prems(1) e by (auto simp: hm_inv_def hm_keys_def)
  show ?case
  proof (cases "j = k")
    case True
    with hm_adjust_absent [of k m g] inv(2) e Cons.prems show ?thesis by (simp add: hm_get_def hm_adjust_def hm_values_def)
  next
    case False
    with Cons e inv show ?thesis by (simp add: hm_get_def hm_adjust_def hm_values_def)
  qed
qed (simp add: hm_get_def)

lemma sum_hm_values_insert:
  "hm_get m k = None \<Longrightarrow> sum_list (map f (hm_values (hm_insert k v m))) = sum_list (map f (hm_values m)) + (f v :: nat)"
  by (simp add: hm_get_None_iff hm_insert_new hm_values_def)

lemma sum_hm_values_map:
  "(\<And>v. f (g v) = f v) \<Longrightarrow> sum_list (map f (hm_values (hm_map g m))) = sum_list (map f (hm_values m))"
  by (induction m) (auto simp: hm_values_def hm_map_def)

text \<open>The interface of a map: what a lookup returns after each update.\<close>

locale finite_map =
  fixes lookup :: "'m \<Rightarrow> 'k \<Rightarrow> 'v option"
    and insert :: "'k \<Rightarrow> 'v \<Rightarrow> 'm \<Rightarrow> 'm"
    and remove :: "'k \<Rightarrow> 'm \<Rightarrow> 'm"
    and keys :: "'m \<Rightarrow> 'k list"
    and invar :: "'m \<Rightarrow> bool"
  assumes lookup_insert: "lookup (insert k v m) j = (if j = k then Some v else lookup m j)"
    and lookup_remove: "lookup (remove k m) j = (if j = k then None else lookup m j)"
    and lookup_None: "lookup m k = None \<longleftrightarrow> k \<notin> set (keys m)"
    and keys_distinct: "invar m \<Longrightarrow> distinct (keys m)"
    and invar_insert: "invar m \<Longrightarrow> invar (insert k v m)"
    and invar_remove: "invar m \<Longrightarrow> invar (remove k m)"
begin

lemma set_keys_insert: "set (keys (insert k v m)) = Set.insert k (set (keys m))"
proof (rule set_eqI)
  fix x show "x \<in> set (keys (insert k v m)) \<longleftrightarrow> x \<in> Set.insert k (set (keys m))"
    using lookup_None [of "insert k v m" x] lookup_None [of m x] by (auto simp: lookup_insert split: if_splits)
qed

lemma set_keys_remove: "set (keys (remove k m)) = set (keys m) - {k}"
proof (rule set_eqI)
  fix x show "x \<in> set (keys (remove k m)) \<longleftrightarrow> x \<in> set (keys m) - {k}"
    using lookup_None [of "remove k m" x] lookup_None [of m x] by (auto simp: lookup_remove split: if_splits)
qed

lemma length_keys_insert:
  assumes "invar m"
  shows "length (keys (insert k v m)) = (if lookup m k = None then Suc (length (keys m)) else length (keys m))"
proof -
  have d: "distinct (keys (insert k v m))" "distinct (keys m)"
    using assms by (auto intro: keys_distinct invar_insert)
  have "card (set (keys (insert k v m))) = card (Set.insert k (set (keys m)))"
    by (simp add: set_keys_insert)
  with d show ?thesis
    by (auto simp: distinct_card lookup_None card_insert_if)
qed

lemma length_keys_remove:
  assumes "invar m" and "lookup m k = Some v"
  shows "Suc (length (keys (remove k m))) = length (keys m)"
proof -
  have d: "distinct (keys (remove k m))" "distinct (keys m)"
    using assms by (auto intro: keys_distinct invar_remove)
  have k: "k \<in> set (keys m)"
    using assms lookup_None [of m k] by auto
  have "card (set (keys (remove k m))) = card (set (keys m) - {k})"
    by (simp add: set_keys_remove)
  with d k show ?thesis
    by (metis List.finite_set card.remove distinct_card)
qed

end

interpretation hm: finite_map hm_get hm_insert hm_remove hm_keys hm_inv
  by unfold_locales
    (auto simp: hm_simps hm_get_None_iff hm_inv_def)

section \<open>Notifications\<close>

text \<open>
  \<^verbatim>\<open>tokio::sync::Notify\<close> with at most one waiting task. \<^verbatim>\<open>notify_one\<close> leaves a permit when nobody waits;
  \<^verbatim>\<open>notify_waiters\<close> does not.
\<close>

datatype notify = N_Empty | N_Waiting | N_Notified

fun notify_one :: "notify \<Rightarrow> notify" where
  "notify_one _ = N_Notified"

fun notify_waiters :: "notify \<Rightarrow> notify" where
  "notify_waiters N_Waiting = N_Notified"
| "notify_waiters n = n"

section \<open>Words\<close>

lemma unat_succ_diff:
  fixes a b :: "'a::len word"
  assumes "a \<noteq> b"
  shows "Suc (unat (b - (a + 1))) = unat (b - a)"
proof -
  have "b - a \<noteq> 0" using assms by simp
  then have "unat (b - a - 1) = unat (b - a) - 1" by (simp add: unat_minus_one)
  moreover have "0 < unat (b - a)" using \<open>b - a \<noteq> 0\<close> by (simp add: unat_gt_0)
  ultimately show ?thesis by (simp add: diff_diff_eq)
qed

lemma nat_dist_sum:
  "(x::nat) < N \<Longrightarrow> y < N \<Longrightarrow> x \<noteq> y \<Longrightarrow>
   (if x \<le> y then y - x else y + N - x) + (if y \<le> x then x - y else x + N - y) = N"
  by auto

lemma word_dist_sum:
  fixes a b :: "'a::len word"
  assumes "a \<noteq> b"
  shows "unat (b - a) + unat (a - b) = 2 ^ LENGTH('a)"
proof -
  have "unat a < 2 ^ LENGTH('a)" "unat b < 2 ^ LENGTH('a)" "unat a \<noteq> unat b"
    using assms by (simp_all add: word_unat_eq_iff)
  then show ?thesis using nat_dist_sum by (simp only: unat_sub_if')
qed

end
