(* ===== verification/Sctp_Error.thy ===== *)
theory Sctp_Error
  imports Sctp_Prelude
begin

text \<open>The errors of the SCTP stack (\<^verbatim>\<open>sctp/error.rs\<close>), one constructor per variant of \<^verbatim>\<open>Error\<close>.\<close>

datatype (plugins only: code size) error =
    ErrChunkHeaderTooSmall
  | ErrChunkHeaderNotEnoughSpace
  | ErrChunkHeaderPaddingNonZero
  | ErrChunkHeaderInvalidLength
  | ErrChunkTypeNotAbort
  | ErrChunkTypeNotCookieAck
  | ErrChunkTypeNotCookieEcho
  | ErrChunkTypeNotCtError
  | ErrChunkTooShort
  | ErrChunkTypeNotForwardTsn
  | ErrChunkTypeNotHeartbeat
  | ErrChunkTypeNotHeartbeatAck
  | ErrHeartbeatNotLongEnoughInfo
  | ErrHeartbeatParam
  | ErrHeartbeatAckParams
  | ErrHeartbeatAckNotHeartbeatInfo
  | ErrErrorCauseTooSmall
  | ErrParamTypeUnhandled
  | ErrParamTypeUnexpected
  | ErrParamHeaderTooShort
  | ErrSsnResetRequestParamTooShort
  | ErrReconfigRespParamTooShort
  | ErrInvalidAlgorithmType
  | ErrChunkTypeNotTypeInit
  | ErrChunkValueNotLongEnough
  | ErrChunkTypeInitFlagZero
  | ErrChunkTypeInitInitateTagZero
  | ErrInitInboundStreamRequestZero
  | ErrInitOutboundStreamRequestZero
  | ErrInitAdvertisedReceiver1500
  | ErrChunkPayloadSmall
  | ErrChunkTypeNotPayloadData
  | ErrChunkTypeNotReconfig
  | ErrChunkReconfigInvalidParamA
  | ErrChunkTypeNotSack
  | ErrSackSizeNotLargeEnoughInfo
  | ErrInvalidChunkSize
  | ErrChunkTypeNotShutdown
  | ErrChunkTypeNotShutdownAck
  | ErrChunkTypeNotShutdownComplete
  | ErrPacketRawTooSmall
  | ErrParseSctpChunkNotEnoughData
  | ErrUnmarshalUnknownChunkType
  | ErrChecksumMismatch
  | ErrTryAgain
  | ErrChunk
  | ErrAssociationHandshakeClosed
  | ErrInitNotStoredToSend
  | ErrCookieEchoNotStoredToSend
  | ErrSctpPacketSourcePortZero
  | ErrSctpPacketDestinationPortZero
  | ErrInitChunkBundled
  | ErrInitChunkVerifyTagNotZero
  | ErrHandleInitState
  | ErrInitAckNoCookie
  | ErrStreamAlreadyExist
  | ErrStreamCreateFailed
  | ErrInflightQueueTsnPop
  | ErrTsnRequestNotExist
  | ErrResetPacketInStateNotExist
  | ErrParamterType
  | ErrPayloadDataStateNotExist
  | ErrChunkTypeUnhandled
  | ErrHandshakeInitAck
  | ErrHandshakeCookieEcho
  | ErrOutboundPacketTooLarge
  | ErrStreamClosed
  | ErrShortBuffer
  | ErrEof
  | ErrInvalidSystemTime

type_synonym 'a result = "(error, 'a) outcome"

end
