(* ===== verification/Sctp_Util.thy ===== *)
theory Sctp_Util
  imports Sctp_Error
begin

text \<open>
  \<^verbatim>\<open>sctp/util.rs\<close>: padding, the packet checksum and serial number arithmetic (RFC 1982) on 32-bit
  transmission sequence numbers and 16-bit stream sequence numbers. The order laws of serial
  arithmetic are proved once, in a locale over words of any width, and interpreted at both widths.
\<close>

section \<open>Definitions\<close>

definition get_padding_size :: "nat \<Rightarrow> nat" where
  "get_padding_size len = (4 - (len mod 4)) mod 4"

text \<open>
  The CRC-32 (iSCSI) of the \<^verbatim>\<open>crc\<close> crate is a parameter \<open>crc\<close>; a digest updated piecewise is the
  checksum of the concatenation. \<^verbatim>\<open>raw[0..8]\<close> and \<^verbatim>\<open>raw[12..]\<close> panic on a short buffer.
\<close>

definition generate_packet_checksum :: "(bytes \<Rightarrow> u32) \<Rightarrow> bytes \<Rightarrow> u32 result" where
  "generate_packet_checksum crc raw =
     (if length raw < 12 then Panic
      else Ok (crc (take 8 raw @ [0, 0, 0, 0] @ drop 12 raw)))"

definition sna32lt :: "u32 \<Rightarrow> u32 \<Rightarrow> bool" where
  "sna32lt i1 i2 \<longleftrightarrow>
     (i1 < i2 \<and> i2 - i1 < push_bit 31 1) \<or> (i1 > i2 \<and> i1 - i2 > push_bit 31 1)"

definition sna32lte :: "u32 \<Rightarrow> u32 \<Rightarrow> bool" where
  "sna32lte i1 i2 \<longleftrightarrow> i1 = i2 \<or> sna32lt i1 i2"

definition sna32gt :: "u32 \<Rightarrow> u32 \<Rightarrow> bool" where
  "sna32gt i1 i2 \<longleftrightarrow>
     (i1 < i2 \<and> i2 - i1 \<ge> push_bit 31 1) \<or> (i1 > i2 \<and> i1 - i2 \<le> push_bit 31 1)"

definition sna32gte :: "u32 \<Rightarrow> u32 \<Rightarrow> bool" where
  "sna32gte i1 i2 \<longleftrightarrow> i1 = i2 \<or> sna32gt i1 i2"

definition sna16lt :: "u16 \<Rightarrow> u16 \<Rightarrow> bool" where
  "sna16lt i1 i2 \<longleftrightarrow>
     (i1 < i2 \<and> i2 - i1 < push_bit 15 1) \<or> (i1 > i2 \<and> i1 - i2 > push_bit 15 1)"

definition sna16lte :: "u16 \<Rightarrow> u16 \<Rightarrow> bool" where
  "sna16lte i1 i2 \<longleftrightarrow> i1 = i2 \<or> sna16lt i1 i2"

definition sna16gt :: "u16 \<Rightarrow> u16 \<Rightarrow> bool" where
  "sna16gt i1 i2 \<longleftrightarrow>
     (i1 < i2 \<and> i2 - i1 \<ge> push_bit 15 1) \<or> (i1 > i2 \<and> i1 - i2 \<le> push_bit 15 1)"

section \<open>Padding\<close>

lemma padding_aligns: "4 dvd len + get_padding_size len"
proof -
  have "len mod 4 < 4" by simp
  then consider "len mod 4 = 0" | "len mod 4 = 1" | "len mod 4 = 2" | "len mod 4 = 3"
    by linarith
  then show ?thesis
  proof cases
    case 1
    then have "get_padding_size len = 0" by (simp add: get_padding_size_def)
    with 1 show ?thesis by presburger
  next
    case 2
    then have "get_padding_size len = 3" by (simp add: get_padding_size_def)
    with 2 show ?thesis by presburger
  next
    case 3
    then have "get_padding_size len = 2" by (simp add: get_padding_size_def)
    with 3 show ?thesis by presburger
  next
    case 4
    then have "get_padding_size len = 1" by (simp add: get_padding_size_def)
    with 4 show ?thesis by presburger
  qed
qed

lemma padding_lt_4: "get_padding_size len < 4"
  by (simp add: get_padding_size_def)

lemma padding_header [simp]: "get_padding_size (4 + n) = get_padding_size n"
  by (simp add: get_padding_size_def)

lemma padding_aligned: "4 dvd m \<Longrightarrow> get_padding_size (m + n) = get_padding_size n"
  by (auto simp: get_padding_size_def)

section \<open>Serial number arithmetic\<close>

locale serial_arith =
  fixes lt gt :: "'a::len word \<Rightarrow> 'a word \<Rightarrow> bool"
  assumes width: "2 \<le> LENGTH('a)"
    and lt_iff: "lt a b \<longleftrightarrow> a \<noteq> b \<and> unat (b - a) < 2 ^ (LENGTH('a) - 1)"
    and gt_iff: "gt a b \<longleftrightarrow> a \<noteq> b \<and> \<not> lt a b"
begin

lemma half: "2 ^ LENGTH('a) = 2 * (2 ^ (LENGTH('a) - 1) :: nat)"
  using width by (cases "LENGTH('a)") auto

lemma lt_irrefl: "\<not> lt a a"
  by (simp add: lt_iff)

lemma lt_asym: "lt a b \<Longrightarrow> \<not> lt b a"
  using word_dist_sum [of a b] half by (auto simp: lt_iff)

lemma trichotomy:
  "(lt a b \<and> a \<noteq> b \<and> \<not> gt a b) \<or> (\<not> lt a b \<and> a = b \<and> \<not> gt a b) \<or> (\<not> lt a b \<and> a \<noteq> b \<and> gt a b)"
  by (auto simp: gt_iff lt_irrefl)

lemma lt_imp_gt: "lt a b \<Longrightarrow> gt b a"
  using lt_asym [of a b] by (auto simp: gt_iff lt_irrefl)

lemma gt_both_iff: "gt a b \<and> gt b a \<longleftrightarrow> unat (b - a) = 2 ^ (LENGTH('a) - 1)"
proof (cases "a = b")
  case False
  with word_dist_sum [of a b] half show ?thesis by (auto simp: gt_iff lt_iff)
qed (simp add: gt_iff)

text \<open>Inside a window of half the number space above a base, the order is the order of distances.\<close>

lemma lt_window:
  assumes "unat (x - c) < 2 ^ (LENGTH('a) - 1)" and "unat (y - c) < 2 ^ (LENGTH('a) - 1)"
  shows "lt x y \<longleftrightarrow> unat (x - c) < unat (y - c)"
proof -
  have d: "(y - c) - (x - c) = y - x" by simp
  show ?thesis
  proof (cases "unat (x - c) \<le> unat (y - c)")
    case True
    then have "unat (y - x) = unat (y - c) - unat (x - c)"
      using unat_sub [of "x - c" "y - c"] unfolding d by (simp add: word_le_nat_alt)
    moreover have "x \<noteq> y \<longleftrightarrow> unat (x - c) \<noteq> unat (y - c)"
      by (simp add: word_unat_eq_iff [symmetric])
    ultimately show ?thesis using True assms by (auto simp: lt_iff)
  next
    case False
    then have "unat (y - x) = unat (y - c) + 2 ^ LENGTH('a) - unat (x - c)"
      using unat_sub_if' [of "y - c" "x - c"] unfolding d by (simp add: word_le_nat_alt)
    with False assms half show ?thesis by (auto simp: lt_iff)
  qed
qed

lemma lt_succ: "lt a (a + 1)"
proof -
  have "(2::nat) ^ 1 \<le> 2 ^ (LENGTH('a) - 1)" using width by (intro power_increasing) auto
  then show ?thesis using width by (simp add: lt_iff)
qed

lemma lt_dist: "lt a b \<Longrightarrow> 0 < unat (b - a)"
  by (auto simp: lt_iff unat_gt_0)

lemma lt_step:
  assumes "lt a b" shows "a + 1 = b \<or> lt (a + 1) b"
  using assms unat_succ_diff [of a b] by (auto simp: lt_iff)

lemma lt_step_dist: "lt a b \<Longrightarrow> unat (b - (a + 1)) < unat (b - a)"
  using unat_succ_diff [of a b] by (auto simp: lt_iff)

end

lemma sna32lt_iff: "sna32lt a b \<longleftrightarrow> a \<noteq> b \<and> unat (b - a) < 2 ^ 31"
proof (cases "a = b")
  case False
  then have "unat (b - a) + unat (a - b) = 2 ^ 32" using word_dist_sum [of a b] by simp
  moreover have "a < b \<or> b < a" using False by auto
  moreover have "b < a \<Longrightarrow> \<not> a < b" by simp
  ultimately show ?thesis using False
    unfolding sna32lt_def word_less_nat_alt [of _ "push_bit 31 1"] word_less_nat_alt [of "push_bit 31 1"]
    by (auto simp del: unat_sub)
qed (simp add: sna32lt_def)

lemma sna32gt_iff: "sna32gt a b \<longleftrightarrow> a \<noteq> b \<and> \<not> sna32lt a b"
  by (auto simp: sna32gt_def sna32lt_def not_less not_le)

lemma sna16lt_iff: "sna16lt a b \<longleftrightarrow> a \<noteq> b \<and> unat (b - a) < 2 ^ 15"
proof (cases "a = b")
  case False
  then have "unat (b - a) + unat (a - b) = 2 ^ 16" using word_dist_sum [of a b] by simp
  moreover have "a < b \<or> b < a" using False by auto
  moreover have "b < a \<Longrightarrow> \<not> a < b" by simp
  ultimately show ?thesis using False
    unfolding sna16lt_def word_less_nat_alt [of _ "push_bit 15 1"] word_less_nat_alt [of "push_bit 15 1"]
    by (auto simp del: unat_sub)
qed (simp add: sna16lt_def)

lemma sna16gt_iff: "sna16gt a b \<longleftrightarrow> a \<noteq> b \<and> \<not> sna16lt a b"
  by (auto simp: sna16gt_def sna16lt_def not_less not_le)

interpretation sna32: serial_arith sna32lt sna32gt
  by unfold_locales (simp_all add: sna32lt_iff sna32gt_iff)

interpretation sna16: serial_arith sna16lt sna16gt
  by unfold_locales (simp_all add: sna16lt_iff sna16gt_iff)

lemma sna32lte_iff: "sna32lte a b \<longleftrightarrow> unat (b - a) < 2 ^ 31"
  by (auto simp: sna32lte_def sna32lt_iff)

lemma sna32lte_not_gt: "sna32lte a b \<longleftrightarrow> \<not> sna32gt a b"
  using sna32.trichotomy [of a b] by (auto simp: sna32lte_def)

lemma sna16lte_not_gt: "sna16lte a b \<longleftrightarrow> \<not> sna16gt a b"
  using sna16.trichotomy [of a b] by (auto simp: sna16lte_def)

end
