(* ===== verification/Sctp_Param.thy ===== *)
theory Sctp_Param
  imports Sctp_Util
begin

text \<open>
  \<^verbatim>\<open>sctp/param/\<close>: the type-length-value parameters of INIT, HEARTBEAT and RECONFIG chunks. The trait
  object \<^verbatim>\<open>Box<dyn Param>\<close> is the datatype \<open>param\<close>, with one constructor per implementing struct.
  The interface locale \<open>prefix_codec\<close> states what a decoder promises on an encoded value that is
  followed by more bytes; \<open>build_param\<close> is shown to provide it.
\<close>

section \<open>Parameter types and headers\<close>

datatype (plugins only: code size) param_type =
    PT_HeartbeatInfo
  | PT_Ipv4Addr
  | PT_Ipv6Addr
  | PT_StateCookie
  | PT_UnrecognizedParam
  | PT_CookiePreservative
  | PT_HostNameAddr
  | PT_SupportedAddrTypes
  | PT_OutSsnResetReq
  | PT_IncSsnResetReq
  | PT_SsnTsnResetReq
  | PT_ReconfigResp
  | PT_AddOutStreamsReq
  | PT_AddIncStreamsReq
  | PT_Random
  | PT_ChunkList
  | PT_ReqHmacAlgo
  | PT_Padding
  | PT_SupportedExt
  | PT_ForwardTsnSupp
  | PT_AddIpAddr
  | PT_DelIpaddr
  | PT_ErrClauseInd
  | PT_SetPriAddr
  | PT_SuccessInd
  | PT_Unknown

definition param_type_from :: "u16 \<Rightarrow> param_type" where
  "param_type_from v =
     (if v = 1 then PT_HeartbeatInfo
      else if v = 5 then PT_Ipv4Addr
      else if v = 6 then PT_Ipv6Addr
      else if v = 7 then PT_StateCookie
      else if v = 8 then PT_UnrecognizedParam
      else if v = 9 then PT_CookiePreservative
      else if v = 11 then PT_HostNameAddr
      else if v = 12 then PT_SupportedAddrTypes
      else if v = 13 then PT_OutSsnResetReq
      else if v = 14 then PT_IncSsnResetReq
      else if v = 15 then PT_SsnTsnResetReq
      else if v = 16 then PT_ReconfigResp
      else if v = 17 then PT_AddOutStreamsReq
      else if v = 18 then PT_AddIncStreamsReq
      else if v = 32770 then PT_Random
      else if v = 32771 then PT_ChunkList
      else if v = 32772 then PT_ReqHmacAlgo
      else if v = 32773 then PT_Padding
      else if v = 32776 then PT_SupportedExt
      else if v = 49152 then PT_ForwardTsnSupp
      else if v = 49153 then PT_AddIpAddr
      else if v = 49154 then PT_DelIpaddr
      else if v = 49155 then PT_ErrClauseInd
      else if v = 49156 then PT_SetPriAddr
      else if v = 49157 then PT_SuccessInd
      else PT_Unknown)"

text \<open>The cast \<^verbatim>\<open>typ as u16\<close> yields the discriminant; that of \<^verbatim>\<open>Unknown\<close> follows the last explicit one.\<close>

fun param_type_as_u16 :: "param_type \<Rightarrow> u16" where
  "param_type_as_u16 PT_HeartbeatInfo = 1"
| "param_type_as_u16 PT_Ipv4Addr = 5"
| "param_type_as_u16 PT_Ipv6Addr = 6"
| "param_type_as_u16 PT_StateCookie = 7"
| "param_type_as_u16 PT_UnrecognizedParam = 8"
| "param_type_as_u16 PT_CookiePreservative = 9"
| "param_type_as_u16 PT_HostNameAddr = 11"
| "param_type_as_u16 PT_SupportedAddrTypes = 12"
| "param_type_as_u16 PT_OutSsnResetReq = 13"
| "param_type_as_u16 PT_IncSsnResetReq = 14"
| "param_type_as_u16 PT_SsnTsnResetReq = 15"
| "param_type_as_u16 PT_ReconfigResp = 16"
| "param_type_as_u16 PT_AddOutStreamsReq = 17"
| "param_type_as_u16 PT_AddIncStreamsReq = 18"
| "param_type_as_u16 PT_Random = 32770"
| "param_type_as_u16 PT_ChunkList = 32771"
| "param_type_as_u16 PT_ReqHmacAlgo = 32772"
| "param_type_as_u16 PT_Padding = 32773"
| "param_type_as_u16 PT_SupportedExt = 32776"
| "param_type_as_u16 PT_ForwardTsnSupp = 49152"
| "param_type_as_u16 PT_AddIpAddr = 49153"
| "param_type_as_u16 PT_DelIpaddr = 49154"
| "param_type_as_u16 PT_ErrClauseInd = 49155"
| "param_type_as_u16 PT_SetPriAddr = 49156"
| "param_type_as_u16 PT_SuccessInd = 49157"
| "param_type_as_u16 PT_Unknown = 49158"

definition PARAM_HEADER_LENGTH :: nat where
  "PARAM_HEADER_LENGTH = 4"

record param_header =
  ph_typ :: param_type
  ph_value_length :: u16

definition param_header_unmarshal :: "bytes \<Rightarrow> param_header result" where
  "param_header_unmarshal raw =
     (if length raw < PARAM_HEADER_LENGTH then Err ErrParamHeaderTooShort
      else obind (get_u16 raw) (\<lambda>(t, reader). obind (get_u16 reader) (\<lambda>(l, _).
        let len = unat l in
        if len < PARAM_HEADER_LENGTH \<or> length raw < len then Err ErrParamHeaderTooShort
        else Ok \<lparr>ph_typ = param_type_from t, ph_value_length = of_nat (len - PARAM_HEADER_LENGTH)\<rparr>)))"

definition param_header_marshal :: "param_header \<Rightarrow> bytes" where
  "param_header_marshal h =
     put_u16 (param_type_as_u16 (ph_typ h)) @ put_u16 (ph_value_length h + of_nat PARAM_HEADER_LENGTH)"

text \<open>The reader over the parameter's value, \<^verbatim>\<open>raw.slice(4..4 + header.value_length())\<close>.\<close>

definition param_value :: "param_header \<Rightarrow> bytes \<Rightarrow> bytes result" where
  "param_value h raw =
     bytes_slice raw PARAM_HEADER_LENGTH (PARAM_HEADER_LENGTH + unat (ph_value_length h))"

section \<open>The parameters\<close>

datatype hmac_algorithm = HmacResv1 | HmacSha128 | HmacResv2 | HmacSha256 | HmacUnknown

definition hmac_algorithm_from :: "u16 \<Rightarrow> hmac_algorithm" where
  "hmac_algorithm_from v =
     (if v = 0 then HmacResv1 else if v = 1 then HmacSha128 else if v = 2 then HmacResv2
      else if v = 3 then HmacSha256 else HmacUnknown)"

fun hmac_algorithm_as_u16 :: "hmac_algorithm \<Rightarrow> u16" where
  "hmac_algorithm_as_u16 HmacResv1 = 0"
| "hmac_algorithm_as_u16 HmacSha128 = 1"
| "hmac_algorithm_as_u16 HmacResv2 = 2"
| "hmac_algorithm_as_u16 HmacSha256 = 3"
| "hmac_algorithm_as_u16 HmacUnknown = 4"

datatype reconfig_result = SuccessNop | SuccessPerformed | Denied | ErrorWrongSsn
  | ErrorRequestAlreadyInProgress | ErrorBadSequenceNumber | InProgress | ReconfigUnknown

definition reconfig_result_from :: "u32 \<Rightarrow> reconfig_result" where
  "reconfig_result_from v =
     (if v = 0 then SuccessNop else if v = 1 then SuccessPerformed else if v = 2 then Denied
      else if v = 3 then ErrorWrongSsn else if v = 4 then ErrorRequestAlreadyInProgress
      else if v = 5 then ErrorBadSequenceNumber else if v = 6 then InProgress
      else ReconfigUnknown)"

fun reconfig_result_as_u32 :: "reconfig_result \<Rightarrow> u32" where
  "reconfig_result_as_u32 SuccessNop = 0"
| "reconfig_result_as_u32 SuccessPerformed = 1"
| "reconfig_result_as_u32 Denied = 2"
| "reconfig_result_as_u32 ErrorWrongSsn = 3"
| "reconfig_result_as_u32 ErrorRequestAlreadyInProgress = 4"
| "reconfig_result_as_u32 ErrorBadSequenceNumber = 5"
| "reconfig_result_as_u32 InProgress = 6"
| "reconfig_result_as_u32 ReconfigUnknown = 7"

record param_outgoing_reset_request =
  reconfig_request_sequence_number :: u32
  req_reconfig_response_sequence_number :: u32
  sender_last_tsn :: u32
  stream_identifiers :: "u16 list"

record param_reconfig_response =
  reconfig_response_sequence_number :: u32
  rr_result :: reconfig_result

datatype param =
    ParamForwardTsnSupported
  | ParamSupportedExtensions "u8 list"
  | ParamRandom bytes
  | ParamRequestedHmacAlgorithm "hmac_algorithm list"
  | ParamChunkList "u8 list"
  | ParamStateCookie bytes
  | ParamHeartbeatInfo bytes
  | ParamOutgoingResetRequest param_outgoing_reset_request
  | ParamReconfigResponse param_reconfig_response

definition PARAM_OUTGOING_RESET_REQUEST_STREAM_IDENTIFIERS_OFFSET :: nat where
  "PARAM_OUTGOING_RESET_REQUEST_STREAM_IDENTIFIERS_OFFSET = 12"

fun param_value_length :: "param \<Rightarrow> nat" where
  "param_value_length ParamForwardTsnSupported = 0"
| "param_value_length (ParamSupportedExtensions ts) = length ts"
| "param_value_length (ParamRandom d) = length d"
| "param_value_length (ParamRequestedHmacAlgorithm as) = 2 * length as"
| "param_value_length (ParamChunkList ts) = length ts"
| "param_value_length (ParamStateCookie c) = length c"
| "param_value_length (ParamHeartbeatInfo i) = length i"
| "param_value_length (ParamOutgoingResetRequest p) =
     PARAM_OUTGOING_RESET_REQUEST_STREAM_IDENTIFIERS_OFFSET + length (stream_identifiers p) * 2"
| "param_value_length (ParamReconfigResponse p) = 8"

fun param_typ :: "param \<Rightarrow> param_type" where
  "param_typ ParamForwardTsnSupported = PT_ForwardTsnSupp"
| "param_typ (ParamSupportedExtensions _) = PT_SupportedExt"
| "param_typ (ParamRandom _) = PT_Random"
| "param_typ (ParamRequestedHmacAlgorithm _) = PT_ReqHmacAlgo"
| "param_typ (ParamChunkList _) = PT_ChunkList"
| "param_typ (ParamStateCookie _) = PT_StateCookie"
| "param_typ (ParamHeartbeatInfo _) = PT_HeartbeatInfo"
| "param_typ (ParamOutgoingResetRequest _) = PT_OutSsnResetReq"
| "param_typ (ParamReconfigResponse _) = PT_ReconfigResp"

definition param_header_of :: "param \<Rightarrow> param_header" where
  "param_header_of p = \<lparr>ph_typ = param_typ p, ph_value_length = of_nat (param_value_length p)\<rparr>"

fun param_body :: "param \<Rightarrow> bytes" where
  "param_body ParamForwardTsnSupported = []"
| "param_body (ParamSupportedExtensions ts) = concat (map put_u8 ts)"
| "param_body (ParamRandom d) = d"
| "param_body (ParamRequestedHmacAlgorithm as) = concat (map (\<lambda>a. put_u16 (hmac_algorithm_as_u16 a)) as)"
| "param_body (ParamChunkList ts) = concat (map put_u8 ts)"
| "param_body (ParamStateCookie c) = c"
| "param_body (ParamHeartbeatInfo i) = i"
| "param_body (ParamOutgoingResetRequest p) =
     put_u32 (reconfig_request_sequence_number p) @ put_u32 (req_reconfig_response_sequence_number p)
     @ put_u32 (sender_last_tsn p) @ concat (map put_u16 (stream_identifiers p))"
| "param_body (ParamReconfigResponse p) =
     put_u32 (reconfig_response_sequence_number p) @ put_u32 (reconfig_result_as_u32 (rr_result p))"

definition param_marshal :: "param \<Rightarrow> bytes" where
  "param_marshal p = param_header_marshal (param_header_of p) @ param_body p"

section \<open>Decoding\<close>

text \<open>\<^verbatim>\<open>while reader.has_remaining() { push(reader.get_u8()) }\<close>\<close>

fun read_chunk_types :: "bytes \<Rightarrow> u8 list" where
  "read_chunk_types [] = []"
| "read_chunk_types (b # reader) = b # read_chunk_types reader"

function hmac_loop :: "nat \<Rightarrow> nat \<Rightarrow> bytes \<Rightarrow> hmac_algorithm list result" where
  "hmac_loop vlen offset reader =
     (if offset + 1 < vlen then
        obind (get_u16 reader) (\<lambda>(v, reader').
          let a = hmac_algorithm_from v in
          if a = HmacSha128 \<or> a = HmacSha256
          then obind (hmac_loop vlen (offset + 2) reader') (\<lambda>as. Ok (a # as))
          else Err ErrInvalidAlgorithmType)
      else Ok [])"
  by pat_completeness auto
termination by (relation "measure (\<lambda>(vlen, offset, _). vlen - offset)") auto

declare hmac_loop.simps [simp del]

definition param_forward_tsn_supported_unmarshal :: "bytes \<Rightarrow> param result" where
  "param_forward_tsn_supported_unmarshal raw =
     obind (param_header_unmarshal raw) (\<lambda>_. Ok ParamForwardTsnSupported)"

definition param_supported_extensions_unmarshal :: "bytes \<Rightarrow> param result" where
  "param_supported_extensions_unmarshal raw =
     obind (param_header_unmarshal raw) (\<lambda>header. obind (param_value header raw) (\<lambda>reader.
       Ok (ParamSupportedExtensions (read_chunk_types reader))))"

definition param_random_unmarshal :: "bytes \<Rightarrow> param result" where
  "param_random_unmarshal raw =
     obind (param_header_unmarshal raw) (\<lambda>header. obind (param_value header raw) (\<lambda>d.
       Ok (ParamRandom d)))"

definition param_requested_hmac_algorithm_unmarshal :: "bytes \<Rightarrow> param result" where
  "param_requested_hmac_algorithm_unmarshal raw =
     obind (param_header_unmarshal raw) (\<lambda>header. obind (param_value header raw) (\<lambda>reader.
       obind (hmac_loop (unat (ph_value_length header)) 0 reader) (\<lambda>as.
         Ok (ParamRequestedHmacAlgorithm as))))"

definition param_chunk_list_unmarshal :: "bytes \<Rightarrow> param result" where
  "param_chunk_list_unmarshal raw =
     obind (param_header_unmarshal raw) (\<lambda>header.
       if ph_typ header \<noteq> PT_ChunkList then Err ErrParamTypeUnexpected
       else obind (param_value header raw) (\<lambda>reader. Ok (ParamChunkList (read_chunk_types reader))))"

definition param_state_cookie_unmarshal :: "bytes \<Rightarrow> param result" where
  "param_state_cookie_unmarshal raw =
     obind (param_header_unmarshal raw) (\<lambda>header. obind (param_value header raw) (\<lambda>c.
       Ok (ParamStateCookie c)))"

definition param_heartbeat_info_unmarshal :: "bytes \<Rightarrow> param result" where
  "param_heartbeat_info_unmarshal raw =
     obind (param_header_unmarshal raw) (\<lambda>header. obind (param_value header raw) (\<lambda>i.
       Ok (ParamHeartbeatInfo i)))"

definition param_outgoing_reset_request_unmarshal :: "bytes \<Rightarrow> param result" where
  "param_outgoing_reset_request_unmarshal raw =
     obind (param_header_unmarshal raw) (\<lambda>header.
       if length raw < PARAM_HEADER_LENGTH + PARAM_OUTGOING_RESET_REQUEST_STREAM_IDENTIFIERS_OFFSET
       then Err ErrSsnResetRequestParamTooShort
       else obind (param_value header raw) (\<lambda>reader.
         obind (get_u32 reader) (\<lambda>(rsn, reader). obind (get_u32 reader) (\<lambda>(resp, reader).
         obind (get_u32 reader) (\<lambda>(last_tsn, reader).
           let lim = (unat (ph_value_length header)
                        - PARAM_OUTGOING_RESET_REQUEST_STREAM_IDENTIFIERS_OFFSET) div 2 in
           obind (get_many get_u16 lim reader) (\<lambda>(ids, _).
             Ok (ParamOutgoingResetRequest
               \<lparr>reconfig_request_sequence_number = rsn, req_reconfig_response_sequence_number = resp,
                sender_last_tsn = last_tsn, stream_identifiers = ids\<rparr>)))))))"

definition param_reconfig_response_unmarshal :: "bytes \<Rightarrow> param result" where
  "param_reconfig_response_unmarshal raw =
     obind (param_header_unmarshal raw) (\<lambda>header.
       if length raw < 8 + PARAM_HEADER_LENGTH then Err ErrReconfigRespParamTooShort
       else obind (param_value header raw) (\<lambda>reader.
         obind (get_u32 reader) (\<lambda>(rsn, reader). obind (get_u32 reader) (\<lambda>(res, _).
           Ok (ParamReconfigResponse
             \<lparr>reconfig_response_sequence_number = rsn, rr_result = reconfig_result_from res\<rparr>)))))"

definition build_param_as :: "param_type \<Rightarrow> bytes \<Rightarrow> param result" where
  "build_param_as t raw =
     (case t of
        PT_ForwardTsnSupp \<Rightarrow> param_forward_tsn_supported_unmarshal raw
      | PT_SupportedExt \<Rightarrow> param_supported_extensions_unmarshal raw
      | PT_Random \<Rightarrow> param_random_unmarshal raw
      | PT_ReqHmacAlgo \<Rightarrow> param_requested_hmac_algorithm_unmarshal raw
      | PT_ChunkList \<Rightarrow> param_chunk_list_unmarshal raw
      | PT_StateCookie \<Rightarrow> param_state_cookie_unmarshal raw
      | PT_HeartbeatInfo \<Rightarrow> param_heartbeat_info_unmarshal raw
      | PT_OutSsnResetReq \<Rightarrow> param_outgoing_reset_request_unmarshal raw
      | PT_ReconfigResp \<Rightarrow> param_reconfig_response_unmarshal raw
      | _ \<Rightarrow> Err ErrParamTypeUnhandled)"

definition build_param :: "bytes \<Rightarrow> param result" where
  "build_param raw =
     (if length raw < PARAM_HEADER_LENGTH then Err ErrParamHeaderTooShort
      else obind (obind (bytes_slice raw 0 2) get_u16) (\<lambda>(t, _). build_param_as (param_type_from t) raw))"

section \<open>Round trip\<close>

definition wf_param :: "param \<Rightarrow> bool" where
  "wf_param p \<longleftrightarrow> PARAM_HEADER_LENGTH + param_value_length p < 2 ^ 16 \<and>
     (case p of ParamRequestedHmacAlgorithm as \<Rightarrow> set as \<subseteq> {HmacSha128, HmacSha256} | _ \<Rightarrow> True)"

lemma param_type_from_as [simp]: "param_type_from (param_type_as_u16 t) = t"
  by (cases t) (simp_all add: param_type_from_def)

lemma reconfig_result_from_as [simp]: "reconfig_result_from (reconfig_result_as_u32 r) = r"
  by (cases r) (simp_all add: reconfig_result_from_def)

lemma hmac_from_as:
  "a \<in> {HmacSha128, HmacSha256} \<Longrightarrow> hmac_algorithm_from (hmac_algorithm_as_u16 a) = a"
  by (auto simp: hmac_algorithm_from_def)

lemma read_chunk_types_id [simp]: "read_chunk_types r = r"
  by (induction r) auto

lemma concat_put_u8 [simp]: "concat (map put_u8 ts) = ts"
  by (induction ts) (auto simp: put_u8_def)

lemma length_concat_put_u16 [simp]: "length (concat (map (\<lambda>x. put_u16 (f x)) xs)) = 2 * length xs"
  by (induction xs) auto

lemma length_param_body [simp]: "length (param_body p) = param_value_length p"
  using length_concat_put_u16 [of id]
  by (cases p) (simp_all add: PARAM_OUTGOING_RESET_REQUEST_STREAM_IDENTIFIERS_OFFSET_def)

lemma length_param_header_marshal [simp]: "length (param_header_marshal h) = 4"
  by (simp add: param_header_marshal_def)

lemma length_param_marshal: "length (param_marshal p) = PARAM_HEADER_LENGTH + param_value_length p"
  by (simp add: param_marshal_def PARAM_HEADER_LENGTH_def)

lemma unat_of_nat_16: "n < 2 ^ 16 \<Longrightarrow> unat (of_nat n :: u16) = n"
  by (simp add: unat_of_nat)

lemma param_header_roundtrip:
  assumes "PARAM_HEADER_LENGTH + n < 2 ^ 16" and "n \<le> length rest"
  shows "param_header_unmarshal (param_header_marshal \<lparr>ph_typ = t, ph_value_length = of_nat n\<rparr> @ rest)
     = Ok \<lparr>ph_typ = t, ph_value_length = of_nat n\<rparr>"
proof -
  have "unat (of_nat n + 4 :: u16) = 4 + n"
    using assms unat_of_nat_16 [of "4 + n"] by (simp add: PARAM_HEADER_LENGTH_def add.commute)
  then show ?thesis using assms
    by (simp add: param_header_unmarshal_def param_header_marshal_def PARAM_HEADER_LENGTH_def
        codec_simps Let_def)
qed

lemma param_value_append:
  assumes "length h = 4" and "unat (ph_value_length hdr) = length body"
  shows "param_value hdr (h @ body @ rest) = Ok body"
  using assms by (simp add: param_value_def PARAM_HEADER_LENGTH_def bytes_slice_def)

lemma hmac_loop_roundtrip:
  assumes "set as \<subseteq> {HmacSha128, HmacSha256}"
  shows "hmac_loop (offset + 2 * length as) offset (concat (map (\<lambda>a. put_u16 (hmac_algorithm_as_u16 a)) as))
    = Ok as"
  using assms
proof (induction as arbitrary: offset)
  case (Cons a as)
  then have "hmac_algorithm_from (hmac_algorithm_as_u16 a) = a" by (intro hmac_from_as) auto
  moreover have "hmac_loop (offset + 2 * length (a # as)) (offset + 2)
      (concat (map (\<lambda>a. put_u16 (hmac_algorithm_as_u16 a)) as)) = Ok as"
    using Cons.IH [of "offset + 2"] Cons.prems by (simp add: add.assoc)
  ultimately show ?case
    using Cons.prems by (subst hmac_loop.simps) (auto simp: codec_simps Let_def)
qed (simp add: hmac_loop.simps)

lemma build_param_dispatch:
  "build_param (param_marshal p @ rest) =
    (case p of
       ParamForwardTsnSupported \<Rightarrow> param_forward_tsn_supported_unmarshal (param_marshal p @ rest)
     | ParamSupportedExtensions _ \<Rightarrow> param_supported_extensions_unmarshal (param_marshal p @ rest)
     | ParamRandom _ \<Rightarrow> param_random_unmarshal (param_marshal p @ rest)
     | ParamRequestedHmacAlgorithm _ \<Rightarrow> param_requested_hmac_algorithm_unmarshal (param_marshal p @ rest)
     | ParamChunkList _ \<Rightarrow> param_chunk_list_unmarshal (param_marshal p @ rest)
     | ParamStateCookie _ \<Rightarrow> param_state_cookie_unmarshal (param_marshal p @ rest)
     | ParamHeartbeatInfo _ \<Rightarrow> param_heartbeat_info_unmarshal (param_marshal p @ rest)
     | ParamOutgoingResetRequest _ \<Rightarrow> param_outgoing_reset_request_unmarshal (param_marshal p @ rest)
     | ParamReconfigResponse _ \<Rightarrow> param_reconfig_response_unmarshal (param_marshal p @ rest))"
proof -
  have "take 2 (param_marshal p @ rest) = put_u16 (param_type_as_u16 (param_typ p))"
    by (simp add: param_marshal_def param_header_marshal_def param_header_of_def)
  then have "obind (bytes_slice (param_marshal p @ rest) 0 2) get_u16
      = (Ok (param_type_as_u16 (param_typ p), []) :: (u16 \<times> bytes) result)"
    by (simp add: bytes_slice_def length_param_marshal PARAM_HEADER_LENGTH_def codec_simps)
  then have "build_param (param_marshal p @ rest) =
      build_param_as (param_typ p) (param_marshal p @ rest)"
    by (simp add: build_param_def length_param_marshal)
  then show ?thesis
    by (cases p) (simp_all add: build_param_as_def)
qed

lemma param_marshal_header:
  assumes "wf_param p"
  shows "param_header_unmarshal (param_marshal p @ rest) = Ok (param_header_of p)"
  using assms param_header_roundtrip [of "param_value_length p" "param_body p @ rest" "param_typ p"]
  by (simp add: wf_param_def param_marshal_def param_header_of_def)

lemma param_marshal_value:
  assumes "wf_param p"
  shows "param_value (param_header_of p) (param_marshal p @ rest) = Ok (param_body p)"
  using assms unat_of_nat_16 [of "param_value_length p"]
  by (simp add: param_marshal_def wf_param_def param_header_of_def param_value_append)

lemma build_param_roundtrip_append:
  assumes "wf_param p"
  shows "build_param (param_marshal p @ rest) = Ok p"
proof -
  note defs = build_param_dispatch param_marshal_header param_marshal_value
  have vl: "unat (ph_value_length (param_header_of p)) = param_value_length p"
    using assms by (simp add: wf_param_def param_header_of_def unat_of_nat_16)
  show ?thesis
  proof (cases p)
    case (ParamRequestedHmacAlgorithm as)
    then have "set as \<subseteq> {HmacSha128, HmacSha256}" using assms by (simp add: wf_param_def)
    then show ?thesis
      using assms vl hmac_loop_roundtrip [of as 0] unfolding ParamRequestedHmacAlgorithm
      by (simp add: defs param_requested_hmac_algorithm_unmarshal_def)
  next
    case (ParamOutgoingResetRequest r)
    show ?thesis
      using assms vl get_many_concat [of "stream_identifiers r" "get_u16 :: bytes \<Rightarrow> (u16 \<times> bytes) result" put_u16 "[]"]
      unfolding ParamOutgoingResetRequest
      by (simp add: defs param_outgoing_reset_request_unmarshal_def codec_simps length_param_marshal
          PARAM_OUTGOING_RESET_REQUEST_STREAM_IDENTIFIERS_OFFSET_def)
  next
    case (ParamReconfigResponse r)
    show ?thesis
      using assms unfolding ParamReconfigResponse
      by (simp add: defs param_reconfig_response_unmarshal_def codec_simps length_param_marshal
          PARAM_HEADER_LENGTH_def)
  qed (insert assms, simp_all add: defs param_forward_tsn_supported_unmarshal_def
      param_supported_extensions_unmarshal_def param_random_unmarshal_def param_chunk_list_unmarshal_def
      param_state_cookie_unmarshal_def param_heartbeat_info_unmarshal_def,
      simp_all add: param_header_of_def)
qed

text \<open>The contract of an encoder and a decoder that reads one value off the front of a buffer.\<close>

locale prefix_codec =
  fixes wf :: "'a \<Rightarrow> bool"
    and marshal :: "'a \<Rightarrow> bytes"
    and unmarshal :: "bytes \<Rightarrow> 'a result"
    and size_of :: "'a \<Rightarrow> nat"
  assumes decode_append: "wf x \<Longrightarrow> unmarshal (marshal x @ rest) = Ok x"
    and length_marshal: "wf x \<Longrightarrow> length (marshal x) = size_of x"
begin

lemma decode: "wf x \<Longrightarrow> unmarshal (marshal x) = Ok x"
  using decode_append [of x "[]"] by simp

lemma encode_inj: "wf x \<Longrightarrow> wf y \<Longrightarrow> marshal x = marshal y \<Longrightarrow> x = y"
  by (metis decode outcome.inject(1))

text \<open>No encoding is a proper prefix of another, so a concatenation splits in one way only.\<close>

lemma encode_prefix_free:
  assumes "wf x" "wf y" "marshal x @ r = marshal y @ r'"
  shows "x = y \<and> r = r'"
proof -
  have "Ok x = (Ok y :: 'a result)"
    using decode_append [OF assms(1), of r] decode_append [OF assms(2), of r'] assms(3) by simp
  then show ?thesis using assms(3) by simp
qed

end

interpretation param: prefix_codec wf_param param_marshal build_param
    "\<lambda>p. PARAM_HEADER_LENGTH + param_value_length p"
  by unfold_locales (rule build_param_roundtrip_append, assumption, rule length_param_marshal)

end
