(* ===== verification/Sctp_Chunk.thy ===== *)
theory Sctp_Chunk
  imports Sctp_Param
begin

text \<open>
  \<^verbatim>\<open>sctp/chunk/\<close> and \<^verbatim>\<open>sctp/error_cause.rs\<close>: the chunks of an SCTP packet, their encoders, decoders and
  checks. The trait object \<^verbatim>\<open>Box<dyn Chunk>\<close> is the datatype \<open>chunk\<close>. A decoder receives the rest of
  the packet from the chunk on, so what follows the chunk matters; \<open>ok_tail\<close> says when it does not.
\<close>

section \<open>Chunk types and the common header\<close>

abbreviation "CT_PAYLOAD_DATA \<equiv> (0 :: u8)"
abbreviation "CT_INIT \<equiv> (1 :: u8)"
abbreviation "CT_INIT_ACK \<equiv> (2 :: u8)"
abbreviation "CT_SACK \<equiv> (3 :: u8)"
abbreviation "CT_HEARTBEAT \<equiv> (4 :: u8)"
abbreviation "CT_HEARTBEAT_ACK \<equiv> (5 :: u8)"
abbreviation "CT_ABORT \<equiv> (6 :: u8)"
abbreviation "CT_SHUTDOWN \<equiv> (7 :: u8)"
abbreviation "CT_SHUTDOWN_ACK \<equiv> (8 :: u8)"
abbreviation "CT_ERROR \<equiv> (9 :: u8)"
abbreviation "CT_COOKIE_ECHO \<equiv> (10 :: u8)"
abbreviation "CT_COOKIE_ACK \<equiv> (11 :: u8)"
abbreviation "CT_SHUTDOWN_COMPLETE \<equiv> (14 :: u8)"
abbreviation "CT_RECONFIG \<equiv> (130 :: u8)"
abbreviation "CT_FORWARD_TSN \<equiv> (192 :: u8)"

definition CHUNK_HEADER_SIZE :: nat where
  "CHUNK_HEADER_SIZE = 4"

record chunk_header =
  ch_typ :: u8
  ch_flags :: u8
  ch_value_length :: u16

text \<open>The loop \<^verbatim>\<open>for i in (1..=length_after_value).rev()\<close> over the padding bytes.\<close>

fun check_padding :: "bytes \<Rightarrow> nat \<Rightarrow> nat \<Rightarrow> unit result" where
  "check_padding raw vlen 0 = Ok ()"
| "check_padding raw vlen (Suc i) =
     (let padding_offset = CHUNK_HEADER_SIZE + (vlen + i) in
      if length raw \<le> padding_offset then Panic
      else if raw ! padding_offset \<noteq> 0 then Err ErrChunkHeaderPaddingNonZero
      else check_padding raw vlen i)"

definition chunk_header_unmarshal :: "bytes \<Rightarrow> chunk_header result" where
  "chunk_header_unmarshal raw =
     (if length raw < CHUNK_HEADER_SIZE then Err ErrChunkHeaderTooSmall
      else obind (get_u8 raw) (\<lambda>(typ, reader). obind (get_u8 reader) (\<lambda>(flags, reader).
        obind (get_u16 reader) (\<lambda>(len, _).
          if len < of_nat CHUNK_HEADER_SIZE then Err ErrChunkHeaderInvalidLength
          else if length raw < unat len then Err ErrChunkHeaderNotEnoughSpace
          else
            let vlen = unat len - CHUNK_HEADER_SIZE; after = length raw - unat len in
            obind (if after < 4 then check_padding raw vlen after else Ok ()) (\<lambda>_.
              Ok \<lparr>ch_typ = typ, ch_flags = flags, ch_value_length = len - of_nat CHUNK_HEADER_SIZE\<rparr>)))))"

definition chunk_header_marshal :: "chunk_header \<Rightarrow> bytes" where
  "chunk_header_marshal h =
     put_u8 (ch_typ h) @ put_u8 (ch_flags h) @ put_u16 (ch_value_length h + of_nat CHUNK_HEADER_SIZE)"

text \<open>\<^verbatim>\<open>raw.slice(from..CHUNK_HEADER_SIZE + header.value_length())\<close>\<close>

definition chunk_slice :: "bytes \<Rightarrow> nat \<Rightarrow> chunk_header \<Rightarrow> bytes result" where
  "chunk_slice raw from h = bytes_slice raw from (CHUNK_HEADER_SIZE + unat (ch_value_length h))"

section \<open>Chunk data\<close>

datatype payload_protocol_identifier =
  Dcep | PPI_String | Binary | StringEmpty | BinaryEmpty | PPI_Unknown

definition ppi_from :: "u32 \<Rightarrow> payload_protocol_identifier" where
  "ppi_from v =
     (if v = 50 then Dcep else if v = 51 then PPI_String else if v = 53 then Binary
      else if v = 56 then StringEmpty else if v = 57 then BinaryEmpty else PPI_Unknown)"

fun ppi_as_u32 :: "payload_protocol_identifier \<Rightarrow> u32" where
  "ppi_as_u32 Dcep = 50"
| "ppi_as_u32 PPI_String = 51"
| "ppi_as_u32 Binary = 53"
| "ppi_as_u32 StringEmpty = 56"
| "ppi_as_u32 BinaryEmpty = 57"
| "ppi_as_u32 PPI_Unknown = 58"

text \<open>
  The fields \<^verbatim>\<open>abandoned\<close> and \<^verbatim>\<open>all_inflight\<close> are \<^verbatim>\<open>Arc<AtomicBool>\<close>: the fragments of one message
  share them. They are references into a heap of booleans; reference 0 stands for the private cells
  that \<^verbatim>\<open>Default\<close> and \<^verbatim>\<open>unmarshal\<close> create, which no code path ever writes.
\<close>

type_synonym flag_ref = nat
type_synonym flag_heap = "(flag_ref, bool) hash_map"

definition flag_load :: "flag_heap \<Rightarrow> flag_ref \<Rightarrow> bool" where
  "flag_load h r = (case hm_get h r of Some b \<Rightarrow> b | None \<Rightarrow> False)"

record chunk_payload_data =
  unordered :: bool
  beginning_fragment :: bool
  ending_fragment :: bool
  immediate_sack :: bool
  tsn :: u32
  stream_identifier :: u16
  stream_sequence_number :: u16
  payload_type :: payload_protocol_identifier
  user_data :: bytes
  acked :: bool
  miss_indicator :: u32
  since :: nat
  nsent :: u32
  abandoned :: flag_ref
  all_inflight :: flag_ref
  retransmit :: bool

definition chunk_payload_data_default :: "nat \<Rightarrow> chunk_payload_data" where
  "chunk_payload_data_default now =
     \<lparr>unordered = False, beginning_fragment = False, ending_fragment = False, immediate_sack = False,
      tsn = 0, stream_identifier = 0, stream_sequence_number = 0, payload_type = PPI_Unknown,
      user_data = [], acked = False, miss_indicator = 0, since = now, nsent = 0,
      abandoned = 0, all_inflight = 0, retransmit = False\<rparr>"

definition chunk_abandoned :: "flag_heap \<Rightarrow> chunk_payload_data \<Rightarrow> bool" where
  "chunk_abandoned h c \<longleftrightarrow> flag_load h (abandoned c) \<and> flag_load h (all_inflight c)"

definition set_abandoned :: "flag_heap \<Rightarrow> chunk_payload_data \<Rightarrow> bool \<Rightarrow> flag_heap" where
  "set_abandoned h c b = hm_insert (abandoned c) b h"

definition set_all_inflight :: "flag_heap \<Rightarrow> chunk_payload_data \<Rightarrow> flag_heap" where
  "set_all_inflight h c = (if ending_fragment c then hm_insert (all_inflight c) True h else h)"

record gap_ack_block =
  gap_start :: u16
  gap_end :: u16

record chunk_selective_ack =
  cumulative_tsn_ack :: u32
  sack_advertised_receiver_window_credit :: u32
  gap_ack_blocks :: "gap_ack_block list"
  duplicate_tsn :: "u32 list"

record chunk_init =
  is_ack :: bool
  initiate_tag :: u32
  advertised_receiver_window_credit :: u32
  num_outbound_streams :: u16
  num_inbound_streams :: u16
  initial_tsn :: u32
  init_params :: "param list"

record error_cause =
  ec_code :: u16
  ec_raw :: bytes

record chunk_reconfig =
  param_a :: "param option"
  param_b :: "param option"

record chunk_forward_tsn_stream =
  fts_identifier :: u16
  fts_sequence :: u16

record chunk_forward_tsn =
  new_cumulative_tsn :: u32
  fwd_streams :: "chunk_forward_tsn_stream list"

datatype chunk =
    ChunkPayloadData chunk_payload_data
  | ChunkInit chunk_init
  | ChunkSelectiveAck chunk_selective_ack
  | ChunkAbort "error_cause list"
  | ChunkError "error_cause list"
  | ChunkCookieEcho bytes
  | ChunkCookieAck
  | ChunkHeartbeat "param list"
  | ChunkHeartbeatAck "param list"
  | ChunkReconfig chunk_reconfig
  | ChunkForwardTsn chunk_forward_tsn
  | ChunkShutdown u32
  | ChunkShutdownAck
  | ChunkShutdownComplete

section \<open>Lengths and headers\<close>

definition PAYLOAD_DATA_HEADER_SIZE :: nat where
  "PAYLOAD_DATA_HEADER_SIZE = 12"

definition SELECTIVE_ACK_HEADER_SIZE :: nat where
  "SELECTIVE_ACK_HEADER_SIZE = 12"

definition INIT_CHUNK_MIN_LENGTH :: nat where
  "INIT_CHUNK_MIN_LENGTH = 16"

definition INIT_OPTIONAL_VAR_HEADER_LENGTH :: nat where
  "INIT_OPTIONAL_VAR_HEADER_LENGTH = 4"

definition ERROR_CAUSE_HEADER_LENGTH :: nat where
  "ERROR_CAUSE_HEADER_LENGTH = 4"

definition error_cause_length :: "error_cause \<Rightarrow> nat" where
  "error_cause_length e = length (ec_raw e) + ERROR_CAUSE_HEADER_LENGTH"

text \<open>The parameter lists of INIT and HEARTBEAT-ACK pad every parameter but the last.\<close>

fun params_padded_length :: "param list \<Rightarrow> nat" where
  "params_padded_length [] = 0"
| "params_padded_length [p] = PARAM_HEADER_LENGTH + param_value_length p"
| "params_padded_length (p # q # ps) =
     (let p_len = PARAM_HEADER_LENGTH + param_value_length p in
      p_len + get_padding_size p_len + params_padded_length (q # ps))"

fun params_padded_marshal :: "param list \<Rightarrow> bytes" where
  "params_padded_marshal [] = []"
| "params_padded_marshal [p] = param_marshal p"
| "params_padded_marshal (p # q # ps) =
     param_marshal p @ replicate (get_padding_size (length (param_marshal p))) 0
       @ params_padded_marshal (q # ps)"

definition reconfig_value_length :: "chunk_reconfig \<Rightarrow> nat" where
  "reconfig_value_length c =
     (let a_len = (case param_a c of Some p \<Rightarrow> param_value_length p | None \<Rightarrow> 0) in
      PARAM_HEADER_LENGTH + a_len
        + (case param_b c of
             Some p \<Rightarrow> PARAM_HEADER_LENGTH + param_value_length p
                         + get_padding_size (PARAM_HEADER_LENGTH + a_len)
           | None \<Rightarrow> 0))"

fun chunk_value_length :: "chunk \<Rightarrow> nat" where
  "chunk_value_length (ChunkPayloadData c) = PAYLOAD_DATA_HEADER_SIZE + length (user_data c)"
| "chunk_value_length (ChunkInit c) = 4 + 4 + 2 + 2 + 4 + params_padded_length (init_params c)"
| "chunk_value_length (ChunkSelectiveAck c) =
     SELECTIVE_ACK_HEADER_SIZE + length (gap_ack_blocks c) * 4 + length (duplicate_tsn c) * 4"
| "chunk_value_length (ChunkAbort es) = fold (\<lambda>e len. len + error_cause_length e) es 0"
| "chunk_value_length (ChunkError es) = fold (\<lambda>e len. len + error_cause_length e) es 0"
| "chunk_value_length (ChunkCookieEcho c) = length c"
| "chunk_value_length ChunkCookieAck = 0"
| "chunk_value_length (ChunkHeartbeat ps) =
     fold (\<lambda>p len. len + PARAM_HEADER_LENGTH + param_value_length p) ps 0"
| "chunk_value_length (ChunkHeartbeatAck ps) = params_padded_length ps"
| "chunk_value_length (ChunkReconfig c) = reconfig_value_length c"
| "chunk_value_length (ChunkForwardTsn c) = 4 + 4 * length (fwd_streams c)"
| "chunk_value_length (ChunkShutdown _) = 4"
| "chunk_value_length ChunkShutdownAck = 0"
| "chunk_value_length ChunkShutdownComplete = 0"

fun chunk_typ :: "chunk \<Rightarrow> u8" where
  "chunk_typ (ChunkPayloadData _) = CT_PAYLOAD_DATA"
| "chunk_typ (ChunkInit c) = (if is_ack c then CT_INIT_ACK else CT_INIT)"
| "chunk_typ (ChunkSelectiveAck _) = CT_SACK"
| "chunk_typ (ChunkAbort _) = CT_ABORT"
| "chunk_typ (ChunkError _) = CT_ERROR"
| "chunk_typ (ChunkCookieEcho _) = CT_COOKIE_ECHO"
| "chunk_typ ChunkCookieAck = CT_COOKIE_ACK"
| "chunk_typ (ChunkHeartbeat _) = CT_HEARTBEAT"
| "chunk_typ (ChunkHeartbeatAck _) = CT_HEARTBEAT_ACK"
| "chunk_typ (ChunkReconfig _) = CT_RECONFIG"
| "chunk_typ (ChunkForwardTsn _) = CT_FORWARD_TSN"
| "chunk_typ (ChunkShutdown _) = CT_SHUTDOWN"
| "chunk_typ ChunkShutdownAck = CT_SHUTDOWN_ACK"
| "chunk_typ ChunkShutdownComplete = CT_SHUTDOWN_COMPLETE"

definition payload_data_flags :: "chunk_payload_data \<Rightarrow> u8" where
  "payload_data_flags c =
     (let flags = (if ending_fragment c then 1 else 0);
          flags = (if beginning_fragment c then flags OR push_bit 1 1 else flags);
          flags = (if unordered c then flags OR push_bit 2 1 else flags)
      in if immediate_sack c then flags OR push_bit 3 1 else flags)"

definition chunk_header_of :: "chunk \<Rightarrow> chunk_header" where
  "chunk_header_of c =
     \<lparr>ch_typ = chunk_typ c,
      ch_flags = (case c of ChunkPayloadData d \<Rightarrow> payload_data_flags d | _ \<Rightarrow> 0),
      ch_value_length = of_nat (chunk_value_length c)\<rparr>"

section \<open>Encoding\<close>

definition error_cause_marshal :: "error_cause \<Rightarrow> bytes" where
  "error_cause_marshal e =
     put_u16 (ec_code e) @ put_u16 (of_nat (length (ec_raw e) + ERROR_CAUSE_HEADER_LENGTH)) @ ec_raw e"

definition gap_ack_block_marshal :: "gap_ack_block \<Rightarrow> bytes" where
  "gap_ack_block_marshal g = put_u16 (gap_start g) @ put_u16 (gap_end g)"

definition forward_tsn_stream_marshal :: "chunk_forward_tsn_stream \<Rightarrow> bytes" where
  "forward_tsn_stream_marshal s = put_u16 (fts_identifier s) @ put_u16 (fts_sequence s)"

definition payload_data_body :: "chunk_payload_data \<Rightarrow> bytes" where
  "payload_data_body c =
     put_u32 (tsn c) @ put_u16 (stream_identifier c) @ put_u16 (stream_sequence_number c)
       @ put_u32 (ppi_as_u32 (payload_type c)) @ user_data c"

definition selective_ack_body :: "chunk_selective_ack \<Rightarrow> bytes" where
  "selective_ack_body c =
     put_u32 (cumulative_tsn_ack c) @ put_u32 (sack_advertised_receiver_window_credit c)
       @ put_u16 (of_nat (length (gap_ack_blocks c))) @ put_u16 (of_nat (length (duplicate_tsn c)))
       @ concat (map gap_ack_block_marshal (gap_ack_blocks c)) @ concat (map put_u32 (duplicate_tsn c))"

definition init_body :: "chunk_init \<Rightarrow> bytes" where
  "init_body c =
     put_u32 (initiate_tag c) @ put_u32 (advertised_receiver_window_credit c)
       @ put_u16 (num_outbound_streams c) @ put_u16 (num_inbound_streams c) @ put_u32 (initial_tsn c)
       @ params_padded_marshal (init_params c)"

definition heartbeat_ack_body :: "param list \<Rightarrow> bytes result" where
  "heartbeat_ack_body ps =
     (case ps of
        [p] \<Rightarrow> if param_typ p \<noteq> PT_HeartbeatInfo then Err ErrHeartbeatAckNotHeartbeatInfo
               else Ok (params_padded_marshal ps)
      | _ \<Rightarrow> Err ErrHeartbeatAckParams)"

definition reconfig_body :: "chunk_reconfig \<Rightarrow> bytes result" where
  "reconfig_body c =
     (case param_a c of
        None \<Rightarrow> Err ErrChunkReconfigInvalidParamA
      | Some a \<Rightarrow> Ok (param_marshal a @
          (case param_b c of
             None \<Rightarrow> []
           | Some b \<Rightarrow> replicate (get_padding_size (PARAM_HEADER_LENGTH + param_value_length a)) 0
                         @ param_marshal b)))"

fun chunk_body :: "chunk \<Rightarrow> bytes result" where
  "chunk_body (ChunkPayloadData c) = Ok (payload_data_body c)"
| "chunk_body (ChunkInit c) = Ok (init_body c)"
| "chunk_body (ChunkSelectiveAck c) = Ok (selective_ack_body c)"
| "chunk_body (ChunkAbort es) = Ok (concat (map error_cause_marshal es))"
| "chunk_body (ChunkError es) = Ok (concat (map error_cause_marshal es))"
| "chunk_body (ChunkCookieEcho c) = Ok c"
| "chunk_body ChunkCookieAck = Ok []"
| "chunk_body (ChunkHeartbeat ps) = Ok (concat (map param_marshal ps))"
| "chunk_body (ChunkHeartbeatAck ps) = heartbeat_ack_body ps"
| "chunk_body (ChunkReconfig c) = reconfig_body c"
| "chunk_body (ChunkForwardTsn c) =
     Ok (put_u32 (new_cumulative_tsn c) @ concat (map forward_tsn_stream_marshal (fwd_streams c)))"
| "chunk_body (ChunkShutdown t) = Ok (put_u32 t)"
| "chunk_body ChunkShutdownAck = Ok []"
| "chunk_body ChunkShutdownComplete = Ok []"

definition chunk_marshal :: "chunk \<Rightarrow> bytes result" where
  "chunk_marshal c = obind (chunk_body c) (\<lambda>b. Ok (chunk_header_marshal (chunk_header_of c) @ b))"

section \<open>Decoding\<close>

definition payload_data_unmarshal :: "nat \<Rightarrow> bytes \<Rightarrow> chunk result" where
  "payload_data_unmarshal now raw =
     obind (chunk_header_unmarshal raw) (\<lambda>header.
       if ch_typ header \<noteq> CT_PAYLOAD_DATA then Err ErrChunkTypeNotPayloadData
       else if length raw < PAYLOAD_DATA_HEADER_SIZE then Err ErrChunkPayloadSmall
       else obind (chunk_slice raw CHUNK_HEADER_SIZE header) (\<lambda>reader.
         obind (get_u32 reader) (\<lambda>(t, reader). obind (get_u16 reader) (\<lambda>(si, reader).
         obind (get_u16 reader) (\<lambda>(ssn, reader). obind (get_u32 reader) (\<lambda>(ppi, _).
         obind (chunk_slice raw (CHUNK_HEADER_SIZE + PAYLOAD_DATA_HEADER_SIZE) header) (\<lambda>data.
           Ok (ChunkPayloadData
             \<lparr>unordered = (ch_flags header AND 4 \<noteq> 0),
              beginning_fragment = (ch_flags header AND 2 \<noteq> 0),
              ending_fragment = (ch_flags header AND 1 \<noteq> 0),
              immediate_sack = (ch_flags header AND 8 \<noteq> 0),
              tsn = t, stream_identifier = si, stream_sequence_number = ssn,
              payload_type = ppi_from ppi, user_data = data, acked = False, miss_indicator = 0,
              since = now, nsent = 0, abandoned = 0, all_inflight = 0, retransmit = False\<rparr>))))))))"

definition get_gap_ack_block :: "bytes \<Rightarrow> (gap_ack_block \<times> bytes) result" where
  "get_gap_ack_block r =
     obind (get_u16 r) (\<lambda>(s, r). obind (get_u16 r) (\<lambda>(e, r). Ok (\<lparr>gap_start = s, gap_end = e\<rparr>, r)))"

definition selective_ack_unmarshal :: "bytes \<Rightarrow> chunk result" where
  "selective_ack_unmarshal raw =
     obind (chunk_header_unmarshal raw) (\<lambda>header.
       if ch_typ header \<noteq> CT_SACK then Err ErrChunkTypeNotSack
       else if length raw < CHUNK_HEADER_SIZE + SELECTIVE_ACK_HEADER_SIZE
       then Err ErrSackSizeNotLargeEnoughInfo
       else obind (chunk_slice raw CHUNK_HEADER_SIZE header) (\<lambda>reader.
         obind (get_u32 reader) (\<lambda>(cum, reader). obind (get_u32 reader) (\<lambda>(arwnd, reader).
         obind (get_u16 reader) (\<lambda>(ngaps, reader). obind (get_u16 reader) (\<lambda>(ndups, reader).
           if length raw < CHUNK_HEADER_SIZE + SELECTIVE_ACK_HEADER_SIZE
                + (4 * unat ngaps + 4 * unat ndups)
           then Err ErrSackSizeNotLargeEnoughInfo
           else obind (get_many get_gap_ack_block (unat ngaps) reader) (\<lambda>(gaps, reader).
             obind (get_many get_u32 (unat ndups) reader) (\<lambda>(dups, _).
               Ok (ChunkSelectiveAck
                 \<lparr>cumulative_tsn_ack = cum, sack_advertised_receiver_window_credit = arwnd,
                  gap_ack_blocks = gaps, duplicate_tsn = dups\<rparr>)))))))))"

function init_params_loop :: "bytes \<Rightarrow> chunk_header \<Rightarrow> nat \<Rightarrow> int \<Rightarrow> param list result" where
  "init_params_loop raw header offset remaining =
     (if remaining > int INIT_OPTIONAL_VAR_HEADER_LENGTH then
        obind (chunk_slice raw offset header) (\<lambda>b. obind (build_param b) (\<lambda>p.
          let p_len = PARAM_HEADER_LENGTH + param_value_length p;
              len_plus_padding = p_len + get_padding_size p_len in
          obind (init_params_loop raw header (offset + len_plus_padding)
                   (remaining - int len_plus_padding)) (\<lambda>ps. Ok (p # ps))))
      else Ok [])"
  by pat_completeness auto
termination
  by (relation "measure (\<lambda>(_, _, _, remaining). nat remaining)")
    (auto simp: PARAM_HEADER_LENGTH_def INIT_OPTIONAL_VAR_HEADER_LENGTH_def)

declare init_params_loop.simps [simp del]

definition init_unmarshal :: "bytes \<Rightarrow> chunk result" where
  "init_unmarshal raw =
     obind (chunk_header_unmarshal raw) (\<lambda>header.
       if \<not> (ch_typ header = CT_INIT \<or> ch_typ header = CT_INIT_ACK) then Err ErrChunkTypeNotTypeInit
       else if length raw < CHUNK_HEADER_SIZE + INIT_CHUNK_MIN_LENGTH
       then Err ErrChunkValueNotLongEnough
       else if ch_flags header \<noteq> 0 then Err ErrChunkTypeInitFlagZero
       else obind (chunk_slice raw CHUNK_HEADER_SIZE header) (\<lambda>reader.
         obind (get_u32 reader) (\<lambda>(tag, reader). obind (get_u32 reader) (\<lambda>(arwnd, reader).
         obind (get_u16 reader) (\<lambda>(outs, reader). obind (get_u16 reader) (\<lambda>(ins, reader).
         obind (get_u32 reader) (\<lambda>(itsn, _).
           let offset = CHUNK_HEADER_SIZE + INIT_CHUNK_MIN_LENGTH in
           obind (init_params_loop raw header offset (int (length raw) - int offset)) (\<lambda>ps.
             Ok (ChunkInit
               \<lparr>is_ack = (ch_typ header = CT_INIT_ACK), initiate_tag = tag,
                advertised_receiver_window_credit = arwnd, num_outbound_streams = outs,
                num_inbound_streams = ins, initial_tsn = itsn, init_params = ps\<rparr>)))))))))"

definition error_cause_unmarshal :: "bytes \<Rightarrow> error_cause result" where
  "error_cause_unmarshal buf =
     (if length buf < ERROR_CAUSE_HEADER_LENGTH then Err ErrErrorCauseTooSmall
      else obind (get_u16 buf) (\<lambda>(code, reader). obind (get_u16 reader) (\<lambda>(len, _).
        if len < of_nat ERROR_CAUSE_HEADER_LENGTH then Err ErrErrorCauseTooSmall
        else obind (bytes_slice buf ERROR_CAUSE_HEADER_LENGTH
                      (ERROR_CAUSE_HEADER_LENGTH + (unat len - ERROR_CAUSE_HEADER_LENGTH))) (\<lambda>r.
          Ok \<lparr>ec_code = code, ec_raw = r\<rparr>))))"

function error_causes_loop :: "bytes \<Rightarrow> chunk_header \<Rightarrow> nat \<Rightarrow> error_cause list result" where
  "error_causes_loop raw header offset =
     (if offset + 4 \<le> length raw then
        obind (chunk_slice raw offset header) (\<lambda>b. obind (error_cause_unmarshal b) (\<lambda>e.
          obind (error_causes_loop raw header (offset + error_cause_length e)) (\<lambda>es. Ok (e # es))))
      else Ok [])"
  by pat_completeness auto
termination
  by (relation "measure (\<lambda>(raw, _, offset). length raw - offset)")
    (auto simp: error_cause_length_def ERROR_CAUSE_HEADER_LENGTH_def)

declare error_causes_loop.simps [simp del]

definition abort_unmarshal :: "bytes \<Rightarrow> chunk result" where
  "abort_unmarshal raw =
     obind (chunk_header_unmarshal raw) (\<lambda>header.
       if ch_typ header \<noteq> CT_ABORT then Err ErrChunkTypeNotAbort
       else obind (error_causes_loop raw header CHUNK_HEADER_SIZE) (\<lambda>es. Ok (ChunkAbort es)))"

definition error_unmarshal :: "bytes \<Rightarrow> chunk result" where
  "error_unmarshal raw =
     obind (chunk_header_unmarshal raw) (\<lambda>header.
       if ch_typ header \<noteq> CT_ERROR then Err ErrChunkTypeNotCtError
       else obind (error_causes_loop raw header CHUNK_HEADER_SIZE) (\<lambda>es. Ok (ChunkError es)))"

definition cookie_echo_unmarshal :: "bytes \<Rightarrow> chunk result" where
  "cookie_echo_unmarshal raw =
     obind (chunk_header_unmarshal raw) (\<lambda>header.
       if ch_typ header \<noteq> CT_COOKIE_ECHO then Err ErrChunkTypeNotCookieEcho
       else obind (chunk_slice raw CHUNK_HEADER_SIZE header) (\<lambda>c. Ok (ChunkCookieEcho c)))"

definition cookie_ack_unmarshal :: "bytes \<Rightarrow> chunk result" where
  "cookie_ack_unmarshal raw =
     obind (chunk_header_unmarshal raw) (\<lambda>header.
       if ch_typ header \<noteq> CT_COOKIE_ACK then Err ErrChunkTypeNotCookieAck else Ok ChunkCookieAck)"

definition heartbeat_unmarshal :: "bytes \<Rightarrow> chunk result" where
  "heartbeat_unmarshal raw =
     obind (chunk_header_unmarshal raw) (\<lambda>header.
       if ch_typ header \<noteq> CT_HEARTBEAT then Err ErrChunkTypeNotHeartbeat
       else if length raw \<le> CHUNK_HEADER_SIZE then Err ErrHeartbeatNotLongEnoughInfo
       else obind (chunk_slice raw CHUNK_HEADER_SIZE header) (\<lambda>b. obind (build_param b) (\<lambda>p.
         if param_typ p \<noteq> PT_HeartbeatInfo then Err ErrHeartbeatParam
         else Ok (ChunkHeartbeat [p]))))"

definition heartbeat_ack_unmarshal :: "bytes \<Rightarrow> chunk result" where
  "heartbeat_ack_unmarshal raw =
     obind (chunk_header_unmarshal raw) (\<lambda>header.
       if ch_typ header \<noteq> CT_HEARTBEAT_ACK then Err ErrChunkTypeNotHeartbeatAck
       else if length raw \<le> CHUNK_HEADER_SIZE then Err ErrHeartbeatNotLongEnoughInfo
       else obind (chunk_slice raw CHUNK_HEADER_SIZE header) (\<lambda>b. obind (build_param b) (\<lambda>p.
         if param_typ p \<noteq> PT_HeartbeatInfo then Err ErrHeartbeatParam
         else Ok (ChunkHeartbeatAck [p]))))"

definition reconfig_unmarshal :: "bytes \<Rightarrow> chunk result" where
  "reconfig_unmarshal raw =
     obind (chunk_header_unmarshal raw) (\<lambda>header.
       if ch_typ header \<noteq> CT_RECONFIG then Err ErrChunkTypeNotReconfig
       else obind (chunk_slice raw CHUNK_HEADER_SIZE header) (\<lambda>b. obind (build_param b) (\<lambda>a.
         let padding = get_padding_size (PARAM_HEADER_LENGTH + param_value_length a);
             offset = CHUNK_HEADER_SIZE + PARAM_HEADER_LENGTH + param_value_length a + padding in
         if CHUNK_HEADER_SIZE + unat (ch_value_length header) > offset
         then obind (chunk_slice raw offset header) (\<lambda>b. obind (build_param b) (\<lambda>pb.
                Ok (ChunkReconfig \<lparr>param_a = Some a, param_b = Some pb\<rparr>)))
         else Ok (ChunkReconfig \<lparr>param_a = Some a, param_b = None\<rparr>))))"

definition forward_tsn_stream_unmarshal :: "bytes \<Rightarrow> chunk_forward_tsn_stream result" where
  "forward_tsn_stream_unmarshal buf =
     (if length buf < 4 then Err ErrChunkTooShort
      else obind (get_u16 buf) (\<lambda>(i, reader). obind (get_u16 reader) (\<lambda>(s, _).
        Ok \<lparr>fts_identifier = i, fts_sequence = s\<rparr>)))"

function forward_tsn_loop ::
  "bytes \<Rightarrow> chunk_header \<Rightarrow> nat \<Rightarrow> nat \<Rightarrow> chunk_forward_tsn_stream list result" where
  "forward_tsn_loop buf header offset remaining =
     (if remaining > 0 then
        obind (chunk_slice buf offset header) (\<lambda>b. obind (forward_tsn_stream_unmarshal b) (\<lambda>s.
          obind (forward_tsn_loop buf header (offset + 4) (remaining - 4)) (\<lambda>ss. Ok (s # ss))))
      else Ok [])"
  by pat_completeness auto
termination by (relation "measure (\<lambda>(_, _, _, remaining). remaining)") auto

declare forward_tsn_loop.simps [simp del]

definition forward_tsn_unmarshal :: "bytes \<Rightarrow> chunk result" where
  "forward_tsn_unmarshal buf =
     obind (chunk_header_unmarshal buf) (\<lambda>header.
       if ch_typ header \<noteq> CT_FORWARD_TSN then Err ErrChunkTypeNotForwardTsn
       else let offset = CHUNK_HEADER_SIZE + 4 in
         if length buf < offset then Err ErrChunkTooShort
         else obind (chunk_slice buf CHUNK_HEADER_SIZE header) (\<lambda>reader.
           obind (get_u32 reader) (\<lambda>(cum, _).
           obind (forward_tsn_loop buf header offset (length buf - offset)) (\<lambda>ss.
             Ok (ChunkForwardTsn \<lparr>new_cumulative_tsn = cum, fwd_streams = ss\<rparr>)))))"

definition shutdown_unmarshal :: "bytes \<Rightarrow> chunk result" where
  "shutdown_unmarshal raw =
     obind (chunk_header_unmarshal raw) (\<lambda>header.
       if ch_typ header \<noteq> CT_SHUTDOWN then Err ErrChunkTypeNotShutdown
       else if length raw \<noteq> CHUNK_HEADER_SIZE + 4 then Err ErrInvalidChunkSize
       else obind (chunk_slice raw CHUNK_HEADER_SIZE header) (\<lambda>reader.
         obind (get_u32 reader) (\<lambda>(t, _). Ok (ChunkShutdown t))))"

definition shutdown_ack_unmarshal :: "bytes \<Rightarrow> chunk result" where
  "shutdown_ack_unmarshal raw =
     obind (chunk_header_unmarshal raw) (\<lambda>header.
       if ch_typ header \<noteq> CT_SHUTDOWN_ACK then Err ErrChunkTypeNotShutdownAck else Ok ChunkShutdownAck)"

definition shutdown_complete_unmarshal :: "bytes \<Rightarrow> chunk result" where
  "shutdown_complete_unmarshal raw =
     obind (chunk_header_unmarshal raw) (\<lambda>header.
       if ch_typ header \<noteq> CT_SHUTDOWN_COMPLETE then Err ErrChunkTypeNotShutdownComplete
       else Ok ChunkShutdownComplete)"

section \<open>Checks\<close>

text \<open>\<^verbatim>\<open>Chunk::check\<close>: only INIT and INIT-ACK have conditions.\<close>

fun chunk_check :: "chunk \<Rightarrow> unit result" where
  "chunk_check (ChunkInit c) =
     (if initiate_tag c = 0 then Err ErrChunkTypeInitInitateTagZero
      else if num_inbound_streams c = 0 then Err ErrInitInboundStreamRequestZero
      else if num_outbound_streams c = 0 then Err ErrInitOutboundStreamRequestZero
      else if advertised_receiver_window_credit c < 1500 then Err ErrInitAdvertisedReceiver1500
      else Ok ())"
| "chunk_check _ = Ok ()"

definition set_forward_tsn_supported :: "chunk_init \<Rightarrow> chunk_init" where
  "set_forward_tsn_supported c = c\<lparr>init_params := init_params c @ [ParamForwardTsnSupported]\<rparr>"

end
