(* ===== verification/Sctp_Chunk_Codec.thy ===== *)
theory Sctp_Chunk_Codec
  imports Sctp_Chunk
begin

text \<open>
  Decoding is the inverse of encoding, chunk by chunk. The sender-only fields of a DATA chunk are
  not on the wire, so the receiver sees \<open>received now d\<close>. Which bytes may follow a chunk depends on
  its type: most decoders ignore them (\<open>ok_tail\<close>), while INIT, ABORT, ERROR, FORWARD-TSN and SHUTDOWN
  measure the whole rest of the packet.
\<close>

definition ok_tail :: "bytes \<Rightarrow> bool" where
  "ok_tail t \<longleftrightarrow> 4 \<le> length t \<or> (\<forall>b \<in> set t. b = 0)"

definition received :: "nat \<Rightarrow> chunk_payload_data \<Rightarrow> chunk_payload_data" where
  "received now d = d\<lparr>acked := False, miss_indicator := 0, since := now, nsent := 0,
     abandoned := 0, all_inflight := 0, retransmit := False\<rparr>"

section \<open>Lengths\<close>

lemma length_params_padded [simp]: "length (params_padded_marshal ps) = params_padded_length ps"
  by (induction ps rule: params_padded_marshal.induct)
    (simp_all add: length_param_marshal Let_def)

lemma length_error_cause_marshal [simp]: "length (error_cause_marshal e) = error_cause_length e"
  by (simp add: error_cause_marshal_def error_cause_length_def ERROR_CAUSE_HEADER_LENGTH_def)

lemma fold_add_length:
  "(\<And>x. length (m x) = n x) \<Longrightarrow> fold (\<lambda>x len. len + n x) xs k = k + length (concat (map m xs))"
  by (induction xs arbitrary: k) simp_all

lemma length_concat_gap [simp]: "length (concat (map gap_ack_block_marshal gs)) = 4 * length gs"
  by (induction gs) (simp_all add: gap_ack_block_marshal_def)

lemma length_concat_put_u32 [simp]: "length (concat (map put_u32 xs)) = 4 * length xs"
  by (induction xs) simp_all

lemma length_concat_fts [simp]: "length (concat (map forward_tsn_stream_marshal gs)) = 4 * length gs"
  by (induction gs) (simp_all add: forward_tsn_stream_marshal_def)

lemma length_chunk_body:
  assumes "chunk_body c = Ok b"
  shows "length b = chunk_value_length c"
proof (cases c)
  case (ChunkHeartbeat ps)
  then show ?thesis
    using assms fold_add_length [of param_marshal "\<lambda>p. PARAM_HEADER_LENGTH + param_value_length p" ps 0]
    by (auto simp: length_param_marshal add.assoc)
next
  case (ChunkAbort es)
  then show ?thesis using assms fold_add_length [of error_cause_marshal error_cause_length es 0] by auto
next
  case (ChunkError es)
  then show ?thesis using assms fold_add_length [of error_cause_marshal error_cause_length es 0] by auto
next
  case (ChunkReconfig r)
  then show ?thesis using assms
    by (auto simp: reconfig_body_def reconfig_value_length_def length_param_marshal Let_def
        split: option.splits)
next
  case (ChunkHeartbeatAck ps)
  then show ?thesis using assms
    by (auto simp: heartbeat_ack_body_def length_param_marshal split: list.splits if_splits)
qed (use assms in \<open>auto simp: payload_data_body_def PAYLOAD_DATA_HEADER_SIZE_def init_body_def
      selective_ack_body_def SELECTIVE_ACK_HEADER_SIZE_def\<close>)

lemma length_chunk_header_marshal [simp]: "length (chunk_header_marshal h) = 4"
  by (simp add: chunk_header_marshal_def)

lemma length_chunk_marshal:
  "chunk_marshal c = Ok b \<Longrightarrow> length b = CHUNK_HEADER_SIZE + chunk_value_length c"
  by (auto simp: chunk_marshal_def obind_eq_Ok length_chunk_body CHUNK_HEADER_SIZE_def)

section \<open>The header\<close>

lemma check_padding_Ok:
  "(\<And>j. j < n \<Longrightarrow> 4 + (vlen + j) < length raw \<and> raw ! (4 + (vlen + j)) = 0) \<Longrightarrow>
   check_padding raw vlen n = Ok ()"
  by (induction n) (auto simp: CHUNK_HEADER_SIZE_def Let_def not_le)

lemma chunk_header_roundtrip:
  assumes "CHUNK_HEADER_SIZE + length body < 2 ^ 16" and "ok_tail rest"
    and h: "h = \<lparr>ch_typ = t, ch_flags = f, ch_value_length = of_nat (length body)\<rparr>"
  shows "chunk_header_unmarshal (chunk_header_marshal h @ body @ rest) = Ok h"
proof -
  let ?raw = "chunk_header_marshal h @ body @ rest"
  have len: "unat (of_nat (length body) + 4 :: u16) = 4 + length body"
    using assms(1) unat_of_nat_16 [of "4 + length body"] by (simp add: CHUNK_HEADER_SIZE_def add.commute)
  then have nlt: "\<not> (of_nat (length body) + 4 :: u16) < 4"
    by (simp add: word_less_nat_alt)
  have "length rest < 4 \<Longrightarrow> check_padding ?raw (length body) (length rest) = Ok ()"
    using assms(2) by (intro check_padding_Ok) (auto simp: ok_tail_def nth_append)
  moreover have "get_u8 ?raw = (Ok (t, put_u8 f @ put_u16 (of_nat (length body) + 4) @ body @ rest)
      :: (u8 \<times> bytes) result)"
    by (simp add: h chunk_header_marshal_def CHUNK_HEADER_SIZE_def codec_simps)
  ultimately show ?thesis
    using len nlt by (simp add: chunk_header_unmarshal_def codec_simps CHUNK_HEADER_SIZE_def h Let_def)
qed

lemma chunk_header_ok:
  assumes "chunk_body c = Ok body" and "CHUNK_HEADER_SIZE + chunk_value_length c < 2 ^ 16"
    and "ok_tail rest"
  shows "chunk_header_unmarshal (chunk_header_marshal (chunk_header_of c) @ body @ rest)
    = Ok (chunk_header_of c)"
  by (rule chunk_header_roundtrip)
    (use assms in \<open>simp_all add: length_chunk_body chunk_header_of_def\<close>)

lemma chunk_slice_ok:
  assumes "chunk_body c = Ok body" and "CHUNK_HEADER_SIZE + chunk_value_length c < 2 ^ 16"
    and "k \<le> length body"
  shows "chunk_slice (chunk_header_marshal (chunk_header_of c) @ body @ rest) (CHUNK_HEADER_SIZE + k)
      (chunk_header_of c) = Ok (drop k body)"
proof -
  have "unat (ch_value_length (chunk_header_of c)) = length body"
    using assms by (simp add: chunk_header_of_def unat_of_nat_16 length_chunk_body)
  then show ?thesis
    using assms(3) by (simp add: chunk_slice_def bytes_slice_def CHUNK_HEADER_SIZE_def)
qed

lemma chunk_slice_ok0:
  assumes "chunk_body c = Ok body" and "CHUNK_HEADER_SIZE + chunk_value_length c < 2 ^ 16"
  shows "chunk_slice (chunk_header_marshal (chunk_header_of c) @ body @ rest) CHUNK_HEADER_SIZE
      (chunk_header_of c) = Ok body"
  using chunk_slice_ok [OF assms, of 0 rest] by simp

lemma ch_typ_of [simp]: "ch_typ (chunk_header_of c) = chunk_typ c"
  by (simp add: chunk_header_of_def)

section \<open>Chunks that may be followed by others\<close>

lemma ppi_from_as [simp]: "ppi_from (ppi_as_u32 p) = p"
  by (cases p) (simp_all add: ppi_from_def)

lemma payload_flags:
  "payload_data_flags c AND 4 \<noteq> 0 \<longleftrightarrow> unordered c"
  "payload_data_flags c AND 2 \<noteq> 0 \<longleftrightarrow> beginning_fragment c"
  "payload_data_flags c AND 1 \<noteq> 0 \<longleftrightarrow> ending_fragment c"
  "payload_data_flags c AND 8 \<noteq> 0 \<longleftrightarrow> immediate_sack c"
  by (simp_all add: payload_data_flags_def Let_def)

lemma payload_data_roundtrip:
  assumes "CHUNK_HEADER_SIZE + chunk_value_length (ChunkPayloadData d) < 2 ^ 16" and "ok_tail rest"
  shows "payload_data_unmarshal now
      (chunk_header_marshal (chunk_header_of (ChunkPayloadData d)) @ payload_data_body d @ rest)
    = Ok (ChunkPayloadData (received now d))"
proof -
  let ?c = "ChunkPayloadData d"
  have b: "chunk_body ?c = Ok (payload_data_body d)" by simp
  have 12: "12 \<le> length (payload_data_body d)" by (simp add: payload_data_body_def)
  have fl: "ch_flags (chunk_header_of ?c) = payload_data_flags d" by (simp add: chunk_header_of_def)
  have s2: "chunk_slice (chunk_header_marshal (chunk_header_of ?c) @ payload_data_body d @ rest)
      (CHUNK_HEADER_SIZE + PAYLOAD_DATA_HEADER_SIZE) (chunk_header_of ?c) = Ok (user_data d)"
    using chunk_slice_ok [OF b assms(1) 12] by (simp add: PAYLOAD_DATA_HEADER_SIZE_def payload_data_body_def)
  show ?thesis
    using chunk_header_ok [OF b assms] chunk_slice_ok0 [OF b assms(1)] s2
    by (simp add: payload_data_unmarshal_def payload_data_body_def PAYLOAD_DATA_HEADER_SIZE_def
        codec_simps fl payload_flags received_def)
qed

lemma get_gap_ack_block_append [codec_simps]:
  "get_gap_ack_block (gap_ack_block_marshal g @ r) = Ok (g, r)"
  by (simp add: get_gap_ack_block_def gap_ack_block_marshal_def codec_simps)

lemma selective_ack_roundtrip:
  assumes "CHUNK_HEADER_SIZE + chunk_value_length (ChunkSelectiveAck d) < 2 ^ 16" and "ok_tail rest"
  shows "selective_ack_unmarshal
      (chunk_header_marshal (chunk_header_of (ChunkSelectiveAck d)) @ selective_ack_body d @ rest)
    = Ok (ChunkSelectiveAck d)"
proof -
  let ?c = "ChunkSelectiveAck d"
  have b: "chunk_body ?c = Ok (selective_ack_body d)" by simp
  have n: "unat (of_nat (length (gap_ack_blocks d)) :: u16) = length (gap_ack_blocks d)"
      "unat (of_nat (length (duplicate_tsn d)) :: u16) = length (duplicate_tsn d)"
    using assms(1) by (simp_all add: unat_of_nat_16)
  have g: "get_many get_gap_ack_block (length (gap_ack_blocks d))
      (concat (map gap_ack_block_marshal (gap_ack_blocks d)) @ r) = Ok (gap_ack_blocks d, r)" for r
    by (rule get_many_concat) (rule get_gap_ack_block_append)
  have u: "get_many get_u32 (length (duplicate_tsn d)) (concat (map put_u32 (duplicate_tsn d)))
      = (Ok (duplicate_tsn d, []) :: (u32 list \<times> bytes) result)"
    using get_many_concat [of "duplicate_tsn d" "get_u32 :: bytes \<Rightarrow> (u32 \<times> bytes) result" put_u32 "[]"]
    by (simp add: codec_simps)
  show ?thesis
    using chunk_header_ok [OF b assms] chunk_slice_ok0 [OF b assms(1), of rest]
    by (simp add: selective_ack_unmarshal_def selective_ack_body_def SELECTIVE_ACK_HEADER_SIZE_def
        CHUNK_HEADER_SIZE_def codec_simps n g u)
qed

lemma cookie_echo_roundtrip:
  assumes "CHUNK_HEADER_SIZE + length ck < 2 ^ 16" and "ok_tail rest"
  shows "cookie_echo_unmarshal (chunk_header_marshal (chunk_header_of (ChunkCookieEcho ck)) @ ck @ rest)
    = Ok (ChunkCookieEcho ck)"
  using chunk_header_ok [of "ChunkCookieEcho ck" ck rest] chunk_slice_ok0 [of "ChunkCookieEcho ck" ck rest] assms
  by (simp add: cookie_echo_unmarshal_def)

lemma empty_chunk_roundtrip:
  assumes "ok_tail rest"
  shows "cookie_ack_unmarshal (chunk_header_marshal (chunk_header_of ChunkCookieAck) @ rest) = Ok ChunkCookieAck"
    and "shutdown_ack_unmarshal (chunk_header_marshal (chunk_header_of ChunkShutdownAck) @ rest)
      = Ok ChunkShutdownAck"
    and "shutdown_complete_unmarshal (chunk_header_marshal (chunk_header_of ChunkShutdownComplete) @ rest)
      = Ok ChunkShutdownComplete"
  using chunk_header_ok [of ChunkCookieAck "[]" rest] chunk_header_ok [of ChunkShutdownAck "[]" rest]
    chunk_header_ok [of ChunkShutdownComplete "[]" rest] assms
  by (simp_all add: cookie_ack_unmarshal_def shutdown_ack_unmarshal_def shutdown_complete_unmarshal_def
      CHUNK_HEADER_SIZE_def)

lemma heartbeat_roundtrip:
  assumes "wf_param (ParamHeartbeatInfo i)" and "ok_tail rest" and "length i + 8 < 2 ^ 16"
  shows "heartbeat_unmarshal (chunk_header_marshal (chunk_header_of (ChunkHeartbeat [ParamHeartbeatInfo i]))
      @ param_marshal (ParamHeartbeatInfo i) @ rest) = Ok (ChunkHeartbeat [ParamHeartbeatInfo i])"
proof -
  let ?c = "ChunkHeartbeat [ParamHeartbeatInfo i]"
  have b: "chunk_body ?c = Ok (param_marshal (ParamHeartbeatInfo i))" by simp
  have l: "CHUNK_HEADER_SIZE + chunk_value_length ?c < 2 ^ 16"
    using assms(3) by (simp add: CHUNK_HEADER_SIZE_def PARAM_HEADER_LENGTH_def)
  show ?thesis
    using chunk_header_ok [OF b l assms(2)] chunk_slice_ok0 [OF b l] param.decode [OF assms(1)]
    by (simp add: heartbeat_unmarshal_def CHUNK_HEADER_SIZE_def length_param_marshal PARAM_HEADER_LENGTH_def)
qed

lemma reconfig_roundtrip:
  assumes "reconfig_body c = Ok body" and "CHUNK_HEADER_SIZE + reconfig_value_length c < 2 ^ 16"
    and "ok_tail rest" and "\<forall>p. param_a c = Some p \<or> param_b c = Some p \<longrightarrow> wf_param p"
  shows "reconfig_unmarshal (chunk_header_marshal (chunk_header_of (ChunkReconfig c)) @ body @ rest)
    = Ok (ChunkReconfig c)"
proof -
  let ?c = "ChunkReconfig c"
  let ?raw = "chunk_header_marshal (chunk_header_of ?c) @ body @ rest"
  have b: "chunk_body ?c = Ok body" using assms(1) by simp
  have l: "CHUNK_HEADER_SIZE + chunk_value_length ?c < 2 ^ 16" using assms(2) by simp
  obtain a where a: "param_a c = Some a"
    using assms(1) by (auto simp: reconfig_body_def split: option.splits)
  have wa: "wf_param a" using assms(4) a by simp
  define pad where "pad = get_padding_size (param_value_length a)"
  have vl: "unat (ch_value_length (chunk_header_of ?c)) = length body"
    using l length_chunk_body [OF b] by (simp add: chunk_header_of_def unat_of_nat_16)
  note common = chunk_header_ok [OF b l assms(3)] chunk_slice_ok0 [OF b l, of rest]
  show ?thesis
  proof (cases "param_b c")
    case None
    then have "body = param_marshal a" using assms(1) a by (simp add: reconfig_body_def)
    with common vl None a show ?thesis
      using param.decode [OF wa]
      by (simp add: reconfig_unmarshal_def Let_def length_param_marshal)
  next
    case (Some pb)
    have wb: "wf_param pb" using assms(4) Some by simp
    have body: "body = param_marshal a @ replicate pad 0 @ param_marshal pb"
      using assms(1) a Some by (simp add: reconfig_body_def pad_def PARAM_HEADER_LENGTH_def)
    have "chunk_slice ?raw (CHUNK_HEADER_SIZE + (PARAM_HEADER_LENGTH + param_value_length a + pad))
        (chunk_header_of ?c) = Ok (param_marshal pb)"
      using chunk_slice_ok [OF b l, of "PARAM_HEADER_LENGTH + param_value_length a + pad" rest]
      by (simp add: body length_param_marshal)
    then show ?thesis
      using common vl param.decode_append [OF wa] param.decode [OF wb] a Some
      by (simp add: reconfig_unmarshal_def Let_def body length_param_marshal pad_def [symmetric] add.assoc
          PARAM_HEADER_LENGTH_def)
  qed
qed

section \<open>Chunks that measure the rest of the packet\<close>

text \<open>
  The parameter loop of INIT runs \<^verbatim>\<open>while remaining > 4\<close>, so a last parameter of exactly four bytes (one
  with an empty value) is never decoded: the receiver sees \<open>init_params_seen\<close>.
\<close>

definition init_params_seen :: "param list \<Rightarrow> param list" where
  "init_params_seen ps = (if ps \<noteq> [] \<and> param_value_length (last ps) = 0 then butlast ps else ps)"

lemma chunk_slice_split:
  assumes "raw = pre @ mid @ post" and "length pre = offset"
    and "CHUNK_HEADER_SIZE + unat (ch_value_length header) = offset + length mid"
  shows "chunk_slice raw offset header = Ok mid"
  using assms by (simp add: chunk_slice_def bytes_slice_def)

lemma params_padded_length_ge: "ps \<noteq> [] \<Longrightarrow> 4 \<le> params_padded_length ps"
  by (cases ps rule: params_padded_length.cases) (simp_all add: PARAM_HEADER_LENGTH_def Let_def)

lemma init_params_loop_stop: "remaining \<le> 4 \<Longrightarrow> init_params_loop raw header offset remaining = Ok []"
  by (subst init_params_loop.simps) (simp add: INIT_OPTIONAL_VAR_HEADER_LENGTH_def)

lemma init_params_loop_step:
  assumes "remaining > 4" and "chunk_slice raw offset header = Ok (param_marshal p @ r)" and "wf_param p"
    and "n = PARAM_HEADER_LENGTH + param_value_length p + get_padding_size (PARAM_HEADER_LENGTH + param_value_length p)"
  shows "init_params_loop raw header offset remaining =
    obind (init_params_loop raw header (offset + n) (remaining - int n)) (\<lambda>ps. Ok (p # ps))"
  using assms param.decode_append [OF assms(3), of r]
  by (subst init_params_loop.simps) (simp add: INIT_OPTIONAL_VAR_HEADER_LENGTH_def Let_def)

lemma padding_param_tail:
  "get_padding_size (PARAM_HEADER_LENGTH + n + get_padding_size (PARAM_HEADER_LENGTH + n) + m)
   = get_padding_size m"
  by (rule padding_aligned) (rule padding_aligns)

lemma init_params_loop_ok:
  assumes "raw = pre @ params_padded_marshal ps @ rest" and "length pre = offset"
    and "CHUNK_HEADER_SIZE + unat (ch_value_length header) = offset + params_padded_length ps"
    and "\<forall>p \<in> set ps. wf_param p" and "length rest = get_padding_size (params_padded_length ps)"
  shows "init_params_loop raw header offset (int (length raw) - int offset) = Ok (init_params_seen ps)"
  using assms
proof (induction ps arbitrary: pre offset rule: params_padded_marshal.induct)
  case 1
  then show ?case using padding_lt_4 [of 0]
    by (intro trans [OF init_params_loop_stop]) (auto simp: init_params_seen_def)
next
  case (2 p)
  have len: "int (length raw) - int offset = int (PARAM_HEADER_LENGTH + param_value_length p) + int (length rest)"
    using "2.prems" by (simp add: length_param_marshal)
  have pad: "length rest = get_padding_size (param_value_length p)"
    using "2.prems"(5) by (simp add: PARAM_HEADER_LENGTH_def)
  show ?case
  proof (cases "param_value_length p = 0")
    case True
    then show ?thesis using pad
      by (subst init_params_loop_stop) (auto simp: len PARAM_HEADER_LENGTH_def init_params_seen_def get_padding_size_def)
  next
    case False
    have "chunk_slice raw offset header = Ok (param_marshal p @ [])"
      using "2.prems" chunk_slice_split [of raw pre "param_marshal p" rest offset header]
      by (simp add: length_param_marshal)
    from init_params_loop_step [OF _ this _ refl, of "int (length raw) - int offset"] show ?thesis
      using False "2.prems"(4) pad
      by (simp add: len PARAM_HEADER_LENGTH_def init_params_loop_stop init_params_seen_def)
  qed
next
  case (3 p q ps)
  define n where "n = PARAM_HEADER_LENGTH + param_value_length p + get_padding_size (PARAM_HEADER_LENGTH + param_value_length p)"
  let ?pre = "pre @ param_marshal p @ replicate (get_padding_size (length (param_marshal p))) 0"
  let ?mid = "replicate (get_padding_size (length (param_marshal p))) 0 @ params_padded_marshal (q # ps)"
  have plen: "params_padded_length (p # q # ps) = n + params_padded_length (q # ps)"
    by (simp add: n_def Let_def)
  have "chunk_slice raw offset header = Ok (param_marshal p @ ?mid)"
    using "3.prems" by (intro chunk_slice_split [of raw pre _ rest])
      (simp_all add: length_param_marshal Let_def)
  moreover have gt: "int (length raw) - int offset > 4"
    using "3.prems"(1,2) params_padded_length_ge [of "q # ps"]
    by (simp add: length_param_marshal PARAM_HEADER_LENGTH_def)
  moreover have "init_params_loop raw header (offset + n) (int (length raw) - int (offset + n))
      = Ok (init_params_seen (q # ps))"
  proof (rule "3.IH" [of ?pre])
    show "raw = ?pre @ params_padded_marshal (q # ps) @ rest" using "3.prems"(1) by simp
    show "length ?pre = offset + n" using "3.prems"(2) by (simp add: n_def length_param_marshal)
    show "CHUNK_HEADER_SIZE + unat (ch_value_length header) = offset + n + params_padded_length (q # ps)"
      using "3.prems"(3) plen by simp
    show "length rest = get_padding_size (params_padded_length (q # ps))"
      using "3.prems"(5) unfolding plen n_def by (simp only: padding_param_tail)
  qed (use "3.prems"(4) in simp)
  ultimately show ?case
    using init_params_loop_step [OF gt _ _ n_def, of raw offset header ?mid] "3.prems"(4)
    by (auto simp: init_params_seen_def algebra_simps)
qed

lemma header_value_length:
  "CHUNK_HEADER_SIZE + chunk_value_length c < 2 ^ 16 \<Longrightarrow>
    unat (ch_value_length (chunk_header_of c)) = chunk_value_length c"
  by (simp only: chunk_header_of_def chunk_header.simps, rule unat_of_nat_16, simp)

lemma init_roundtrip:
  assumes "CHUNK_HEADER_SIZE + chunk_value_length (ChunkInit c) < 2 ^ 16"
    and "\<forall>p \<in> set (init_params c). wf_param p"
    and "rest = replicate (get_padding_size (chunk_value_length (ChunkInit c))) 0"
  shows "init_unmarshal (chunk_header_marshal (chunk_header_of (ChunkInit c)) @ init_body c @ rest)
    = Ok (ChunkInit (c\<lparr>init_params := init_params_seen (init_params c)\<rparr>))"
proof -
  let ?c = "ChunkInit c" and ?fix = "take 16 (init_body c)"
  let ?raw = "chunk_header_marshal (chunk_header_of ?c) @ init_body c @ rest"
  have b: "chunk_body ?c = Ok (init_body c)" by simp
  have ok: "ok_tail rest" using assms(3) by (simp add: ok_tail_def)
  have vl: "unat (ch_value_length (chunk_header_of ?c)) = 16 + params_padded_length (init_params c)"
    using header_value_length [OF assms(1)] by simp
  have "get_padding_size (16 + m) = get_padding_size m" for m by (rule padding_aligned) simp
  then have lrest: "length rest = get_padding_size (params_padded_length (init_params c))"
    using assms(3) by simp
  have split: "init_body c = ?fix @ params_padded_marshal (init_params c)" "length ?fix = 16"
    by (simp_all add: init_body_def)
  have "init_params_loop ?raw (chunk_header_of ?c) 20 (int (length ?raw) - int 20)
      = Ok (init_params_seen (init_params c))"
    by (rule init_params_loop_ok [of ?raw "chunk_header_marshal (chunk_header_of ?c) @ ?fix" _ rest])
      (use split vl assms(2) lrest in \<open>simp_all add: CHUNK_HEADER_SIZE_def\<close>)
  moreover have "chunk_typ ?c = CT_INIT \<or> chunk_typ ?c = CT_INIT_ACK" by simp
  moreover have "ch_flags (chunk_header_of ?c) = 0" by (simp add: chunk_header_of_def)
  moreover have "CHUNK_HEADER_SIZE + INIT_CHUNK_MIN_LENGTH = 20"
    by (simp add: CHUNK_HEADER_SIZE_def INIT_CHUNK_MIN_LENGTH_def)
  moreover have "\<not> length ?raw < 20" by (simp add: init_body_def)
  ultimately show ?thesis
    using chunk_header_ok [OF b assms(1) ok] chunk_slice_ok0 [OF b assms(1), of rest]
    by (simp add: init_unmarshal_def Let_def init_body_def codec_simps)
qed

lemma error_cause_roundtrip:
  assumes "error_cause_length e < 2 ^ 16"
  shows "error_cause_unmarshal (error_cause_marshal e @ r) = Ok e"
proof -
  have "unat (of_nat (length (ec_raw e) + 4) :: u16) = length (ec_raw e) + 4"
    by (rule unat_of_nat_16)
      (use assms in \<open>simp add: error_cause_length_def ERROR_CAUSE_HEADER_LENGTH_def\<close>)
  moreover from this have "\<not> (of_nat (length (ec_raw e) + 4) :: u16) < 4"
    by (simp add: word_less_nat_alt)
  ultimately show ?thesis
    by (simp add: error_cause_unmarshal_def error_cause_marshal_def ERROR_CAUSE_HEADER_LENGTH_def
        codec_simps bytes_slice_def add.commute)
qed

lemma error_causes_loop_ok:
  assumes "raw = pre @ concat (map error_cause_marshal es) @ rest" and "length pre = offset"
    and "CHUNK_HEADER_SIZE + unat (ch_value_length header) = offset + length (concat (map error_cause_marshal es))"
    and "\<forall>e \<in> set es. error_cause_length e < 2 ^ 16" and "length rest < 4"
  shows "error_causes_loop raw header offset = Ok es"
  using assms
proof (induction es arbitrary: pre offset)
  case Nil
  then show ?case by (subst error_causes_loop.simps) simp
next
  case (Cons e es)
  have "chunk_slice raw offset header = Ok (error_cause_marshal e @ concat (map error_cause_marshal es))"
    using Cons.prems by (intro chunk_slice_split [of raw pre _ rest]) simp_all
  moreover have "error_causes_loop raw header (offset + error_cause_length e) = Ok es"
    by (rule Cons.IH [of "pre @ error_cause_marshal e"]) (use Cons.prems in simp_all)
  moreover have "offset + 4 \<le> length raw"
    using Cons.prems(1,2) by (simp add: error_cause_length_def ERROR_CAUSE_HEADER_LENGTH_def)
  ultimately show ?case
    using Cons.prems(4) error_cause_roundtrip [of e]
    by (subst error_causes_loop.simps) simp
qed

lemma causes_roundtrip:
  assumes "chunk_body c = Ok (concat (map error_cause_marshal es))" and "c \<in> {ChunkAbort es, ChunkError es}"
    and "CHUNK_HEADER_SIZE + chunk_value_length c < 2 ^ 16" and "ok_tail rest" and "length rest < 4"
  shows "error_causes_loop (chunk_header_marshal (chunk_header_of c) @ concat (map error_cause_marshal es) @ rest)
    (chunk_header_of c) CHUNK_HEADER_SIZE = Ok es"
proof (rule error_causes_loop_ok [OF refl _ _ _ assms(5)])
  have len: "length (concat (map error_cause_marshal es)) = chunk_value_length c"
    by (rule length_chunk_body [OF assms(1)])
  then show "CHUNK_HEADER_SIZE + unat (ch_value_length (chunk_header_of c))
      = CHUNK_HEADER_SIZE + length (concat (map error_cause_marshal es))"
    using assms(3) by (simp add: chunk_header_of_def unat_of_nat_16)
  show "\<forall>e \<in> set es. error_cause_length e < 2 ^ 16"
  proof
    fix e assume "e \<in> set es"
    then have "length (error_cause_marshal e) \<le> length (concat (map error_cause_marshal es))"
      by (auto simp: in_set_conv_decomp)
    with len assms(3) show "error_cause_length e < 2 ^ 16" by simp
  qed
qed (simp add: CHUNK_HEADER_SIZE_def)

lemma abort_error_roundtrip:
  assumes "CHUNK_HEADER_SIZE + chunk_value_length (ChunkAbort es) < 2 ^ 16" and "ok_tail rest" and "length rest < 4"
  shows "abort_unmarshal (chunk_header_marshal (chunk_header_of (ChunkAbort es))
      @ concat (map error_cause_marshal es) @ rest) = Ok (ChunkAbort es)"
    and "error_unmarshal (chunk_header_marshal (chunk_header_of (ChunkError es))
      @ concat (map error_cause_marshal es) @ rest) = Ok (ChunkError es)"
  using causes_roundtrip [of "ChunkAbort es" es rest] chunk_header_ok [of "ChunkAbort es" _ rest]
    causes_roundtrip [of "ChunkError es" es rest] chunk_header_ok [of "ChunkError es" _ rest] assms
  by (simp_all add: abort_unmarshal_def error_unmarshal_def)

lemma forward_tsn_stream_roundtrip:
  "forward_tsn_stream_unmarshal (forward_tsn_stream_marshal g @ r) = Ok g"
  by (simp add: forward_tsn_stream_unmarshal_def forward_tsn_stream_marshal_def codec_simps)

lemma forward_tsn_loop_ok:
  assumes "raw = pre @ concat (map forward_tsn_stream_marshal ss)" and "length pre = offset"
    and "CHUNK_HEADER_SIZE + unat (ch_value_length header) = length raw"
  shows "forward_tsn_loop raw header offset (length raw - offset) = Ok ss"
  using assms
proof (induction ss arbitrary: pre offset)
  case Nil
  then show ?case by (subst forward_tsn_loop.simps) simp
next
  case (Cons g ss)
  have "chunk_slice raw offset header
      = Ok (forward_tsn_stream_marshal g @ concat (map forward_tsn_stream_marshal ss))"
    using Cons.prems by (intro chunk_slice_split [of raw pre _ "[]"]) simp_all
  moreover have "forward_tsn_loop raw header (offset + 4) (length raw - (offset + 4)) = Ok ss"
    by (rule Cons.IH [of "pre @ forward_tsn_stream_marshal g"])
      (use Cons.prems in \<open>simp_all add: forward_tsn_stream_marshal_def\<close>)
  ultimately show ?case
    using Cons.prems(1,2) forward_tsn_stream_roundtrip [of g]
    by (subst forward_tsn_loop.simps) (simp add: forward_tsn_stream_marshal_def)
qed

lemma forward_tsn_roundtrip:
  assumes "CHUNK_HEADER_SIZE + chunk_value_length (ChunkForwardTsn d) < 2 ^ 16"
    and b: "chunk_body (ChunkForwardTsn d) = Ok body"
  shows "forward_tsn_unmarshal (chunk_header_marshal (chunk_header_of (ChunkForwardTsn d)) @ body)
    = Ok (ChunkForwardTsn d)"
proof -
  let ?h = "chunk_header_of (ChunkForwardTsn d)" let ?raw = "chunk_header_marshal ?h @ body"
  have ok: "ok_tail []" by (simp add: ok_tail_def)
  have body: "body = put_u32 (new_cumulative_tsn d) @ concat (map forward_tsn_stream_marshal (fwd_streams d))"
    using b by simp
  have "forward_tsn_loop ?raw ?h 8 (length ?raw - 8) = Ok (fwd_streams d)"
    by (rule forward_tsn_loop_ok [of _ "chunk_header_marshal ?h @ put_u32 (new_cumulative_tsn d)"])
      (use header_value_length [OF assms(1)] length_chunk_body [OF b] in
        \<open>simp_all add: body CHUNK_HEADER_SIZE_def\<close>)
  then show ?thesis
    using chunk_header_ok [OF b assms(1) ok] chunk_slice_ok0 [OF b assms(1), of "[]"]
    by (simp add: forward_tsn_unmarshal_def Let_def CHUNK_HEADER_SIZE_def body codec_simps)
qed

lemma shutdown_roundtrip:
  "shutdown_unmarshal (chunk_header_marshal (chunk_header_of (ChunkShutdown t)) @ put_u32 t)
    = Ok (ChunkShutdown t)"
  using chunk_header_ok [of "ChunkShutdown t" _ "[]"] chunk_slice_ok0 [of "ChunkShutdown t" _ "[]"]
  by (simp add: shutdown_unmarshal_def ok_tail_def CHUNK_HEADER_SIZE_def codec_simps)

end
