(* ===== verification/Sctp_Packet.thy ===== *)
theory Sctp_Packet
  imports Sctp_Chunk_Codec
begin

text \<open>
  \<^verbatim>\<open>sctp/packet.rs\<close>: the common header, the chunk sequence with its padding and the checksum. The
  CRC-32 of the \<^verbatim>\<open>crc\<close> crate is the parameter \<open>crc\<close>, and the clock reading that \<^verbatim>\<open>unmarshal\<close> stores
  in a DATA chunk is the parameter \<open>now\<close>. The round trip says which chunk sequences survive the
  wire: all well-formed ones whose tail-sensitive chunks come last.
\<close>

record packet =
  source_port :: u16
  destination_port :: u16
  verification_tag :: u32
  chunks :: "chunk list"

definition PACKET_HEADER_SIZE :: nat where
  "PACKET_HEADER_SIZE = 12"

section \<open>Decoding\<close>

text \<open>The dispatch on \<^verbatim>\<open>ChunkType(raw[offset])\<close>; \<open>raw\<close> is \<^verbatim>\<open>raw.slice(offset..)\<close>.\<close>

definition chunk_unmarshal :: "nat \<Rightarrow> bytes \<Rightarrow> chunk result" where
  "chunk_unmarshal now raw =
     (let ct = hd raw in
      if ct = CT_INIT then init_unmarshal raw
      else if ct = CT_INIT_ACK then init_unmarshal raw
      else if ct = CT_ABORT then abort_unmarshal raw
      else if ct = CT_COOKIE_ECHO then cookie_echo_unmarshal raw
      else if ct = CT_COOKIE_ACK then cookie_ack_unmarshal raw
      else if ct = CT_HEARTBEAT then heartbeat_unmarshal raw
      else if ct = CT_PAYLOAD_DATA then payload_data_unmarshal now raw
      else if ct = CT_SACK then selective_ack_unmarshal raw
      else if ct = CT_RECONFIG then reconfig_unmarshal raw
      else if ct = CT_FORWARD_TSN then forward_tsn_unmarshal raw
      else if ct = CT_ERROR then error_unmarshal raw
      else if ct = CT_SHUTDOWN then shutdown_unmarshal raw
      else if ct = CT_SHUTDOWN_ACK then shutdown_ack_unmarshal raw
      else if ct = CT_SHUTDOWN_COMPLETE then shutdown_complete_unmarshal raw
      else Err ErrUnmarshalUnknownChunkType)"

function packet_chunks_loop :: "nat \<Rightarrow> bytes \<Rightarrow> nat \<Rightarrow> chunk list result" where
  "packet_chunks_loop now raw offset =
     (if offset = length raw then Ok []
      else if offset + CHUNK_HEADER_SIZE > length raw then Err ErrParseSctpChunkNotEnoughData
      else obind (chunk_unmarshal now (drop offset raw)) (\<lambda>c.
        let chunk_value_padding = get_padding_size (chunk_value_length c) in
        obind (packet_chunks_loop now raw
                 (offset + (CHUNK_HEADER_SIZE + chunk_value_length c + chunk_value_padding)))
          (\<lambda>cs. Ok (c # cs))))"
  by pat_completeness auto
termination
  by (relation "measure (\<lambda>(_, raw, offset). length raw - offset)") (auto simp: CHUNK_HEADER_SIZE_def)

declare packet_chunks_loop.simps [simp del]

definition packet_unmarshal :: "(bytes \<Rightarrow> u32) \<Rightarrow> nat \<Rightarrow> bytes \<Rightarrow> packet result" where
  "packet_unmarshal crc now raw =
     (if length raw < PACKET_HEADER_SIZE then Err ErrPacketRawTooSmall
      else obind (get_u16 raw) (\<lambda>(sp, reader). obind (get_u16 reader) (\<lambda>(dp, reader).
        obind (get_u32 reader) (\<lambda>(vt, reader). obind (get_u32_le reader) (\<lambda>(their_checksum, _).
        obind (generate_packet_checksum crc raw) (\<lambda>our_checksum.
          if their_checksum \<noteq> our_checksum then Err ErrChecksumMismatch
          else obind (packet_chunks_loop now raw PACKET_HEADER_SIZE) (\<lambda>cs.
            Ok \<lparr>source_port = sp, destination_port = dp, verification_tag = vt, chunks = cs\<rparr>)))))))"

section \<open>Encoding\<close>

fun packet_chunks_marshal :: "bytes \<Rightarrow> chunk list \<Rightarrow> bytes result" where
  "packet_chunks_marshal raw [] = Ok raw"
| "packet_chunks_marshal raw (c # cs) =
     obind (chunk_marshal c) (\<lambda>chunk_raw.
       let raw = raw @ chunk_raw in
       packet_chunks_marshal (raw @ replicate (get_padding_size (length raw)) 0) cs)"

definition packet_marshal_to :: "(bytes \<Rightarrow> u32) \<Rightarrow> packet \<Rightarrow> bytes \<Rightarrow> bytes result" where
  "packet_marshal_to crc p writer =
     (let writer = writer @ put_u16 (source_port p) @ put_u16 (destination_port p)
            @ put_u32 (verification_tag p) in
      obind (packet_chunks_marshal [] (chunks p)) (\<lambda>raw.
        let checksum = crc (writer @ [0, 0, 0, 0] @ raw) in
        Ok (writer @ put_u32_le checksum @ raw)))"

definition packet_marshal :: "(bytes \<Rightarrow> u32) \<Rightarrow> packet \<Rightarrow> bytes result" where
  "packet_marshal crc p = packet_marshal_to crc p []"

section \<open>Checks\<close>

fun check_packet_chunks :: "packet \<Rightarrow> chunk list \<Rightarrow> unit result" where
  "check_packet_chunks p [] = Ok ()"
| "check_packet_chunks p (ChunkInit ci # cs) =
     (if \<not> is_ack ci then
        if length (chunks p) \<noteq> 1 then Err ErrInitChunkBundled
        else if verification_tag p \<noteq> 0 then Err ErrInitChunkVerifyTagNotZero
        else check_packet_chunks p cs
      else check_packet_chunks p cs)"
| "check_packet_chunks p (_ # cs) = check_packet_chunks p cs"

definition check_packet :: "packet \<Rightarrow> unit result" where
  "check_packet p =
     (if source_port p = 0 then Err ErrSctpPacketSourcePortZero
      else if destination_port p = 0 then Err ErrSctpPacketDestinationPortZero
      else check_packet_chunks p (chunks p))"

section \<open>Which packets survive the wire\<close>

text \<open>
  A chunk is well formed when its length fits the 16-bit field and its parameters are well formed.
  The chunks that end a packet are those whose decoder measures all the bytes that remain.
\<close>

fun wf_chunk :: "chunk \<Rightarrow> bool" where
  "wf_chunk (ChunkInit c) \<longleftrightarrow> CHUNK_HEADER_SIZE + chunk_value_length (ChunkInit c) < 2 ^ 16 \<and>
     (\<forall>p \<in> set (init_params c). wf_param p) \<and> init_params_seen (init_params c) = init_params c"
| "wf_chunk (ChunkHeartbeat ps) \<longleftrightarrow>
     (case ps of [ParamHeartbeatInfo i] \<Rightarrow> length i + 8 < 2 ^ 16 | _ \<Rightarrow> False)"
| "wf_chunk (ChunkHeartbeatAck ps) \<longleftrightarrow> False"
| "wf_chunk (ChunkReconfig c) \<longleftrightarrow> CHUNK_HEADER_SIZE + chunk_value_length (ChunkReconfig c) < 2 ^ 16 \<and>
     (case param_a c of Some p \<Rightarrow> wf_param p | None \<Rightarrow> False) \<and>
     (case param_b c of Some p \<Rightarrow> wf_param p | None \<Rightarrow> True)"
| "wf_chunk c \<longleftrightarrow> CHUNK_HEADER_SIZE + chunk_value_length c < 2 ^ 16"

fun ends_packet :: "chunk \<Rightarrow> bool" where
  "ends_packet (ChunkInit _) \<longleftrightarrow> True"
| "ends_packet (ChunkAbort _) \<longleftrightarrow> True"
| "ends_packet (ChunkError _) \<longleftrightarrow> True"
| "ends_packet (ChunkForwardTsn _) \<longleftrightarrow> True"
| "ends_packet (ChunkShutdown _) \<longleftrightarrow> True"
| "ends_packet _ \<longleftrightarrow> False"

fun wf_chunks :: "chunk list \<Rightarrow> bool" where
  "wf_chunks [] \<longleftrightarrow> True"
| "wf_chunks (c # cs) \<longleftrightarrow> wf_chunk c \<and> (cs = [] \<or> \<not> ends_packet c) \<and> wf_chunks cs"

fun chunk_received :: "nat \<Rightarrow> chunk \<Rightarrow> chunk" where
  "chunk_received now (ChunkPayloadData d) = ChunkPayloadData (received now d)"
| "chunk_received now c = c"

lemma chunk_received_value_length [simp]:
  "chunk_value_length (chunk_received now c) = chunk_value_length c"
  by (cases c) (simp_all add: received_def)

lemma wf_heartbeat_iff:
  "wf_chunk (ChunkHeartbeat ps) \<longleftrightarrow> (\<exists>i. ps = [ParamHeartbeatInfo i] \<and> length i + 8 < 2 ^ 16)"
proof (cases ps)
  case (Cons p qs)
  then show ?thesis by (cases p; cases qs) auto
qed simp

declare wf_chunk.simps(2) [simp del]
declare wf_heartbeat_iff [simp]

lemma wf_chunk_size: "wf_chunk c \<Longrightarrow> CHUNK_HEADER_SIZE + chunk_value_length c < 2 ^ 16"
  by (cases c) (auto simp: CHUNK_HEADER_SIZE_def PARAM_HEADER_LENGTH_def)

lemma wf_chunk_marshal_ok: "wf_chunk c \<Longrightarrow> \<exists>body. chunk_body c = Ok body"
  by (cases c) (auto simp: reconfig_body_def split: option.splits)

lemma hd_header [simp]: "hd (chunk_header_marshal (chunk_header_of c) @ r) = chunk_typ c"
  by (simp add: chunk_header_marshal_def put_u8_def)

lemma ok_tail_padding: "cs = [] \<or> 4 \<le> length cs \<Longrightarrow> ok_tail (replicate n 0 @ cs)"
  by (auto simp: ok_tail_def)

lemma chunk_unmarshal_ok:
  assumes "wf_chunk c" and "chunk_body c = Ok body"
    and rest: "rest = replicate (get_padding_size (chunk_value_length c)) 0 @ post"
    and "post = [] \<or> \<not> ends_packet c \<and> 4 \<le> length post"
  shows "chunk_unmarshal now (chunk_header_marshal (chunk_header_of c) @ body @ rest)
    = Ok (chunk_received now c)"
proof -
  have ok: "ok_tail rest" using assms(4) unfolding rest by (auto intro: ok_tail_padding)
  have tail: "post = [] \<Longrightarrow> length rest < 4" unfolding rest using padding_lt_4 by simp
  note size = wf_chunk_size [OF assms(1)]
  show ?thesis
  proof (cases c)
    case (ChunkForwardTsn d)
    moreover from this have "rest = []"
      using assms(4) unfolding rest by (simp add: get_padding_size_def)
    ultimately show ?thesis
      using assms(2) size forward_tsn_roundtrip [of d body] by (simp add: chunk_unmarshal_def)
  next
    case (ChunkShutdown t)
    moreover from this have "rest = []"
      using assms(4) unfolding rest by (simp add: get_padding_size_def)
    ultimately show ?thesis
      using assms(2) shutdown_roundtrip [of t] by (auto simp: chunk_unmarshal_def)
  next
    case (ChunkInit d)
    then show ?thesis
      using assms size init_roundtrip [of d rest] by (auto simp: chunk_unmarshal_def)
  next
    case (ChunkReconfig d)
    then have "\<forall>p. param_a d = Some p \<or> param_b d = Some p \<longrightarrow> wf_param p"
      using assms(1) by (auto split: option.splits)
    then show ?thesis
      using ChunkReconfig assms(2) size reconfig_roundtrip [OF _ _ ok, of d body]
      by (simp add: chunk_unmarshal_def)
  qed (use assms size ok tail in \<open>auto simp: chunk_unmarshal_def payload_data_roundtrip
      selective_ack_roundtrip cookie_echo_roundtrip empty_chunk_roundtrip heartbeat_roundtrip
      abort_error_roundtrip wf_param_def PARAM_HEADER_LENGTH_def\<close>)
qed

text \<open>The padded encoding of a chunk sequence, without the accumulator.\<close>

fun chunks_wire :: "chunk list \<Rightarrow> bytes result" where
  "chunks_wire [] = Ok []"
| "chunks_wire (c # cs) =
     obind (chunk_body c) (\<lambda>body. obind (chunks_wire cs) (\<lambda>r.
       Ok (chunk_header_marshal (chunk_header_of c) @ body
            @ replicate (get_padding_size (chunk_value_length c)) 0 @ r)))"

lemma packet_chunks_marshal_wire:
  "4 dvd length raw \<Longrightarrow>
   packet_chunks_marshal raw cs = obind (chunks_wire cs) (\<lambda>w. Ok (raw @ w))"
proof (induction cs arbitrary: raw)
  case (Cons c cs)
  show ?case
  proof (cases "chunk_body c")
    case (Ok body)
    let ?raw = "raw @ chunk_header_marshal (chunk_header_of c) @ body"
    have len: "length ?raw = length raw + (4 + chunk_value_length c)"
      using length_chunk_body [OF Ok] by simp
    then have pad: "get_padding_size (length ?raw) = get_padding_size (chunk_value_length c)"
      using padding_aligned [OF Cons.prems] by simp
    have "4 dvd length ?raw + get_padding_size (length ?raw)" by (rule padding_aligns)
    then have "packet_chunks_marshal (?raw @ replicate (get_padding_size (length ?raw)) 0) cs
        = obind (chunks_wire cs) (\<lambda>w. Ok ((?raw @ replicate (get_padding_size (length ?raw)) 0) @ w))"
      by (intro Cons.IH) (simp only: length_append length_replicate)
    with Ok pad show ?thesis by (simp add: chunk_marshal_def Let_def obind_assoc)
  qed (simp_all add: chunk_marshal_def)
qed simp

lemma chunks_wire_ok: "wf_chunks cs \<Longrightarrow> \<exists>w. chunks_wire cs = Ok w"
proof (induction cs)
  case (Cons c cs)
  then show ?case using wf_chunk_marshal_ok [of c] by auto
qed simp

lemma chunks_wire_length: "chunks_wire cs = Ok w \<Longrightarrow> (if cs = [] then w = [] else 4 \<le> length w)"
  by (cases cs) (auto simp: obind_eq_Ok)

abbreviation chunk_span :: "chunk \<Rightarrow> nat" where
  "chunk_span c \<equiv> CHUNK_HEADER_SIZE + chunk_value_length c + get_padding_size (chunk_value_length c)"

lemma packet_chunks_loop_step:
  assumes "offset + CHUNK_HEADER_SIZE \<le> length raw" and "chunk_unmarshal now (drop offset raw) = Ok c"
  shows "packet_chunks_loop now raw offset
    = obind (packet_chunks_loop now raw (offset + chunk_span c)) (\<lambda>cs. Ok (c # cs))"
  using assms by (subst packet_chunks_loop.simps) (simp add: CHUNK_HEADER_SIZE_def)

lemma packet_chunks_loop_ok:
  assumes "wf_chunks cs" and "chunks_wire cs = Ok w" and "raw = pre @ w" and "length pre = offset"
  shows "packet_chunks_loop now raw offset = Ok (map (chunk_received now) cs)"
  using assms
proof (induction cs arbitrary: w pre offset)
  case Nil
  then show ?case by (subst packet_chunks_loop.simps) simp
next
  case (Cons c cs)
  obtain body r where body: "chunk_body c = Ok body" and r: "chunks_wire cs = Ok r"
    and w: "w = chunk_header_marshal (chunk_header_of c) @ body
      @ replicate (get_padding_size (chunk_value_length c)) 0 @ r"
    using Cons.prems(2) by (auto simp: obind_eq_Ok)
  let ?n = "chunk_span c"
  have "chunk_unmarshal now w = Ok (chunk_received now c)"
    unfolding w by (rule chunk_unmarshal_ok [OF _ body refl])
      (use Cons.prems(1) chunks_wire_length [OF r] in \<open>auto split: if_splits\<close>)
  moreover have "packet_chunks_loop now raw (offset + ?n) = Ok (map (chunk_received now) cs)"
    by (rule Cons.IH [OF _ r, of "pre @ take ?n w"])
      (use Cons.prems length_chunk_body [OF body] in \<open>simp_all add: w CHUNK_HEADER_SIZE_def\<close>)
  ultimately show ?case
    using Cons.prems(3,4) packet_chunks_loop_step [of offset raw now "chunk_received now c"]
    by (simp add: w CHUNK_HEADER_SIZE_def)
qed

lemma packet_marshal_shape:
  assumes "chunks_wire (chunks p) = Ok w"
  defines "h \<equiv> put_u16 (source_port p) @ put_u16 (destination_port p) @ put_u32 (verification_tag p)"
  shows "packet_marshal crc p = Ok (h @ put_u32_le (crc (h @ [0, 0, 0, 0] @ w)) @ w)"
  using packet_chunks_marshal_wire [of "[]" "chunks p"] assms
  by (simp add: packet_marshal_def packet_marshal_to_def Let_def)

lemma packet_unmarshal_shape:
  assumes h: "h = put_u16 sp @ put_u16 dp @ put_u32 vt"
  shows "packet_unmarshal crc now (h @ put_u32_le ck @ w) =
    (if ck \<noteq> crc (h @ [0, 0, 0, 0] @ w) then Err ErrChecksumMismatch
     else obind (packet_chunks_loop now (h @ put_u32_le ck @ w) PACKET_HEADER_SIZE) (\<lambda>cs.
       Ok \<lparr>source_port = sp, destination_port = dp, verification_tag = vt, chunks = cs\<rparr>))"
proof -
  have "get_u16 (h @ put_u32_le ck @ w)
      = (Ok (sp, put_u16 dp @ put_u32 vt @ put_u32_le ck @ w) :: (u16 \<times> bytes) result)"
    by (simp add: h codec_simps)
  moreover have "length h = 8" by (simp add: h)
  ultimately show ?thesis
    by (simp add: packet_unmarshal_def PACKET_HEADER_SIZE_def generate_packet_checksum_def codec_simps)
qed

section \<open>Properties\<close>

text \<open>
  C1. Round trip of packets: a packet whose chunks are well formed and whose tail-sensitive chunks
  come last is encoded without error, and decoding the bytes gives the packet back, with the
  sender-only fields of its DATA chunks reset.
\<close>

theorem packet_roundtrip:
  assumes "wf_chunks (chunks p)"
  shows "\<exists>raw. packet_marshal crc p = Ok raw \<and>
    packet_unmarshal crc now raw = Ok (p\<lparr>chunks := map (chunk_received now) (chunks p)\<rparr>)"
proof -
  obtain w where w: "chunks_wire (chunks p) = Ok w" using chunks_wire_ok [OF assms] by blast
  let ?h = "put_u16 (source_port p) @ put_u16 (destination_port p) @ put_u32 (verification_tag p)"
  let ?raw = "?h @ put_u32_le (crc (?h @ [0, 0, 0, 0] @ w)) @ w"
  have "packet_chunks_loop now ?raw PACKET_HEADER_SIZE = Ok (map (chunk_received now) (chunks p))"
    by (rule packet_chunks_loop_ok [OF assms w, of _ "take 12 ?raw"]) (simp_all add: PACKET_HEADER_SIZE_def)
  then have "packet_unmarshal crc now ?raw = Ok (p\<lparr>chunks := map (chunk_received now) (chunks p)\<rparr>)"
    unfolding packet_unmarshal_shape [OF refl] by simp
  then show ?thesis using packet_marshal_shape [OF w] by blast
qed

theorem packet_roundtrip_witness:
  "\<exists>raw. packet_marshal (\<lambda>b. of_nat (length b)) \<lparr>source_port = 5000, destination_port = 5000, verification_tag = 7,
      chunks = [ChunkPayloadData ((chunk_payload_data_default 3)\<lparr>user_data := [1, 2, 3], nsent := 1\<rparr>),
                ChunkShutdown 9]\<rparr> = Ok raw \<and>
    packet_unmarshal (\<lambda>b. of_nat (length b)) 8 raw = Ok \<lparr>source_port = 5000, destination_port = 5000, verification_tag = 7,
      chunks = [ChunkPayloadData ((chunk_payload_data_default 8)\<lparr>user_data := [1, 2, 3]\<rparr>),
                ChunkShutdown 9]\<rparr>"
  using packet_roundtrip [of "\<lparr>source_port = 5000, destination_port = 5000, verification_tag = 7,
      chunks = [ChunkPayloadData ((chunk_payload_data_default 3)\<lparr>user_data := [1, 2, 3], nsent := 1\<rparr>),
                ChunkShutdown 9]\<rparr>" "\<lambda>b. of_nat (length b)" 8]
  by (simp add: chunk_payload_data_default_def received_def CHUNK_HEADER_SIZE_def PAYLOAD_DATA_HEADER_SIZE_def)

lemma packet_chunks_loop_Nil: "packet_chunks_loop now raw offset = Ok [] \<Longrightarrow> offset = length raw"
  by (subst (asm) packet_chunks_loop.simps) (auto simp: obind_eq_Ok Let_def split: if_splits)

lemma packet_chunks_loop_Cons:
  "packet_chunks_loop now raw offset = Ok (c # cs) \<Longrightarrow>
   packet_chunks_loop now raw (offset + chunk_span c) = Ok cs"
  by (subst (asm) packet_chunks_loop.simps) (auto simp: obind_eq_Ok Let_def split: if_splits)

lemma packet_chunks_loop_tiles:
  "packet_chunks_loop now raw offset = Ok cs \<Longrightarrow> length raw = offset + (\<Sum>c\<leftarrow>cs. chunk_span c)"
proof (induction cs arbitrary: offset)
  case Nil
  then show ?case using packet_chunks_loop_Nil by fastforce
next
  case (Cons c cs)
  then show ?case using Cons.IH [OF packet_chunks_loop_Cons] by fastforce
qed

lemma chunk_span_aligned: "4 dvd chunk_span c"
  using padding_aligns [of "chunk_value_length c"] by (simp add: CHUNK_HEADER_SIZE_def add.assoc)

text \<open>
  What an accepted packet looks like: the buffer has the common header, its checksum field is the
  CRC of the packet with that field zeroed, and the decoded chunks with their padding tile the rest of
  the buffer exactly, so the packet is as long as a multiple of four bytes.
\<close>

theorem packet_unmarshal_accepts:
  assumes "packet_unmarshal crc now raw = Ok p"
  shows "(\<exists>r. get_u32_le (drop 8 raw) = (Ok (crc (take 8 raw @ [0, 0, 0, 0] @ drop 12 raw), r)
      :: (u32 \<times> bytes) result)) \<and>
    length raw = PACKET_HEADER_SIZE + (\<Sum>c\<leftarrow>chunks p. chunk_span c) \<and>
    4 dvd length raw"
proof -
  have len: "12 \<le> length raw" using assms by (auto simp: packet_unmarshal_def PACKET_HEADER_SIZE_def split: if_splits)
  obtain a b c where g: "get_u16 raw = (Ok (a, drop 2 raw) :: (u16 \<times> bytes) result)"
      "get_u16 (drop 2 raw) = (Ok (b, drop 4 raw) :: (u16 \<times> bytes) result)"
      "get_u32 (drop 4 raw) = (Ok (c, drop 8 raw) :: (u32 \<times> bytes) result)"
    using len get_u16_long [of raw] get_u16_long [of "drop 2 raw"] get_u32_long [of "drop 4 raw"]
    by fastforce
  have ck: "\<exists>r. get_u32_le (drop 8 raw) = (Ok (crc (take 8 raw @ [0, 0, 0, 0] @ drop 12 raw), r)
      :: (u32 \<times> bytes) result)"
    and cs: "packet_chunks_loop now raw PACKET_HEADER_SIZE = Ok (chunks p)"
    using assms len by (auto simp: packet_unmarshal_def g obind_eq_Ok generate_packet_checksum_def
        PACKET_HEADER_SIZE_def split: if_splits)
  note tiles = packet_chunks_loop_tiles [OF cs]
  have "4 dvd (\<Sum>c\<leftarrow>cs. chunk_span c)" for cs
  proof (induction cs)
    case (Cons c cs)
    then show ?case using chunk_span_aligned [of c] by (simp del: add.assoc)
  qed simp
  with ck tiles show ?thesis by (simp add: PACKET_HEADER_SIZE_def)
qed

theorem packet_unmarshal_accepts_witness:
  "4 dvd length ([0, 1, 0, 2, 0, 0, 0, 3, 0, 0, 0, 0, 11, 0, 0, 4] :: bytes)"
proof -
  have "packet_unmarshal (\<lambda>_. 0) 0 [0, 1, 0, 2, 0, 0, 0, 3, 0, 0, 0, 0, 11, 0, 0, 4]
      = Ok \<lparr>source_port = 1, destination_port = 2, verification_tag = 3, chunks = [ChunkCookieAck]\<rparr>"
    by code_simp
  from packet_unmarshal_accepts [OF this] show ?thesis by blast
qed

text \<open>
  The check of a packet accepts exactly the packets with non-zero ports in which an INIT chunk is
  alone and travels under a zero verification tag.
\<close>

theorem check_packet_iff:
  "check_packet p = Ok () \<longleftrightarrow> source_port p \<noteq> 0 \<and> destination_port p \<noteq> 0 \<and>
     (\<nexists>ci. ChunkInit ci \<in> set (chunks p) \<and> \<not> is_ack ci \<and>
       \<not> (length (chunks p) = 1 \<and> verification_tag p = 0))"
proof -
  have "check_packet_chunks p cs = Ok () \<longleftrightarrow> (\<forall>ci. ChunkInit ci \<in> set cs \<longrightarrow>
      is_ack ci \<or> length (chunks p) = 1 \<and> verification_tag p = 0)" for cs
    by (induction p cs rule: check_packet_chunks.induct) auto
  then show ?thesis by (auto simp: check_packet_def)
qed

text \<open>
  The INIT chunk the client itself sends, whose only parameter is Forward-TSN-Supported, is not
  accepted by the client's own decoder: the parameter loop stops before a last parameter of four
  bytes, and the left-over bytes are then taken for a truncated FORWARD-TSN chunk.
\<close>

theorem own_init_not_decoded:
  "\<exists>raw. packet_marshal crc \<lparr>source_port = sp, destination_port = dp, verification_tag = 0,
      chunks = [ChunkInit \<lparr>is_ack = a, initiate_tag = tag, advertised_receiver_window_credit = w,
        num_outbound_streams = os, num_inbound_streams = ins, initial_tsn = t,
        init_params = [ParamForwardTsnSupported]\<rparr>]\<rparr> = Ok raw \<and>
    packet_unmarshal crc now raw = Err ErrChunkTooShort"
proof -
  let ?i = "\<lparr>is_ack = a, initiate_tag = tag, advertised_receiver_window_credit = w,
        num_outbound_streams = os, num_inbound_streams = ins, initial_tsn = t,
        init_params = [ParamForwardTsnSupported]\<rparr>"
  let ?p = "\<lparr>source_port = sp, destination_port = dp, verification_tag = 0, chunks = [ChunkInit ?i]\<rparr>"
  let ?w = "chunk_header_marshal (chunk_header_of (ChunkInit ?i)) @ init_body ?i"
  have w: "chunks_wire (chunks ?p) = Ok ?w" by (simp add: get_padding_size_def PARAM_HEADER_LENGTH_def)
  have i: "init_unmarshal ?w = Ok (ChunkInit (?i\<lparr>init_params := []\<rparr>))"
    using init_roundtrip [of ?i "[]"]
    by (simp add: CHUNK_HEADER_SIZE_def PARAM_HEADER_LENGTH_def wf_param_def init_params_seen_def get_padding_size_def)
  let ?h = "put_u16 sp @ put_u16 dp @ put_u32 0"
  let ?raw = "?h @ put_u32_le (crc (?h @ [0, 0, 0, 0] @ ?w)) @ ?w"
  have fwd: "drop 20 ?w = [192, 0, 0, 4]"
    by (simp add: init_body_def param_marshal_def param_header_of_def param_header_marshal_def
        put_u16_def PARAM_HEADER_LENGTH_def)
  then have d: "drop 12 ?raw = ?w" "drop 32 ?raw = [192, 0, 0, 4]" "length ?raw = 36"
    by (simp_all add: PARAM_HEADER_LENGTH_def init_body_def length_param_marshal)
  have "chunk_unmarshal now [192, 0, 0, 4] = Err ErrChunkTooShort" by code_simp
  then have "packet_chunks_loop now ?raw 32 = Err ErrChunkTooShort"
    unfolding packet_chunks_loop.simps [of now ?raw 32] d by (simp add: CHUNK_HEADER_SIZE_def)
  moreover have "chunk_unmarshal now ?w = Ok (ChunkInit (?i\<lparr>init_params := []\<rparr>))"
    using i by (cases a) (simp_all add: chunk_unmarshal_def)
  ultimately have "packet_chunks_loop now ?raw PACKET_HEADER_SIZE = Err ErrChunkTooShort"
    using packet_chunks_loop_step [of 12 ?raw now "ChunkInit (?i\<lparr>init_params := []\<rparr>)"] unfolding d
    by (simp add: CHUNK_HEADER_SIZE_def PACKET_HEADER_SIZE_def get_padding_size_def)
  then have "packet_unmarshal crc now ?raw = Err ErrChunkTooShort"
    unfolding packet_unmarshal_shape [OF refl] by simp
  then show ?thesis using packet_marshal_shape [OF w] by simp
qed

end
