(* ===== verification/Sctp_Payload_Queue.thy ===== *)
theory Sctp_Payload_Queue
  imports Sctp_Packet
begin

text \<open>
  \<^verbatim>\<open>sctp/queue/payload_queue.rs\<close>: chunks indexed by TSN with a list of TSNs kept in serial order. The
  receiver holds chunks above the cumulative TSN in it, the sender holds the chunks in flight. The
  shared atomic \<^verbatim>\<open>length\<close> is the field \<open>pq_length\<close>, since no other code writes it. The byte counter is
  a natural number: the invariant shows that its subtractions never go below zero.
\<close>

record payload_queue =
  pq_length :: nat
  chunk_map :: "(u32, chunk_payload_data) hash_map"
  pq_sorted :: "u32 list"
  dup_tsn :: "u32 list"
  n_bytes :: nat

section \<open>Operations\<close>

definition payload_queue_new :: payload_queue where
  "payload_queue_new = \<lparr>pq_length = 0, chunk_map = [], pq_sorted = [], dup_tsn = [], n_bytes = 0\<rparr>"

definition update_sorted_keys :: "payload_queue \<Rightarrow> payload_queue" where
  "update_sorted_keys q = q\<lparr>pq_sorted := sort_by sna32lt (pq_sorted q)\<rparr>"

definition pq_contains :: "payload_queue \<Rightarrow> u32 \<Rightarrow> bool" where
  "pq_contains q t \<longleftrightarrow> hm_get (chunk_map q) t \<noteq> None"

definition can_push :: "payload_queue \<Rightarrow> chunk_payload_data \<Rightarrow> u32 \<Rightarrow> bool" where
  "can_push q p cumulative_tsn \<longleftrightarrow> \<not> (pq_contains q (tsn p) \<or> sna32lte (tsn p) cumulative_tsn)"

definition push_no_check :: "chunk_payload_data \<Rightarrow> payload_queue \<Rightarrow> payload_queue" where
  "push_no_check p q =
     update_sorted_keys (q\<lparr>n_bytes := n_bytes q + length (user_data p),
       pq_sorted := pq_sorted q @ [tsn p], chunk_map := hm_insert (tsn p) p (chunk_map q),
       pq_length := pq_length q + 1\<rparr>)"

definition pq_push :: "chunk_payload_data \<Rightarrow> u32 \<Rightarrow> payload_queue \<Rightarrow> bool \<times> payload_queue" where
  "pq_push p cumulative_tsn q =
     (if pq_contains q (tsn p) \<or> sna32lte (tsn p) cumulative_tsn
      then (False, q\<lparr>dup_tsn := dup_tsn q @ [tsn p]\<rparr>)
      else (True, update_sorted_keys (q\<lparr>n_bytes := n_bytes q + length (user_data p),
             pq_sorted := pq_sorted q @ [tsn p], chunk_map := hm_insert (tsn p) p (chunk_map q),
             pq_length := pq_length q + 1\<rparr>)))"

definition pq_pop :: "u32 \<Rightarrow> payload_queue \<Rightarrow> chunk_payload_data option \<times> payload_queue" where
  "pq_pop t q =
     (if pq_sorted q \<noteq> [] \<and> t = hd (pq_sorted q) then
        let q = q\<lparr>pq_sorted := tl (pq_sorted q)\<rparr> in
        (case hm_get (chunk_map q) t of
           Some c \<Rightarrow> (Some c, q\<lparr>chunk_map := hm_remove t (chunk_map q), pq_length := pq_length q - 1,
                          n_bytes := n_bytes q - length (user_data c)\<rparr>)
         | None \<Rightarrow> (None, q))
      else (None, q))"

definition pq_get :: "payload_queue \<Rightarrow> u32 \<Rightarrow> chunk_payload_data option" where
  "pq_get q t = hm_get (chunk_map q) t"

text \<open>\<^verbatim>\<open>get_mut\<close> followed by an update of the chunk in place.\<close>

definition pq_update :: "u32 \<Rightarrow> (chunk_payload_data \<Rightarrow> chunk_payload_data) \<Rightarrow> payload_queue \<Rightarrow> payload_queue"
  where "pq_update t f q = q\<lparr>chunk_map := hm_adjust t f (chunk_map q)\<rparr>"

definition pop_duplicates :: "payload_queue \<Rightarrow> u32 list \<times> payload_queue" where
  "pop_duplicates q = (dup_tsn q, q\<lparr>dup_tsn := []\<rparr>)"

definition gap_diff :: "u32 \<Rightarrow> u32 \<Rightarrow> u16" where
  "gap_diff cumulative_tsn t = (if t \<ge> cumulative_tsn then ucast (t - cumulative_tsn) else 0)"

fun gap_step :: "u32 \<Rightarrow> nat \<times> gap_ack_block \<times> gap_ack_block list \<Rightarrow> u32 \<Rightarrow>
    nat \<times> gap_ack_block \<times> gap_ack_block list" where
  "gap_step cumulative_tsn (i, b, blocks) t =
     (let diff = gap_diff cumulative_tsn t in
      if i = 0 then (i + 1, b\<lparr>gap_start := diff, gap_end := diff\<rparr>, blocks)
      else if gap_end b + 1 = diff then (i + 1, b\<lparr>gap_end := gap_end b + 1\<rparr>, blocks)
      else (i + 1, b\<lparr>gap_start := diff, gap_end := diff\<rparr>, blocks @ [b]))"

definition get_gap_ack_blocks :: "payload_queue \<Rightarrow> u32 \<Rightarrow> gap_ack_block list" where
  "get_gap_ack_blocks q cumulative_tsn =
     (if chunk_map q = [] then []
      else case foldl (gap_step cumulative_tsn) (0, \<lparr>gap_start = 0, gap_end = 0\<rparr>, []) (pq_sorted q) of
        (_, b, blocks) \<Rightarrow> blocks @ [b])"

definition mark_as_acked :: "u32 \<Rightarrow> payload_queue \<Rightarrow> nat \<times> payload_queue" where
  "mark_as_acked t q =
     (case hm_get (chunk_map q) t of
        Some c \<Rightarrow> let n = length (user_data c) in
          (n, q\<lparr>chunk_map := hm_adjust t (\<lambda>c. c\<lparr>acked := True, retransmit := False, user_data := []\<rparr>)
                 (chunk_map q),
               n_bytes := n_bytes q - n\<rparr>)
      | None \<Rightarrow> (0, q))"

definition get_last_tsn_received :: "payload_queue \<Rightarrow> u32 option" where
  "get_last_tsn_received q = (if pq_sorted q = [] then None else Some (last (pq_sorted q)))"

definition mark_all_to_retrasmit :: "flag_heap \<Rightarrow> payload_queue \<Rightarrow> payload_queue" where
  "mark_all_to_retrasmit h q =
     q\<lparr>chunk_map := hm_map (\<lambda>c. if acked c \<or> chunk_abandoned h c then c else c\<lparr>retransmit := True\<rparr>)
        (chunk_map q)\<rparr>"

text \<open>\<^verbatim>\<open>len\<close> asserts that the map and the shared counter agree.\<close>

definition pq_len :: "payload_queue \<Rightarrow> nat result" where
  "pq_len q = (if length (chunk_map q) = pq_length q then Ok (length (chunk_map q)) else Panic)"

section \<open>Invariant\<close>

definition pq_bytes :: "payload_queue \<Rightarrow> nat" where
  "pq_bytes q = (\<Sum>c\<leftarrow>hm_values (chunk_map q). length (user_data c))"

definition pq_inv :: "payload_queue \<Rightarrow> bool" where
  "pq_inv q \<longleftrightarrow> hm_inv (chunk_map q) \<and> distinct (pq_sorted q) \<and>
     set (pq_sorted q) = set (hm_keys (chunk_map q)) \<and> pq_length q = length (chunk_map q) \<and>
     n_bytes q = pq_bytes q \<and> (\<forall>t c. (t, c) \<in> set (chunk_map q) \<longrightarrow> tsn c = t)"

text \<open>The queue lies in the half number space above \<open>base\<close> and is in serial order.\<close>

definition pq_ordered :: "u32 \<Rightarrow> payload_queue \<Rightarrow> bool" where
  "pq_ordered base q \<longleftrightarrow> (\<forall>t \<in> set (pq_sorted q). unat (t - base) < 2 ^ 31) \<and>
     sorted_wrt (\<lambda>a b. unat (a - base) < unat (b - base)) (pq_sorted q)"

lemma pq_ordered_rebase:
  assumes "pq_ordered base q" and "\<And>t. t \<in> set (pq_sorted q) \<Longrightarrow> unat (t - base') < 2 ^ 31"
  shows "pq_ordered base' q"
proof -
  have *: "unat (a - base') < unat (b - base')"
    if "a \<in> set (pq_sorted q)" "b \<in> set (pq_sorted q)" "unat (a - base) < unat (b - base)" for a b
  proof -
    have "sna32lt a b" using sna32.lt_window [of a base b] that assms(1) by (simp add: pq_ordered_def)
    then show ?thesis
      using sna32.lt_window [of a base' b] assms(2) [OF that(1)] assms(2) [OF that(2)] by simp
  qed
  have "sorted_wrt (\<lambda>a b. unat (a - base) < unat (b - base)) (pq_sorted q)"
    using assms(1) by (simp add: pq_ordered_def)
  then have "sorted_wrt (\<lambda>a b. unat (a - base') < unat (b - base')) (pq_sorted q)"
    by (rule sorted_wrt_mono_rel [rotated]) (rule *)
  with assms(2) show ?thesis by (simp add: pq_ordered_def)
qed

lemma pq_inv_new: "pq_inv payload_queue_new" and pq_ordered_new: "pq_ordered base payload_queue_new"
  by (simp_all add: payload_queue_new_def pq_inv_def pq_ordered_def pq_bytes_def hm_inv_def hm_keys_def
      hm_values_def)

lemma pq_contains_iff: "pq_inv q \<Longrightarrow> pq_contains q t \<longleftrightarrow> t \<in> set (pq_sorted q)"
  using hm_get_None_iff [of "chunk_map q" t] by (auto simp: pq_contains_def pq_inv_def)

lemma pq_get_in: "pq_inv q \<Longrightarrow> pq_get q t \<noteq> None \<longleftrightarrow> t \<in> set (pq_sorted q)"
  using pq_contains_iff by (simp add: pq_contains_def pq_get_def)

lemma pq_get_tsn: "pq_inv q \<Longrightarrow> pq_get q t = Some c \<Longrightarrow> tsn c = t"
  by (auto simp: pq_get_def pq_inv_def dest: hm_get_in)

lemma pq_get_push [simp]: "pq_get (push_no_check c q) t = (if t = tsn c then Some c else pq_get q t)"
  by (simp add: push_no_check_def update_sorted_keys_def pq_get_def hm_simps)

lemma pq_push_eq:
  "pq_push p cum q = (if can_push q p cum then (True, push_no_check p q)
     else (False, q\<lparr>dup_tsn := dup_tsn q @ [tsn p]\<rparr>))"
  by (simp add: pq_push_def can_push_def push_no_check_def)

lemma pq_inv_push:
  assumes "pq_inv q" and "pq_get q (tsn c) = None"
  shows "pq_inv (push_no_check c q)"
proof -
  have new: "hm_get (chunk_map q) (tsn c) = None" using assms(2) by (simp add: pq_get_def)
  then show ?thesis
    using assms(1) sum_hm_values_insert [OF new, of "\<lambda>c. length (user_data c)" c]
    by (auto simp: pq_inv_def push_no_check_def update_sorted_keys_def hm_inv_insert hm_simps
        hm_get_None_iff pq_bytes_def length_hm_insert_new dest!: hm_in_insert)
qed

text \<open>A sorted queue gets the new TSN at its place; the rest of the order is untouched.\<close>

lemma pq_ordered_push:
  assumes "pq_ordered base q" and "tsn c \<notin> set (pq_sorted q)" and "unat (tsn c - base) < 2 ^ 31"
  shows "pq_ordered base (push_no_check c q)"
proof -
  let ?lt = "\<lambda>a b. unat (a - base) < unat (b - base)" and ?xs = "pq_sorted q"
  have win: "\<And>t. t \<in> set ?xs \<Longrightarrow> unat (t - base) < 2 ^ 31" and s: "sorted_wrt ?lt ?xs"
    using assms(1) by (auto simp: pq_ordered_def)
  have lt: "sna32lt a b \<longleftrightarrow> ?lt a b" if "a \<in> insert (tsn c) (set ?xs)" "b \<in> insert (tsn c) (set ?xs)" for a b
    using that win assms(3) by (intro sna32.lt_window) auto
  have "sorted_wrt sna32lt ?xs" using s lt by (auto intro: sorted_wrt_mono_rel [of ?xs ?lt])
  then have srt: "sort_by sna32lt ?xs = ?xs" by (rule sort_by_sorted) (auto dest: sna32.lt_asym)
  have "insert_by sna32lt (tsn c) ?xs = insert_by ?lt (tsn c) ?xs"
    by (rule insert_by_cong) (simp add: lt)
  moreover have "sorted_wrt ?lt (insert_by ?lt (tsn c) ?xs)"
  proof (rule sorted_wrt_insert_by [OF s])
    fix y assume "y \<in> set ?xs"
    with assms(2) have "unat (y - base) \<noteq> unat (tsn c - base)" by (auto simp: word_unat_eq_iff [symmetric])
    then show "?lt (tsn c) y \<or> ?lt y (tsn c)" by auto
  qed auto
  ultimately show ?thesis
    using win assms(3) srt
    by (auto simp: pq_ordered_def push_no_check_def update_sorted_keys_def sort_by_snoc)
qed

lemma pq_pop_head:
  assumes "pq_sorted q = t # r" and "pq_get q t = Some c"
  shows "pq_pop t q = (Some c, q\<lparr>pq_sorted := r, chunk_map := hm_remove t (chunk_map q),
    pq_length := pq_length q - 1, n_bytes := n_bytes q - length (user_data c)\<rparr>)"
  using assms by (simp add: pq_pop_def pq_get_def Let_def)

lemma pq_pop_other: "pq_sorted q = [] \<or> t \<noteq> hd (pq_sorted q) \<Longrightarrow> pq_pop t q = (None, q)"
  by (auto simp: pq_pop_def)

lemma pq_head_present: "pq_inv q \<Longrightarrow> pq_sorted q = t # r \<Longrightarrow> \<exists>c. pq_get q t = Some c"
  using pq_get_in [of q t] by auto

lemma pq_pop_cases:
  assumes "pq_inv q"
  obtains (hit) c r where "pq_sorted q = t # r" "pq_get q t = Some c"
    | (miss) "pq_pop t q = (None, q)"
  using assms pq_head_present [of q t] pq_pop_other [of q t] by (cases "pq_sorted q") fastforce+

lemma pq_inv_pop:
  assumes "pq_inv q" shows "pq_inv (snd (pq_pop t q))"
  using assms
proof (cases rule: pq_pop_cases [where t = t])
  case (hit c r)
  have m: "hm_get (chunk_map q) t = Some c" using hit by (simp add: pq_get_def)
  have inv: "hm_inv (chunk_map q)" using assms by (simp add: pq_inv_def)
  have "Suc (length (hm_remove t (chunk_map q))) = length (chunk_map q)"
    using hm.length_keys_remove [OF inv m] by (simp add: length_hm_keys)
  then show ?thesis
    using assms hit(1) sum_hm_values_remove [OF inv m, of "\<lambda>c. length (user_data c)"]
    unfolding pq_pop_head [OF hit]
    by (auto simp: pq_inv_def pq_bytes_def hm_inv_remove hm_simps hm_in_remove)
qed (use assms in simp)

lemma pq_ordered_pop:
  assumes "pq_inv q" "pq_ordered base q" shows "pq_ordered base (snd (pq_pop t q))"
  using assms(1) by (cases rule: pq_pop_cases [where t = t])
    (use assms(2) in \<open>auto simp: pq_pop_head pq_ordered_def\<close>)

lemma pq_ordered_head:
  assumes "pq_inv q" and "pq_ordered base q" and "pq_get q t \<noteq> None"
    and "\<And>u. pq_get q u \<noteq> None \<Longrightarrow> unat (t - base) \<le> unat (u - base)"
  shows "pq_sorted q \<noteq> [] \<and> t = hd (pq_sorted q)"
proof -
  have mem: "t \<in> set (pq_sorted q)" using assms(3) pq_get_in [OF assms(1)] by blast
  then obtain x xs where x: "pq_sorted q = x # xs" by (cases "pq_sorted q") auto
  then have "unat (t - base) \<le> unat (x - base)" using assms(4) pq_get_in [OF assms(1)] by simp
  with mem x assms(2) show ?thesis by (auto simp: pq_ordered_def)
qed

lemma pq_inv_mark_as_acked: "pq_inv q \<Longrightarrow> pq_inv (snd (mark_as_acked t q))"
proof (cases "hm_get (chunk_map q) t")
  case (Some c)
  assume inv: "pq_inv q"
  then have "hm_inv (chunk_map q)" by (simp add: pq_inv_def)
  from sum_hm_values_adjust [OF this Some, of "\<lambda>c. length (user_data c)"
      "\<lambda>c. c\<lparr>acked := True, retransmit := False, user_data := []\<rparr>"]
  show ?thesis using inv Some
    by (auto simp: mark_as_acked_def pq_inv_def pq_bytes_def hm_simps hm_inv_def Let_def hm_in_adjust)
qed (simp add: mark_as_acked_def)

lemma pq_inv_update:
  assumes "pq_inv q" and "\<And>c. tsn (f c) = tsn c" and "\<And>c. length (user_data (f c)) = length (user_data c)"
  shows "pq_inv (pq_update t f q)"
proof (cases "hm_get (chunk_map q) t")
  case (Some c)
  have "hm_inv (chunk_map q)" using assms(1) by (simp add: pq_inv_def)
  from sum_hm_values_adjust [OF this Some, of "\<lambda>c. length (user_data c)" f]
  show ?thesis using assms
    by (auto simp: pq_update_def pq_inv_def pq_bytes_def hm_simps hm_inv_def hm_in_adjust)
next
  case None
  then show ?thesis
    using assms(1) hm_adjust_absent [of t "chunk_map q" f] by (simp add: pq_update_def hm_get_None_iff)
qed

lemma pq_inv_mark_all: "pq_inv q \<Longrightarrow> pq_inv (mark_all_to_retrasmit h q)"
  using sum_hm_values_map [of "\<lambda>c. length (user_data c)"
      "\<lambda>c. if acked c \<or> chunk_abandoned h c then c else c\<lparr>retransmit := True\<rparr>" "chunk_map q"]
  by (auto simp: mark_all_to_retrasmit_def pq_inv_def pq_bytes_def hm_simps hm_inv_def hm_in_map)

section \<open>The interface the association relies on\<close>

text \<open>
  A queue of items keyed by TSN: what a lookup returns after a push or a pop, and that the oldest item
  can be popped. \<open>invar base\<close> is the queue's invariant relative to a base of the serial order. The
  clients keep a run of consecutive TSNs in it, \<open>holds q lo n\<close>.
\<close>

locale tsn_queue =
  fixes get :: "'q \<Rightarrow> u32 \<Rightarrow> 'c option"
    and push :: "'c \<Rightarrow> 'q \<Rightarrow> 'q"
    and pop :: "u32 \<Rightarrow> 'q \<Rightarrow> 'c option \<times> 'q"
    and key :: "'c \<Rightarrow> u32"
    and invar :: "u32 \<Rightarrow> 'q \<Rightarrow> bool"
  assumes get_push: "get (push c q) t = (if t = key c then Some c else get q t)"
    and invar_push: "invar base q \<Longrightarrow> get q (key c) = None \<Longrightarrow> unat (key c - base) < 2 ^ 31 \<Longrightarrow> invar base (push c q)"
    and pop_oldest: "invar base q \<Longrightarrow> get q t = Some c \<Longrightarrow>
      (\<And>u. get q u \<noteq> None \<Longrightarrow> unat (t - base) \<le> unat (u - base)) \<Longrightarrow>
      fst (pop t q) = Some c \<and> get (snd (pop t q)) = (get q)(t := None)"
    and pop_missing: "invar base q \<Longrightarrow> get q t = None \<Longrightarrow> pop t q = (None, q)"
    and invar_pop: "invar base q \<Longrightarrow> invar base (snd (pop t q))"
    and invar_rebase: "invar base q \<Longrightarrow> (\<And>u. get q u \<noteq> None \<Longrightarrow> unat (u - base') < 2 ^ 31) \<Longrightarrow> invar base' q"
begin

definition holds :: "'q \<Rightarrow> u32 \<Rightarrow> nat \<Rightarrow> bool" where
  "holds q lo n \<longleftrightarrow> (\<forall>t. get q t \<noteq> None \<longleftrightarrow> unat (t - lo) < n)"

lemma holds_push:
  assumes "invar lo q" and "holds q lo n" and "key c = lo + of_nat n" and "n < 2 ^ 31"
  shows "invar lo (push c q) \<and> holds (push c q) lo (Suc n)"
proof -
  have k: "unat (key c - lo) = n" using assms(3,4) by (simp add: unat_of_nat)
  have "unat (t - lo) < Suc n \<longleftrightarrow> t = key c \<or> unat (t - lo) < n" for t
  proof -
    have "unat (t - lo) = unat (key c - lo) \<longleftrightarrow> t = key c" by (simp add: word_unat_eq_iff [symmetric])
    then show ?thesis unfolding k by auto
  qed
  moreover have "get q (key c) = None" using assms(2) k by (metis holds_def less_irrefl)
  ultimately show ?thesis using assms k by (auto simp: holds_def get_push intro!: invar_push)
qed

lemma holds_pop:
  assumes "invar lo q" and "holds q lo (Suc n)" and "n < 2 ^ 31"
  obtains c q' where "pop lo q = (Some c, q')" and "get q lo = Some c"
    and "get q' = (get q)(lo := None)" and "holds q' (lo + 1) n" and "invar (lo + 1) q'"
proof -
  have "unat (lo - lo) < Suc n" by simp
  then obtain c where c: "get q lo = Some c" using assms(2) unfolding holds_def by blast
  obtain q' where q': "pop lo q = (fst (pop lo q), q')" by (metis surjective_pairing)
  have p: "fst (pop lo q) = Some c" "get q' = (get q)(lo := None)"
    using pop_oldest [OF assms(1) c] q' by (metis diff_self le0 snd_conv unat_0)+
  have h: "holds q' (lo + 1) n"
  proof -
    have "t \<noteq> lo \<Longrightarrow> unat (t - lo) = Suc (unat (t - (lo + 1)))" for t
      using unat_succ_diff [of lo t] by auto
    moreover have "unat (lo - (lo + 1)) = 2 ^ 32 - 1"
      by (simp add: unsigned_minus_1_eq_mask mask_eq_exp_minus_1)
    ultimately show ?thesis using assms(2,3) p(2) by (auto simp: holds_def)
  qed
  have "invar (lo + 1) q'"
  proof (rule invar_rebase)
    show "invar lo q'" using invar_pop [OF assms(1), of lo] q' by (metis snd_conv)
    show "unat (u - (lo + 1)) < 2 ^ 31" if "get q' u \<noteq> None" for u
      using that h assms(3) by (auto simp: holds_def)
  qed
  with c p q' h that show thesis by metis
qed

lemma holds_empty: "holds q lo 0 \<longleftrightarrow> (\<forall>t. get q t = None)"
  by (simp add: holds_def)

end

interpretation pq: tsn_queue pq_get push_no_check pq_pop tsn "\<lambda>base q. pq_inv q \<and> pq_ordered base q"
proof unfold_locales
  fix c q t base base'
  show "pq_get (push_no_check c q) t = (if t = tsn c then Some c else pq_get q t)" by simp
  show "pq_inv q \<and> pq_ordered base q \<Longrightarrow> pq_get q (tsn c) = None \<Longrightarrow> unat (tsn c - base) < 2 ^ 31 \<Longrightarrow>
      pq_inv (push_no_check c q) \<and> pq_ordered base (push_no_check c q)"
    using pq_get_in by (metis pq_inv_push pq_ordered_push)
  show "pq_inv q \<and> pq_ordered base q \<Longrightarrow> pq_get q t = None \<Longrightarrow> pq_pop t q = (None, q)"
    using pq_get_in [of q t] by (intro pq_pop_other) (metis hd_in_set)
  show "pq_inv q \<and> pq_ordered base q \<Longrightarrow> pq_inv (snd (pq_pop t q)) \<and> pq_ordered base (snd (pq_pop t q))"
    by (simp add: pq_inv_pop pq_ordered_pop)
  show "pq_inv q \<and> pq_ordered base q \<Longrightarrow> (\<And>u. pq_get q u \<noteq> None \<Longrightarrow> unat (u - base') < 2 ^ 31) \<Longrightarrow>
      pq_inv q \<and> pq_ordered base' q"
    using pq_get_in by (blast intro: pq_ordered_rebase)
  show "fst (pq_pop t q) = Some c \<and> pq_get (snd (pq_pop t q)) = (pq_get q)(t := None)"
    if "pq_inv q \<and> pq_ordered base q" "pq_get q t = Some c"
      "\<And>u. pq_get q u \<noteq> None \<Longrightarrow> unat (t - base) \<le> unat (u - base)"
  proof -
    have "pq_sorted q \<noteq> [] \<and> t = hd (pq_sorted q)" using that by (intro pq_ordered_head) auto
    then obtain r where "pq_sorted q = t # r" by (cases "pq_sorted q") auto
    then show ?thesis using that(2) by (auto simp: pq_pop_head pq_get_def hm_simps)
  qed
qed

section \<open>Gap-ack blocks\<close>

text \<open>The TSNs a gap-ack block stands for, as the sender of the data reads it (\<^verbatim>\<open>process_selective_ack\<close>).\<close>

definition block_tsns :: "u32 \<Rightarrow> gap_ack_block \<Rightarrow> u32 list" where
  "block_tsns cum g = map (\<lambda>i. cum + of_nat i) [unat (gap_start g)..<Suc (unat (gap_end g))]"

definition gap_tsns :: "u32 \<Rightarrow> gap_ack_block list \<Rightarrow> u32 list" where
  "gap_tsns cum bs = concat (map (block_tsns cum) bs)"

lemma gap_diff_unat:
  assumes "cum \<le> t" and "unat (t - cum) < 2 ^ 16"
  shows "unat (gap_diff cum t) = unat (t - cum)"
proof -
  have "unat (ucast (t - cum) :: u16) = unat (t - cum) mod 2 ^ 16" by transfer (simp add: take_bit_eq_mod nat_mod_distrib)
  with assms show ?thesis by (simp add: gap_diff_def)
qed

lemma block_tsns_single: "unat d = unat (t - cum) \<Longrightarrow> block_tsns cum (b\<lparr>gap_start := d, gap_end := d\<rparr>) = [t]"
  by (simp add: block_tsns_def)

lemma block_tsns_extend:
  assumes "unat d = Suc (unat (gap_end b))" and "unat d = unat (t - cum)" and "gap_start b \<le> gap_end b"
  shows "block_tsns cum (b\<lparr>gap_end := d\<rparr>) = block_tsns cum b @ [t]"
proof -
  have "cum + of_nat (Suc (unat (gap_end b))) = t"
    unfolding assms(1) [symmetric] assms(2) by simp
  with assms show ?thesis by (simp add: block_tsns_def word_le_nat_alt del: of_nat_Suc)
qed

text \<open>The blocks found so far describe exactly the TSNs seen so far.\<close>

lemma gap_fold:
  assumes "\<And>t. t \<in> set xs \<Longrightarrow> cum \<le> t \<and> unat (t - cum) < 2 ^ 16"
    and "sorted_wrt (\<lambda>a b. unat (a - cum) < unat (b - cum)) xs" and "xs \<noteq> []"
  shows "\<exists>b bs. foldl (gap_step cum) (0, g, []) xs = (length xs, b, bs) \<and> gap_start b \<le> gap_end b \<and>
    unat (gap_end b) = unat (last xs - cum) \<and> gap_tsns cum (bs @ [b]) = xs"
  using assms
proof (induction xs rule: rev_induct)
  case (snoc t xs)
  have d: "unat (gap_diff cum t) = unat (t - cum)" using snoc.prems(1) by (intro gap_diff_unat) auto
  show ?case
  proof (cases "xs = []")
    case True
    then show ?thesis using d block_tsns_single [of "gap_diff cum t" t cum g]
      by (simp add: Let_def gap_tsns_def)
  next
    case False
    then obtain b bs where f: "foldl (gap_step cum) (0, g, []) xs = (length xs, b, bs)"
      and le: "gap_start b \<le> gap_end b" and e: "unat (gap_end b) = unat (last xs - cum)"
      and ts: "gap_tsns cum (bs @ [b]) = xs"
      using snoc.IH snoc.prems by (auto simp: sorted_wrt_append)
    have lt: "unat (gap_end b) < unat (gap_diff cum t)"
      using snoc.prems(2) False by (simp add: e d sorted_wrt_append)
    have succ: "gap_end b + 1 = gap_diff cum t \<longleftrightarrow> Suc (unat (gap_end b)) = unat (gap_diff cum t)"
    proof -
      have "gap_end b \<noteq> - 1" using lt unsigned_less [of "gap_diff cum t", where 'a = nat]
        by (auto simp: unsigned_minus_1_eq_mask mask_eq_exp_minus_1)
      then have "unat (gap_end b + 1) = Suc (unat (gap_end b))" 
        using unatSuc [of "gap_end b"] by (simp add: add.commute add_eq_0_iff)
      then show ?thesis by (metis word_unat_eq_iff)
    qed
    show ?thesis
    proof (cases "gap_end b + 1 = gap_diff cum t")
      case True
      moreover from this succ have "block_tsns cum (b\<lparr>gap_end := gap_end b + 1\<rparr>) = block_tsns cum b @ [t]"
        by (intro block_tsns_extend [OF _ _ le]) (use d in simp_all)
      moreover have "gap_start b \<le> gap_diff cum t" using le lt by (simp add: word_le_nat_alt)
      ultimately show ?thesis using False f ts d by (simp add: Let_def gap_tsns_def)
    next
      case neq: False
      with False show ?thesis
        using f ts d block_tsns_single [of "gap_diff cum t" t cum b]
        by (simp add: Let_def gap_tsns_def)
    qed
  qed
qed simp

section \<open>Properties\<close>



text \<open>
  Arrival in any order: a chunk whose TSN is new and lies in the half number space above the
  cumulative TSN is stored, found again by its TSN, and the queue stays in serial order, across the
  wrap-around of the TSN space. A TSN already held or not above the cumulative TSN is refused and
  recorded as a duplicate.
\<close>

theorem pq_push_ordered:
  assumes "pq_inv q" and "pq_ordered cum q" and "tsn p \<noteq> cum + 2 ^ 31"
  shows "(if pq_get q (tsn p) \<noteq> None \<or> unat (cum - tsn p) < 2 ^ 31
      then pq_push p cum q = (False, q\<lparr>dup_tsn := dup_tsn q @ [tsn p]\<rparr>)
      else fst (pq_push p cum q) \<and> pq_get (snd (pq_push p cum q)) = (pq_get q)(tsn p \<mapsto> p) \<and>
        pq_ordered cum (snd (pq_push p cum q)) \<and> pq_inv (snd (pq_push p cum q)))"
proof -
  have ne: "unat (tsn p - cum) \<noteq> 2 ^ 31"
  proof
    assume "unat (tsn p - cum) = 2 ^ 31"
    then have "tsn p - cum = 2 ^ 31" by (simp add: word_unat_eq_iff)
    with assms(3) show False by (simp add: diff_eq_eq add.commute)
  qed
  have "unat (tsn p - cum) < 2 ^ 31" if "\<not> unat (cum - tsn p) < 2 ^ 31"
    using that ne word_dist_sum [of cum "tsn p"] by (cases "cum = tsn p") auto
  then show ?thesis
    using assms pq_inv_push [of q p] pq_ordered_push [of cum q p] pq_get_in [OF assms(1), of "tsn p"]
    by (auto simp: pq_push_eq can_push_def pq_contains_def pq_get_def [symmetric] sna32lte_iff)
qed

theorem pq_push_ordered_witness:
  "pq_ordered 4 (snd (pq_push ((chunk_payload_data_default 0)\<lparr>tsn := 7\<rparr>) 4 payload_queue_new))"
  using pq_push_ordered [OF pq_inv_new pq_ordered_new, of "(chunk_payload_data_default 0)\<lparr>tsn := 7\<rparr>" 4]
  by (simp add: pq_get_def payload_queue_new_def hm_get_def split: if_splits)



text \<open>
  At the wrap-around of the TSN space the blocks are wrong: a TSN that is numerically below the
  cumulative TSN, although serially above it, is reported as offset zero, so the sender reads the
  block as an acknowledgement of the cumulative TSN itself.
\<close>

theorem gap_ack_blocks_wrap:
  assumes "pq_sorted q = [t]" and "chunk_map q \<noteq> []" and "sna32gt t cum" and "t < cum"
  shows "gap_tsns cum (get_gap_ack_blocks q cum) = [cum]"
proof -
  have "gap_diff cum t = 0" using assms(4) by (auto simp: gap_diff_def)
  with assms(1,2) show ?thesis by (simp add: get_gap_ack_blocks_def gap_tsns_def block_tsns_def)
qed

theorem gap_ack_blocks_wrap_witness:
  "gap_tsns (- 2) (get_gap_ack_blocks (push_no_check (chunk_payload_data_default 0) payload_queue_new) (- 2)) = [- 2]"
  by (rule gap_ack_blocks_wrap [where t = 0]) code_simp+

end
