(* ===== verification/Sctp_Pending_Queue.thy ===== *)
theory Sctp_Pending_Queue
  imports Sctp_Payload_Queue
begin

text \<open>
  \<^verbatim>\<open>sctp/queue/pending_queue.rs\<close>: the chunks waiting for their first transmission, one queue for
  unordered and one for ordered messages. Once the first fragment of a message is taken, its queue
  stays selected until the last fragment, so that the fragments of a message get consecutive TSNs.
  The atomics and mutexes of the structure become fields; an operation is one step.
\<close>

record pending_queue =
  unordered_queue :: "chunk_payload_data list"
  ordered_queue :: "chunk_payload_data list"
  queue_len :: nat
  pend_n_bytes :: nat
  selected :: bool
  unordered_is_selected :: bool

section \<open>Operations\<close>

definition pending_queue_new :: pending_queue where
  "pending_queue_new = \<lparr>unordered_queue = [], ordered_queue = [], queue_len = 0, pend_n_bytes = 0,
     selected = False, unordered_is_selected = False\<rparr>"

definition pend_push :: "chunk_payload_data \<Rightarrow> pending_queue \<Rightarrow> pending_queue" where
  "pend_push c q =
     (let q = q\<lparr>pend_n_bytes := pend_n_bytes q + length (user_data c)\<rparr>;
          q = (if unordered c then q\<lparr>unordered_queue := unordered_queue q @ [c]\<rparr>
               else q\<lparr>ordered_queue := ordered_queue q @ [c]\<rparr>)
      in q\<lparr>queue_len := queue_len q + 1\<rparr>)"

text \<open>\<^verbatim>\<open>VecDeque::get(0).cloned()\<close> and \<^verbatim>\<open>VecDeque::pop_front\<close>.\<close>

fun front :: "'a list \<Rightarrow> 'a option" where
  "front [] = None"
| "front (x # _) = Some x"

definition pend_peek :: "pending_queue \<Rightarrow> chunk_payload_data option" where
  "pend_peek q =
     (if selected q then
        if unordered_is_selected q then front (unordered_queue q) else front (ordered_queue q)
      else case front (unordered_queue q) of
          Some c \<Rightarrow> Some c
        | None \<Rightarrow> front (ordered_queue q))"

definition pend_pop :: "bool \<Rightarrow> bool \<Rightarrow> pending_queue \<Rightarrow> chunk_payload_data option \<times> pending_queue" where
  "pend_pop beginning_frag unord q =
     (if \<not> selected q \<and> \<not> beginning_frag then (None, q)
      else
        let (popped, q) =
          (if selected q then
             let (popped, q) =
               (if unordered_is_selected q
                then (front (unordered_queue q), q\<lparr>unordered_queue := tl (unordered_queue q)\<rparr>)
                else (front (ordered_queue q), q\<lparr>ordered_queue := tl (ordered_queue q)\<rparr>))
             in case popped of
                  Some p \<Rightarrow> (popped, if ending_fragment p then q\<lparr>selected := False\<rparr> else q)
                | None \<Rightarrow> (popped, q)
           else if unord then
             case front (unordered_queue q) of
               Some p \<Rightarrow> (Some p, let q = q\<lparr>unordered_queue := tl (unordered_queue q)\<rparr> in
                 if \<not> ending_fragment p then q\<lparr>selected := True, unordered_is_selected := True\<rparr> else q)
             | None \<Rightarrow> (None, q)
           else
             case front (ordered_queue q) of
               Some p \<Rightarrow> (Some p, let q = q\<lparr>ordered_queue := tl (ordered_queue q)\<rparr> in
                 if \<not> ending_fragment p then q\<lparr>selected := True, unordered_is_selected := False\<rparr> else q)
             | None \<Rightarrow> (None, q))
        in case popped of
             Some p \<Rightarrow> (popped, q\<lparr>pend_n_bytes := pend_n_bytes q - length (user_data p),
                            queue_len := queue_len q - 1\<rparr>)
           | None \<Rightarrow> (popped, q))"

definition pend_len :: "pending_queue \<Rightarrow> nat" where
  "pend_len q = queue_len q"

section \<open>Invariant\<close>

text \<open>
  \<open>framed opn cs\<close>: a sequence of chunks is made of messages, the first of which is already open when
  \<open>opn\<close> holds; the last one may still be incomplete.
\<close>

fun framed :: "bool \<Rightarrow> chunk_payload_data list \<Rightarrow> bool" where
  "framed opn [] \<longleftrightarrow> True"
| "framed opn (c # cs) \<longleftrightarrow> beginning_fragment c = (\<not> opn) \<and> framed (\<not> ending_fragment c) cs"

text \<open>Whether a message is still open after a sequence of chunks.\<close>

fun left_open :: "bool \<Rightarrow> chunk_payload_data list \<Rightarrow> bool" where
  "left_open opn [] = opn"
| "left_open opn (c # cs) = left_open (\<not> ending_fragment c) cs"

definition payload_bytes :: "chunk_payload_data list \<Rightarrow> nat" where
  "payload_bytes cs = (\<Sum>c\<leftarrow>cs. length (user_data c))"

definition pend_inv :: "pending_queue \<Rightarrow> bool" where
  "pend_inv q \<longleftrightarrow>
     (\<forall>c \<in> set (unordered_queue q). unordered c) \<and> (\<forall>c \<in> set (ordered_queue q). \<not> unordered c) \<and>
     framed (selected q \<and> unordered_is_selected q) (unordered_queue q) \<and>
     framed (selected q \<and> \<not> unordered_is_selected q) (ordered_queue q) \<and>
     queue_len q = length (unordered_queue q) + length (ordered_queue q) \<and>
     pend_n_bytes q = payload_bytes (unordered_queue q) + payload_bytes (ordered_queue q)"

text \<open>The selected queue has the rest of its message, so the sender is never stuck on it.\<close>

definition pend_complete :: "pending_queue \<Rightarrow> bool" where
  "pend_complete q \<longleftrightarrow>
     \<not> left_open (selected q \<and> unordered_is_selected q) (unordered_queue q) \<and>
     \<not> left_open (selected q \<and> \<not> unordered_is_selected q) (ordered_queue q)"

lemma framed_append: "framed opn (cs @ ds) \<longleftrightarrow> framed opn cs \<and> framed (left_open opn cs) ds"
  by (induction cs arbitrary: opn) auto

lemma left_open_append: "left_open opn (cs @ ds) = left_open (left_open opn cs) ds"
  by (induction cs arbitrary: opn) auto

lemma payload_bytes_simps [simp]:
  "payload_bytes [] = 0" "payload_bytes (c # cs) = length (user_data c) + payload_bytes cs"
  "payload_bytes (cs @ ds) = payload_bytes cs + payload_bytes ds"
  by (simp_all add: payload_bytes_def)

lemma pend_inv_new: "pend_inv pending_queue_new" and pend_complete_new: "pend_complete pending_queue_new"
  by (simp_all add: pend_inv_def pend_complete_def pending_queue_new_def)

text \<open>Pushing a chunk that continues the last message of its queue.\<close>

lemma pend_inv_push:
  assumes "pend_inv q"
    and "beginning_fragment c = (\<not> (if unordered c
           then left_open (selected q \<and> unordered_is_selected q) (unordered_queue q)
           else left_open (selected q \<and> \<not> unordered_is_selected q) (ordered_queue q)))"
  shows "pend_inv (pend_push c q)"
  using assms by (cases "unordered c") (auto simp: pend_inv_def pend_push_def Let_def framed_append)

text \<open>What a pop of the peeked chunk does, by queue.\<close>

lemma pend_pop_peek:
  assumes "pend_inv q" and "pend_peek q = Some c"
  obtains (unord) cs where "unordered_queue q = c # cs" and "unordered c"
      and "selected q \<longrightarrow> unordered_is_selected q"
      and "pend_pop (beginning_fragment c) (unordered c) q =
        (Some c, q\<lparr>unordered_queue := cs, selected := \<not> ending_fragment c,
          unordered_is_selected := (if selected q \<or> \<not> ending_fragment c then True else unordered_is_selected q),
          pend_n_bytes := pend_n_bytes q - length (user_data c), queue_len := queue_len q - 1\<rparr>)"
    | (ord) cs where "ordered_queue q = c # cs" and "\<not> unordered c"
      and "selected q \<longrightarrow> \<not> unordered_is_selected q" and "\<not> selected q \<longrightarrow> unordered_queue q = []"
      and "pend_pop (beginning_fragment c) (unordered c) q =
        (Some c, q\<lparr>ordered_queue := cs, selected := \<not> ending_fragment c,
          unordered_is_selected := (if selected q \<or> \<not> ending_fragment c then False else unordered_is_selected q),
          pend_n_bytes := pend_n_bytes q - length (user_data c), queue_len := queue_len q - 1\<rparr>)"
proof (cases "if selected q then unordered_is_selected q else unordered_queue q \<noteq> []")
  case True
  then obtain cs where u: "unordered_queue q = c # cs"
    using assms(2) by (cases "unordered_queue q") (auto simp: pend_peek_def split: if_splits)
  with assms(1) True have "unordered c" "selected q \<or> beginning_fragment c"
    by (auto simp: pend_inv_def)
  with u True show ?thesis
    by (intro unord) (auto simp: pend_pop_def Let_def)
next
  case False
  then obtain cs where u: "ordered_queue q = c # cs"
    using assms(2) by (cases "ordered_queue q") (auto simp: pend_peek_def split: if_splits)
  with assms(1) False have "\<not> unordered c" "selected q \<or> beginning_fragment c"
    by (auto simp: pend_inv_def split: if_splits)
  with u False show ?thesis
    by (intro ord) (auto simp: pend_pop_def Let_def split: if_splits)
qed

lemma pend_step:
  assumes "pend_inv q" and "pend_peek q = Some c"
  obtains q' where "pend_pop (beginning_fragment c) (unordered c) q = (Some c, q')" and "pend_inv q'"
    and "queue_len q = Suc (queue_len q')" and "pend_n_bytes q = pend_n_bytes q' + length (user_data c)"
    and "selected q' = (\<not> ending_fragment c)" and "beginning_fragment c = (\<not> selected q)"
    and "pend_complete q \<Longrightarrow> pend_complete q'"
    and "unordered_queue q = (if unordered c then [c] else []) @ unordered_queue q'"
    and "ordered_queue q = (if unordered c then [] else [c]) @ ordered_queue q'"
  using assms
proof (cases rule: pend_pop_peek)
  case (unord cs)
  then show thesis using assms(1) by (intro that [OF unord(4)]) (auto simp: pend_inv_def pend_complete_def)
next
  case (ord cs)
  then show thesis using assms(1) by (intro that [OF ord(5)]) (auto simp: pend_inv_def pend_complete_def)
qed

lemma pend_peek_None:
  assumes "pend_inv q" and "pend_complete q" and "pend_peek q = None"
  shows "queue_len q = 0"
  using assms
  by (cases "unordered_queue q"; cases "ordered_queue q")
    (auto simp: pend_inv_def pend_complete_def pend_peek_def split: if_splits)

section \<open>The interface of a source of chunks\<close>

text \<open>The loop of a sender that takes what it peeks, at most \<open>n\<close> times.\<close>

fun drain :: "('q \<Rightarrow> 'c option) \<Rightarrow> ('c \<Rightarrow> 'q \<Rightarrow> 'c option \<times> 'q) \<Rightarrow> nat \<Rightarrow> 'q \<Rightarrow> 'c list \<times> 'q" where
  "drain pk pp 0 q = ([], q)"
| "drain pk pp (Suc n) q =
     (case pk q of
        None \<Rightarrow> ([], q)
      | Some c \<Rightarrow> (case pp c q of
            (None, q') \<Rightarrow> ([], q')
          | (Some c', q') \<Rightarrow> (case drain pk pp n q' of (cs, q'') \<Rightarrow> (c' # cs, q''))))"

locale chunk_source =
  fixes peek :: "'q \<Rightarrow> 'c option"
    and pop :: "'c \<Rightarrow> 'q \<Rightarrow> 'c option \<times> 'q"
    and len :: "'q \<Rightarrow> nat"
    and invar :: "'q \<Rightarrow> bool"
  assumes peek_pop: "invar q \<Longrightarrow> peek q = Some c \<Longrightarrow>
      \<exists>q'. pop c q = (Some c, q') \<and> invar q' \<and> len q = Suc (len q')"
    and peek_None: "invar q \<Longrightarrow> peek q = None \<Longrightarrow> len q = 0"
begin

lemma peek_iff: "invar q \<Longrightarrow> peek q = None \<longleftrightarrow> len q = 0"
  using peek_pop [of q] peek_None [of q] by (cases "peek q") auto

lemma drain_all: "invar q \<Longrightarrow> len q = n \<Longrightarrow>
  \<exists>cs q'. drain peek pop n q = (cs, q') \<and> length cs = n \<and> invar q' \<and> peek q' = None"
proof (induction n arbitrary: q)
  case 0
  then show ?case by (simp add: peek_iff)
next
  case (Suc n)
  then obtain c where c: "peek q = Some c" using peek_iff [of q] by auto
  from peek_pop [OF Suc.prems(1) c] obtain q' where q': "pop c q = (Some c, q')" "invar q'" "len q = Suc (len q')"
    by blast
  with Suc.IH [of q'] Suc.prems(2) c show ?case by auto
qed

end

interpretation pend: chunk_source pend_peek "\<lambda>c. pend_pop (beginning_fragment c) (unordered c)" pend_len
  "\<lambda>q. pend_inv q \<and> pend_complete q"
proof unfold_locales
  fix q c
  assume *: "pend_inv q \<and> pend_complete q" "pend_peek q = Some c"
  then show "\<exists>q'. pend_pop (beginning_fragment c) (unordered c) q = (Some c, q') \<and>
      (pend_inv q' \<and> pend_complete q') \<and> pend_len q = Suc (pend_len q')"
    unfolding pend_len_def by (metis pend_step)
qed (simp add: pend_peek_None pend_len_def)

lemma drain_framed:
  assumes "pend_inv q"
    and "drain pend_peek (\<lambda>c. pend_pop (beginning_fragment c) (unordered c)) n q = (cs, q')"
  shows "framed (selected q) cs \<and> unordered_queue q = filter unordered cs @ unordered_queue q' \<and>
    ordered_queue q = filter (\<lambda>c. \<not> unordered c) cs @ ordered_queue q'"
  using assms
proof (induction n arbitrary: q cs)
  case (Suc n)
  show ?case
  proof (cases "pend_peek q")
    case None
    with Suc.prems(2) show ?thesis by simp
  next
    case (Some c)
    obtain q1 where q1: "pend_pop (beginning_fragment c) (unordered c) q = (Some c, q1)" "pend_inv q1"
      "selected q1 = (\<not> ending_fragment c)" "beginning_fragment c = (\<not> selected q)"
      "unordered_queue q = (if unordered c then [c] else []) @ unordered_queue q1"
      "ordered_queue q = (if unordered c then [] else [c]) @ ordered_queue q1"
      using pend_step [OF Suc.prems(1) Some] by metis
    obtain ds where "drain pend_peek (\<lambda>c. pend_pop (beginning_fragment c) (unordered c)) n q1 = (ds, q')"
      and "cs = c # ds"
      using Suc.prems(2) Some q1(1) by (auto split: prod.splits)
    with Suc.IH [OF q1(2)] q1 show ?thesis by auto
  qed
qed simp

section \<open>Properties\<close>



text \<open>
  Without a lock around the fragments of one message, two writers can block the sender: when the
  fragments of two ordered messages are pushed alternately, three of the four chunks are taken and
  then every peek shows the fourth one while the corresponding pop refuses it.
\<close>

theorem pending_interleaved_writers:
  "let c = chunk_payload_data_default 0;
       a1 = c\<lparr>beginning_fragment := True, stream_identifier := 1\<rparr>; a2 = c\<lparr>ending_fragment := True, stream_identifier := 1\<rparr>;
       b1 = c\<lparr>beginning_fragment := True, stream_identifier := 2\<rparr>; b2 = c\<lparr>ending_fragment := True, stream_identifier := 2\<rparr>
   in case drain pend_peek (\<lambda>c. pend_pop (beginning_fragment c) (unordered c)) 3
        (fold pend_push [a1, b1, a2, b2] pending_queue_new) of
      (cs, q) \<Rightarrow> cs = [a1, b1, a2] \<and> pend_peek q = Some b2 \<and>
        pend_pop (beginning_fragment b2) (unordered b2) q = (None, q)"
  by code_simp

end
