(* ===== verification/Sctp_Reassembly_Queue.thy ===== *)
theory Sctp_Reassembly_Queue
  imports Sctp_Pending_Queue
begin

text \<open>
  \<^verbatim>\<open>sctp/queue/reassembly_queue.rs\<close>: the fragments a stream has received, grouped into chunk sets, and
  the reader that returns whole messages: unordered ones as soon as they are complete, ordered ones in
  the order of their stream sequence numbers. Index arithmetic of the scanning loops is kept.
\<close>

section \<open>Chunk sets\<close>

record chunk_set =
  cs_ssn :: u16
  cs_ppi :: payload_protocol_identifier
  cs_chunks :: "chunk_payload_data list"

definition sort_chunks_by_tsn :: "chunk_payload_data list \<Rightarrow> chunk_payload_data list" where
  "sort_chunks_by_tsn = sort_by (\<lambda>a b. sna32lt (tsn a) (tsn b))"

definition sort_chunks_by_ssn :: "chunk_set list \<Rightarrow> chunk_set list" where
  "sort_chunks_by_ssn = sort_by (\<lambda>a b. sna16lt (cs_ssn a) (cs_ssn b))"

definition chunk_set_new :: "u16 \<Rightarrow> payload_protocol_identifier \<Rightarrow> chunk_set" where
  "chunk_set_new s p = \<lparr>cs_ssn = s, cs_ppi = p, cs_chunks = []\<rparr>"

text \<open>The loop over the chunks after the first one, with \<^verbatim>\<open>last_tsn\<close>.\<close>

fun tsn_run :: "u32 \<Rightarrow> chunk_payload_data list \<Rightarrow> bool" where
  "tsn_run last_tsn [] \<longleftrightarrow> True"
| "tsn_run last_tsn (c # cs) \<longleftrightarrow> tsn c = last_tsn + 1 \<and> tsn_run (tsn c) cs"

fun chunks_complete :: "chunk_payload_data list \<Rightarrow> bool" where
  "chunks_complete [] \<longleftrightarrow> False"
| "chunks_complete (c # cs) \<longleftrightarrow>
     beginning_fragment c \<and> ending_fragment (last (c # cs)) \<and> tsn_run (tsn c) cs"

definition is_complete :: "chunk_set \<Rightarrow> bool" where
  "is_complete s = chunks_complete (cs_chunks s)"

definition chunk_set_push :: "chunk_payload_data \<Rightarrow> chunk_set \<Rightarrow> bool \<times> chunk_set" where
  "chunk_set_push chunk s =
     (if tsn chunk \<in> set (map tsn (cs_chunks s)) then (False, s)
      else let s = s\<lparr>cs_chunks := sort_chunks_by_tsn (cs_chunks s @ [chunk])\<rparr> in (is_complete s, s))"

section \<open>The queue\<close>

record reassembly_queue =
  rq_si :: u16
  next_ssn :: u16
  rq_ordered :: "chunk_set list"
  rq_unordered :: "chunk_set list"
  unordered_chunks :: "chunk_payload_data list"
  rq_n_bytes :: nat

definition reassembly_queue_new :: "u16 \<Rightarrow> reassembly_queue" where
  "reassembly_queue_new si = \<lparr>rq_si = si, next_ssn = 0, rq_ordered = [], rq_unordered = [],
     unordered_chunks = [], rq_n_bytes = 0\<rparr>"

text \<open>
  The scan for a complete run of unordered fragments: \<open>start_idx\<close> is negative when no first fragment
  is in sight. The result is \<open>Some (start_idx, n_chunks)\<close> when the loop ends with \<^verbatim>\<open>found\<close>.
\<close>

fun find_complete_loop :: "chunk_payload_data list \<Rightarrow> nat \<Rightarrow> int \<Rightarrow> nat \<Rightarrow> u32 \<Rightarrow> (int \<times> nat) option" where
  "find_complete_loop [] i start_idx n_chunks last_tsn = None"
| "find_complete_loop (c # cs) i start_idx n_chunks last_tsn =
     (if beginning_fragment c then
        if ending_fragment c then Some (int i, 1)
        else find_complete_loop cs (i + 1) (int i) 1 (tsn c)
      else if start_idx < 0 then find_complete_loop cs (i + 1) start_idx n_chunks last_tsn
      else if tsn c \<noteq> last_tsn + 1 then find_complete_loop cs (i + 1) (- 1) n_chunks last_tsn
      else if ending_fragment c then Some (start_idx, n_chunks + 1)
      else find_complete_loop cs (i + 1) start_idx (n_chunks + 1) (tsn c))"

definition find_complete_unordered_chunk_set ::
  "reassembly_queue \<Rightarrow> chunk_set option \<times> reassembly_queue" where
  "find_complete_unordered_chunk_set q =
     (case find_complete_loop (unordered_chunks q) 0 (- 1) 0 0 of
        None \<Rightarrow> (None, q)
      | Some (start_idx, n_chunks) \<Rightarrow>
          let s = nat start_idx;
              drained = take n_chunks (drop s (unordered_chunks q));
              q = q\<lparr>unordered_chunks := take s (unordered_chunks q) @ drop (s + n_chunks) (unordered_chunks q)\<rparr>
          in (Some ((chunk_set_new 0 (payload_type (hd drained)))\<lparr>cs_chunks := drained\<rparr>), q))"

text \<open>\<^verbatim>\<open>for s in &mut self.ordered\<close>: the first set with the chunk's SSN takes it.\<close>

fun push_into_ordered :: "chunk_payload_data \<Rightarrow> chunk_set list \<Rightarrow> (bool \<times> chunk_set list) option" where
  "push_into_ordered chunk [] = None"
| "push_into_ordered chunk (s # ss) =
     (if cs_ssn s = stream_sequence_number chunk
      then case chunk_set_push chunk s of (ok, s') \<Rightarrow> Some (ok, s' # ss)
      else case push_into_ordered chunk ss of
          Some (ok, ss') \<Rightarrow> Some (ok, s # ss')
        | None \<Rightarrow> None)"

definition rq_push :: "chunk_payload_data \<Rightarrow> reassembly_queue \<Rightarrow> bool \<times> reassembly_queue" where
  "rq_push chunk q =
     (if stream_identifier chunk \<noteq> rq_si q then (False, q)
      else if unordered chunk then
        let q = q\<lparr>rq_n_bytes := rq_n_bytes q + length (user_data chunk),
                 unordered_chunks := sort_chunks_by_tsn (unordered_chunks q @ [chunk])\<rparr>
        in case find_complete_unordered_chunk_set q of
             (Some cset, q) \<Rightarrow> (True, q\<lparr>rq_unordered := rq_unordered q @ [cset]\<rparr>)
           | (None, q) \<Rightarrow> (False, q)
      else if sna16lt (stream_sequence_number chunk) (next_ssn q) then (False, q)
      else
        let q = q\<lparr>rq_n_bytes := rq_n_bytes q + length (user_data chunk)\<rparr>
        in case push_into_ordered chunk (rq_ordered q) of
             Some (ok, ordered) \<Rightarrow> (ok, q\<lparr>rq_ordered := ordered\<rparr>)
           | None \<Rightarrow>
               case chunk_set_push chunk (chunk_set_new (stream_sequence_number chunk) (payload_type chunk)) of
                 (ok, cset) \<Rightarrow> (ok, q\<lparr>rq_ordered := sort_chunks_by_ssn (rq_ordered q @ [cset])\<rparr>))"

definition is_readable :: "reassembly_queue \<Rightarrow> bool" where
  "is_readable q \<longleftrightarrow>
     rq_unordered q \<noteq> [] \<or>
     (rq_ordered q \<noteq> [] \<and> is_complete (hd (rq_ordered q)) \<and>
      sna16lte (cs_ssn (hd (rq_ordered q))) (next_ssn q))"

definition subtract_num_bytes :: "nat \<Rightarrow> reassembly_queue \<Rightarrow> reassembly_queue" where
  "subtract_num_bytes n q =
     (if rq_n_bytes q \<ge> n then q\<lparr>rq_n_bytes := rq_n_bytes q - n\<rparr> else q\<lparr>rq_n_bytes := 0\<rparr>)"

text \<open>The copy loop of \<^verbatim>\<open>read\<close>: \<open>err\<close> is set once the buffer is too short.\<close>

fun read_copy :: "chunk_payload_data list \<Rightarrow> bytes \<Rightarrow> nat \<Rightarrow> bool \<Rightarrow> reassembly_queue \<Rightarrow>
    bytes \<times> nat \<times> bool \<times> reassembly_queue" where
  "read_copy [] buf n_written err q = (buf, n_written, err, q)"
| "read_copy (c # cs) buf n_written err q =
     (let to_copy = length (user_data c); q = subtract_num_bytes to_copy q in
      if \<not> err then
        let n = min to_copy (length buf - n_written);
            buf = take n_written buf @ take n (user_data c) @ drop (n_written + n) buf
        in read_copy cs buf (n_written + n) (n < to_copy) q
      else read_copy cs buf n_written err q)"

definition read_deliver :: "chunk_set \<Rightarrow> bytes \<Rightarrow> reassembly_queue \<Rightarrow>
    (nat \<times> payload_protocol_identifier) result \<times> bytes \<times> reassembly_queue" where
  "read_deliver cset buf q =
     (case read_copy (cs_chunks cset) buf 0 False q of
        (buf, n_written, err, q) \<Rightarrow>
          (if err then Err ErrShortBuffer else Ok (n_written, cs_ppi cset), buf, q))"

definition rq_read :: "bytes \<Rightarrow> reassembly_queue \<Rightarrow>
    (nat \<times> payload_protocol_identifier) result \<times> bytes \<times> reassembly_queue" where
  "rq_read buf q =
     (case rq_unordered q of
        cset # rest \<Rightarrow> read_deliver cset buf (q\<lparr>rq_unordered := rest\<rparr>)
      | [] \<Rightarrow>
          (case rq_ordered q of
             cset # rest \<Rightarrow>
               if \<not> is_complete cset then (Err ErrTryAgain, buf, q)
               else if sna16gt (cs_ssn cset) (next_ssn q) then (Err ErrTryAgain, buf, q)
               else
                 let q = (if cs_ssn cset = next_ssn q then q\<lparr>next_ssn := next_ssn q + 1\<rparr> else q)
                 in read_deliver cset buf (q\<lparr>rq_ordered := rest\<rparr>)
           | [] \<Rightarrow> (Err ErrTryAgain, buf, q)))"

text \<open>
  The loop that finds \<^verbatim>\<open>last_idx\<close> stops at the first chunk above the new cumulative TSN, so the first
  \<open>last_idx + 1\<close> chunks are the longest prefix without such a chunk.
\<close>

definition forward_tsn_for_unordered :: "u32 \<Rightarrow> reassembly_queue \<Rightarrow> reassembly_queue" where
  "forward_tsn_for_unordered new_cum q =
     (let old = takeWhile (\<lambda>c. \<not> sna32gt (tsn c) new_cum) (unordered_chunks q);
          q = fold (\<lambda>c. subtract_num_bytes (length (user_data c))) old q
      in q\<lparr>unordered_chunks := drop (length old) (unordered_chunks q)\<rparr>)"

section \<open>Reading\<close>

lemma subtract_num_bytes_eq: "subtract_num_bytes n q = q\<lparr>rq_n_bytes := rq_n_bytes q - n\<rparr>"
  by (simp add: subtract_num_bytes_def)

lemma read_copy_err:
  "read_copy cs buf w True q = (buf, w, True, q\<lparr>rq_n_bytes := rq_n_bytes q - payload_bytes cs\<rparr>)"
  by (induction cs arbitrary: q) (simp_all add: subtract_num_bytes_eq Let_def)

definition message_data :: "chunk_payload_data list \<Rightarrow> bytes" where
  "message_data cs = concat (map user_data cs)"

lemma length_message_data: "length (message_data cs) = payload_bytes cs"
  by (induction cs) (simp_all add: message_data_def)

text \<open>The copy loop writes the message, cut at the end of the buffer, and reports whether it was cut.\<close>

lemma read_copy_eq:
  "w \<le> length buf \<Longrightarrow> read_copy cs buf w False q =
    (let n = min (payload_bytes cs) (length buf - w) in
     (take w buf @ take n (message_data cs) @ drop (w + n) buf, w + n, n < payload_bytes cs,
      q\<lparr>rq_n_bytes := rq_n_bytes q - payload_bytes cs\<rparr>))"
proof (induction cs arbitrary: buf w q)
  case Nil
  then show ?case by (simp add: message_data_def)
next
  case (Cons c cs)
  let ?l = "length (user_data c)" and ?m = "message_data (c # cs)"
  have m: "?m = user_data c @ message_data cs" by (simp add: message_data_def)
  show ?case
  proof (cases "?l \<le> length buf - w")
    case True
    let ?buf = "take w buf @ user_data c @ drop (w + ?l) buf"
    define n where "n = min (payload_bytes cs) (length buf - (w + ?l))"
    have len: "length ?buf = length buf" "length (take w buf) = w" using Cons.prems True by simp_all
    have N: "min (payload_bytes (c # cs)) (length buf - w) = ?l + n"
      "n < payload_bytes cs \<longleftrightarrow> ?l + n < payload_bytes (c # cs)" using Cons.prems True by (auto simp: n_def)
    have "read_copy (c # cs) buf w False q = read_copy cs ?buf (w + ?l) False (q\<lparr>rq_n_bytes := rq_n_bytes q - ?l\<rparr>)"
      using True by (simp add: Let_def subtract_num_bytes_eq)
    also have "\<dots> = (take (w + ?l) ?buf @ take n (message_data cs) @ drop (w + ?l + n) ?buf,
        w + ?l + n, n < payload_bytes cs, q\<lparr>rq_n_bytes := rq_n_bytes q - payload_bytes (c # cs)\<rparr>)"
      unfolding n_def by (subst Cons.IH) (use Cons.prems True len(1) in \<open>simp_all add: Let_def\<close>)
    also have "take (w + ?l) ?buf = take w buf @ user_data c" using len by simp
    also have "drop (w + ?l + n) ?buf = drop (w + ?l + n) buf" using len Cons.prems by (simp add: add.commute)
    finally show ?thesis unfolding N Let_def by (simp add: m add.assoc)
  next
    case False
    then show ?thesis
      using Cons.prems by (simp add: Let_def m read_copy_err subtract_num_bytes_eq min_def)
  qed
qed

lemma read_deliver_eq:
  "read_deliver cset buf q =
    (let m = message_data (cs_chunks cset); n = min (length m) (length buf) in
     (if length buf < length m then Err ErrShortBuffer else Ok (length m, cs_ppi cset),
      take n m @ drop n buf, q\<lparr>rq_n_bytes := rq_n_bytes q - length m\<rparr>))"
  by (auto simp: read_deliver_def read_copy_eq Let_def length_message_data)

section \<open>Ordered delivery\<close>

text \<open>The fragments received for one SSN, in TSN order, when \<open>ds\<close> arrived in any order.\<close>

abbreviation tsn_dist :: "u32 \<Rightarrow> chunk_payload_data \<Rightarrow> nat" where
  "tsn_dist base c \<equiv> unat (tsn c - base)"

definition fragments :: "u32 \<Rightarrow> chunk_payload_data list \<Rightarrow> u16 \<Rightarrow> chunk_payload_data list" where
  "fragments base ds s = sort_key (tsn_dist base) (filter (\<lambda>c. stream_sequence_number c = s) ds)"

text \<open>What may arrive: ordered chunks of one stream, their TSNs distinct and in the window above
  \<open>base\<close>, their SSNs in the window above the next expected one.\<close>

definition arrivals_ok :: "u32 \<Rightarrow> u16 \<Rightarrow> u16 \<Rightarrow> chunk_payload_data list \<Rightarrow> bool" where
  "arrivals_ok base si next ds \<longleftrightarrow> distinct (map tsn ds) \<and>
     (\<forall>c \<in> set ds. stream_identifier c = si \<and> \<not> unordered c \<and> tsn_dist base c < 2 ^ 31 \<and>
       unat (stream_sequence_number c - next) < 2 ^ 15)"

definition set_for :: "u32 \<Rightarrow> chunk_payload_data list \<Rightarrow> u16 \<Rightarrow> chunk_set" where
  "set_for base ds s =
     \<lparr>cs_ssn = s, cs_ppi = payload_type (hd (filter (\<lambda>c. stream_sequence_number c = s) ds)),
      cs_chunks = fragments base ds s\<rparr>"

definition ssns :: "chunk_payload_data list \<Rightarrow> u16 list" where
  "ssns ds = rev (remdups (rev (map stream_sequence_number ds)))"

abbreviation ssn_dist :: "u16 \<Rightarrow> u16 \<Rightarrow> nat" where
  "ssn_dist next s \<equiv> unat (s - next)"

definition ordered_view :: "u32 \<Rightarrow> u16 \<Rightarrow> chunk_payload_data list \<Rightarrow> chunk_set list" where
  "ordered_view base next ds = map (set_for base ds) (sort_key (ssn_dist next) (ssns ds))"

lemma set_ssns [simp]: "set (ssns ds) = stream_sequence_number ` set ds"
  by (simp add: ssns_def)

lemma ssns_snoc: "ssns (ds @ [c]) =
  (if stream_sequence_number c \<in> stream_sequence_number ` set ds then ssns ds else ssns ds @ [stream_sequence_number c])"
  by (auto simp: ssns_def)

lemma inj_tsn_dist: "distinct (map tsn ds) \<Longrightarrow> inj_on (tsn_dist base) (set ds)"
  by (auto simp: inj_on_def distinct_map word_unat_eq_iff [symmetric])

lemma inj_ssn_dist: "inj_on (ssn_dist next) A"
  by (auto simp: inj_on_def word_unat_eq_iff [symmetric])

lemma sort_chunks_by_tsn_key:
  assumes "\<forall>c \<in> set ds. tsn_dist base c < 2 ^ 31" and "distinct (map tsn ds)"
  shows "sort_chunks_by_tsn ds = sort_key (tsn_dist base) ds"
  unfolding sort_chunks_by_tsn_def
  using assms by (intro sort_by_key inj_tsn_dist sna32.lt_window) auto

lemma sort_ssn_key:
  assumes "\<forall>s \<in> set ss. ssn_dist next s < 2 ^ 15"
  shows "sort_by sna16lt ss = sort_key (ssn_dist next) ss"
  using assms by (intro sort_by_key inj_ssn_dist sna16.lt_window) auto

lemma fragments_push:
  assumes "arrivals_ok base si next (ds @ [c])" and "s = stream_sequence_number c"
  shows "sort_chunks_by_tsn (fragments base ds s @ [c]) = fragments base (ds @ [c]) s"
proof -
  let ?fs = "filter (\<lambda>c. stream_sequence_number c = s) ds"
  have d: "distinct (map tsn (?fs @ [c]))"
    using assms(1) by (auto simp: arrivals_ok_def distinct_map inj_on_def)
  have m: "mset (map tsn (fragments base ds s @ [c])) = mset (map tsn (?fs @ [c]))"
    by (simp add: fragments_def)
  have "sort_chunks_by_tsn (fragments base ds s @ [c]) = sort_key (tsn_dist base) (fragments base ds s @ [c])"
    using assms(1) d mset_eq_imp_distinct_iff [OF m]
    by (intro sort_chunks_by_tsn_key) (auto simp: arrivals_ok_def fragments_def)
  also have "\<dots> = sort_key (tsn_dist base) (?fs @ [c])"
    using d mset_eq_imp_distinct_iff [OF m] by (intro sort_key_mset_eq inj_tsn_dist) (auto simp: fragments_def)
  finally show ?thesis using assms(2) by (simp add: fragments_def)
qed

lemma set_for_push:
  assumes "arrivals_ok base si next (ds @ [c])" and "s = stream_sequence_number c"
    and "s \<in> stream_sequence_number ` set ds"
  shows "snd (chunk_set_push c (set_for base ds s)) = set_for base (ds @ [c]) s"
proof -
  have "tsn c \<notin> set (map tsn (fragments base ds s))"
    using assms(1) by (auto simp: arrivals_ok_def fragments_def)
  moreover have "filter (\<lambda>c. stream_sequence_number c = s) ds \<noteq> []" using assms(3) by (auto simp: filter_empty_conv)
  ultimately show ?thesis
    using fragments_push [OF assms(1,2)] assms(2)
    by (auto simp: chunk_set_push_def set_for_def Let_def)
qed

lemma set_for_new:
  assumes "s = stream_sequence_number c" and "s \<notin> stream_sequence_number ` set ds"
  shows "snd (chunk_set_push c (chunk_set_new s (payload_type c))) = set_for base (ds @ [c]) s"
proof -
  have "filter (\<lambda>c. stream_sequence_number c = s) ds = []" using assms(2) by (auto simp: filter_empty_conv)
  then show ?thesis
    using assms(1) by (simp add: chunk_set_push_def chunk_set_new_def set_for_def fragments_def
        sort_chunks_by_tsn_def sort_by_def Let_def)
qed

lemma cs_ssn_set_for [simp]: "cs_ssn (set_for base ds s) = s"
  by (simp add: set_for_def)

lemma set_for_other: "s \<noteq> stream_sequence_number c \<Longrightarrow> set_for base (ds @ [c]) s = set_for base ds s"
  by (simp add: set_for_def fragments_def)

lemma push_into_ordered_map:
  assumes "distinct ss" and "\<And>s. cs_ssn (g s) = s"
  shows "push_into_ordered c (map g ss) =
    (if stream_sequence_number c \<in> set ss
     then Some (fst (chunk_set_push c (g (stream_sequence_number c))),
       map (\<lambda>s. if s = stream_sequence_number c then snd (chunk_set_push c (g s)) else g s) ss)
     else None)"
  using assms
proof (induction ss)
  case (Cons s ss)
  then show ?case
    by (cases "chunk_set_push c (g (stream_sequence_number c))") (auto simp: map_idI intro!: map_cong)
qed simp

text \<open>The part of \<open>rq_push\<close> that updates the list of ordered sets.\<close>

lemma ordered_view_insert:
  assumes "arrivals_ok base si next (ds @ [c])" and "rq_ordered q = ordered_view base next ds"
  defines "s \<equiv> stream_sequence_number c"
  shows "snd (case push_into_ordered c (rq_ordered q) of
      Some (ok, ordered) \<Rightarrow> (ok, q\<lparr>rq_ordered := ordered\<rparr>)
    | None \<Rightarrow> (case chunk_set_push c (chunk_set_new s (payload_type c)) of
        (ok, cset) \<Rightarrow> (ok, q\<lparr>rq_ordered := sort_chunks_by_ssn (rq_ordered q @ [cset])\<rparr>)))
    = q\<lparr>rq_ordered := ordered_view base next (ds @ [c])\<rparr>"
proof -
  let ?ss = "sort_key (ssn_dist next) (ssns ds)"
  have win: "\<forall>s' \<in> set (?ss @ [s]). ssn_dist next s' < 2 ^ 15"
    using assms(1) by (auto simp: arrivals_ok_def s_def)
  have "distinct ?ss" by (simp add: ssns_def)
  note upd = push_into_ordered_map [OF this, of "set_for base ds" c]
  show ?thesis
  proof (cases "s \<in> stream_sequence_number ` set ds")
    case True
    have "map (\<lambda>s'. if s' = s then snd (chunk_set_push c (set_for base ds s')) else set_for base ds s') ?ss
        = ordered_view base next (ds @ [c])"
      using True set_for_push [OF assms(1) s_def [THEN meta_eq_to_obj_eq]] set_for_other [of _ c base ds]
      by (auto simp: ordered_view_def ssns_snoc s_def)
    with upd True show ?thesis by (simp add: assms(2) ordered_view_def set_for_def s_def)
  next
    case False
    let ?g = "set_for base (ds @ [c])"
    have "x \<in> set ds \<Longrightarrow> stream_sequence_number x \<noteq> stream_sequence_number c" for x
      using False unfolding s_def by (metis imageI)
    then have v: "ordered_view base next ds @ [?g s] = map ?g (?ss @ [s])"
      by (simp add: ordered_view_def s_def set_for_other)
    have "sort_chunks_by_ssn (ordered_view base next ds @ [?g s]) = map ?g (sort_by sna16lt (?ss @ [s]))"
      unfolding v sort_chunks_by_ssn_def sort_by_map by simp
    also have "sort_by sna16lt (?ss @ [s]) = sort_key (ssn_dist next) (?ss @ [s])"
      using win by (rule sort_ssn_key)
    also have "\<dots> = sort_key (ssn_dist next) (ssns (ds @ [c]))"
      using False by (intro sort_key_mset_eq inj_ssn_dist) (simp add: ssns_snoc s_def)
    finally have "sort_chunks_by_ssn (ordered_view base next ds @ [?g s]) = ordered_view base next (ds @ [c])"
      by (simp add: ordered_view_def)
    moreover have "snd (chunk_set_push c (chunk_set_new s (payload_type c))) = ?g s"
      using False by (intro set_for_new) (simp_all add: s_def)
    moreover have "push_into_ordered c (ordered_view base next ds) = None"
      using upd False by (simp add: ordered_view_def s_def)
    ultimately show ?thesis
      by (cases "chunk_set_push c (chunk_set_new s (payload_type c))") (simp add: assms(2))
  qed
qed

lemma ordered_view_push:
  assumes "arrivals_ok base si next (ds @ [c])" and "rq_si q = si" and "next_ssn q = next"
    and "rq_ordered q = ordered_view base next ds"
  shows "snd (rq_push c q) = q\<lparr>rq_n_bytes := rq_n_bytes q + length (user_data c),
    rq_ordered := ordered_view base next (ds @ [c])\<rparr>"
proof -
  let ?s = "stream_sequence_number c"
  have c: "stream_identifier c = si" "\<not> unordered c" "ssn_dist next ?s < 2 ^ 15"
    using assms(1) by (auto simp: arrivals_ok_def)
  have "\<not> sna16lt ?s next" using sna16.lt_window [of ?s "next" "next"] c(3) by simp
  with ordered_view_insert [OF assms(1), of "q\<lparr>rq_n_bytes := rq_n_bytes q + length (user_data c)\<rparr>"] assms(2-4) c
  show ?thesis by (simp add: rq_push_def Let_def)
qed

text \<open>Ordered chunks that arrive one after the other at a queue without ordered sets.\<close>

definition rq_push_all :: "chunk_payload_data list \<Rightarrow> reassembly_queue \<Rightarrow> reassembly_queue" where
  "rq_push_all ds q = fold (\<lambda>c q. snd (rq_push c q)) ds q"

lemma rq_push_all_view:
  assumes "arrivals_ok base (rq_si q) (next_ssn q) ds" and "rq_ordered q = []"
  shows "rq_push_all ds q = q\<lparr>rq_n_bytes := rq_n_bytes q + payload_bytes ds,
    rq_ordered := ordered_view base (next_ssn q) ds\<rparr>"
  using assms(1)
proof (induction ds rule: rev_induct)
  case Nil
  then show ?case using assms(2) by (simp add: rq_push_all_def ordered_view_def ssns_def)
next
  case (snoc c ds)
  then have "arrivals_ok base (rq_si q) (next_ssn q) ds" by (auto simp: arrivals_ok_def)
  with snoc.IH have "rq_push_all (ds @ [c]) q = snd (rq_push c (q\<lparr>rq_n_bytes := rq_n_bytes q + payload_bytes ds,
    rq_ordered := ordered_view base (next_ssn q) ds\<rparr>))" by (simp add: rq_push_all_def)
  also have "\<dots> = q\<lparr>rq_n_bytes := rq_n_bytes q + payload_bytes (ds @ [c]),
    rq_ordered := ordered_view base (next_ssn q) (ds @ [c])\<rparr>"
    by (subst ordered_view_push [OF snoc.prems]) simp_all
  finally show ?case .
qed

lemma ordered_view_head:
  assumes "ordered_view base next ds = s # rest"
  shows "s = set_for base ds (cs_ssn s) \<and> cs_ssn s \<in> stream_sequence_number ` set ds \<and>
    (next \<in> stream_sequence_number ` set ds \<longrightarrow> cs_ssn s = next)"
proof -
  obtain x xs where x: "sort_key (ssn_dist next) (ssns ds) = x # xs" and s: "s = set_for base ds x"
    using assms by (auto simp: ordered_view_def)
  have "set (x # xs) = stream_sequence_number ` set ds" using x by (metis set_sort set_ssns)
  moreover have "sorted (map (ssn_dist next) (x # xs))" unfolding x [symmetric] by simp
  ultimately have "x \<in> stream_sequence_number ` set ds"
    and "\<forall>y \<in> stream_sequence_number ` set ds. ssn_dist next x \<le> ssn_dist next y" by auto
  moreover from this(2) have "next \<in> stream_sequence_number ` set ds \<Longrightarrow> x = next"
    by (force simp: unat_eq_zero)
  ultimately show ?thesis using s by (auto simp: set_for_def)
qed

lemma fragments_Nil: "fragments base ds s = [] \<longleftrightarrow> s \<notin> stream_sequence_number ` set ds"
  by (auto simp: fragments_def filter_empty_conv simp flip: set_empty)

text \<open>The message at the head of the stream, once all its fragments are there.\<close>

lemma ordered_readable:
  assumes "arrivals_ok base (rq_si q) (next_ssn q) ds" and "rq_ordered q = []" and "rq_unordered q = []"
  shows "is_readable (rq_push_all ds q) \<longleftrightarrow> chunks_complete (fragments base ds (next_ssn q))"
proof (cases "ordered_view base (next_ssn q) ds")
  case Nil
  then have "ds = []" by (auto simp: ordered_view_def ssns_def simp flip: set_empty)
  with assms show ?thesis
    by (simp add: rq_push_all_def is_readable_def fragments_def)
next
  case (Cons s rest)
  note h = ordered_view_head [OF Cons]
  have s: "sna16lte (cs_ssn s) (next_ssn q) \<longleftrightarrow> cs_ssn s = next_ssn q"
    using h assms(1) sna16.lt_window [of "cs_ssn s" "next_ssn q" "next_ssn q"]
    by (auto simp: sna16lte_def arrivals_ok_def)
  have "is_complete s \<longleftrightarrow> chunks_complete (fragments base ds (cs_ssn s))"
    using h by (metis chunk_set.select_convs(3) is_complete_def set_for_def)
  then show ?thesis
    using s h Cons assms(3) fragments_Nil [of base ds "next_ssn q"]
    unfolding rq_push_all_view [OF assms(1,2)] by (auto simp: is_readable_def)
qed

lemma ordered_read:
  assumes "arrivals_ok base (rq_si q) (next_ssn q) ds" and "rq_ordered q = []" and "rq_unordered q = []"
    and "chunks_complete (fragments base ds (next_ssn q))"
  defines "m \<equiv> message_data (fragments base ds (next_ssn q))"
  assumes "length m \<le> length buf"
  shows "\<exists>ppi q'. rq_read buf (rq_push_all ds q) = (Ok (length m, ppi), m @ drop (length m) buf, q') \<and>
    next_ssn q' = next_ssn q + 1 \<and> rq_n_bytes q' = rq_n_bytes q + payload_bytes ds - length m"
proof -
  have "next_ssn q \<in> stream_sequence_number ` set ds"
    using assms(4) fragments_Nil [of base ds "next_ssn q"] by (cases "fragments base ds (next_ssn q)") auto
  moreover from this obtain s rest where v: "ordered_view base (next_ssn q) ds = s # rest"
    by (cases "ordered_view base (next_ssn q) ds") (auto simp: ordered_view_def ssns_def simp flip: set_empty)
  ultimately have s: "s = set_for base ds (next_ssn q)" using ordered_view_head [OF v] by metis
  have "\<not> sna16gt (next_ssn q) (next_ssn q)" by (simp add: sna16gt_iff)
  then show ?thesis
    using assms(3,4,6) v unfolding rq_push_all_view [OF assms(1,2)]
    by (simp add: rq_read_def s set_for_def is_complete_def read_deliver_eq m_def Let_def)
qed

section \<open>Unordered delivery\<close>

text \<open>A run of fragments that makes one message: first and last flags exactly at its ends.\<close>

fun message_tail :: "u32 \<Rightarrow> chunk_payload_data list \<Rightarrow> bool" where
  "message_tail t [] \<longleftrightarrow> False"
| "message_tail t (c # cs) \<longleftrightarrow> \<not> beginning_fragment c \<and> tsn c = t + 1 \<and>
     (if cs = [] then ending_fragment c else \<not> ending_fragment c \<and> message_tail (tsn c) cs)"

fun forms_message :: "chunk_payload_data list \<Rightarrow> bool" where
  "forms_message [] \<longleftrightarrow> False"
| "forms_message (c # cs) \<longleftrightarrow> beginning_fragment c \<and>
     (if cs = [] then ending_fragment c else \<not> ending_fragment c \<and> message_tail (tsn c) cs)"

lemma message_tail_complete: "message_tail t cs \<Longrightarrow> ending_fragment (last cs) \<and> tsn_run t cs"
  by (induction t cs rule: message_tail.induct) (auto split: if_splits)

lemma forms_message_complete: "forms_message cs \<Longrightarrow> chunks_complete cs"
  by (cases cs) (auto dest: message_tail_complete split: if_splits)

lemma message_tail_snoc:
  "message_tail t (cs @ [c]) \<longleftrightarrow> \<not> beginning_fragment c \<and> ending_fragment c \<and> tsn_run t (cs @ [c]) \<and>
     (\<forall>d \<in> set cs. \<not> beginning_fragment d \<and> \<not> ending_fragment d)"
  by (induction cs arbitrary: t) auto

lemma tsn_run_snoc:
  "tsn_run t (cs @ [c]) \<longleftrightarrow> tsn_run t cs \<and> tsn c = (if cs = [] then t else tsn (last cs)) + 1"
  by (induction cs arbitrary: t) auto

text \<open>An unfinished message, as the scan tracks it.\<close>

fun open_run :: "chunk_payload_data list \<Rightarrow> bool" where
  "open_run [] \<longleftrightarrow> False"
| "open_run (b # r) \<longleftrightarrow> beginning_fragment b \<and> \<not> ending_fragment b \<and> tsn_run (tsn b) r \<and>
     (\<forall>d \<in> set r. \<not> beginning_fragment d \<and> \<not> ending_fragment d)"

lemma open_run_extend:
  assumes "open_run r" and "\<not> beginning_fragment c" and "tsn c = tsn (last r) + 1"
  shows "if ending_fragment c then forms_message (r @ [c]) else open_run (r @ [c])"
  using assms by (cases r) (auto simp: message_tail_snoc tsn_run_snoc)

lemma find_complete_loop_sound:
  assumes "find_complete_loop cs (length pre) start n last_tsn = Some (s, k)"
    and "0 \<le> start \<Longrightarrow> nat start + n = length pre \<and> open_run (drop (nat start) pre) \<and>
      tsn (last (drop (nat start) pre)) = last_tsn"
  shows "nat s + k \<le> length (pre @ cs) \<and> forms_message (take k (drop (nat s) (pre @ cs)))"
  using assms
proof (induction cs "length pre" start n last_tsn arbitrary: pre rule: find_complete_loop.induct)
  case (2 c cs start n last_tsn)
  have len: "length pre + 1 = length (pre @ [c])" by simp
  have app: "pre @ c # cs = (pre @ [c]) @ cs" by simp
  show ?case
  proof (cases "beginning_fragment c")
    case True
    show ?thesis
    proof (cases "ending_fragment c")
      case False
      then show ?thesis using "2.hyps"(1) [OF True False len] "2.prems"(1) True by simp
    qed (use "2.prems"(1) True in auto)
  next
    case nb: False
    show ?thesis
    proof (cases "start < 0 \<or> tsn c \<noteq> last_tsn + 1")
      case True
      show ?thesis
      proof (cases "start < 0")
        case True
        then show ?thesis using "2.hyps"(2) [OF nb True len] "2.prems"(1) nb by simp
      next
        case False
        with True show ?thesis using "2.hyps"(3) [OF nb False _ len] "2.prems"(1) nb by simp
      qed
    next
      case False
      let ?r = "drop (nat start) pre"
      have r: "nat start + n = length pre" "open_run ?r" "tsn c = tsn (last ?r) + 1"
        using False "2.prems"(2) by auto
      have d: "drop (nat start) (pre @ [c]) = ?r @ [c]" using r(1) by simp
      note ext = open_run_extend [OF r(2) nb r(3)]
      show ?thesis
      proof (cases "ending_fragment c")
        case True
        then have "s = start" "k = n + 1" using "2.prems"(1) nb False by auto
        moreover have "take (n + 1) (drop (nat start) (pre @ c # cs)) = ?r @ [c]"
          using r(1) by (simp add: take_Cons')
        ultimately show ?thesis using True ext r(1) by simp
      next
        case ne: False
        then show ?thesis
          using "2.hyps"(4) [OF nb _ _ ne len] False "2.prems"(1) nb ext r(1) d by simp
      qed
    qed
  qed
qed simp

lemma find_complete_sound:
  assumes "find_complete_unordered_chunk_set q = (Some s, q')"
  shows "forms_message (cs_chunks s) \<and> mset (unordered_chunks q) = mset (cs_chunks s) + mset (unordered_chunks q') \<and>
    q' = q\<lparr>unordered_chunks := unordered_chunks q'\<rparr>"
proof -
  obtain st k where f: "find_complete_loop (unordered_chunks q) 0 (- 1) 0 0 = Some (st, k)"
    and s: "cs_chunks s = take k (drop (nat st) (unordered_chunks q))"
    and q': "q' = q\<lparr>unordered_chunks := take (nat st) (unordered_chunks q) @ drop (nat st + k) (unordered_chunks q)\<rparr>"
    using assms by (auto simp: find_complete_unordered_chunk_set_def Let_def split: option.splits)
  have "forms_message (cs_chunks s)"
    using find_complete_loop_sound [of "unordered_chunks q" "[]" "- 1" 0 0 st k] f s by simp
  moreover have "unordered_chunks q = take (nat st) (unordered_chunks q) @ cs_chunks s @ drop (nat st + k) (unordered_chunks q)"
    unfolding s by (simp add: drop_drop add.commute) (metis append_take_drop_id drop_drop add.commute)
  then have "mset (unordered_chunks q) = mset (take (nat st) (unordered_chunks q)) + mset (cs_chunks s)
      + mset (drop (nat st + k) (unordered_chunks q))"
    by (metis mset_append add.assoc)
  ultimately show ?thesis by (simp add: q' union_ac)
qed

text \<open>The scan does not miss a message: it finds one in any list that has one.\<close>

lemma find_complete_loop_in_run:
  "message_tail last_tsn m \<Longrightarrow> 0 \<le> start \<Longrightarrow> find_complete_loop (m @ b) i start n last_tsn \<noteq> None"
proof (induction last_tsn m arbitrary: i n rule: message_tail.induct)
  case (2 t c cs)
  then show ?case by (cases "cs = []") auto
qed simp

lemma find_complete_loop_finds:
  "forms_message m \<Longrightarrow> find_complete_loop (a @ m @ b) i start n last_tsn \<noteq> None"
proof (induction a arbitrary: i start n last_tsn)
  case Nil
  then obtain c cs where m: "m = c # cs" by (cases m) auto
  with Nil show ?case
    using find_complete_loop_in_run [of "tsn c" cs "int i" b "Suc i" 1] by (auto split: if_splits)
qed auto

text \<open>One unordered chunk: either it completes a message, which is taken out, or it is only stored.\<close>

lemma rq_push_unordered:
  assumes "stream_identifier c = rq_si q" and "unordered c"
  shows "case rq_push c q of
    (True, q') \<Rightarrow> \<exists>s. rq_unordered q' = rq_unordered q @ [s] \<and> forms_message (cs_chunks s) \<and> cs_ppi s = payload_type (hd (cs_chunks s)) \<and>
      mset (unordered_chunks q) + {#c#} = mset (cs_chunks s) + mset (unordered_chunks q') \<and>
      q' = q\<lparr>rq_n_bytes := rq_n_bytes q + length (user_data c), unordered_chunks := unordered_chunks q', rq_unordered := rq_unordered q'\<rparr>
  | (False, q') \<Rightarrow> q' = q\<lparr>rq_n_bytes := rq_n_bytes q + length (user_data c), unordered_chunks := sort_chunks_by_tsn (unordered_chunks q @ [c])\<rparr> \<and>
      (\<nexists>a m b. unordered_chunks q' = a @ m @ b \<and> forms_message m)"
proof -
  let ?q = "q\<lparr>rq_n_bytes := rq_n_bytes q + length (user_data c),
    unordered_chunks := sort_chunks_by_tsn (unordered_chunks q @ [c])\<rparr>"
  have ms: "mset (unordered_chunks ?q) = mset (unordered_chunks q) + {#c#}" by (simp add: sort_chunks_by_tsn_def)
  show ?thesis
  proof (cases "find_complete_unordered_chunk_set ?q")
    case (Pair r q2)
    show ?thesis
    proof (cases r)
      case None
      then have "q2 = ?q" and "find_complete_loop (unordered_chunks ?q) 0 (- 1) 0 0 = None"
        using Pair by (auto simp: find_complete_unordered_chunk_set_def Let_def split: option.splits)
      moreover from this(2) have "\<nexists>a m b. unordered_chunks ?q = a @ m @ b \<and> forms_message m"
        by (metis find_complete_loop_finds)
      ultimately show ?thesis using None Pair assms by (simp add: rq_push_def Let_def)
    next
      case (Some s)
      with Pair have f: "find_complete_unordered_chunk_set ?q = (Some s, q2)" by simp
      from find_complete_sound [OF this] have *: "forms_message (cs_chunks s)"
        "mset (unordered_chunks ?q) = mset (cs_chunks s) + mset (unordered_chunks q2)"
        "q2 = ?q\<lparr>unordered_chunks := unordered_chunks q2\<rparr>" by auto
      have "cs_ppi s = payload_type (hd (cs_chunks s))"
        using f by (auto simp: find_complete_unordered_chunk_set_def chunk_set_new_def Let_def split: option.splits)
      moreover have "rq_unordered q2 = rq_unordered q" by (subst *(3)) simp
      moreover have "q2 = q\<lparr>rq_n_bytes := rq_n_bytes q + length (user_data c), unordered_chunks := unordered_chunks q2\<rparr>"
        by (subst *(3)) simp
      then have "q2\<lparr>rq_unordered := rq_unordered q @ [s]\<rparr> = q\<lparr>rq_n_bytes := rq_n_bytes q + length (user_data c),
          unordered_chunks := unordered_chunks q2, rq_unordered := rq_unordered q @ [s]\<rparr>"
        by (metis (no_types, lifting) reassembly_queue.surjective reassembly_queue.update_convs)
      ultimately show ?thesis using Some Pair assms *(1,2) ms by (simp add: rq_push_def Let_def)
    qed
  qed
qed

section \<open>Accounting\<close>

definition rq_stored :: "reassembly_queue \<Rightarrow> nat" where
  "rq_stored q = payload_bytes (unordered_chunks q) +
     (\<Sum>s\<leftarrow>rq_unordered q. payload_bytes (cs_chunks s)) + (\<Sum>s\<leftarrow>rq_ordered q. payload_bytes (cs_chunks s))"

text \<open>
  The byte counter covers what is stored (a refused duplicate may leave it higher), and the sets in
  the unordered list are complete, as a comment in \<^verbatim>\<open>is_readable\<close> promises.
\<close>

definition rq_inv :: "reassembly_queue \<Rightarrow> bool" where
  "rq_inv q \<longleftrightarrow> rq_stored q \<le> rq_n_bytes q \<and> (\<forall>s \<in> set (rq_unordered q). is_complete s)"

lemma payload_bytes_mset: "mset xs = mset ys \<Longrightarrow> payload_bytes xs = payload_bytes ys"
  by (metis mset_map payload_bytes_def sum_mset_sum_list)

lemma payload_bytes_sort [simp]: "payload_bytes (sort_chunks_by_tsn xs) = payload_bytes xs"
  by (rule payload_bytes_mset) (simp add: sort_chunks_by_tsn_def)

lemma chunk_set_push_bytes:
  "payload_bytes (cs_chunks (snd (chunk_set_push c s))) \<le> payload_bytes (cs_chunks s) + length (user_data c)"
  by (auto simp: chunk_set_push_def Let_def)

lemma push_into_ordered_bytes:
  "push_into_ordered c ss = Some (ok, ss') \<Longrightarrow>
   (\<Sum>s\<leftarrow>ss'. payload_bytes (cs_chunks s)) \<le> (\<Sum>s\<leftarrow>ss. payload_bytes (cs_chunks s)) + length (user_data c)"
proof (induction ss arbitrary: ss')
  case (Cons s ss)
  then show ?case
    using chunk_set_push_bytes [of c s] by (fastforce split: if_splits option.splits prod.splits)
qed simp

lemma sort_ssn_bytes [simp]:
  "(\<Sum>s\<leftarrow>sort_chunks_by_ssn ss. payload_bytes (cs_chunks s)) = (\<Sum>s\<leftarrow>ss. payload_bytes (cs_chunks s))"
  unfolding sort_chunks_by_ssn_def by (metis (no_types, lifting) mset_map mset_sort_by sum_mset_sum_list)

lemma rq_inv_push_unordered:
  fixes c :: chunk_payload_data
  assumes "rq_inv q"
  defines "q1 \<equiv> q\<lparr>rq_n_bytes := rq_n_bytes q + length (user_data c),
    unordered_chunks := sort_chunks_by_tsn (unordered_chunks q @ [c])\<rparr>"
  shows "rq_inv (snd (case find_complete_unordered_chunk_set q1 of
    (Some cset, q) \<Rightarrow> (True, q\<lparr>rq_unordered := rq_unordered q @ [cset]\<rparr>) | (None, q) \<Rightarrow> (False, q)))"
proof (cases "find_complete_unordered_chunk_set q1")
  case (Pair r q2)
  show ?thesis
  proof (cases r)
    case None
    then have "q2 = q1" using Pair
      by (auto simp: find_complete_unordered_chunk_set_def Let_def split: option.splits)
    with None Pair assms(1) show ?thesis by (simp add: rq_inv_def rq_stored_def q1_def)
  next
    case (Some s)
    with Pair have *: "forms_message (cs_chunks s)"
      "mset (unordered_chunks q1) = mset (cs_chunks s @ unordered_chunks q2)"
      "q2 = q1\<lparr>unordered_chunks := unordered_chunks q2\<rparr>"
      using find_complete_sound [of q1 s q2] by auto
    have "payload_bytes (unordered_chunks q1) = payload_bytes (cs_chunks s) + payload_bytes (unordered_chunks q2)"
      using payload_bytes_mset [OF *(2)] by simp
    moreover have "rq_unordered q2 = rq_unordered q" "rq_ordered q2 = rq_ordered q"
      "rq_n_bytes q2 = rq_n_bytes q + length (user_data c)"
      by (subst *(3), simp add: q1_def)+
    ultimately show ?thesis
      using Some Pair assms(1) forms_message_complete [OF *(1)]
      by (auto simp: rq_inv_def rq_stored_def q1_def is_complete_def)
  qed
qed

lemma rq_inv_push:
  assumes "rq_inv q" shows "rq_inv (snd (rq_push c q))"
proof (cases "stream_identifier c = rq_si q \<and> (unordered c \<or> \<not> sna16lt (stream_sequence_number c) (next_ssn q))")
  case True
  show ?thesis
  proof (cases "unordered c")
    case u: True
    with True show ?thesis using rq_inv_push_unordered [OF assms, of c] by (simp add: rq_push_def Let_def)
  next
    case False
    let ?q = "q\<lparr>rq_n_bytes := rq_n_bytes q + length (user_data c)\<rparr>"
    show ?thesis
    proof (cases "push_into_ordered c (rq_ordered q)")
      case None
      then show ?thesis
        using True False assms chunk_set_push_bytes [of c "chunk_set_new (stream_sequence_number c) (payload_type c)"]
        by (auto simp: rq_push_def Let_def rq_inv_def rq_stored_def chunk_set_new_def split: prod.splits)
    next
      case (Some r)
      then show ?thesis
        using True False assms push_into_ordered_bytes [of c "rq_ordered q"]
        by (cases r) (fastforce simp: rq_push_def Let_def rq_inv_def rq_stored_def)
    qed
  qed
qed (use assms in \<open>auto simp: rq_push_def\<close>)

lemma rq_inv_deliver:
  "rq_inv q \<Longrightarrow> rq_stored q' + length (message_data (cs_chunks s)) \<le> rq_stored q \<Longrightarrow>
   rq_n_bytes q' = rq_n_bytes q \<Longrightarrow> set (rq_unordered q') \<subseteq> set (rq_unordered q) \<Longrightarrow>
   rq_inv (snd (snd (read_deliver s buf q')))"
  by (auto simp: rq_inv_def read_deliver_eq Let_def rq_stored_def)

lemma rq_inv_read:
  assumes "rq_inv q" shows "rq_inv (snd (snd (rq_read buf q)))"
proof (cases "rq_unordered q")
  case (Cons s rest)
  then show ?thesis unfolding rq_read_def
    by simp (rule rq_inv_deliver [OF assms], auto simp: rq_stored_def length_message_data)
next
  case Nil
  show ?thesis
  proof (cases "rq_ordered q")
    case (Cons s rest)
    have "rq_inv (snd (snd (read_deliver s buf (q\<lparr>next_ssn := n, rq_ordered := rest\<rparr>))))" for n
      by (rule rq_inv_deliver [OF assms]) (use Cons in \<open>auto simp: rq_stored_def length_message_data\<close>)
    from this [of "next_ssn q"] this [of "next_ssn q + 1"] Cons Nil assms
    show ?thesis by (auto simp: rq_read_def Let_def)
  qed (use Nil assms in \<open>simp add: rq_read_def\<close>)
qed

lemma fold_subtract:
  "fold (\<lambda>c. subtract_num_bytes (length (user_data c))) cs q = q\<lparr>rq_n_bytes := rq_n_bytes q - payload_bytes cs\<rparr>"
  by (induction cs arbitrary: q) (simp_all add: subtract_num_bytes_eq)

lemma forward_tsn_for_unordered_eq:
  "forward_tsn_for_unordered new_cum q =
    q\<lparr>rq_n_bytes := rq_n_bytes q - payload_bytes (takeWhile (\<lambda>c. \<not> sna32gt (tsn c) new_cum) (unordered_chunks q)),
      unordered_chunks := dropWhile (\<lambda>c. \<not> sna32gt (tsn c) new_cum) (unordered_chunks q)\<rparr>"
  by (simp add: forward_tsn_for_unordered_def Let_def fold_subtract dropWhile_eq_drop)

lemma rq_inv_forward: "rq_inv q \<Longrightarrow> rq_inv (forward_tsn_for_unordered new_cum q)"
proof -
  assume inv: "rq_inv q"
  have "payload_bytes (unordered_chunks q) =
      payload_bytes (takeWhile (\<lambda>c. \<not> sna32gt (tsn c) new_cum) (unordered_chunks q)) +
      payload_bytes (dropWhile (\<lambda>c. \<not> sna32gt (tsn c) new_cum) (unordered_chunks q))"
    by (metis payload_bytes_simps(3) takeWhile_dropWhile_id)
  with inv show ?thesis by (auto simp: forward_tsn_for_unordered_eq rq_inv_def rq_stored_def)
qed

section \<open>Properties\<close>

text \<open>
  \<^verbatim>\<open>is_readable\<close> predicts \<^verbatim>\<open>read\<close>: a queue is readable exactly when a read does not answer
  \<^verbatim>\<open>ErrTryAgain\<close>, and a read of an unreadable queue leaves queue and buffer as they are.
\<close>

theorem readable_iff_read:
  "(is_readable q \<longleftrightarrow> fst (rq_read buf q) \<noteq> Err ErrTryAgain) \<and>
   (is_readable q \<or> rq_read buf q = (Err ErrTryAgain, buf, q))"
proof -
  have "fst (read_deliver s buf r) \<noteq> Err ErrTryAgain" for s r
    by (simp add: read_deliver_eq Let_def)
  then show ?thesis
    by (cases "rq_unordered q"; cases "rq_ordered q")
      (auto simp: is_readable_def rq_read_def sna16lte_not_gt Let_def)
qed

text \<open>
  C2. Ordered delivery: whatever the order in which the fragments of several messages of a stream
  arrive, the queue becomes readable exactly when the fragments received for the next expected stream
  sequence number, put in TSN order, form a complete message; reading then returns the concatenation
  of exactly these fragments and moves on to the next stream sequence number.
\<close>

theorem ordered_delivery:
  assumes "arrivals_ok base (rq_si q) (next_ssn q) ds" and "rq_ordered q = []" and "rq_unordered q = []"
    and "length (message_data (fragments base ds (next_ssn q))) \<le> length buf"
  shows "(is_readable (rq_push_all ds q) \<longleftrightarrow> chunks_complete (fragments base ds (next_ssn q))) \<and>
    (chunks_complete (fragments base ds (next_ssn q)) \<longrightarrow>
      (\<exists>ppi q'. rq_read buf (rq_push_all ds q) =
          (Ok (length (message_data (fragments base ds (next_ssn q))), ppi),
           message_data (fragments base ds (next_ssn q))
             @ drop (length (message_data (fragments base ds (next_ssn q)))) buf, q') \<and>
        next_ssn q' = next_ssn q + 1))"
  using ordered_readable [OF assms(1-3)] ordered_read [OF assms(1-3) _ assms(4)] by blast

text \<open>Two messages of two fragments each, arriving in the order 2b, 1b, 2a, 1a.\<close>

abbreviation example_fragment :: "u32 \<Rightarrow> u16 \<Rightarrow> bool \<Rightarrow> u8 \<Rightarrow> chunk_payload_data" where
  "example_fragment t s first b \<equiv> (chunk_payload_data_default 0)\<lparr>tsn := t, stream_sequence_number := s,
     beginning_fragment := first, ending_fragment := \<not> first, user_data := [b]\<rparr>"

theorem ordered_delivery_witness:
  "\<exists>ppi q'. rq_read [0, 0, 0] (rq_push_all [example_fragment 4 1 False 44, example_fragment 2 0 False 22,
      example_fragment 3 1 True 33, example_fragment 1 0 True 11] (reassembly_queue_new 0))
    = (Ok (length [11 :: u8, 22], ppi), [11, 22, 0], q') \<and> next_ssn q' = 1"
proof -
  let ?ds = "[example_fragment 4 1 False 44, example_fragment 2 0 False 22,
      example_fragment 3 1 True 33, example_fragment 1 0 True 11]"
  have "arrivals_ok 0 (rq_si (reassembly_queue_new 0)) (next_ssn (reassembly_queue_new 0)) ?ds"
    by (simp add: arrivals_ok_def reassembly_queue_new_def chunk_payload_data_default_def)
  moreover have m: "message_data (fragments 0 ?ds 0) = [11, 22]" "chunks_complete (fragments 0 ?ds 0)"
    by (simp_all add: fragments_def message_data_def)
  moreover have n: "next_ssn (reassembly_queue_new 0) = 0" by (simp add: reassembly_queue_new_def)
  ultimately have "\<exists>ppi q'. rq_read [0, 0, 0] (rq_push_all ?ds (reassembly_queue_new 0))
      = (Ok (length [11 :: u8, 22], ppi), [11, 22] @ drop (length [11 :: u8, 22]) [0, 0, 0], q') \<and> next_ssn q' = 0 + 1"
    using ordered_delivery [of 0 "reassembly_queue_new 0" ?ds "[0, 0, 0]", unfolded n m(1)]
    by (simp add: reassembly_queue_new_def)
  then show ?thesis by simp
qed



text \<open>
  C7. Every operation of the reassembly queue keeps its invariant: the byte counter, which the
  receive window is computed from, never falls below the bytes actually stored, and all chunk sets in
  the unordered list are complete.
\<close>

theorem rq_inv_preserved:
  assumes "rq_inv q"
  shows "rq_inv (snd (rq_push c q)) \<and> rq_inv (snd (snd (rq_read buf q))) \<and>
    rq_inv (forward_tsn_for_unordered new_cum q)"
  using assms by (simp add: rq_inv_push rq_inv_read rq_inv_forward)

theorem rq_inv_preserved_witness:
  "rq_inv (snd (rq_push (chunk_payload_data_default 0) (reassembly_queue_new 0)))"
proof -
  have "rq_inv (reassembly_queue_new 0)" by code_simp
  then show ?thesis using rq_inv_preserved by blast
qed

end
