(* ===== verification/Sctp_Stream.thy ===== *)
theory Sctp_Stream
  imports Sctp_Reassembly_Queue
begin

text \<open>
  \<^verbatim>\<open>sctp/stream/mod.rs\<close>: fragmentation of outgoing messages, the reading side over the reassembly
  queue, closing, the buffered-amount bookkeeping, and the \<^verbatim>\<open>PollStream\<close> adapter. What a stream shares
  with its association through \<^verbatim>\<open>Arc\<close>s is the record \<open>shared\<close>; \<^verbatim>\<open>read_notifier\<close> is the three-valued state
  of a \<^verbatim>\<open>Notify\<close> with one reader, and the reader is a small state machine, so that its interleaving
  with \<^verbatim>\<open>handle_data\<close> and \<^verbatim>\<open>close\<close> can be stated.
\<close>

section \<open>State of the association (\<^verbatim>\<open>association/mod.rs\<close>)\<close>

datatype association_state =
  Closed | CookieWait | CookieEchoed | Established | ShutdownAckSent | ShutdownPending
  | ShutdownReceived | ShutdownSent

fun association_state_as_u8 :: "association_state \<Rightarrow> u8" where
  "association_state_as_u8 Closed = 0"
| "association_state_as_u8 CookieWait = 1"
| "association_state_as_u8 CookieEchoed = 2"
| "association_state_as_u8 Established = 3"
| "association_state_as_u8 ShutdownAckSent = 4"
| "association_state_as_u8 ShutdownPending = 5"
| "association_state_as_u8 ShutdownReceived = 6"
| "association_state_as_u8 ShutdownSent = 7"

definition association_state_from :: "u8 \<Rightarrow> association_state" where
  "association_state_from v =
     (if v = 1 then CookieWait else if v = 2 then CookieEchoed else if v = 3 then Established
      else if v = 4 then ShutdownAckSent else if v = 5 then ShutdownPending
      else if v = 6 then ShutdownReceived else if v = 7 then ShutdownSent else Closed)"

lemma association_state_from_as [simp]: "association_state_from (association_state_as_u8 s) = s"
  by (cases s) (simp_all add: association_state_from_def)

text \<open>
  The shared cells: the largest message, the state byte, the pending queue, the capacity-one channel
  that wakes the write loop, and the heap of \<^verbatim>\<open>Arc<AtomicBool>\<close> flags with its next free reference.
\<close>

record shared =
  max_message_size :: u32
  state_cell :: u8
  pending :: pending_queue
  awake :: bool
  flags :: flag_heap
  next_flag :: flag_ref

record stream =
  max_payload_size :: u32
  st_identifier :: u16
  reassembly :: reassembly_queue
  sequence_number :: u16
  read_notifier :: notify
  st_closed :: bool
  buffered_amount :: nat
  buffered_amount_low :: nat
  low_handler :: bool

section \<open>Operations\<close>

definition stream_new :: "u16 \<Rightarrow> u32 \<Rightarrow> stream" where
  "stream_new si mps =
     \<lparr>max_payload_size = mps, st_identifier = si, reassembly = reassembly_queue_new si,
      sequence_number = 0, read_notifier = N_Empty, st_closed = False, buffered_amount = 0,
      buffered_amount_low = 0, low_handler = False\<rparr>"

definition stream_handle_data :: "chunk_payload_data \<Rightarrow> stream \<Rightarrow> stream" where
  "stream_handle_data pd s =
     (case rq_push pd (reassembly s) of (ok, q) \<Rightarrow>
        let s = s\<lparr>reassembly := q\<rparr>; readable = (ok \<and> is_readable q) in
        if readable then s\<lparr>read_notifier := notify_one (read_notifier s)\<rparr> else s)"

definition handle_forward_tsn_for_unordered :: "u32 \<Rightarrow> stream \<Rightarrow> stream" where
  "handle_forward_tsn_for_unordered new_cum s =
     (let s = s\<lparr>reassembly := forward_tsn_for_unordered new_cum (reassembly s)\<rparr> in
      if is_readable (reassembly s) then s\<lparr>read_notifier := notify_one (read_notifier s)\<rparr> else s)"

text \<open>
  The fragmentation loop over \<open>i\<close> and \<open>remaining\<close>. It does not end when \<^verbatim>\<open>max_payload_size\<close> is zero, so
  it is a partial function. \<open>now\<close> is the clock reading of \<^verbatim>\<open>ChunkPayloadData::default\<close>.
\<close>

partial_function (option) packetize_loop ::
  "nat \<Rightarrow> stream \<Rightarrow> bytes \<Rightarrow> payload_protocol_identifier \<Rightarrow> bool \<Rightarrow> flag_ref \<Rightarrow> nat \<Rightarrow> nat \<Rightarrow>
   chunk_payload_data list option" where
  "packetize_loop now s raw ppi unord r i remaining =
     (if remaining \<noteq> 0 then
        let fragment_size = min (unat (max_payload_size s)) remaining;
            chunk = (chunk_payload_data_default now)\<lparr>stream_identifier := st_identifier s,
              user_data := take fragment_size (drop i raw), unordered := unord,
              beginning_fragment := (i = 0), ending_fragment := (remaining - fragment_size = 0),
              immediate_sack := False, payload_type := ppi,
              stream_sequence_number := sequence_number s, abandoned := r, all_inflight := r + 1\<rparr>
        in Option.bind (packetize_loop now s raw ppi unord r (i + fragment_size) (remaining - fragment_size))
             (\<lambda>chunks. Some (chunk # chunks))
      else Some [])"

definition packetize :: "nat \<Rightarrow> bytes \<Rightarrow> payload_protocol_identifier \<Rightarrow> shared \<times> stream \<Rightarrow>
    (chunk_payload_data list \<times> shared \<times> stream) option" where
  "packetize now raw ppi = (\<lambda>(sh, s).
     let unord = (ppi \<noteq> Dcep);
         r = next_flag sh;
         sh = sh\<lparr>flags := hm_insert (r + 1) False (hm_insert r False (flags sh)), next_flag := r + 2\<rparr>
     in Option.bind (packetize_loop now s raw ppi unord r 0 (length raw)) (\<lambda>chunks.
          let s = (if \<not> unord then s\<lparr>sequence_number := sequence_number s + 1\<rparr> else s);
              s = s\<lparr>buffered_amount := buffered_amount s + length raw\<rparr>
          in Some (chunks, sh, s)))"

definition get_state :: "shared \<Rightarrow> association_state" where
  "get_state sh = association_state_from (state_cell sh)"

definition awake_write_loop :: "shared \<Rightarrow> shared" where
  "awake_write_loop sh = sh\<lparr>awake := True\<rparr>"

definition send_payload_data :: "chunk_payload_data list \<Rightarrow> shared \<Rightarrow> unit result \<times> shared" where
  "send_payload_data cs sh =
     (if get_state sh \<noteq> Established then (Err ErrPayloadDataStateNotExist, sh)
      else (Ok (), awake_write_loop (sh\<lparr>pending := fold pend_push cs (pending sh)\<rparr>)))"

definition write_sctp :: "nat \<Rightarrow> bytes \<Rightarrow> payload_protocol_identifier \<Rightarrow> shared \<times> stream \<Rightarrow>
    (nat result \<times> shared \<times> stream) option" where
  "write_sctp now p ppi = (\<lambda>(sh, s).
     if length p > unat (max_message_size sh) then Some (Err ErrOutboundPacketTooLarge, sh, s)
     else if get_state sh \<in> {ShutdownSent, ShutdownAckSent, ShutdownPending, ShutdownReceived}
     then Some (Err ErrStreamClosed, sh, s)
     else Option.bind (packetize now p ppi (sh, s)) (\<lambda>(chunks, sh, s).
       case send_payload_data chunks sh of
         (r, sh) \<Rightarrow> Some (obind r (\<lambda>_. Ok (length p)), sh, s)))"

definition stream_write :: "nat \<Rightarrow> bytes \<Rightarrow> shared \<times> stream \<Rightarrow> (nat result \<times> shared \<times> stream) option" where
  "stream_write now p = write_sctp now p Binary"

definition send_reset_request :: "nat \<Rightarrow> u16 \<Rightarrow> shared \<Rightarrow> unit result \<times> shared" where
  "send_reset_request now si sh =
     (if get_state sh \<noteq> Established then (Err ErrResetPacketInStateNotExist, sh)
      else
        let c = (chunk_payload_data_default now)\<lparr>stream_identifier := si, beginning_fragment := True,
                  ending_fragment := True, user_data := []\<rparr>
        in (Ok (), awake_write_loop (sh\<lparr>pending := pend_push c (pending sh)\<rparr>)))"

definition stream_close :: "nat \<Rightarrow> shared \<times> stream \<Rightarrow> unit result \<times> shared \<times> stream" where
  "stream_close now = (\<lambda>(sh, s).
     let (r, sh) = (if \<not> st_closed s then send_reset_request now (st_identifier s) sh else (Ok (), sh))
     in case r of
          Ok _ \<Rightarrow> (Ok (), sh, s\<lparr>st_closed := True, read_notifier := notify_waiters (read_notifier s)\<rparr>)
        | _ \<Rightarrow> (r, sh, s))"

definition set_buffered_amount_low_threshold :: "nat \<Rightarrow> stream \<Rightarrow> stream" where
  "set_buffered_amount_low_threshold th s = s\<lparr>buffered_amount_low := th\<rparr>"

definition set_on_buffered_amount_low :: "stream \<Rightarrow> stream" where
  "set_on_buffered_amount_low s = s\<lparr>low_handler := True\<rparr>"

text \<open>The first component says whether the registered callback is called.\<close>

definition on_buffer_released :: "int \<Rightarrow> stream \<Rightarrow> bool \<times> stream" where
  "on_buffer_released n s =
     (if n \<le> 0 then (False, s)
      else
        let from_amount = buffered_amount s;
            new_amount = (if from_amount < nat n then 0 else from_amount - nat n);
            s = s\<lparr>buffered_amount := new_amount\<rparr>
        in (from_amount > buffered_amount_low s \<and> new_amount \<le> buffered_amount_low s \<and> low_handler s, s))"

definition get_num_bytes_in_reassembly_queue :: "stream \<Rightarrow> nat" where
  "get_num_bytes_in_reassembly_queue s = rq_n_bytes (reassembly s)"

section \<open>The reader\<close>

text \<open>
  \<^verbatim>\<open>read_sctp\<close> as a state machine of the one reading task: test \<^verbatim>\<open>closed\<close>, read under the lock, then
  \<^verbatim>\<open>read_notifier.notified().await\<close>, which takes a stored notification or waits for one. A step is
  \<open>None\<close> when the task is blocked or done.
\<close>

datatype reader = R_Check | R_Read | R_Await | R_Waiting | R_Done "(nat \<times> payload_protocol_identifier) result"

fun read_sctp_step :: "stream \<times> bytes \<times> reader \<Rightarrow> (stream \<times> bytes \<times> reader) option" where
  "read_sctp_step (s, p, R_Check) =
     Some (s, p, if st_closed s then R_Done (Err ErrStreamClosed) else R_Read)"
| "read_sctp_step (s, p, R_Read) =
     (case rq_read p (reassembly s) of (result, p, q) \<Rightarrow>
        let s = s\<lparr>reassembly := q\<rparr> in
        (case result of
           Ok r \<Rightarrow> Some (s, p, R_Done (Ok r))
         | Err e \<Rightarrow> if e = ErrShortBuffer then Some (s, p, R_Done (Err e)) else Some (s, p, R_Await)
         | Panic \<Rightarrow> Some (s, p, R_Done Panic)))"
| "read_sctp_step (s, p, R_Await) =
     (if read_notifier s = N_Notified then Some (s\<lparr>read_notifier := N_Empty\<rparr>, p, R_Check)
      else Some (s\<lparr>read_notifier := N_Waiting\<rparr>, p, R_Waiting))"
| "read_sctp_step (s, p, R_Waiting) =
     (if read_notifier s = N_Notified then Some (s\<lparr>read_notifier := N_Empty\<rparr>, p, R_Check) else None)"
| "read_sctp_step (s, p, R_Done r) = None"

text \<open>What can happen to a stream while a task reads from it.\<close>

inductive stream_step :: "shared \<times> stream \<times> bytes \<times> reader \<Rightarrow> shared \<times> stream \<times> bytes \<times> reader \<Rightarrow> bool"
  where
  step_reader: "read_sctp_step (s, p, rd) = Some (s', p', rd') \<Longrightarrow> stream_step (sh, s, p, rd) (sh, s', p', rd')"
| step_data: "stream_step (sh, s, p, rd) (sh, stream_handle_data pd s, p, rd)"
| step_forward: "stream_step (sh, s, p, rd) (sh, handle_forward_tsn_for_unordered t s, p, rd)"
| step_close: "stream_close now (sh, s) = (r, sh', s') \<Longrightarrow> stream_step (sh, s, p, rd) (sh', s', p, rd)"

section \<open>\<^verbatim>\<open>PollStream\<close>\<close>

datatype 'a poll = Pending | Ready 'a

text \<open>\<open>RF_Reading\<close> is a future in progress; what polling it returns is the argument \<open>inner\<close>.\<close>

datatype read_fut = RF_Idle | RF_Reading | RF_RemainingData bytes

definition DEFAULT_READ_BUF_SIZE :: nat where
  "DEFAULT_READ_BUF_SIZE = 4096"

text \<open>Giving out data: what fits is put into the caller's buffer, the rest is kept.\<close>

definition poll_put :: "bytes \<Rightarrow> nat \<Rightarrow> unit result poll \<times> bytes \<times> read_fut" where
  "poll_put data remaining =
     (let len = min (length data) remaining in
      (Ready (Ok ()), take len data,
       if length data > remaining then RF_RemainingData (drop len data) else RF_Idle))"

text \<open>
  \<open>poll_read inner remaining fut\<close>: the answer, the bytes put into the caller's buffer and the new
  state. A future that has returned must not be polled again, so the retry after \<^verbatim>\<open>ErrTryAgain\<close> panics.
\<close>

definition poll_read :: "bytes result poll \<Rightarrow> nat \<Rightarrow> read_fut \<Rightarrow> unit result poll \<times> bytes \<times> read_fut" where
  "poll_read inner remaining fut =
     (if remaining = 0 then (Ready (Ok ()), [], fut)
      else case fut of
        RF_RemainingData data \<Rightarrow> poll_put data remaining
      | _ \<Rightarrow>
          (case inner of
             Pending \<Rightarrow> (Pending, [], RF_Reading)
           | Ready (Err e) \<Rightarrow>
               if e = ErrTryAgain then (Ready Panic, [], RF_Reading)
               else if e = ErrEof then (Ready (Ok ()), [], RF_Idle)
               else (Ready (Err e), [], RF_Idle)
           | Ready Panic \<Rightarrow> (Ready Panic, [], RF_Reading)
           | Ready (Ok temp_buf) \<Rightarrow> poll_put temp_buf remaining))"

text \<open>\<open>fut\<close> says whether a write is in progress; \<open>inner\<close> is what polling it returns.\<close>

definition poll_write :: "nat result poll \<Rightarrow> nat \<Rightarrow> bool \<Rightarrow> nat result poll \<times> bool" where
  "poll_write inner buf_len fut =
     (let fut_is_new = (\<not> fut) in
      case inner of
        Pending \<Rightarrow> if fut_is_new then (Ready (Ok buf_len), True) else (Pending, True)
      | Ready r \<Rightarrow> (Ready r, False))"

definition poll_flush :: "nat result poll \<Rightarrow> bool \<Rightarrow> unit result poll \<times> bool" where
  "poll_flush inner fut =
     (if fut then
        (case inner of
           Pending \<Rightarrow> (Pending, True)
         | Ready r \<Rightarrow> (Ready (obind r (\<lambda>_. Ok ())), False))
      else (Ready (Ok ()), False))"

definition poll_shutdown :: "unit result poll \<Rightarrow> unit result poll" where
  "poll_shutdown inner = inner"

section \<open>Fragmentation\<close>

lemma packetize_loop_stop: "packetize_loop now s raw ppi unord r i 0 = Some []"
  by (subst packetize_loop.simps) simp

text \<open>The fragments written down: consecutive slices of the message of at most the payload size.\<close>

lemma packetize_loop_spec:
  assumes "0 < max_payload_size s" and "i + remaining = length raw" and "0 < remaining"
  shows "\<exists>cs. packetize_loop now s raw ppi unord r i remaining = Some cs \<and> cs \<noteq> [] \<and>
    message_data cs = drop i raw \<and> framed (i \<noteq> 0) cs \<and> \<not> left_open (i \<noteq> 0) cs \<and>
    (\<forall>c \<in> set (tl cs). \<not> beginning_fragment c) \<and> (\<forall>c \<in> set (butlast cs). \<not> ending_fragment c) \<and>
    ending_fragment (last cs) \<and>
    (\<forall>c \<in> set cs. user_data c \<noteq> [] \<and> length (user_data c) \<le> unat (max_payload_size s) \<and>
      stream_identifier c = st_identifier s \<and> unordered c = unord \<and> payload_type c = ppi \<and>
      stream_sequence_number c = sequence_number s \<and> abandoned c = r \<and> all_inflight c = r + 1)"
  using assms(2,3)
proof (induction remaining arbitrary: i rule: less_induct)
  case (less remaining)
  define f where "f = min (unat (max_payload_size s)) remaining"
  have f: "0 < f" "f \<le> remaining" "f \<le> unat (max_payload_size s)"
    using assms(1) less.prems by (auto simp: f_def unat_gt_0)
  let ?c = "(chunk_payload_data_default now)\<lparr>stream_identifier := st_identifier s,
      user_data := take f (drop i raw), unordered := unord, beginning_fragment := (i = 0),
      ending_fragment := (remaining - f = 0), immediate_sack := False, payload_type := ppi,
      stream_sequence_number := sequence_number s, abandoned := r, all_inflight := r + 1\<rparr>"
  have step: "packetize_loop now s raw ppi unord r i remaining =
      Option.bind (packetize_loop now s raw ppi unord r (i + f) (remaining - f)) (\<lambda>cs. Some (?c # cs))"
    using less.prems by (subst packetize_loop.simps) (simp add: f_def Let_def)
  have len: "length (take f (drop i raw)) = f" using less.prems f by simp
  show ?case
  proof (cases "remaining = f")
    case True
    then have "packetize_loop now s raw ppi unord r i remaining = Some [?c]"
      using step by (simp add: packetize_loop_stop)
    moreover have "take f (drop i raw) = drop i raw" using less.prems(1) True by simp
    ultimately show ?thesis using True f len by (auto simp: message_data_def)
  next
    case False
    with f less.prems have "i + f + (remaining - f) = length raw" "0 < remaining - f" "remaining - f < remaining"
      by auto
    from less.IH [OF this(3,1,2)] obtain cs where
      cs: "packetize_loop now s raw ppi unord r (i + f) (remaining - f) = Some cs" "cs \<noteq> []"
        "message_data cs = drop (i + f) raw" "framed True cs" "\<not> left_open True cs"
        "\<forall>c \<in> set (tl cs). \<not> beginning_fragment c" "\<forall>c \<in> set (butlast cs). \<not> ending_fragment c"
        "ending_fragment (last cs)"
        "\<forall>c \<in> set cs. user_data c \<noteq> [] \<and> length (user_data c) \<le> unat (max_payload_size s) \<and>
          stream_identifier c = st_identifier s \<and> unordered c = unord \<and> payload_type c = ppi \<and>
          stream_sequence_number c = sequence_number s \<and> abandoned c = r \<and> all_inflight c = r + 1"
      using f(1) by auto
    have "\<not> beginning_fragment (hd cs)" using cs(2,4) by (cases cs) auto
    then have nb: "\<forall>c \<in> set cs. \<not> beginning_fragment c" using cs(2,6) by (cases cs) auto
    have md: "message_data (?c # cs) = drop i raw"
      using cs(3) by (simp add: message_data_def) (metis add.commute append_take_drop_id drop_drop)
    have "packetize_loop now s raw ppi unord r i remaining = Some (?c # cs)" using step cs(1) by simp
    then show ?thesis using cs nb md f False len by (auto simp: less_imp_le)
  qed
qed

lemma fold_pend_push_inv:
  assumes "pend_inv q" and "framed opn cs" and "\<forall>c \<in> set cs. unordered c = u"
    and "opn = (if u then left_open (selected q \<and> unordered_is_selected q) (unordered_queue q)
      else left_open (selected q \<and> \<not> unordered_is_selected q) (ordered_queue q))"
  shows "pend_inv (fold pend_push cs q)"
  using assms
proof (induction cs arbitrary: q opn)
  case (Cons c cs)
  have "pend_inv (pend_push c q)"
    by (rule pend_inv_push) (use Cons.prems in \<open>auto split: if_splits\<close>)
  moreover have "(\<not> ending_fragment c) = (if u
      then left_open (selected (pend_push c q) \<and> unordered_is_selected (pend_push c q)) (unordered_queue (pend_push c q))
      else left_open (selected (pend_push c q) \<and> \<not> unordered_is_selected (pend_push c q)) (ordered_queue (pend_push c q)))"
    using Cons.prems by (auto simp: pend_push_def Let_def left_open_append)
  ultimately show ?case
    using Cons.IH [of "pend_push c q" "\<not> ending_fragment c"] Cons.prems by simp
qed simp

lemma fold_pend_push_queues:
  "\<forall>c \<in> set cs. unordered c = u \<Longrightarrow>
   unordered_queue (fold pend_push cs q) = unordered_queue q @ (if u then cs else []) \<and>
   ordered_queue (fold pend_push cs q) = ordered_queue q @ (if u then [] else cs) \<and>
   selected (fold pend_push cs q) = selected q \<and>
   unordered_is_selected (fold pend_push cs q) = unordered_is_selected q"
  by (induction cs arbitrary: q) (auto simp: pend_push_def Let_def)

text \<open>Queueing a whole message keeps the invariant of the pending queue and leaves no message open.\<close>

lemma pend_push_message:
  assumes "pend_inv q" and "pend_complete q" and "framed False cs" and "\<not> left_open False cs"
    and "\<forall>c \<in> set cs. unordered c = u"
  shows "pend_inv (fold pend_push cs q) \<and> pend_complete (fold pend_push cs q)"
proof
  show "pend_inv (fold pend_push cs q)"
    by (rule fold_pend_push_inv [OF assms(1,3,5)]) (use assms(2) in \<open>simp add: pend_complete_def\<close>)
  show "pend_complete (fold pend_push cs q)"
    using assms fold_pend_push_queues [OF assms(5), of q]
    by (auto simp: pend_complete_def left_open_append)
qed

text \<open>What a write needs to know of fragmentation.\<close>

lemma packetize_message:
  assumes "0 < max_payload_size s" and "raw \<noteq> []"
  obtains cs sh' s' where "packetize now raw ppi (sh, s) = Some (cs, sh', s')" and "message_data cs = raw"
    and "framed False cs" and "\<not> left_open False cs" and "\<forall>c \<in> set cs. unordered c = (ppi \<noteq> Dcep)"
    and "buffered_amount s' = buffered_amount s + length raw" and "pending sh' = pending sh"
    and "get_state sh' = get_state sh"
  using packetize_loop_spec [OF assms(1), of 0 "length raw" raw now ppi "ppi \<noteq> Dcep" "next_flag sh"] assms(2)
  by (auto simp: packetize_def Let_def get_state_def)

section \<open>Properties\<close>

text \<open>
  C4. Fragmentation: with a positive payload size the loop ends, the fragments concatenate to the
  message, none is empty or longer than the payload size, exactly the first is marked as beginning
  and exactly the last as ending, and they share the stream's identifier, the stream sequence number
  and the flags of the message; the sequence number advances only for ordered (DCEP) messages.
\<close>

theorem packetize_correct:
  assumes "0 < max_payload_size s" and "raw \<noteq> []"
  shows "\<exists>cs sh' s'. packetize now raw ppi (sh, s) = Some (cs, sh', s') \<and> message_data cs = raw \<and>
    framed False cs \<and> \<not> left_open False cs \<and> ending_fragment (last cs) \<and>
    (\<forall>c \<in> set (butlast cs). \<not> ending_fragment c) \<and> (\<forall>c \<in> set (tl cs). \<not> beginning_fragment c) \<and>
    (\<forall>c \<in> set cs. user_data c \<noteq> [] \<and> length (user_data c) \<le> unat (max_payload_size s) \<and>
      stream_identifier c = st_identifier s \<and> unordered c = (ppi \<noteq> Dcep) \<and> payload_type c = ppi \<and>
      stream_sequence_number c = sequence_number s \<and> abandoned c = next_flag sh \<and>
      all_inflight c = next_flag sh + 1) \<and>
    sequence_number s' = sequence_number s + (if ppi = Dcep then 1 else 0) \<and>
    buffered_amount s' = buffered_amount s + length raw"
  using packetize_loop_spec [OF assms(1), of 0 "length raw" raw now ppi "ppi \<noteq> Dcep" "next_flag sh"] assms(2)
  by (auto simp: packetize_def Let_def)

theorem packetize_correct_witness:
  "\<exists>cs sh' s'. packetize 0 [1, 2, 3, 4, 5] Binary
      (\<lparr>max_message_size = 100, state_cell = 3, pending = pending_queue_new, awake = False, flags = [], next_flag = 1\<rparr>,
       stream_new 7 2) = Some (cs, sh', s') \<and> message_data cs = [1, 2, 3, 4, 5] \<and> buffered_amount s' = 5"
proof -
  have "0 < max_payload_size (stream_new 7 2)" by (simp add: stream_new_def)
  from packetize_correct [OF this, of "[1, 2, 3, 4, 5]" 0 Binary "\<lparr>max_message_size = 100, state_cell = 3,
      pending = pending_queue_new, awake = False, flags = [], next_flag = 1\<rparr>"]
  show ?thesis by (auto simp: stream_new_def)
qed

text \<open>
  Writing: the outcome of a write in every state of the association. A message longer than the
  limit and a write during shutdown are refused without effect. In the other states the message is
  fragmented; it is queued exactly when the association is established, and then the pending queue
  keeps its invariant with the message complete in it and the write loop is woken.
\<close>

theorem write_sctp_outcome:
  assumes "0 < max_payload_size s" and "p \<noteq> []" and "pend_inv (pending sh)" and "pend_complete (pending sh)"
  shows "\<exists>r sh' s'. write_sctp now p ppi (sh, s) = Some (r, sh', s') \<and>
    (if length p > unat (max_message_size sh) then r = Err ErrOutboundPacketTooLarge \<and> sh' = sh \<and> s' = s
     else if get_state sh \<in> {ShutdownSent, ShutdownAckSent, ShutdownPending, ShutdownReceived}
     then r = Err ErrStreamClosed \<and> sh' = sh \<and> s' = s
     else if get_state sh = Established
     then r = Ok (length p) \<and> awake sh' \<and> pend_inv (pending sh') \<and> pend_complete (pending sh') \<and>
       pend_n_bytes (pending sh') = pend_n_bytes (pending sh) + length p
     else r = Err ErrPayloadDataStateNotExist \<and> pending sh' = pending sh \<and>
       buffered_amount s' = buffered_amount s + length p)"
proof -
  obtain cs sh1 s1 where pk: "packetize now p ppi (sh, s) = Some (cs, sh1, s1)"
    and m: "message_data cs = p" "framed False cs" "\<not> left_open False cs"
    and u: "\<forall>c \<in> set cs. unordered c = (ppi \<noteq> Dcep)"
    and b: "buffered_amount s1 = buffered_amount s + length p"
    and sh1: "pending sh1 = pending sh" "get_state sh1 = get_state sh"
    using packetize_message [OF assms(1,2), of now ppi sh] by metis
  have bytes: "pend_n_bytes (fold pend_push cs q) = pend_n_bytes q + payload_bytes cs" for q
    by (induction cs arbitrary: q) (simp_all add: pend_push_def Let_def)
  show ?thesis
    using pk sh1 b pend_push_message [OF assms(3,4) m(2,3) u] bytes [of "pending sh"] m(1) length_message_data [of cs]
    by (auto simp: write_sctp_def send_payload_data_def awake_write_loop_def)
qed

theorem write_sctp_outcome_witness:
  "\<exists>r sh' s'. write_sctp 0 [1, 2, 3] Binary
      (\<lparr>max_message_size = 100, state_cell = 3, pending = pending_queue_new, awake = False, flags = [], next_flag = 1\<rparr>,
       stream_new 7 2) = Some (r, sh', s') \<and> r = Ok 3 \<and> awake sh'"
proof -
  let ?sh = "\<lparr>max_message_size = 100, state_cell = 3, pending = pending_queue_new, awake = False, flags = [], next_flag = 1\<rparr>"
  have "0 < max_payload_size (stream_new 7 2)" by (simp add: stream_new_def)
  moreover have "get_state ?sh = Established" by (simp add: get_state_def association_state_from_def)
  ultimately show ?thesis
    using write_sctp_outcome [of "stream_new 7 2" "[1, 2, 3]" ?sh 0 Binary] pend_inv_new pend_complete_new
    by (auto simp: numeral_3_eq_3)
qed

text \<open>
  Closing a stream does not stop later writes: the outcome of a write does not depend on the
  \<^verbatim>\<open>closed\<close> flag, so a message written after a successful close is queued behind the reset request,
  although the documentation of \<^verbatim>\<open>close\<close> says such writes are not permitted.
\<close>

theorem write_after_close:
  assumes "get_state sh = Established"
  shows "case stream_close now (sh, s) of (r, sh', s') \<Rightarrow> r = Ok () \<and> st_closed s' \<and>
    (0 < max_payload_size s \<and> p \<noteq> [] \<and> length p \<le> unat (max_message_size sh) \<longrightarrow>
      (\<exists>sh'' s''. write_sctp now p ppi (sh', s') = Some (Ok (length p), sh'', s'')))"
proof -
  obtain r sh' s' where c: "stream_close now (sh, s) = (r, sh', s')" by (metis prod_cases3)
  then have r: "r = Ok ()" "st_closed s'" "get_state sh' = Established" "max_payload_size s' = max_payload_size s"
      "max_message_size sh' = max_message_size sh"
    using assms by (auto simp: stream_close_def send_reset_request_def awake_write_loop_def get_state_def Let_def
        split: if_splits)
  have "\<exists>sh'' s''. write_sctp now p ppi (sh', s') = Some (Ok (length p), sh'', s'')"
    if h: "0 < max_payload_size s" "p \<noteq> []" "length p \<le> unat (max_message_size sh)"
  proof -
    have "0 < max_payload_size s'" using r(4) h(1) by simp
    then obtain cs sh1 s1 where pk: "packetize now p ppi (sh', s') = Some (cs, sh1, s1)"
      and "get_state sh1 = get_state sh'"
      using h(2) by (rule packetize_message)
    then show ?thesis using pk r h(3) by (auto simp: write_sctp_def send_payload_data_def)
  qed
  with c r show ?thesis by auto
qed

theorem write_after_close_witness:
  "case stream_close 0 (\<lparr>max_message_size = 100, state_cell = 3, pending = pending_queue_new, awake = False,
       flags = [], next_flag = 1\<rparr>, stream_new 7 2) of
     (r, sh', s') \<Rightarrow> st_closed s' \<and> (\<exists>sh'' s''. write_sctp 0 [1, 2, 3] Binary (sh', s') = Some (Ok 3, sh'', s''))"
proof -
  let ?sh = "\<lparr>max_message_size = 100, state_cell = 3, pending = pending_queue_new, awake = False, flags = [], next_flag = 1\<rparr>"
  have "get_state ?sh = Established" by (simp add: get_state_def association_state_from_def)
  from write_after_close [OF this, where now = 0 and s = "stream_new 7 2" and p = "[1, 2, 3]" and ppi = Binary]
  show ?thesis by (auto simp: stream_new_def numeral_3_eq_3)
qed

text \<open>
  A wake-up can be lost when a stream is closed while a task reads from it: the reader tests
  \<^verbatim>\<open>closed\<close> and finds nothing to read, the stream is closed and wakes only tasks already waiting, and
  only then does the reader start to wait. It is then blocked for good although the stream is closed,
  because \<^verbatim>\<open>notify_waiters\<close> leaves no permit behind.
\<close>

theorem close_wakeup_lost:
  assumes "get_state sh = Established" and "\<not> st_closed s" and "\<not> is_readable (reassembly s)"
    and "read_notifier s = N_Empty"
  shows "\<exists>sh' s'. stream_step\<^sup>*\<^sup>* (sh, s, p, R_Check) (sh', s', p, R_Waiting) \<and> st_closed s' \<and>
    read_sctp_step (s', p, R_Waiting) = None"
proof -
  obtain r sh' s' where c: "stream_close now (sh, s) = (r, sh', s')" by (metis prod_cases3)
  have s': "s' = s\<lparr>st_closed := True, read_notifier := N_Empty\<rparr>"
    using c assms by (auto simp: stream_close_def send_reset_request_def Let_def)
  have "rq_read p (reassembly s) = (Err ErrTryAgain, p, reassembly s)"
  proof (cases "rq_unordered (reassembly s)")
    case Nil
    then show ?thesis using assms(3)
      by (auto simp: is_readable_def rq_read_def sna16lte_not_gt split: list.splits)
  qed (use assms(3) in \<open>simp add: is_readable_def\<close>)
  then have "stream_step (sh, s, p, R_Read) (sh, s, p, R_Await)" by (intro step_reader) simp
  moreover have "stream_step (sh, s, p, R_Check) (sh, s, p, R_Read)" using assms(2) by (intro step_reader) simp
  moreover have "stream_step (sh, s, p, R_Await) (sh', s', p, R_Await)" using c by (rule step_close)
  moreover have "stream_step (sh', s', p, R_Await) (sh', s'\<lparr>read_notifier := N_Waiting\<rparr>, p, R_Waiting)"
    by (intro step_reader) (simp add: s')
  ultimately have "stream_step\<^sup>*\<^sup>* (sh, s, p, R_Check) (sh', s'\<lparr>read_notifier := N_Waiting\<rparr>, p, R_Waiting)"
    by (meson converse_rtranclp_into_rtranclp rtranclp.rtrancl_refl)
  moreover have "st_closed (s'\<lparr>read_notifier := N_Waiting\<rparr>)" by (simp add: s')
  ultimately show ?thesis by fastforce
qed

theorem close_wakeup_lost_witness:
  "\<exists>sh' s'. stream_step\<^sup>*\<^sup>* (\<lparr>max_message_size = 100, state_cell = 3, pending = pending_queue_new, awake = False,
      flags = [], next_flag = 1\<rparr>, stream_new 7 2, [0], R_Check) (sh', s', [0], R_Waiting) \<and> st_closed s'"
proof -
  let ?sh = "\<lparr>max_message_size = 100, state_cell = 3, pending = pending_queue_new, awake = False, flags = [], next_flag = 1\<rparr>"
  have "get_state ?sh = Established" by (simp add: get_state_def association_state_from_def)
  moreover have "\<not> is_readable (reassembly (stream_new 7 2))"
    by (simp add: stream_new_def reassembly_queue_new_def is_readable_def)
  ultimately show ?thesis
    using close_wakeup_lost [of ?sh "stream_new 7 2" "[0]"] by (auto simp: stream_new_def)
qed

text \<open>Polling with buffers of the given sizes until the data is handed out.\<close>

fun poll_reads :: "nat list \<Rightarrow> read_fut \<Rightarrow> bytes \<times> read_fut" where
  "poll_reads [] fut = ([], fut)"
| "poll_reads (n # ns) fut =
     (case poll_read Pending n fut of (_, b, fut') \<Rightarrow> (case poll_reads ns fut' of (bs, fut'') \<Rightarrow> (b @ bs, fut'')))"

definition unread :: "read_fut \<Rightarrow> bytes" where
  "unread fut = (case fut of RF_RemainingData d \<Rightarrow> d | _ \<Rightarrow> [])"

lemma poll_read_unread:
  "poll_read Pending n fut = (r, b, fut') \<Longrightarrow> b @ unread fut' = unread fut \<and> length b = min n (length (unread fut))"
  by (cases fut) (auto simp: poll_read_def poll_put_def unread_def Let_def min_def split: if_splits)

lemma poll_reads_unread:
  "poll_reads ns f = (bs, f') \<Longrightarrow>
   bs @ unread f' = unread f \<and> length bs = min (sum_list ns) (length (unread f))"
proof (induction ns arbitrary: f bs)
  case (Cons m ns)
  obtain r b f1 where p: "poll_read Pending m f = (r, b, f1)" by (metis prod_cases3)
  obtain bs1 where bs1: "poll_reads ns f1 = (bs1, f')" "bs = b @ bs1"
    using Cons.prems p by (auto split: prod.splits)
  note u = poll_read_unread [OF p] and ih = Cons.IH [OF bs1(1)]
  have "length (unread f) = length b + length (unread f1)" using u by (metis length_append)
  then have "length b + length bs1 = min (m + sum_list ns) (length (unread f))"
    using conjunct2 [OF u] conjunct2 [OF ih] by linarith
  moreover have "(b @ bs1) @ unread f' = unread f" using u ih by (metis append_assoc)
  ultimately show ?case using bs1(2) by simp
qed simp

lemma poll_put_unread:
  "\<exists>b fut'. poll_put msg n = (Ready (Ok ()), b, fut') \<and> b @ unread fut' = msg \<and> length b = min n (length msg)"
  by (auto simp: poll_put_def unread_def Let_def)

text \<open>
  The polling adapter hands out a received message completely and in order, however small the
  caller's buffers are: what it puts into them, followed by what it still keeps, is always the message
  that the inner read returned, and nothing is kept once the buffers are large enough in total.
\<close>

theorem poll_read_delivers:
  assumes "0 < n" and "\<forall>x. fut \<noteq> RF_RemainingData x"
  shows "case poll_read (Ready (Ok msg)) n fut of
    (r, b, fut') \<Rightarrow> r = Ready (Ok ()) \<and>
      (case poll_reads ns fut' of (bs, fut'') \<Rightarrow> b @ bs @ unread fut'' = msg \<and>
        (length msg \<le> n + sum_list ns \<longrightarrow> b @ bs = msg))"
proof -
  have p: "poll_read (Ready (Ok msg)) n fut = poll_put msg n"
    using assms by (cases fut) (auto simp: poll_read_def)
  obtain b fut' where q: "poll_put msg n = (Ready (Ok ()), b, fut')" "b @ unread fut' = msg" "length b = min n (length msg)"
    using poll_put_unread by blast
  obtain bs fut'' where w: "poll_reads ns fut' = (bs, fut'')" by (cases "poll_reads ns fut'")
  note u = poll_reads_unread [OF w]
  have "b @ bs @ unread fut'' = msg" using u q(2) by simp
  moreover have "b @ bs = msg" if "length msg \<le> n + sum_list ns"
  proof -
    have "length (unread fut') \<le> sum_list ns \<or> unread fut' = []"
      using that q(3) arg_cong [OF q(2), of length] by (simp add: min_def split: if_splits)
    then have "length bs = length (unread fut')" using u by auto
    then have "unread fut'' = []" using arg_cong [OF conjunct1 [OF u], of length] by simp
    with \<open>b @ bs @ unread fut'' = msg\<close> show ?thesis by simp
  qed
  ultimately show ?thesis using p q(1) w by simp
qed

theorem poll_read_delivers_witness:
  "case poll_read (Ready (Ok [1, 2, 3, 4, 5])) 2 RF_Idle of
    (r, b, fut') \<Rightarrow> (case poll_reads [1, 2] fut' of (bs, _) \<Rightarrow> b @ bs = [1, 2, 3, 4, 5])"
  using poll_read_delivers [of 2 RF_Idle "[1, 2, 3, 4, 5]" "[1, 2]"] by (auto split: prod.splits)

end
