(* ===== verification/Sctp_Timer.thy ===== *)
theory Sctp_Timer
  imports Sctp_Util Complex_Main
begin

text \<open>
  \<^verbatim>\<open>sctp/timer/\<close>: the retransmission timeout estimator, the exponential back-off, the retransmission
  timer and the delayed-acknowledgement timer. A timer is the state that its handle and its spawned
  task share; the expiry of a sleep is an operation of its own (\<open>rtx_fire\<close>, \<open>ack_fire\<close>), which the
  runtime performs. Dropping the sender \<^verbatim>\<open>close_tx\<close> ends the task. Double precision numbers are the
  rationals they denote, each operation followed by rounding to 53 bits, ties to even.
\<close>

section \<open>Double precision\<close>

definition pow2 :: "int \<Rightarrow> rat" where
  "pow2 e = (if 0 \<le> e then 2 ^ nat e else 1 / 2 ^ nat (- e))"

function bit_count :: "nat \<Rightarrow> nat" where
  "bit_count n = (if n = 0 then 0 else Suc (bit_count (n div 2)))"
  by pat_completeness auto
termination by (relation "measure id") auto

text \<open>The exponent of the leading bit of a positive rational.\<close>

definition exponent :: "rat \<Rightarrow> int" where
  "exponent x =
     (let (a, b) = quotient_of x; e = int (bit_count (nat a)) - int (bit_count (nat b))
      in if pow2 e \<le> x then e else e - 1)"

definition round_half_even :: "rat \<Rightarrow> int" where
  "round_half_even y =
     (let f = \<lfloor>y\<rfloor>; r = y - of_int f
      in if r < 1 / 2 then f else if r > 1 / 2 then f + 1 else if even f then f else f + 1)"

definition f64_round :: "rat \<Rightarrow> rat" where
  "f64_round x =
     (if x = 0 then 0
      else let e = max (exponent \<bar>x\<bar> - 52) (- 1074);
               m = of_int (round_half_even (\<bar>x\<bar> / pow2 e)) * pow2 e
           in if x < 0 then - m else m)"

text \<open>The casts \<^verbatim>\<open>u64 as f64\<close>, \<^verbatim>\<open>i64 as f64\<close> and \<^verbatim>\<open>f64 as u64\<close>, which truncates and saturates.\<close>

definition u64_as_f64 :: "u64 \<Rightarrow> rat" where
  "u64_as_f64 x = f64_round (of_int (uint x))"

definition i64_as_f64 :: "u64 \<Rightarrow> rat" where
  "i64_as_f64 x = f64_round (of_int (sint x))"

definition f64_as_u64 :: "rat \<Rightarrow> u64" where
  "f64_as_u64 x = (if x \<le> 0 then 0 else if x \<ge> 2 ^ 64 then - 1 else of_int \<lfloor>x\<rfloor>)"

section \<open>Retransmission timeout\<close>

definition RTO_INITIAL :: u64 where "RTO_INITIAL = 3000"
definition RTO_MIN :: u64 where "RTO_MIN = 1000"
definition RTO_MAX :: u64 where "RTO_MAX = 60000"
definition RTO_ALPHA :: u64 where "RTO_ALPHA = 1"
definition RTO_BETA :: u64 where "RTO_BETA = 2"
definition RTO_BASE :: u64 where "RTO_BASE = 8"
definition MAX_INIT_RETRANS :: nat where "MAX_INIT_RETRANS = 8"
definition NO_MAX_RETRANS :: nat where "NO_MAX_RETRANS = 0"

lemmas rto_consts = RTO_INITIAL_def RTO_MIN_def RTO_MAX_def RTO_ALPHA_def RTO_BETA_def RTO_BASE_def

record rto_manager =
  srtt :: u64
  rttvar :: rat
  rto :: u64
  no_update :: bool

definition rto_manager_new :: rto_manager where
  "rto_manager_new = \<lparr>srtt = 0, rttvar = 0, rto = RTO_INITIAL, no_update = False\<rparr>"

text \<open>\<^verbatim>\<open>(a as i64 - b as i64).abs()\<close>, wrapping.\<close>

definition i64_abs_diff :: "u64 \<Rightarrow> u64 \<Rightarrow> u64" where
  "i64_abs_diff a b = (let d = a - b in if sint d < 0 then - d else d)"

definition set_new_rtt :: "u64 \<Rightarrow> rto_manager \<Rightarrow> u64 \<times> rto_manager" where
  "set_new_rtt rtt m =
     (if no_update m then (srtt m, m)
      else
        let m = (if srtt m = 0
          then m\<lparr>srtt := rtt, rttvar := f64_round (u64_as_f64 rtt / 2)\<rparr>
          else m\<lparr>rttvar := f64_round (f64_round
                   (f64_round (u64_as_f64 (RTO_BASE - RTO_BETA) * rttvar m)
                    + f64_round (u64_as_f64 RTO_BETA * i64_as_f64 (i64_abs_diff (srtt m) rtt)))
                   / u64_as_f64 RTO_BASE),
                 srtt := ((RTO_BASE - RTO_ALPHA) * srtt m + RTO_ALPHA * rtt) div RTO_BASE\<rparr>);
            m = m\<lparr>rto := min (max (srtt m + f64_as_u64 (f64_round (4 * rttvar m))) RTO_MIN) RTO_MAX\<rparr>
        in (srtt m, m))"

definition get_rto :: "rto_manager \<Rightarrow> u64" where
  "get_rto m = rto m"

definition calculate_next_timeout :: "u64 \<Rightarrow> nat \<Rightarrow> u64" where
  "calculate_next_timeout r n_rtos =
     (if n_rtos < 31 then min (push_bit n_rtos r) RTO_MAX else RTO_MAX)"

section \<open>Retransmission timer\<close>

datatype rtx_timer_id = T1Init | T1Cookie | T2Shutdown | T3RTX | Reconfig

text \<open>\<open>rtx_task\<close> is the running task with its \<^verbatim>\<open>rto\<close> and \<^verbatim>\<open>n_rtos\<close>; \<open>rtx_close_tx\<close> says whether the handle
  holds a sender.\<close>

record rtx_timer =
  rtx_id :: rtx_timer_id
  max_retrans :: nat
  rtx_close_tx :: bool
  rtx_task :: "(u64 \<times> nat) option"

datatype rtx_event = Rtx_Timeout rtx_timer_id nat | Rtx_Failure rtx_timer_id | Rtx_Nothing

definition rtx_timer_new :: "rtx_timer_id \<Rightarrow> nat \<Rightarrow> rtx_timer" where
  "rtx_timer_new i n = \<lparr>rtx_id = i, max_retrans = n, rtx_close_tx = False, rtx_task = None\<rparr>"

definition rtx_start :: "u64 \<Rightarrow> rtx_timer \<Rightarrow> bool \<times> rtx_timer" where
  "rtx_start r t =
     (if rtx_close_tx t then (False, t)
      else (True, t\<lparr>rtx_close_tx := True, rtx_task := Some (r, 0)\<rparr>))"

definition rtx_stop :: "rtx_timer \<Rightarrow> rtx_timer" where
  "rtx_stop t = t\<lparr>rtx_close_tx := False, rtx_task := None\<rparr>"

text \<open>The sleep the task is in, and what happens when it ends; \<open>alive\<close> is \<^verbatim>\<open>timeout_observer.upgrade()\<close>.\<close>

definition rtx_interval :: "rtx_timer \<Rightarrow> u64 option" where
  "rtx_interval t = (case rtx_task t of Some (r, n) \<Rightarrow> Some (calculate_next_timeout r n) | None \<Rightarrow> None)"

definition rtx_fire :: "bool \<Rightarrow> rtx_timer \<Rightarrow> rtx_event \<times> rtx_timer" where
  "rtx_fire alive t =
     (case rtx_task t of
        None \<Rightarrow> (Rtx_Nothing, t)
      | Some (r, n) \<Rightarrow>
          let n = n + 1 in
          if alive then
            if max_retrans t = 0 \<or> n \<le> max_retrans t
            then (Rtx_Timeout (rtx_id t) n, t\<lparr>rtx_task := Some (r, n)\<rparr>)
            else (Rtx_Failure (rtx_id t), t\<lparr>rtx_close_tx := False, rtx_task := None\<rparr>)
          else (Rtx_Nothing, t\<lparr>rtx_close_tx := False, rtx_task := None\<rparr>))"

section \<open>Delayed-acknowledgement timer\<close>

definition ACK_INTERVAL :: nat where
  "ACK_INTERVAL = 200"

record ack_timer =
  ack_interval :: nat
  ack_close_tx :: bool
  ack_task :: bool

definition ack_timer_new :: "nat \<Rightarrow> ack_timer" where
  "ack_timer_new i = \<lparr>ack_interval = i, ack_close_tx = False, ack_task = False\<rparr>"

definition ack_start :: "ack_timer \<Rightarrow> bool \<times> ack_timer" where
  "ack_start t =
     (if ack_close_tx t then (False, t) else (True, t\<lparr>ack_task := True, ack_close_tx := True\<rparr>))"

definition ack_stop :: "ack_timer \<Rightarrow> ack_timer" where
  "ack_stop t = t\<lparr>ack_close_tx := False, ack_task := False\<rparr>"

text \<open>The sleep ends and the observer is called; the task is over, the handle is not told.\<close>

definition ack_fire :: "ack_timer \<Rightarrow> bool \<times> ack_timer" where
  "ack_fire t = (ack_task t, t\<lparr>ack_task := False\<rparr>)"

section \<open>Lemmas\<close>

lemma rto_min_le_max: "RTO_MIN \<le> RTO_MAX"
  by (simp add: rto_consts)

lemma push_bit_small:
  assumes "n < 31" and "r \<le> RTO_MAX"
  shows "unat (push_bit n r) = unat r * 2 ^ n"
proof -
  have r: "unat r \<le> 60000" using assms(2) by (simp add: RTO_MAX_def word_le_nat_alt)
  have "(2::nat) ^ n \<le> 2 ^ 30" using assms(1) by (intro power_increasing) auto
  with r have "unat r * 2 ^ n \<le> 60000 * 2 ^ 30" by (rule mult_le_mono)
  then have "take_bit 64 (unat r * 2 ^ n) = unat r * 2 ^ n"
    by (intro take_bit_nat_eq_self) simp
  moreover have "unat (push_bit n r) = take_bit 64 (unat r * 2 ^ n)"
    using unsigned_push_bit_eq [of n r, where 'a = nat]
    unfolding push_bit_eq_mult [of n "unat r"] by simp
  ultimately show ?thesis by simp
qed

lemma min_max_range: "RTO_MIN \<le> min (max x RTO_MIN) RTO_MAX \<and> min (max x RTO_MIN) RTO_MAX \<le> RTO_MAX"
  by (simp add: rto_min_le_max)

lemma next_timeout_nat:
  assumes "r \<le> RTO_MAX" and "0 < r"
  shows "unat (calculate_next_timeout r n) = min (unat r * 2 ^ n) 60000"
proof (cases "n < 31")
  case True
  then show ?thesis
    using push_bit_small [OF True assms(1)] unat_of_nat [of 60000, where 'a = 64]
    by (simp add: calculate_next_timeout_def RTO_MAX_def min_def word_le_nat_alt)
next
  case False
  have "1 \<le> unat r" using assms(2) by (simp add: word_less_nat_alt)
  moreover have "(2::nat) ^ 31 \<le> 2 ^ n" using False by (intro power_increasing) auto
  ultimately have "1 * 2 ^ 31 \<le> unat r * 2 ^ n" by (rule mult_le_mono)
  with False show ?thesis by (simp add: calculate_next_timeout_def RTO_MAX_def)
qed

lemma srtt_between:
  assumes "a < 2 ^ 60" and "b < 2 ^ 60"
  shows "min a b \<le> ((RTO_BASE - RTO_ALPHA) * a + RTO_ALPHA * b) div RTO_BASE \<and>
    ((RTO_BASE - RTO_ALPHA) * a + RTO_ALPHA * b) div RTO_BASE \<le> max a b"
proof -
  have lt: "unat a < 2 ^ 60" "unat b < 2 ^ 60" using assms by (simp_all add: word_less_nat_alt)
  have "unat (7 * a + b) = 7 * unat a + unat b" using lt by (simp add: unat_word_ariths)
  then have "unat ((7 * a + b) div 8) = (7 * unat a + unat b) div 8" by (simp add: unat_div_distrib)
  then show ?thesis using lt by (auto simp: rto_consts word_le_nat_alt min_def max_def)
qed

text \<open>Firing a started timer again and again.\<close>

fun rtx_fires :: "nat \<Rightarrow> rtx_timer \<Rightarrow> rtx_event list \<times> rtx_timer" where
  "rtx_fires 0 t = ([], t)"
| "rtx_fires (Suc k) t =
     (case rtx_fire True t of (e, t') \<Rightarrow> (case rtx_fires k t' of (es, t'') \<Rightarrow> (e # es, t'')))"

lemma rtx_fires_timeouts:
  "rtx_task t = Some (r, n) \<Longrightarrow> max_retrans t = 0 \<or> n + k \<le> max_retrans t \<Longrightarrow>
   rtx_fires k t = (map (Rtx_Timeout (rtx_id t)) [Suc n..<Suc (n + k)], t\<lparr>rtx_task := Some (r, n + k)\<rparr>)"
proof (induction k arbitrary: t n)
  case (Suc k)
  let ?t = "t\<lparr>rtx_task := Some (r, Suc n)\<rparr>"
  have "rtx_fire True t = (Rtx_Timeout (rtx_id t) (Suc n), ?t)" using Suc.prems by (auto simp: rtx_fire_def Let_def)
  moreover have "rtx_fires k ?t = (map (Rtx_Timeout (rtx_id t)) [Suc (Suc n)..<Suc (Suc n + k)], ?t\<lparr>rtx_task := Some (r, Suc n + k)\<rparr>)"
    using Suc.IH [of ?t "Suc n"] Suc.prems by simp
  moreover have "[Suc n..<Suc (n + Suc k)] = Suc n # [Suc (Suc n)..<Suc (Suc n + k)]" by (subst upt_conv_Cons) simp_all
  ultimately show ?case by (simp del: upt_Suc)
qed simp

lemma rtx_fires_snoc:
  "rtx_fires (Suc k) t = (case rtx_fires k t of (es, t') \<Rightarrow>
     (case rtx_fire True t' of (e, t'') \<Rightarrow> (es @ [e], t'')))"
proof (induction k arbitrary: t)
  case (Suc k)
  obtain e t1 where f: "rtx_fire True t = (e, t1)" by (cases "rtx_fire True t")
  have l: "rtx_fires (Suc j) t = (case rtx_fires j t1 of (es, t') \<Rightarrow> (e # es, t'))" for j
    by (simp add: f)
  show ?case unfolding l Suc.IH [of t1] by (simp split: prod.splits)
qed (simp split: prod.splits)

section \<open>Properties\<close>

text \<open>
  The retransmission timeout stays between one second and one minute after every round-trip
  measurement, whatever the measured values and the floating point estimate are, and the smoothed
  round-trip time lies between its previous value and the new measurement.
\<close>

theorem rto_in_range:
  assumes "RTO_MIN \<le> get_rto m \<and> get_rto m \<le> RTO_MAX"
  shows "RTO_MIN \<le> get_rto (snd (set_new_rtt rtt m)) \<and> get_rto (snd (set_new_rtt rtt m)) \<le> RTO_MAX \<and>
    (srtt m < 2 ^ 60 \<and> rtt < 2 ^ 60 \<and> srtt m \<noteq> 0 \<longrightarrow>
      min (srtt m) rtt \<le> srtt (snd (set_new_rtt rtt m)) \<and> srtt (snd (set_new_rtt rtt m)) \<le> max (srtt m) rtt)"
  using assms min_max_range srtt_between [of "srtt m" rtt]
  by (auto simp: set_new_rtt_def get_rto_def Let_def)

theorem rto_in_range_witness:
  "RTO_MIN \<le> get_rto (snd (set_new_rtt 120 rto_manager_new)) \<and>
   get_rto (snd (set_new_rtt 120 rto_manager_new)) \<le> RTO_MAX"
  using rto_in_range [of rto_manager_new 120] by (simp add: rto_manager_new_def get_rto_def rto_consts)

text \<open>
  The back-off doubles the timeout with every expiry and stops at one minute, without overflow:
  for a timeout in the estimator's range the n-th interval is exactly the minimum of \<open>rto * 2 ^ n\<close> and
  60 seconds.
\<close>

theorem backoff_exact:
  assumes "RTO_MIN \<le> r" and "r \<le> RTO_MAX"
  shows "unat (calculate_next_timeout r n) = min (unat r * 2 ^ n) 60000 \<and>
    calculate_next_timeout r n \<le> calculate_next_timeout r (Suc n)"
proof -
  have "0 < r" using assms(1) by (auto simp: RTO_MIN_def word_less_nat_alt word_le_nat_alt)
  then show ?thesis using assms(2) by (simp add: next_timeout_nat word_le_nat_alt)
qed

theorem backoff_exact_witness: "unat (calculate_next_timeout 3000 4) = 48000"
  using backoff_exact [of 3000 4] by (simp add: rto_consts)

text \<open>
  A retransmission timer with a limit reports exactly \<open>max_retrans\<close> timeouts, numbered from one,
  then a failure, and afterwards it can be started again; with no limit it never fails.
\<close>

theorem rtx_timer_limit:
  assumes "\<not> rtx_close_tx t"
  shows "case rtx_start r t of (ok, t') \<Rightarrow> ok \<and> fst (rtx_start r t') = False \<and>
    (if max_retrans t = 0
     then fst (rtx_fires k t') = map (Rtx_Timeout (rtx_id t)) [1..<Suc k]
     else fst (rtx_fires (Suc (max_retrans t)) t')
         = map (Rtx_Timeout (rtx_id t)) [1..<Suc (max_retrans t)] @ [Rtx_Failure (rtx_id t)] \<and>
       fst (rtx_start r (snd (rtx_fires (Suc (max_retrans t)) t'))))"
proof -
  let ?t = "t\<lparr>rtx_close_tx := True, rtx_task := Some (r, 0)\<rparr>"
  have f: "rtx_fires k ?t = (map (Rtx_Timeout (rtx_id t)) [1..<Suc k], ?t\<lparr>rtx_task := Some (r, k)\<rparr>)"
    if "max_retrans t = 0 \<or> k \<le> max_retrans t" for k
    using rtx_fires_timeouts [of ?t r 0 k] that by simp
  have "rtx_start r t = (True, ?t)" "fst (rtx_start r ?t) = False" using assms by (simp_all add: rtx_start_def)
  moreover have "max_retrans t = 0 \<Longrightarrow> fst (rtx_fires k ?t) = map (Rtx_Timeout (rtx_id t)) [1..<Suc k]"
    using f by simp
  moreover have "max_retrans t \<noteq> 0 \<Longrightarrow> rtx_fires (Suc (max_retrans t)) ?t =
      (map (Rtx_Timeout (rtx_id t)) [1..<Suc (max_retrans t)] @ [Rtx_Failure (rtx_id t)],
       ?t\<lparr>rtx_close_tx := False, rtx_task := None\<rparr>)"
    unfolding rtx_fires_snoc using f [of "max_retrans t"] by (simp add: rtx_fire_def del: upt_Suc)
  ultimately show ?thesis by (simp add: rtx_start_def del: rtx_fires.simps upt_Suc)
qed

theorem rtx_timer_limit_witness:
  "fst (rtx_fires 3 (snd (rtx_start 1000 (rtx_timer_new T1Init 2))))
    = [Rtx_Timeout T1Init 1, Rtx_Timeout T1Init 2, Rtx_Failure T1Init]"
proof -
  have "\<not> rtx_close_tx (rtx_timer_new T1Init 2)" by (simp add: rtx_timer_new_def)
  from rtx_timer_limit [OF this, of 1000 0] show ?thesis
    by (simp add: rtx_start_def rtx_timer_new_def eval_nat_numeral)
qed

text \<open>
  After the delayed-acknowledgement timer has fired, it cannot be started again until it is
  stopped: its handle still holds the sender of the finished task, so \<^verbatim>\<open>start\<close> does nothing and no
  further acknowledgement is ever timed.
\<close>

theorem ack_timer_dead_after_fire:
  assumes "fst (ack_start t)"
  shows "case ack_fire (snd (ack_start t)) of
    (fired, t') \<Rightarrow> fired \<and> ack_start t' = (False, t') \<and> fst (ack_fire t') = False \<and> fst (ack_start (ack_stop t'))"
  using assms by (auto simp: ack_start_def ack_fire_def ack_stop_def split: if_splits)

theorem ack_timer_dead_after_fire_witness:
  "case ack_fire (snd (ack_start (ack_timer_new 200))) of (fired, t') \<Rightarrow> fired \<and> ack_start t' = (False, t')"
proof -
  have "fst (ack_start (ack_timer_new 200))" by (simp add: ack_start_def ack_timer_new_def)
  from ack_timer_dead_after_fire [OF this] show ?thesis by auto
qed

end
