(* ===== verification/Sctp_Association.thy ===== *)
theory Sctp_Association
  imports Sctp_Stream Sctp_Timer
begin

text \<open>
  \<^verbatim>\<open>sctp/association/\<close>: the state of an association and the handlers of its inbound chunks. The record
  \<open>association\<close> is \<^verbatim>\<open>AssociationInternal\<close>; what it shares with its streams is the field \<open>sh\<close>. A handler
  is an action: it takes the association and returns its \<^verbatim>\<open>Result\<close> with the new association, since in
  Rust the changes made before an error stay. The clock, random numbers and the CRC are arguments.
  Arithmetic on 32-bit fields wraps, as in a release build.
\<close>

section \<open>State\<close>

definition RECEIVE_MTU :: nat where "RECEIVE_MTU = 8192"
definition INITIAL_MTU :: u32 where "INITIAL_MTU = 1228"
definition INITIAL_RECV_BUF_SIZE :: u32 where "INITIAL_RECV_BUF_SIZE = 1024 * 1024"
definition COMMON_HEADER_SIZE :: u32 where "COMMON_HEADER_SIZE = 12"
definition DATA_CHUNK_HEADER_SIZE :: u32 where "DATA_CHUNK_HEADER_SIZE = 16"
definition DEFAULT_MAX_MESSAGE_SIZE :: u32 where "DEFAULT_MAX_MESSAGE_SIZE = 65536"
definition ACCEPT_CH_SIZE :: nat where "ACCEPT_CH_SIZE = 16"

datatype ack_mode = Normal | AlwaysDelay

datatype ack_state = Idle | Immediate | Delay

record association_stats =
  n_datas :: u64
  n_sacks :: u64
  n_t3timeouts :: u64
  n_ack_timeouts :: u64
  n_fast_retrans :: u64

text \<open>
  The identity of the association, sequence numbers and pending announcements. \<open>detached\<close> holds the
  streams that were unregistered while a user may still hold a handle on them.
\<close>

record association_core =
  sh :: shared
  will_send_shutdown :: bool
  peer_verification_tag :: u32
  my_verification_tag :: u32
  my_next_tsn :: u32
  peer_last_tsn :: u32
  min_tsn2measure_rtt :: u32
  will_send_forward_tsn :: bool
  will_retransmit_fast :: bool
  will_retransmit_reconfig :: bool
  will_send_shutdown_ack :: bool
  will_send_shutdown_complete :: bool
  my_next_rsn :: u32
  reconfigs :: "(u32, chunk_reconfig) hash_map"
  reconfig_requests :: "(u32, param_outgoing_reset_request) hash_map"
  a_source_port :: u16
  a_destination_port :: u16
  my_max_num_inbound_streams :: u16
  my_max_num_outbound_streams :: u16
  my_cookie :: "bytes option"

text \<open>Queues and congestion control.\<close>

record association_flow = association_core +
  rcv_queue :: payload_queue
  inflight_queue :: payload_queue
  control_queue :: "packet list"
  mtu :: u32
  a_max_payload_size :: u32
  cumulative_tsn_ack_point :: u32
  advanced_peer_tsn_ack_point :: u32
  use_forward_tsn :: bool
  max_receive_buffer_size :: u32
  cwnd :: u32
  rwnd :: u32
  ssthresh :: u32
  partial_bytes_acked :: u32
  in_fast_recovery :: bool
  fast_recover_exit_point :: u32

text \<open>
  Timers, chunks kept for retransmission, streams and channels. \<open>accept_ch\<close> is the number of streams
  waiting in the accept channel, \<open>None\<close> once its receiver is gone; \<open>handshake_completed\<close> lists what was
  sent on the handshake channel.
\<close>

record association = association_flow +
  rto_mgr :: rto_manager
  t1init :: "rtx_timer option"
  t1cookie :: "rtx_timer option"
  t2shutdown :: "rtx_timer option"
  t3rtx :: "rtx_timer option"
  treconfig :: "rtx_timer option"
  ack_timer_f :: "ack_timer option"
  stored_init :: "chunk_init option"
  stored_cookie_echo :: "bytes option"
  streams :: "(u16, stream) hash_map"
  detached :: "stream list"
  close_loop_open :: bool
  accept_ch :: "nat option"
  handshake_completed :: "error option list"
  delayed_ack_triggered :: bool
  immediate_ack_triggered :: bool
  stats :: association_stats
  ack_st :: ack_state
  ack_md :: ack_mode

text \<open>Actions and their sequencing.\<close>

type_synonym 'a act = "association \<Rightarrow> 'a result \<times> association"

definition ret :: "'a \<Rightarrow> 'a act" where
  "ret x a = (Ok x, a)"

definition raise :: "error \<Rightarrow> 'a act" where
  "raise e a = (Err e, a)"

definition abind :: "'a act \<Rightarrow> ('a \<Rightarrow> 'b act) \<Rightarrow> 'b act" where
  "abind m f a =
     (case m a of
        (Ok x, a') \<Rightarrow> f x a'
      | (Err e, a') \<Rightarrow> (Err e, a')
      | (Panic, a') \<Rightarrow> (Panic, a'))"

definition upd :: "(association \<Rightarrow> association) \<Rightarrow> unit act" where
  "upd f a = (Ok (), f a)"

lemma abind_cong [fundef_cong]:
  "m a = m' a' \<Longrightarrow> (\<And>x b. m' a' = (Ok x, b) \<Longrightarrow> f x b = f' x b) \<Longrightarrow> abind m f a = abind m' f' a'"
  by (auto simp: abind_def split: prod.splits outcome.splits)

section \<open>Construction\<close>

text \<open>\<^verbatim>\<open>AssociationInternal::new\<close>; \<open>rnd_tsn\<close> and \<open>rnd_tag\<close> are the two random numbers.\<close>

definition association_new :: "u32 \<Rightarrow> u32 \<Rightarrow> u32 \<Rightarrow> u32 \<Rightarrow> association" where
  "association_new cfg_buffer cfg_message rnd_tsn rnd_tag =
     (let max_rb = (if cfg_buffer = 0 then INITIAL_RECV_BUF_SIZE else cfg_buffer);
          max_ms = (if cfg_message = 0 then DEFAULT_MAX_MESSAGE_SIZE else cfg_message);
          t = (if rnd_tsn = 0 then rnd_tsn + 1 else rnd_tsn)
      in \<lparr>sh = \<lparr>max_message_size = max_ms, state_cell = association_state_as_u8 Closed,
                 pending = pending_queue_new, awake = False, flags = [], next_flag = 1\<rparr>,
          will_send_shutdown = False, peer_verification_tag = 0, my_verification_tag = rnd_tag,
          my_next_tsn = t, peer_last_tsn = 0, min_tsn2measure_rtt = t, will_send_forward_tsn = False,
          will_retransmit_fast = False, will_retransmit_reconfig = False, will_send_shutdown_ack = False,
          will_send_shutdown_complete = False, my_next_rsn = t, reconfigs = [], reconfig_requests = [],
          a_source_port = 0, a_destination_port = 0, my_max_num_inbound_streams = - 1,
          my_max_num_outbound_streams = - 1, my_cookie = None,
          rcv_queue = payload_queue_new, inflight_queue = payload_queue_new, control_queue = [],
          mtu = INITIAL_MTU,
          a_max_payload_size = INITIAL_MTU - (COMMON_HEADER_SIZE + DATA_CHUNK_HEADER_SIZE),
          cumulative_tsn_ack_point = t - 1, advanced_peer_tsn_ack_point = t - 1, use_forward_tsn = False,
          max_receive_buffer_size = max_rb, cwnd = min (4 * INITIAL_MTU) (max (2 * INITIAL_MTU) 4380),
          rwnd = 0, ssthresh = 0, partial_bytes_acked = 0, in_fast_recovery = False,
          fast_recover_exit_point = 0,
          rto_mgr = rto_manager_new, t1init = None, t1cookie = None, t2shutdown = None, t3rtx = None,
          treconfig = None, ack_timer_f = None, stored_init = None, stored_cookie_echo = None,
          streams = [], detached = [], close_loop_open = True, accept_ch = Some 0,
          handshake_completed = [], delayed_ack_triggered = False, immediate_ack_triggered = False,
          stats = \<lparr>n_datas = 0, n_sacks = 0, n_t3timeouts = 0, n_ack_timeouts = 0, n_fast_retrans = 0\<rparr>,
          ack_st = Idle, ack_md = Normal\<rparr>)"

section \<open>Shared helpers\<close>

definition a_state :: "association \<Rightarrow> association_state" where
  "a_state a = get_state (sh a)"

definition set_state :: "association_state \<Rightarrow> association \<Rightarrow> association" where
  "set_state s a = a\<lparr>sh := (sh a)\<lparr>state_cell := association_state_as_u8 s\<rparr>\<rparr>"

definition wake :: "association \<Rightarrow> association" where
  "wake a = a\<lparr>sh := awake_write_loop (sh a)\<rparr>"

text \<open>\<^verbatim>\<open>if let Some(t) = &self.t { t.start(rto).await }\<close> and the like.\<close>

definition timer_start :: "u64 \<Rightarrow> rtx_timer option \<Rightarrow> rtx_timer option" where
  "timer_start r = map_option (\<lambda>t. snd (rtx_start r t))"

definition timer_stop :: "rtx_timer option \<Rightarrow> rtx_timer option" where
  "timer_stop = map_option rtx_stop"

text \<open>\<^verbatim>\<open>is_empty\<close> of a payload queue; the assertion in \<^verbatim>\<open>len\<close> holds by the invariant of the queue.\<close>

definition pq_is_empty :: "payload_queue \<Rightarrow> bool" where
  "pq_is_empty q \<longleftrightarrow> length (chunk_map q) = 0"

definition create_packet :: "chunk list \<Rightarrow> association \<Rightarrow> packet" where
  "create_packet cs a = \<lparr>source_port = a_source_port a, destination_port = a_destination_port a,
     verification_tag = peer_verification_tag a, chunks = cs\<rparr>"

definition generate_next_tsn :: "association \<Rightarrow> u32 \<times> association" where
  "generate_next_tsn a = (my_next_tsn a, a\<lparr>my_next_tsn := my_next_tsn a + 1\<rparr>)"

definition generate_next_rsn :: "association \<Rightarrow> u32 \<times> association" where
  "generate_next_rsn a = (my_next_rsn a, a\<lparr>my_next_rsn := my_next_rsn a + 1\<rparr>)"

definition get_my_receiver_window_credit :: "association \<Rightarrow> u32" where
  "get_my_receiver_window_credit a =
     (let bytes_queued = fold (\<lambda>s n. n + of_nat (get_num_bytes_in_reassembly_queue s)) (hm_values (streams a)) 0
      in if bytes_queued \<ge> max_receive_buffer_size a then 0 else max_receive_buffer_size a - bytes_queued)"

definition unregister_stream :: "u16 \<Rightarrow> association \<Rightarrow> association" where
  "unregister_stream si a =
     (case hm_get (streams a) si of
        Some s \<Rightarrow> a\<lparr>streams := hm_remove si (streams a),
          detached := detached a @ [s\<lparr>st_closed := True, read_notifier := notify_waiters (read_notifier s)\<rparr>]\<rparr>
      | None \<Rightarrow> a)"

definition close_all_timers :: "association \<Rightarrow> association" where
  "close_all_timers a =
     a\<lparr>t1init := timer_stop (t1init a), t1cookie := timer_stop (t1cookie a),
       t2shutdown := timer_stop (t2shutdown a), t3rtx := timer_stop (t3rtx a),
       treconfig := timer_stop (treconfig a), ack_timer_f := map_option ack_stop (ack_timer_f a)\<rparr>"

definition assoc_close :: "association \<Rightarrow> association" where
  "assoc_close a =
     (if a_state a \<noteq> Closed then
        let a = close_all_timers (set_state Closed a);
            a = a\<lparr>close_loop_open := False\<rparr>
        in fold unregister_stream (hm_keys (streams a)) a
      else a)"

definition send_init :: "unit act" where
  "send_init a =
     (case stored_init a of
        Some i \<Rightarrow>
          let a = a\<lparr>stored_init := None, a_source_port := 5000, a_destination_port := 5000\<rparr>;
              outbound = \<lparr>source_port = a_source_port a, destination_port = a_destination_port a,
                verification_tag = peer_verification_tag a, chunks = [ChunkInit i]\<rparr>
          in (Ok (), wake (a\<lparr>control_queue := control_queue a @ [outbound]\<rparr>))
      | None \<Rightarrow> (Err ErrInitNotStoredToSend, a))"

definition send_cookie_echo :: "unit act" where
  "send_cookie_echo a =
     (case stored_cookie_echo a of
        Some c \<Rightarrow>
          let outbound = \<lparr>source_port = a_source_port a, destination_port = a_destination_port a,
                verification_tag = peer_verification_tag a, chunks = [ChunkCookieEcho c]\<rparr>
          in (Ok (), wake (a\<lparr>control_queue := control_queue a @ [outbound]\<rparr>))
      | None \<Rightarrow> (Err ErrCookieEchoNotStoredToSend, a))"

section \<open>Streams\<close>

text \<open>\<^verbatim>\<open>accept_ch.try_send\<close> succeeds while the receiver is there and the channel has room.\<close>

definition create_stream :: "u16 \<Rightarrow> bool \<Rightarrow> association \<Rightarrow> stream option \<times> association" where
  "create_stream si accept a =
     (let s = stream_new si (a_max_payload_size a) in
      if accept then
        (case accept_ch a of
           Some n \<Rightarrow>
             if n < ACCEPT_CH_SIZE
             then (Some s, a\<lparr>accept_ch := Some (n + 1), streams := hm_insert si s (streams a)\<rparr>)
             else (None, a)
         | None \<Rightarrow> (None, a))
      else (Some s, a\<lparr>streams := hm_insert si s (streams a)\<rparr>))"

definition open_stream :: "u16 \<Rightarrow> stream act" where
  "open_stream si a =
     (if hm_get (streams a) si \<noteq> None then (Err ErrStreamAlreadyExist, a)
      else case create_stream si False a of
          (Some s, a) \<Rightarrow> (Ok s, a)
        | (None, a) \<Rightarrow> (Err ErrStreamCreateFailed, a))"

definition get_or_create_stream :: "u16 \<Rightarrow> association \<Rightarrow> stream option \<times> association" where
  "get_or_create_stream si a =
     (if hm_get (streams a) si \<noteq> None then (hm_get (streams a) si, a) else create_stream si True a)"

section \<open>Handshake\<close>

text \<open>\<^verbatim>\<open>if initial_tsn == 0 { u32::MAX } else { initial_tsn - 1 }\<close>\<close>

definition tsn_before :: "u32 \<Rightarrow> u32" where
  "tsn_before t = (if t = 0 then - 1 else t - 1)"

definition supports_forward_tsn :: "param \<Rightarrow> bool" where
  "supports_forward_tsn p = (case p of ParamSupportedExtensions ts \<Rightarrow> CT_FORWARD_TSN \<in> set ts | _ \<Rightarrow> False)"

text \<open>\<open>fresh_cookie\<close> is what \<^verbatim>\<open>ParamStateCookie::new\<close> generates.\<close>

definition handle_init :: "bytes \<Rightarrow> packet \<Rightarrow> chunk_init \<Rightarrow> packet list act" where
  "handle_init fresh_cookie p i a =
     (if a_state a \<noteq> Closed \<and> a_state a \<noteq> CookieWait \<and> a_state a \<noteq> CookieEchoed
      then (Err ErrHandleInitState, a)
      else
        let a = a\<lparr>my_max_num_inbound_streams := min (num_inbound_streams i) (my_max_num_inbound_streams a),
                 my_max_num_outbound_streams := min (num_outbound_streams i) (my_max_num_outbound_streams a),
                 peer_verification_tag := initiate_tag i, a_source_port := destination_port p,
                 a_destination_port := source_port p, peer_last_tsn := tsn_before (initial_tsn i)\<rparr>;
            a = (if \<exists>q \<in> set (init_params i). supports_forward_tsn q then a\<lparr>use_forward_tsn := True\<rparr> else a);
            a = (if my_cookie a = None then a\<lparr>my_cookie := Some fresh_cookie\<rparr> else a);
            init_ack = \<lparr>is_ack = True, initiate_tag = my_verification_tag a,
              advertised_receiver_window_credit = max_receive_buffer_size a,
              num_outbound_streams = my_max_num_outbound_streams a,
              num_inbound_streams = my_max_num_inbound_streams a, initial_tsn = my_next_tsn a,
              init_params = (case my_cookie a of Some c \<Rightarrow> [ParamStateCookie c] | None \<Rightarrow> [])\<rparr>;
            outbound = create_packet [ChunkInit (set_forward_tsn_supported init_ack)] a
        in (Ok [outbound], a))"

text \<open>The last State-Cookie parameter of an INIT-ACK.\<close>

definition cookie_param :: "param list \<Rightarrow> bytes option" where
  "cookie_param ps = fold (\<lambda>p acc. case p of ParamStateCookie c \<Rightarrow> Some c | _ \<Rightarrow> acc) ps None"

definition handle_init_ack :: "packet \<Rightarrow> chunk_init \<Rightarrow> packet list act" where
  "handle_init_ack p i a =
     (if a_state a \<noteq> CookieWait then (Ok [], a)
      else
        let a = a\<lparr>my_max_num_inbound_streams := min (num_inbound_streams i) (my_max_num_inbound_streams a),
                 my_max_num_outbound_streams := min (num_outbound_streams i) (my_max_num_outbound_streams a),
                 peer_verification_tag := initiate_tag i, peer_last_tsn := tsn_before (initial_tsn i)\<rparr>
        in
        if a_source_port a \<noteq> destination_port p \<or> a_destination_port a \<noteq> source_port p then (Ok [], a)
        else
          let a = a\<lparr>rwnd := advertised_receiver_window_credit i,
                   ssthresh := advertised_receiver_window_credit i,
                   t1init := timer_stop (t1init a), stored_init := None\<rparr>;
              a = (if \<exists>q \<in> set (init_params i). supports_forward_tsn q \<or> q = ParamForwardTsnSupported
                   then a\<lparr>use_forward_tsn := True\<rparr> else a)
          in case cookie_param (init_params i) of
               Some c \<Rightarrow> abind (\<lambda>a. send_cookie_echo (a\<lparr>stored_cookie_echo := Some c\<rparr>)) (\<lambda>_ a.
                 (Ok [], set_state CookieEchoed
                   (a\<lparr>t1cookie := timer_start (get_rto (rto_mgr a)) (t1cookie a)\<rparr>))) a
             | None \<Rightarrow> (Err ErrInitAckNoCookie, a))"

definition handle_heartbeat :: "param list \<Rightarrow> packet list act" where
  "handle_heartbeat ps a =
     (case ps of
        ParamHeartbeatInfo i # _ \<Rightarrow> (Ok [create_packet [ChunkHeartbeatAck [ParamHeartbeatInfo i]] a], a)
      | _ \<Rightarrow> (Ok [], a))"

definition handle_cookie_echo :: "bytes \<Rightarrow> packet list act" where
  "handle_cookie_echo c a =
     (case my_cookie a of
        None \<Rightarrow> (Ok [], a)
      | Some mine \<Rightarrow>
          let reply = (\<lambda>a. (Ok [create_packet [ChunkCookieAck] a], a)) in
          if a_state a = Established then (if mine \<noteq> c then (Ok [], a) else reply a)
          else if a_state a = Closed \<or> a_state a = CookieWait \<or> a_state a = CookieEchoed then
            if mine \<noteq> c then (Ok [], a)
            else
              let a = a\<lparr>t1init := timer_stop (t1init a), stored_init := None,
                       t1cookie := timer_stop (t1cookie a), stored_cookie_echo := None\<rparr>;
                  a = set_state Established a
              in reply (a\<lparr>handshake_completed := handshake_completed a @ [None]\<rparr>)
          else (Ok [], a))"

definition handle_cookie_ack :: "packet list act" where
  "handle_cookie_ack a =
     (if a_state a \<noteq> CookieEchoed then (Ok [], a)
      else
        let a = a\<lparr>t1cookie := timer_stop (t1cookie a), stored_cookie_echo := None\<rparr>;
            a = set_state Established a
        in (Ok [], a\<lparr>handshake_completed := handshake_completed a @ [None]\<rparr>))"

end
