(* ===== verification/Sctp_Inbound.thy ===== *)
theory Sctp_Inbound
  imports Sctp_Association
begin

text \<open>
  The inbound half of \<^verbatim>\<open>association_internal.rs\<close>: DATA, SACK, FORWARD-TSN, RECONFIG and the shutdown
  chunks, and the dispatch of a received packet.
\<close>

section \<open>Stream resets\<close>

definition reset_streams_if_any :: "param_outgoing_reset_request \<Rightarrow> association \<Rightarrow> packet \<times> association" where
  "reset_streams_if_any p a =
     (let (res, a) =
        (if sna32lte (sender_last_tsn p) (peer_last_tsn a) then
           let a = fold (\<lambda>si a. case hm_get (streams a) si of
                       Some s \<Rightarrow> unregister_stream (st_identifier s) a
                     | None \<Rightarrow> a) (stream_identifiers p) a
           in (SuccessPerformed,
               a\<lparr>reconfig_requests := hm_remove (reconfig_request_sequence_number p) (reconfig_requests a)\<rparr>)
         else (InProgress, a))
      in (create_packet [ChunkReconfig \<lparr>param_a = Some (ParamReconfigResponse
             \<lparr>reconfig_response_sequence_number = reconfig_request_sequence_number p, rr_result = res\<rparr>),
             param_b = None\<rparr>] a, a))"

definition handle_reconfig_param :: "param \<Rightarrow> packet option act" where
  "handle_reconfig_param raw a =
     (case raw of
        ParamOutgoingResetRequest p \<Rightarrow>
          let a = a\<lparr>reconfig_requests := hm_insert (reconfig_request_sequence_number p) p (reconfig_requests a)\<rparr>
          in (case reset_streams_if_any p a of (pkt, a) \<Rightarrow> (Ok (Some pkt), a))
      | ParamReconfigResponse p \<Rightarrow>
          let a = a\<lparr>reconfigs := hm_remove (reconfig_response_sequence_number p) (reconfigs a)\<rparr>
          in (Ok None, if reconfigs a = [] then a\<lparr>treconfig := timer_stop (treconfig a)\<rparr> else a)
      | _ \<Rightarrow> (Err ErrParamterType, a))"

definition handle_reconfig :: "chunk_reconfig \<Rightarrow> packet list act" where
  "handle_reconfig c =
     abind (case param_a c of Some p \<Rightarrow> handle_reconfig_param p | None \<Rightarrow> ret None) (\<lambda>pa.
     abind (case param_b c of Some p \<Rightarrow> handle_reconfig_param p | None \<Rightarrow> ret None) (\<lambda>pb.
       ret (List.map_filter id [pa, pb])))"

section \<open>Receiving data\<close>

text \<open>The resets that became possible, for a snapshot of the requests.\<close>

definition reset_all :: "association \<Rightarrow> packet list \<times> association" where
  "reset_all a =
     fold (\<lambda>req (reply, a). case reset_streams_if_any req a of (resp, a) \<Rightarrow> (reply @ [resp], a))
       (hm_values (reconfig_requests a)) ([], a)"

lemma unregister_stream_rcv [simp]: "rcv_queue (unregister_stream si a) = rcv_queue a"
  by (simp add: unregister_stream_def split: option.splits)

lemma fold_rcv: "(\<And>x a. rcv_queue (f x a) = rcv_queue a) \<Longrightarrow> rcv_queue (fold f xs a) = rcv_queue a"
  by (induction xs arbitrary: a) auto

lemma reset_streams_rcv [simp]: "rcv_queue (snd (reset_streams_if_any p a)) = rcv_queue a"
  by (auto simp: reset_streams_if_any_def Let_def intro!: fold_rcv split: option.splits)

lemma fold_resets_rcv:
  "rcv_queue (snd (fold (\<lambda>req (reply, a). case reset_streams_if_any req a of (resp, a) \<Rightarrow> (reply @ [resp], a))
     reqs (reply, a))) = rcv_queue a"
proof (induction reqs arbitrary: reply a)
  case (Cons r reqs)
  then show ?case using reset_streams_rcv [of r a] by (cases "reset_streams_if_any r a") simp
qed simp

lemma reset_all_rcv [simp]: "rcv_queue (snd (reset_all a)) = rcv_queue a"
  unfolding reset_all_def by (rule fold_resets_rcv)

text \<open>\<^verbatim>\<open>while self.payload_queue.pop(self.peer_last_tsn + 1).is_some()\<close>\<close>

function advance_peer_last_tsn :: "packet list \<Rightarrow> association \<Rightarrow> packet list \<times> association" where
  "advance_peer_last_tsn reply a =
     (case pq_pop (peer_last_tsn a + 1) (rcv_queue a) of
        (Some _, q) \<Rightarrow>
          (case reset_all (a\<lparr>rcv_queue := q, peer_last_tsn := peer_last_tsn a + 1\<rparr>) of
             (resps, a') \<Rightarrow> advance_peer_last_tsn (reply @ resps) a')
      | (None, q) \<Rightarrow> (reply, a\<lparr>rcv_queue := q\<rparr>))"
  by pat_completeness auto

lemma pq_pop_shorter: "pq_pop t q = (Some c, q') \<Longrightarrow> length (pq_sorted q') < length (pq_sorted q)"
  by (cases "pq_sorted q") (auto simp: pq_pop_def Let_def split: if_splits option.splits)

lemma advance_shorter:
  fixes a a' :: association
  assumes "pq_pop t (rcv_queue a) = (Some c, q)"
    and "reset_all (a\<lparr>rcv_queue := q, peer_last_tsn := u\<rparr>) = (resps, a')"
  shows "length (pq_sorted (rcv_queue a')) < length (pq_sorted (rcv_queue a))"
  using pq_pop_shorter [OF assms(1)] reset_all_rcv [of "a\<lparr>rcv_queue := q, peer_last_tsn := u\<rparr>"] assms(2)
  by simp

termination advance_peer_last_tsn
  by (relation "measure (\<lambda>(_, a). length (pq_sorted (rcv_queue a)))")
    (simp, metis advance_shorter case_prod_conv in_measure)

declare advance_peer_last_tsn.simps [simp del]

definition handle_peer_last_tsn_and_acknowledgement :: "bool \<Rightarrow> packet list act" where
  "handle_peer_last_tsn_and_acknowledgement sack_immediately a =
     (let (reply, a) = advance_peer_last_tsn [] a;
          has_packet_loss = (\<not> pq_is_empty (rcv_queue a));
          a = (if ack_st a \<noteq> Immediate \<and> \<not> sack_immediately \<and> \<not> has_packet_loss \<and> ack_md a = Normal
                  \<or> ack_md a = AlwaysDelay
               then if ack_st a = Idle then a\<lparr>delayed_ack_triggered := True\<rparr>
                    else a\<lparr>immediate_ack_triggered := True\<rparr>
               else a\<lparr>immediate_ack_triggered := True\<rparr>)
      in (Ok reply, a))"

definition handle_data :: "chunk_payload_data \<Rightarrow> packet list act" where
  "handle_data d a =
     (let a = a\<lparr>stats := (stats a)\<lparr>n_datas := n_datas (stats a) + 1\<rparr>\<rparr>;
          finish = (\<lambda>deliver a.
            handle_peer_last_tsn_and_acknowledgement (immediate_sack d)
              (if deliver then a\<lparr>streams := hm_adjust (stream_identifier d) (stream_handle_data d) (streams a)\<rparr>
               else a));
          store = (\<lambda>a. a\<lparr>rcv_queue := snd (pq_push d (peer_last_tsn a) (rcv_queue a))\<rparr>)
      in
      if can_push (rcv_queue a) d (peer_last_tsn a) then
        (case get_or_create_stream (stream_identifier d) a of
           (Some _, a) \<Rightarrow>
             if get_my_receiver_window_credit a > 0 then finish True (store a)
             else (case get_last_tsn_received (rcv_queue a) of
                 Some last_tsn \<Rightarrow>
                   if sna32lt (tsn d) last_tsn then finish True (store a) else finish False a
               | None \<Rightarrow> finish False a)
         | (None, a) \<Rightarrow> (Ok [], a))
      else finish False a)"

text \<open>\<^verbatim>\<open>while sna32lt(self.peer_last_tsn, c.new_cumulative_tsn)\<close>\<close>

function skip_to_tsn :: "u32 \<Rightarrow> association \<Rightarrow> association" where
  "skip_to_tsn new_cum a =
     (if sna32lt (peer_last_tsn a) new_cum
      then skip_to_tsn new_cum
             (a\<lparr>rcv_queue := snd (pq_pop (peer_last_tsn a + 1) (rcv_queue a)), peer_last_tsn := peer_last_tsn a + 1\<rparr>)
      else a)"
  by pat_completeness auto
termination
  by (relation "measure (\<lambda>(t, a). unat (t - peer_last_tsn a))") (auto intro: sna32.lt_step_dist)

declare skip_to_tsn.simps [simp del]

definition handle_forward_tsn :: "chunk_forward_tsn \<Rightarrow> packet list act" where
  "handle_forward_tsn c a =
     (if \<not> use_forward_tsn a then (Ok [create_packet [ChunkError [\<lparr>ec_code = 0, ec_raw = []\<rparr>]] a], a)
      else if sna32lte (new_cumulative_tsn c) (peer_last_tsn a) then
        (Ok [], wake (a\<lparr>ack_st := Immediate, ack_timer_f := map_option ack_stop (ack_timer_f a)\<rparr>))
      else
        let a = skip_to_tsn (new_cumulative_tsn c) a;
            a = a\<lparr>streams := hm_map (handle_forward_tsn_for_unordered (new_cumulative_tsn c)) (streams a)\<rparr>
        in handle_peer_last_tsn_and_acknowledgement False a)"

section \<open>Processing acknowledgements\<close>

text \<open>\<^verbatim>\<open>bytes_acked_per_stream\<close>: add to the entry of a stream or create it.\<close>

definition add_acked :: "u16 \<Rightarrow> int \<Rightarrow> (u16, int) hash_map \<Rightarrow> (u16, int) hash_map" where
  "add_acked si n m = (case hm_get m si of Some k \<Rightarrow> hm_insert si (k + n) m | None \<Rightarrow> hm_insert si n m)"

definition measure_rtt :: "nat \<Rightarrow> chunk_payload_data \<Rightarrow> unit act" where
  "measure_rtt now c a =
     (let a = a\<lparr>min_tsn2measure_rtt := my_next_tsn a\<rparr> in
      if now < since c then (Err ErrInvalidSystemTime, a)
      else (Ok (), a\<lparr>rto_mgr := snd (set_new_rtt (of_nat (now - since c)) (rto_mgr a))\<rparr>))"

text \<open>The body of the loop over the TSNs up to the cumulative acknowledgement.\<close>

definition sack_pop_one :: "nat \<Rightarrow> u32 \<Rightarrow> (u16, int) hash_map \<Rightarrow> (u16, int) hash_map act" where
  "sack_pop_one now i acc a =
     (case pq_pop i (inflight_queue a) of
        (Some c, q) \<Rightarrow>
          abind (\<lambda>a.
            if \<not> acked c then
              let a = (if i = cumulative_tsn_ack_point a + 1 then a\<lparr>t3rtx := timer_stop (t3rtx a)\<rparr> else a);
                  acc = add_acked (stream_identifier c) (int (length (user_data c))) acc
              in if nsent c = 1 \<and> sna32gte (tsn c) (min_tsn2measure_rtt a)
                 then abind (measure_rtt now c) (\<lambda>_. ret acc) a
                 else (Ok acc, a)
            else (Ok acc, a)) (\<lambda>acc a.
          (Ok acc, if in_fast_recovery a \<and> tsn c = fast_recover_exit_point a
                   then a\<lparr>in_fast_recovery := False\<rparr> else a)) (a\<lparr>inflight_queue := q\<rparr>)
      | (None, q) \<Rightarrow> (Err ErrInflightQueueTsnPop, a\<lparr>inflight_queue := q\<rparr>))"

lemma sna32lte_step: "sna32lte i t \<Longrightarrow> sna32lte (i + 1) t \<Longrightarrow> unat (t - (i + 1)) < unat (t - i)"
  using unat_succ_diff [of i t] by (cases "i = t") (auto simp: sna32lte_iff unsigned_minus_1_eq_mask mask_eq_exp_minus_1)

lemma sna32lte_end: "sna32lte i t \<Longrightarrow> \<not> sna32lte (i + 1) t \<Longrightarrow> i = t"
  using unat_succ_diff [of i t] by (cases "i = t") (auto simp: sna32lte_iff)

abbreviation upto_measure :: "u32 \<Rightarrow> u32 \<Rightarrow> nat" where
  "upto_measure i t \<equiv> (if sna32lte i t then Suc (unat (t - i)) else 0)"

lemma upto_measure_step: "sna32lte i t \<Longrightarrow> upto_measure (i + 1) t < upto_measure i t"
  using sna32lte_step [of i t] by auto

function sack_cum_loop :: "nat \<Rightarrow> u32 \<Rightarrow> u32 \<Rightarrow> (u16, int) hash_map \<Rightarrow> (u16, int) hash_map act" where
  "sack_cum_loop now cum_ack i acc a =
     (if sna32lte i cum_ack
      then abind (sack_pop_one now i acc) (\<lambda>acc a. sack_cum_loop now cum_ack (i + 1) acc a) a
      else (Ok acc, a))"
  by pat_completeness auto
termination
  by (relation "measure (\<lambda>(_, t, i, _, _). upto_measure i t)") (auto dest: sna32lte_step)

declare sack_cum_loop.simps [simp del]

definition sack_gap_one :: "nat \<Rightarrow> u32 \<Rightarrow> (u16, int) hash_map \<times> u32 \<Rightarrow> ((u16, int) hash_map \<times> u32) act" where
  "sack_gap_one now t = (\<lambda>(acc, htna) a.
     let (is_existed, is_acked) = (case pq_get (inflight_queue a) t of Some c \<Rightarrow> (True, acked c) | None \<Rightarrow> (False, False));
         (n_bytes_acked, a) =
           (if is_existed \<and> \<not> is_acked
            then case mark_as_acked t (inflight_queue a) of (n, q) \<Rightarrow> (int n, a\<lparr>inflight_queue := q\<rparr>)
            else (0, a))
     in case pq_get (inflight_queue a) t of
          Some c \<Rightarrow>
            if \<not> is_acked then
              let acc = add_acked (stream_identifier c) n_bytes_acked acc in
              abind (if nsent c = 1 then measure_rtt now c else ret ()) (\<lambda>_.
                ret (acc, if sna32lt htna t then t else htna)) a
            else (Ok (acc, htna), a)
        | None \<Rightarrow> (Err ErrTsnRequestNotExist, a))"

fun sack_gap_loop :: "nat \<Rightarrow> u32 list \<Rightarrow> (u16, int) hash_map \<times> u32 \<Rightarrow> ((u16, int) hash_map \<times> u32) act" where
  "sack_gap_loop now [] acc a = (Ok acc, a)"
| "sack_gap_loop now (t # ts) acc a = abind (sack_gap_one now t acc) (\<lambda>acc a. sack_gap_loop now ts acc a) a"

definition process_selective_ack :: "nat \<Rightarrow> chunk_selective_ack \<Rightarrow> ((u16, int) hash_map \<times> u32) act" where
  "process_selective_ack now d a =
     abind (sack_cum_loop now (cumulative_tsn_ack d) (cumulative_tsn_ack_point a + 1) []) (\<lambda>acc.
       sack_gap_loop now (gap_tsns (cumulative_tsn_ack d) (gap_ack_blocks d)) (acc, cumulative_tsn_ack d)) a"

definition on_cumulative_tsn_ack_point_advanced :: "int \<Rightarrow> association \<Rightarrow> association" where
  "on_cumulative_tsn_ack_point_advanced total_bytes_acked a =
     (let a = (if pq_is_empty (inflight_queue a) then a\<lparr>t3rtx := timer_stop (t3rtx a)\<rparr>
               else a\<lparr>t3rtx := timer_start (get_rto (rto_mgr a)) (t3rtx a)\<rparr>)
      in
      if cwnd a \<le> ssthresh a then
        if \<not> in_fast_recovery a \<and> pend_len (pending (sh a)) > 0
        then a\<lparr>cwnd := cwnd a + min (of_int total_bytes_acked) (cwnd a)\<rparr>
        else a
      else
        let a = a\<lparr>partial_bytes_acked := partial_bytes_acked a + of_int total_bytes_acked\<rparr> in
        if partial_bytes_acked a \<ge> cwnd a \<and> pend_len (pending (sh a)) > 0
        then a\<lparr>partial_bytes_acked := partial_bytes_acked a - cwnd a, cwnd := cwnd a + mtu a\<rparr>
        else a)"

text \<open>The miss-indication of one chunk; the third one starts fast recovery.\<close>

definition count_miss :: "u32 \<Rightarrow> u32 \<Rightarrow> chunk_payload_data \<Rightarrow> association \<Rightarrow> association" where
  "count_miss htna t c a =
     (if \<not> acked c \<and> \<not> chunk_abandoned (flags (sh a)) c \<and> miss_indicator c < 3 then
        let a = a\<lparr>inflight_queue := pq_update t (\<lambda>c. c\<lparr>miss_indicator := miss_indicator c + 1\<rparr>) (inflight_queue a)\<rparr>
        in if miss_indicator c + 1 = 3 \<and> \<not> in_fast_recovery a then
             let thresh = max (cwnd a div 2) (4 * mtu a) in
             a\<lparr>in_fast_recovery := True, fast_recover_exit_point := htna, ssthresh := thresh, cwnd := thresh,
               partial_bytes_acked := 0, will_retransmit_fast := True\<rparr>
           else a
      else a)"

function fast_retrans_loop :: "u32 \<Rightarrow> u32 \<Rightarrow> u32 \<Rightarrow> unit act" where
  "fast_retrans_loop htna max_tsn t a =
     (if sna32lt t max_tsn then
        (case pq_get (inflight_queue a) t of
           Some c \<Rightarrow> fast_retrans_loop htna max_tsn (t + 1) (count_miss htna t c a)
         | None \<Rightarrow> (Err ErrTsnRequestNotExist, a))
      else (Ok (), a))"
  by pat_completeness auto
termination
  by (relation "measure (\<lambda>(_, m, t, _). unat (m - t))") (auto intro: sna32.lt_step_dist)

declare fast_retrans_loop.simps [simp del]

definition process_fast_retransmission :: "u32 \<Rightarrow> u32 \<Rightarrow> bool \<Rightarrow> unit act" where
  "process_fast_retransmission cum_tsn_ack_point htna advanced a =
     abind (\<lambda>a.
       if \<not> in_fast_recovery a \<or> advanced then
         let max_tsn = (if \<not> in_fast_recovery a then htna
                        else cum_tsn_ack_point + of_nat (length (chunk_map (inflight_queue a))) + 1)
         in fast_retrans_loop htna max_tsn (cum_tsn_ack_point + 1) a
       else (Ok (), a)) (\<lambda>_ a.
     (Ok (), if in_fast_recovery a \<and> advanced then a\<lparr>will_retransmit_fast := True\<rparr> else a)) a"

text \<open>
  The consecutive TSNs from \<open>t\<close> on that a queue holds. The loops that run until the first missing TSN
  visit exactly these; they change chunks in place but neither add nor remove any, and a queue of
  fewer than \<open>2 ^ 32\<close> chunks has a gap after at most as many steps as it has chunks.
\<close>

fun present_from :: "payload_queue \<Rightarrow> u32 \<Rightarrow> nat \<Rightarrow> u32 list" where
  "present_from q t 0 = []"
| "present_from q t (Suc n) = (if pq_get q t \<noteq> None then t # present_from q (t + 1) n else [])"

definition pq_run :: "payload_queue \<Rightarrow> u32 \<Rightarrow> u32 list" where
  "pq_run q t = present_from q t (length (chunk_map q))"

text \<open>\<^verbatim>\<open>while let Some(c) = self.inflight_queue.get(i)\<close> over abandoned chunks.\<close>

fun advance_abandoned :: "flag_heap \<Rightarrow> payload_queue \<Rightarrow> u32 list \<Rightarrow> u32 \<Rightarrow> u32" where
  "advance_abandoned h q [] adv = adv"
| "advance_abandoned h q (i # is) adv =
     (case pq_get q i of
        Some c \<Rightarrow> if chunk_abandoned h c then advance_abandoned h q is i else adv
      | None \<Rightarrow> adv)"

text \<open>RFC 3758 Sec 3.5 C2 and C3, used after a SACK and after a T3 timeout.\<close>

definition advance_peer_ack_point :: "association \<Rightarrow> association" where
  "advance_peer_ack_point a =
     (let adv = advance_abandoned (flags (sh a)) (inflight_queue a)
                  (pq_run (inflight_queue a) (advanced_peer_tsn_ack_point a + 1)) (advanced_peer_tsn_ack_point a);
          a = a\<lparr>advanced_peer_tsn_ack_point := adv\<rparr>
      in if sna32gt (advanced_peer_tsn_ack_point a) (cumulative_tsn_ack_point a)
         then a\<lparr>will_send_forward_tsn := True\<rparr> else a)"

definition postprocess_sack :: "association_state \<Rightarrow> bool \<Rightarrow> association \<Rightarrow> association" where
  "postprocess_sack st should_awake a =
     (let (should_awake, a) =
        (if \<not> pq_is_empty (inflight_queue a)
         then (should_awake, a\<lparr>t3rtx := timer_start (get_rto (rto_mgr a)) (t3rtx a)\<rparr>)
         else if st = ShutdownPending then (True, set_state ShutdownSent (a\<lparr>will_send_shutdown := True\<rparr>))
         else if st = ShutdownReceived then (True, set_state ShutdownAckSent (a\<lparr>will_send_shutdown_ack := True\<rparr>))
         else (should_awake, a))
      in if should_awake then wake a else a)"

text \<open>What a SACK does once its acknowledgements are processed.\<close>

definition sack_update_rwnd :: "u32 \<Rightarrow> association \<Rightarrow> association" where
  "sack_update_rwnd arwnd a =
     (let bytes_outstanding = of_nat (n_bytes (inflight_queue a)) in
      a\<lparr>rwnd := (if bytes_outstanding \<ge> arwnd then 0 else arwnd - bytes_outstanding)\<rparr>)"

text \<open>\<^verbatim>\<open>on_buffer_released\<close> for every stream with acknowledged bytes.\<close>

definition release_buffers :: "(u16, int) hash_map \<Rightarrow> association \<Rightarrow> association" where
  "release_buffers acked_per_stream a =
     fold (\<lambda>(si, n) a. a\<lparr>streams := hm_adjust si (\<lambda>s. snd (on_buffer_released n s)) (streams a)\<rparr>)
       acked_per_stream a"

text \<open>RFC 3758 Sec 3.5 C1 to C3, when the peer supports FORWARD-TSN.\<close>

definition sack_forward_tsn :: "association \<Rightarrow> association" where
  "sack_forward_tsn a =
     (if use_forward_tsn a then
        let a = (if sna32lt (advanced_peer_tsn_ack_point a) (cumulative_tsn_ack_point a)
                 then a\<lparr>advanced_peer_tsn_ack_point := cumulative_tsn_ack_point a\<rparr> else a)
        in wake (advance_peer_ack_point a)
      else a)"

text \<open>Everything \<^verbatim>\<open>handle_sack\<close> does after \<^verbatim>\<open>process_selective_ack\<close>.\<close>

definition sack_processed ::
  "association_state \<Rightarrow> chunk_selective_ack \<Rightarrow> (u16, int) hash_map \<times> u32 \<Rightarrow> packet list act" where
  "sack_processed st d = (\<lambda>(acked_per_stream, htna) a.
     let total_bytes_acked = sum_list (hm_values acked_per_stream);
         advanced = sna32lt (cumulative_tsn_ack_point a) (cumulative_tsn_ack d);
         a = (if advanced
              then on_cumulative_tsn_ack_point_advanced total_bytes_acked
                     (a\<lparr>cumulative_tsn_ack_point := cumulative_tsn_ack d\<rparr>)
              else a);
         a = release_buffers acked_per_stream a;
         a = sack_update_rwnd (sack_advertised_receiver_window_credit d) a
     in abind (process_fast_retransmission (cumulative_tsn_ack d) htna advanced) (\<lambda>_ a.
          (Ok [], postprocess_sack st advanced (sack_forward_tsn a))) a)"

definition handle_sack :: "nat \<Rightarrow> chunk_selective_ack \<Rightarrow> packet list act" where
  "handle_sack now d a =
     (let st = a_state a in
      if st \<noteq> Established \<and> st \<noteq> ShutdownPending \<and> st \<noteq> ShutdownReceived then (Ok [], a)
      else
        let a = a\<lparr>stats := (stats a)\<lparr>n_sacks := n_sacks (stats a) + 1\<rparr>\<rparr> in
        if sna32gt (cumulative_tsn_ack_point a) (cumulative_tsn_ack d) then (Ok [], a)
        else abind (process_selective_ack now d) (sack_processed st d) a)"

section \<open>Shutdown\<close>

definition handle_shutdown :: "packet list act" where
  "handle_shutdown a =
     (if a_state a = Established then
        if \<not> pq_is_empty (inflight_queue a) then (Ok [], set_state ShutdownReceived a)
        else (Ok [], wake (set_state ShutdownAckSent (a\<lparr>will_send_shutdown_ack := True\<rparr>)))
      else if a_state a = ShutdownSent
      then (Ok [], wake (set_state ShutdownAckSent (a\<lparr>will_send_shutdown_ack := True\<rparr>)))
      else (Ok [], a))"

definition handle_shutdown_ack :: "packet list act" where
  "handle_shutdown_ack a =
     (if a_state a = ShutdownSent \<or> a_state a = ShutdownAckSent
      then (Ok [], wake (a\<lparr>t2shutdown := timer_stop (t2shutdown a), will_send_shutdown_complete := True\<rparr>))
      else (Ok [], a))"

definition handle_shutdown_complete :: "packet list act" where
  "handle_shutdown_complete a =
     (if a_state a = ShutdownAckSent
      then (Ok [], assoc_close (a\<lparr>t2shutdown := timer_stop (t2shutdown a)\<rparr>))
      else (Ok [], a))"

section \<open>Dispatch\<close>

definition handle_chunk_start :: "association \<Rightarrow> association" where
  "handle_chunk_start a = a\<lparr>delayed_ack_triggered := False, immediate_ack_triggered := False\<rparr>"

definition handle_chunk_end :: "association \<Rightarrow> association" where
  "handle_chunk_end a =
     (if immediate_ack_triggered a
      then wake (a\<lparr>ack_st := Immediate, ack_timer_f := map_option ack_stop (ack_timer_f a)\<rparr>)
      else if delayed_ack_triggered a
      then a\<lparr>ack_st := Delay, ack_timer_f := map_option (\<lambda>t. snd (ack_start t)) (ack_timer_f a)\<rparr>
      else a)"

fun chunk_handler :: "nat \<Rightarrow> bytes \<Rightarrow> packet \<Rightarrow> chunk \<Rightarrow> packet list act" where
  "chunk_handler now ck p (ChunkInit c) = (if is_ack c then handle_init_ack p c else handle_init ck p c)"
| "chunk_handler now ck p (ChunkAbort _) = raise ErrChunk"
| "chunk_handler now ck p (ChunkError _) = raise ErrChunk"
| "chunk_handler now ck p (ChunkHeartbeat ps) = handle_heartbeat ps"
| "chunk_handler now ck p (ChunkCookieEcho c) = handle_cookie_echo c"
| "chunk_handler now ck p ChunkCookieAck = handle_cookie_ack"
| "chunk_handler now ck p (ChunkPayloadData c) = handle_data c"
| "chunk_handler now ck p (ChunkSelectiveAck c) = handle_sack now c"
| "chunk_handler now ck p (ChunkReconfig c) = handle_reconfig c"
| "chunk_handler now ck p (ChunkForwardTsn c) = handle_forward_tsn c"
| "chunk_handler now ck p (ChunkShutdown _) = handle_shutdown"
| "chunk_handler now ck p ChunkShutdownAck = handle_shutdown_ack"
| "chunk_handler now ck p ChunkShutdownComplete = handle_shutdown_complete"
| "chunk_handler now ck p (ChunkHeartbeatAck _) = raise ErrChunkTypeUnhandled"

definition handle_chunk :: "nat \<Rightarrow> bytes \<Rightarrow> packet \<Rightarrow> chunk \<Rightarrow> unit act" where
  "handle_chunk now ck p c =
     abind (\<lambda>a. (chunk_check c, a)) (\<lambda>_.
     abind (chunk_handler now ck p c) (\<lambda>packets a.
       (Ok (), if packets \<noteq> [] then wake (a\<lparr>control_queue := control_queue a @ packets\<rparr>) else a)))"

fun handle_chunks :: "nat \<Rightarrow> bytes \<Rightarrow> packet \<Rightarrow> chunk list \<Rightarrow> unit act" where
  "handle_chunks now ck p [] = ret ()"
| "handle_chunks now ck p (c # cs) = abind (handle_chunk now ck p c) (\<lambda>_. handle_chunks now ck p cs)"

text \<open>A packet that cannot be parsed or validated is dropped; a panic in the parser is not caught.\<close>

definition handle_inbound :: "(bytes \<Rightarrow> u32) \<Rightarrow> nat \<Rightarrow> bytes \<Rightarrow> bytes \<Rightarrow> unit act" where
  "handle_inbound crc now ck raw a =
     (case packet_unmarshal crc now raw of
        Panic \<Rightarrow> (Panic, a)
      | Err _ \<Rightarrow> (Ok (), a)
      | Ok p \<Rightarrow>
          (case check_packet p of
             Ok _ \<Rightarrow> abind (handle_chunks now ck p (chunks p)) (\<lambda>_ a. (Ok (), handle_chunk_end a)) (handle_chunk_start a)
           | _ \<Rightarrow> (Ok (), a)))"

end
