(* ===== verification/Sctp_Outbound.thy ===== *)
theory Sctp_Outbound
  imports Sctp_Inbound
begin

text \<open>
  The outbound half of \<^verbatim>\<open>association_internal.rs\<close> and the loops of \<^verbatim>\<open>association/mod.rs\<close>: moving pending
  chunks into flight, retransmission, bundling, SACK and FORWARD-TSN construction, the timer
  callbacks, the start of a client and the interleaving of everything that can happen to it.
\<close>

section \<open>Partial reliability\<close>

definition check_partial_reliability_status :: "chunk_payload_data \<Rightarrow> association \<Rightarrow> association" where
  "check_partial_reliability_status c a =
     (if \<not> use_forward_tsn a then a
      else if payload_type c = Dcep then a
      else if hm_get (streams a) (stream_identifier c) \<noteq> None
      then a\<lparr>sh := (sh a)\<lparr>flags := set_abandoned (flags (sh a)) c True\<rparr>\<rparr>
      else a)"

text \<open>The loop of \<^verbatim>\<open>create_forward_tsn\<close>: the greatest SSN of each stream among the skipped chunks.\<close>

function forward_tsn_streams :: "association \<Rightarrow> u32 \<Rightarrow> (u16, u16) hash_map \<Rightarrow> (u16, u16) hash_map" where
  "forward_tsn_streams a i m =
     (if sna32lte i (advanced_peer_tsn_ack_point a) then
        (case pq_get (inflight_queue a) i of
           Some c \<Rightarrow>
             forward_tsn_streams a (i + 1)
               (case hm_get m (stream_identifier c) of
                  Some ssn \<Rightarrow> if sna16lt ssn (stream_sequence_number c)
                              then hm_insert (stream_identifier c) (stream_sequence_number c) m else m
                | None \<Rightarrow> hm_insert (stream_identifier c) (stream_sequence_number c) m)
         | None \<Rightarrow> m)
      else m)"
  by pat_completeness auto
termination
  by (relation "measure (\<lambda>(a, i, _). upto_measure i (advanced_peer_tsn_ack_point a))") (auto dest: sna32lte_step)

declare forward_tsn_streams.simps [simp del]

definition create_forward_tsn :: "association \<Rightarrow> chunk_forward_tsn" where
  "create_forward_tsn a =
     \<lparr>new_cumulative_tsn = advanced_peer_tsn_ack_point a,
      fwd_streams = map (\<lambda>(si, ssn). \<lparr>fts_identifier = si, fts_sequence = ssn\<rparr>)
        (forward_tsn_streams a (cumulative_tsn_ack_point a + 1) [])\<rparr>"

section \<open>Sending data\<close>

definition move_pending_data_chunk_to_inflight_queue ::
  "nat \<Rightarrow> bool \<Rightarrow> bool \<Rightarrow> association \<Rightarrow> chunk_payload_data option \<times> association" where
  "move_pending_data_chunk_to_inflight_queue now bf un a =
     (case pend_pop bf un (pending (sh a)) of
        (Some c, pq) \<Rightarrow>
          let a = a\<lparr>sh := (sh a)\<lparr>pending := pq\<rparr>\<rparr>;
              a = (if ending_fragment c then a\<lparr>sh := (sh a)\<lparr>flags := set_all_inflight (flags (sh a)) c\<rparr>\<rparr> else a);
              (t, a) = generate_next_tsn a;
              c = c\<lparr>tsn := t, since := now, nsent := 1\<rparr>;
              a = check_partial_reliability_status c a
          in (Some c, a\<lparr>inflight_queue := push_no_check c (inflight_queue a)\<rparr>)
      | (None, pq) \<Rightarrow> (None, a\<lparr>sh := (sh a)\<lparr>pending := pq\<rparr>\<rparr>))"

text \<open>
  The loop of \<^verbatim>\<open>pop_pending_data_chunks_to_send\<close>. A refused pop leaves the queue as it is and the loop
  peeks again, so it is a partial function; it returns on every queue that satisfies the invariant.
\<close>

partial_function (option) pop_pending_loop ::
  "nat \<Rightarrow> chunk_payload_data list \<Rightarrow> u16 list \<Rightarrow> association \<Rightarrow>
   (chunk_payload_data list \<times> u16 list \<times> association) option" where
  "pop_pending_loop now cs sis a =
     (case pend_peek (pending (sh a)) of
        None \<Rightarrow> Some (cs, sis, a)
      | Some c \<Rightarrow>
          let data_len = length (user_data c) in
          if data_len = 0 then
            pop_pending_loop now cs (sis @ [stream_identifier c])
              (a\<lparr>sh := (sh a)\<lparr>pending := snd (pend_pop (beginning_fragment c) (unordered c) (pending (sh a)))\<rparr>\<rparr>)
          else if n_bytes (inflight_queue a) + data_len > unat (cwnd a) then Some (cs, sis, a)
          else if data_len > unat (rwnd a) then Some (cs, sis, a)
          else
            let (moved, a') = move_pending_data_chunk_to_inflight_queue now (beginning_fragment c) (unordered c)
                  (a\<lparr>rwnd := rwnd a - of_nat data_len\<rparr>)
            in pop_pending_loop now (case moved of Some chunk \<Rightarrow> cs @ [chunk] | None \<Rightarrow> cs) sis a')"

definition pop_pending_data_chunks_to_send ::
  "nat \<Rightarrow> association \<Rightarrow> (chunk_payload_data list \<times> u16 list \<times> association) option" where
  "pop_pending_data_chunks_to_send now a =
     (if pend_len (pending (sh a)) \<noteq> 0 then
        Option.bind (pop_pending_loop now [] [] a) (\<lambda>(cs, sis, a).
          if cs = [] \<and> pq_is_empty (inflight_queue a) then
            (case pend_peek (pending (sh a)) of
               Some c \<Rightarrow>
                 (case move_pending_data_chunk_to_inflight_queue now (beginning_fragment c) (unordered c) a of
                    (Some chunk, a) \<Rightarrow> Some (cs @ [chunk], sis, a)
                  | (None, a) \<Rightarrow> Some (cs, sis, a))
             | None \<Rightarrow> Some (cs, sis, a))
          else Some (cs, sis, a))
      else Some ([], [], a))"

fun bundle_loop :: "association \<Rightarrow> chunk_payload_data list \<Rightarrow> chunk list \<Rightarrow> u32 \<Rightarrow> packet list \<Rightarrow> packet list"
  where
  "bundle_loop a [] to_send bytes_in_packet packets =
     (if to_send \<noteq> [] then packets @ [create_packet to_send a] else packets)"
| "bundle_loop a (c # cs) to_send bytes_in_packet packets =
     (let len = of_nat (length (user_data c)) in
      if bytes_in_packet + len > mtu a
      then bundle_loop a cs [ChunkPayloadData c] (COMMON_HEADER_SIZE + (DATA_CHUNK_HEADER_SIZE + len))
             (packets @ [create_packet to_send a])
      else bundle_loop a cs (to_send @ [ChunkPayloadData c])
             (bytes_in_packet + (DATA_CHUNK_HEADER_SIZE + len)) packets)"

definition bundle_data_chunks_into_packets :: "chunk_payload_data list \<Rightarrow> association \<Rightarrow> packet list" where
  "bundle_data_chunks_into_packets cs a = bundle_loop a cs [] COMMON_HEADER_SIZE []"

text \<open>The loop of \<^verbatim>\<open>get_data_packets_to_retransmit\<close> over the consecutive TSNs in flight.\<close>

fun retransmit_loop :: "u32 \<Rightarrow> u32 list \<Rightarrow> nat \<Rightarrow> nat \<Rightarrow> chunk_payload_data list \<Rightarrow> association \<Rightarrow>
    chunk_payload_data list \<times> association" where
  "retransmit_loop awnd [] i bytes_to_send cs a = (cs, a)"
| "retransmit_loop awnd (t # ts) i bytes_to_send cs a =
     (case pq_get (inflight_queue a) t of
        None \<Rightarrow> (cs, a)
      | Some c \<Rightarrow>
          if \<not> retransmit c then retransmit_loop awnd ts (i + 1) bytes_to_send cs a
          else
            let len = length (user_data c);
                probe = (i = 0 \<and> rwnd a < of_nat len);
                c' = c\<lparr>retransmit := False, nsent := nsent c + 1\<rparr>
            in
            if \<not> probe \<and> bytes_to_send + len > unat awnd then (cs, a)
            else
              let a = check_partial_reliability_status c'
                        (a\<lparr>inflight_queue := pq_update t (\<lambda>_. c') (inflight_queue a)\<rparr>)
              in if probe then (cs @ [c'], a)
                 else retransmit_loop awnd ts (i + 1) (bytes_to_send + len) (cs @ [c']) a)"

definition get_data_packets_to_retransmit :: "association \<Rightarrow> packet list \<times> association" where
  "get_data_packets_to_retransmit a =
     (case retransmit_loop (min (cwnd a) (rwnd a)) (pq_run (inflight_queue a) (cumulative_tsn_ack_point a + 1)) 0 0 [] a of
        (cs, a) \<Rightarrow> (bundle_data_chunks_into_packets cs a, a))"

section \<open>Gathering packets\<close>

text \<open>\<^verbatim>\<open>if let Ok(raw) = p.marshal() { raw_packets.push(raw) }\<close>\<close>

definition marshal_all :: "(bytes \<Rightarrow> u32) \<Rightarrow> packet list \<Rightarrow> bytes list" where
  "marshal_all crc ps = concat (map (\<lambda>p. case packet_marshal crc p of Ok raw \<Rightarrow> [raw] | _ \<Rightarrow> []) ps)"

definition gather_data_packets_to_retransmit :: "(bytes \<Rightarrow> u32) \<Rightarrow> bytes list \<Rightarrow> association \<Rightarrow> bytes list \<times> association"
  where
  "gather_data_packets_to_retransmit crc raws a =
     (case get_data_packets_to_retransmit a of (ps, a) \<Rightarrow> (raws @ marshal_all crc ps, a))"

definition gather_outbound_data_and_reconfig_packets ::
  "(bytes \<Rightarrow> u32) \<Rightarrow> nat \<Rightarrow> bytes list \<Rightarrow> association \<Rightarrow> (bytes list \<times> association) option" where
  "gather_outbound_data_and_reconfig_packets crc now raws a =
     Option.bind (pop_pending_data_chunks_to_send now a) (\<lambda>(cs, sis_to_reset, a).
       let (raws, a) =
             (if cs \<noteq> [] then
                let a = a\<lparr>t3rtx := timer_start (get_rto (rto_mgr a)) (t3rtx a)\<rparr>
                in (raws @ marshal_all crc (bundle_data_chunks_into_packets cs a), a)
              else (raws, a))
       in
       if sis_to_reset \<noteq> [] \<or> will_retransmit_reconfig a then
         let (raws, a) =
               (if will_retransmit_reconfig a then
                  let a = a\<lparr>will_retransmit_reconfig := False\<rparr>
                  in (raws @ marshal_all crc (map (\<lambda>c. create_packet [ChunkReconfig c] a) (hm_values (reconfigs a))), a)
                else (raws, a));
             (raws, a) =
               (if sis_to_reset \<noteq> [] then
                  let (rsn, a) = generate_next_rsn a;
                      t = my_next_tsn a - 1;
                      c = \<lparr>param_a = Some (ParamOutgoingResetRequest
                             \<lparr>reconfig_request_sequence_number = rsn, req_reconfig_response_sequence_number = 0,
                              sender_last_tsn = t, stream_identifiers = sis_to_reset\<rparr>), param_b = None\<rparr>;
                      a = a\<lparr>reconfigs := hm_insert rsn c (reconfigs a)\<rparr>
                  in (raws @ marshal_all crc [create_packet [ChunkReconfig c] a], a)
                else (raws, a))
         in Some (raws, if reconfigs a \<noteq> [] then a\<lparr>treconfig := timer_start (get_rto (rto_mgr a)) (treconfig a)\<rparr> else a)
       else Some (raws, a))"

text \<open>The loop of the fast retransmission: at most one packet.\<close>

fun fast_retransmit_loop :: "u32 list \<Rightarrow> u32 \<Rightarrow> chunk list \<Rightarrow> association \<Rightarrow> chunk list \<times> association" where
  "fast_retransmit_loop [] sz cs a = (cs, a)"
| "fast_retransmit_loop (t # ts) sz cs a =
     (case pq_get (inflight_queue a) t of
        None \<Rightarrow> (cs, a)
      | Some c \<Rightarrow>
          if acked c \<or> chunk_abandoned (flags (sh a)) c \<or> nsent c > 1 \<or> miss_indicator c < 3
          then fast_retransmit_loop ts sz cs a
          else
            let data_chunk_size = DATA_CHUNK_HEADER_SIZE + of_nat (length (user_data c)) in
            if mtu a < sz + data_chunk_size then (cs, a)
            else
              let c' = c\<lparr>nsent := nsent c + 1\<rparr>;
                  a = a\<lparr>stats := (stats a)\<lparr>n_fast_retrans := n_fast_retrans (stats a) + 1\<rparr>,
                        inflight_queue := pq_update t (\<lambda>_. c') (inflight_queue a)\<rparr>;
                  a = check_partial_reliability_status c' a
              in fast_retransmit_loop ts (sz + data_chunk_size) (cs @ [ChunkPayloadData c']) a)"

definition gather_outbound_fast_retransmission_packets ::
  "(bytes \<Rightarrow> u32) \<Rightarrow> bytes list \<Rightarrow> association \<Rightarrow> bytes list \<times> association" where
  "gather_outbound_fast_retransmission_packets crc raws a =
     (if will_retransmit_fast a then
        let a = a\<lparr>will_retransmit_fast := False\<rparr>;
            (cs, a) = fast_retransmit_loop (pq_run (inflight_queue a) (cumulative_tsn_ack_point a + 1))
                        COMMON_HEADER_SIZE [] a
        in (if cs \<noteq> [] then raws @ marshal_all crc [create_packet cs a] else raws, a)
      else (raws, a))"

definition create_selective_ack_chunk :: "association \<Rightarrow> chunk_selective_ack \<times> association" where
  "create_selective_ack_chunk a =
     (let (dups, q) = pop_duplicates (rcv_queue a) in
      (\<lparr>cumulative_tsn_ack = peer_last_tsn a,
        sack_advertised_receiver_window_credit = get_my_receiver_window_credit a,
        gap_ack_blocks = get_gap_ack_blocks (rcv_queue a) (peer_last_tsn a), duplicate_tsn = dups\<rparr>,
       a\<lparr>rcv_queue := q\<rparr>))"

definition gather_outbound_sack_packets :: "(bytes \<Rightarrow> u32) \<Rightarrow> bytes list \<Rightarrow> association \<Rightarrow> bytes list \<times> association"
  where
  "gather_outbound_sack_packets crc raws a =
     (if ack_st a = Immediate then
        let (sack, a) = create_selective_ack_chunk (a\<lparr>ack_st := Idle\<rparr>)
        in (raws @ marshal_all crc [create_packet [ChunkSelectiveAck sack] a], a)
      else (raws, a))"

definition gather_outbound_forward_tsn_packets ::
  "(bytes \<Rightarrow> u32) \<Rightarrow> bytes list \<Rightarrow> association \<Rightarrow> bytes list \<times> association" where
  "gather_outbound_forward_tsn_packets crc raws a =
     (if will_send_forward_tsn a then
        let a = a\<lparr>will_send_forward_tsn := False\<rparr> in
        if sna32gt (advanced_peer_tsn_ack_point a) (cumulative_tsn_ack_point a)
        then (raws @ marshal_all crc [create_packet [ChunkForwardTsn (create_forward_tsn a)] a], a)
        else (raws, a)
      else (raws, a))"

definition gather_outbound_shutdown_packets ::
  "(bytes \<Rightarrow> u32) \<Rightarrow> bytes list \<Rightarrow> association \<Rightarrow> (bytes list \<times> bool) \<times> association" where
  "gather_outbound_shutdown_packets crc raws a =
     (if will_send_shutdown a then
        let a = a\<lparr>will_send_shutdown := False\<rparr> in
        (case packet_marshal crc (create_packet [ChunkShutdown (cumulative_tsn_ack_point a)] a) of
           Ok raw \<Rightarrow> ((raws @ [raw], True), a\<lparr>t2shutdown := timer_start (get_rto (rto_mgr a)) (t2shutdown a)\<rparr>)
         | _ \<Rightarrow> ((raws, True), a))
      else if will_send_shutdown_ack a then
        let a = a\<lparr>will_send_shutdown_ack := False\<rparr> in
        (case packet_marshal crc (create_packet [ChunkShutdownAck] a) of
           Ok raw \<Rightarrow> ((raws @ [raw], True), a\<lparr>t2shutdown := timer_start (get_rto (rto_mgr a)) (t2shutdown a)\<rparr>)
         | _ \<Rightarrow> ((raws, True), a))
      else if will_send_shutdown_complete a then
        let a = a\<lparr>will_send_shutdown_complete := False\<rparr> in
        (case packet_marshal crc (create_packet [ChunkShutdownComplete] a) of
           Ok raw \<Rightarrow> ((raws @ [raw], False), a)
         | _ \<Rightarrow> ((raws, True), a))
      else ((raws, True), a))"

definition gather_outbound :: "(bytes \<Rightarrow> u32) \<Rightarrow> nat \<Rightarrow> association \<Rightarrow> ((bytes list \<times> bool) \<times> association) option"
  where
  "gather_outbound crc now a =
     (let raws = marshal_all crc (control_queue a); a = a\<lparr>control_queue := []\<rparr>; st = a_state a in
      if st = Established then
        let (raws, a) = gather_data_packets_to_retransmit crc raws a in
        Option.bind (gather_outbound_data_and_reconfig_packets crc now raws a) (\<lambda>(raws, a).
          let (raws, a) = gather_outbound_fast_retransmission_packets crc raws a;
              (raws, a) = gather_outbound_sack_packets crc raws a;
              (raws, a) = gather_outbound_forward_tsn_packets crc raws a
          in Some ((raws, True), a))
      else if st = ShutdownPending \<or> st = ShutdownSent \<or> st = ShutdownReceived then
        let (raws, a) = gather_data_packets_to_retransmit crc raws a;
            (raws, a) = gather_outbound_fast_retransmission_packets crc raws a;
            (raws, a) = gather_outbound_sack_packets crc raws a
        in Some (gather_outbound_shutdown_packets crc raws a)
      else if st = ShutdownAckSent then Some (gather_outbound_shutdown_packets crc raws a)
      else Some ((raws, True), a))"

section \<open>Timer callbacks\<close>

definition on_ack_timeout :: "association \<Rightarrow> association" where
  "on_ack_timeout a =
     wake (a\<lparr>stats := (stats a)\<lparr>n_ack_timeouts := n_ack_timeouts (stats a) + 1\<rparr>, ack_st := Immediate\<rparr>)"

fun on_retransmission_timeout :: "rtx_timer_id \<Rightarrow> association \<Rightarrow> association" where
  "on_retransmission_timeout T1Init a = snd (send_init a)"
| "on_retransmission_timeout T1Cookie a = snd (send_cookie_echo a)"
| "on_retransmission_timeout T2Shutdown a =
     (if a_state a = ShutdownSent then wake (a\<lparr>will_send_shutdown := True\<rparr>)
      else if a_state a = ShutdownAckSent then wake (a\<lparr>will_send_shutdown_ack := True\<rparr>)
      else a)"
| "on_retransmission_timeout T3RTX a =
     (let a = a\<lparr>stats := (stats a)\<lparr>n_t3timeouts := n_t3timeouts (stats a) + 1\<rparr>,
               ssthresh := max (cwnd a div 2) (4 * mtu a), cwnd := mtu a\<rparr>;
          a = (if use_forward_tsn a then advance_peer_ack_point a else a)
      in wake (a\<lparr>inflight_queue := mark_all_to_retrasmit (flags (sh a)) (inflight_queue a)\<rparr>))"
| "on_retransmission_timeout Reconfig a = wake (a\<lparr>will_retransmit_reconfig := True\<rparr>)"

fun on_retransmission_failure :: "rtx_timer_id \<Rightarrow> association \<Rightarrow> association" where
  "on_retransmission_failure T1Init a =
     a\<lparr>handshake_completed := handshake_completed a @ [Some ErrHandshakeInitAck]\<rparr>"
| "on_retransmission_failure T1Cookie a =
     a\<lparr>handshake_completed := handshake_completed a @ [Some ErrHandshakeCookieEcho]\<rparr>"
| "on_retransmission_failure _ a = a"

text \<open>A timer of the association expires: its task calls back and updates its own state.\<close>

fun get_timer :: "rtx_timer_id \<Rightarrow> association \<Rightarrow> rtx_timer option" where
  "get_timer T1Init a = t1init a"
| "get_timer T1Cookie a = t1cookie a"
| "get_timer T2Shutdown a = t2shutdown a"
| "get_timer T3RTX a = t3rtx a"
| "get_timer Reconfig a = treconfig a"

fun put_timer :: "rtx_timer_id \<Rightarrow> rtx_timer \<Rightarrow> association \<Rightarrow> association" where
  "put_timer T1Init t a = a\<lparr>t1init := Some t\<rparr>"
| "put_timer T1Cookie t a = a\<lparr>t1cookie := Some t\<rparr>"
| "put_timer T2Shutdown t a = a\<lparr>t2shutdown := Some t\<rparr>"
| "put_timer T3RTX t a = a\<lparr>t3rtx := Some t\<rparr>"
| "put_timer Reconfig t a = a\<lparr>treconfig := Some t\<rparr>"

definition timer_expires :: "rtx_timer_id \<Rightarrow> association \<Rightarrow> association" where
  "timer_expires i a =
     (case get_timer i a of
        None \<Rightarrow> a
      | Some t \<Rightarrow>
          (case rtx_fire True t of
             (Rtx_Timeout i' _, t') \<Rightarrow> on_retransmission_timeout i' (put_timer i t' a)
           | (Rtx_Failure i', t') \<Rightarrow> on_retransmission_failure i' (put_timer i t' a)
           | (Rtx_Nothing, t') \<Rightarrow> put_timer i t' a))"

definition ack_timer_expires :: "association \<Rightarrow> association" where
  "ack_timer_expires a =
     (case ack_timer_f a of
        None \<Rightarrow> a
      | Some t \<Rightarrow>
          (case ack_fire t of
             (True, t') \<Rightarrow> on_ack_timeout (a\<lparr>ack_timer_f := Some t'\<rparr>)
           | (False, t') \<Rightarrow> a\<lparr>ack_timer_f := Some t'\<rparr>))"

section \<open>The association\<close>

text \<open>
  \<^verbatim>\<open>Association::new\<close> with \<^verbatim>\<open>is_client\<close>: when it returns, the receiver of the accept channel is dropped.
\<close>

definition client_init :: "association \<Rightarrow> chunk_init" where
  "client_init a = set_forward_tsn_supported
     \<lparr>is_ack = False, initiate_tag = my_verification_tag a,
      advertised_receiver_window_credit = max_receive_buffer_size a,
      num_outbound_streams = my_max_num_outbound_streams a,
      num_inbound_streams = my_max_num_inbound_streams a, initial_tsn = my_next_tsn a, init_params = []\<rparr>"

definition association_client :: "u32 \<Rightarrow> u32 \<Rightarrow> u32 \<Rightarrow> u32 \<Rightarrow> association" where
  "association_client cfg_buffer cfg_message rnd_tsn rnd_tag =
     (let a = association_new cfg_buffer cfg_message rnd_tsn rnd_tag;
          i = client_init a;
          a = a\<lparr>t1init := Some (rtx_timer_new T1Init MAX_INIT_RETRANS),
                t1cookie := Some (rtx_timer_new T1Cookie MAX_INIT_RETRANS),
                t2shutdown := Some (rtx_timer_new T2Shutdown NO_MAX_RETRANS),
                t3rtx := Some (rtx_timer_new T3RTX NO_MAX_RETRANS),
                treconfig := Some (rtx_timer_new Reconfig NO_MAX_RETRANS),
                ack_timer_f := Some (ack_timer_new ACK_INTERVAL)\<rparr>;
          a = (set_state CookieWait a)\<lparr>stored_init := Some i\<rparr>;
          (_, a) = send_init a
      in a\<lparr>t1init := timer_start (get_rto (rto_mgr a)) (t1init a), accept_ch := None\<rparr>)"

text \<open>
  \<^verbatim>\<open>Association::client\<close> waits for the first message on the handshake channel, \<open>None\<close> while it waits.
\<close>

definition client_result :: "association \<Rightarrow> unit result option" where
  "client_result a =
     (case handshake_completed a of
        [] \<Rightarrow> None
      | Some e # _ \<Rightarrow> Some (Err e)
      | None # _ \<Rightarrow> Some (Ok ()))"

text \<open>One turn of \<^verbatim>\<open>read_loop\<close>: an error ends the loop and closes the association.\<close>

definition read_loop_turn :: "(bytes \<Rightarrow> u32) \<Rightarrow> nat \<Rightarrow> bytes \<Rightarrow> bytes \<Rightarrow> association \<Rightarrow> association" where
  "read_loop_turn crc now ck inbound a =
     (case handle_inbound crc now ck (take RECEIVE_MTU inbound) a of
        (Err _, a) \<Rightarrow> assoc_close a
      | (_, a) \<Rightarrow> a)"

text \<open>
  One turn of \<^verbatim>\<open>write_loop\<close>: gather, send (\<open>sent_ok\<close> is whether the connection took the packets) and go
  on or close. The wake-up token is taken before the next turn.
\<close>

definition write_loop_turn :: "(bytes \<Rightarrow> u32) \<Rightarrow> nat \<Rightarrow> bool \<Rightarrow> association \<Rightarrow> (bytes list \<times> association) option" where
  "write_loop_turn crc now sent_ok a =
     map_option (\<lambda>((raws, ok), a). (raws, if ok \<and> sent_ok then a else assoc_close a))
       (gather_outbound crc now (a\<lparr>sh := (sh a)\<lparr>awake := False\<rparr>\<rparr>))"

text \<open>A user writes to, closes or reads from a registered stream.\<close>

definition user_write :: "nat \<Rightarrow> u16 \<Rightarrow> bytes \<Rightarrow> payload_protocol_identifier \<Rightarrow> association \<Rightarrow>
    (nat result \<times> association) option" where
  "user_write now si p ppi a =
     (case hm_get (streams a) si of
        None \<Rightarrow> None
      | Some s \<Rightarrow> map_option (\<lambda>(r, sh', s'). (r, a\<lparr>sh := sh', streams := hm_insert si s' (streams a)\<rparr>))
          (write_sctp now p ppi (sh a, s)))"

definition user_close :: "nat \<Rightarrow> u16 \<Rightarrow> association \<Rightarrow> association" where
  "user_close now si a =
     (case hm_get (streams a) si of
        None \<Rightarrow> a
      | Some s \<Rightarrow> (case stream_close now (sh a, s) of
          (_, sh', s') \<Rightarrow> a\<lparr>sh := sh', streams := hm_insert si s' (streams a)\<rparr>))"

definition user_read :: "u16 \<Rightarrow> bytes \<Rightarrow> association \<Rightarrow>
    (nat \<times> payload_protocol_identifier) result \<times> bytes \<times> association" where
  "user_read si buf a =
     (case hm_get (streams a) si of
        None \<Rightarrow> (Err ErrStreamClosed, buf, a)
      | Some s \<Rightarrow> (case rq_read buf (reassembly s) of
          (r, buf, q) \<Rightarrow> (r, buf, a\<lparr>streams := hm_insert si (s\<lparr>reassembly := q\<rparr>) (streams a)\<rparr>)))"

text \<open>Everything that can happen to an association of a client, in any order.\<close>

inductive assoc_step :: "association \<Rightarrow> association \<Rightarrow> bool" where
  step_inbound: "assoc_step a (read_loop_turn crc now ck raw a)"
| step_write_loop: "write_loop_turn crc now sent_ok a = Some (raws, a') \<Longrightarrow> assoc_step a a'"
| step_timer: "assoc_step a (timer_expires i a)"
| step_ack_timer: "assoc_step a (ack_timer_expires a)"
| step_open: "assoc_step a (snd (open_stream si a))"
| step_user_write: "user_write now si p ppi a = Some (r, a') \<Longrightarrow> assoc_step a a'"
| step_user_close: "assoc_step a (user_close now si a)"
| step_user_read: "assoc_step a (snd (snd (user_read si buf a)))"
| step_close: "assoc_step a (assoc_close a)"

definition client_reachable :: "association \<Rightarrow> bool" where
  "client_reachable a \<longleftrightarrow> (\<exists>b m t v. assoc_step\<^sup>*\<^sup>* (association_client b m t v) a)"

end
