(* ===== verification/Sctp_Client.thy ===== *)
theory Sctp_Client
  imports Sctp_Outbound
begin

text \<open>
  What holds of the association of a client at every moment, whatever arrives from the network,
  whichever timer expires and whatever the user does: the invariant \<open>client_inv\<close> is kept by every
  handler and hence by every step.
\<close>

section \<open>Actions that keep a predicate\<close>

definition keeps :: "(association \<Rightarrow> bool) \<Rightarrow> 'a act \<Rightarrow> bool" where
  "keeps P m \<longleftrightarrow> (\<forall>a. P a \<longrightarrow> P (snd (m a)))"

lemma keepsD: "keeps P m \<Longrightarrow> P a \<Longrightarrow> P (snd (m a))"
  by (simp add: keeps_def)

lemma keeps_ret: "keeps P (ret x)" and keeps_raise: "keeps P (raise e)"
  by (simp_all add: keeps_def ret_def raise_def)

lemma abind_inv:
  assumes "P (snd (m a))" and "\<And>x. keeps P (f x)"
  shows "P (snd (abind m f a))"
proof (cases "m a")
  case (Pair r b)
  with assms keepsD [OF assms(2), of b] show ?thesis by (cases r) (simp_all add: abind_def)
qed

lemma keeps_abind: "keeps P m \<Longrightarrow> (\<And>x. keeps P (f x)) \<Longrightarrow> keeps P (abind m f)"
  unfolding keeps_def [of P "abind m f"] by (blast intro: abind_inv keepsD)

section \<open>The invariant\<close>

definition streams_ok :: "association \<Rightarrow> bool" where
  "streams_ok a \<longleftrightarrow> (\<forall>s \<in> set (hm_values (streams a)). max_payload_size s = a_max_payload_size a)"

definition client_inv :: "association \<Rightarrow> bool" where
  "client_inv a \<longleftrightarrow> stored_init a = None \<and> accept_ch a = None \<and> mtu a = INITIAL_MTU \<and>
     a_state a \<notin> {ShutdownPending, ShutdownSent} \<and> \<not> will_send_shutdown a \<and> streams_ok a \<and>
     a_max_payload_size a = INITIAL_MTU - (COMMON_HEADER_SIZE + DATA_CHUNK_HEADER_SIZE)"

text \<open>Fields the invariant does not speak of.\<close>

lemma client_inv_upd [simp]:
  "client_inv (a\<lparr>peer_verification_tag := w\<rparr>) = client_inv a"
  "client_inv (a\<lparr>my_next_tsn := w\<rparr>) = client_inv a" "client_inv (a\<lparr>peer_last_tsn := w\<rparr>) = client_inv a"
  "client_inv (a\<lparr>min_tsn2measure_rtt := w\<rparr>) = client_inv a" "client_inv (a\<lparr>will_send_forward_tsn := b\<rparr>) = client_inv a"
  "client_inv (a\<lparr>will_retransmit_fast := b\<rparr>) = client_inv a" "client_inv (a\<lparr>will_retransmit_reconfig := b\<rparr>) = client_inv a"
  "client_inv (a\<lparr>will_send_shutdown_ack := b\<rparr>) = client_inv a"
  "client_inv (a\<lparr>will_send_shutdown_complete := b\<rparr>) = client_inv a" "client_inv (a\<lparr>my_next_rsn := w\<rparr>) = client_inv a"
  "client_inv (a\<lparr>reconfigs := rc\<rparr>) = client_inv a" "client_inv (a\<lparr>reconfig_requests := rr\<rparr>) = client_inv a"
  "client_inv (a\<lparr>a_source_port := h\<rparr>) = client_inv a" "client_inv (a\<lparr>a_destination_port := h\<rparr>) = client_inv a"
  "client_inv (a\<lparr>my_max_num_inbound_streams := h\<rparr>) = client_inv a"
  "client_inv (a\<lparr>my_max_num_outbound_streams := h\<rparr>) = client_inv a" "client_inv (a\<lparr>my_cookie := ck\<rparr>) = client_inv a"
  by (simp_all add: client_inv_def a_state_def streams_ok_def)

lemma client_inv_upd_flow [simp]:
  "client_inv (a\<lparr>rcv_queue := q\<rparr>) = client_inv a" "client_inv (a\<lparr>inflight_queue := q\<rparr>) = client_inv a"
  "client_inv (a\<lparr>control_queue := ps\<rparr>) = client_inv a" "client_inv (a\<lparr>cumulative_tsn_ack_point := w\<rparr>) = client_inv a"
  "client_inv (a\<lparr>advanced_peer_tsn_ack_point := w\<rparr>) = client_inv a" "client_inv (a\<lparr>use_forward_tsn := b\<rparr>) = client_inv a"
  "client_inv (a\<lparr>cwnd := w\<rparr>) = client_inv a" "client_inv (a\<lparr>rwnd := w\<rparr>) = client_inv a"
  "client_inv (a\<lparr>ssthresh := w\<rparr>) = client_inv a" "client_inv (a\<lparr>partial_bytes_acked := w\<rparr>) = client_inv a"
  "client_inv (a\<lparr>in_fast_recovery := b\<rparr>) = client_inv a" "client_inv (a\<lparr>fast_recover_exit_point := w\<rparr>) = client_inv a"
  by (simp_all add: client_inv_def a_state_def streams_ok_def)

lemma client_inv_upd_rest [simp]:
  "client_inv (a\<lparr>rto_mgr := m\<rparr>) = client_inv a" "client_inv (a\<lparr>t1init := t\<rparr>) = client_inv a"
  "client_inv (a\<lparr>t1cookie := t\<rparr>) = client_inv a" "client_inv (a\<lparr>t2shutdown := t\<rparr>) = client_inv a"
  "client_inv (a\<lparr>t3rtx := t\<rparr>) = client_inv a" "client_inv (a\<lparr>treconfig := t\<rparr>) = client_inv a"
  "client_inv (a\<lparr>ack_timer_f := k\<rparr>) = client_inv a" "client_inv (a\<lparr>stored_cookie_echo := ck\<rparr>) = client_inv a"
  "client_inv (a\<lparr>detached := ds\<rparr>) = client_inv a" "client_inv (a\<lparr>close_loop_open := b\<rparr>) = client_inv a"
  "client_inv (a\<lparr>handshake_completed := hs\<rparr>) = client_inv a" "client_inv (a\<lparr>delayed_ack_triggered := b\<rparr>) = client_inv a"
  "client_inv (a\<lparr>immediate_ack_triggered := b\<rparr>) = client_inv a" "client_inv (a\<lparr>stats := st\<rparr>) = client_inv a"
  "client_inv (a\<lparr>ack_st := s\<rparr>) = client_inv a"
  by (simp_all add: client_inv_def a_state_def streams_ok_def)

lemma client_inv_stored_init: "client_inv a \<Longrightarrow> client_inv (a\<lparr>stored_init := None\<rparr>)"
  by (simp add: client_inv_def a_state_def streams_ok_def)

lemma client_inv_sh: "state_cell x = state_cell (sh a) \<Longrightarrow> client_inv (a\<lparr>sh := x\<rparr>) = client_inv a"
  by (simp add: client_inv_def a_state_def get_state_def streams_ok_def)

lemma client_inv_set_state:
  "client_inv a \<Longrightarrow> s \<notin> {ShutdownPending, ShutdownSent} \<Longrightarrow> client_inv (set_state s a)"
  by (simp add: client_inv_def set_state_def a_state_def get_state_def streams_ok_def)

lemma client_inv_wake [simp]: "client_inv (wake a) = client_inv a"
  by (simp add: wake_def awake_write_loop_def client_inv_sh)

lemma client_inv_streams:
  "client_inv a \<Longrightarrow> (\<And>s. s \<in> set (hm_values m) \<Longrightarrow> max_payload_size s = a_max_payload_size a) \<Longrightarrow>
    client_inv (a\<lparr>streams := m\<rparr>)"
  by (simp add: client_inv_def a_state_def streams_ok_def)

lemma hm_values_insert_in: "s \<in> set (hm_values (hm_insert k v m)) \<Longrightarrow> s = v \<or> s \<in> set (hm_values m)"
  by (induction k v m rule: hm_insert.induct) (auto simp: hm_values_def split: if_splits)

lemma hm_values_remove_in: "s \<in> set (hm_values (hm_remove k m)) \<Longrightarrow> s \<in> set (hm_values m)"
  by (auto simp: hm_values_def hm_remove_def)

lemma hm_values_adjust_in:
  "s \<in> set (hm_values (hm_adjust k f m)) \<Longrightarrow> \<exists>r \<in> set (hm_values m). s = r \<or> s = f r"
  by (force simp: hm_values_def hm_adjust_def split: if_splits)

lemma hm_values_map_in: "s \<in> set (hm_values (hm_map f m)) \<Longrightarrow> \<exists>r \<in> set (hm_values m). s = f r"
  by (force simp: hm_values_def hm_map_def)

lemma hm_get_values: "hm_get m k = Some v \<Longrightarrow> v \<in> set (hm_values m)"
  by (auto simp: hm_get_def hm_values_def dest: map_of_SomeD intro: rev_image_eqI)

lemma streams_okD: "client_inv a \<Longrightarrow> s \<in> set (hm_values (streams a)) \<Longrightarrow> max_payload_size s = a_max_payload_size a"
  by (auto simp: client_inv_def streams_ok_def)

lemma client_inv_adjust:
  assumes "client_inv a" and "\<And>s. max_payload_size (f s) = max_payload_size s"
  shows "client_inv (a\<lparr>streams := hm_adjust k f (streams a)\<rparr>)"
  using assms(1) by (rule client_inv_streams) (auto dest!: hm_values_adjust_in simp: assms streams_okD)

lemma client_inv_hm_map:
  assumes "client_inv a" and "\<And>s. max_payload_size (f s) = max_payload_size s"
  shows "client_inv (a\<lparr>streams := hm_map f (streams a)\<rparr>)"
  using assms(1) by (rule client_inv_streams) (auto dest!: hm_values_map_in simp: assms streams_okD)

lemma client_inv_insert:
  assumes "client_inv a" and "max_payload_size s = a_max_payload_size a"
  shows "client_inv (a\<lparr>streams := hm_insert k s (streams a)\<rparr>)"
  using assms(1) by (rule client_inv_streams) (auto dest!: hm_values_insert_in simp: assms streams_okD)

lemma client_inv_fold: "client_inv a \<Longrightarrow> (\<And>x b. client_inv b \<Longrightarrow> client_inv (f x b)) \<Longrightarrow> client_inv (fold f xs a)"
  by (induction xs arbitrary: a) auto

lemma max_payload_size_ops [simp]:
  "max_payload_size (stream_handle_data d s) = max_payload_size s"
  "max_payload_size (handle_forward_tsn_for_unordered t s) = max_payload_size s"
  "max_payload_size (snd (on_buffer_released n s)) = max_payload_size s"
  "max_payload_size (stream_new si w) = w"
  by (simp_all add: stream_handle_data_def handle_forward_tsn_for_unordered_def on_buffer_released_def stream_new_def
      Let_def split: prod.splits)

section \<open>Every handler keeps it\<close>

lemma client_inv_unregister: "client_inv a \<Longrightarrow> client_inv (unregister_stream si a)"
proof -
  assume a: "client_inv a"
  have "client_inv (a\<lparr>streams := hm_remove si (streams a)\<rparr>)"
    using a by (rule client_inv_streams) (auto dest!: hm_values_remove_in simp: a streams_okD)
  then show ?thesis using a by (simp add: unregister_stream_def split: option.splits)
qed

lemma client_inv_close: "client_inv a \<Longrightarrow> client_inv (assoc_close a)"
  by (simp add: assoc_close_def close_all_timers_def client_inv_fold client_inv_unregister client_inv_set_state)

lemma client_inv_send_cookie_echo: "keeps client_inv send_cookie_echo"
  by (simp add: keeps_def send_cookie_echo_def split: option.splits)

lemma client_inv_send_init: "client_inv a \<Longrightarrow> send_init a = (Err ErrInitNotStoredToSend, a)"
  by (simp add: send_init_def client_inv_def)

lemma client_inv_open_stream: "client_inv a \<Longrightarrow> client_inv (snd (open_stream si a))"
  by (simp add: open_stream_def create_stream_def Let_def client_inv_insert)

lemma client_inv_handle_init: "client_inv a \<Longrightarrow> client_inv (snd (handle_init ck p i a))"
  by (simp add: handle_init_def Let_def)

lemma client_inv_handle_init_ack:
  assumes "client_inv a"
  shows "client_inv (snd (handle_init_ack p i a))"
proof -
  have "client_inv (snd (abind (\<lambda>a. send_cookie_echo (a\<lparr>stored_cookie_echo := Some c\<rparr>))
      (\<lambda>_ a. (Ok ([] :: packet list), set_state CookieEchoed (a\<lparr>t1cookie := timer_start (get_rto (rto_mgr a)) (t1cookie a)\<rparr>))) b))"
    if "client_inv b" for b c
    using that by (intro abind_inv [where P = client_inv] keepsD [OF client_inv_send_cookie_echo])
      (simp_all add: keeps_def client_inv_set_state)
  then show ?thesis using assms
    by (simp add: handle_init_ack_def Let_def client_inv_stored_init split: option.splits)
qed

lemma client_inv_handshake:
  assumes "client_inv a"
  shows "client_inv (snd (handle_cookie_echo c a))" and "client_inv (snd (handle_cookie_ack a))"
    and "client_inv (snd (handle_heartbeat ps a))"
  using assms
  by (auto simp: handle_cookie_echo_def handle_cookie_ack_def handle_heartbeat_def Let_def client_inv_stored_init
      client_inv_set_state split: option.splits list.splits param.splits)

lemma client_inv_reset: "client_inv a \<Longrightarrow> client_inv (snd (reset_streams_if_any p a))"
  by (auto simp: reset_streams_if_any_def Let_def client_inv_unregister intro!: client_inv_fold split: option.splits)

lemma client_inv_reset_all: "client_inv a \<Longrightarrow> client_inv (snd (reset_all a))"
proof -
  have "client_inv a \<Longrightarrow> client_inv (snd (fold (\<lambda>req (reply, a).
      case reset_streams_if_any req a of (resp, a) \<Rightarrow> (reply @ [resp], a)) reqs (reply, a)))" for reqs reply
  proof (induction reqs arbitrary: reply a)
    case (Cons r reqs)
    with client_inv_reset [of a r] show ?case by (cases "reset_streams_if_any r a") simp
  qed simp
  then show "client_inv a \<Longrightarrow> client_inv (snd (reset_all a))" by (simp add: reset_all_def)
qed

lemma client_inv_reconfig: "keeps client_inv (handle_reconfig c)"
proof -
  have "keeps client_inv (handle_reconfig_param p)" for p
    unfolding keeps_def handle_reconfig_param_def Let_def using client_inv_reset
    by (auto split: param.splits prod.splits) (metis client_inv_upd(12) snd_conv)
  then show ?thesis unfolding handle_reconfig_def
    by (intro keeps_abind keeps_ret) (auto split: option.splits intro: keeps_ret)
qed

lemma client_inv_advance: "client_inv a \<Longrightarrow> client_inv (snd (advance_peer_last_tsn reply a))"
proof (induction reply a rule: advance_peer_last_tsn.induct)
  case (1 reply a)
  show ?case
  proof (cases "pq_pop (peer_last_tsn a + 1) (rcv_queue a)")
    case (Pair r q)
    show ?thesis
    proof (cases r)
      case None
      with Pair 1 show ?thesis by (simp add: advance_peer_last_tsn.simps [of reply a])
    next
      case (Some c)
      let ?b = "a\<lparr>rcv_queue := q, peer_last_tsn := peer_last_tsn a + 1\<rparr>"
      obtain resps a' where r: "reset_all ?b = (resps, a')" by fastforce
      have "client_inv a'" using client_inv_reset_all [of ?b] 1(2) r by simp
      with 1(1) [OF Pair [symmetric] Some r [symmetric]] Pair Some r show ?thesis
        by (simp add: advance_peer_last_tsn.simps [of reply a])
    qed
  qed
qed

lemma client_inv_peer_last:
  "client_inv a \<Longrightarrow> client_inv (snd (handle_peer_last_tsn_and_acknowledgement b a))"
  using client_inv_advance [of a "[]"]
  by (cases "advance_peer_last_tsn [] a") (simp add: handle_peer_last_tsn_and_acknowledgement_def Let_def)

lemma client_inv_get_or_create: "client_inv a \<Longrightarrow> client_inv (snd (get_or_create_stream si a))"
  by (simp add: get_or_create_stream_def create_stream_def client_inv_def Let_def)

lemma client_inv_handle_data:
  assumes "client_inv a"
  shows "client_inv (snd (handle_data d a))"
proof -
  let ?a = "a\<lparr>stats := (stats a)\<lparr>n_datas := n_datas (stats a) + 1\<rparr>\<rparr>"
  obtain r b where g: "get_or_create_stream (stream_identifier d) ?a = (r, b)" by fastforce
  then have b: "client_inv b" using client_inv_get_or_create [of ?a "stream_identifier d"] assms by simp
  have "client_inv (b\<lparr>rcv_queue := q, streams := hm_adjust k (stream_handle_data d) (streams b)\<rparr>)" for q k
    using client_inv_adjust [of "b\<lparr>rcv_queue := q\<rparr>" "stream_handle_data d" k] b by simp
  then show ?thesis using g b assms
    by (simp add: handle_data_def Let_def client_inv_peer_last split: option.splits)
qed

lemma client_inv_skip: "client_inv a \<Longrightarrow> client_inv (skip_to_tsn t a)"
proof (induction t a rule: skip_to_tsn.induct)
  case (1 t a)
  then show ?case by (simp add: skip_to_tsn.simps [of t a])
qed

lemma client_inv_forward_tsn: "client_inv a \<Longrightarrow> client_inv (snd (handle_forward_tsn c a))"
  by (simp add: handle_forward_tsn_def Let_def client_inv_peer_last client_inv_hm_map client_inv_skip)

subsection \<open>SACK\<close>

lemma client_inv_measure_rtt: "keeps client_inv (measure_rtt now c)"
  by (simp add: keeps_def measure_rtt_def Let_def)

lemma client_inv_sack_pop: "keeps client_inv (sack_pop_one now i acc)"
proof -
  have "client_inv (snd (abind (measure_rtt now c) (\<lambda>_. ret acc) b))" if "client_inv b" for b c and acc :: "(u16, int) hash_map"
    by (rule abind_inv) (use that in \<open>simp_all add: keepsD [OF client_inv_measure_rtt] keeps_ret\<close>)
  then show ?thesis unfolding keeps_def sack_pop_one_def
    by (auto split: prod.splits option.splits intro!: abind_inv [where P = client_inv] simp: Let_def keeps_def)
qed

lemma client_inv_sack_cum: "client_inv a \<Longrightarrow> client_inv (snd (sack_cum_loop now t i acc a))"
proof (induction now t i acc a rule: sack_cum_loop.induct)
  case (1 now t i acc a)
  show ?case
  proof (cases "sna32lte i t")
    case True
    obtain r b where s: "sack_pop_one now i acc a = (r, b)" by fastforce
    then have "client_inv b" using keepsD [OF client_inv_sack_pop 1(2), of now i acc] by simp
    with 1(1) [OF True] s True show ?thesis
      by (cases r) (simp_all add: sack_cum_loop.simps [of now t i acc a] abind_def)
  qed (simp add: sack_cum_loop.simps [of now t i acc a] 1(2))
qed

lemma client_inv_sack_gap_one: "keeps client_inv (sack_gap_one now t x)"
proof (cases x)
  case (Pair acc htna)
  have "client_inv (snd (abind (if n = 1 then measure_rtt now c else ret ()) (\<lambda>_. ret y) b))"
    if "client_inv b" for n :: u32 and c b and y :: "(u16, int) hash_map \<times> u32"
    by (rule abind_inv) (use that in \<open>auto simp: keepsD [OF client_inv_measure_rtt] keepsD [OF keeps_ret] keeps_ret\<close>)
  then show ?thesis unfolding Pair keeps_def sack_gap_one_def
    by (auto simp: Let_def split: prod.splits option.splits if_splits)
qed

lemma client_inv_sack_gap: "keeps client_inv (sack_gap_loop now ts x)"
proof (induction ts arbitrary: x)
  case (Cons t ts)
  have "sack_gap_loop now (t # ts) x = abind (sack_gap_one now t x) (sack_gap_loop now ts)" by (simp add: fun_eq_iff)
  with Cons client_inv_sack_gap_one show ?case by (simp add: keeps_abind)
qed (simp add: keeps_def)

lemma client_inv_process_sack: "keeps client_inv (process_selective_ack now d)"
  unfolding keeps_def process_selective_ack_def
  by (intro allI impI abind_inv [where P = client_inv]) (simp_all add: client_inv_sack_cum client_inv_sack_gap)

lemma client_inv_count_miss: "client_inv a \<Longrightarrow> client_inv (count_miss h t c a)"
  by (simp add: count_miss_def Let_def)

lemma client_inv_fast_loop: "client_inv a \<Longrightarrow> client_inv (snd (fast_retrans_loop h m t a))"
proof (induction h m t a rule: fast_retrans_loop.induct)
  case (1 h m t a)
  then show ?case
    by (simp add: fast_retrans_loop.simps [of h m t a] client_inv_count_miss split: option.splits)
qed

lemma client_inv_process_fast: "keeps client_inv (process_fast_retransmission t h adv)"
  unfolding keeps_def process_fast_retransmission_def
  by (intro allI impI abind_inv [where P = client_inv]) (simp_all add: Let_def client_inv_fast_loop keeps_def)

lemma client_inv_on_cum: "client_inv a \<Longrightarrow> client_inv (on_cumulative_tsn_ack_point_advanced n a)"
  by (simp add: on_cumulative_tsn_ack_point_advanced_def Let_def)

lemma client_inv_advance_ack: "client_inv a \<Longrightarrow> client_inv (advance_peer_ack_point a)"
  by (simp add: advance_peer_ack_point_def Let_def)

lemma client_inv_postprocess:
  "client_inv a \<Longrightarrow> st \<noteq> ShutdownPending \<Longrightarrow> client_inv (postprocess_sack st b a)"
  by (simp add: postprocess_sack_def Let_def client_inv_set_state)

lemma client_inv_release: "client_inv a \<Longrightarrow> client_inv (release_buffers acc a)"
  unfolding release_buffers_def by (rule client_inv_fold) (auto simp: client_inv_adjust)

lemma client_inv_sack_processed:
  assumes "st \<noteq> ShutdownPending"
  shows "keeps client_inv (sack_processed st d x)"
proof (cases x)
  case (Pair acc h)
  have "keeps client_inv (\<lambda>a. (Ok ([] :: packet list), postprocess_sack st adv (sack_forward_tsn a)))" for adv
    using assms by (simp add: keeps_def sack_forward_tsn_def Let_def client_inv_postprocess client_inv_advance_ack)
  then show ?thesis unfolding Pair keeps_def sack_processed_def sack_update_rwnd_def
    by (auto intro!: abind_inv [where P = client_inv] keepsD [OF client_inv_process_fast]
        simp: Let_def client_inv_on_cum client_inv_release keeps_def [of client_inv "\<lambda>a. (Ok [], _ a)"])
qed

lemma client_inv_handle_sack:
  assumes "client_inv a"
  shows "client_inv (snd (handle_sack now d a))"
proof -
  have "a_state a \<noteq> ShutdownPending" using assms by (simp add: client_inv_def)
  with assms have "client_inv (snd (abind (process_selective_ack now d) (sack_processed (a_state a) d)
      (a\<lparr>stats := s\<rparr>)))" for s
    by (intro abind_inv [where P = client_inv] keepsD [OF client_inv_process_sack] client_inv_sack_processed) simp_all
  with assms show ?thesis unfolding handle_sack_def Let_def by (auto split del: if_split split: if_splits)
qed

subsection \<open>Dispatch\<close>

lemma client_inv_shutdown:
  assumes "client_inv a"
  shows "client_inv (snd (handle_shutdown a))" and "client_inv (snd (handle_shutdown_ack a))"
    and "client_inv (snd (handle_shutdown_complete a))"
  using assms
  by (simp_all add: handle_shutdown_def handle_shutdown_ack_def handle_shutdown_complete_def client_inv_set_state
      client_inv_close)

lemmas client_inv_handlers =
  client_inv_handle_init client_inv_handle_init_ack client_inv_handshake client_inv_handle_data
  client_inv_forward_tsn client_inv_handle_sack client_inv_shutdown keepsD [OF client_inv_reconfig]

lemma client_inv_chunk_handler: "keeps client_inv (chunk_handler now ck p c)"
  unfolding keeps_def by (cases c) (auto simp: client_inv_handlers raise_def)

lemma client_inv_handle_chunk: "keeps client_inv (handle_chunk now ck p c)"
  unfolding handle_chunk_def
  by (intro keeps_abind client_inv_chunk_handler) (simp_all add: keeps_def)

lemma client_inv_handle_chunks: "keeps client_inv (handle_chunks now ck p cs)"
  by (induction cs) (simp_all add: keeps_ret keeps_abind client_inv_handle_chunk)

lemma client_inv_inbound:
  assumes "client_inv a"
  shows "client_inv (snd (handle_inbound crc now ck raw a))"
proof -
  have "client_inv (snd (abind (handle_chunks now ck p (chunks p)) (\<lambda>_ a. (Ok (), handle_chunk_end a)) (handle_chunk_start a)))" for p
    using assms by (intro abind_inv [where P = client_inv] keepsD [OF client_inv_handle_chunks])
      (simp_all add: keeps_def handle_chunk_end_def handle_chunk_start_def)
  then show ?thesis using assms by (simp add: handle_inbound_def split: outcome.splits)
qed

lemma client_inv_read_turn: "client_inv a \<Longrightarrow> client_inv (read_loop_turn crc now ck raw a)"
  using client_inv_inbound [of a crc now ck "take RECEIVE_MTU raw"]
  by (cases "handle_inbound crc now ck (take RECEIVE_MTU raw) a")
    (auto simp: read_loop_turn_def client_inv_close split: outcome.splits)

subsection \<open>Sending\<close>

lemma client_inv_partial: "client_inv (check_partial_reliability_status c a) = client_inv a"
  by (simp add: check_partial_reliability_status_def client_inv_sh)

lemma client_inv_move:
  "client_inv a \<Longrightarrow> client_inv (snd (move_pending_data_chunk_to_inflight_queue now bf un a))"
  by (simp add: move_pending_data_chunk_to_inflight_queue_def generate_next_tsn_def Let_def client_inv_sh
      client_inv_partial split: prod.splits option.splits)

lemma client_inv_pop_loop:
  assumes "pop_pending_loop now cs sis a = Some res" and "client_inv a"
  shows "client_inv (snd (snd res))"
proof -
  have "client_inv a \<longrightarrow> client_inv (snd (snd res))"
  proof (rule pop_pending_loop.raw_induct [where P = "\<lambda>now cs sis a res. client_inv a \<longrightarrow> client_inv (snd (snd res))",
        OF _ assms(1)], goal_cases)
    case (1 loop now cs sis a res)
    have mv: "client_inv b" if "move_pending_data_chunk_to_inflight_queue now bf un (a\<lparr>rwnd := w\<rparr>) = (r, b)" "client_inv a"
      for bf un w r b
      using client_inv_move [of "a\<lparr>rwnd := w\<rparr>" now bf un] that by simp
    show ?case using 1(2)
      by (auto simp: Let_def client_inv_sh split: option.splits if_splits prod.splits dest!: 1(1) dest: mv)
  qed
  with assms(2) show ?thesis by simp
qed

lemma client_inv_pop_pending:
  assumes "pop_pending_data_chunks_to_send now a = Some (cs, sis, a')" and "client_inv a"
  shows "client_inv a'"
proof -
  have "client_inv b" if "move_pending_data_chunk_to_inflight_queue now bf un c = (r, b)" "client_inv c" for bf un c r b
    using client_inv_move [OF that(2), of now bf un] that(1) by simp
  then show ?thesis using assms
    by (auto simp: pop_pending_data_chunks_to_send_def bind_eq_Some_conv dest!: client_inv_pop_loop
        split: if_splits option.splits prod.splits)
qed

lemma client_inv_retransmit_loop: "client_inv a \<Longrightarrow> client_inv (snd (retransmit_loop w ts i n cs a))"
  by (induction w ts i n cs a rule: retransmit_loop.induct)
    (auto simp: Let_def client_inv_partial split: option.splits)

lemma client_inv_get_retransmit: "client_inv a \<Longrightarrow> client_inv (snd (gather_data_packets_to_retransmit crc raws a))"
  using client_inv_retransmit_loop [of a "min (cwnd a) (rwnd a)" _ 0 0 "[]"]
  by (auto simp: gather_data_packets_to_retransmit_def get_data_packets_to_retransmit_def split: prod.splits) (metis snd_conv)

lemma client_inv_fast_retransmit_loop: "client_inv a \<Longrightarrow> client_inv (snd (fast_retransmit_loop ts sz cs a))"
  by (induction ts sz cs a rule: fast_retransmit_loop.induct)
    (auto simp: Let_def client_inv_partial split: option.splits)

lemma client_inv_gather_fast:
  "client_inv a \<Longrightarrow> client_inv (snd (gather_outbound_fast_retransmission_packets crc raws a))"
  using client_inv_fast_retransmit_loop [of "a\<lparr>will_retransmit_fast := False\<rparr>" _ COMMON_HEADER_SIZE "[]"]
  by (auto simp: gather_outbound_fast_retransmission_packets_def Let_def split: prod.splits) (metis snd_conv)

lemma client_inv_gather_sack: "client_inv a \<Longrightarrow> client_inv (snd (gather_outbound_sack_packets crc raws a))"
  by (simp add: gather_outbound_sack_packets_def create_selective_ack_chunk_def Let_def split: prod.splits)

lemma client_inv_gather_forward: "client_inv a \<Longrightarrow> client_inv (snd (gather_outbound_forward_tsn_packets crc raws a))"
  by (simp add: gather_outbound_forward_tsn_packets_def Let_def)

lemma client_inv_no_shutdown: "client_inv a \<Longrightarrow> \<not> will_send_shutdown a"
  by (simp add: client_inv_def)

lemma client_inv_gather_shutdown: "client_inv a \<Longrightarrow> client_inv (snd (gather_outbound_shutdown_packets crc raws a))"
  by (simp add: gather_outbound_shutdown_packets_def Let_def client_inv_no_shutdown split: outcome.splits)

lemma client_inv_gather_data:
  assumes "gather_outbound_data_and_reconfig_packets crc now raws a = Some (raws', a')" and "client_inv a"
  shows "client_inv a'"
proof -
  obtain cs sis b where p: "pop_pending_data_chunks_to_send now a = Some (cs, sis, b)"
    using assms(1) by (auto simp: gather_outbound_data_and_reconfig_packets_def bind_eq_Some_conv)
  have "client_inv b" using client_inv_pop_pending [OF p assms(2)] .
  with p assms(1) show ?thesis
    by (auto simp: gather_outbound_data_and_reconfig_packets_def generate_next_rsn_def Let_def split: if_splits)
qed

lemmas client_inv_gathers =
  client_inv_get_retransmit client_inv_gather_fast client_inv_gather_sack client_inv_gather_forward
  client_inv_gather_shutdown

lemma client_inv_gather:
  assumes "gather_outbound crc now a = Some (out, a')" and "client_inv a"
  shows "client_inv a'"
proof -
  have "client_inv c" if "gather_outbound_data_and_reconfig_packets crc now r
      (snd (gather_data_packets_to_retransmit crc r' (a\<lparr>control_queue := []\<rparr>))) = Some (r'', c)" for r r' r'' c
    using client_inv_gather_data [OF that] assms(2) by (simp add: client_inv_gathers)
  with assms show ?thesis unfolding gather_outbound_def Let_def split_beta
    by (auto simp: bind_eq_Some_conv client_inv_gathers split: if_splits
        dest!: arg_cong [of _ "(_, a')" snd])
qed

section \<open>Every step keeps it\<close>

lemma client_inv_timer: "client_inv a \<Longrightarrow> client_inv (timer_expires i a)"
proof -
  assume a: "client_inv a"
  have put: "client_inv (put_timer j t b) = client_inv b" for j t b by (cases j) simp_all
  have "client_inv b \<Longrightarrow> client_inv (on_retransmission_timeout j b)" for j b
    by (cases j) (simp_all add: client_inv_send_init keepsD [OF client_inv_send_cookie_echo] Let_def
        client_inv_advance_ack client_inv_def [of b])
  moreover have "client_inv b \<Longrightarrow> client_inv (on_retransmission_failure j b)" for j b by (cases j) simp_all
  ultimately show ?thesis using a by (simp add: timer_expires_def put split: option.splits prod.splits rtx_event.splits)
qed

lemma client_inv_user_write:
  assumes "user_write now si p ppi a = Some (r, a')" and "client_inv a"
  shows "client_inv a'"
proof -
  obtain s sh' s' where s: "hm_get (streams a) si = Some s" "write_sctp now p ppi (sh a, s) = Some (r, sh', s')"
    "a' = a\<lparr>sh := sh', streams := hm_insert si s' (streams a)\<rparr>"
    using assms(1) by (auto simp: user_write_def split: option.splits)
  have "state_cell sh' = state_cell (sh a) \<and> max_payload_size s' = max_payload_size s"
    using s(2) by (auto simp: write_sctp_def packetize_def send_payload_data_def awake_write_loop_def Let_def
        bind_eq_Some_conv split: if_splits)
  then show ?thesis
    using s(1,3) assms(2) client_inv_insert [of "a\<lparr>sh := sh'\<rparr>" s' si]
      streams_okD [OF assms(2) hm_get_values [OF s(1)]] by (simp add: client_inv_sh)
qed

lemma client_inv_user_close: "client_inv a \<Longrightarrow> client_inv (user_close now si a)"
proof (cases "hm_get (streams a) si")
  case (Some s)
  assume a: "client_inv a"
  obtain r sh' s' where c: "stream_close now (sh a, s) = (r, sh', s')" by (metis prod_cases3)
  then have "state_cell sh' = state_cell (sh a) \<and> max_payload_size s' = max_payload_size s"
    by (auto simp: stream_close_def send_reset_request_def awake_write_loop_def Let_def split: if_splits outcome.splits)
  then show ?thesis
    using Some c a client_inv_insert [of "a\<lparr>sh := sh'\<rparr>" s' si] streams_okD [OF a hm_get_values [OF Some]]
    by (simp add: user_close_def client_inv_sh)
qed (simp add: user_close_def)

lemma client_inv_user_read: "client_inv a \<Longrightarrow> client_inv (snd (snd (user_read si buf a)))"
  using streams_okD [OF _ hm_get_values, of a si]
  by (auto simp: user_read_def split: option.splits prod.splits intro!: client_inv_insert)

lemma client_inv_step: "assoc_step a a' \<Longrightarrow> client_inv a \<Longrightarrow> client_inv a'"
proof (induction rule: assoc_step.induct)
  case (step_write_loop crc now sent_ok a raws a')
  then obtain ok b where "gather_outbound crc now (a\<lparr>sh := (sh a)\<lparr>awake := False\<rparr>\<rparr>) = Some ((raws, ok), b)"
    and "a' = (if ok \<and> sent_ok then b else assoc_close b)"
    by (auto simp: write_loop_turn_def)
  moreover have "client_inv (a\<lparr>sh := (sh a)\<lparr>awake := False\<rparr>\<rparr>)"
    using step_write_loop(2) by (simp add: client_inv_sh)
  ultimately show ?case using client_inv_gather by (auto simp: client_inv_close)
next
  case (step_ack_timer a)
  then show ?case by (simp add: ack_timer_expires_def on_ack_timeout_def split: option.splits prod.splits bool.splits)
qed (auto simp: client_inv_read_turn client_inv_timer client_inv_open_stream client_inv_user_close client_inv_user_read
    client_inv_close dest: client_inv_user_write)

lemma client_inv_start: "client_inv (association_client b m t v)"
  by (simp add: association_client_def association_new_def client_inv_def send_init_def wake_def awake_write_loop_def
      set_state_def a_state_def get_state_def association_state_from_def streams_ok_def hm_values_def Let_def)

lemma client_inv_reachable: "client_reachable a \<Longrightarrow> client_inv a"
proof -
  have "assoc_step\<^sup>*\<^sup>* a0 a \<Longrightarrow> client_inv a0 \<Longrightarrow> client_inv a" for a0
    by (induction rule: rtranclp_induct) (auto dest: client_inv_step)
  then show "client_reachable a \<Longrightarrow> client_inv a" by (auto simp: client_reachable_def client_inv_start)
qed

section \<open>Properties\<close>

text \<open>
  C32. Whatever the network, the timers and the user do, a client never takes the initiative to shut
  down gracefully: it is never in the states ShutdownPending and ShutdownSent and never announces a
  SHUTDOWN chunk. The only ways out of Established are the peer's SHUTDOWN and closing the association.
\<close>

theorem client_never_shuts_down:
  assumes "client_reachable a"
  shows "a_state a \<notin> {ShutdownPending, ShutdownSent} \<and> \<not> will_send_shutdown a"
  using client_inv_reachable [OF assms] by (simp add: client_inv_def)

theorem client_never_shuts_down_witness:
  "a_state (assoc_close (association_client 0 0 1 2)) \<notin> {ShutdownPending, ShutdownSent}"
proof -
  have "client_reachable (assoc_close (association_client 0 0 1 2))"
    using assoc_step.step_close unfolding client_reachable_def by blast
  from client_never_shuts_down [OF this] show ?thesis by simp
qed

text \<open>
  C33. The INIT chunk is sent once and never again: \<^verbatim>\<open>send_init\<close> takes the stored chunk, so at every
  later expiry of the T1-init timer it fails with ErrInitNotStoredToSend and the callback changes
  nothing: no packet is queued and the write loop is not woken. A lost INIT is not repaired; the handshake fails after the last expiry.
\<close>

theorem init_never_retransmitted:
  assumes "client_reachable a"
  shows "send_init a = (Err ErrInitNotStoredToSend, a) \<and> on_retransmission_timeout T1Init a = a"
  using client_inv_send_init [OF client_inv_reachable [OF assms]] by simp

theorem init_never_retransmitted_witness:
  "on_retransmission_timeout T1Init (association_client 0 0 1 2) = association_client 0 0 1 2"
proof -
  have "client_reachable (association_client 0 0 1 2)" unfolding client_reachable_def by blast
  from init_never_retransmitted [OF this] show ?thesis by simp
qed

text \<open>
  C34. A stream opened by the peer is never accepted: the receiver of the accept channel is dropped when
  the constructor returns, so a new DATA chunk for a stream that the client has not opened changes
  nothing but the statistics; it is neither stored nor acknowledged and the peer sends it for ever.
\<close>

theorem peer_stream_refused:
  assumes "client_reachable a" and "hm_get (streams a) (stream_identifier d) = None"
    and "can_push (rcv_queue a) d (peer_last_tsn a)"
  shows "handle_data d a = (Ok [], a\<lparr>stats := (stats a)\<lparr>n_datas := n_datas (stats a) + 1\<rparr>\<rparr>)"
proof -
  have "accept_ch a = None" using client_inv_reachable [OF assms(1)] by (simp add: client_inv_def)
  with assms(2,3) show ?thesis
    by (simp add: handle_data_def get_or_create_stream_def create_stream_def Let_def)
qed

theorem peer_stream_refused_witness:
  "fst (handle_data ((chunk_payload_data_default 0)\<lparr>tsn := 1, stream_identifier := 5\<rparr>) (association_client 0 0 1 2)) = Ok []"
proof -
  let ?a = "association_client 0 0 1 2" and ?d = "(chunk_payload_data_default 0)\<lparr>tsn := 1, stream_identifier := 5\<rparr>"
  have "client_reachable ?a" unfolding client_reachable_def by blast
  moreover have f: "streams ?a = []" "rcv_queue ?a = payload_queue_new" "peer_last_tsn ?a = 0"
    by (simp_all add: association_client_def association_new_def send_init_def wake_def set_state_def Let_def)
  moreover have "can_push payload_queue_new ?d 0"
    by (simp add: can_push_def pq_contains_def payload_queue_new_def hm_get_def chunk_payload_data_default_def sna32lte_def sna32lt_def)
  ultimately show ?thesis using peer_stream_refused [of ?a ?d] by (simp add: hm_get_def)
qed

text \<open>
  C35. A write by the user returns on every stream of a client, whatever the message: the payload size
  that streams inherit from the association is positive, so the fragmentation loop ends.
\<close>

theorem client_write_returns:
  assumes "client_reachable a" and "hm_get (streams a) si = Some s"
  shows "\<exists>r a'. user_write now si p ppi a = Some (r, a') \<and> client_reachable a'"
proof -
  have "max_payload_size s = INITIAL_MTU - (COMMON_HEADER_SIZE + DATA_CHUNK_HEADER_SIZE)"
    using client_inv_reachable [OF assms(1)] hm_get_values [OF assms(2)] by (simp add: client_inv_def streams_ok_def)
  then have pos: "0 < max_payload_size s" by (simp add: INITIAL_MTU_def COMMON_HEADER_SIZE_def DATA_CHUNK_HEADER_SIZE_def)
  have "\<exists>cs sh' s'. packetize now p ppi (sh a, s) = Some (cs, sh', s')"
  proof (cases "p = []")
    case True
    then show ?thesis by (simp add: packetize_def packetize_loop_stop Let_def)
  next
    case False
    with pos show ?thesis by (meson packetize_message)
  qed
  then have "\<exists>x. write_sctp now p ppi (sh a, s) = Some x"
    by (auto simp: write_sctp_def split: prod.splits)
  then obtain r a' where w: "user_write now si p ppi a = Some (r, a')"
    using assms(2) by (auto simp: user_write_def)
  then have "assoc_step a a'" by (rule assoc_step.step_user_write)
  with w assms(1) show ?thesis unfolding client_reachable_def by (meson rtranclp.rtrancl_into_rtrancl)
qed

theorem client_write_returns_witness:
  "\<exists>r a'. user_write 0 5 [1, 2, 3] Binary (snd (open_stream 5 (association_client 0 0 1 2))) = Some (r, a')"
proof -
  let ?a = "snd (open_stream 5 (association_client 0 0 1 2))"
  have "client_reachable ?a" unfolding client_reachable_def by (meson assoc_step.step_open r_into_rtranclp)
  moreover have "streams (association_client 0 0 1 2) = []"
    by (simp add: association_client_def association_new_def send_init_def wake_def set_state_def Let_def)
  then have "hm_get (streams ?a) 5 = Some (stream_new 5 (a_max_payload_size (association_client 0 0 1 2)))"
    by (simp add: open_stream_def create_stream_def Let_def hm_get_def)
  ultimately show ?thesis using client_write_returns [of ?a 5 _ 0 "[1, 2, 3]" Binary] by blast
qed

end
