(* ===== verification/Sctp_Sender.thy ===== *)
theory Sctp_Sender
  imports Sctp_Client
begin

text \<open>
  The sending side of an association: the chunks in flight are a run of consecutive TSNs that starts
  behind the cumulative acknowledgement point and ends before the next TSN. New data extends the run,
  a SACK shortens it, and every loop over the queue finds the TSNs it asks for.
\<close>

section \<open>A run of TSNs in flight\<close>

definition in_flight :: "u32 \<Rightarrow> nat \<Rightarrow> payload_queue \<Rightarrow> bool" where
  "in_flight lo n q \<longleftrightarrow> pq_inv q \<and> pq_ordered lo q \<and> pq.holds q lo n"

lemma in_flight_get: "in_flight lo n q \<Longrightarrow> pq_get q t \<noteq> None \<longleftrightarrow> unat (t - lo) < n"
  by (simp add: in_flight_def pq.holds_def)

lemma in_flight_getE:
  assumes "in_flight lo n q" and "unat (t - lo) < n"
  obtains c where "pq_get q t = Some c" and "tsn c = t"
  using in_flight_get [OF assms(1), of t] assms pq_get_tsn by (auto simp: in_flight_def)

lemma in_flight_new: "in_flight lo 0 payload_queue_new"
  using pq_inv_new pq_ordered_new
  by (simp add: in_flight_def pq.holds_def pq_get_def payload_queue_new_def hm_simps)

lemma in_flight_push:
  assumes "in_flight lo n q" and "tsn c = lo + of_nat n" and "n < 2 ^ 31"
  shows "in_flight lo (Suc n) (push_no_check c q)"
  using pq.holds_push [of q lo n c] assms by (simp add: in_flight_def)

lemma in_flight_pop:
  assumes "in_flight lo (Suc n) q" and "n < 2 ^ 31"
  obtains c q' where "pq_pop lo q = (Some c, q')" and "pq_get q lo = Some c"
    and "pq_get q' = (pq_get q)(lo := None)" and "in_flight (lo + 1) n q'"
proof -
  have "pq_inv q \<and> pq_ordered lo q" "pq.holds q lo (Suc n)" using assms(1) by (simp_all add: in_flight_def)
  then obtain c q' where "pq_pop lo q = (Some c, q')" "pq_get q lo = Some c" "pq_get q' = (pq_get q)(lo := None)"
    and "pq.holds q' (lo + 1) n" "pq_inv q' \<and> pq_ordered (lo + 1) q'"
    using assms(2) by (rule pq.holds_pop)
  with that show thesis by (simp add: in_flight_def)
qed

lemma in_flight_empty_pop: "in_flight lo 0 q \<Longrightarrow> pq_pop t q = (None, q)"
  using pq.pop_missing [of q lo t] by (simp add: in_flight_def pq.holds_def)

lemma in_flight_sorted_eq:
  assumes "in_flight lo n q" and "pq_inv q'" and "pq_sorted q' = pq_sorted q"
  shows "in_flight lo n q'"
  using assms pq_get_in [of q] pq_get_in [of q'] by (simp add: in_flight_def pq_ordered_def pq.holds_def)

lemma in_flight_update:
  assumes "in_flight lo n q" and "\<And>c. tsn (f c) = tsn c" and "\<And>c. length (user_data (f c)) = length (user_data c)"
  shows "in_flight lo n (pq_update t f q)"
proof (rule in_flight_sorted_eq [OF assms(1)])
  show "pq_inv (pq_update t f q)" using assms by (simp add: pq_inv_update in_flight_def)
qed (simp add: pq_update_def)

lemma in_flight_length:
  assumes "in_flight lo n q" and "n < 2 ^ 32"
  shows "length (chunk_map q) = n"
proof -
  have d: "distinct (pq_sorted q)" using assms(1) by (simp add: in_flight_def pq_inv_def)
  have l: "length (pq_sorted q) = length (chunk_map q)"
    using assms(1) length_hm_keys [of "chunk_map q"] distinct_card
    unfolding in_flight_def pq_inv_def hm_inv_def by metis
  have inj: "inj_on (\<lambda>i. lo + of_nat i) {..<n}"
  proof (rule inj_onI)
    fix x y
    assume "x \<in> {..<n}" "y \<in> {..<n}" and "lo + of_nat x = lo + of_nat y"
    then have "unat (of_nat x :: u32) = unat (of_nat y :: u32)" "x < 2 ^ 32" "y < 2 ^ 32" using assms(2) by auto
    then show "x = y" by (simp add: unat_of_nat)
  qed
  have "set (pq_sorted q) = (\<lambda>i. lo + of_nat i) ` {..<n}"
  proof (rule set_eqI)
    fix t
    have "t = lo + of_nat (unat (t - lo))" by simp
    then have "t \<in> (\<lambda>i. lo + of_nat i) ` {..<n} \<longleftrightarrow> unat (t - lo) < n"
      using assms(2) by (auto simp: unat_of_nat intro: image_eqI [where x = "unat (t - lo)"])
    then show "t \<in> set (pq_sorted q) \<longleftrightarrow> t \<in> (\<lambda>i. lo + of_nat i) ` {..<n}"
      using pq_get_in [of q t] in_flight_get [OF assms(1), of t] assms(1) by (simp add: in_flight_def)
  qed
  with d l inj show ?thesis by (metis card_image card_lessThan distinct_card)
qed

lemma present_from_run:
  assumes "in_flight lo n q" and "j + m \<le> n" and "n < 2 ^ 31"
  shows "present_from q (lo + of_nat j) m = map (\<lambda>i. lo + of_nat i) [j..<j + m]"
  using assms(2)
proof (induction m arbitrary: j)
  case (Suc m)
  have "unat (lo + of_nat j - lo) < n" using Suc.prems assms(3) by (simp add: unat_of_nat)
  then have "pq_get q (lo + of_nat j) \<noteq> None" using in_flight_get [OF assms(1)] by blast
  moreover have "lo + of_nat j + 1 = lo + of_nat (Suc j)" by simp
  moreover have "[j..<j + Suc m] = j # [Suc j..<Suc j + m]" by (simp add: upt_conv_Cons del: upt_Suc)
  ultimately show ?case using Suc.IH [of "Suc j"] Suc.prems
    by (simp only: present_from.simps if_True list.map) simp
qed simp

text \<open>The loops over the queue visit exactly the run.\<close>

lemma pq_run_in_flight:
  assumes "in_flight lo n q" and "n < 2 ^ 31"
  shows "pq_run q lo = map (\<lambda>i. lo + of_nat i) [0..<n]"
  using present_from_run [OF assms(1), of 0 n] in_flight_length [OF assms(1)] assms(2) by (simp add: pq_run_def)

section \<open>Processing a SACK\<close>

lemma unat_behind:
  fixes i :: u32
  assumes "0 < k" and "k < 2 ^ 32"
  shows "unat (i - (i + of_nat k)) = 2 ^ 32 - k"
proof -
  have d: "unat (i + of_nat k - i) = k" using assms(2) by (simp add: unat_of_nat)
  have "i \<noteq> i + of_nat k" using d assms(1) by (metis diff_self less_irrefl unat_0)
  from word_dist_sum [OF this] show ?thesis unfolding d by simp
qed

text \<open>What the loops of SACK processing leave alone.\<close>

definition same_base :: "association \<Rightarrow> association \<Rightarrow> bool" where
  "same_base a b \<longleftrightarrow> sh b = sh a \<and> my_next_tsn b = my_next_tsn a \<and>
     cumulative_tsn_ack_point b = cumulative_tsn_ack_point a \<and> use_forward_tsn b = use_forward_tsn a"

lemma same_base_refl [simp]: "same_base a a"
  by (simp add: same_base_def)

lemma same_base_trans: "same_base a b \<Longrightarrow> same_base b c \<Longrightarrow> same_base a c"
  by (simp add: same_base_def)

definition sent_before :: "nat \<Rightarrow> payload_queue \<Rightarrow> bool" where
  "sent_before now q \<longleftrightarrow> (\<forall>t c. pq_get q t = Some c \<longrightarrow> since c \<le> now)"

lemma sack_pop_one_ok:
  assumes "pq_pop i (inflight_queue a) = (Some c, q)" and "since c \<le> now"
  obtains acc' b where "sack_pop_one now i acc a = (Ok acc', b)" and "inflight_queue b = q" and "same_base a b"
proof -
  have "\<exists>acc' b. sack_pop_one now i acc a = (Ok acc', b) \<and> inflight_queue b = q \<and> same_base a b"
    using assms by (auto simp: sack_pop_one_def abind_def measure_rtt_def ret_def same_base_def Let_def)
  with that show thesis by blast
qed

text \<open>A cumulative acknowledgement of the first \<open>k\<close> chunks in flight removes exactly these.\<close>

lemma sack_cum_loop_ok:
  assumes "in_flight i n (inflight_queue a)" and "k \<le> n" and "n < 2 ^ 31" and "sent_before now (inflight_queue a)"
  shows "\<exists>acc' b. sack_cum_loop now (i + of_nat k - 1) i acc a = (Ok acc', b) \<and>
    in_flight (i + of_nat k) (n - k) (inflight_queue b) \<and> same_base a b \<and>
    (\<forall>t. unat (t - (i + of_nat k)) < n - k \<longrightarrow> pq_get (inflight_queue b) t = pq_get (inflight_queue a) t)"
  using assms
proof (induction k arbitrary: i n a acc)
  case 0
  have "\<not> sna32lte i (i - 1)" by (simp add: sna32lte_iff unsigned_minus_1_eq_mask mask_eq_exp_minus_1)
  with 0 show ?case by (simp add: sack_cum_loop.simps [of now "i - 1"])
next
  case (Suc k)
  then obtain m where n: "n = Suc m" "k \<le> m" by (cases n) auto
  obtain c q where p: "pq_pop i (inflight_queue a) = (Some c, q)" "pq_get (inflight_queue a) i = Some c"
    "pq_get q = (pq_get (inflight_queue a))(i := None)" "in_flight (i + 1) m q"
    using in_flight_pop [of i m "inflight_queue a"] Suc.prems n by auto
  have "since c \<le> now" using Suc.prems(4) p(2) by (simp add: sent_before_def)
  then obtain acc1 a1 where s: "sack_pop_one now i acc a = (Ok acc1, a1)" "inflight_queue a1 = q" "same_base a a1"
    by (rule sack_pop_one_ok [OF p(1)])
  have e: "i + of_nat (Suc k) - 1 = (i + 1) + of_nat k - 1" by simp
  have "unat (i + of_nat (Suc k) - 1 - i) = k" using Suc.prems n by (simp add: unat_of_nat)
  then have lte: "sna32lte i (i + of_nat (Suc k) - 1)" using Suc.prems by (simp add: sna32lte_iff)
  obtain acc2 b where b: "sack_cum_loop now ((i + 1) + of_nat k - 1) (i + 1) acc1 a1 = (Ok acc2, b)"
    "in_flight (i + 1 + of_nat k) (m - k) (inflight_queue b)" "same_base a1 b"
    "\<forall>t. unat (t - (i + 1 + of_nat k)) < m - k \<longrightarrow> pq_get (inflight_queue b) t = pq_get q t"
  proof -
    have "sent_before now q" using Suc.prems(4) p(3) by (auto simp: sent_before_def split: if_splits)
    with Suc.IH [of "i + 1" m a1 acc1] p(4) s(2) Suc.prems(3) n that show thesis by auto
  qed
  have "t \<noteq> i" if "unat (t - (i + 1 + of_nat k)) < m - k" for t
  proof
    assume ti: "t = i"
    have "unat (i - (i + 1 + of_nat k)) = 2 ^ 32 - Suc k"
      using unat_behind [of "Suc k" i] Suc.prems n by (simp add: add.assoc)
    with that ti Suc.prems n show False by simp
  qed
  with b(4) p(3) have "\<forall>t. unat (t - (i + 1 + of_nat k)) < m - k \<longrightarrow> pq_get (inflight_queue b) t = pq_get (inflight_queue a) t"
    by simp
  moreover have "sack_cum_loop now (i + of_nat (Suc k) - 1) i acc a = (Ok acc2, b)"
    using lte s(1) b(1) unfolding e by (simp add: sack_cum_loop.simps [of now _ i] abind_def)
  moreover have "i + of_nat (Suc k) = i + 1 + of_nat k" by simp
  moreover have "n - Suc k = m - k" using n by simp
  ultimately show ?case using b(2) same_base_trans [OF s(3) b(3)] by (simp only:) blast
qed

text \<open>A selective acknowledgement marks chunks; marking twice does nothing.\<close>

definition sacked :: "chunk_payload_data \<Rightarrow> chunk_payload_data" where
  "sacked c = (if acked c then c else c\<lparr>acked := True, retransmit := False, user_data := []\<rparr>)"

lemma sacked_simps [simp]: "acked (sacked c)" "sacked (sacked c) = sacked c" "since (sacked c) = since c"
  by (simp_all add: sacked_def)

lemma mark_as_acked_get:
  "pq_get q t = Some c \<Longrightarrow> \<not> acked c \<Longrightarrow> pq_get (snd (mark_as_acked t q)) = (pq_get q)(t := Some (sacked c))"
  by (auto simp: mark_as_acked_def pq_get_def hm_simps sacked_def Let_def fun_eq_iff)

lemma in_flight_mark: "in_flight lo n q \<Longrightarrow> in_flight lo n (snd (mark_as_acked t q))"
proof (rule in_flight_sorted_eq [where q = q])
  show "in_flight lo n q \<Longrightarrow> pq_inv (snd (mark_as_acked t q))" by (simp add: in_flight_def pq_inv_mark_as_acked)
qed (simp_all add: mark_as_acked_def Let_def split: option.splits)

lemma sack_gap_one_ok:
  assumes "in_flight lo n (inflight_queue a)" and "unat (t - lo) < n" and "sent_before now (inflight_queue a)"
  shows "\<exists>acc' h' b. sack_gap_one now t (acc, h) a = (Ok (acc', h'), b) \<and> h' \<in> {h, t} \<and> same_base a b \<and>
    in_flight lo n (inflight_queue b) \<and>
    pq_get (inflight_queue b) = (pq_get (inflight_queue a))(t := map_option sacked (pq_get (inflight_queue a) t))"
proof -
  obtain c where c: "pq_get (inflight_queue a) t = Some c" using in_flight_getE [OF assms(1,2)] .
  show ?thesis
  proof (cases "acked c")
    case True
    with c assms(1) show ?thesis by (auto simp: sack_gap_one_def Let_def sacked_def fun_eq_iff)
  next
    case False
    obtain k q where m: "mark_as_acked t (inflight_queue a) = (k, q)" by fastforce
    have q: "in_flight lo n q" "pq_get q = (pq_get (inflight_queue a))(t := Some (sacked c))"
      using in_flight_mark [OF assms(1), of t] mark_as_acked_get [OF c False] m by simp_all
    have "since c \<le> now" using c assms(3) by (simp add: sent_before_def)
    with c m q False show ?thesis
      by (auto simp: sack_gap_one_def Let_def abind_def measure_rtt_def ret_def same_base_def)
  qed
qed

lemma sent_before_sacked:
  "sent_before now q \<Longrightarrow> pq_get q' = (pq_get q)(t := map_option sacked (pq_get q t)) \<Longrightarrow> sent_before now q'"
  by (auto simp: sent_before_def)

lemma sack_gap_loop_ok:
  assumes "in_flight lo n (inflight_queue a)" and "\<forall>t \<in> set ts. unat (t - lo) < n"
    and "sent_before now (inflight_queue a)"
  shows "\<exists>acc' h' b. sack_gap_loop now ts (acc, h) a = (Ok (acc', h'), b) \<and> h' \<in> insert h (set ts) \<and> same_base a b \<and>
    in_flight lo n (inflight_queue b) \<and>
    pq_get (inflight_queue b) = (\<lambda>t. if t \<in> set ts then map_option sacked (pq_get (inflight_queue a) t)
      else pq_get (inflight_queue a) t)"
  using assms
proof (induction ts arbitrary: a acc h)
  case (Cons t ts)
  obtain acc1 h1 a1 where 1: "sack_gap_one now t (acc, h) a = (Ok (acc1, h1), a1)" "h1 \<in> {h, t}" "same_base a a1"
    "in_flight lo n (inflight_queue a1)"
    "pq_get (inflight_queue a1) = (pq_get (inflight_queue a))(t := map_option sacked (pq_get (inflight_queue a) t))"
    using sack_gap_one_ok [of lo n a t now acc h] Cons.prems by auto
  have "sent_before now (inflight_queue a1)" using sent_before_sacked [OF Cons.prems(3) 1(5)] .
  then obtain acc2 h2 b where 2: "sack_gap_loop now ts (acc1, h1) a1 = (Ok (acc2, h2), b)" "h2 \<in> insert h1 (set ts)"
    "same_base a1 b" "in_flight lo n (inflight_queue b)"
    "pq_get (inflight_queue b) = (\<lambda>t. if t \<in> set ts then map_option sacked (pq_get (inflight_queue a1) t)
      else pq_get (inflight_queue a1) t)"
    using Cons.IH [of a1 acc1 h1] 1(4) Cons.prems(2) by auto
  have "pq_get (inflight_queue b) = (\<lambda>u. if u \<in> set (t # ts) then map_option sacked (pq_get (inflight_queue a) u)
      else pq_get (inflight_queue a) u)"
    unfolding 2(5) 1(5) by (auto simp: fun_eq_iff option.map_comp comp_def)
  moreover have "sack_gap_loop now (t # ts) (acc, h) a = (Ok (acc2, h2), b)" using 1(1) 2(1) by (simp add: abind_def)
  moreover have "h2 \<in> insert h (set (t # ts))" using 1(2) 2(2) by auto
  ultimately show ?case using 2(4) same_base_trans [OF 1(3) 2(3)] by blast
qed simp

text \<open>Both loops together.\<close>

lemma process_selective_ack_ok:
  assumes "in_flight (cumulative_tsn_ack_point a + 1) n (inflight_queue a)" and "k \<le> n" and "n < 2 ^ 31"
    and "sent_before now (inflight_queue a)" and "cumulative_tsn_ack d = cumulative_tsn_ack_point a + of_nat k"
    and "\<forall>t \<in> set (gap_tsns (cumulative_tsn_ack d) (gap_ack_blocks d)). unat (t - (cumulative_tsn_ack d + 1)) < n - k"
  shows "\<exists>acc h b. process_selective_ack now d a = (Ok (acc, h), b) \<and> same_base a b \<and>
    h \<in> insert (cumulative_tsn_ack d) (set (gap_tsns (cumulative_tsn_ack d) (gap_ack_blocks d))) \<and>
    in_flight (cumulative_tsn_ack d + 1) (n - k) (inflight_queue b) \<and>
    (\<forall>t. unat (t - (cumulative_tsn_ack d + 1)) < n - k \<longrightarrow> pq_get (inflight_queue b) t =
      (if t \<in> set (gap_tsns (cumulative_tsn_ack d) (gap_ack_blocks d))
       then map_option sacked (pq_get (inflight_queue a) t) else pq_get (inflight_queue a) t))"
proof -
  let ?i = "cumulative_tsn_ack_point a + 1" and ?ts = "gap_tsns (cumulative_tsn_ack d) (gap_ack_blocks d)"
  have e: "?i + of_nat k - 1 = cumulative_tsn_ack d" "?i + of_nat k = cumulative_tsn_ack d + 1"
    using assms(5) by simp_all
  obtain acc a1 where 1: "sack_cum_loop now (cumulative_tsn_ack d) ?i [] a = (Ok acc, a1)"
    "in_flight (cumulative_tsn_ack d + 1) (n - k) (inflight_queue a1)" "same_base a a1"
    "\<forall>t. unat (t - (cumulative_tsn_ack d + 1)) < n - k \<longrightarrow> pq_get (inflight_queue a1) t = pq_get (inflight_queue a) t"
    using sack_cum_loop_ok [OF assms(1-4), of "[]"] unfolding e add_diff_cancel_right' by blast
  have "sent_before now (inflight_queue a1)"
    using 1(2,4) assms(4) in_flight_get [OF 1(2)] unfolding sent_before_def by (metis option.distinct(1))
  then obtain acc2 h b where 2: "sack_gap_loop now ?ts (acc, cumulative_tsn_ack d) a1 = (Ok (acc2, h), b)"
    "h \<in> insert (cumulative_tsn_ack d) (set ?ts)" "same_base a1 b"
    "in_flight (cumulative_tsn_ack d + 1) (n - k) (inflight_queue b)"
    "pq_get (inflight_queue b) = (\<lambda>t. if t \<in> set ?ts then map_option sacked (pq_get (inflight_queue a1) t)
      else pq_get (inflight_queue a1) t)"
    using sack_gap_loop_ok [OF 1(2) assms(6), of now acc "cumulative_tsn_ack d"] by auto
  have "process_selective_ack now d a = (Ok (acc2, h), b)"
    using 1(1) 2(1) by (simp add: process_selective_ack_def abind_def)
  with 2 1(4) same_base_trans [OF 1(3) 2(3)] show ?thesis by auto
qed

subsection \<open>Miss indications\<close>

lemma count_miss_keeps:
  "pq_sorted (inflight_queue (count_miss h t c a)) = pq_sorted (inflight_queue a)"
  "n_bytes (inflight_queue (count_miss h t c a)) = n_bytes (inflight_queue a)"
  "rwnd (count_miss h t c a) = rwnd a"
  "same_base a (count_miss h t c a)"
  "map_option acked (pq_get (inflight_queue (count_miss h t c a)) u) = map_option acked (pq_get (inflight_queue a) u)"
  by (auto simp: count_miss_def pq_update_def Let_def same_base_def pq_get_def hm_simps option.map_comp comp_def)

lemma in_flight_count_miss:
  assumes "in_flight lo n (inflight_queue a)"
  shows "in_flight lo n (inflight_queue (count_miss h t c a))"
  using in_flight_update [OF assms, of "\<lambda>c. c\<lparr>miss_indicator := miss_indicator c + 1\<rparr>" t] assms
  by (auto simp: count_miss_def Let_def)

lemma unat_succ_le: "unat (x + 1 :: u32) \<le> Suc (unat x)"
  by (cases "1 + x = 0") (simp_all add: add.commute unatSuc)

lemma fast_retrans_loop_ok:
  assumes "in_flight lo n (inflight_queue a)" and "n < 2 ^ 31" and "unat (t - lo) \<le> unat (m - lo)" and "unat (m - lo) \<le> n"
  shows "\<exists>b. fast_retrans_loop h m t a = (Ok (), b) \<and> in_flight lo n (inflight_queue b) \<and> same_base a b \<and>
    rwnd b = rwnd a \<and> n_bytes (inflight_queue b) = n_bytes (inflight_queue a) \<and>
    (\<forall>u. map_option acked (pq_get (inflight_queue b) u) = map_option acked (pq_get (inflight_queue a) u))"
  using assms
proof (induction h m t a rule: fast_retrans_loop.induct)
  case (1 h m t a)
  show ?case
  proof (cases "sna32lt t m")
    case False
    with 1(2) show ?thesis by (auto simp: fast_retrans_loop.simps [of h m t a])
  next
    case True
    then have lt: "unat (t - lo) < unat (m - lo)" using sna32.lt_window [of t lo m] 1(3-5) by simp
    then obtain c where c: "pq_get (inflight_queue a) t = Some c"
      using in_flight_getE [OF 1(2), of t] 1(5) by auto
    have "unat (t + 1 - lo) \<le> Suc (unat (t - lo))" using unat_succ_le [of "t - lo"] by (simp add: algebra_simps)
    then have "unat (t + 1 - lo) \<le> unat (m - lo)" using lt by simp
    with 1(1) [OF True c] in_flight_count_miss [OF 1(2), of h t c] 1(3,5)
    obtain b where "fast_retrans_loop h m (t + 1) (count_miss h t c a) = (Ok (), b)" "in_flight lo n (inflight_queue b)"
      "same_base (count_miss h t c a) b" "rwnd b = rwnd (count_miss h t c a)"
      "n_bytes (inflight_queue b) = n_bytes (inflight_queue (count_miss h t c a))"
      "\<forall>u. map_option acked (pq_get (inflight_queue b) u) = map_option acked (pq_get (inflight_queue (count_miss h t c a)) u)"
      by blast
    moreover have "fast_retrans_loop h m t a = fast_retrans_loop h m (t + 1) (count_miss h t c a)"
      using True c by (simp add: fast_retrans_loop.simps [of h m t a])
    ultimately show ?thesis
      using same_base_trans [OF count_miss_keeps(4) [of a h t c]] by (auto simp: count_miss_keeps(2,3,5))
  qed
qed

lemma process_fast_retransmission_ok:
  assumes "in_flight (cum + 1) n (inflight_queue a)" and "n < 2 ^ 31" and "h = cum \<or> unat (h - (cum + 1)) < n"
  shows "\<exists>b. process_fast_retransmission cum h adv a = (Ok (), b) \<and> in_flight (cum + 1) n (inflight_queue b) \<and>
    same_base a b \<and> rwnd b = rwnd a \<and> n_bytes (inflight_queue b) = n_bytes (inflight_queue a) \<and>
    (\<forall>u. map_option acked (pq_get (inflight_queue b) u) = map_option acked (pq_get (inflight_queue a) u))"
proof -
  define m where "m = (if \<not> in_fast_recovery a then h else cum + of_nat (length (chunk_map (inflight_queue a))) + 1)"
  have "\<exists>b. fast_retrans_loop h m (cum + 1) a = (Ok (), b) \<and> in_flight (cum + 1) n (inflight_queue b) \<and>
    same_base a b \<and> rwnd b = rwnd a \<and> n_bytes (inflight_queue b) = n_bytes (inflight_queue a) \<and>
    (\<forall>u. map_option acked (pq_get (inflight_queue b) u) = map_option acked (pq_get (inflight_queue a) u))"
  proof (cases "m = cum")
    case True
    then have "\<not> sna32lt (cum + 1) m"
      using unat_behind [of 1 cum] by (simp add: sna32lt_iff)
    then show ?thesis using assms(1) by (simp add: fast_retrans_loop.simps [of h m])
  next
    case False
    have "unat (m - (cum + 1)) \<le> n"
    proof (cases "in_fast_recovery a")
      case True
      then have "m - (cum + 1) = of_nat n" using in_flight_length [OF assms(1)] assms(2) by (simp add: m_def)
      then show ?thesis using assms(2) by (simp add: unat_of_nat)
    qed (use False assms(3) m_def in auto)
    then show ?thesis using fast_retrans_loop_ok [OF assms(1,2), of "cum + 1" m h] by simp
  qed
  then obtain b where "fast_retrans_loop h m (cum + 1) a = (Ok (), b)" and b: "in_flight (cum + 1) n (inflight_queue b)"
    "same_base a b" "rwnd b = rwnd a" "n_bytes (inflight_queue b) = n_bytes (inflight_queue a)"
    "\<forall>u. map_option acked (pq_get (inflight_queue b) u) = map_option acked (pq_get (inflight_queue a) u)"
    by blast
  then show ?thesis using assms(1)
    by (auto simp: process_fast_retransmission_def abind_def m_def [symmetric] same_base_def Let_def)
qed

text \<open>The other parts of SACK processing do not touch the queue.\<close>

lemma on_cumulative_keeps:
  "inflight_queue (on_cumulative_tsn_ack_point_advanced m a) = inflight_queue a"
  "same_base a (on_cumulative_tsn_ack_point_advanced m a)"
  by (simp_all add: on_cumulative_tsn_ack_point_advanced_def same_base_def Let_def)

lemma release_buffers_keeps:
  "inflight_queue (release_buffers acc a) = inflight_queue a \<and> same_base a (release_buffers acc a)"
proof (induction acc arbitrary: a)
  case (Cons x acc)
  obtain si m where x: "x = (si, m)" by fastforce
  let ?b = "a\<lparr>streams := hm_adjust si (\<lambda>s. snd (on_buffer_released m s)) (streams a)\<rparr>"
  have "release_buffers (x # acc) a = release_buffers acc ?b" by (simp add: release_buffers_def x)
  moreover have "same_base a ?b" by (simp add: same_base_def)
  ultimately show ?case using Cons.IH [of ?b] same_base_trans by auto
qed (simp add: release_buffers_def)

definition same_flow :: "association \<Rightarrow> association \<Rightarrow> bool" where
  "same_flow a b \<longleftrightarrow> inflight_queue b = inflight_queue a \<and> my_next_tsn b = my_next_tsn a \<and>
     cumulative_tsn_ack_point b = cumulative_tsn_ack_point a \<and> rwnd b = rwnd a"

lemma sack_forward_tsn_keeps: "same_flow a (sack_forward_tsn a)"
  by (simp add: same_flow_def sack_forward_tsn_def advance_peer_ack_point_def wake_def Let_def)

lemma postprocess_sack_keeps: "same_flow a (postprocess_sack st adv a)"
  by (simp add: same_flow_def postprocess_sack_def wake_def set_state_def Let_def)

lemma sack_tail_keeps: "same_flow a (postprocess_sack st adv (sack_forward_tsn a))"
  using sack_forward_tsn_keeps [of a] postprocess_sack_keeps [of "sack_forward_tsn a" st adv] by (simp add: same_flow_def)

lemma sack_processed_ok:
  assumes "in_flight (cumulative_tsn_ack d + 1) n (inflight_queue a)" and "n < 2 ^ 31"
    and "h = cumulative_tsn_ack d \<or> unat (h - (cumulative_tsn_ack d + 1)) < n"
    and "sna32lte (cumulative_tsn_ack_point a) (cumulative_tsn_ack d)"
  shows "\<exists>b. sack_processed st d (acc, h) a = (Ok [], b) \<and> cumulative_tsn_ack_point b = cumulative_tsn_ack d \<and>
    my_next_tsn b = my_next_tsn a \<and> in_flight (cumulative_tsn_ack d + 1) n (inflight_queue b) \<and>
    n_bytes (inflight_queue b) = n_bytes (inflight_queue a) \<and>
    rwnd b = (let out = of_nat (n_bytes (inflight_queue a)); w = sack_advertised_receiver_window_credit d
              in if out \<ge> w then 0 else w - out) \<and>
    (\<forall>u. map_option acked (pq_get (inflight_queue b) u) = map_option acked (pq_get (inflight_queue a) u))"
proof -
  define adv where "adv = sna32lt (cumulative_tsn_ack_point a) (cumulative_tsn_ack d)"
  define a1 where "a1 = (if adv then on_cumulative_tsn_ack_point_advanced (sum_list (hm_values acc))
      (a\<lparr>cumulative_tsn_ack_point := cumulative_tsn_ack d\<rparr>) else a)"
  define a2 where "a2 = sack_update_rwnd (sack_advertised_receiver_window_credit d) (release_buffers acc a1)"
  have 1: "inflight_queue a1 = inflight_queue a" "my_next_tsn a1 = my_next_tsn a"
    "cumulative_tsn_ack_point a1 = cumulative_tsn_ack d"
    using assms(4) on_cumulative_keeps [where m = "sum_list (hm_values acc)" and a = "a\<lparr>cumulative_tsn_ack_point := cumulative_tsn_ack d\<rparr>"]
    by (auto simp: a1_def adv_def same_base_def sna32lte_def)
  have 2: "inflight_queue a2 = inflight_queue a" "my_next_tsn a2 = my_next_tsn a"
    "cumulative_tsn_ack_point a2 = cumulative_tsn_ack d"
    "rwnd a2 = (let out = of_nat (n_bytes (inflight_queue a)); w = sack_advertised_receiver_window_credit d
              in if out \<ge> w then 0 else w - out)"
    using 1 release_buffers_keeps [of acc a1] by (auto simp: a2_def sack_update_rwnd_def same_base_def Let_def)
  obtain b where "process_fast_retransmission (cumulative_tsn_ack d) h adv a2 = (Ok (), b)" and
    "in_flight (cumulative_tsn_ack d + 1) n (inflight_queue b)" "same_base a2 b" "rwnd b = rwnd a2"
    "n_bytes (inflight_queue b) = n_bytes (inflight_queue a2)"
    "\<forall>u. map_option acked (pq_get (inflight_queue b) u) = map_option acked (pq_get (inflight_queue a2) u)"
    using process_fast_retransmission_ok [of "cumulative_tsn_ack d" n a2 h adv] assms(1-3) 2(1) by auto
  then show ?thesis using 2 sack_tail_keeps [of b st adv]
    by (simp add: sack_processed_def adv_def [symmetric] a1_def [symmetric] a2_def [symmetric] abind_def
        same_flow_def same_base_def Let_def)
qed

section \<open>Sending new data\<close>

lemma move_pending_ok:
  assumes "pend_inv (pending (sh a)) \<and> pend_complete (pending (sh a))" and "pend_peek (pending (sh a)) = Some c"
    and "in_flight lo n (inflight_queue a)" and "my_next_tsn a = lo + of_nat n" and "n < 2 ^ 31"
  shows "\<exists>c' b. move_pending_data_chunk_to_inflight_queue now (beginning_fragment c) (unordered c) a = (Some c', b) \<and>
    tsn c' = lo + of_nat n \<and> user_data c' = user_data c \<and> nsent c' = 1 \<and>
    in_flight lo (Suc n) (inflight_queue b) \<and> my_next_tsn b = lo + of_nat (Suc n) \<and>
    n_bytes (inflight_queue b) = n_bytes (inflight_queue a) + length (user_data c) \<and>
    pend_inv (pending (sh b)) \<and> pend_complete (pending (sh b)) \<and>
    pend_len (pending (sh a)) = Suc (pend_len (pending (sh b))) \<and>
    cwnd b = cwnd a \<and> rwnd b = rwnd a \<and> cumulative_tsn_ack_point b = cumulative_tsn_ack_point a"
proof -
  obtain q where q: "pend_pop (beginning_fragment c) (unordered c) (pending (sh a)) = (Some c, q)"
    "pend_inv q \<and> pend_complete q" "pend_len (pending (sh a)) = Suc (pend_len q)"
    using pend.peek_pop [OF assms(1,2)] by blast
  let ?c = "c\<lparr>tsn := my_next_tsn a, since := now, nsent := 1\<rparr>"
  have "in_flight lo (Suc n) (push_no_check ?c (inflight_queue a))"
    using in_flight_push [OF assms(3) _ assms(5), of ?c] assms(4) by simp
  then show ?thesis using q assms(4)
    by (simp add: move_pending_data_chunk_to_inflight_queue_def generate_next_tsn_def check_partial_reliability_status_def
        push_no_check_def update_sorted_keys_def Let_def algebra_simps)
qed

text \<open>The state of the loop: what was sent so far extends the run and respects both windows.\<close>

definition sent_ok :: "u32 \<Rightarrow> nat \<Rightarrow> association \<Rightarrow> chunk_payload_data list \<Rightarrow> association \<Rightarrow> bool" where
  "sent_ok lo n a cs b \<longleftrightarrow> in_flight lo (n + length cs) (inflight_queue b) \<and> my_next_tsn b = lo + of_nat (n + length cs) \<and>
     map tsn cs = map (\<lambda>i. lo + of_nat i) [n..<n + length cs] \<and>
     n_bytes (inflight_queue b) = n_bytes (inflight_queue a) + payload_bytes cs \<and>
     pend_inv (pending (sh b)) \<and> pend_complete (pending (sh b)) \<and>
     pend_len (pending (sh b)) + length cs \<le> pend_len (pending (sh a)) \<and> cwnd b = cwnd a \<and>
     cumulative_tsn_ack_point b = cumulative_tsn_ack_point a"

lemma pop_pending_loop_ok:
  assumes "pend_inv (pending (sh a)) \<and> pend_complete (pending (sh a))" and "pend_len (pending (sh a)) = m"
    and "in_flight lo n (inflight_queue a)" and "my_next_tsn a = lo + of_nat n" and "n + m < 2 ^ 31"
  shows "\<exists>cs' sis' b. pop_pending_loop now cs sis a = Some (cs @ cs', sis', b) \<and> sent_ok lo n a cs' b \<and>
    (cs' = [] \<or> n_bytes (inflight_queue b) \<le> unat (cwnd a)) \<and> payload_bytes cs' \<le> unat (rwnd a)"
  using assms
proof (induction m arbitrary: a n cs sis rule: less_induct)
  case (less m)
  have stop: "sent_ok lo n a [] a" using less.prems by (simp add: sent_ok_def)
  show ?case
  proof (cases "pend_peek (pending (sh a))")
    case None
    with stop show ?thesis by (subst pop_pending_loop.simps) auto
  next
    case (Some c)
    obtain q where q: "pend_pop (beginning_fragment c) (unordered c) (pending (sh a)) = (Some c, q)"
      "pend_inv q \<and> pend_complete q" "m = Suc (pend_len q)"
      using pend.peek_pop [OF less.prems(1) Some] less.prems(2) by auto
    consider (reset) "user_data c = []"
      | (full) "user_data c \<noteq> []" "n_bytes (inflight_queue a) + length (user_data c) > unat (cwnd a) \<or> length (user_data c) > unat (rwnd a)"
      | (send) "user_data c \<noteq> []" "n_bytes (inflight_queue a) + length (user_data c) \<le> unat (cwnd a)" "length (user_data c) \<le> unat (rwnd a)"
      by fastforce
    then show ?thesis
    proof cases
      case reset
      let ?b = "a\<lparr>sh := (sh a)\<lparr>pending := q\<rparr>\<rparr>"
      have "pop_pending_loop now cs sis a = pop_pending_loop now cs (sis @ [stream_identifier c]) ?b"
        using Some q(1) reset by (subst pop_pending_loop.simps) simp
      moreover have "sent_ok lo n ?b x b \<Longrightarrow> sent_ok lo n a x b" for x b using q(3) less.prems(2) by (simp add: sent_ok_def)
      ultimately show ?thesis
        using less.IH [of "pend_len q" ?b n cs "sis @ [stream_identifier c]"] q less.prems by auto
    next
      case full
      with Some stop show ?thesis by (subst pop_pending_loop.simps) (auto simp: Let_def)
    next
      case send
      let ?w = "a\<lparr>rwnd := rwnd a - of_nat (length (user_data c))\<rparr>"
      obtain c' b where b: "move_pending_data_chunk_to_inflight_queue now (beginning_fragment c) (unordered c) ?w = (Some c', b)"
        "tsn c' = lo + of_nat n" "user_data c' = user_data c" "in_flight lo (Suc n) (inflight_queue b)"
        "my_next_tsn b = lo + of_nat (Suc n)" "n_bytes (inflight_queue b) = n_bytes (inflight_queue a) + length (user_data c)"
        "pend_inv (pending (sh b)) \<and> pend_complete (pending (sh b))" "m = Suc (pend_len (pending (sh b)))"
        "cwnd b = cwnd a" "rwnd b = rwnd a - of_nat (length (user_data c))"
        "cumulative_tsn_ack_point b = cumulative_tsn_ack_point a"
        using move_pending_ok [of ?w c lo n now] Some less.prems by auto
      obtain cs' sis' d where d: "pop_pending_loop now (cs @ [c']) sis b = Some ((cs @ [c']) @ cs', sis', d)"
        "sent_ok lo (Suc n) b cs' d" "cs' = [] \<or> n_bytes (inflight_queue d) \<le> unat (cwnd b)" "payload_bytes cs' \<le> unat (rwnd b)"
        using less.IH [of "pend_len (pending (sh b))" b "Suc n" "cs @ [c']" sis] b less.prems(5) by auto
      have "pop_pending_loop now cs sis a = Some (cs @ (c' # cs'), sis', d)"
        using Some send b(1) d(1) by (subst pop_pending_loop.simps) (simp add: Let_def)
      moreover have "sent_ok lo n a (c' # cs') d"
        using d(2) b less.prems(2) by (simp add: sent_ok_def upt_conv_Cons del: upt_Suc)
      moreover have "n_bytes (inflight_queue d) \<le> unat (cwnd a)"
        using d(2,3) b(6,9) send(2) by (auto simp: sent_ok_def)
      moreover have "payload_bytes (c' # cs') \<le> unat (rwnd a)"
      proof -
        have "unat (of_nat (length (user_data c)) :: u32) = length (user_data c)"
        proof -
          have "unat (rwnd a) < 2 ^ LENGTH(32)" by (rule unsigned_less)
          with send(3) show ?thesis by (simp add: unat_of_nat)
        qed
        then have "unat (rwnd b) = unat (rwnd a) - length (user_data c)"
          using send(3) b(10) unat_sub [of "of_nat (length (user_data c))" "rwnd a"] by (simp add: word_le_nat_alt)
        then show ?thesis using d(4) b(3) send(3) by simp
      qed
      ultimately show ?thesis by blast
    qed
  qed
qed

section \<open>Bundling\<close>

lemma bundle_loop_chunks:
  "concat (map chunks (bundle_loop a cs to_send w ps)) =
   concat (map chunks ps) @ to_send @ map ChunkPayloadData cs"
  by (induction a cs to_send w ps rule: bundle_loop.induct) (auto simp: Let_def create_packet_def)

text \<open>The size of a packet of DATA chunks without padding, and the bytes the loop counts.\<close>

fun data_size :: "chunk \<Rightarrow> nat" where
  "data_size (ChunkPayloadData c) = 16 + length (user_data c)"
| "data_size _ = 0"

definition data_packet_size :: "packet \<Rightarrow> nat" where
  "data_packet_size p = 12 + (\<Sum>c\<leftarrow>chunks p. data_size c)"

lemma unat_size_add:
  fixes w :: u32
  assumes "unat w + m < 2 ^ 32"
  shows "unat (w + of_nat m) = unat w + m"
  using assms by (simp add: unat_word_ariths unat_of_nat)

lemma bundle_loop_bound:
  assumes "\<forall>c \<in> set cs. 12 + length (user_data c) \<le> unat (mtu a)" and "unat (mtu a) < 2 ^ 16"
    and "\<forall>p \<in> set ps. data_packet_size p \<le> unat (mtu a) + 16"
    and "unat w = 12 + (\<Sum>c\<leftarrow>to_send. data_size c)" and "unat w \<le> unat (mtu a) + 16"
  shows "\<forall>p \<in> set (bundle_loop a cs to_send w ps). data_packet_size p \<le> unat (mtu a) + 16"
  using assms
proof (induction a cs to_send w ps rule: bundle_loop.induct)
  case (1 a to_send w ps)
  then show ?case by (auto simp: data_packet_size_def create_packet_def)
next
  case (2 a c cs to_send w ps)
  let ?l = "length (user_data c)"
  have l: "12 + ?l \<le> unat (mtu a)" using 2(3) by simp
  have small: "unat w + (16 + ?l) < 2 ^ 32" "?l < 2 ^ 16" using l 2(4,7) by simp_all
  have h: "DATA_CHUNK_HEADER_SIZE + of_nat ?l = of_nat (16 + ?l)" by (simp add: DATA_CHUNK_HEADER_SIZE_def)
  have wl: "unat (w + of_nat ?l) = unat w + ?l" using small by (intro unat_size_add) simp
  have w1: "unat (COMMON_HEADER_SIZE + (DATA_CHUNK_HEADER_SIZE + of_nat ?l)) = 12 + (16 + ?l)"
    using unat_size_add [of 12 "16 + ?l"] small unfolding h COMMON_HEADER_SIZE_def by simp
  have w2: "unat (w + (DATA_CHUNK_HEADER_SIZE + of_nat ?l)) = unat w + (16 + ?l)"
    unfolding h using small by (intro unat_size_add)
  have tail: "\<forall>c \<in> set cs. 12 + length (user_data c) \<le> unat (mtu a)" using 2(3) by simp
  show ?case
  proof (cases "w + of_nat ?l > mtu a")
    case True
    have ps: "\<forall>p \<in> set (ps @ [create_packet to_send a]). data_packet_size p \<le> unat (mtu a) + 16"
      using 2(5-7) by (auto simp: data_packet_size_def create_packet_def)
    have "\<forall>p \<in> set (bundle_loop a cs [ChunkPayloadData c] (COMMON_HEADER_SIZE + (DATA_CHUNK_HEADER_SIZE + of_nat ?l))
        (ps @ [create_packet to_send a])). data_packet_size p \<le> unat (mtu a) + 16"
      by (rule 2(1) [OF refl True tail 2(4) ps]) (use w1 l in simp_all)
    with True show ?thesis by (simp only: bundle_loop.simps Let_def if_True)
  next
    case False
    then have "unat w + ?l \<le> unat (mtu a)" using wl by (simp add: word_le_nat_alt not_less)
    then have "\<forall>p \<in> set (bundle_loop a cs (to_send @ [ChunkPayloadData c]) (w + (DATA_CHUNK_HEADER_SIZE + of_nat ?l)) ps).
        data_packet_size p \<le> unat (mtu a) + 16"
      by (intro 2(2) [OF refl False tail 2(4,5)]) (use w2 2(6) in simp_all)
    with False show ?thesis by (simp only: bundle_loop.simps Let_def if_False)
  qed
qed

section \<open>Properties\<close>

text \<open>
  C36. A SACK that acknowledges what was sent is processed without error: when the chunks in flight are
  the TSNs from the acknowledgement point to the next TSN, the SACK acknowledges the first \<open>k\<close> of them
  cumulatively and its gap blocks lie among the rest, then exactly those \<open>k\<close> leave the queue, the
  acknowledgement point moves, the rest is still a gapless run up to the next TSN, a chunk in it is
  marked acknowledged exactly when it was before or a gap block covers it, and the send window is the
  advertised window less the bytes still in flight. No loop meets a missing TSN.
\<close>

theorem sack_acknowledges:
  assumes "a_state a \<in> {Established, ShutdownPending, ShutdownReceived}"
    and "in_flight (cumulative_tsn_ack_point a + 1) n (inflight_queue a)" and "n < 2 ^ 31"
    and "my_next_tsn a = cumulative_tsn_ack_point a + 1 + of_nat n" and "sent_before now (inflight_queue a)"
    and "k \<le> n" and "cumulative_tsn_ack d = cumulative_tsn_ack_point a + of_nat k"
    and "\<forall>t \<in> set (gap_tsns (cumulative_tsn_ack d) (gap_ack_blocks d)). unat (t - (cumulative_tsn_ack d + 1)) < n - k"
  shows "\<exists>b. handle_sack now d a = (Ok [], b) \<and> cumulative_tsn_ack_point b = cumulative_tsn_ack d \<and>
    my_next_tsn b = cumulative_tsn_ack_point b + 1 + of_nat (n - k) \<and>
    in_flight (cumulative_tsn_ack_point b + 1) (n - k) (inflight_queue b) \<and>
    (\<forall>t. unat (t - (cumulative_tsn_ack d + 1)) < n - k \<longrightarrow>
      map_option acked (pq_get (inflight_queue b) t) =
      map_option (\<lambda>c. acked c \<or> t \<in> set (gap_tsns (cumulative_tsn_ack d) (gap_ack_blocks d))) (pq_get (inflight_queue a) t)) \<and>
    rwnd b = (let out = of_nat (n_bytes (inflight_queue b)); w = sack_advertised_receiver_window_credit d
              in if out \<ge> w then 0 else w - out)"
proof -
  let ?a = "a\<lparr>stats := (stats a)\<lparr>n_sacks := n_sacks (stats a) + 1\<rparr>\<rparr>"
  let ?ts = "gap_tsns (cumulative_tsn_ack d) (gap_ack_blocks d)"
  obtain acc h c where p: "process_selective_ack now d ?a = (Ok (acc, h), c)" "same_base ?a c"
    "h \<in> insert (cumulative_tsn_ack d) (set ?ts)" "in_flight (cumulative_tsn_ack d + 1) (n - k) (inflight_queue c)"
    "\<forall>t. unat (t - (cumulative_tsn_ack d + 1)) < n - k \<longrightarrow> pq_get (inflight_queue c) t =
      (if t \<in> set ?ts then map_option sacked (pq_get (inflight_queue a) t) else pq_get (inflight_queue a) t)"
    using process_selective_ack_ok [of ?a n k now d] assms by auto
  have kk: "unat (cumulative_tsn_ack d - cumulative_tsn_ack_point a) = k"
    using assms(3,6,7) by (simp add: unat_of_nat)
  then have lte: "sna32lte (cumulative_tsn_ack_point c) (cumulative_tsn_ack d)"
    using assms(3,6) p(2) by (simp add: sna32lte_iff same_base_def)
  obtain b where b: "sack_processed (a_state a) d (acc, h) c = (Ok [], b)"
    "cumulative_tsn_ack_point b = cumulative_tsn_ack d" "my_next_tsn b = my_next_tsn c"
    "in_flight (cumulative_tsn_ack d + 1) (n - k) (inflight_queue b)"
    "n_bytes (inflight_queue b) = n_bytes (inflight_queue c)"
    "rwnd b = (let out = of_nat (n_bytes (inflight_queue c)); w = sack_advertised_receiver_window_credit d
              in if out \<ge> w then 0 else w - out)"
    "\<forall>u. map_option acked (pq_get (inflight_queue b) u) = map_option acked (pq_get (inflight_queue c) u)"
  proof -
    have "h = cumulative_tsn_ack d \<or> unat (h - (cumulative_tsn_ack d + 1)) < n - k" using p(3) assms(8) by blast
    moreover have "n - k < 2 ^ 31" using assms(3) by simp
    ultimately show thesis using sack_processed_ok [OF p(4) _ _ lte] that by blast
  qed
  have "handle_sack now d a = (Ok [], b)"
    using assms(1) p(1) b(1) lte p(2) by (auto simp: handle_sack_def Let_def abind_def same_base_def sna32lte_not_gt)
  moreover have "my_next_tsn b = cumulative_tsn_ack_point b + 1 + of_nat (n - k)"
    using b(2,3) p(2) assms(4,6,7) by (simp add: same_base_def of_nat_diff)
  moreover have "map_option acked (pq_get (inflight_queue b) t) =
      map_option (\<lambda>c. acked c \<or> t \<in> set ?ts) (pq_get (inflight_queue a) t)"
    if "unat (t - (cumulative_tsn_ack d + 1)) < n - k" for t
    using b(7) p(5) that by (simp add: option.map_comp comp_def)
  ultimately show ?thesis using b by auto
qed

theorem sack_acknowledges_witness:
  "\<exists>b. handle_sack 5 \<lparr>cumulative_tsn_ack = 10, sack_advertised_receiver_window_credit = 1000, gap_ack_blocks = [], duplicate_tsn = []\<rparr>
     ((set_state Established (association_new 0 0 10 7))\<lparr>my_next_tsn := 11,
       inflight_queue := push_no_check ((chunk_payload_data_default 0)\<lparr>tsn := 10\<rparr>) payload_queue_new\<rparr>) = (Ok [], b) \<and>
     cumulative_tsn_ack_point b = 10 \<and> pq_get (inflight_queue b) 10 = None"
proof -
  let ?c = "(chunk_payload_data_default 0)\<lparr>tsn := 10\<rparr>"
  let ?a = "(set_state Established (association_new 0 0 10 7))\<lparr>my_next_tsn := 11,
       inflight_queue := push_no_check ?c payload_queue_new\<rparr>"
  let ?d = "\<lparr>cumulative_tsn_ack = 10, sack_advertised_receiver_window_credit = 1000, gap_ack_blocks = [], duplicate_tsn = []\<rparr>"
  have cum: "cumulative_tsn_ack_point ?a = 9" by (simp add: set_state_def association_new_def Let_def)
  have 1: "a_state ?a \<in> {Established, ShutdownPending, ShutdownReceived}" by (simp add: set_state_def a_state_def get_state_def association_state_from_def)
  have 2: "in_flight (cumulative_tsn_ack_point ?a + 1) 1 (inflight_queue ?a)"
    using in_flight_push [OF in_flight_new, of ?c 10] by (simp add: cum)
  have 3: "sent_before 5 (inflight_queue ?a)"
    by (auto simp: sent_before_def pq_get_def payload_queue_new_def push_no_check_def update_sorted_keys_def hm_get_def
        chunk_payload_data_default_def split: if_splits)
  obtain b where b: "handle_sack 5 ?d ?a = (Ok [], b)" "cumulative_tsn_ack_point b = 10"
    "in_flight (cumulative_tsn_ack_point b + 1) (1 - 1) (inflight_queue b)"
    using sack_acknowledges [OF 1 2 _ _ 3, of 1 ?d] by (auto simp: cum gap_tsns_def)
  then show ?thesis using in_flight_get [OF b(3), of 10] by auto
qed



text \<open>
  Bundling loses and reorders nothing: the DATA chunks of the packets, read in order, are the
  chunks given, and every packet carries the association's ports and the peer's verification tag. A
  packet of chunks that fit on their own exceeds the path MTU by at most one DATA chunk header.
\<close>

theorem bundle_complete_and_bounded:
  assumes "\<forall>c \<in> set cs. 12 + length (user_data c) \<le> unat (mtu a)" and "unat (mtu a) < 2 ^ 16"
  shows "concat (map chunks (bundle_data_chunks_into_packets cs a)) = map ChunkPayloadData cs \<and>
    (\<forall>p \<in> set (bundle_data_chunks_into_packets cs a). data_packet_size p \<le> unat (mtu a) + 16)"
proof -
  have "\<forall>p \<in> set (bundle_loop a cs [] COMMON_HEADER_SIZE []). data_packet_size p \<le> unat (mtu a) + 16"
  proof (cases cs)
    case Nil
    then show ?thesis by simp
  next
    case (Cons c cs')
    then have "12 \<le> unat (mtu a)" using assms(1) by simp
    then show ?thesis using bundle_loop_bound [OF assms, of "[]" COMMON_HEADER_SIZE "[]"]
      by (simp add: COMMON_HEADER_SIZE_def)
  qed
  then show ?thesis by (simp add: bundle_data_chunks_into_packets_def bundle_loop_chunks)
qed

theorem bundle_complete_and_bounded_witness:
  "concat (map chunks (bundle_data_chunks_into_packets
     [(chunk_payload_data_default 0)\<lparr>user_data := [1, 2]\<rparr>, (chunk_payload_data_default 0)\<lparr>user_data := [3]\<rparr>]
     (association_new 0 0 10 7))) =
   [ChunkPayloadData ((chunk_payload_data_default 0)\<lparr>user_data := [1, 2]\<rparr>),
    ChunkPayloadData ((chunk_payload_data_default 0)\<lparr>user_data := [3]\<rparr>)]"
proof -
  have "mtu (association_new 0 0 10 7) = 1228" by (simp add: association_new_def INITIAL_MTU_def Let_def)
  then show ?thesis
    using bundle_complete_and_bounded [of "[(chunk_payload_data_default 0)\<lparr>user_data := [1, 2]\<rparr>,
      (chunk_payload_data_default 0)\<lparr>user_data := [3]\<rparr>]" "association_new 0 0 10 7"] by simp
qed

text \<open>
  The bound cannot be improved to the MTU: two chunks of 600 bytes are bundled into one packet of
  1244 bytes although the MTU is 1228, because the header of the chunk to be added is not counted.
\<close>

theorem bundle_exceeds_mtu:
  "let c = (chunk_payload_data_default 0)\<lparr>user_data := replicate 600 0\<rparr>;
       ps = bundle_data_chunks_into_packets [c, c] (association_new 0 0 tsn0 tag)
   in length ps = 1 \<and> data_packet_size (hd ps) = 1244 \<and> unat INITIAL_MTU = 1228"
  by (simp add: bundle_data_chunks_into_packets_def association_new_def COMMON_HEADER_SIZE_def INITIAL_MTU_def
      DATA_CHUNK_HEADER_SIZE_def create_packet_def data_packet_size_def Let_def)

end
