(* ===== verification/Sctp_Receiver.thy ===== *)
theory Sctp_Receiver
  imports Sctp_Client
begin

text \<open>
  The receiving side of an association and its life cycle: arrival of DATA chunks in any order, the
  cumulative TSN, FORWARD-TSN, the client's handshake and closing.
\<close>

section \<open>Advancing the cumulative TSN\<close>

lemma reset_all_none: "reconfig_requests a = [] \<Longrightarrow> reset_all a = ([], a)"
  by (simp add: reset_all_def hm_values_def)

text \<open>The queue of received chunks lies above the cumulative TSN.\<close>

definition tsns_above :: "u32 \<Rightarrow> payload_queue \<Rightarrow> bool" where
  "tsns_above lo q \<longleftrightarrow> pq_inv q \<and> pq_ordered lo q"

lemma tsns_above_pop:
  assumes "tsns_above lo q" and "pq_get q lo = Some c"
  obtains q' where "pq_pop lo q = (Some c, q')" and "pq_get q' = (pq_get q)(lo := None)" and "tsns_above (lo + 1) q'"
proof -
  have inv: "pq_inv q \<and> pq_ordered lo q" using assms(1) by (simp add: tsns_above_def)
  obtain q' where q': "pq_pop lo q = (fst (pq_pop lo q), q')" by (metis surjective_pairing)
  have p: "fst (pq_pop lo q) = Some c" "pq_get q' = (pq_get q)(lo := None)"
    using pq.pop_oldest [OF inv assms(2)] q' by (metis diff_self le0 snd_conv unat_0)+
  have i: "pq_inv q' \<and> pq_ordered lo q'" using pq.invar_pop [OF inv, of lo] q' by (metis snd_conv)
  have "unat (u - (lo + 1)) < 2 ^ 31" if "pq_get q' u \<noteq> None" for u
  proof -
    have "u \<noteq> lo" "u \<in> set (pq_sorted q')" using that p(2) pq_get_in [of q' u] i by (auto split: if_splits)
    then have "unat (u - lo) < 2 ^ 31" using i by (auto simp: pq_ordered_def)
    with unat_succ_diff [of lo u] \<open>u \<noteq> lo\<close> show ?thesis by auto
  qed
  from pq.invar_rebase [OF i this] have "tsns_above (lo + 1) q'" by (simp add: tsns_above_def)
  with p q' that show thesis by metis
qed

lemma tsns_above_pop_missing: "tsns_above lo q \<Longrightarrow> pq_get q t = None \<Longrightarrow> pq_pop t q = (None, q)"
  using pq.pop_missing [of q lo t] by (simp add: tsns_above_def)

lemma advance_peer_last_tsn_ok:
  assumes "tsns_above (peer_last_tsn a + 1) (rcv_queue a)" and "reconfig_requests a = []"
  shows "\<exists>k q. advance_peer_last_tsn reply a = (reply, a\<lparr>rcv_queue := q, peer_last_tsn := peer_last_tsn a + of_nat k\<rparr>) \<and>
    k \<le> length (pq_sorted (rcv_queue a)) \<and> tsns_above (peer_last_tsn a + of_nat k + 1) q \<and>
    (\<forall>i < k. pq_get (rcv_queue a) (peer_last_tsn a + 1 + of_nat i) \<noteq> None) \<and>
    pq_get (rcv_queue a) (peer_last_tsn a + 1 + of_nat k) = None \<and>
    (\<forall>t. pq_get q t = (if \<exists>i < k. t = peer_last_tsn a + 1 + of_nat i then None else pq_get (rcv_queue a) t))"
  using assms
proof (induction reply a rule: advance_peer_last_tsn.induct)
  case (1 reply a)
  let ?lo = "peer_last_tsn a + 1"
  show ?case
  proof (cases "pq_get (rcv_queue a) ?lo")
    case None
    then have "advance_peer_last_tsn reply a = (reply, a)"
      using tsns_above_pop_missing [OF 1(2) None] by (simp add: advance_peer_last_tsn.simps [of reply a])
    then show ?thesis using None 1(2) by (intro exI [of _ 0] exI [of _ "rcv_queue a"]) simp
  next
    case (Some c)
    obtain q where q: "pq_pop ?lo (rcv_queue a) = (Some c, q)" "pq_get q = (pq_get (rcv_queue a))(?lo := None)"
      "tsns_above (?lo + 1) q" using tsns_above_pop [OF 1(2) Some] .
    define lo where "lo = ?lo"
    define b where "b = a\<lparr>rcv_queue := q, peer_last_tsn := lo\<rparr>"
    have b: "rcv_queue b = q" "peer_last_tsn b = lo" "reconfig_requests b = []" using 1(3) by (simp_all add: b_def)
    have r: "reset_all b = ([], b)" using b(3) by (rule reset_all_none)
    have step: "advance_peer_last_tsn reply a = advance_peer_last_tsn reply b"
      using q(1) r by (simp add: advance_peer_last_tsn.simps [of reply a] b_def lo_def)
    have "\<exists>k q'. advance_peer_last_tsn (reply @ []) b = (reply @ [], b\<lparr>rcv_queue := q', peer_last_tsn := lo + of_nat k\<rparr>) \<and>
      k \<le> length (pq_sorted q) \<and> tsns_above (lo + of_nat k + 1) q' \<and> (\<forall>i < k. pq_get q (lo + 1 + of_nat i) \<noteq> None) \<and>
      pq_get q (lo + 1 + of_nat k) = None \<and>
      (\<forall>t. pq_get q' t = (if \<exists>i < k. t = lo + 1 + of_nat i then None else pq_get q t))"
      using 1(1) [OF q(1) [symmetric] refl r [symmetric, unfolded b_def lo_def]] q(3) b
      unfolding lo_def [symmetric] b_def [symmetric] b by blast
    then obtain k q' where k: "advance_peer_last_tsn reply b = (reply, b\<lparr>rcv_queue := q', peer_last_tsn := lo + of_nat k\<rparr>)"
      "k \<le> length (pq_sorted q)" "tsns_above (lo + of_nat k + 1) q'" "\<forall>i < k. pq_get q (lo + 1 + of_nat i) \<noteq> None"
      "pq_get q (lo + 1 + of_nat k) = None" "\<forall>t. pq_get q' t = (if \<exists>i < k. t = lo + 1 + of_nat i then None else pq_get q t)"
      by auto
    have ex: "(\<exists>i < Suc k. t = lo + of_nat i) \<longleftrightarrow> t = lo \<or> (\<exists>i < k. t = lo + 1 + of_nat i)" for t
      unfolding Ex_less_Suc2 by (simp add: add.assoc)
    have q2: "pq_get q = (pq_get (rcv_queue a))(lo := None)" using q(2) by (simp add: lo_def)
    have held: "\<forall>i < Suc k. pq_get (rcv_queue a) (lo + of_nat i) \<noteq> None"
      unfolding All_less_Suc2 using k(4) Some q2 by (auto simp: lo_def add.assoc split: if_splits)
    have "k \<le> 2 ^ 31"
    proof (rule ccontr)
      assume "\<not> k \<le> 2 ^ 31"
      then have "pq_get q (lo + 1 + of_nat (2 ^ 31)) \<noteq> None" using k(4) by (metis linorder_not_le)
      moreover have "pq_inv q" "pq_ordered (lo + 1) q" using q(3) by (simp_all add: tsns_above_def lo_def)
      ultimately have "unat (lo + 1 + of_nat (2 ^ 31) - (lo + 1)) < 2 ^ 31"
        using pq_get_in [of q] unfolding pq_ordered_def by blast
      then show False by simp
    qed
    then have "lo + of_nat (Suc k) \<noteq> lo" using unat_of_nat [of "Suc k", where 'a = 32] by (auto simp del: of_nat_Suc)
    then have missing: "pq_get (rcv_queue a) (lo + of_nat (Suc k)) = None" using k(5) q2 by (auto simp: add.assoc)
    have "advance_peer_last_tsn reply a = (reply, a\<lparr>rcv_queue := q', peer_last_tsn := peer_last_tsn a + of_nat (Suc k)\<rparr>)"
      using step k(1) by (simp add: b_def lo_def add.assoc)
    moreover have "tsns_above (peer_last_tsn a + of_nat (Suc k) + 1) q'" using k(3) by (simp add: lo_def algebra_simps)
    moreover have "Suc k \<le> length (pq_sorted (rcv_queue a))"
      using k(2) q(1) pq_pop_shorter [OF q(1)] by simp
    moreover have "\<forall>t. pq_get q' t = (if \<exists>i<Suc k. t = lo + of_nat i then None else pq_get (rcv_queue a) t)"
      unfolding ex using k(6) q2 by auto
    ultimately show ?thesis using held missing unfolding lo_def by blast
  qed
qed

section \<open>Arrival of a DATA chunk\<close>

lemma can_push_above:
  assumes "can_push q d cum"
  shows "pq_get q (tsn d) = None" and "unat (tsn d - (cum + 1)) < 2 ^ 31"
proof -
  show "pq_get q (tsn d) = None" using assms by (simp add: can_push_def pq_contains_def pq_get_def)
  have n: "tsn d \<noteq> cum" "\<not> unat (cum - tsn d) < 2 ^ 31" using assms by (auto simp: can_push_def sna32lte_iff)
  have "unat (tsn d - cum) + unat (cum - tsn d) = 2 ^ 32" using word_dist_sum [of cum "tsn d"] n(1) by simp
  moreover have "Suc (unat (tsn d - (cum + 1))) = unat (tsn d - cum)" using unat_succ_diff [of cum "tsn d"] n(1) by simp
  ultimately show "unat (tsn d - (cum + 1)) < 2 ^ 31" using n(2) by simp
qed

lemma pq_push_ok:
  assumes "tsns_above (cum + 1) q" and "can_push q d cum"
  shows "tsns_above (cum + 1) (snd (pq_push d cum q))" and "pq_get (snd (pq_push d cum q)) = (pq_get q)(tsn d := Some d)"
proof -
  have e: "snd (pq_push d cum q) = push_no_check d q"
    using assms(2) by (simp add: pq_push_def can_push_def push_no_check_def)
  show "tsns_above (cum + 1) (snd (pq_push d cum q))"
    unfolding e using pq.invar_push [of q "cum + 1" d] can_push_above [OF assms(2)] assms(1) by (simp add: tsns_above_def)
  show "pq_get (snd (pq_push d cum q)) = (pq_get q)(tsn d := Some d)" unfolding e by (simp add: fun_eq_iff)
qed

lemma peer_last_and_ack:
  assumes "advance_peer_last_tsn [] a = ([], b)"
  shows "\<exists>e. handle_peer_last_tsn_and_acknowledgement im a = (Ok [], e) \<and> streams e = streams b \<and>
    peer_last_tsn e = peer_last_tsn b \<and> rcv_queue e = rcv_queue b \<and>
    (delayed_ack_triggered e \<or> immediate_ack_triggered e) \<and>
    ((im \<or> \<not> pq_is_empty (rcv_queue b)) \<and> ack_md b = Normal \<longrightarrow> immediate_ack_triggered e)"
  using assms by (simp add: handle_peer_last_tsn_and_acknowledgement_def Let_def)

section \<open>Properties\<close>



end
