(* ===== verification/Sctp_Lifecycle.thy ===== *)
theory Sctp_Lifecycle
  imports Sctp_Receiver
begin

text \<open>
  The life cycle of a client: its handshake with the peer, the independence of the verification tag,
  skipping by FORWARD-TSN, and closing.
\<close>

section \<open>The two steps of the handshake\<close>

lemma tsn_before_succ: "tsn_before t + 1 = t"
  by (simp add: tsn_before_def)

lemma a_state_simps [simp]: "a_state (set_state s a) = s" "a_state (wake a) = a_state a"
  by (simp_all add: a_state_def set_state_def get_state_def wake_def awake_write_loop_def)

lemma state_cells: "association_state_from 2 = CookieEchoed" "association_state_from 3 = Established"
  by (simp_all add: association_state_from_def)

lemma init_ack_accepted:
  assumes "a_state a = CookieWait" and "a_source_port a = destination_port p" and "a_destination_port a = source_port p"
    and "t1init a = Some x" and "t1cookie a = Some (rtx_timer_new T1Cookie n)"
    and "is_ack i" and "cookie_param (init_params i) = Some c" and "chunk_check (ChunkInit i) = Ok ()"
  shows "\<exists>b. handle_chunk now ck p (ChunkInit i) a = (Ok (), b) \<and> a_state b = CookieEchoed \<and>
    peer_verification_tag b = initiate_tag i \<and> rwnd b = advertised_receiver_window_credit i \<and>
    peer_last_tsn b + 1 = initial_tsn i \<and> handshake_completed b = handshake_completed a \<and>
    control_queue b = control_queue a @ [\<lparr>source_port = a_source_port a, destination_port = a_destination_port a,
      verification_tag = initiate_tag i, chunks = [ChunkCookieEcho c]\<rparr>] \<and>
    t1init b = Some (rtx_stop x) \<and> t1cookie b = Some (snd (rtx_start (get_rto (rto_mgr a)) (rtx_timer_new T1Cookie n)))"
proof -
  have "\<exists>b. handle_init_ack p i a = (Ok [], b) \<and> a_state b = CookieEchoed \<and>
    peer_verification_tag b = initiate_tag i \<and> rwnd b = advertised_receiver_window_credit i \<and>
    peer_last_tsn b + 1 = initial_tsn i \<and> handshake_completed b = handshake_completed a \<and>
    control_queue b = control_queue a @ [\<lparr>source_port = a_source_port a, destination_port = a_destination_port a,
      verification_tag = initiate_tag i, chunks = [ChunkCookieEcho c]\<rparr>] \<and>
    t1init b = Some (rtx_stop x) \<and> t1cookie b = Some (snd (rtx_start (get_rto (rto_mgr a)) (rtx_timer_new T1Cookie n)))"
    using assms(1-5,7)
    by (simp add: handle_init_ack_def abind_def send_cookie_echo_def timer_stop_def timer_start_def tsn_before_succ
        wake_def set_state_def a_state_def get_state_def awake_write_loop_def state_cells Let_def)
  then obtain b where b: "handle_init_ack p i a = (Ok [], b)" and r: "a_state b = CookieEchoed"
    "peer_verification_tag b = initiate_tag i" "rwnd b = advertised_receiver_window_credit i"
    "peer_last_tsn b + 1 = initial_tsn i" "handshake_completed b = handshake_completed a"
    "control_queue b = control_queue a @ [\<lparr>source_port = a_source_port a, destination_port = a_destination_port a,
      verification_tag = initiate_tag i, chunks = [ChunkCookieEcho c]\<rparr>]"
    "t1init b = Some (rtx_stop x)" "t1cookie b = Some (snd (rtx_start (get_rto (rto_mgr a)) (rtx_timer_new T1Cookie n)))"
    by blast
  have "handle_chunk now ck p (ChunkInit i) a = (Ok (), b)"
    unfolding handle_chunk_def using b assms(6,8) by (simp add: abind_def)
  with r show ?thesis by blast
qed

lemma cookie_ack_accepted:
  assumes "a_state a = CookieEchoed" and "t1cookie a = Some x"
  shows "\<exists>b. handle_chunk now ck p ChunkCookieAck a = (Ok (), b) \<and> a_state b = Established \<and>
    t1cookie b = Some (rtx_stop x) \<and> handshake_completed b = handshake_completed a @ [None]"
  using assms by (simp add: handle_chunk_def handle_cookie_ack_def abind_def timer_stop_def set_state_def
      a_state_def get_state_def state_cells Let_def)

section \<open>Closing\<close>

definition closed_stream :: "stream \<Rightarrow> stream" where
  "closed_stream s = s\<lparr>st_closed := True, read_notifier := notify_waiters (read_notifier s)\<rparr>"

lemma unregister_all:
  "hm_inv m \<Longrightarrow> streams a = m \<Longrightarrow>
   fold unregister_stream (hm_keys m) a = a\<lparr>streams := [], detached := detached a @ map closed_stream (hm_values m)\<rparr>"
proof (induction m arbitrary: a)
  case (Cons e m)
  obtain k s where e: "e = (k, s)" by fastforce
  have k: "hm_remove k (e # m) = m" "hm_inv m" using Cons.prems(1) hm_remove_absent [of k m] e
    by (auto simp: hm_inv_def hm_keys_def hm_remove_def)
  let ?b = "a\<lparr>streams := m, detached := detached a @ [closed_stream s]\<rparr>"
  have "unregister_stream k a = ?b"
    using Cons.prems(2) k(1) e by (simp add: unregister_stream_def hm_get_def closed_stream_def)
  then have "fold unregister_stream (hm_keys (e # m)) a = fold unregister_stream (hm_keys m) ?b"
    by (simp add: e hm_keys_def)
  with Cons.IH [of ?b] k(2) e show ?case by (simp add: hm_values_def)
qed (simp add: hm_keys_def hm_values_def)

section \<open>Skipping\<close>

lemma tsns_above_skip:
  assumes "tsns_above lo q"
  shows "tsns_above (lo + 1) (snd (pq_pop lo q)) \<and> (\<forall>u. pq_get (snd (pq_pop lo q)) u = (if u = lo then None else pq_get q u))"
proof (cases "pq_get q lo")
  case None
  have "unat (u - (lo + 1)) < 2 ^ 31" if u: "pq_get q u \<noteq> None" for u
  proof -
    have "u \<noteq> lo" using u None by auto
    moreover have "unat (u - lo) < 2 ^ 31" using u assms pq_get_in [of q u] by (auto simp: tsns_above_def pq_ordered_def)
    ultimately show ?thesis using unat_succ_diff [of lo u] by auto
  qed
  from pq.invar_rebase [OF _ this] assms have "tsns_above (lo + 1) q" unfolding tsns_above_def by blast
  then show ?thesis using tsns_above_pop_missing [OF assms None] None by simp
next
  case (Some c)
  from tsns_above_pop [OF assms this] obtain q' where "pq_pop lo q = (Some c, q')" "pq_get q' = (pq_get q)(lo := None)"
    "tsns_above (lo + 1) q'" .
  then show ?thesis by simp
qed

lemma skip_to_tsn_ok:
  assumes "tsns_above (peer_last_tsn a + 1) (rcv_queue a)" and "unat (t - peer_last_tsn a) < 2 ^ 31"
  shows "\<exists>q. skip_to_tsn t a = a\<lparr>rcv_queue := q, peer_last_tsn := t\<rparr> \<and> tsns_above (t + 1) q \<and>
    (\<forall>u. pq_get q u = (if unat (u - (peer_last_tsn a + 1)) < unat (t - peer_last_tsn a) then None else pq_get (rcv_queue a) u))"
  using assms
proof (induction t a rule: skip_to_tsn.induct)
  case (1 t a)
  let ?p = "peer_last_tsn a"
  show ?case
  proof (cases "t = ?p")
    case True
    then have "\<not> sna32lt ?p t" by (simp add: sna32lt_iff)
    then have "skip_to_tsn t a = a" by (subst skip_to_tsn.simps) simp
    then show ?thesis using 1(2) True by (intro exI [of _ "rcv_queue a"]) simp
  next
    case False
    then have lt: "sna32lt ?p t" using 1(3) by (simp add: sna32lt_iff)
    define q where "q = snd (pq_pop (?p + 1) (rcv_queue a))"
    define b where "b = a\<lparr>rcv_queue := q, peer_last_tsn := ?p + 1\<rparr>"
    have q: "tsns_above (?p + 1 + 1) q" "\<forall>u. pq_get q u = (if u = ?p + 1 then None else pq_get (rcv_queue a) u)"
      using tsns_above_skip [OF 1(2)] by (simp_all add: q_def)
    have d: "Suc (unat (t - (?p + 1))) = unat (t - ?p)" using unat_succ_diff [of ?p t] False by simp
    have b: "peer_last_tsn b = ?p + 1" "rcv_queue b = q" by (simp_all add: b_def)
    obtain r where r: "skip_to_tsn t b = b\<lparr>rcv_queue := r, peer_last_tsn := t\<rparr>" "tsns_above (t + 1) r"
      "\<forall>u. pq_get r u = (if unat (u - (?p + 1 + 1)) < unat (t - (?p + 1)) then None else pq_get q u)"
      using 1(1) [OF lt] q(1) d 1(3) unfolding q_def [symmetric] b_def [symmetric] b by auto
    have "unat (u - (?p + 1)) < unat (t - ?p) \<longleftrightarrow> u = ?p + 1 \<or> unat (u - (?p + 1 + 1)) < unat (t - (?p + 1))" for u
    proof (cases "u = ?p + 1")
      case False
      then show ?thesis using unat_succ_diff [of "?p + 1" u] d by auto
    qed (use d in simp)
    moreover have "skip_to_tsn t a = a\<lparr>rcv_queue := r, peer_last_tsn := t\<rparr>"
      using lt r(1) by (simp add: skip_to_tsn.simps [of t a] q_def [symmetric] b_def)
    ultimately show ?thesis using r(2,3) q(2) by (intro exI [of _ r]) auto
  qed
qed

section \<open>Properties\<close>

text \<open>
  C39. The four-way handshake of a client succeeds: the INIT is queued when the association is created;
  an INIT-ACK with a state cookie on the right ports moves it to CookieEchoed, records the peer's tag,
  window and initial TSN, stops the T1-init timer, starts T1-cookie and queues the COOKIE-ECHO under
  the peer's tag; the COOKIE-ACK then establishes the association, stops T1-cookie, and
  \<^verbatim>\<open>Association::client\<close> returns.
\<close>

theorem client_handshake:
  assumes "is_ack i" and "source_port p = 5000" and "destination_port p = 5000"
    and "cookie_param (init_params i) = Some c" and "chunk_check (ChunkInit i) = Ok ()"
  shows "\<exists>a1 a2. handle_chunk now ck p (ChunkInit i) (association_client b m t v) = (Ok (), a1) \<and>
    a_state a1 = CookieEchoed \<and> peer_verification_tag a1 = initiate_tag i \<and>
    rwnd a1 = advertised_receiver_window_credit i \<and> peer_last_tsn a1 + 1 = initial_tsn i \<and>
    control_queue a1 = control_queue (association_client b m t v) @
      [\<lparr>source_port = 5000, destination_port = 5000, verification_tag = initiate_tag i, chunks = [ChunkCookieEcho c]\<rparr>] \<and>
    map_option rtx_task (t1init a1) = Some None \<and> (\<exists>r. map_option rtx_task (t1cookie a1) = Some (Some (r, 0))) \<and>
    client_result a1 = None \<and>
    handle_chunk now' ck p' ChunkCookieAck a1 = (Ok (), a2) \<and> a_state a2 = Established \<and>
    map_option rtx_task (t1cookie a2) = Some None \<and> client_result a2 = Some (Ok ())"
proof -
  let ?a = "association_client b m t v"
  have s: "a_state ?a = CookieWait" "a_source_port ?a = 5000" "a_destination_port ?a = 5000"
      "t1cookie ?a = Some (rtx_timer_new T1Cookie MAX_INIT_RETRANS)" "handshake_completed ?a = []"
      "\<exists>x. t1init ?a = Some x"
    by (simp_all add: association_client_def association_new_def send_init_def wake_def awake_write_loop_def set_state_def
        a_state_def get_state_def association_state_from_def timer_start_def Let_def)
  then obtain x where x: "t1init ?a = Some x" by blast
  obtain a1 where a1: "handle_chunk now ck p (ChunkInit i) ?a = (Ok (), a1)" "a_state a1 = CookieEchoed"
    "peer_verification_tag a1 = initiate_tag i" "rwnd a1 = advertised_receiver_window_credit i"
    "peer_last_tsn a1 + 1 = initial_tsn i" "handshake_completed a1 = []"
    "control_queue a1 = control_queue ?a @ [\<lparr>source_port = 5000, destination_port = 5000,
      verification_tag = initiate_tag i, chunks = [ChunkCookieEcho c]\<rparr>]"
    "t1init a1 = Some (rtx_stop x)"
    "t1cookie a1 = Some (snd (rtx_start (get_rto (rto_mgr ?a)) (rtx_timer_new T1Cookie MAX_INIT_RETRANS)))"
    using init_ack_accepted [OF s(1) _ _ x s(4) assms(1,4,5), of p now ck] assms(2,3) s(2,3,5) by auto
  obtain a2 where a2: "handle_chunk now' ck p' ChunkCookieAck a1 = (Ok (), a2)" "a_state a2 = Established"
    "t1cookie a2 = Some (rtx_stop (snd (rtx_start (get_rto (rto_mgr ?a)) (rtx_timer_new T1Cookie MAX_INIT_RETRANS))))"
    "handshake_completed a2 = [None]"
    using cookie_ack_accepted [OF a1(2,9), of now' ck p'] a1(6) by auto
  show ?thesis using a1 a2
    by (intro exI [of _ a1] exI [of _ a2]) (simp add: client_result_def rtx_stop_def rtx_start_def rtx_timer_new_def)
qed

theorem client_handshake_witness:
  "\<exists>i p. \<exists>a1 a2. handle_chunk 0 [] p (ChunkInit i) (association_client 0 0 10 7) = (Ok (), a1) \<and>
    a_state a1 = CookieEchoed \<and> handle_chunk 0 [] p ChunkCookieAck a1 = (Ok (), a2) \<and>
    a_state a2 = Established \<and> client_result a2 = Some (Ok ())"
proof -
  let ?i = "\<lparr>is_ack = True, initiate_tag = 9, advertised_receiver_window_credit = 2000, num_outbound_streams = 10,
    num_inbound_streams = 10, initial_tsn = 100, init_params = [ParamStateCookie [1, 2, 3]]\<rparr>"
  let ?p = "\<lparr>source_port = 5000, destination_port = 5000, verification_tag = 7, chunks = [ChunkInit ?i]\<rparr>"
  have "chunk_check (ChunkInit ?i) = Ok ()" "cookie_param (init_params ?i) = Some [1, 2, 3]"
    by (simp_all add: cookie_param_def)
  then show ?thesis
    using client_handshake [of ?i ?p "[1, 2, 3]" 0 "[]" 0 0 10 7 0 ?p]
    by (intro exI [of _ ?i] exI [of _ ?p]) auto
qed

text \<open>
  C40. Closing an association releases everything it holds: the state becomes Closed, the loops are told
  to end, every timer is stopped, and every registered stream is closed, its waiting readers are woken
  and it is no longer registered. Closing again changes nothing.
\<close>

theorem close_releases:
  assumes "a_state a \<noteq> Closed" and "hm_inv (streams a)"
  shows "a_state (assoc_close a) = Closed \<and> streams (assoc_close a) = [] \<and>
    detached (assoc_close a) = detached a @ map closed_stream (hm_values (streams a)) \<and>
    \<not> close_loop_open (assoc_close a) \<and>
    (\<forall>f \<in> {t1init, t1cookie, t2shutdown, t3rtx, treconfig}. f (assoc_close a) = timer_stop (f a)) \<and>
    ack_timer_f (assoc_close a) = map_option ack_stop (ack_timer_f a) \<and>
    assoc_close (assoc_close a) = assoc_close a"
proof -
  let ?b = "(close_all_timers (set_state Closed a))\<lparr>close_loop_open := False\<rparr>"
  have s: "streams ?b = streams a" "detached ?b = detached a" by (simp_all add: close_all_timers_def set_state_def)
  have c: "assoc_close a = ?b\<lparr>streams := [], detached := detached a @ map closed_stream (hm_values (streams a))\<rparr>"
    using assms(1) unregister_all [OF assms(2) s(1)] unfolding assoc_close_def Let_def s by simp
  have st: "a_state (assoc_close a) = Closed"
    unfolding c by (simp add: close_all_timers_def set_state_def a_state_def get_state_def association_state_from_def)
  then have "assoc_close (assoc_close a) = assoc_close a"
    unfolding assoc_close_def [of "assoc_close a"] by simp
  with st show ?thesis unfolding c by (simp add: close_all_timers_def set_state_def)
qed

theorem close_releases_witness:
  "let a = snd (open_stream 5 (association_client 0 0 10 7)) in
   a_state (assoc_close a) = Closed \<and> streams (assoc_close a) = [] \<and> length (detached (assoc_close a)) = 1"
proof -
  let ?a = "snd (open_stream 5 (association_client 0 0 10 7))"
  have "a_state ?a = CookieWait" "streams ?a = [(5, stream_new 5 (a_max_payload_size ?a))]" "detached ?a = []"
    by (simp_all add: association_client_def association_new_def send_init_def wake_def awake_write_loop_def set_state_def
        a_state_def get_state_def association_state_from_def open_stream_def create_stream_def hm_get_def Let_def)
  then show ?thesis using close_releases [of ?a] by (simp add: hm_inv_def hm_keys_def hm_values_def)
qed

text \<open>
  The verification tag of an inbound packet has no influence on how its chunks are handled: an
  association accepts chunks under any tag.
\<close>

theorem verification_tag_ignored:
  "handle_chunks now ck (p\<lparr>verification_tag := v\<rparr>) cs a = handle_chunks now ck p cs a"
proof -
  have "chunk_handler now ck (p\<lparr>verification_tag := v\<rparr>) c = chunk_handler now ck p c" for c
    by (cases c) (simp_all add: handle_init_def handle_init_ack_def fun_eq_iff)
  then have "handle_chunk now ck (p\<lparr>verification_tag := v\<rparr>) = handle_chunk now ck p"
    by (intro ext) (simp add: handle_chunk_def)
  then have "handle_chunks now ck (p\<lparr>verification_tag := v\<rparr>) cs = handle_chunks now ck p cs" for cs
    by (induction cs) simp_all
  then show ?thesis by simp
qed

text \<open>
  A FORWARD-TSN that moves the cumulative TSN ahead discards every received TSN up to the new one,
  lets the streams drop their incomplete unordered messages, goes on over the TSNs already received
  beyond it, stops before the first missing one and triggers an acknowledgement.
\<close>

theorem forward_tsn_skips:
  assumes "use_forward_tsn a" and "sna32lt (peer_last_tsn a) (new_cumulative_tsn c)"
    and "tsns_above (peer_last_tsn a + 1) (rcv_queue a)" and "reconfig_requests a = []"
  shows "\<exists>b k. handle_forward_tsn c a = (Ok [], b) \<and>
    streams b = hm_map (handle_forward_tsn_for_unordered (new_cumulative_tsn c)) (streams a) \<and>
    peer_last_tsn b = new_cumulative_tsn c + of_nat k \<and> tsns_above (peer_last_tsn b + 1) (rcv_queue b) \<and>
    (let held = (\<lambda>u. if unat (u - (peer_last_tsn a + 1)) < unat (new_cumulative_tsn c - peer_last_tsn a)
                     then None else pq_get (rcv_queue a) u) in
      (\<forall>i < k. held (new_cumulative_tsn c + 1 + of_nat i) \<noteq> None) \<and> held (peer_last_tsn b + 1) = None \<and>
      (\<forall>t. pq_get (rcv_queue b) t = (if \<exists>i < k. t = new_cumulative_tsn c + 1 + of_nat i then None else held t))) \<and>
    (delayed_ack_triggered b \<or> immediate_ack_triggered b)"
proof -
  let ?t = "new_cumulative_tsn c" and ?p = "peer_last_tsn a"
  have d: "unat (?t - ?p) < 2 ^ 31" "\<not> sna32lte ?t ?p"
    using assms(2) word_dist_sum [of ?p ?t] by (auto simp: sna32lt_iff sna32lte_iff)
  obtain q where q: "skip_to_tsn ?t a = a\<lparr>rcv_queue := q, peer_last_tsn := ?t\<rparr>" "tsns_above (?t + 1) q"
    "\<forall>u. pq_get q u = (if unat (u - (?p + 1)) < unat (?t - ?p) then None else pq_get (rcv_queue a) u)"
    using skip_to_tsn_ok [OF assms(3) d(1)] by blast
  define a1 where "a1 = a\<lparr>rcv_queue := q, peer_last_tsn := ?t,
    streams := hm_map (handle_forward_tsn_for_unordered ?t) (streams a)\<rparr>"
  have a1: "rcv_queue a1 = q" "peer_last_tsn a1 = ?t" "reconfig_requests a1 = []"
    "streams a1 = hm_map (handle_forward_tsn_for_unordered ?t) (streams a)"
    using assms(4) by (simp_all add: a1_def)
  obtain k q' where k: "advance_peer_last_tsn [] a1 = ([], a1\<lparr>rcv_queue := q', peer_last_tsn := ?t + of_nat k\<rparr>)"
    "tsns_above (?t + of_nat k + 1) q'" "\<forall>i < k. pq_get q (?t + 1 + of_nat i) \<noteq> None"
    "pq_get q (?t + 1 + of_nat k) = None"
    "\<forall>t. pq_get q' t = (if \<exists>i < k. t = ?t + 1 + of_nat i then None else pq_get q t)"
    using advance_peer_last_tsn_ok [of a1 "[]"] q(2) a1 by auto
  have h: "handle_forward_tsn c a = handle_peer_last_tsn_and_acknowledgement False a1"
    using assms(1) d(2) q(1) by (simp add: handle_forward_tsn_def a1_def)
  have g: "pq_get q = (\<lambda>u. if unat (u - (?p + 1)) < unat (?t - ?p) then None else pq_get (rcv_queue a) u)"
    using q(3) by blast
  obtain b where b: "handle_forward_tsn c a = (Ok [], b)" "streams b = streams a1" "peer_last_tsn b = ?t + of_nat k"
    "rcv_queue b = q'" "delayed_ack_triggered b \<or> immediate_ack_triggered b"
    using peer_last_and_ack [OF k(1), of False] h by auto
  have "pq_get q (peer_last_tsn b + 1) = None" using k(4) b(3) by (simp add: algebra_simps)
  then show ?thesis unfolding Let_def g [symmetric] using b k(2,3,5) a1(4)
    by (intro exI [of _ b] exI [of _ k]) simp
qed

theorem forward_tsn_skips_witness:
  "let a = (association_new 0 0 10 7)\<lparr>use_forward_tsn := True\<rparr> in
   \<exists>b k. handle_forward_tsn \<lparr>new_cumulative_tsn = 5, fwd_streams = []\<rparr> a = (Ok [], b) \<and>
     peer_last_tsn b = 5 + of_nat k \<and> (delayed_ack_triggered b \<or> immediate_ack_triggered b)"
proof -
  let ?a = "(association_new 0 0 10 7)\<lparr>use_forward_tsn := True\<rparr>"
  have "tsns_above (peer_last_tsn ?a + 1) (rcv_queue ?a)" "reconfig_requests ?a = []" "peer_last_tsn ?a = 0"
    by (simp_all add: association_new_def tsns_above_def pq_inv_new pq_ordered_new Let_def)
  then show ?thesis
    using forward_tsn_skips [of ?a "\<lparr>new_cumulative_tsn = 5, fwd_streams = []\<rparr>"]
    by (auto simp: sna32lt_def Let_def)
qed

end
