(* ===== verification/Util_Replay.thy ===== *)
theory Util_Replay
  imports Sctp_Prelude
begin

text \<open>
  The fixed-size bit set and the replay detector of \<^verbatim>\<open>crates/util\<close> (\<^verbatim>\<open>fixed_big_int/mod.rs\<close> and
  \<^verbatim>\<open>replay_detector/mod.rs\<close>), which protects the DTLS record layer. A \<^verbatim>\<open>u64\<close> is a word, a \<^verbatim>\<open>usize\<close> a natural
  number. The detector is shown to refine a specification over the set of all numbers accepted so far.
\<close>

section \<open>FixedBigInt\<close>

record fixed_big_int =
  fb_bits :: "u64 list"
  fb_n :: nat
  fb_msb_mask :: u64

definition fixed_big_int_new :: "nat \<Rightarrow> fixed_big_int" where
  "fixed_big_int_new n =
     (let chunk_size = (n + 63) div 64;
          chunk_size = (if chunk_size = 0 then 1 else chunk_size)
      in \<lparr>fb_bits = replicate chunk_size 0, fb_n = n,
          fb_msb_mask = (if n mod 64 = 0 then - 1 else push_bit (64 - n mod 64) 1 - 1)\<rparr>)"

text \<open>The body of the loop of \<^verbatim>\<open>lsh\<close> for the index \<open>i\<close>; the loop runs from the last index to the first, in place.\<close>

definition lsh_word :: "nat \<Rightarrow> u64 list \<Rightarrow> nat \<Rightarrow> u64" where
  "lsh_word n bits i =
     (let n_chunk = int (n div 64);
          n_n = n mod 64;
          carry = (if int i - n_chunk \<ge> 0 then
                     let carry = (if n_n \<ge> 64 then 0 else push_bit n_n (bits ! nat (int i - n_chunk)))
                     in if int i - n_chunk > 0
                        then carry OR (if n_n = 0 then 0 else drop_bit (64 - n_n) (bits ! nat (int i - n_chunk - 1)))
                        else carry
                   else 0)
      in if n \<ge> 64 then carry else push_bit n (bits ! i) OR carry)"

definition lsh_step :: "nat \<Rightarrow> nat \<Rightarrow> u64 list \<Rightarrow> u64 list" where
  "lsh_step n i bits = bits[i := lsh_word n bits i]"

definition lsh :: "nat \<Rightarrow> fixed_big_int \<Rightarrow> fixed_big_int" where
  "lsh n f =
     (if n = 0 then f
      else let bits = fold (lsh_step n) (rev [0..<length (fb_bits f)]) (fb_bits f);
               last = length bits - 1
           in f\<lparr>fb_bits := bits[last := bits ! last AND fb_msb_mask f]\<rparr>)"

definition fb_bit :: "nat \<Rightarrow> fixed_big_int \<Rightarrow> nat" where
  "fb_bit i f =
     (if i \<ge> fb_n f then 0
      else if (fb_bits f ! (i div 64)) AND push_bit (i mod 64) 1 \<noteq> 0 then 1 else 0)"

definition set_bit_at :: "nat \<Rightarrow> fixed_big_int \<Rightarrow> fixed_big_int" where
  "set_bit_at i f =
     (if i \<ge> fb_n f then f
      else f\<lparr>fb_bits := (fb_bits f)[i div 64 := fb_bits f ! (i div 64) OR push_bit (i mod 64) 1]\<rparr>)"

section \<open>SlidingWindowDetector\<close>

record sliding_window_detector =
  sw_accepted :: bool
  sw_seq :: u64
  sw_latest_seq :: u64
  sw_max_seq :: u64
  sw_window_size :: nat
  sw_mask :: fixed_big_int

definition sliding_window_detector_new :: "nat \<Rightarrow> u64 \<Rightarrow> sliding_window_detector" where
  "sliding_window_detector_new window_size max_seq =
     \<lparr>sw_accepted = False, sw_seq = 0, sw_latest_seq = 0, sw_max_seq = max_seq, sw_window_size = window_size,
      sw_mask = fixed_big_int_new window_size\<rparr>"

text \<open>The sum \<^verbatim>\<open>window_size as u64 + seq\<close> wraps as in a release build.\<close>

definition sw_check :: "u64 \<Rightarrow> sliding_window_detector \<Rightarrow> bool \<times> sliding_window_detector" where
  "sw_check s d =
     (let d = d\<lparr>sw_accepted := False\<rparr> in
      if s > sw_max_seq d then (False, d)
      else if s \<le> sw_latest_seq d \<and> sw_latest_seq d \<ge> of_nat (sw_window_size d) + s then (False, d)
      else if s \<le> sw_latest_seq d \<and> fb_bit (unat (sw_latest_seq d - s)) (sw_mask d) \<noteq> 0 then (False, d)
      else (True, d\<lparr>sw_accepted := True, sw_seq := s\<rparr>))"

text \<open>The remainder by \<^verbatim>\<open>max_seq\<close> panics when it is zero.\<close>

definition sw_accept :: "sliding_window_detector \<Rightarrow> (unit, sliding_window_detector) outcome" where
  "sw_accept d =
     (if \<not> sw_accepted d then Ok d
      else
        let d = (if sw_seq d > sw_latest_seq d
                 then d\<lparr>sw_mask := lsh (unat (sw_seq d - sw_latest_seq d)) (sw_mask d), sw_latest_seq := sw_seq d\<rparr>
                 else d)
        in if sw_max_seq d = 0 then Panic
           else let diff = (sw_latest_seq d - sw_seq d) mod sw_max_seq d
                in Ok (d\<lparr>sw_mask := set_bit_at (unat diff) (sw_mask d)\<rparr>))"

text \<open>
  How the record layer uses a detector for one record: check the number, and accept it only when the record
  turned out to be authentic (\<^verbatim>\<open>handle_incoming_packet\<close> in \<^verbatim>\<open>dtls/conn/mod.rs\<close>). The result says whether the
  record was taken.
\<close>

definition sw_record :: "u64 \<times> bool \<Rightarrow> sliding_window_detector \<Rightarrow> (unit, bool \<times> sliding_window_detector) outcome" where
  "sw_record = (\<lambda>(s, authentic) d.
     (case sw_check s d of
        (True, d) \<Rightarrow> if authentic then obind (sw_accept d) (\<lambda>d. Ok (True, d)) else Ok (False, d)
      | (False, d) \<Rightarrow> Ok (False, d)))"

fun sw_records :: "(u64 \<times> bool) list \<Rightarrow> sliding_window_detector \<Rightarrow> (unit, bool list \<times> sliding_window_detector) outcome" where
  "sw_records [] d = Ok ([], d)"
| "sw_records (r # rs) d =
     obind (sw_record r d) (\<lambda>(b, d). obind (sw_records rs d) (\<lambda>(bs, d). Ok (b # bs, d)))"

section \<open>Specification\<close>

text \<open>
  The specification remembers every number taken. A record is taken when it is authentic, its number is not
  above the limit, was not taken before and is not a whole window or more below the highest number taken.
\<close>

definition taken_top :: "nat set \<Rightarrow> nat" where
  "taken_top S = Max (insert 0 S)"

definition takes :: "nat \<Rightarrow> nat \<Rightarrow> nat set \<Rightarrow> nat \<times> bool \<Rightarrow> bool" where
  "takes w mx S = (\<lambda>(s, authentic). authentic \<and> s \<le> mx \<and> s \<notin> S \<and> taken_top S < s + w)"

fun take_records :: "nat \<Rightarrow> nat \<Rightarrow> (nat \<times> bool) list \<Rightarrow> nat set \<Rightarrow> bool list" where
  "take_records w mx [] S = []"
| "take_records w mx (r # rs) S =
     (let b = takes w mx S r in b # take_records w mx rs (if b then insert (fst r) S else S))"

section \<open>The bit set\<close>

text \<open>The bit at a position of the words, without the bound \<open>fb_n\<close>.\<close>

definition raw_bit :: "u64 list \<Rightarrow> nat \<Rightarrow> bool" where
  "raw_bit bits i = bit (bits ! (i div 64)) (i mod 64)"

lemma and_bit_nonzero: "(w :: u64) AND push_bit p 1 \<noteq> 0 \<longleftrightarrow> bit w p"
proof -
  have "w AND push_bit p 1 = (if bit w p then push_bit p 1 else 0)"
    by (rule bit_word_eqI) (auto simp: bit_simps)
  moreover have "bit w p \<Longrightarrow> push_bit p 1 \<noteq> (0 :: u64)"
    using bit_imp_le_length [of w p] by (auto simp: push_bit_eq_mult)
  ultimately show ?thesis by auto
qed

lemma fb_bit_iff: "fb_bit i f \<noteq> 0 \<longleftrightarrow> i < fb_n f \<and> raw_bit (fb_bits f) i"
  unfolding fb_bit_def raw_bit_def and_bit_nonzero by simp

lemma fold_lsh_step:
  "m \<le> length bits \<Longrightarrow> i < length bits \<Longrightarrow>
   fold (lsh_step n) (rev [0..<m]) bits ! i = (if i < m then lsh_word n bits i else bits ! i) \<and>
   length (fold (lsh_step n) (rev [0..<m]) bits) = length bits"
proof (induction m arbitrary: bits)
  case (Suc m)
  let ?b = "lsh_step n m bits"
  have "lsh_word n ?b i = lsh_word n bits i" if "i < m"
    using that by (simp add: lsh_step_def lsh_word_def Let_def)
  then show ?case using Suc.IH [of ?b] Suc.prems by (auto simp: lsh_step_def less_Suc_eq)
qed simp

lemma bit_lsh_word:
  assumes "i < length bits" and "p < 64"
  shows "bit (lsh_word n bits i) p \<longleftrightarrow> n \<le> 64 * i + p \<and> raw_bit bits (64 * i + p - n)"
proof -
  define c r where "c = n div 64" and "r = n mod 64"
  have n: "n = 64 * c + r" "r < 64" by (simp_all add: c_def r_def)
  consider "i < c" | "c \<le> i" "r \<le> p" | "c \<le> i" "p < r" by linarith
  then show ?thesis
  proof cases
    case 1
    then have "n \<ge> 64" "\<not> n \<le> 64 * i + p" using n assms(2) by linarith+
    with 1 show ?thesis by (simp add: lsh_word_def c_def Let_def)
  next
    case 2
    have d: "64 * i + p - n = 64 * (i - c) + (p - r)" "n \<le> 64 * i + p" using 2 n by (simp_all add: algebra_simps)
    have "raw_bit bits (64 * i + p - n) \<longleftrightarrow> bit (bits ! (i - c)) (p - r)"
      unfolding d(1) raw_bit_def using assms(2) by simp
    then show ?thesis using 2 assms(2) n d(2)
      by (cases "c = 0") (auto simp: lsh_word_def c_def [symmetric] r_def [symmetric] Let_def bit_simps
          nat_diff_distrib dest: bit_imp_le_length)
  next
    case 3
    show ?thesis
    proof (cases "i = c")
      case True
      then have "\<not> n \<le> 64 * i + p" using 3 n by linarith
      then show ?thesis using 3 True n
        by (auto simp: lsh_word_def c_def [symmetric] r_def [symmetric] Let_def bit_simps)
    next
      case False
      define q where "q = 64 - r + p"
      have q: "q < 64" using 3 n by (simp add: q_def)
      have d: "64 * i + p - n = 64 * (i - c - 1) + q" "n \<le> 64 * i + p"
        using 3 False n by (simp_all add: q_def algebra_simps)
      have "raw_bit bits (64 * i + p - n) \<longleftrightarrow> bit (bits ! (i - c - 1)) (64 - r + p)"
        unfolding d(1) raw_bit_def using q by (simp add: q_def)
      then show ?thesis using 3 False n d(2)
        by (auto simp: lsh_word_def c_def [symmetric] r_def [symmetric] Let_def bit_simps nat_diff_distrib)
    qed
  qed
qed

lemma raw_bit_mask_last:
  assumes "bits \<noteq> []" and "i < 64 * length bits"
  shows "raw_bit (bits[length bits - 1 := bits ! (length bits - 1) AND m]) i \<longleftrightarrow>
    raw_bit bits i \<and> (i div 64 = length bits - 1 \<longrightarrow> bit m (i mod 64))"
  using assms by (auto simp: raw_bit_def nth_list_update bit_simps)

text \<open>A shift moves the bits up; the mask then clears part of the last word.\<close>

lemma raw_bit_lsh:
  assumes "fb_bits f \<noteq> []" and "i < 64 * length (fb_bits f)" and "0 < n"
  shows "raw_bit (fb_bits (lsh n f)) i \<longleftrightarrow> n \<le> i \<and> raw_bit (fb_bits f) (i - n) \<and>
    (i div 64 = length (fb_bits f) - 1 \<longrightarrow> bit (fb_msb_mask f) (i mod 64))"
proof -
  let ?b = "fold (lsh_step n) (rev [0..<length (fb_bits f)]) (fb_bits f)"
  have l: "length ?b = length (fb_bits f)" "?b \<noteq> []"
    using fold_lsh_step [of "length (fb_bits f)" "fb_bits f" 0 n] assms(1) by auto
  have k: "i div 64 < length (fb_bits f)" using assms(2) by auto
  have "raw_bit ?b i \<longleftrightarrow> bit (lsh_word n (fb_bits f) (i div 64)) (i mod 64)"
    using fold_lsh_step [of "length (fb_bits f)" "fb_bits f" "i div 64" n] k by (simp add: raw_bit_def)
  also have "\<dots> \<longleftrightarrow> n \<le> i \<and> raw_bit (fb_bits f) (i - n)" using bit_lsh_word [OF k, of "i mod 64" n] by simp
  finally have b: "raw_bit ?b i \<longleftrightarrow> n \<le> i \<and> raw_bit (fb_bits f) (i - n)" .
  have "fb_bits (lsh n f) = ?b[length ?b - 1 := ?b ! (length ?b - 1) AND fb_msb_mask f]"
    using assms(3) by (simp add: lsh_def Let_def)
  then show ?thesis using raw_bit_mask_last [OF l(2), of i "fb_msb_mask f"] assms(2) l(1) b by auto
qed

lemma raw_bit_set:
  assumes "j < 64 * length bits"
  shows "raw_bit (bits[j div 64 := bits ! (j div 64) OR push_bit (j mod 64) 1]) i \<longleftrightarrow> i = j \<or> raw_bit bits i"
proof -
  have "j div 64 < length bits" using assms by auto
  moreover have "i = j \<longleftrightarrow> i div 64 = j div 64 \<and> i mod 64 = j mod 64" by (metis mult_div_mod_eq)
  ultimately show ?thesis by (auto simp: raw_bit_def nth_list_update bit_simps)
qed

text \<open>
  The shape of a bit set of \<open>n\<close> positions. The mask of the last word keeps \<open>64 - n mod 64\<close> bits of it, which
  covers the \<open>n mod 64\<close> positions in use only when \<open>n mod 64 \<le> 32\<close>.
\<close>

definition fb_shape :: "nat \<Rightarrow> fixed_big_int \<Rightarrow> bool" where
  "fb_shape n f \<longleftrightarrow> fb_n f = n \<and> fb_bits f \<noteq> [] \<and> n \<le> 64 * length (fb_bits f) \<and>
     fb_msb_mask f = fb_msb_mask (fixed_big_int_new n) \<and> 64 * (length (fb_bits f) - 1) \<le> n"

lemma fb_shape_ops: "fb_shape n f \<Longrightarrow> fb_shape n (lsh k f)" "fb_shape n f \<Longrightarrow> fb_shape n (set_bit_at k f)"
proof -
  assume f: "fb_shape n f"
  have "length (fold (lsh_step k) (rev [0..<length (fb_bits f)]) (fb_bits f)) = length (fb_bits f)"
    using fold_lsh_step [of "length (fb_bits f)" "fb_bits f" 0 k] f by (simp add: fb_shape_def)
  then show "fb_shape n (lsh k f)" using f by (auto simp: fb_shape_def lsh_def Let_def)
  show "fb_shape n (set_bit_at k f)" using f by (auto simp: fb_shape_def set_bit_at_def)
qed

lemma fb_shape_new: "0 < n \<Longrightarrow> fb_shape n (fixed_big_int_new n)"
  by (auto simp: fb_shape_def fixed_big_int_new_def Let_def)

lemma mask_keeps:
  assumes "n mod 64 \<le> 32" and "p < 64" and "n mod 64 = 0 \<or> p < n mod 64"
  shows "bit (fb_msb_mask (fixed_big_int_new n)) p"
proof (cases "n mod 64 = 0")
  case False
  have "push_bit (64 - n mod 64) 1 - 1 = (mask (64 - n mod 64) :: u64)" by (simp add: mask_eq_exp_minus_1)
  then show ?thesis using assms False by (simp add: fixed_big_int_new_def Let_def bit_simps)
qed (use assms in \<open>simp add: fixed_big_int_new_def Let_def\<close>)

lemma fb_bit_lsh:
  assumes "fb_shape n f" and "n mod 64 \<le> 32" and "i < n"
  shows "fb_bit i (lsh k f) \<noteq> 0 \<longleftrightarrow> k \<le> i \<and> fb_bit (i - k) f \<noteq> 0"
proof (cases "k = 0")
  case False
  have i: "i < 64 * length (fb_bits f)" using assms by (simp add: fb_shape_def)
  have "bit (fb_msb_mask f) (i mod 64)" if "i div 64 = length (fb_bits f) - 1"
  proof -
    define m where "m = length (fb_bits f) - 1"
    have i: "i = 64 * m + i mod 64" using that unfolding m_def by (metis mult_div_mod_eq)
    have n: "64 * m \<le> n" "n \<le> 64 * m + 64" using assms(1) by (auto simp: fb_shape_def m_def)
    have "n mod 64 = 0 \<or> i mod 64 < n mod 64"
    proof (cases "n = 64 * m + 64")
      case False
      with n have "n - 64 * m < 64" by linarith
      then have "n mod 64 = n - 64 * m" using n(1) by (metis le_add_diff_inverse mod_mult_self4 mod_less)
      with i assms(3) show ?thesis by linarith
    qed simp
    then show ?thesis using mask_keeps [OF assms(2), of "i mod 64"] assms(1) by (simp add: fb_shape_def)
  qed
  then show ?thesis
    using raw_bit_lsh [of f i k] i False assms fb_shape_ops(1) [OF assms(1), of k]
    unfolding fb_bit_iff by (auto simp: fb_shape_def)
qed (simp add: lsh_def)

lemma fb_bit_set:
  assumes "fb_shape n f" and "j < n"
  shows "fb_bit i (set_bit_at j f) \<noteq> 0 \<longleftrightarrow> i = j \<or> fb_bit i f \<noteq> 0"
proof -
  have "j < 64 * length (fb_bits f)" "fb_n f = n" using assms by (simp_all add: fb_shape_def)
  then show ?thesis using raw_bit_set [of j "fb_bits f" i] assms(2) unfolding fb_bit_iff by (auto simp: set_bit_at_def)
qed

lemma fb_bit_new: "fb_bit i (fixed_big_int_new n) = 0"
proof -
  have "\<not> (i < fb_n (fixed_big_int_new n) \<and> raw_bit (fb_bits (fixed_big_int_new n)) i)"
    by (auto simp: fixed_big_int_new_def Let_def raw_bit_def)
  then show ?thesis using fb_bit_iff by blast
qed

section \<open>Refinement\<close>

text \<open>The detector's state represents the set of numbers taken: the top and the window below it.\<close>

definition represents :: "nat \<Rightarrow> u64 \<Rightarrow> sliding_window_detector \<Rightarrow> nat set \<Rightarrow> bool" where
  "represents w mx d S \<longleftrightarrow> sw_window_size d = w \<and> sw_max_seq d = mx \<and> fb_shape w (sw_mask d) \<and> finite S \<and>
     unat (sw_latest_seq d) = taken_top S \<and>
     (\<forall>i < w. fb_bit i (sw_mask d) \<noteq> 0 \<longleftrightarrow> i \<le> taken_top S \<and> taken_top S - i \<in> S)"

lemma taken_top_ge: "finite S \<Longrightarrow> s \<in> S \<Longrightarrow> s \<le> taken_top S"
  by (simp add: taken_top_def)

lemma taken_top_insert: "finite S \<Longrightarrow> taken_top (insert s S) = max s (taken_top S)"
  by (cases "S = {}") (simp_all add: taken_top_def max.left_commute)

lemma represents_new: "0 < w \<Longrightarrow> represents w mx (sliding_window_detector_new w mx) {}"
  by (simp add: represents_def sliding_window_detector_new_def fb_shape_new fb_bit_new taken_top_def)

lemma represents_flags: "represents w mx (d\<lparr>sw_accepted := b\<rparr>) S = represents w mx d S"
  "represents w mx (d\<lparr>sw_accepted := b, sw_seq := s\<rparr>) S = represents w mx d S"
  by (simp_all add: represents_def)

lemma sw_check_takes:
  assumes "represents w mx d S" and "w + unat mx < 2 ^ 64"
  shows "fst (sw_check s d) = takes w (unat mx) S (unat s, True)"
proof -
  have r: "sw_window_size d = w" "sw_max_seq d = mx" "unat (sw_latest_seq d) = taken_top S" "finite S"
    "\<And>i. i < w \<Longrightarrow> fb_bit i (sw_mask d) \<noteq> 0 \<longleftrightarrow> i \<le> taken_top S \<and> taken_top S - i \<in> S"
    using assms(1) by (simp_all add: represents_def)
  let ?l = "sw_latest_seq d"
  have above: "s \<le> ?l \<longleftrightarrow> unat s \<le> taken_top S" by (simp add: word_le_nat_alt r(3))
  have old: "of_nat w + s \<le> ?l \<longleftrightarrow> w + unat s \<le> taken_top S" if "s \<le> mx"
  proof -
    have "w + unat s < 2 ^ 64" using that assms(2) by (simp add: word_le_nat_alt)
    then have "unat (of_nat w + s) = w + unat s" by (simp add: unat_word_ariths unat_of_nat)
    then show ?thesis by (simp add: word_le_nat_alt r(3))
  qed
  have dup: "fb_bit (unat (?l - s)) (sw_mask d) \<noteq> 0 \<longleftrightarrow> unat s \<in> S" if "s \<le> ?l" "\<not> w + unat s \<le> taken_top S"
  proof -
    have "unat (?l - s) = taken_top S - unat s" using that(1) by (simp add: unat_sub r(3))
    then show ?thesis using r(5) [of "taken_top S - unat s"] that above by auto
  qed
  have new: "unat s \<notin> S" if "\<not> unat s \<le> taken_top S" using that taken_top_ge [OF r(4)] by blast
  have le: "s > mx \<longleftrightarrow> \<not> unat s \<le> unat mx" by (auto simp: word_less_nat_alt)
  show ?thesis
    unfolding sw_check_def takes_def using above old dup new le
    by (auto simp: r(1,2) Let_def word_le_nat_alt simp del: One_nat_def)
qed

lemma sw_accept_represents:
  assumes "represents w mx d S" and "takes w (unat mx) S (unat (sw_seq d), True)" and "sw_accepted d"
    and "0 < w" and "w \<le> unat mx" and "w mod 64 \<le> 32"
  shows "\<exists>d'. sw_accept d = Ok d' \<and> represents w mx d' (insert (unat (sw_seq d)) S)"
proof -
  have r: "sw_window_size d = w" "sw_max_seq d = mx" "unat (sw_latest_seq d) = taken_top S" "finite S"
    "fb_shape w (sw_mask d)" "\<And>i. i < w \<Longrightarrow> fb_bit i (sw_mask d) \<noteq> 0 \<longleftrightarrow> i \<le> taken_top S \<and> taken_top S - i \<in> S"
    using assms(1) by (simp_all add: represents_def)
  let ?s = "sw_seq d" and ?l = "sw_latest_seq d"
  have mx: "mx \<noteq> 0" using assms(4,5) by auto
  show ?thesis
  proof (cases "?l < ?s")
    case True
    then have lt: "taken_top S < unat ?s" by (simp add: word_less_nat_alt r(3))
    have k: "unat (?s - ?l) = unat ?s - taken_top S" using True by (simp add: unat_sub r(3))
    have top: "taken_top (insert (unat ?s) S) = unat ?s" using lt r(4) by (simp add: taken_top_insert)
    let ?m = "set_bit_at 0 (lsh (unat (?s - ?l)) (sw_mask d))"
    have bits: "fb_bit i ?m \<noteq> 0 \<longleftrightarrow> i \<le> unat ?s \<and> unat ?s - i \<in> insert (unat ?s) S" if "i < w" for i
    proof -
      have "fb_bit i ?m \<noteq> 0 \<longleftrightarrow> i = 0 \<or> unat ?s - taken_top S \<le> i \<and> fb_bit (i - (unat ?s - taken_top S)) (sw_mask d) \<noteq> 0"
        using fb_bit_set [OF fb_shape_ops(1) [OF r(5)] assms(4), of i] fb_bit_lsh [OF r(5) assms(6) that] k by simp
      also have "\<dots> \<longleftrightarrow> i \<le> unat ?s \<and> unat ?s - i \<in> insert (unat ?s) S"
      proof (cases "unat ?s - taken_top S \<le> i")
        case True
        have e: "taken_top S - (i - (unat ?s - taken_top S)) = unat ?s - i" using True lt by simp
        show ?thesis using r(6) [of "i - (unat ?s - taken_top S)"] that True lt unfolding e by auto
      next
        case False
        then have "unat ?s - i \<notin> S" using taken_top_ge [OF r(4), of "unat ?s - i"] by auto
        then show ?thesis using False lt by auto
      qed
      finally show ?thesis .
    qed
    have "sw_accept d = Ok (d\<lparr>sw_mask := ?m, sw_latest_seq := ?s\<rparr>)"
      using True assms(3) mx by (simp add: sw_accept_def Let_def r(2))
    then show ?thesis using bits r top fb_shape_ops
      by (intro exI [of _ "d\<lparr>sw_mask := ?m, sw_latest_seq := ?s\<rparr>"]) (simp add: represents_def)
  next
    case False
    then have le: "unat ?s \<le> taken_top S" by (simp add: word_less_nat_alt r(3))
    have j: "taken_top S - unat ?s < w" using assms(2) le by (auto simp: takes_def)
    have "unat (?l - ?s) = taken_top S - unat ?s" using False by (simp add: unat_sub r(3))
    then have diff: "unat ((?l - ?s) mod mx) = taken_top S - unat ?s" using j assms(5) by (simp add: unat_mod_distrib)
    have top: "taken_top (insert (unat ?s) S) = taken_top S" using le r(4) by (simp add: taken_top_insert)
    let ?m = "set_bit_at (taken_top S - unat ?s) (sw_mask d)"
    have bits: "fb_bit i ?m \<noteq> 0 \<longleftrightarrow> i \<le> taken_top S \<and> taken_top S - i \<in> insert (unat ?s) S" if "i < w" for i
      unfolding fb_bit_set [OF r(5) j] r(6) [OF that] using le by auto
    have "sw_accept d = Ok (d\<lparr>sw_mask := ?m\<rparr>)"
      using False assms(3) mx diff by (simp add: sw_accept_def Let_def r(2))
    then show ?thesis using bits r top fb_shape_ops
      by (intro exI [of _ "d\<lparr>sw_mask := ?m\<rparr>"]) (simp add: represents_def)
  qed
qed

lemma sw_record_refines:
  assumes "represents w mx d S" and "0 < w" and "w \<le> unat mx" and "w + unat mx < 2 ^ 64" and "w mod 64 \<le> 32"
  shows "\<exists>d'. sw_record (s, au) d = Ok (takes w (unat mx) S (unat s, au), d') \<and>
    represents w mx d' (if takes w (unat mx) S (unat s, au) then insert (unat s) S else S)"
proof (cases "sw_check s d")
  case (Pair ok e)
  have ok: "ok = takes w (unat mx) S (unat s, True)" using sw_check_takes [OF assms(1,4), of s] Pair by simp
  have au: "takes w (unat mx) S (unat s, au) = (au \<and> ok)" using ok by (simp add: takes_def)
  have e: "represents w mx e S" "ok \<Longrightarrow> sw_accepted e \<and> sw_seq e = s"
    using Pair assms(1) by (auto simp: sw_check_def Let_def represents_flags split: if_splits)
  show ?thesis
  proof (cases "au \<and> ok")
    case True
    then obtain d' where "sw_accept e = Ok d'" "represents w mx d' (insert (unat s) S)"
      using sw_accept_represents [OF e(1) _ _ assms(2,3,5)] e(2) ok by auto
    then show ?thesis using True Pair au by (simp add: sw_record_def)
  next
    case False
    then show ?thesis using Pair au e(1) by (cases ok) (simp_all add: sw_record_def)
  qed
qed

text \<open>In the specification no number is taken twice.\<close>

lemma take_records_once:
  "i < length rs \<Longrightarrow> take_records w mx rs S ! i \<Longrightarrow> fst (rs ! i) \<notin> S"
  "i < j \<Longrightarrow> j < length rs \<Longrightarrow> take_records w mx rs S ! i \<Longrightarrow> take_records w mx rs S ! j \<Longrightarrow> fst (rs ! i) \<noteq> fst (rs ! j)"
proof -
  show first: "i < length rs \<Longrightarrow> take_records w mx rs S ! i \<Longrightarrow> fst (rs ! i) \<notin> S" for i rs S
  proof (induction rs arbitrary: i S)
    case (Cons r rs)
    show ?case
    proof (cases i)
      case 0
      then show ?thesis using Cons.prems by (cases r) (simp add: takes_def Let_def)
    next
      case (Suc k)
      let ?S = "if takes w mx S r then insert (fst r) S else S"
      have "k < length rs" "take_records w mx rs ?S ! k" using Cons.prems Suc by (simp_all add: Let_def)
      from Cons.IH [OF this] show ?thesis using Suc by (auto split: if_splits)
    qed
  qed simp
  show "i < j \<Longrightarrow> j < length rs \<Longrightarrow> take_records w mx rs S ! i \<Longrightarrow> take_records w mx rs S ! j \<Longrightarrow> fst (rs ! i) \<noteq> fst (rs ! j)"
  proof (induction rs arbitrary: i j S)
    case (Cons r rs)
    obtain k where k: "j = Suc k" "k < length rs" using Cons.prems by (cases j) auto
    show ?case
    proof (cases i)
      case 0
      then have "take_records w mx rs (insert (fst r) S) ! k" using Cons.prems k by (simp add: Let_def)
      from first [OF k(2) this] show ?thesis using 0 k by auto
    next
      case (Suc m)
      then show ?thesis using Cons.IH [of m k "if takes w mx S r then insert (fst r) S else S"] Cons.prems k
        by (simp add: Let_def)
    qed
  qed simp
qed

section \<open>Properties\<close>

text \<open>
  C19. The replay detector refines the specification that remembers every number taken: on every sequence of
  records, authentic or not, it takes exactly the records the specification takes, and never panics. In
  particular no sequence number is ever taken twice, and an authentic record with a new number is refused only
  when it is above the limit or a whole window below the highest number taken. The window size has to be at
  most 32 modulo 64, as the 64 of the record layer is.
\<close>

theorem replay_detector_refines:
  assumes "0 < w" and "w \<le> unat mx" and "w + unat mx < 2 ^ 64" and "w mod 64 \<le> 32"
  shows "\<exists>d bs. sw_records rs (sliding_window_detector_new w mx) = Ok (bs, d) \<and>
    bs = take_records w (unat mx) (map (\<lambda>(s, au). (unat s, au)) rs) {} \<and>
    (\<forall>i j. i < j \<longrightarrow> j < length rs \<longrightarrow> bs ! i \<longrightarrow> bs ! j \<longrightarrow> fst (rs ! i) \<noteq> fst (rs ! j))"
proof -
  let ?f = "\<lambda>(s :: u64, au :: bool). (unat s, au)"
  have "\<exists>d'. sw_records rs d = Ok (take_records w (unat mx) (map ?f rs) S, d')" if "represents w mx d S" for d S
    using that
  proof (induction rs arbitrary: d S)
    case (Cons r rs)
    obtain s au where r: "r = (s, au)" by fastforce
    from sw_record_refines [OF Cons.prems assms, of s au] obtain e where
      "sw_record r d = Ok (takes w (unat mx) S (unat s, au), e)"
      "represents w mx e (if takes w (unat mx) S (unat s, au) then insert (unat s) S else S)" unfolding r by blast
    moreover from Cons.IH [OF this(2)] obtain d' where
      "sw_records rs e = Ok (take_records w (unat mx) (map ?f rs)
         (if takes w (unat mx) S (unat s, au) then insert (unat s) S else S), d')" by blast
    ultimately show ?case by (simp add: r Let_def)
  qed simp
  from this [OF represents_new [OF assms(1)]] obtain d where
    d: "sw_records rs (sliding_window_detector_new w mx) = Ok (take_records w (unat mx) (map ?f rs) {}, d)" by blast
  have "fst (rs ! i) \<noteq> fst (rs ! j)" if "i < j" "j < length rs" "take_records w (unat mx) (map ?f rs) {} ! i"
    "take_records w (unat mx) (map ?f rs) {} ! j" for i j
    using take_records_once(2) [of i j "map ?f rs" w "unat mx" "{}"] that by (auto simp: case_prod_beta)
  with d show ?thesis by blast
qed

theorem replay_detector_refines_witness:
  "\<exists>d bs. sw_records [(5, True), (5, True), (3, False), (3, True), (70, True), (5, True)]
      (sliding_window_detector_new 64 (2 ^ 48 - 1)) = Ok (bs, d) \<and> bs = [True, False, False, True, True, False]"
proof -
  let ?rs = "[(5, True), (5, True), (3, False), (3, True), (70, True), (5, True)] :: (u64 \<times> bool) list"
  have "take_records 64 (unat (2 ^ 48 - 1 :: u64)) (map (\<lambda>(s, au). (unat s, au)) ?rs) {} =
    [True, False, False, True, True, False]" by (simp add: takes_def taken_top_def Let_def)
  with replay_detector_refines [of 64 "2 ^ 48 - 1" ?rs] show ?thesis by auto
qed

text \<open>
  With another window size the mask is wrong: \<^verbatim>\<open>FixedBigInt::new\<close> keeps \<open>64 - n mod 64\<close> instead of \<open>n mod 64\<close>
  bits of the last word. A window of 48 takes the same authentic record twice.
\<close>

lemma replay_window_48:
  "\<exists>d. sw_records [(0, True), (20, True), (0, True)] (sliding_window_detector_new 48 (2 ^ 48 - 1)) = Ok ([True, True, True], d)"
  by (simp add: sw_record_def sw_check_def sw_accept_def sliding_window_detector_new_def fixed_big_int_new_def
      fb_bit_def lsh_def set_bit_at_def lsh_step_def lsh_word_def Let_def)

end
