(* ===== verification/Util_Buffer.thy ===== *)
theory Util_Buffer
  imports Sctp_Prelude
begin

text \<open>
  The packet buffer of \<^verbatim>\<open>crates/util/buffer/mod.rs\<close>, through which the multiplexer and the ICE agent hand packets
  to their readers: a growing ring of bytes that holds each packet behind its two-byte length. It is shown to
  refine a queue of packets.
\<close>

section \<open>Model\<close>

datatype util_error = ErrBufferFull | ErrBufferClosed | ErrBufferShort | ErrPacketTooBig | ErrTimeout

type_synonym 'a util_result = "(util_error, 'a) outcome"

definition MIN_SIZE :: nat where "MIN_SIZE = 2048"

definition CUTOFF_SIZE :: nat where "CUTOFF_SIZE = 128 * 1024"

definition MAX_SIZE :: nat where "MAX_SIZE = 4 * 1024 * 1024"

record buffer =
  bf_data :: bytes
  bf_head :: nat
  bf_tail :: nat
  bf_closed :: bool
  bf_subs :: bool
  bf_count :: nat
  bf_limit_count :: nat
  bf_limit_size :: nat
  bf_notify :: notify

definition buffer_new :: "nat \<Rightarrow> nat \<Rightarrow> buffer" where
  "buffer_new limit_count limit_size =
     \<lparr>bf_data = [], bf_head = 0, bf_tail = 0, bf_closed = False, bf_subs = False, bf_count = 0,
      bf_limit_count = limit_count, bf_limit_size = limit_size, bf_notify = N_Empty\<rparr>"

text \<open>\<^verbatim>\<open>data[i..i + n].copy_from_slice(xs)\<close> and \<^verbatim>\<open>data[i]\<close> panic outside the vector.\<close>

definition copy_at :: "nat \<Rightarrow> bytes \<Rightarrow> bytes \<Rightarrow> bytes util_result" where
  "copy_at i xs d = (if i + length xs \<le> length d then Ok (take i d @ xs @ drop (i + length xs) d) else Panic)"

definition byte_at :: "bytes \<Rightarrow> nat \<Rightarrow> u8 util_result" where
  "byte_at d i = (if i < length d then Ok (d ! i) else Panic)"

definition buf_available :: "nat \<Rightarrow> buffer \<Rightarrow> bool" where
  "buf_available sz b =
     (let available = int (bf_head b) - int (bf_tail b);
          available = (if available \<le> 0 then available + int (length (bf_data b)) else available)
      in int sz + 2 < available)"

definition buf_newsize :: "buffer \<Rightarrow> nat" where
  "buf_newsize b =
     (let newsize = (if length (bf_data b) < CUTOFF_SIZE then 2 * length (bf_data b) else 5 * length (bf_data b) div 4);
          newsize = (if newsize < MIN_SIZE then MIN_SIZE else newsize);
          newsize = (if bf_limit_size b = 0 \<and> newsize > MAX_SIZE then MAX_SIZE else newsize)
      in if bf_limit_size b > 0 \<and> newsize > bf_limit_size b + 1 then bf_limit_size b + 1 else newsize)"

definition buf_grow :: "buffer \<Rightarrow> buffer util_result" where
  "buf_grow b =
     (if buf_newsize b \<le> length (bf_data b) then Err ErrBufferFull
      else
        let newdata = replicate (buf_newsize b) 0 in
        if bf_head b \<le> bf_tail b then
          obind (bytes_slice (bf_data b) (bf_head b) (bf_tail b)) (\<lambda>s.
          obind (copy_at 0 s newdata) (\<lambda>newdata.
          Ok (b\<lparr>bf_head := 0, bf_tail := bf_tail b - bf_head b, bf_data := newdata\<rparr>)))
        else
          obind (bytes_slice (bf_data b) (bf_head b) (length (bf_data b))) (\<lambda>s.
          obind (copy_at 0 s newdata) (\<lambda>newdata.
          obind (bytes_slice (bf_data b) 0 (bf_tail b)) (\<lambda>s2.
          obind (copy_at (length (bf_data b) - bf_head b) s2 newdata) (\<lambda>newdata.
          Ok (b\<lparr>bf_head := 0, bf_tail := length (bf_data b) - bf_head b + bf_tail b, bf_data := newdata\<rparr>))))))"

definition buf_size :: "buffer \<Rightarrow> nat" where
  "buf_size b =
     (let sz = int (bf_tail b) - int (bf_head b);
          sz = (if sz < 0 then sz + int (length (bf_data b)) else sz)
      in nat sz)"

text \<open>The largest size the vector can grow to.\<close>

definition buf_bound :: "buffer \<Rightarrow> nat" where
  "buf_bound b = (if bf_limit_size b = 0 then MAX_SIZE else bf_limit_size b + 1)"

lemma buf_newsize_bound: "buf_newsize b \<le> buf_bound b \<or> bf_limit_size b = 0 \<and> buf_newsize b = MIN_SIZE"
  by (auto simp: buf_newsize_def buf_bound_def Let_def)

lemma buf_newsize_le: "buf_newsize b \<le> buf_bound b"
  using buf_newsize_bound [of b] by (auto simp: buf_bound_def MIN_SIZE_def MAX_SIZE_def)

lemma buf_grow_grows:
  assumes "buf_grow b = Ok b'"
  shows "length (bf_data b) < length (bf_data b')" and "length (bf_data b') = buf_newsize b"
    and "bf_limit_size b' = bf_limit_size b"
  using assms by (auto simp: buf_grow_def obind_eq_Ok copy_at_def slice_Ok_iff Let_def split: if_splits)

text \<open>\<^verbatim>\<open>while !b.available(packet.len()) { b.grow()?; }\<close>\<close>

function buf_grow_loop :: "nat \<Rightarrow> buffer \<Rightarrow> unit util_result \<times> buffer" where
  "buf_grow_loop n b =
     (if buf_available n b then (Ok (), b)
      else case buf_grow b of
        Ok b' \<Rightarrow> buf_grow_loop n b'
      | Err e \<Rightarrow> (Err e, b)
      | Panic \<Rightarrow> (Panic, b))"
  by pat_completeness auto
termination
proof (relation "measure (\<lambda>(_, b). buf_bound b - length (bf_data b))")
  fix n b b' assume g: "buf_grow b = Ok b'"
  have "buf_bound b' = buf_bound b" using buf_grow_grows(3) [OF g] by (simp add: buf_bound_def)
  then show "((n, b'), n, b) \<in> measure (\<lambda>(_, b). buf_bound b - length (bf_data b))"
    using buf_grow_grows(1,2) [OF g] buf_newsize_le [of b] by simp
qed simp

definition buf_put_byte :: "u8 \<Rightarrow> buffer \<Rightarrow> buffer util_result" where
  "buf_put_byte x b =
     obind (copy_at (bf_tail b) [x] (bf_data b)) (\<lambda>data.
       let b = b\<lparr>bf_data := data, bf_tail := bf_tail b + 1\<rparr>
       in Ok (if bf_tail b \<ge> length (bf_data b) then b\<lparr>bf_tail := 0\<rparr> else b))"

definition buf_put_packet :: "bytes \<Rightarrow> buffer \<Rightarrow> buffer util_result" where
  "buf_put_packet packet b =
     (let end' = min (length (bf_data b)) (bf_tail b + length packet);
          n = end' - bf_tail b
      in obind (copy_at (bf_tail b) (take n packet) (bf_data b)) (\<lambda>data.
         let b = b\<lparr>bf_data := data, bf_tail := bf_tail b + n\<rparr> in
         if bf_tail b \<ge> length (bf_data b) then
           obind (copy_at 0 (drop n packet) (bf_data b)) (\<lambda>data.
             Ok (b\<lparr>bf_data := data, bf_tail := length packet - n\<rparr>))
         else Ok b))"

text \<open>The part of \<^verbatim>\<open>write\<close> after the buffer has grown: the length, the packet, the count and the wake-up.\<close>

definition buf_store :: "bytes \<Rightarrow> buffer \<Rightarrow> nat util_result \<times> buffer" where
  "buf_store packet b =
     (case obind (buf_put_byte (of_nat (length packet div 256)) b) (\<lambda>b.
           obind (buf_put_byte (of_nat (length packet)) b) (buf_put_packet packet)) of
        Ok b' \<Rightarrow>
          let b' = b'\<lparr>bf_count := bf_count b' + 1\<rparr>;
              b' = (if bf_subs b' then b'\<lparr>bf_notify := notify_one (bf_notify b'), bf_subs := False\<rparr> else b')
          in (Ok (length packet), b')
      | Err e \<Rightarrow> (Err e, b)
      | Panic \<Rightarrow> (Panic, b))"

definition buffer_write :: "bytes \<Rightarrow> buffer \<Rightarrow> nat util_result \<times> buffer" where
  "buffer_write packet b =
     (if length packet \<ge> 65536 then (Err ErrPacketTooBig, b)
      else if bf_closed b then (Err ErrBufferClosed, b)
      else if bf_limit_count b > 0 \<and> bf_count b \<ge> bf_limit_count b
              \<or> bf_limit_size b > 0 \<and> buf_size b + 2 + length packet > bf_limit_size b
      then (Err ErrBufferFull, b)
      else
        case buf_grow_loop (length packet) b of
          (Err e, b) \<Rightarrow> (Err e, b)
        | (Panic, b) \<Rightarrow> (Panic, b)
        | (Ok _, b) \<Rightarrow> buf_store packet b)"

definition buf_get_byte :: "buffer \<Rightarrow> (u8 \<times> buffer) util_result" where
  "buf_get_byte b =
     obind (byte_at (bf_data b) (bf_head b)) (\<lambda>x.
       let b = b\<lparr>bf_head := bf_head b + 1\<rparr>
       in Ok (x, if bf_head b \<ge> length (bf_data b) then b\<lparr>bf_head := 0\<rparr> else b))"

text \<open>Copying \<open>copied\<close> bytes from the head into the caller's slice.\<close>

definition buf_copy_out :: "nat \<Rightarrow> bytes \<Rightarrow> buffer \<Rightarrow> bytes util_result" where
  "buf_copy_out copied packet b =
     (if bf_head b + copied < length (bf_data b) then
        obind (bytes_slice (bf_data b) (bf_head b) (bf_head b + copied)) (\<lambda>s. copy_at 0 s packet)
      else
        let k = length (bf_data b) - bf_head b in
        obind (bytes_slice (bf_data b) (bf_head b) (length (bf_data b))) (\<lambda>s.
        obind (copy_at 0 s packet) (\<lambda>packet.
        obind (bytes_slice (bf_data b) 0 (copied - k)) (\<lambda>s. copy_at k s packet))))"

text \<open>Advancing the head over a packet; an empty buffer is reset to the beginning.\<close>

definition buf_advance :: "nat \<Rightarrow> buffer \<Rightarrow> buffer" where
  "buf_advance n b =
     (let b = b\<lparr>bf_head := bf_head b + n\<rparr>;
          b = (if bf_head b \<ge> length (bf_data b) then b\<lparr>bf_head := bf_head b - length (bf_data b)\<rparr> else b)
      in if bf_head b = bf_tail b then b\<lparr>bf_head := 0, bf_tail := 0\<rparr> else b)"

text \<open>One turn of the loop of \<^verbatim>\<open>read\<close> under the lock when the buffer is not empty.\<close>

definition buf_take :: "bytes \<Rightarrow> buffer \<Rightarrow> (nat util_result \<times> bytes \<times> buffer) util_result" where
  "buf_take packet b =
     obind (buf_get_byte b) (\<lambda>(n1, b). obind (buf_get_byte b) (\<lambda>(n2, b).
       let count = unat n1 * 256 + unat n2;
           copied = (if count > length packet then length packet else count)
       in obind (buf_copy_out copied packet b) (\<lambda>packet.
          let b = buf_advance count b
          in if bf_count b = 0 then Panic
             else Ok (if copied < count then Err ErrBufferShort else Ok copied,
                      packet, b\<lparr>bf_count := bf_count b - 1\<rparr>))))"

text \<open>The whole turn; no result means that the reader has to wait.\<close>

definition buffer_read :: "bytes \<Rightarrow> buffer \<Rightarrow> nat util_result option \<times> bytes \<times> buffer" where
  "buffer_read packet b =
     (if bf_head b \<noteq> bf_tail b then
        (case buf_take packet b of
           Ok (r, packet, b) \<Rightarrow> (Some r, packet, b)
         | Err e \<Rightarrow> (Some (Err e), packet, b)
         | Panic \<Rightarrow> (Some Panic, packet, b))
      else
        let b = b\<lparr>bf_subs := True\<rparr>
        in if bf_closed b then (Some (Err ErrBufferClosed), packet, b) else (None, packet, b))"

definition buffer_close :: "buffer \<Rightarrow> buffer" where
  "buffer_close b =
     (if bf_closed b then b else b\<lparr>bf_closed := True, bf_notify := notify_waiters (bf_notify b)\<rparr>)"

text \<open>
  The reading task: a turn under the lock, then \<^verbatim>\<open>notified()\<close>, which takes a permit or waits, with the lock
  released in between. \<open>timed\<close> says whether the reader gave a duration; then waiting may end with a timeout.
\<close>

datatype buffer_reader = BR_Turn | BR_Await | BR_Waiting | BR_Done "nat util_result"

fun buffer_read_step :: "buffer \<times> bytes \<times> buffer_reader \<Rightarrow> (buffer \<times> bytes \<times> buffer_reader) option" where
  "buffer_read_step (b, p, BR_Turn) =
     (case buffer_read p b of
        (Some r, p, b) \<Rightarrow> Some (b, p, BR_Done r)
      | (None, p, b) \<Rightarrow> Some (b, p, BR_Await))"
| "buffer_read_step (b, p, BR_Await) =
     (if bf_notify b = N_Notified then Some (b\<lparr>bf_notify := N_Empty\<rparr>, p, BR_Turn)
      else Some (b\<lparr>bf_notify := N_Waiting\<rparr>, p, BR_Waiting))"
| "buffer_read_step (b, p, BR_Waiting) =
     (if bf_notify b = N_Notified then Some (b\<lparr>bf_notify := N_Empty\<rparr>, p, BR_Turn) else None)"
| "buffer_read_step (b, p, BR_Done r) = None"

inductive buffer_step :: "bool \<Rightarrow> buffer \<times> bytes \<times> buffer_reader \<Rightarrow> buffer \<times> bytes \<times> buffer_reader \<Rightarrow> bool"
  for timed where
  bs_reader: "buffer_read_step s = Some s' \<Longrightarrow> buffer_step timed s s'"
| bs_timeout: "timed \<Longrightarrow> bf_notify b = N_Waiting \<Longrightarrow>
    buffer_step timed (b, p, BR_Waiting) (b\<lparr>bf_notify := N_Empty\<rparr>, p, BR_Done (Err ErrTimeout))"
| bs_write: "buffer_write packet b = (r, b') \<Longrightarrow> buffer_step timed (b, p, rd) (b', p, rd)"
| bs_close: "buffer_step timed (b, p, rd) (buffer_close b, p, rd)"

section \<open>The ring\<close>

text \<open>The bytes in use, from the head to the tail, and the positions that are free.\<close>

definition ring :: "buffer \<Rightarrow> bytes" where
  "ring b = (if bf_head b \<le> bf_tail b then take (bf_tail b - bf_head b) (drop (bf_head b) (bf_data b))
             else drop (bf_head b) (bf_data b) @ take (bf_tail b) (bf_data b))"

definition ring_ok :: "buffer \<Rightarrow> bool" where
  "ring_ok b \<longleftrightarrow> bf_head b < length (bf_data b) \<and> bf_tail b < length (bf_data b) \<or>
     bf_data b = [] \<and> bf_head b = 0 \<and> bf_tail b = 0"

lemma buf_size_ring: "ring_ok b \<Longrightarrow> buf_size b = length (ring b)"
  by (auto simp: ring_ok_def ring_def buf_size_def Let_def)

lemma buf_available_ring: "ring_ok b \<Longrightarrow> buf_available n b \<longleftrightarrow> n + 2 + length (ring b) < length (bf_data b)"
  by (auto simp: ring_ok_def ring_def buf_available_def Let_def)

lemma ring_empty: "ring_ok b \<Longrightarrow> ring b = [] \<longleftrightarrow> bf_head b = bf_tail b"
  by (auto simp: ring_ok_def ring_def)

lemma ring_put:
  assumes "ring_ok b" and "length xs + length (ring b) < length (bf_data b)"
  shows "\<exists>d t. buf_put_packet xs b = Ok (b\<lparr>bf_data := d, bf_tail := t\<rparr>) \<and> length d = length (bf_data b) \<and>
    ring_ok (b\<lparr>bf_data := d, bf_tail := t\<rparr>) \<and> ring (b\<lparr>bf_data := d, bf_tail := t\<rparr>) = ring b @ xs"
proof -
  let ?d = "bf_data b" and ?h = "bf_head b" and ?t = "bf_tail b"
  have ok: "?h < length ?d" "?t < length ?d" using assms by (auto simp: ring_ok_def)
  show ?thesis
  proof (cases "?t + length xs < length ?d")
    case True
    then have p: "buf_put_packet xs b = Ok (b\<lparr>bf_data := take ?t ?d @ xs @ drop (?t + length xs) ?d, bf_tail := ?t + length xs\<rparr>)"
      by (simp add: buf_put_packet_def copy_at_def Let_def)
    let ?e = "take ?t ?d @ xs @ drop (?t + length xs) ?d"
    have e: "length ?e = length ?d" "take (?t + length xs) ?e = take ?t ?d @ xs" using True ok by simp_all
    have "ring (b\<lparr>bf_data := ?e, bf_tail := ?t + length xs\<rparr>) = ring b @ xs"
    proof (cases "?h \<le> ?t")
      case le: True
      then show ?thesis using ok by (simp add: ring_def take_drop e(2))
    next
      case False
      then have lt: "?t + length xs < ?h" using assms(2) ok by (simp add: ring_def)
      then have "drop ?h ?e = drop ?h ?d" using ok by simp
      with lt False show ?thesis unfolding ring_def using e(2) by simp
    qed
    moreover have "ring_ok (b\<lparr>bf_data := ?e, bf_tail := ?t + length xs\<rparr>)" using True ok e(1) by (simp add: ring_ok_def)
    ultimately show ?thesis using p e(1) by blast
  next
    case False
    define n where "n = length ?d - ?t"
    have n: "n \<le> length xs" "0 < n" and tn: "?t + n = length ?d" using False ok by (auto simp: n_def)
    have le: "?h \<le> ?t" using assms(2) False ok by (auto simp: ring_def split: if_splits)
    have fit: "length xs - n < ?h" using assms(2) le ok False by (simp add: ring_def n_def)
    let ?e = "drop n xs @ drop (length xs - n) (take ?t ?d) @ take n xs"
    have p: "buf_put_packet xs b = Ok (b\<lparr>bf_data := ?e, bf_tail := length xs - n\<rparr>)"
      using False ok n fit le tn by (simp add: buf_put_packet_def copy_at_def Let_def n_def [symmetric] min_def)
    have "drop ?h ?e = drop ?h (take ?t ?d) @ take n xs" using fit le ok by simp
    then show ?thesis unfolding p using ok n fit le
      by (intro exI [of _ ?e] exI [of _ "length xs - n"])
        (auto simp: ring_ok_def ring_def drop_take n_def)
  qed
qed

lemma put_byte_packet: "bf_tail b < length (bf_data b) \<Longrightarrow> buf_put_byte x b = buf_put_packet [x] b"
  by (auto simp: buf_put_byte_def buf_put_packet_def copy_at_def Let_def min_def)

lemma ring_drop:
  assumes "ring_ok b" and "k \<le> length (ring b)" and "0 < length (ring b)"
  defines "h \<equiv> (if bf_head b + k \<ge> length (bf_data b) then bf_head b + k - length (bf_data b) else bf_head b + k)"
  shows "ring_ok (b\<lparr>bf_head := h\<rparr>) \<and> ring (b\<lparr>bf_head := h\<rparr>) = drop k (ring b)"
proof -
  have ok: "bf_head b < length (bf_data b)" "bf_tail b < length (bf_data b)"
    using assms(1,3) by (auto simp: ring_ok_def ring_def)
  show ?thesis
  proof (cases "bf_head b \<le> bf_tail b")
    case True
    then show ?thesis using ok assms(2) by (auto simp: ring_ok_def ring_def h_def drop_take add.commute)
  next
    case False
    then show ?thesis using ok assms(2) by (auto simp: ring_ok_def ring_def h_def drop_take add.commute)
  qed
qed

lemma ring_advance:
  assumes "ring_ok b" and "k \<le> length (ring b)" and "bf_data b \<noteq> []"
  shows "ring_ok (buf_advance k b) \<and> ring (buf_advance k b) = drop k (ring b)"
proof -
  define h where "h = (if bf_head b + k \<ge> length (bf_data b) then bf_head b + k - length (bf_data b) else bf_head b + k)"
  have 1: "ring_ok (b\<lparr>bf_head := h\<rparr>) \<and> ring (b\<lparr>bf_head := h\<rparr>) = drop k (ring b)"
  proof (cases "ring b = []")
    case True
    then have "k = 0" "bf_head b < length (bf_data b)" using assms by (auto simp: ring_ok_def)
    then show ?thesis using assms(1) True by (simp add: h_def)
  qed (use ring_drop [OF assms(1,2)] in \<open>simp add: h_def\<close>)
  have "buf_advance k b = (if h = bf_tail b then b\<lparr>bf_head := 0, bf_tail := 0\<rparr> else b\<lparr>bf_head := h\<rparr>)"
    by (simp add: buf_advance_def h_def Let_def)
  moreover have "drop k (ring b) = []" if "h = bf_tail b" using 1 ring_empty [of "b\<lparr>bf_head := h\<rparr>"] that by simp
  ultimately show ?thesis using 1 assms(3) by (auto simp: ring_ok_def ring_def)
qed

lemma buf_get_byte_ring:
  assumes "ring_ok b" and "ring b = x # xs"
  shows "\<exists>h. buf_get_byte b = Ok (x, b\<lparr>bf_head := h\<rparr>) \<and> ring_ok (b\<lparr>bf_head := h\<rparr>) \<and> ring (b\<lparr>bf_head := h\<rparr>) = xs"
proof -
  have ok: "bf_head b < length (bf_data b)" using assms by (auto simp: ring_ok_def ring_def)
  have "ring b \<noteq> []" using assms(2) by simp
  then have "ring b ! 0 = bf_data b ! bf_head b" using ok unfolding ring_def by (auto simp: nth_append)
  then have "x = bf_data b ! bf_head b" using assms(2) by simp
  then show ?thesis using ring_drop [OF assms(1), of 1] assms(2) ok by (auto simp: buf_get_byte_def byte_at_def Let_def)
qed

lemma buf_copy_out_ring:
  assumes "ring_ok b" and "n \<le> length (ring b)" and "n \<le> length packet" and "bf_data b \<noteq> []"
  shows "buf_copy_out n packet b = Ok (take n (ring b) @ drop n packet)"
proof -
  have ok: "bf_head b < length (bf_data b)" "bf_tail b < length (bf_data b)" using assms(1,4) by (auto simp: ring_ok_def)
  show ?thesis
  proof (cases "bf_head b + n < length (bf_data b)")
    case True
    then show ?thesis using ok assms(2,3) by (auto simp: buf_copy_out_def bytes_slice_def copy_at_def ring_def min_def)
  next
    case False
    then have "\<not> bf_head b \<le> bf_tail b" using assms(2) ok by (auto simp: ring_def)
    then show ?thesis using False ok assms(2,3)
      by (auto simp: buf_copy_out_def bytes_slice_def copy_at_def ring_def min_def Let_def)
  qed
qed

lemma buf_grow_ring:
  assumes "ring_ok b" and "length (bf_data b) < buf_newsize b"
  shows "\<exists>d t. buf_grow b = Ok (b\<lparr>bf_head := 0, bf_tail := t, bf_data := d\<rparr>) \<and> length d = buf_newsize b \<and>
    ring_ok (b\<lparr>bf_head := 0, bf_tail := t, bf_data := d\<rparr>) \<and> ring (b\<lparr>bf_head := 0, bf_tail := t, bf_data := d\<rparr>) = ring b"
proof -
  let ?n = "buf_newsize b"
  let ?c = "\<lambda>d. b\<lparr>bf_head := 0, bf_tail := length (ring b), bf_data := d\<rparr>"
  have l: "length (ring b) < ?n" using assms by (auto simp: ring_ok_def ring_def)
  have g: "buf_grow b = Ok (?c (ring b @ replicate (?n - length (ring b)) 0))"
    using assms by (cases "bf_head b \<le> bf_tail b")
      (auto simp: buf_grow_def bytes_slice_def copy_at_def ring_ok_def ring_def Let_def)
  show ?thesis unfolding g using l
    by (intro exI [of _ "ring b @ replicate (?n - length (ring b)) 0"] exI [of _ "length (ring b)"])
      (auto simp: ring_ok_def ring_def [of "?c d" for d])
qed

lemma buf_newsize_grows: "length (bf_data b) < buf_bound b \<Longrightarrow> length (bf_data b) < buf_newsize b"
  by (auto simp: buf_newsize_def buf_bound_def Let_def MIN_SIZE_def MAX_SIZE_def CUTOFF_SIZE_def)

text \<open>The growth loop ends with room for the packet, unless the vector would exceed its bound.\<close>

lemma buf_grow_loop_ring:
  assumes "ring_ok b" and "length (bf_data b) \<le> buf_bound b"
  shows "\<exists>h t d. let b' = b\<lparr>bf_head := h, bf_tail := t, bf_data := d\<rparr> in
    buf_grow_loop n b = (if n + 2 + length (ring b) < buf_bound b then Ok () else Err ErrBufferFull, b') \<and>
    ring_ok b' \<and> ring b' = ring b \<and> length d \<le> buf_bound b \<and>
    (n + 2 + length (ring b) < buf_bound b \<longrightarrow> n + 2 + length (ring b) < length d)"
  using assms
proof (induction n b rule: buf_grow_loop.induct)
  case (1 n b)
  show ?case
  proof (cases "buf_available n b")
    case True
    have "n + 2 + length (ring b) < length (bf_data b)" using True buf_available_ring [OF 1(2)] by simp
    with True 1(2,3) show ?thesis
      by (intro exI [of _ "bf_head b"] exI [of _ "bf_tail b"] exI [of _ "bf_data b"])
        (simp add: buf_grow_loop.simps [of n b])
  next
    case False
    then have no: "\<not> n + 2 + length (ring b) < length (bf_data b)" using buf_available_ring [OF 1(2)] by simp
    show ?thesis
    proof (cases "length (bf_data b) < buf_bound b")
      case True
      obtain d t where g: "buf_grow b = Ok (b\<lparr>bf_head := 0, bf_tail := t, bf_data := d\<rparr>)" and d: "length d = buf_newsize b"
        "ring_ok (b\<lparr>bf_head := 0, bf_tail := t, bf_data := d\<rparr>)" "ring (b\<lparr>bf_head := 0, bf_tail := t, bf_data := d\<rparr>) = ring b"
        using buf_grow_ring [OF 1(2) buf_newsize_grows [OF True]] by blast
      let ?b = "b\<lparr>bf_head := 0, bf_tail := t, bf_data := d\<rparr>"
      have bd: "buf_bound ?b = buf_bound b" by (simp add: buf_bound_def)
      have l: "buf_grow_loop n b = buf_grow_loop n ?b" using False g by (simp add: buf_grow_loop.simps [of n b])
      show ?thesis
        using 1(1) [OF False g d(2)] d(1,3) buf_newsize_le [of b] unfolding bd l by (auto simp: Let_def)
    next
      case f: False
      then have e: "length (bf_data b) = buf_bound b" using 1(3) by simp
      then have "buf_grow b = Err ErrBufferFull" using buf_newsize_le [of b] by (simp add: buf_grow_def)
      then show ?thesis using False 1(2) no e
        by (intro exI [of _ "bf_head b"] exI [of _ "bf_tail b"] exI [of _ "bf_data b"])
          (simp add: buf_grow_loop.simps [of n b])
    qed
  qed
qed

section \<open>Packets\<close>

definition frame :: "bytes \<Rightarrow> bytes" where
  "frame p = of_nat (length p div 256) # of_nat (length p) # p"

text \<open>The buffer holds the packets \<open>ps\<close>, the oldest first.\<close>

definition holds_packets :: "buffer \<Rightarrow> bytes list \<Rightarrow> bool" where
  "holds_packets b ps \<longleftrightarrow> ring_ok b \<and> ring b = concat (map frame ps) \<and> bf_count b = length ps \<and>
     (\<forall>p \<in> set ps. length p < 65536) \<and> length (bf_data b) \<le> buf_bound b"

lemma holds_packets_new: "holds_packets (buffer_new lc ls) []"
  by (simp add: holds_packets_def buffer_new_def ring_ok_def ring_def)

lemma holds_packets_flags:
  "holds_packets (b\<lparr>bf_subs := s\<rparr>) ps = holds_packets b ps" "holds_packets (b\<lparr>bf_notify := n\<rparr>) ps = holds_packets b ps"
  "holds_packets (b\<lparr>bf_closed := c\<rparr>) ps = holds_packets b ps"
  by (simp_all add: holds_packets_def ring_ok_def ring_def buf_bound_def)

lemma ring_count [simp]: "ring (b\<lparr>bf_count := n\<rparr>) = ring b" "ring_ok (b\<lparr>bf_count := n\<rparr>) = ring_ok b"
    "buf_bound (b\<lparr>bf_count := n\<rparr>) = buf_bound b"
  by (simp_all add: ring_def ring_ok_def buf_bound_def)

lemma length_frame: "length (frame p) = length p + 2"
  by (simp add: frame_def)

lemma frame_count: "length p < 65536 \<Longrightarrow> unat (of_nat (length p div 256) :: u8) * 256 + unat (of_nat (length p) :: u8) = length p"
  by (simp add: unat_of_nat)

lemma put_frame:
  assumes "ring_ok b" and "length p + 2 + length (ring b) < length (bf_data b)"
  shows "\<exists>d t. obind (buf_put_byte (of_nat (length p div 256)) b) (\<lambda>b.
      obind (buf_put_byte (of_nat (length p)) b) (buf_put_packet p)) = Ok (b\<lparr>bf_data := d, bf_tail := t\<rparr>) \<and>
    length d = length (bf_data b) \<and> ring_ok (b\<lparr>bf_data := d, bf_tail := t\<rparr>) \<and>
    ring (b\<lparr>bf_data := d, bf_tail := t\<rparr>) = ring b @ frame p"
proof -
  let ?b = "\<lambda>d t. b\<lparr>bf_data := d, bf_tail := t\<rparr>" and ?x = "of_nat (length p div 256) :: u8" and ?y = "of_nat (length p) :: u8"
  have tail: "bf_tail c < length (bf_data c)" if "ring_ok c" "bf_data c \<noteq> []" for c using that by (auto simp: ring_ok_def)
  have ne: "bf_data b \<noteq> []" using assms(2) by auto
  obtain d1 t1 where 1: "buf_put_byte ?x b = Ok (?b d1 t1)" "length d1 = length (bf_data b)" "ring_ok (?b d1 t1)"
    "ring (?b d1 t1) = ring b @ [?x]"
    using ring_put [OF assms(1), of "[?x]"] put_byte_packet [OF tail [OF assms(1) ne]] assms(2) by auto
  have ne1: "bf_data (?b d1 t1) \<noteq> []" using 1(2) ne by auto
  obtain d2 t2 where 2: "buf_put_byte ?y (?b d1 t1) = Ok (?b d2 t2)" "length d2 = length (bf_data b)" "ring_ok (?b d2 t2)"
    "ring (?b d2 t2) = ring b @ [?x, ?y]"
    using ring_put [OF 1(3), of "[?y]"] put_byte_packet [OF tail [OF 1(3) ne1]] assms(2) 1(2,4) by auto
  obtain d3 t3 where 3: "buf_put_packet p (?b d2 t2) = Ok (?b d3 t3)" "length d3 = length (bf_data b)" "ring_ok (?b d3 t3)"
    "ring (?b d3 t3) = ring b @ [?x, ?y] @ p"
    using ring_put [OF 2(3), of p] assms(2) 2(2,4) by auto
  show ?thesis using 1(1) 2(1) 3 by (auto simp: frame_def)
qed

definition accepts_packet :: "buffer \<Rightarrow> bytes list \<Rightarrow> bytes \<Rightarrow> bool" where
  "accepts_packet b ps p \<longleftrightarrow> length p < 65536 \<and> \<not> bf_closed b \<and>
     (bf_limit_count b > 0 \<longrightarrow> length ps < bf_limit_count b) \<and>
     length (concat (map frame ps)) + length (frame p) < buf_bound b"

lemma buffer_write_holds:
  assumes "holds_packets b ps"
  shows "\<exists>b'. buffer_write p b =
      (if accepts_packet b ps p then Ok (length p)
       else Err (if length p \<ge> 65536 then ErrPacketTooBig else if bf_closed b then ErrBufferClosed else ErrBufferFull), b') \<and>
    holds_packets b' (if accepts_packet b ps p then ps @ [p] else ps) \<and>
    bf_closed b' = bf_closed b \<and> bf_limit_count b' = bf_limit_count b \<and> bf_limit_size b' = bf_limit_size b"
proof -
  have h: "ring_ok b" "ring b = concat (map frame ps)" "bf_count b = length ps" "length (bf_data b) \<le> buf_bound b"
    "\<forall>p \<in> set ps. length p < 65536"
    using assms by (simp_all add: holds_packets_def)
  let ?full = "bf_limit_count b > 0 \<and> bf_count b \<ge> bf_limit_count b \<or>
    bf_limit_size b > 0 \<and> buf_size b + 2 + length p > bf_limit_size b"
  let ?fits = "length p + 2 + length (ring b) < buf_bound b"
  have size: "buf_size b = length (ring b)" using buf_size_ring [OF h(1)] .
  have acc: "accepts_packet b ps p \<longleftrightarrow> length p < 65536 \<and> \<not> bf_closed b \<and> \<not> ?full \<and> ?fits"
    using h(2,3) size by (auto simp: accepts_packet_def length_frame buf_bound_def)
  show ?thesis
  proof (cases "length p < 65536 \<and> \<not> bf_closed b \<and> \<not> ?full")
    case False
    then show ?thesis using assms acc by (auto simp: buffer_write_def)
  next
    case True
    obtain h' t d where l: "buf_grow_loop (length p) b = (if ?fits then Ok () else Err ErrBufferFull,
        b\<lparr>bf_head := h', bf_tail := t, bf_data := d\<rparr>)" and g: "ring_ok (b\<lparr>bf_head := h', bf_tail := t, bf_data := d\<rparr>)"
        "ring (b\<lparr>bf_head := h', bf_tail := t, bf_data := d\<rparr>) = ring b" "length d \<le> buf_bound b"
        "?fits \<longrightarrow> length p + 2 + length (ring b) < length d"
      using buf_grow_loop_ring [OF h(1,4), of "length p"] by (auto simp: Let_def)
    let ?b = "b\<lparr>bf_head := h', bf_tail := t, bf_data := d\<rparr>"
    have w: "buffer_write p b = (case buf_grow_loop (length p) b of
          (Err e, b) \<Rightarrow> (Err e, b) | (Panic, b) \<Rightarrow> (Panic, b) | (Ok _, b) \<Rightarrow> buf_store p b)"
      using True unfolding buffer_write_def by (simp only: not_less [symmetric] if_False if_True simp_thms)
    show ?thesis
    proof (cases ?fits)
      case False
      have "holds_packets ?b ps" using h g(1-3) by (simp add: holds_packets_def buf_bound_def split: if_splits)
      then show ?thesis using False True acc w l by (auto simp: not_le)
    next
      case fits: True
      obtain d' t' where p: "obind (buf_put_byte (of_nat (length p div 256)) ?b) (\<lambda>b.
          obind (buf_put_byte (of_nat (length p)) b) (buf_put_packet p)) = Ok (?b\<lparr>bf_data := d', bf_tail := t'\<rparr>)"
        "length d' = length d" "ring_ok (?b\<lparr>bf_data := d', bf_tail := t'\<rparr>)"
        "ring (?b\<lparr>bf_data := d', bf_tail := t'\<rparr>) = ring b @ frame p"
        using put_frame [OF g(1), of p] g(2,4) fits by auto
      have "holds_packets (?b\<lparr>bf_data := d', bf_tail := t', bf_count := Suc (length ps)\<rparr>) (ps @ [p])"
        using h(2,5) p(2-4) g(3) True by (auto simp: holds_packets_def ring_ok_def ring_def buf_bound_def)
      then show ?thesis using w l fits True acc p(1) h(3)
        by (auto simp: buf_store_def Let_def holds_packets_flags)
    qed
  qed
qed

lemma buf_take_holds:
  assumes "holds_packets b (p # ps)"
  shows "\<exists>b'. buf_take packet b = Ok (if length p \<le> length packet then Ok (length p) else Err ErrBufferShort,
      take (length packet) p @ drop (length p) packet, b') \<and> holds_packets b' ps \<and>
    bf_closed b' = bf_closed b \<and> bf_limit_count b' = bf_limit_count b \<and> bf_limit_size b' = bf_limit_size b"
proof -
  have h: "ring_ok b" "ring b = frame p @ concat (map frame ps)" "bf_count b = Suc (length ps)" "length (bf_data b) \<le> buf_bound b"
    "length p < 65536" "\<forall>p \<in> set ps. length p < 65536"
    using assms by (simp_all add: holds_packets_def)
  let ?b = "\<lambda>k. b\<lparr>bf_head := k\<rparr>" and ?x = "of_nat (length p div 256) :: u8" and ?y = "of_nat (length p) :: u8"
  obtain k1 where 1: "buf_get_byte b = Ok (?x, ?b k1)" "ring_ok (?b k1)" "ring (?b k1) = ?y # p @ concat (map frame ps)"
    using buf_get_byte_ring [OF h(1)] h(2) by (auto simp: frame_def)
  obtain k2 where 2: "buf_get_byte (?b k1) = Ok (?y, ?b k2)" "ring_ok (?b k2)" "ring (?b k2) = p @ concat (map frame ps)"
    using buf_get_byte_ring [OF 1(2,3)] by auto
  have count: "unat ?x * 256 + unat ?y = length p" using frame_count [OF h(5)] .
  have ne: "bf_data (?b k2) \<noteq> []" using h(1,2) by (auto simp: ring_ok_def ring_def frame_def)
  define copied where "copied = (if length p > length packet then length packet else length p)"
  have out: "buf_copy_out copied packet (?b k2) = Ok (take (length packet) p @ drop (length p) packet)"
    using buf_copy_out_ring [OF 2(2) _ _ ne, of copied packet] 2(3) by (auto simp: copied_def)
  let ?c = "buf_advance (length p) (?b k2)"
  have c: "ring_ok ?c \<and> ring ?c = concat (map frame ps)" "bf_count ?c = Suc (length ps)" "bf_data ?c = bf_data b"
    "bf_closed ?c = bf_closed b" "bf_limit_count ?c = bf_limit_count b" "bf_limit_size ?c = bf_limit_size b"
    using ring_advance [OF 2(2) _ ne, of "length p"] 2(3) h(3) by (simp_all add: buf_advance_def Let_def)
  have "buf_bound ?c = buf_bound b" using c(6) by (simp add: buf_bound_def)
  then have "holds_packets (?c\<lparr>bf_count := length ps\<rparr>) ps"
    using c(1,3) h(4,6) by (simp add: holds_packets_def)
  moreover have "buf_take packet b = Ok (if copied < length p then Err ErrBufferShort else Ok copied,
      take (length packet) p @ drop (length p) packet, ?c\<lparr>bf_count := length ps\<rparr>)"
    unfolding buf_take_def 1(1) obind.simps prod.case 2(1) Let_def count copied_def [symmetric] out c(2) by simp
  ultimately show ?thesis using c by (auto simp: copied_def)
qed

lemma buffer_read_holds:
  assumes "holds_packets b ps"
  shows "\<exists>b'. buffer_read packet b = (case ps of
      [] \<Rightarrow> (if bf_closed b then Some (Err ErrBufferClosed) else None, packet, b')
    | p # _ \<Rightarrow> (Some (if length p \<le> length packet then Ok (length p) else Err ErrBufferShort),
        take (length packet) p @ drop (length p) packet, b')) \<and>
    holds_packets b' (tl ps) \<and> bf_closed b' = bf_closed b \<and> bf_limit_count b' = bf_limit_count b \<and>
    bf_limit_size b' = bf_limit_size b"
proof -
  have e: "ring b = [] \<longleftrightarrow> bf_head b = bf_tail b" "ring b = concat (map frame ps)"
    using assms ring_empty [of b] by (auto simp: holds_packets_def)
  show ?thesis
  proof (cases ps)
    case Nil
    then show ?thesis using e assms by (auto simp: buffer_read_def Let_def holds_packets_flags)
  next
    case (Cons p qs)
    then have "bf_head b \<noteq> bf_tail b" using e by (auto simp: frame_def)
    then show ?thesis using buf_take_holds [of b p qs packet] assms Cons by (auto simp: buffer_read_def)
  qed
qed

section \<open>The interface of a packet queue\<close>

text \<open>
  What the users of the buffer rely on: a write that succeeds appends its packet, a read returns the oldest
  packet. A run of writes and reads in any order then hands out the packets in the order they were written.
\<close>

datatype fifo_op = Put bytes | Get

fun fifo_run :: "(bytes \<Rightarrow> 'b \<Rightarrow> bool \<times> 'b) \<Rightarrow> ('b \<Rightarrow> bytes option \<times> 'b) \<Rightarrow> fifo_op list \<Rightarrow> 'b \<Rightarrow> bytes list \<times> bytes list \<times> 'b"
  where
  "fifo_run wr rd [] b = ([], [], b)"
| "fifo_run wr rd (Put p # os) b =
     (case wr p b of (ok, b) \<Rightarrow> (case fifo_run wr rd os b of (acc, got, b) \<Rightarrow> (if ok then p # acc else acc, got, b)))"
| "fifo_run wr rd (Get # os) b =
     (case rd b of (r, b) \<Rightarrow> (case fifo_run wr rd os b of (acc, got, b) \<Rightarrow>
        (acc, case r of Some p \<Rightarrow> p # got | None \<Rightarrow> got, b)))"

locale packet_fifo =
  fixes holds :: "'b \<Rightarrow> bytes list \<Rightarrow> bool"
    and wr :: "bytes \<Rightarrow> 'b \<Rightarrow> bool \<times> 'b"
    and rd :: "'b \<Rightarrow> bytes option \<times> 'b"
  assumes holds_write: "holds b ps \<Longrightarrow> holds (snd (wr p b)) (if fst (wr p b) then ps @ [p] else ps)"
    and read_oldest: "holds b ps \<Longrightarrow> fst (rd b) = (case ps of [] \<Rightarrow> None | p # _ \<Rightarrow> Some p)"
    and holds_read: "holds b ps \<Longrightarrow> holds (snd (rd b)) (tl ps)"
begin

lemma run_in_order:
  "holds b ps \<Longrightarrow> fifo_run wr rd os b = (acc, got, b') \<Longrightarrow> \<exists>qs. ps @ acc = got @ qs \<and> holds b' qs"
proof (induction os arbitrary: b ps acc got b')
  case (Cons oper os)
  show ?case
  proof (cases oper)
    case (Put p)
    obtain acc' where r: "fifo_run wr rd os (snd (wr p b)) = (acc', got, b')" "acc = (if fst (wr p b) then p # acc' else acc')"
      using Cons.prems(2) Put by (auto split: prod.splits)
    from Cons.IH [OF holds_write [OF Cons.prems(1)] r(1)] show ?thesis using r(2) by (auto split: if_splits)
  next
    case Get
    obtain got' where r: "fifo_run wr rd os (snd (rd b)) = (acc, got', b')"
      "got = (case fst (rd b) of Some p \<Rightarrow> p # got' | None \<Rightarrow> got')"
      using Cons.prems(2) Get by (auto split: prod.splits)
    from Cons.IH [OF holds_read [OF Cons.prems(1)] r(1)] show ?thesis
      using r(2) read_oldest [OF Cons.prems(1)] by (cases ps) auto
  qed
qed simp

end

text \<open>A writer that drops a refused packet, and a reader that does not wait and has room for every packet.\<close>

definition buffer_put :: "bytes \<Rightarrow> buffer \<Rightarrow> bool \<times> buffer" where
  "buffer_put p b = (case buffer_write p b of (Ok _, b) \<Rightarrow> (True, b) | (_, b) \<Rightarrow> (False, b))"

definition buffer_get :: "buffer \<Rightarrow> bytes option \<times> buffer" where
  "buffer_get b =
     (case buffer_read (replicate 65535 0) b of
        (Some (Ok n), p, b) \<Rightarrow> (Some (take n p), b)
      | (_, _, b) \<Rightarrow> (None, b))"

interpretation bq: packet_fifo holds_packets buffer_put buffer_get
proof
  fix b ps assume h: "holds_packets b ps"
  show "holds_packets (snd (buffer_put p b)) (if fst (buffer_put p b) then ps @ [p] else ps)" for p
    using buffer_write_holds [OF h, of p] by (cases "accepts_packet b ps p") (auto simp: buffer_put_def)
  have l: "\<forall>p \<in> set ps. length p \<le> 65535" using h by (auto simp: holds_packets_def)
  obtain b' where b': "buffer_read (replicate 65535 0) b = (case ps of
      [] \<Rightarrow> (if bf_closed b then Some (Err ErrBufferClosed) else None, replicate 65535 0, b')
    | p # _ \<Rightarrow> (Some (if length p \<le> 65535 then Ok (length p) else Err ErrBufferShort),
        take 65535 p @ drop (length p) (replicate 65535 0), b'))" and "holds_packets b' (tl ps)"
    using buffer_read_holds [OF h, of "replicate 65535 0"] unfolding length_replicate by blast
  with l have g: "buffer_get b = (case ps of [] \<Rightarrow> None | p # _ \<Rightarrow> Some p, b')"
    unfolding buffer_get_def b' by (cases ps) auto
  then show "fst (buffer_get b) = (case ps of [] \<Rightarrow> None | p # _ \<Rightarrow> Some p)" by simp
  show "holds_packets (snd (buffer_get b)) (tl ps)" unfolding g using \<open>holds_packets b' (tl ps)\<close> by simp
qed

section \<open>Properties\<close>

text \<open>
  C20. The ring buffer is a queue of packets. A write of a packet below 64 KiB to an open buffer succeeds exactly
  when the number of packets is below its limit and the packets, each with two bytes of length, stay below the
  size limit (4 MiB without one): the vector then grows as needed, which terminates, and the packet is appended.
  Otherwise the write reports why and the packets stay. A read returns the oldest packet, cut off with an error
  when the caller's slice is too short; on an empty buffer it reports the end when the buffer is closed and
  waits otherwise. No access is out of range.
\<close>

theorem buffer_refines_queue:
  assumes "holds_packets b ps"
  shows "(\<exists>b'. buffer_write p b =
      (if accepts_packet b ps p then Ok (length p)
       else Err (if length p \<ge> 65536 then ErrPacketTooBig else if bf_closed b then ErrBufferClosed else ErrBufferFull), b') \<and>
      holds_packets b' (if accepts_packet b ps p then ps @ [p] else ps)) \<and>
    (\<exists>b'. buffer_read packet b = (case ps of
        [] \<Rightarrow> (if bf_closed b then Some (Err ErrBufferClosed) else None, packet, b')
      | q # _ \<Rightarrow> (Some (if length q \<le> length packet then Ok (length q) else Err ErrBufferShort),
          take (length packet) q @ drop (length q) packet, b')) \<and>
      holds_packets b' (tl ps))"
  using buffer_write_holds [OF assms, of p] buffer_read_holds [OF assms, of packet] by blast

theorem buffer_refines_queue_witness:
  "\<exists>b. buffer_write [1, 2, 3] (buffer_new 0 0) = (Ok 3, b) \<and> holds_packets b [[1, 2, 3]]"
  using buffer_refines_queue [OF holds_packets_new [of 0 0], of "[1, 2, 3]" "[]"]
  by (auto simp: accepts_packet_def buffer_new_def frame_def buf_bound_def MAX_SIZE_def)

text \<open>
  Packets come out in the order they went in: in any run of writes and reads on a new buffer, whatever its
  limits, the packets read are the first of the packets accepted, in order and unchanged, and the buffer holds
  the others.
\<close>

theorem buffer_fifo:
  "\<exists>acc got b qs. fifo_run buffer_put buffer_get os (buffer_new lc ls) = (acc, got, b) \<and> acc = got @ qs \<and> holds_packets b qs"
proof (cases "fifo_run buffer_put buffer_get os (buffer_new lc ls)")
  case (fields acc got b)
  with bq.run_in_order [OF holds_packets_new fields] show ?thesis by auto
qed

text \<open>
  As for streams, closing is not seen by a reader that found the buffer empty and open and has not yet begun to
  wait: the notification of \<^verbatim>\<open>close\<close> reaches waiting tasks only.
\<close>

lemma buffer_close_wakeup_lost:
  "\<exists>b. (buffer_step False)\<^sup>*\<^sup>* (buffer_new 0 0, p, BR_Turn) (b, p, BR_Waiting) \<and> bf_closed b \<and>
     buffer_read_step (b, p, BR_Waiting) = None"
proof -
  let ?b0 = "buffer_new 0 0" and ?b1 = "(buffer_new 0 0)\<lparr>bf_subs := True\<rparr>"
  let ?b2 = "buffer_close ?b1"
  have 1: "buffer_step False (?b0, p, BR_Turn) (?b1, p, BR_Await)"
    by (intro bs_reader) (simp add: buffer_read_def buffer_new_def Let_def)
  have 2: "buffer_step False (?b1, p, BR_Await) (?b2, p, BR_Await)" by (rule bs_close)
  have 3: "buffer_step False (?b2, p, BR_Await) (?b2\<lparr>bf_notify := N_Waiting\<rparr>, p, BR_Waiting)"
    by (intro bs_reader) (simp add: buffer_close_def buffer_new_def)
  have "(buffer_step False)\<^sup>*\<^sup>* (?b0, p, BR_Turn) (?b2\<lparr>bf_notify := N_Waiting\<rparr>, p, BR_Waiting)"
    using 1 2 3 by (meson rtranclp.rtrancl_into_rtrancl rtranclp.rtrancl_refl)
  then show ?thesis by (intro exI [of _ "?b2\<lparr>bf_notify := N_Waiting\<rparr>"]) (simp add: buffer_close_def buffer_new_def)
qed

end
