(* ===== verification/Dtls_Wire.thy ===== *)
theory Dtls_Wire
  imports Sctp_Prelude
begin

text \<open>
  The vocabulary of the DTLS codecs: errors, the readers and writers of \<^verbatim>\<open>byteorder\<close> and \<^verbatim>\<open>std::io\<close>, and the
  enumerations with their numbers on the wire (\<^verbatim>\<open>crates/dtls\<close>: \<^verbatim>\<open>error.rs\<close>, \<^verbatim>\<open>content.rs\<close>, \<^verbatim>\<open>alert\<close>,
  \<^verbatim>\<open>handshake/mod.rs\<close>, \<^verbatim>\<open>curve\<close>, \<^verbatim>\<open>signature_hash_algorithm\<close>, \<^verbatim>\<open>cipher_suite\<close>, \<^verbatim>\<open>extension\<close>).
\<close>

section \<open>Errors and readers\<close>

text \<open>The errors; those that wrap an error of another crate, or a message, carry no payload. \<open>ErrIo\<close> is an unexpected end of the input.\<close>

datatype dtls_error = ErrConnClosed | ErrDeadlineExceeded | ErrBufferTooSmall | ErrHandshakeInProgress
  | ErrInvalidContentType | ErrInvalidPacketLength | ErrCertificateVerifyNoCertificate
  | ErrCipherSuiteNoIntersection | ErrClientCertificateNotVerified | ErrClientCertificateRequired
  | ErrClientNoMatchingSrtpProfile | ErrClientRequiredButNoServerEms | ErrCookieMismatch | ErrCookieTooLong
  | ErrIdentityNoPsk | ErrInvalidCertificate | ErrInvalidCipherSpec | ErrInvalidCipherSuite
  | ErrInvalidClientKeyExchange | ErrInvalidExtensionType | ErrInvalidNamedCurve | ErrInvalidPrivateKey
  | ErrNamedCurveAndPrivateKeyMismatch | ErrInvalidSniFormat | ErrNoAvailableCipherSuites
  | ErrNoAvailableSignatureSchemes | ErrNoCertificates | ErrNoSupportedEllipticCurves
  | ErrUnsupportedProtocolVersion | ErrPskAndCertificate | ErrPskAndIdentityMustBeSetForClient
  | ErrRequestedButNoSrtpExtension | ErrServerMustHaveCertificate | ErrServerNoMatchingSrtpProfile
  | ErrServerRequiredButNoClientEms | ErrVerifyDataMismatch | ErrKeySignatureVerifyUnimplemented
  | ErrLengthMismatch | ErrNotEnoughRoomForNonce | ErrNotImplemented | ErrSequenceNumberOverflow
  | ErrApplicationDataEpochZero | ErrUnhandledContextType | ErrEmptyFragment | ErrAlertFatalOrClose | ErrIo
  | ErrUtil | ErrUtf8 | ErrP256 | ErrRcGen | ErrMpscSend | ErrKeyingMaterial | ErrOther

type_synonym 'a dtls_result = "(dtls_error, 'a) outcome"

text \<open>A reader of \<^verbatim>\<open>byteorder\<close> reports the end of the input as an error.\<close>

definition rd :: "(bytes \<Rightarrow> 'a dtls_result) \<Rightarrow> bytes \<Rightarrow> 'a dtls_result" where
  "rd g r = (case g r of Panic \<Rightarrow> Err ErrIo | x \<Rightarrow> x)"

definition read_exact :: "nat \<Rightarrow> bytes \<Rightarrow> (bytes \<times> bytes) dtls_result" where
  "read_exact n r = (if n \<le> length r then Ok (take n r, drop n r) else Err ErrIo)"

fun get_u24 :: "bytes \<Rightarrow> ('e, u32 \<times> bytes) outcome" where
  "get_u24 (a # b # c # r) = Ok (push_bit 16 (ucast a) OR push_bit 8 (ucast b) OR ucast c, r)"
| "get_u24 _ = Panic"

fun get_u48 :: "bytes \<Rightarrow> ('e, u64 \<times> bytes) outcome" where
  "get_u48 (a # b # c # d # e # f # r) =
     Ok (push_bit 40 (ucast a) OR push_bit 32 (ucast b) OR push_bit 24 (ucast c) OR push_bit 16 (ucast d)
         OR push_bit 8 (ucast e) OR ucast f, r)"
| "get_u48 _ = Panic"

text \<open>\<^verbatim>\<open>write_u24\<close> asserts that the value fits.\<close>

definition put_u24 :: "u32 \<Rightarrow> bytes dtls_result" where
  "put_u24 x = (if unat x < 2 ^ 24 then Ok [ucast (drop_bit 16 x), ucast (drop_bit 8 x), ucast x] else Panic)"

text \<open>The last six of the eight big-endian bytes of a sequence number.\<close>

definition put_u48 :: "u64 \<Rightarrow> bytes" where
  "put_u48 x = [ucast (drop_bit 40 x), ucast (drop_bit 32 x), ucast (drop_bit 24 x), ucast (drop_bit 16 x),
     ucast (drop_bit 8 x), ucast x]"

named_theorems dtls_simps \<open>evaluation of the DTLS readers on what the writers wrote\<close>

lemma rd_put [dtls_simps]:
  "rd get_u8 (x # r) = Ok (x, r)" "rd get_u16 (put_u16 y @ r) = Ok (y, r)" "rd get_u32 (put_u32 z @ r) = Ok (z, r)"
  by (simp_all add: rd_def codec_simps)

lemma bit_small: "unat (x :: 'a :: len word) < 2 ^ n \<Longrightarrow> bit x k \<Longrightarrow> k < n"
proof -
  assume u: "unat x < 2 ^ n" and k: "bit x k"
  have "bit (unat x) k" using k by (simp add: bit_unsigned_iff bit_imp_le_length)
  moreover have "take_bit n (unat x) = unat x" using u by (simp add: take_bit_nat_eq_self_iff)
  ultimately show ?thesis by (metis bit_take_bit_iff)
qed

lemma u24_split:
  assumes "unat x < 2 ^ 24"
  shows "push_bit 16 (ucast (ucast (drop_bit 16 x) :: u8)) OR push_bit 8 (ucast (ucast (drop_bit 8 x) :: u8)) OR
    ucast (ucast x :: u8) = (x :: u32)"
proof (rule bit_word_eqI, goal_cases)
  case (1 n)
  consider "n < 8" | "8 \<le> n" "n < 16" | "16 \<le> n" "n < 24" | "24 \<le> n" by fastforce
  then show ?case using bit_small [OF assms, of n] by cases (auto simp: bit_simps)
qed

lemma get_put_u24 [dtls_simps]: "put_u24 x = Ok b \<Longrightarrow> rd get_u24 (b @ r) = Ok (x, r)"
  by (auto simp: put_u24_def rd_def u24_split split: if_splits)

lemma put_u24_ok: "unat x < 2 ^ 24 \<Longrightarrow> \<exists>b. put_u24 x = Ok b \<and> length b = 3"
  by (simp add: put_u24_def)

lemma u48_split:
  assumes "unat x < 2 ^ 48"
  shows "push_bit 40 (ucast (ucast (drop_bit 40 x) :: u8)) OR push_bit 32 (ucast (ucast (drop_bit 32 x) :: u8)) OR
    push_bit 24 (ucast (ucast (drop_bit 24 x) :: u8)) OR push_bit 16 (ucast (ucast (drop_bit 16 x) :: u8)) OR
    push_bit 8 (ucast (ucast (drop_bit 8 x) :: u8)) OR ucast (ucast x :: u8) = (x :: u64)"
proof (rule bit_word_eqI, goal_cases)
  case (1 n)
  consider "n < 8" | "8 \<le> n" "n < 16" | "16 \<le> n" "n < 24" | "24 \<le> n" "n < 32" | "32 \<le> n" "n < 40" |
    "40 \<le> n" "n < 48" | "48 \<le> n" by fastforce
  then show ?case using bit_small [OF assms, of n] by cases (auto simp: bit_simps)
qed

lemma get_put_u48 [dtls_simps]: "unat x < 2 ^ 48 \<Longrightarrow> rd get_u48 (put_u48 x @ r) = Ok (x, r)"
  by (simp add: put_u48_def rd_def u48_split)

lemma length_put_u48 [simp]: "length (put_u48 x) = 6"
  by (simp add: put_u48_def)

lemma read_exact_append [dtls_simps]: "length a = n \<Longrightarrow> read_exact n (a @ r) = Ok (a, r)"
  by (simp add: read_exact_def)

text \<open>A counted loop of readers gives back what a loop of writers wrote.\<close>

lemma get_many_map:
  assumes "\<And>x r. x \<in> set xs \<Longrightarrow> g (p x @ r) = Ok (x, r)" and "n = length xs"
  shows "get_many g n (concat (map p xs) @ r) = Ok (xs, r)"
  using get_many_concat [of xs g p r] assms by simp

section \<open>Enumerations\<close>

text \<open>A C-like enum with its discriminants; the constructor without a number follows the previous one.\<close>

datatype content_type = CT_ChangeCipherSpec | CT_Alert | CT_Handshake | CT_ApplicationData | CT_Invalid

fun content_type_as :: "content_type \<Rightarrow> u8" where
  "content_type_as CT_ChangeCipherSpec = 20"
| "content_type_as CT_Alert = 21"
| "content_type_as CT_Handshake = 22"
| "content_type_as CT_ApplicationData = 23"
| "content_type_as CT_Invalid = 24"

definition content_type_from :: "u8 \<Rightarrow> content_type" where
  "content_type_from v =
     (if v = 20 then CT_ChangeCipherSpec else if v = 21 then CT_Alert else if v = 22 then CT_Handshake
      else if v = 23 then CT_ApplicationData else CT_Invalid)"

datatype alert_level = AL_Warning | AL_Fatal | AL_Invalid

fun alert_level_as :: "alert_level \<Rightarrow> u8" where
  "alert_level_as AL_Warning = 1" | "alert_level_as AL_Fatal = 2" | "alert_level_as AL_Invalid = 3"

definition alert_level_from :: "u8 \<Rightarrow> alert_level" where
  "alert_level_from v = (if v = 1 then AL_Warning else if v = 2 then AL_Fatal else AL_Invalid)"

datatype alert_description = CloseNotify | UnexpectedMessage | BadRecordMac | DecryptionFailed | RecordOverflow
  | DecompressionFailure | HandshakeFailure | NoCertificate | BadCertificate | UnsupportedCertificate
  | CertificateRevoked | CertificateExpired | CertificateUnknown | IllegalParameter | UnknownCa | AccessDenied
  | DecodeError | DecryptError | ExportRestriction | ProtocolVersionAlert | InsufficientSecurity | InternalError
  | UserCanceled | NoRenegotiation | UnsupportedExtension | AD_Invalid

definition alert_descriptions :: "(alert_description \<times> u8) list" where
  "alert_descriptions = [(CloseNotify, 0), (UnexpectedMessage, 10), (BadRecordMac, 20), (DecryptionFailed, 21),
     (RecordOverflow, 22), (DecompressionFailure, 30), (HandshakeFailure, 40), (NoCertificate, 41),
     (BadCertificate, 42), (UnsupportedCertificate, 43), (CertificateRevoked, 44), (CertificateExpired, 45),
     (CertificateUnknown, 46), (IllegalParameter, 47), (UnknownCa, 48), (AccessDenied, 49), (DecodeError, 50),
     (DecryptError, 51), (ExportRestriction, 60), (ProtocolVersionAlert, 70), (InsufficientSecurity, 71),
     (InternalError, 80), (UserCanceled, 90), (NoRenegotiation, 100), (UnsupportedExtension, 110)]"

definition alert_description_as :: "alert_description \<Rightarrow> u8" where
  "alert_description_as d = (case map_of alert_descriptions d of Some v \<Rightarrow> v | None \<Rightarrow> 111)"

definition alert_description_from :: "u8 \<Rightarrow> alert_description" where
  "alert_description_from v =
     (case find (\<lambda>e. snd e = v) alert_descriptions of Some e \<Rightarrow> fst e | None \<Rightarrow> AD_Invalid)"

datatype handshake_type = HT_HelloRequest | HT_ClientHello | HT_ServerHello | HT_HelloVerifyRequest | HT_Certificate
  | HT_ServerKeyExchange | HT_CertificateRequest | HT_ServerHelloDone | HT_CertificateVerify | HT_ClientKeyExchange
  | HT_Finished | HT_Invalid

fun handshake_type_as :: "handshake_type \<Rightarrow> u8" where
  "handshake_type_as HT_HelloRequest = 0" | "handshake_type_as HT_ClientHello = 1"
| "handshake_type_as HT_ServerHello = 2" | "handshake_type_as HT_HelloVerifyRequest = 3"
| "handshake_type_as HT_Certificate = 11" | "handshake_type_as HT_ServerKeyExchange = 12"
| "handshake_type_as HT_CertificateRequest = 13" | "handshake_type_as HT_ServerHelloDone = 14"
| "handshake_type_as HT_CertificateVerify = 15" | "handshake_type_as HT_ClientKeyExchange = 16"
| "handshake_type_as HT_Finished = 20" | "handshake_type_as HT_Invalid = 21"

definition handshake_type_from :: "u8 \<Rightarrow> handshake_type" where
  "handshake_type_from v =
     (if v = 0 then HT_HelloRequest else if v = 1 then HT_ClientHello else if v = 2 then HT_ServerHello
      else if v = 3 then HT_HelloVerifyRequest else if v = 11 then HT_Certificate
      else if v = 12 then HT_ServerKeyExchange else if v = 13 then HT_CertificateRequest
      else if v = 14 then HT_ServerHelloDone else if v = 15 then HT_CertificateVerify
      else if v = 16 then HT_ClientKeyExchange else if v = 20 then HT_Finished else HT_Invalid)"

datatype compression_method_id = CM_Null | CM_Unsupported

fun compression_method_id_as :: "compression_method_id \<Rightarrow> u8" where
  "compression_method_id_as CM_Null = 0" | "compression_method_id_as CM_Unsupported = 1"

definition compression_method_id_from :: "u8 \<Rightarrow> compression_method_id" where
  "compression_method_id_from v = (if v = 0 then CM_Null else CM_Unsupported)"

datatype client_certificate_type = CC_RsaSign | CC_EcdsaSign | CC_Unsupported

fun client_certificate_type_as :: "client_certificate_type \<Rightarrow> u8" where
  "client_certificate_type_as CC_RsaSign = 1" | "client_certificate_type_as CC_EcdsaSign = 64"
| "client_certificate_type_as CC_Unsupported = 65"

definition client_certificate_type_from :: "u8 \<Rightarrow> client_certificate_type" where
  "client_certificate_type_from v = (if v = 1 then CC_RsaSign else if v = 64 then CC_EcdsaSign else CC_Unsupported)"

datatype elliptic_curve_type = EC_NamedCurve | EC_Unsupported

fun elliptic_curve_type_as :: "elliptic_curve_type \<Rightarrow> u8" where
  "elliptic_curve_type_as EC_NamedCurve = 3" | "elliptic_curve_type_as EC_Unsupported = 4"

definition elliptic_curve_type_from :: "u8 \<Rightarrow> elliptic_curve_type" where
  "elliptic_curve_type_from v = (if v = 3 then EC_NamedCurve else EC_Unsupported)"

datatype named_curve = P256 | P384 | X25519 | NC_Unsupported

fun named_curve_as :: "named_curve \<Rightarrow> u16" where
  "named_curve_as P256 = 0x17" | "named_curve_as P384 = 0x18" | "named_curve_as X25519 = 0x1d"
| "named_curve_as NC_Unsupported = 0x1e"

definition named_curve_from :: "u16 \<Rightarrow> named_curve" where
  "named_curve_from v = (if v = 0x17 then P256 else if v = 0x18 then P384 else if v = 0x1d then X25519 else NC_Unsupported)"

datatype hash_algorithm = Md2 | Md5 | Sha1 | Sha224 | Sha256 | Sha384 | Sha512 | HA_Ed25519 | HA_Unsupported

fun hash_algorithm_as :: "hash_algorithm \<Rightarrow> u8" where
  "hash_algorithm_as Md2 = 0" | "hash_algorithm_as Md5 = 1" | "hash_algorithm_as Sha1 = 2"
| "hash_algorithm_as Sha224 = 3" | "hash_algorithm_as Sha256 = 4" | "hash_algorithm_as Sha384 = 5"
| "hash_algorithm_as Sha512 = 6" | "hash_algorithm_as HA_Ed25519 = 8" | "hash_algorithm_as HA_Unsupported = 9"

definition hash_algorithm_from :: "u8 \<Rightarrow> hash_algorithm" where
  "hash_algorithm_from v =
     (if v = 0 then Md2 else if v = 1 then Md5 else if v = 2 then Sha1 else if v = 3 then Sha224
      else if v = 4 then Sha256 else if v = 5 then Sha384 else if v = 6 then Sha512 else if v = 8 then HA_Ed25519
      else HA_Unsupported)"

datatype signature_algorithm = Rsa | Ecdsa | SA_Ed25519 | SA_Unsupported

fun signature_algorithm_as :: "signature_algorithm \<Rightarrow> u8" where
  "signature_algorithm_as Rsa = 1" | "signature_algorithm_as Ecdsa = 3" | "signature_algorithm_as SA_Ed25519 = 7"
| "signature_algorithm_as SA_Unsupported = 8"

definition signature_algorithm_from :: "u8 \<Rightarrow> signature_algorithm" where
  "signature_algorithm_from v =
     (if v = 1 then Rsa else if v = 3 then Ecdsa else if v = 7 then SA_Ed25519 else SA_Unsupported)"

record signature_hash_algorithm =
  sh_hash :: hash_algorithm
  sh_signature :: signature_algorithm

datatype cipher_suite_id = Tls_Ecdhe_Ecdsa_With_Aes_128_Ccm | Tls_Ecdhe_Ecdsa_With_Aes_128_Ccm_8
  | Tls_Ecdhe_Ecdsa_With_Aes_128_Gcm_Sha256 | Tls_Ecdhe_Rsa_With_Aes_128_Gcm_Sha256
  | Tls_Ecdhe_Ecdsa_With_Aes_256_Cbc_Sha | Tls_Ecdhe_Rsa_With_Aes_256_Cbc_Sha
  | Tls_Psk_With_Aes_128_Ccm | Tls_Psk_With_Aes_128_Ccm_8 | Tls_Psk_With_Aes_128_Gcm_Sha256 | CS_Unsupported

fun cipher_suite_id_as :: "cipher_suite_id \<Rightarrow> u16" where
  "cipher_suite_id_as Tls_Ecdhe_Ecdsa_With_Aes_128_Ccm = 0xc0ac"
| "cipher_suite_id_as Tls_Ecdhe_Ecdsa_With_Aes_128_Ccm_8 = 0xc0ae"
| "cipher_suite_id_as Tls_Ecdhe_Ecdsa_With_Aes_128_Gcm_Sha256 = 0xc02b"
| "cipher_suite_id_as Tls_Ecdhe_Rsa_With_Aes_128_Gcm_Sha256 = 0xc02f"
| "cipher_suite_id_as Tls_Ecdhe_Ecdsa_With_Aes_256_Cbc_Sha = 0xc00a"
| "cipher_suite_id_as Tls_Ecdhe_Rsa_With_Aes_256_Cbc_Sha = 0xc014"
| "cipher_suite_id_as Tls_Psk_With_Aes_128_Ccm = 0xc0a4"
| "cipher_suite_id_as Tls_Psk_With_Aes_128_Ccm_8 = 0xc0a8"
| "cipher_suite_id_as Tls_Psk_With_Aes_128_Gcm_Sha256 = 0x00a8"
| "cipher_suite_id_as CS_Unsupported = 0x00a9"

definition cipher_suite_id_from :: "u16 \<Rightarrow> cipher_suite_id" where
  "cipher_suite_id_from v =
     (if v = 0xc0ac then Tls_Ecdhe_Ecdsa_With_Aes_128_Ccm else if v = 0xc0ae then Tls_Ecdhe_Ecdsa_With_Aes_128_Ccm_8
      else if v = 0xc02b then Tls_Ecdhe_Ecdsa_With_Aes_128_Gcm_Sha256
      else if v = 0xc02f then Tls_Ecdhe_Rsa_With_Aes_128_Gcm_Sha256
      else if v = 0xc00a then Tls_Ecdhe_Ecdsa_With_Aes_256_Cbc_Sha
      else if v = 0xc014 then Tls_Ecdhe_Rsa_With_Aes_256_Cbc_Sha
      else if v = 0xc0a4 then Tls_Psk_With_Aes_128_Ccm else if v = 0xc0a8 then Tls_Psk_With_Aes_128_Ccm_8
      else if v = 0x00a8 then Tls_Psk_With_Aes_128_Gcm_Sha256 else CS_Unsupported)"

datatype srtp_protection_profile = Srtp_Aes128_Cm_Hmac_Sha1_80 | Srtp_Aes128_Cm_Hmac_Sha1_32
  | Srtp_Aead_Aes_128_Gcm | Srtp_Aead_Aes_256_Gcm | SP_Unsupported

fun srtp_protection_profile_as :: "srtp_protection_profile \<Rightarrow> u16" where
  "srtp_protection_profile_as Srtp_Aes128_Cm_Hmac_Sha1_80 = 1"
| "srtp_protection_profile_as Srtp_Aes128_Cm_Hmac_Sha1_32 = 2"
| "srtp_protection_profile_as Srtp_Aead_Aes_128_Gcm = 7"
| "srtp_protection_profile_as Srtp_Aead_Aes_256_Gcm = 8"
| "srtp_protection_profile_as SP_Unsupported = 9"

definition srtp_protection_profile_from :: "u16 \<Rightarrow> srtp_protection_profile" where
  "srtp_protection_profile_from v =
     (if v = 1 then Srtp_Aes128_Cm_Hmac_Sha1_80 else if v = 2 then Srtp_Aes128_Cm_Hmac_Sha1_32
      else if v = 7 then Srtp_Aead_Aes_128_Gcm else if v = 8 then Srtp_Aead_Aes_256_Gcm else SP_Unsupported)"

datatype extension_value = EV_ServerName | EV_SupportedEllipticCurves | EV_SupportedPointFormats
  | EV_SupportedSignatureAlgorithms | EV_UseSrtp | EV_UseExtendedMasterSecret | EV_RenegotiationInfo | EV_Unsupported

fun extension_value_as :: "extension_value \<Rightarrow> u16" where
  "extension_value_as EV_ServerName = 0" | "extension_value_as EV_SupportedEllipticCurves = 10"
| "extension_value_as EV_SupportedPointFormats = 11" | "extension_value_as EV_SupportedSignatureAlgorithms = 13"
| "extension_value_as EV_UseSrtp = 14" | "extension_value_as EV_UseExtendedMasterSecret = 23"
| "extension_value_as EV_RenegotiationInfo = 65281" | "extension_value_as EV_Unsupported = 65282"

definition extension_value_from :: "u16 \<Rightarrow> extension_value" where
  "extension_value_from v =
     (if v = 0 then EV_ServerName else if v = 10 then EV_SupportedEllipticCurves
      else if v = 11 then EV_SupportedPointFormats else if v = 13 then EV_SupportedSignatureAlgorithms
      else if v = 14 then EV_UseSrtp else if v = 23 then EV_UseExtendedMasterSecret
      else if v = 65281 then EV_RenegotiationInfo else EV_Unsupported)"

text \<open>Every discriminant reads back as its constructor.\<close>

lemma from_as [dtls_simps]:
  "content_type_from (content_type_as ct) = ct" "alert_level_from (alert_level_as al) = al"
  "alert_description_from (alert_description_as ad) = ad" "handshake_type_from (handshake_type_as ht) = ht"
  "compression_method_id_from (compression_method_id_as cm) = cm"
  "client_certificate_type_from (client_certificate_type_as cc) = cc"
  "elliptic_curve_type_from (elliptic_curve_type_as ec) = ec" "named_curve_from (named_curve_as nc) = nc"
  "hash_algorithm_from (hash_algorithm_as ha) = ha" "signature_algorithm_from (signature_algorithm_as sa) = sa"
  "cipher_suite_id_from (cipher_suite_id_as cs) = cs"
  "srtp_protection_profile_from (srtp_protection_profile_as sp) = sp" "extension_value_from (extension_value_as ev) = ev"
proof -
  show "content_type_from (content_type_as ct) = ct" by (cases ct) (simp_all add: content_type_from_def)
  show "alert_level_from (alert_level_as al) = al" by (cases al) (simp_all add: alert_level_from_def)
  show "alert_description_from (alert_description_as ad) = ad" by (cases ad) (simp_all add: alert_description_from_def alert_description_as_def alert_descriptions_def)
  show "handshake_type_from (handshake_type_as ht) = ht" by (cases ht) (simp_all add: handshake_type_from_def)
  show "compression_method_id_from (compression_method_id_as cm) = cm" by (cases cm) (simp_all add: compression_method_id_from_def)
  show "client_certificate_type_from (client_certificate_type_as cc) = cc" by (cases cc) (simp_all add: client_certificate_type_from_def)
  show "elliptic_curve_type_from (elliptic_curve_type_as ec) = ec" by (cases ec) (simp_all add: elliptic_curve_type_from_def)
  show "named_curve_from (named_curve_as nc) = nc" by (cases nc) (simp_all add: named_curve_from_def)
  show "hash_algorithm_from (hash_algorithm_as ha) = ha" by (cases ha) (simp_all add: hash_algorithm_from_def)
  show "signature_algorithm_from (signature_algorithm_as sa) = sa" by (cases sa) (simp_all add: signature_algorithm_from_def)
  show "cipher_suite_id_from (cipher_suite_id_as cs) = cs" by (cases cs) (simp_all add: cipher_suite_id_from_def)
  show "srtp_protection_profile_from (srtp_protection_profile_as sp) = sp" by (cases sp) (simp_all add: srtp_protection_profile_from_def)
  show "extension_value_from (extension_value_as ev) = ev" by (cases ev) (simp_all add: extension_value_from_def)
qed

end
