(* ===== verification/Util_Utf8.thy ===== *)
theory Util_Utf8
  imports Sctp_Prelude
begin

text \<open>
  Strings are lists of bytes that are valid UTF-8. This theory has the test of the standard library that decides it.
\<close>

text \<open>\<^verbatim>\<open>String::from_utf8\<close> accepts exactly the well-formed sequences of RFC 3629.\<close>

definition utf8_cont :: "u8 \<Rightarrow> bool" where
  "utf8_cont b \<longleftrightarrow> 0x80 \<le> b \<and> b \<le> 0xBF"

definition utf8_three :: "u8 \<Rightarrow> u8 \<Rightarrow> u8 \<Rightarrow> bool" where
  "utf8_three a b c \<longleftrightarrow> utf8_cont c \<and>
     (a = 0xE0 \<and> 0xA0 \<le> b \<and> b \<le> 0xBF \<or> a = 0xED \<and> 0x80 \<le> b \<and> b \<le> 0x9F \<or>
      (0xE1 \<le> a \<and> a \<le> 0xEC \<or> 0xEE \<le> a \<and> a \<le> 0xEF) \<and> utf8_cont b)"

definition utf8_four :: "u8 \<Rightarrow> u8 \<Rightarrow> u8 \<Rightarrow> u8 \<Rightarrow> bool" where
  "utf8_four a b c d \<longleftrightarrow> utf8_cont c \<and> utf8_cont d \<and>
     (a = 0xF0 \<and> 0x90 \<le> b \<and> b \<le> 0xBF \<or> 0xF1 \<le> a \<and> a \<le> 0xF3 \<and> utf8_cont b \<or> a = 0xF4 \<and> 0x80 \<le> b \<and> b \<le> 0x8F)"

fun utf8_ok :: "bytes \<Rightarrow> bool" where
  "utf8_ok [] = True"
| "utf8_ok (a # r) =
     (if a < 0x80 then utf8_ok r
      else case r of
        [] \<Rightarrow> False
      | b # r2 \<Rightarrow>
          if 0xC2 \<le> a \<and> a \<le> 0xDF then utf8_cont b \<and> utf8_ok r2
          else case r2 of
            [] \<Rightarrow> False
          | c # r3 \<Rightarrow>
              if utf8_three a b c then utf8_ok r3
              else case r3 of
                [] \<Rightarrow> False
              | d # r4 \<Rightarrow> utf8_four a b c d \<and> utf8_ok r4)"

end
