(* ===== verification/Dtls_Message.thy ===== *)
theory Dtls_Message
  imports Dtls_Wire Util_Utf8
begin

text \<open>
  The handshake messages of DTLS and their extensions (\<^verbatim>\<open>crates/dtls/handshake\<close>, \<^verbatim>\<open>crates/dtls/extension\<close>): data,
  encoders, decoders and sizes, and the round trip of every message.

  A writer returns the bytes it wrote. A \<^verbatim>\<open>SystemTime\<close> is a number of nanoseconds since the epoch; a \<^verbatim>\<open>String\<close> is
  the list of its bytes, which are valid UTF-8.
\<close>

section \<open>Extensions\<close>

datatype extension = Ext_ServerName bytes | Ext_SupportedEllipticCurves "named_curve list"
  | Ext_SupportedPointFormats "u8 list" | Ext_SupportedSignatureAlgorithms "signature_hash_algorithm list"
  | Ext_UseSrtp "srtp_protection_profile list" | Ext_UseExtendedMasterSecret bool | Ext_RenegotiationInfo u8

fun extension_value_of :: "extension \<Rightarrow> extension_value" where
  "extension_value_of (Ext_ServerName _) = EV_ServerName"
| "extension_value_of (Ext_SupportedEllipticCurves _) = EV_SupportedEllipticCurves"
| "extension_value_of (Ext_SupportedPointFormats _) = EV_SupportedPointFormats"
| "extension_value_of (Ext_SupportedSignatureAlgorithms _) = EV_SupportedSignatureAlgorithms"
| "extension_value_of (Ext_UseSrtp _) = EV_UseSrtp"
| "extension_value_of (Ext_UseExtendedMasterSecret _) = EV_UseExtendedMasterSecret"
| "extension_value_of (Ext_RenegotiationInfo _) = EV_RenegotiationInfo"

fun extension_size :: "extension \<Rightarrow> nat" where
  "extension_size (Ext_ServerName s) = 2 + (2 + 2 + 1 + 2 + length s)"
| "extension_size (Ext_SupportedEllipticCurves cs) = 2 + (2 + 2 + length cs * 2)"
| "extension_size (Ext_SupportedPointFormats ps) = 2 + (2 + 1 + length ps)"
| "extension_size (Ext_SupportedSignatureAlgorithms as) = 2 + (2 + 2 + length as * 2)"
| "extension_size (Ext_UseSrtp ps) = 2 + (2 + 2 + length ps * 2 + 1)"
| "extension_size (Ext_UseExtendedMasterSecret _) = 2 + 2"
| "extension_size (Ext_RenegotiationInfo _) = 2 + 3"

definition put_sig :: "signature_hash_algorithm \<Rightarrow> bytes" where
  "put_sig v = [hash_algorithm_as (sh_hash v), signature_algorithm_as (sh_signature v)]"

definition put_curve :: "named_curve \<Rightarrow> bytes" where "put_curve v = put_u16 (named_curve_as v)"

definition put_profile :: "srtp_protection_profile \<Rightarrow> bytes" where
  "put_profile v = put_u16 (srtp_protection_profile_as v)"

fun extension_body :: "extension \<Rightarrow> bytes" where
  "extension_body (Ext_ServerName s) =
     put_u16 (2 + 1 + 2 + of_nat (length s)) @ put_u16 (1 + 2 + of_nat (length s)) @ [0] @ put_u16 (of_nat (length s)) @ s"
| "extension_body (Ext_SupportedEllipticCurves cs) =
     put_u16 (2 + 2 * of_nat (length cs)) @ put_u16 (2 * of_nat (length cs)) @ concat (map put_curve cs)"
| "extension_body (Ext_SupportedPointFormats ps) =
     put_u16 (1 + of_nat (length ps)) @ [of_nat (length ps)] @ concat (map (\<lambda>v. [v]) ps)"
| "extension_body (Ext_SupportedSignatureAlgorithms as) =
     put_u16 (2 + 2 * of_nat (length as)) @ put_u16 (2 * of_nat (length as)) @ concat (map put_sig as)"
| "extension_body (Ext_UseSrtp ps) =
     put_u16 (2 + 1 + 2 * of_nat (length ps)) @ put_u16 (2 * of_nat (length ps)) @ concat (map put_profile ps) @ [0]"
| "extension_body (Ext_UseExtendedMasterSecret _) = put_u16 0"
| "extension_body (Ext_RenegotiationInfo r) = put_u16 1 @ [r]"

definition extension_marshal :: "extension \<Rightarrow> bytes" where
  "extension_marshal e = put_u16 (extension_value_as (extension_value_of e)) @ extension_body e"

definition get_sig :: "bytes \<Rightarrow> (signature_hash_algorithm \<times> bytes) dtls_result" where
  "get_sig r = obind (rd get_u8 r) (\<lambda>(h, r). obind (rd get_u8 r) (\<lambda>(s, r).
     Ok (\<lparr>sh_hash = hash_algorithm_from h, sh_signature = signature_algorithm_from s\<rparr>, r)))"

definition get_u16_as :: "(u16 \<Rightarrow> 'a) \<Rightarrow> bytes \<Rightarrow> ('a \<times> bytes) dtls_result" where
  "get_u16_as f r = obind (rd get_u16 r) (\<lambda>(v, r). Ok (f v, r))"

definition get_u8_as :: "(u8 \<Rightarrow> 'a) \<Rightarrow> bytes \<Rightarrow> ('a \<times> bytes) dtls_result" where
  "get_u8_as f r = obind (rd get_u8 r) (\<lambda>(v, r). Ok (f v, r))"

fun extension_body_unmarshal :: "extension_value \<Rightarrow> bytes \<Rightarrow> (extension \<times> bytes) dtls_result" where
  "extension_body_unmarshal EV_ServerName r =
     obind (rd get_u16 r) (\<lambda>(_, r). obind (rd get_u16 r) (\<lambda>(_, r). obind (rd get_u8 r) (\<lambda>(name_type, r).
       if name_type \<noteq> 0 then Err ErrInvalidSniFormat
       else obind (rd get_u16 r) (\<lambda>(buf_len, r). obind (read_exact (unat buf_len) r) (\<lambda>(buf, r).
         if utf8_ok buf then Ok (Ext_ServerName buf, r) else Err ErrUtf8)))))"
| "extension_body_unmarshal EV_SupportedEllipticCurves r =
     obind (rd get_u16 r) (\<lambda>(_, r). obind (rd get_u16 r) (\<lambda>(n, r).
       obind (get_many (get_u16_as named_curve_from) (unat n div 2) r) (\<lambda>(cs, r). Ok (Ext_SupportedEllipticCurves cs, r))))"
| "extension_body_unmarshal EV_SupportedPointFormats r =
     obind (rd get_u16 r) (\<lambda>(_, r). obind (rd get_u8 r) (\<lambda>(n, r).
       obind (get_many (rd get_u8) (unat n) r) (\<lambda>(ps, r). Ok (Ext_SupportedPointFormats ps, r))))"
| "extension_body_unmarshal EV_SupportedSignatureAlgorithms r =
     obind (rd get_u16 r) (\<lambda>(_, r). obind (rd get_u16 r) (\<lambda>(n, r).
       obind (get_many get_sig (unat n div 2) r) (\<lambda>(as, r). Ok (Ext_SupportedSignatureAlgorithms as, r))))"
| "extension_body_unmarshal EV_UseSrtp r =
     obind (rd get_u16 r) (\<lambda>(_, r). obind (rd get_u16 r) (\<lambda>(n, r).
       obind (get_many (get_u16_as srtp_protection_profile_from) (unat n div 2) r) (\<lambda>(ps, r).
       obind (rd get_u8 r) (\<lambda>(_, r). Ok (Ext_UseSrtp ps, r)))))"
| "extension_body_unmarshal EV_UseExtendedMasterSecret r =
     obind (rd get_u16 r) (\<lambda>(_, r). Ok (Ext_UseExtendedMasterSecret True, r))"
| "extension_body_unmarshal EV_RenegotiationInfo r =
     obind (rd get_u16 r) (\<lambda>(l, r). if l \<noteq> 1 then Err ErrInvalidPacketLength
       else obind (rd get_u8 r) (\<lambda>(c, r). Ok (Ext_RenegotiationInfo c, r)))"
| "extension_body_unmarshal EV_Unsupported r = Err ErrInvalidExtensionType"

definition extension_unmarshal :: "bytes \<Rightarrow> (extension \<times> bytes) dtls_result" where
  "extension_unmarshal r = obind (rd get_u16 r) (\<lambda>(v, r). extension_body_unmarshal (extension_value_from v) r)"

text \<open>
  The loop over the extensions of a hello message, the same in both. An extension that cannot be decoded is
  skipped by its length; an index past the buffer panics.
\<close>

function extensions_loop :: "bytes \<Rightarrow> nat \<Rightarrow> extension list dtls_result" where
  "extensions_loop buf offset =
     (if offset < length buf then
        if offset + 3 < length buf then
          let extension_len = unat (ucast (buf ! (offset + 2)) * 256 + ucast (buf ! (offset + 3)) :: u16)
          in obind (extensions_loop buf (offset + (4 + extension_len))) (\<lambda>es.
               case extension_unmarshal (drop offset buf) of Ok (e, _) \<Rightarrow> Ok (e # es) | _ \<Rightarrow> Ok es)
        else Panic
      else Ok [])"
  by pat_completeness auto
termination
  by (relation "measure (\<lambda>(buf, offset). length buf - offset)") auto

section \<open>Messages\<close>

record protocol_version =
  pv_major :: u8
  pv_minor :: u8

record handshake_random =
  gmt_unix_time :: int
  random_bytes :: bytes

record client_hello =
  cl_version :: protocol_version
  cl_random :: handshake_random
  cl_cookie :: bytes
  cl_cipher_suites :: "cipher_suite_id list"
  cl_compression_methods :: "compression_method_id list"
  cl_extensions :: "extension list"

record server_hello =
  sv_version :: protocol_version
  sv_random :: handshake_random
  sv_cipher_suite :: cipher_suite_id
  sv_compression_method :: compression_method_id
  sv_extensions :: "extension list"

record server_key_exchange =
  sk_identity_hint :: bytes
  sk_elliptic_curve_type :: elliptic_curve_type
  sk_named_curve :: named_curve
  sk_public_key :: bytes
  sk_algorithm :: signature_hash_algorithm
  sk_signature :: bytes

datatype handshake_message = HM_ClientHello client_hello | HM_ServerHello server_hello
  | HM_HelloVerifyRequest protocol_version bytes | HM_Certificate "bytes list"
  | HM_ServerKeyExchange server_key_exchange
  | HM_CertificateRequest "client_certificate_type list" "signature_hash_algorithm list"
  | HM_ServerHelloDone | HM_CertificateVerify signature_hash_algorithm bytes
  | HM_ClientKeyExchange bytes bytes | HM_Finished bytes

fun handshake_type_of :: "handshake_message \<Rightarrow> handshake_type" where
  "handshake_type_of (HM_ClientHello _) = HT_ClientHello"
| "handshake_type_of (HM_ServerHello _) = HT_ServerHello"
| "handshake_type_of (HM_HelloVerifyRequest _ _) = HT_HelloVerifyRequest"
| "handshake_type_of (HM_Certificate _) = HT_Certificate"
| "handshake_type_of (HM_ServerKeyExchange _) = HT_ServerKeyExchange"
| "handshake_type_of (HM_CertificateRequest _ _) = HT_CertificateRequest"
| "handshake_type_of HM_ServerHelloDone = HT_ServerHelloDone"
| "handshake_type_of (HM_CertificateVerify _ _) = HT_CertificateVerify"
| "handshake_type_of (HM_ClientKeyExchange _ _) = HT_ClientKeyExchange"
| "handshake_type_of (HM_Finished _) = HT_Finished"

definition RANDOM_BYTES_LENGTH :: nat where "RANDOM_BYTES_LENGTH = 28"

definition random_size :: nat where "random_size = 4 + RANDOM_BYTES_LENGTH"

fun message_size :: "handshake_message \<Rightarrow> nat" where
  "message_size (HM_ClientHello c) =
     2 + random_size + 1 + (1 + length (cl_cookie c)) + (2 + 2 * length (cl_cipher_suites c))
     + (1 + length (cl_compression_methods c)) + 2 + sum_list (map extension_size (cl_extensions c))"
| "message_size (HM_ServerHello s) =
     2 + random_size + 1 + 2 + 1 + 2 + sum_list (map extension_size (sv_extensions s))"
| "message_size (HM_HelloVerifyRequest _ cookie) = 1 + 1 + 1 + length cookie"
| "message_size (HM_Certificate cs) = 3 + sum_list (map (\<lambda>c. 3 + length c) cs)"
| "message_size (HM_ServerKeyExchange k) =
     (if sk_identity_hint k \<noteq> [] then 2 + length (sk_identity_hint k)
      else 1 + 2 + 1 + length (sk_public_key k) + 2 + 2 + length (sk_signature k))"
| "message_size (HM_CertificateRequest ts as) = 1 + length ts + 2 + length as * 2 + 2"
| "message_size HM_ServerHelloDone = 0"
| "message_size (HM_CertificateVerify _ s) = 1 + 1 + 2 + length s"
| "message_size (HM_ClientKeyExchange hint key) = (if key \<noteq> [] then 1 + length key else 2 + length hint)"
| "message_size (HM_Finished d) = length d"

section \<open>Encoding\<close>

definition put_version :: "protocol_version \<Rightarrow> bytes" where "put_version v = [pv_major v, pv_minor v]"

definition random_marshal :: "handshake_random \<Rightarrow> bytes" where
  "random_marshal r =
     put_u32 (if gmt_unix_time r \<ge> 0 then of_int (gmt_unix_time r div 10 ^ 9) else 0) @ random_bytes r"

definition put_suite :: "cipher_suite_id \<Rightarrow> bytes" where "put_suite c = put_u16 (cipher_suite_id_as c)"

definition put_extensions :: "extension list \<Rightarrow> bytes" where
  "put_extensions es =
     (let extension_buffer = concat (map extension_marshal es)
      in put_u16 (of_nat (length extension_buffer)) @ extension_buffer)"

definition client_hello_marshal :: "client_hello \<Rightarrow> bytes dtls_result" where
  "client_hello_marshal c =
     (if length (cl_cookie c) > 255 then Err ErrCookieTooLong
      else Ok (put_version (cl_version c) @ random_marshal (cl_random c) @ [0]
        @ [of_nat (length (cl_cookie c))] @ cl_cookie c
        @ put_u16 (2 * of_nat (length (cl_cipher_suites c))) @ concat (map put_suite (cl_cipher_suites c))
        @ [of_nat (length (cl_compression_methods c))]
        @ concat (map (\<lambda>i. [compression_method_id_as i]) (cl_compression_methods c))
        @ put_extensions (cl_extensions c)))"

definition server_hello_marshal :: "server_hello \<Rightarrow> bytes dtls_result" where
  "server_hello_marshal s =
     Ok (put_version (sv_version s) @ random_marshal (sv_random s) @ [0]
       @ put_u16 (cipher_suite_id_as (sv_cipher_suite s))
       @ [compression_method_id_as (sv_compression_method s)]
       @ put_extensions (sv_extensions s))"

definition hello_verify_request_marshal :: "protocol_version \<Rightarrow> bytes \<Rightarrow> bytes dtls_result" where
  "hello_verify_request_marshal v cookie =
     (if length cookie > 255 then Err ErrCookieTooLong else Ok (put_version v @ [of_nat (length cookie)] @ cookie))"

fun put_certificates :: "bytes list \<Rightarrow> bytes dtls_result" where
  "put_certificates [] = Ok []"
| "put_certificates (c # cs) =
     obind (put_u24 (of_nat (length c))) (\<lambda>l. obind (put_certificates cs) (\<lambda>r. Ok (l @ c @ r)))"

definition certificate_marshal :: "bytes list \<Rightarrow> bytes dtls_result" where
  "certificate_marshal cs =
     obind (put_u24 (of_nat (sum_list (map (\<lambda>c. 3 + length c) cs)))) (\<lambda>l.
     obind (put_certificates cs) (\<lambda>r. Ok (l @ r)))"

definition server_key_exchange_marshal :: "server_key_exchange \<Rightarrow> bytes dtls_result" where
  "server_key_exchange_marshal k =
     (if sk_identity_hint k \<noteq> [] then Ok (put_u16 (of_nat (length (sk_identity_hint k))) @ sk_identity_hint k)
      else Ok ([elliptic_curve_type_as (sk_elliptic_curve_type k)] @ put_u16 (named_curve_as (sk_named_curve k))
        @ [of_nat (length (sk_public_key k))] @ sk_public_key k
        @ put_sig (sk_algorithm k) @ put_u16 (of_nat (length (sk_signature k))) @ sk_signature k))"

definition certificate_request_marshal ::
  "client_certificate_type list \<Rightarrow> signature_hash_algorithm list \<Rightarrow> bytes dtls_result" where
  "certificate_request_marshal ts as =
     Ok ([of_nat (length ts)] @ concat (map (\<lambda>t. [client_certificate_type_as t]) ts)
       @ put_u16 (2 * of_nat (length as)) @ concat (map put_sig as) @ [0, 0])"

definition certificate_verify_marshal :: "signature_hash_algorithm \<Rightarrow> bytes \<Rightarrow> bytes dtls_result" where
  "certificate_verify_marshal a s = Ok (put_sig a @ put_u16 (of_nat (length s)) @ s)"

definition client_key_exchange_marshal :: "bytes \<Rightarrow> bytes \<Rightarrow> bytes dtls_result" where
  "client_key_exchange_marshal hint key =
     (if hint \<noteq> [] \<and> key \<noteq> [] \<or> hint = [] \<and> key = [] then Err ErrInvalidClientKeyExchange
      else if key \<noteq> [] then Ok ([of_nat (length key)] @ key)
      else Ok (put_u16 (of_nat (length hint)) @ hint))"

fun message_marshal :: "handshake_message \<Rightarrow> bytes dtls_result" where
  "message_marshal (HM_ClientHello c) = client_hello_marshal c"
| "message_marshal (HM_ServerHello s) = server_hello_marshal s"
| "message_marshal (HM_HelloVerifyRequest v cookie) = hello_verify_request_marshal v cookie"
| "message_marshal (HM_Certificate cs) = certificate_marshal cs"
| "message_marshal (HM_ServerKeyExchange k) = server_key_exchange_marshal k"
| "message_marshal (HM_CertificateRequest ts as) = certificate_request_marshal ts as"
| "message_marshal HM_ServerHelloDone = Ok []"
| "message_marshal (HM_CertificateVerify a s) = certificate_verify_marshal a s"
| "message_marshal (HM_ClientKeyExchange hint key) = client_key_exchange_marshal hint key"
| "message_marshal (HM_Finished d) = Ok d"

section \<open>Decoding\<close>

definition get_version :: "bytes \<Rightarrow> (protocol_version \<times> bytes) dtls_result" where
  "get_version r = obind (rd get_u8 r) (\<lambda>(a, r). obind (rd get_u8 r) (\<lambda>(b, r). Ok (\<lparr>pv_major = a, pv_minor = b\<rparr>, r)))"

definition random_unmarshal :: "bytes \<Rightarrow> (handshake_random \<times> bytes) dtls_result" where
  "random_unmarshal r = obind (rd get_u32 r) (\<lambda>(secs, r). obind (read_exact RANDOM_BYTES_LENGTH r) (\<lambda>(b, r).
     Ok (\<lparr>gmt_unix_time = uint secs * 10 ^ 9, random_bytes = b\<rparr>, r)))"

definition get_extensions :: "bytes \<Rightarrow> extension list dtls_result" where
  "get_extensions r = obind (rd get_u16 r) (\<lambda>(n, r). obind (read_exact (unat n) r) (\<lambda>(buf, _). extensions_loop buf 0))"

definition compression_methods_unmarshal :: "bytes \<Rightarrow> (compression_method_id list \<times> bytes) dtls_result" where
  "compression_methods_unmarshal r = obind (rd get_u8 r) (\<lambda>(n, r).
     obind (get_many (get_u8_as compression_method_id_from) (unat n) r) (\<lambda>(ids, r).
       Ok (filter (\<lambda>i. i \<noteq> CM_Unsupported) ids, r)))"

definition client_hello_unmarshal :: "bytes \<Rightarrow> handshake_message dtls_result" where
  "client_hello_unmarshal r =
     obind (get_version r) (\<lambda>(v, r). obind (random_unmarshal r) (\<lambda>(rnd, r). obind (rd get_u8 r) (\<lambda>(_, r).
     obind (rd get_u8 r) (\<lambda>(cookie_len, r). obind (read_exact (unat cookie_len) r) (\<lambda>(cookie, r).
     obind (rd get_u16 r) (\<lambda>(n, r). obind (get_many (get_u16_as cipher_suite_id_from) (unat n div 2) r) (\<lambda>(cs, r).
     obind (compression_methods_unmarshal r) (\<lambda>(cm, r). obind (get_extensions r) (\<lambda>es.
       Ok (HM_ClientHello \<lparr>cl_version = v, cl_random = rnd, cl_cookie = cookie, cl_cipher_suites = cs,
         cl_compression_methods = cm, cl_extensions = es\<rparr>))))))))))"

definition server_hello_unmarshal :: "bytes \<Rightarrow> handshake_message dtls_result" where
  "server_hello_unmarshal r =
     obind (get_version r) (\<lambda>(v, r). obind (random_unmarshal r) (\<lambda>(rnd, r).
     obind (rd get_u8 r) (\<lambda>(n, r). obind (read_exact (unat n) r) (\<lambda>(_, r).
     obind (get_u16_as cipher_suite_id_from r) (\<lambda>(cs, r).
     obind (get_u8_as compression_method_id_from r) (\<lambda>(cm, r). obind (get_extensions r) (\<lambda>es.
       Ok (HM_ServerHello \<lparr>sv_version = v, sv_random = rnd, sv_cipher_suite = cs, sv_compression_method = cm,
         sv_extensions = es\<rparr>))))))))"

text \<open>The cookie of a HelloVerifyRequest is everything that follows its length.\<close>

definition hello_verify_request_unmarshal :: "bytes \<Rightarrow> handshake_message dtls_result" where
  "hello_verify_request_unmarshal r =
     obind (get_version r) (\<lambda>(v, r). obind (rd get_u8 r) (\<lambda>(n, cookie).
       if length cookie < unat n then Err ErrBufferTooSmall else Ok (HM_HelloVerifyRequest v cookie)))"

function certificates_loop :: "nat \<Rightarrow> nat \<Rightarrow> bytes \<Rightarrow> bytes list dtls_result" where
  "certificates_loop payload_size offset r =
     (if offset < payload_size then
        case rd get_u24 r of
          Ok (n, r) \<Rightarrow>
            (case read_exact (unat n) r of
               Ok (c, r) \<Rightarrow> obind (certificates_loop payload_size (offset + 3 + unat n) r) (\<lambda>cs. Ok (c # cs))
             | Err e \<Rightarrow> Err e
             | Panic \<Rightarrow> Panic)
        | Err e \<Rightarrow> Err e
        | Panic \<Rightarrow> Panic
      else Ok [])"
  by pat_completeness auto
termination
  by (relation "measure (\<lambda>(n, offset, _). n - offset)") auto

definition certificate_unmarshal :: "bytes \<Rightarrow> handshake_message dtls_result" where
  "certificate_unmarshal r =
     obind (rd get_u24 r) (\<lambda>(n, r). obind (certificates_loop (unat n) 0 r) (\<lambda>cs. Ok (HM_Certificate cs)))"

definition be16 :: "u8 \<Rightarrow> u8 \<Rightarrow> nat" where "be16 a b = unat a * 256 + unat b"

definition certificate_request_unmarshal :: "bytes \<Rightarrow> handshake_message dtls_result" where
  "certificate_request_unmarshal r =
     obind (rd get_u8 r) (\<lambda>(n, r). obind (get_many (get_u8_as client_certificate_type_from) (unat n) r) (\<lambda>(ts, r).
     obind (rd get_u16 r) (\<lambda>(m, r). obind (get_many get_sig ((unat m + 1) div 2) r) (\<lambda>(as, r).
       Ok (HM_CertificateRequest ts as)))))"

definition certificate_verify_unmarshal :: "bytes \<Rightarrow> handshake_message dtls_result" where
  "certificate_verify_unmarshal r =
     obind (get_sig r) (\<lambda>(a, r). obind (rd get_u16 r) (\<lambda>(n, r). obind (read_exact (unat n) r) (\<lambda>(s, r).
       Ok (HM_CertificateVerify a s))))"

text \<open>Both key exchange decoders index the first two bytes of the message without a test.\<close>

definition client_key_exchange_unmarshal :: "bytes \<Rightarrow> handshake_message dtls_result" where
  "client_key_exchange_unmarshal data =
     (if length data < 2 then Panic
      else if length data = be16 (data ! 0) (data ! 1) + 2 then Ok (HM_ClientKeyExchange (drop 2 data) [])
      else if length data \<noteq> unat (data ! 0) + 1 then Err ErrBufferTooSmall
      else Ok (HM_ClientKeyExchange [] (drop 1 data)))"

definition server_key_exchange_unmarshal :: "bytes \<Rightarrow> handshake_message dtls_result" where
  "server_key_exchange_unmarshal data =
     (if length data < 2 then Panic
      else if length data = be16 (data ! 0) (data ! 1) + 2 then
        Ok (HM_ServerKeyExchange \<lparr>sk_identity_hint = drop 2 data, sk_elliptic_curve_type = EC_Unsupported,
          sk_named_curve = NC_Unsupported, sk_public_key = [],
          sk_algorithm = \<lparr>sh_hash = HA_Unsupported, sh_signature = SA_Unsupported\<rparr>, sk_signature = []\<rparr>)
      else if length data < 4 then Err ErrBufferTooSmall
      else
        let offset = 4 + unat (data ! 3) in
        if length data \<le> offset then Err ErrBufferTooSmall
        else if length data \<le> offset + 1 then Err ErrBufferTooSmall
        else if length data < offset + 2 + 2 then Err ErrBufferTooSmall
        else
          let n = be16 (data ! (offset + 2)) (data ! (offset + 3)) in
          if length data < offset + 4 + n then Err ErrBufferTooSmall
          else Ok (HM_ServerKeyExchange \<lparr>sk_identity_hint = [],
            sk_elliptic_curve_type = elliptic_curve_type_from (data ! 0),
            sk_named_curve = named_curve_from (of_nat (be16 (data ! 1) (data ! 2))),
            sk_public_key = take (unat (data ! 3)) (drop 4 data),
            sk_algorithm = \<lparr>sh_hash = hash_algorithm_from (data ! offset),
              sh_signature = signature_algorithm_from (data ! (offset + 1))\<rparr>,
            sk_signature = take n (drop (offset + 4) data)\<rparr>))"

fun message_unmarshal :: "handshake_type \<Rightarrow> bytes \<Rightarrow> handshake_message dtls_result" where
  "message_unmarshal HT_ClientHello r = client_hello_unmarshal r"
| "message_unmarshal HT_ServerHello r = server_hello_unmarshal r"
| "message_unmarshal HT_HelloVerifyRequest r = hello_verify_request_unmarshal r"
| "message_unmarshal HT_Certificate r = certificate_unmarshal r"
| "message_unmarshal HT_ServerKeyExchange r = server_key_exchange_unmarshal r"
| "message_unmarshal HT_CertificateRequest r = certificate_request_unmarshal r"
| "message_unmarshal HT_ServerHelloDone r = Ok HM_ServerHelloDone"
| "message_unmarshal HT_CertificateVerify r = certificate_verify_unmarshal r"
| "message_unmarshal HT_ClientKeyExchange r = client_key_exchange_unmarshal r"
| "message_unmarshal HT_Finished r = Ok (HM_Finished r)"
| "message_unmarshal HT_HelloRequest r = Err ErrNotImplemented"
| "message_unmarshal HT_Invalid r = Err ErrNotImplemented"

declare extensions_loop.simps [simp del] certificates_loop.simps [simp del]

section \<open>Well-formed messages\<close>

text \<open>What fits the length fields of the wire format and is not lost by the encoding.\<close>

fun wf_extension :: "extension \<Rightarrow> bool" where
  "wf_extension (Ext_ServerName s) \<longleftrightarrow> utf8_ok s \<and> length s + 5 < 65536"
| "wf_extension (Ext_SupportedEllipticCurves cs) \<longleftrightarrow> 2 * length cs + 2 < 65536"
| "wf_extension (Ext_SupportedPointFormats ps) \<longleftrightarrow> length ps < 256"
| "wf_extension (Ext_SupportedSignatureAlgorithms as) \<longleftrightarrow> 2 * length as + 2 < 65536"
| "wf_extension (Ext_UseSrtp ps) \<longleftrightarrow> 2 * length ps + 3 < 65536"
| "wf_extension (Ext_UseExtendedMasterSecret supported) \<longleftrightarrow> supported"
| "wf_extension (Ext_RenegotiationInfo _) \<longleftrightarrow> True"

definition wf_extensions :: "extension list \<Rightarrow> bool" where
  "wf_extensions es \<longleftrightarrow> (\<forall>e \<in> set es. wf_extension e) \<and> sum_list (map extension_size es) < 65536"

definition wf_random :: "handshake_random \<Rightarrow> bool" where
  "wf_random r \<longleftrightarrow> length (random_bytes r) = RANDOM_BYTES_LENGTH \<and> 0 \<le> gmt_unix_time r \<and>
     gmt_unix_time r mod 10 ^ 9 = 0 \<and> gmt_unix_time r div 10 ^ 9 < 2 ^ 32"

fun wf_message :: "handshake_message \<Rightarrow> bool" where
  "wf_message (HM_ClientHello c) \<longleftrightarrow> wf_random (cl_random c) \<and> length (cl_cookie c) \<le> 255 \<and>
     2 * length (cl_cipher_suites c) < 65536 \<and> length (cl_compression_methods c) < 256 \<and>
     set (cl_compression_methods c) \<subseteq> {CM_Null} \<and> wf_extensions (cl_extensions c)"
| "wf_message (HM_ServerHello s) \<longleftrightarrow> wf_random (sv_random s) \<and> wf_extensions (sv_extensions s)"
| "wf_message (HM_HelloVerifyRequest _ cookie) \<longleftrightarrow> length cookie \<le> 255"
| "wf_message (HM_Certificate cs) \<longleftrightarrow> sum_list (map (\<lambda>c. 3 + length c) cs) < 2 ^ 24"
| "wf_message (HM_ServerKeyExchange k) \<longleftrightarrow>
     (if sk_identity_hint k \<noteq> [] then length (sk_identity_hint k) < 65536 \<and> sk_elliptic_curve_type k = EC_Unsupported \<and>
        sk_named_curve k = NC_Unsupported \<and> sk_public_key k = [] \<and>
        sk_algorithm k = \<lparr>sh_hash = HA_Unsupported, sh_signature = SA_Unsupported\<rparr> \<and> sk_signature k = []
      else sk_elliptic_curve_type k = EC_NamedCurve \<and> length (sk_public_key k) < 256 \<and> length (sk_signature k) < 65536 \<and>
        length (sk_public_key k) + length (sk_signature k) \<noteq> 762)"
| "wf_message (HM_CertificateRequest ts as) \<longleftrightarrow> length ts < 256 \<and> 2 * length as < 65536"
| "wf_message HM_ServerHelloDone \<longleftrightarrow> True"
| "wf_message (HM_CertificateVerify _ s) \<longleftrightarrow> length s < 65536"
| "wf_message (HM_ClientKeyExchange hint key) \<longleftrightarrow>
     hint = [] \<and> key \<noteq> [] \<and> length key < 256 \<or> key = [] \<and> hint \<noteq> [] \<and> length hint < 65536"
| "wf_message (HM_Finished _) \<longleftrightarrow> True"

section \<open>Round trips\<close>

lemma unat_len16 [simp]: "n < 65536 \<Longrightarrow> unat (of_nat n :: u16) = n"
  by (simp add: unat_of_nat)

lemma unat_len8 [simp]: "n < 256 \<Longrightarrow> unat (of_nat n :: u8) = n"
  by (simp add: unat_of_nat)

lemma unat_twice: "2 * n < 65536 \<Longrightarrow> unat (2 * of_nat n :: u16) = 2 * n"
  using unat_len16 [of "2 * n"] by simp

lemma get_elements [dtls_simps]:
  "n = length as \<Longrightarrow> get_many get_sig n (concat (map put_sig as) @ r) = Ok (as, r)"
  "n = length cs \<Longrightarrow> get_many (get_u16_as named_curve_from) n (concat (map put_curve cs) @ r) = Ok (cs, r)"
  "n = length ps \<Longrightarrow> get_many (get_u16_as srtp_protection_profile_from) n (concat (map put_profile ps) @ r) = Ok (ps, r)"
  "n = length ss \<Longrightarrow> get_many (get_u16_as cipher_suite_id_from) n (concat (map put_suite ss) @ r) = Ok (ss, r)"
  "n = length ms \<Longrightarrow> get_many (get_u8_as compression_method_id_from) n (map compression_method_id_as ms @ r) = Ok (ms, r)"
  "n = length ts \<Longrightarrow> get_many (get_u8_as client_certificate_type_from) n (map client_certificate_type_as ts @ r) = Ok (ts, r)"
  "n = length bs \<Longrightarrow> get_many (rd get_u8) n (bs @ r) = Ok (bs, r)"
proof -
  show "n = length as \<Longrightarrow> get_many get_sig n (concat (map put_sig as) @ r) = Ok (as, r)"
    by (intro get_many_map) (simp_all add: get_sig_def put_sig_def dtls_simps)
  show "n = length cs \<Longrightarrow> get_many (get_u16_as named_curve_from) n (concat (map put_curve cs) @ r) = Ok (cs, r)"
    by (intro get_many_map) (simp_all add: get_u16_as_def put_curve_def dtls_simps)
  show "n = length ps \<Longrightarrow> get_many (get_u16_as srtp_protection_profile_from) n (concat (map put_profile ps) @ r) = Ok (ps, r)"
    by (intro get_many_map) (simp_all add: get_u16_as_def put_profile_def dtls_simps)
  show "n = length ss \<Longrightarrow> get_many (get_u16_as cipher_suite_id_from) n (concat (map put_suite ss) @ r) = Ok (ss, r)"
    by (intro get_many_map) (simp_all add: get_u16_as_def put_suite_def dtls_simps)
  have m: "concat (map (\<lambda>x. [f x]) xs) = map f xs" for f :: "'b \<Rightarrow> u8" and xs by (induction xs) simp_all
  show "n = length ms \<Longrightarrow> get_many (get_u8_as compression_method_id_from) n (map compression_method_id_as ms @ r) = Ok (ms, r)"
    using get_many_map [of ms "get_u8_as compression_method_id_from" "\<lambda>i. [compression_method_id_as i]" n r]
    by (simp add: m get_u8_as_def dtls_simps)
  show "n = length ts \<Longrightarrow> get_many (get_u8_as client_certificate_type_from) n (map client_certificate_type_as ts @ r) = Ok (ts, r)"
    using get_many_map [of ts "get_u8_as client_certificate_type_from" "\<lambda>i. [client_certificate_type_as i]" n r]
    by (simp add: m get_u8_as_def dtls_simps)
  show "n = length bs \<Longrightarrow> get_many (rd get_u8) n (bs @ r) = Ok (bs, r)"
    using get_many_map [of bs "rd get_u8" "\<lambda>i. [i]" n r] by (simp add: dtls_simps)
qed

lemma concat_singletons [simp]: "concat (map (\<lambda>x. [f x]) xs) = map f xs"
  by (induction xs) simp_all

lemma length_elements [simp]:
  "length (concat (map put_sig as)) = 2 * length as" "length (concat (map put_curve cs)) = 2 * length cs"
  "length (concat (map put_profile ps)) = 2 * length ps" "length (concat (map put_suite ss)) = 2 * length ss"
proof -
  show "length (concat (map put_sig as)) = 2 * length as" by (induction as) (simp_all add: put_sig_def)
  show "length (concat (map put_curve cs)) = 2 * length cs" by (induction cs) (simp_all add: put_curve_def)
  show "length (concat (map put_profile ps)) = 2 * length ps" by (induction ps) (simp_all add: put_profile_def)
  show "length (concat (map put_suite ss)) = 2 * length ss" by (induction ss) (simp_all add: put_suite_def)
qed

lemma length_extension_marshal: "length (extension_marshal e) = extension_size e"
  by (cases e) (simp_all add: extension_marshal_def)

lemma extension_roundtrip: "wf_extension e \<Longrightarrow> extension_unmarshal (extension_marshal e @ r) = Ok (e, r)"
proof -
  assume "wf_extension e"
  then have "extension_body_unmarshal (extension_value_of e) (extension_body e @ r) = Ok (e, r)"
    by (cases e) (simp_all add: dtls_simps unat_twice)
  then show ?thesis by (simp add: extension_unmarshal_def extension_marshal_def dtls_simps)
qed

text \<open>The length field of an extension covers the rest of it.\<close>

lemma extension_length_field:
  "wf_extension e \<Longrightarrow> \<exists>rest. extension_marshal e =
     put_u16 (extension_value_as (extension_value_of e)) @ put_u16 (of_nat (extension_size e - 4)) @ rest \<and> 4 \<le> extension_size e \<and>
     extension_size e - 4 < 65536"
  by (cases e) (simp_all add: extension_marshal_def mult.commute)

lemma put_u16_nth: "put_u16 x ! 0 = ucast (drop_bit 8 x)" "put_u16 x ! Suc 0 = ucast x"
  by (simp_all add: put_u16_def)

lemma u16_of_bytes: "ucast (ucast (drop_bit 8 x) :: u8) * 256 + ucast (ucast x :: u8) = (x :: u16)"
proof -
  have "ucast (ucast (drop_bit 8 x) :: u8) * 256 = push_bit 8 (ucast (ucast (drop_bit 8 x) :: u8) :: u16)"
    by (simp add: push_bit_eq_mult mult.commute)
  moreover have "push_bit 8 (ucast (ucast (drop_bit 8 x) :: u8)) + ucast (ucast x :: u8) =
      push_bit 8 (ucast (ucast (drop_bit 8 x) :: u8)) OR (ucast (ucast x :: u8) :: u16)"
    by (rule disjunctive_add) (auto simp: bit_simps)
  ultimately show ?thesis by (simp add: u16_split)
qed

lemma extensions_loop_ok:
  "\<forall>e \<in> set es. wf_extension e \<Longrightarrow> extensions_loop (pre @ concat (map extension_marshal es)) (length pre) = Ok es"
proof (induction es arbitrary: pre)
  case (Cons e es)
  let ?buf = "pre @ concat (map extension_marshal (e # es))"
  have e: "wf_extension e" using Cons.prems by simp
  obtain rest where r: "extension_marshal e =
      put_u16 (extension_value_as (extension_value_of e)) @ put_u16 (of_nat (extension_size e - 4)) @ rest"
    "4 \<le> extension_size e" "extension_size e - 4 < 65536" using extension_length_field [OF e] by blast
  have len: "length pre + 3 < length ?buf" using r(2) length_extension_marshal [of e] by simp
  have "?buf ! (length pre + 2) = ucast (drop_bit 8 (of_nat (extension_size e - 4) :: u16))"
    "?buf ! (length pre + 3) = ucast (of_nat (extension_size e - 4) :: u16)"
    by (simp_all add: r(1) nth_append put_u16_nth)
  then have n: "unat (ucast (?buf ! (length pre + 2)) * 256 + ucast (?buf ! (length pre + 3)) :: u16) = extension_size e - 4"
    using r(3) by (simp only: u16_of_bytes unat_len16)
  have tail: "extensions_loop ?buf (length pre + (4 + (extension_size e - 4))) = Ok es"
    using Cons.IH [of "pre @ extension_marshal e"] Cons.prems r(2) length_extension_marshal [of e] by simp
  have "extension_unmarshal (drop (length pre) ?buf) = Ok (e, concat (map extension_marshal es))"
    using extension_roundtrip [OF e] by simp
  moreover have "length pre < length ?buf" using len by linarith
  ultimately show ?case
    using len by (subst extensions_loop.simps) (simp only: n tail Let_def if_True obind.simps outcome.case prod.case)
qed (simp add: extensions_loop.simps)

lemma extensions_roundtrip: "wf_extensions es \<Longrightarrow> get_extensions (put_extensions es) = Ok es"
proof -
  assume w: "wf_extensions es"
  have "length (concat (map extension_marshal es)) = sum_list (map extension_size es)"
    by (induction es) (simp_all add: length_extension_marshal)
  then show ?thesis using w extensions_loop_ok [of es "[]"]
    by (simp add: get_extensions_def put_extensions_def wf_extensions_def dtls_simps read_exact_def Let_def)
qed

lemma random_roundtrip: "wf_random r \<Longrightarrow> random_unmarshal (random_marshal r @ rest) = Ok (r, rest)"
proof -
  assume w: "wf_random r"
  define s where "s = gmt_unix_time r div 10 ^ 9"
  have s: "0 \<le> s" "s < 2 ^ 32" "s * 10 ^ 9 = gmt_unix_time r" using w by (auto simp: wf_random_def s_def)
  have "uint (of_int s :: u32) = s" using s(1,2) by (simp add: take_bit_int_eq_self unsigned_of_int)
  then show ?thesis using w s(3)
    by (simp add: random_unmarshal_def random_marshal_def wf_random_def dtls_simps s_def)
qed

lemma version_roundtrip [dtls_simps]: "get_version (put_version v @ r) = Ok (v, r)"
  by (simp add: get_version_def put_version_def dtls_simps)

lemma compression_roundtrip:
  "length ms < 256 \<Longrightarrow> set ms \<subseteq> {CM_Null} \<Longrightarrow>
   compression_methods_unmarshal (of_nat (length ms) # map compression_method_id_as ms @ r) = Ok (ms, r)"
proof -
  assume m: "length ms < 256" "set ms \<subseteq> {CM_Null}"
  then have "filter (\<lambda>i. i \<noteq> CM_Unsupported) ms = ms" by (intro filter_True) auto
  with m(1) show ?thesis by (simp add: compression_methods_unmarshal_def dtls_simps)
qed

lemma client_hello_roundtrip:
  assumes "wf_message (HM_ClientHello c)"
  shows "\<exists>b. client_hello_marshal c = Ok b \<and> client_hello_unmarshal b = Ok (HM_ClientHello c)"
  using assms random_roundtrip [of "cl_random c"] extensions_roundtrip [of "cl_extensions c"]
  by (simp add: client_hello_marshal_def client_hello_unmarshal_def dtls_simps compression_roundtrip unat_twice)

lemma server_hello_roundtrip:
  assumes "wf_message (HM_ServerHello s)"
  shows "\<exists>b. server_hello_marshal s = Ok b \<and> server_hello_unmarshal b = Ok (HM_ServerHello s)"
  using assms random_roundtrip [of "sv_random s"] extensions_roundtrip [of "sv_extensions s"]
  by (simp add: server_hello_marshal_def server_hello_unmarshal_def get_u16_as_def get_u8_as_def dtls_simps read_exact_def)

lemma certificates_loop_ok:
  "sum_list (map (\<lambda>c. 3 + length c) cs) + k < 2 ^ 24 \<Longrightarrow> \<exists>b. put_certificates cs = Ok b \<and>
     length b = sum_list (map (\<lambda>c. 3 + length c) cs) \<and>
     certificates_loop (k + length b) k (b @ r) = Ok cs"
proof (induction cs arbitrary: k)
  case (Cons c cs)
  have c: "length c < 2 ^ 24" "unat (of_nat (length c) :: u32) = length c" using Cons.prems by (auto simp: unat_of_nat)
  obtain l where l: "put_u24 (of_nat (length c)) = Ok l" "length l = 3" using put_u24_ok [of "of_nat (length c)"] c by auto
  obtain b where b: "put_certificates cs = Ok b" "length b = sum_list (map (\<lambda>c. 3 + length c) cs)"
    "certificates_loop (k + 3 + length c + length b) (k + 3 + length c) (b @ r) = Ok cs"
    using Cons.IH [of "k + 3 + length c"] Cons.prems by (auto simp: algebra_simps)
  have "certificates_loop (k + (3 + length c + length b)) k ((l @ c @ b) @ r) = Ok (c # cs)"
    using b(3) get_put_u24 [OF l(1), of "c @ b @ r"] c(2)
    by (subst certificates_loop.simps) (simp add: dtls_simps algebra_simps)
  then show ?case using l b by (simp add: add.assoc)
qed (simp add: certificates_loop.simps)

lemma certificate_roundtrip:
  assumes "wf_message (HM_Certificate cs)"
  shows "\<exists>b. certificate_marshal cs = Ok b \<and> length b = message_size (HM_Certificate cs) \<and>
    certificate_unmarshal b = Ok (HM_Certificate cs)"
proof -
  define n where "n = sum_list (map (\<lambda>c. 3 + length c) cs)"
  have n: "n < 2 ^ 24" "unat (of_nat n :: u32) = n" using assms by (auto simp: n_def unat_of_nat)
  obtain l where l: "put_u24 (of_nat n) = Ok l" "length l = 3" using put_u24_ok [of "of_nat n"] n by auto
  obtain b where b: "put_certificates cs = Ok b" "length b = n" "certificates_loop n 0 b = Ok cs"
    using certificates_loop_ok [of cs 0 "[]"] n(1) by (auto simp: n_def)
  show ?thesis using l b n(2) get_put_u24 [OF l(1), of b]
    by (simp add: certificate_marshal_def certificate_unmarshal_def n_def [symmetric])
qed

lemma unat_byte: "unat (a :: u8) < 256"
proof -
  have "unat a < 2 ^ LENGTH(8)" by (rule unsigned_less)
  then show ?thesis by simp
qed

lemma unat_byte_up [simp]: "unat (ucast (a :: u8) :: u16) = unat a"
proof -
  have "unat a < 2 ^ 16" using unat_byte [of a] by simp
  then show ?thesis by (simp add: unsigned_ucast_eq take_bit_nat_eq_self)
qed

lemma be16_put: "be16 (ucast (drop_bit 8 x)) (ucast x) = unat (x :: u16)"
proof -
  have "unat (x :: u16) = unat (ucast (ucast (drop_bit 8 x) :: u8) * 256 + ucast (ucast x :: u8) :: u16)"
    by (simp only: u16_of_bytes)
  also have "\<dots> = unat (ucast (drop_bit 8 x) :: u8) * 256 + unat (ucast x :: u8)"
    using unat_byte [of "ucast (drop_bit 8 x)"] unat_byte [of "ucast x"]
    by (simp add: unat_word_ariths)
  finally show ?thesis by (simp add: be16_def)
qed

lemma client_key_exchange_roundtrip:
  assumes "wf_message (HM_ClientKeyExchange hint key)"
  shows "\<exists>b. client_key_exchange_marshal hint key = Ok b \<and> client_key_exchange_unmarshal b = Ok (HM_ClientKeyExchange hint key)"
proof (cases "key = []")
  case True
  then have w: "hint \<noteq> []" "length hint < 65536" using assms by auto
  then show ?thesis using True
    by (simp add: client_key_exchange_marshal_def client_key_exchange_unmarshal_def put_u16_def be16_put)
next
  case False
  then have w: "hint = []" "length key < 256" using assms by auto
  have "Suc (length key) \<noteq> be16 (of_nat (length key)) (key ! 0) + 2" 
    using False w(2) unat_len8 [of "length key"] by (cases "length key") (auto simp: be16_def simp del: of_nat_Suc)
  then show ?thesis using False w
    by (simp add: client_key_exchange_marshal_def client_key_exchange_unmarshal_def Suc_le_eq)
qed

lemma server_key_exchange_roundtrip:
  assumes "wf_message (HM_ServerKeyExchange k)"
  shows "\<exists>b. server_key_exchange_marshal k = Ok b \<and> server_key_exchange_unmarshal b = Ok (HM_ServerKeyExchange k)"
proof (cases "sk_identity_hint k = []")
  case False
  then show ?thesis using assms
    by (simp add: server_key_exchange_marshal_def server_key_exchange_unmarshal_def put_u16_def be16_put)
next
  case True
  define p s where "p = sk_public_key k" and "s = sk_signature k"
  have w: "sk_elliptic_curve_type k = EC_NamedCurve" "length p < 256" "length s < 65536" "length p + length s \<noteq> 762"
    using assms True by (simp_all add: p_def s_def)
  define nc where "nc = named_curve_as (sk_named_curve k)"
  define b where "b = 3 # ucast (drop_bit 8 nc) # ucast nc # of_nat (length p) # p @ put_sig (sk_algorithm k)
    @ put_u16 (of_nat (length s)) @ s"
  have hi: "unat (ucast (drop_bit 8 nc) :: u8) = 0" by (cases "sk_named_curve k") (simp_all add: nc_def)
  have l: "length b = 8 + length p + length s" by (simp add: b_def put_sig_def)
  have i: "b ! 0 = 3" "b ! 1 = ucast (drop_bit 8 nc)" "b ! 2 = ucast nc" "unat (b ! 3) = length p"
    using w(2) by (simp_all add: b_def numeral_2_eq_2 numeral_3_eq_3)
  have d: "drop 4 b = p @ put_sig (sk_algorithm k) @ put_u16 (of_nat (length s)) @ s" by (simp add: b_def)
  have j: "b ! (4 + length p + m) = (put_sig (sk_algorithm k) @ put_u16 (of_nat (length s)) @ s) ! m" for m
    using nth_drop [of 4 b "length p + m"] l unfolding d by (simp add: add.assoc)
  have js: "b ! (4 + length p) = hash_algorithm_as (sh_hash (sk_algorithm k))"
    "b ! (4 + length p + 1) = signature_algorithm_as (sh_signature (sk_algorithm k))"
    "b ! (4 + length p + 2) = ucast (drop_bit 8 (of_nat (length s) :: u16))"
    "b ! (4 + length p + 3) = ucast (of_nat (length s) :: u16)"
    using j [of 0] j [of 1] j [of 2] j [of 3] by (simp_all add: put_sig_def put_u16_def)
  have dd: "drop (4 + length p + 4) b = s"
    using drop_drop [of "length p + 4" 4 b] unfolding d by (simp add: put_sig_def put_u16_def add.commute)
  have nopsk: "length b \<noteq> be16 (b ! 0) (b ! 1) + 2" using w(4) hi l unfolding i by (simp add: be16_def)
  have curve: "named_curve_from (of_nat (be16 (b ! 1) (b ! 2))) = sk_named_curve k"
    unfolding i be16_put by (simp add: nc_def dtls_simps)
  have n: "be16 (b ! (4 + length p + 2)) (b ! (4 + length p + 3)) = length s" unfolding js be16_put using w(3) by simp
  have "server_key_exchange_unmarshal b = Ok (HM_ServerKeyExchange \<lparr>sk_identity_hint = [],
      sk_elliptic_curve_type = elliptic_curve_type_from (b ! 0), sk_named_curve = sk_named_curve k,
      sk_public_key = take (length p) (drop 4 b),
      sk_algorithm = \<lparr>sh_hash = sh_hash (sk_algorithm k), sh_signature = sh_signature (sk_algorithm k)\<rparr>,
      sk_signature = take (length s) (drop (4 + length p + 4) b)\<rparr>)"
    unfolding server_key_exchange_unmarshal_def Let_def using nopsk
    by (simp add: i(4) n [simplified] curve [simplified] l js(1,2) [simplified] dtls_simps)
  also have "\<dots> = Ok (HM_ServerKeyExchange k)"
    unfolding d dd i(1) using True w(1) by (simp add: elliptic_curve_type_from_def p_def s_def)
  finally show ?thesis using True w(1)
    by (simp add: server_key_exchange_marshal_def b_def p_def s_def nc_def put_u16_def)
qed

lemma length_put_extensions: "length (put_extensions es) = 2 + sum_list (map extension_size es)"
proof -
  have "length (concat (map extension_marshal es)) = sum_list (map extension_size es)"
    by (induction es) (simp_all add: length_extension_marshal)
  then show ?thesis by (simp add: put_extensions_def Let_def)
qed

lemma length_message_marshal:
  assumes "wf_message m" and "message_marshal m = Ok b"
  shows "length b = message_size m"
proof (cases m)
  case (HM_ClientHello c)
  then show ?thesis using assms
    by (auto simp: client_hello_marshal_def put_version_def random_marshal_def wf_random_def random_size_def
        length_put_extensions)
next
  case (HM_ServerHello s)
  then show ?thesis using assms
    by (auto simp: server_hello_marshal_def put_version_def random_marshal_def wf_random_def random_size_def
        length_put_extensions)
next
  case (HM_Certificate cs)
  then show ?thesis using assms certificate_roundtrip [of cs] by auto
qed (use assms in \<open>auto simp: hello_verify_request_marshal_def put_version_def server_key_exchange_marshal_def put_sig_def
  certificate_request_marshal_def certificate_verify_marshal_def client_key_exchange_marshal_def split: if_splits\<close>)

lemma message_codec:
  assumes "wf_message m"
  shows "\<exists>b. message_marshal m = Ok b \<and> length b = message_size m \<and> message_unmarshal (handshake_type_of m) b = Ok m"
proof -
  have "\<exists>b. message_marshal m = Ok b \<and> message_unmarshal (handshake_type_of m) b = Ok m"
  proof (cases m)
    case (HM_ClientHello c)
    then show ?thesis using assms client_hello_roundtrip by simp
  next
    case (HM_ServerHello s)
    then show ?thesis using assms server_hello_roundtrip by simp
  next
    case (HM_Certificate cs)
    then show ?thesis using assms certificate_roundtrip [of cs] by auto
  next
    case (HM_ServerKeyExchange k)
    then show ?thesis using assms server_key_exchange_roundtrip by simp
  next
    case (HM_ClientKeyExchange hint key)
    then show ?thesis using assms client_key_exchange_roundtrip by simp
  next
    case (HM_HelloVerifyRequest v c)
    then show ?thesis using assms
      by (simp add: hello_verify_request_marshal_def hello_verify_request_unmarshal_def dtls_simps)
  next
    case (HM_CertificateRequest ts as)
    then show ?thesis using assms
      by (simp add: certificate_request_marshal_def certificate_request_unmarshal_def dtls_simps unat_twice)
  next
    case (HM_CertificateVerify a s)
    then show ?thesis using assms
      by (simp add: certificate_verify_marshal_def certificate_verify_unmarshal_def get_sig_def put_sig_def dtls_simps read_exact_def)
  qed simp_all
  then show ?thesis using length_message_marshal [OF assms] by blast
qed

section \<open>Properties\<close>

text \<open>
  C25. Every well-formed handshake message, hello messages with all their extensions included, is encoded into as
  many bytes as its size announces, and decoding these bytes under its type gives the message back.
\<close>

theorem handshake_message_roundtrip:
  assumes "wf_message m"
  shows "\<exists>b. message_marshal m = Ok b \<and> length b = message_size m \<and> message_unmarshal (handshake_type_of m) b = Ok m"
  using assms by (rule message_codec)

theorem handshake_message_roundtrip_witness:
  "\<exists>b. let m = HM_ClientHello \<lparr>cl_version = \<lparr>pv_major = 0xfe, pv_minor = 0xfd\<rparr>,
      cl_random = \<lparr>gmt_unix_time = 1700000000 * 10 ^ 9, random_bytes = replicate 28 7\<rparr>, cl_cookie = [1, 2, 3],
      cl_cipher_suites = [Tls_Ecdhe_Ecdsa_With_Aes_128_Gcm_Sha256], cl_compression_methods = [CM_Null],
      cl_extensions = [Ext_ServerName [104, 105], Ext_SupportedEllipticCurves [P256, X25519], Ext_UseExtendedMasterSecret True]\<rparr>
    in message_marshal m = Ok b \<and> length b = 72 \<and> message_unmarshal HT_ClientHello b = Ok m"
proof -
  let ?m = "HM_ClientHello \<lparr>cl_version = \<lparr>pv_major = 0xfe, pv_minor = 0xfd\<rparr>,
      cl_random = \<lparr>gmt_unix_time = 1700000000 * 10 ^ 9, random_bytes = replicate 28 7\<rparr>, cl_cookie = [1, 2, 3],
      cl_cipher_suites = [Tls_Ecdhe_Ecdsa_With_Aes_128_Gcm_Sha256], cl_compression_methods = [CM_Null],
      cl_extensions = [Ext_ServerName [104, 105], Ext_SupportedEllipticCurves [P256, X25519], Ext_UseExtendedMasterSecret True]\<rparr>"
  have "wf_message ?m" by (simp add: wf_random_def RANDOM_BYTES_LENGTH_def wf_extensions_def)
  from handshake_message_roundtrip [OF this] show ?thesis
    by (auto simp: Let_def random_size_def RANDOM_BYTES_LENGTH_def simp del: message_marshal.simps message_unmarshal.simps)
qed

text \<open>A key exchange message of fewer than two bytes panics the decoder, whoever sent it.\<close>

lemma key_exchange_panics:
  "length data < 2 \<Longrightarrow> message_unmarshal HT_ServerKeyExchange data = Panic \<and> message_unmarshal HT_ClientKeyExchange data = Panic"
  by (simp add: server_key_exchange_unmarshal_def client_key_exchange_unmarshal_def)

end
