(* ===== verification/Dtls_Record.thy ===== *)
theory Dtls_Record
  imports Dtls_Message
begin

text \<open>
  The record layer of DTLS (\<^verbatim>\<open>crates/dtls/record_layer\<close>, \<^verbatim>\<open>content.rs\<close>, \<^verbatim>\<open>alert\<close>, \<^verbatim>\<open>change_cipher_spec\<close>,
  \<^verbatim>\<open>application_data.rs\<close>, \<^verbatim>\<open>handshake/mod.rs\<close>) and how records are packed into datagrams and taken out of them
  (\<^verbatim>\<open>compact_raw_packets\<close> in \<^verbatim>\<open>conn/mod.rs\<close>, \<^verbatim>\<open>unpack_datagram\<close>).
\<close>

section \<open>Handshake messages with their header\<close>

definition HANDSHAKE_HEADER_LENGTH :: nat where "HANDSHAKE_HEADER_LENGTH = 12"

record handshake_header =
  hh_type :: handshake_type
  hh_length :: u32
  hh_message_sequence :: u16
  hh_fragment_offset :: u32
  hh_fragment_length :: u32

definition handshake_header_marshal :: "handshake_header \<Rightarrow> bytes dtls_result" where
  "handshake_header_marshal h =
     obind (put_u24 (hh_length h)) (\<lambda>l. obind (put_u24 (hh_fragment_offset h)) (\<lambda>fo.
     obind (put_u24 (hh_fragment_length h)) (\<lambda>fl.
       Ok ([handshake_type_as (hh_type h)] @ l @ put_u16 (hh_message_sequence h) @ fo @ fl))))"

definition handshake_header_unmarshal :: "bytes \<Rightarrow> (handshake_header \<times> bytes) dtls_result" where
  "handshake_header_unmarshal r =
     obind (rd get_u8 r) (\<lambda>(t, r). obind (rd get_u24 r) (\<lambda>(l, r). obind (rd get_u16 r) (\<lambda>(s, r).
     obind (rd get_u24 r) (\<lambda>(fo, r). obind (rd get_u24 r) (\<lambda>(fl, r).
       Ok (\<lparr>hh_type = handshake_type_from t, hh_length = l, hh_message_sequence = s, hh_fragment_offset = fo,
         hh_fragment_length = fl\<rparr>, r))))))"

record handshake =
  hs_header :: handshake_header
  hs_message :: handshake_message

definition handshake_new :: "handshake_message \<Rightarrow> handshake" where
  "handshake_new m =
     \<lparr>hs_header = \<lparr>hh_type = handshake_type_of m, hh_length = of_nat (message_size m), hh_message_sequence = 0,
        hh_fragment_offset = 0, hh_fragment_length = of_nat (message_size m)\<rparr>, hs_message = m\<rparr>"

definition handshake_size :: "handshake \<Rightarrow> nat" where
  "handshake_size h = (1 + 3 + 2 + 3 + 3) + message_size (hs_message h)"

definition handshake_marshal :: "handshake \<Rightarrow> bytes dtls_result" where
  "handshake_marshal h =
     obind (handshake_header_marshal (hs_header h)) (\<lambda>a. obind (message_marshal (hs_message h)) (\<lambda>b. Ok (a @ b)))"

definition handshake_unmarshal :: "bytes \<Rightarrow> handshake dtls_result" where
  "handshake_unmarshal r =
     obind (handshake_header_unmarshal r) (\<lambda>(h, r). obind (message_unmarshal (hh_type h) r) (\<lambda>m.
       Ok \<lparr>hs_header = h, hs_message = m\<rparr>))"

section \<open>Contents\<close>

record alert =
  al_level :: alert_level
  al_description :: alert_description

datatype content = C_ChangeCipherSpec | C_Alert alert | C_Handshake handshake | C_ApplicationData bytes

fun content_type_of :: "content \<Rightarrow> content_type" where
  "content_type_of C_ChangeCipherSpec = CT_ChangeCipherSpec"
| "content_type_of (C_Alert _) = CT_Alert"
| "content_type_of (C_Handshake _) = CT_Handshake"
| "content_type_of (C_ApplicationData _) = CT_ApplicationData"

fun content_size :: "content \<Rightarrow> nat" where
  "content_size C_ChangeCipherSpec = 1"
| "content_size (C_Alert _) = 2"
| "content_size (C_Handshake h) = handshake_size h"
| "content_size (C_ApplicationData d) = length d"

fun content_marshal :: "content \<Rightarrow> bytes dtls_result" where
  "content_marshal C_ChangeCipherSpec = Ok [1]"
| "content_marshal (C_Alert a) = Ok [alert_level_as (al_level a), alert_description_as (al_description a)]"
| "content_marshal (C_Handshake h) = handshake_marshal h"
| "content_marshal (C_ApplicationData d) = Ok d"

definition alert_unmarshal :: "bytes \<Rightarrow> alert dtls_result" where
  "alert_unmarshal r = obind (rd get_u8 r) (\<lambda>(l, r). obind (rd get_u8 r) (\<lambda>(d, r).
     Ok \<lparr>al_level = alert_level_from l, al_description = alert_description_from d\<rparr>))"

definition change_cipher_spec_unmarshal :: "bytes \<Rightarrow> content dtls_result" where
  "change_cipher_spec_unmarshal r = obind (rd get_u8 r) (\<lambda>(d, _).
     if d \<noteq> 1 then Err ErrInvalidCipherSpec else Ok C_ChangeCipherSpec)"

section \<open>Records\<close>

definition RECORD_LAYER_HEADER_SIZE :: nat where "RECORD_LAYER_HEADER_SIZE = 13"

definition MAX_SEQUENCE_NUMBER :: u64 where "MAX_SEQUENCE_NUMBER = 0xFFFFFFFFFFFF"

definition PROTOCOL_VERSION1_0 :: protocol_version where "PROTOCOL_VERSION1_0 = \<lparr>pv_major = 0xfe, pv_minor = 0xff\<rparr>"

definition PROTOCOL_VERSION1_2 :: protocol_version where "PROTOCOL_VERSION1_2 = \<lparr>pv_major = 0xfe, pv_minor = 0xfd\<rparr>"

record record_layer_header =
  rl_content_type :: content_type
  rl_protocol_version :: protocol_version
  rl_epoch :: u16
  rl_sequence_number :: u64
  rl_content_len :: u16

definition record_layer_header_marshal :: "record_layer_header \<Rightarrow> bytes dtls_result" where
  "record_layer_header_marshal h =
     (if rl_sequence_number h > MAX_SEQUENCE_NUMBER then Err ErrSequenceNumberOverflow
      else Ok ([content_type_as (rl_content_type h)] @ put_version (rl_protocol_version h) @ put_u16 (rl_epoch h)
        @ put_u48 (rl_sequence_number h) @ put_u16 (rl_content_len h)))"

definition record_layer_header_unmarshal :: "bytes \<Rightarrow> (record_layer_header \<times> bytes) dtls_result" where
  "record_layer_header_unmarshal r =
     obind (rd get_u8 r) (\<lambda>(t, r). obind (get_version r) (\<lambda>(v, r). obind (rd get_u16 r) (\<lambda>(e, r).
     obind (rd get_u48 r) (\<lambda>(s, r).
       if v \<noteq> PROTOCOL_VERSION1_0 \<and> v \<noteq> PROTOCOL_VERSION1_2 then Err ErrUnsupportedProtocolVersion
       else obind (rd get_u16 r) (\<lambda>(n, r).
         Ok (\<lparr>rl_content_type = content_type_from t, rl_protocol_version = v, rl_epoch = e, rl_sequence_number = s,
           rl_content_len = n\<rparr>, r))))))"

record record_layer =
  rl_header :: record_layer_header
  rl_content :: content

definition record_layer_new :: "protocol_version \<Rightarrow> u16 \<Rightarrow> content \<Rightarrow> record_layer" where
  "record_layer_new v e c =
     \<lparr>rl_header = \<lparr>rl_content_type = content_type_of c, rl_protocol_version = v, rl_epoch = e, rl_sequence_number = 0,
        rl_content_len = of_nat (content_size c)\<rparr>, rl_content = c\<rparr>"

definition record_layer_marshal :: "record_layer \<Rightarrow> bytes dtls_result" where
  "record_layer_marshal r =
     obind (record_layer_header_marshal (rl_header r)) (\<lambda>a. obind (content_marshal (rl_content r)) (\<lambda>b. Ok (a @ b)))"

definition record_layer_unmarshal :: "bytes \<Rightarrow> record_layer dtls_result" where
  "record_layer_unmarshal r =
     obind (record_layer_header_unmarshal r) (\<lambda>(h, r).
     obind (case rl_content_type h of
              CT_Alert \<Rightarrow> obind (alert_unmarshal r) (\<lambda>a. Ok (C_Alert a))
            | CT_ApplicationData \<Rightarrow> Ok (C_ApplicationData r)
            | CT_ChangeCipherSpec \<Rightarrow> change_cipher_spec_unmarshal r
            | CT_Handshake \<Rightarrow> obind (handshake_unmarshal r) (\<lambda>x. Ok (C_Handshake x))
            | CT_Invalid \<Rightarrow> Err ErrOther) (\<lambda>c.
       Ok \<lparr>rl_header = h, rl_content = c\<rparr>))"

section \<open>Datagrams\<close>

text \<open>
  \<^verbatim>\<open>unpack_datagram\<close>: the records of a datagram follow each other, each as long as its header says. The offset
  never passes the end, so the test \<^verbatim>\<open>buf.len() != offset\<close> is \<open>offset < length buf\<close>.
\<close>

function unpack_loop :: "bytes \<Rightarrow> nat \<Rightarrow> bytes list dtls_result" where
  "unpack_loop buf offset =
     (if offset < length buf then
        if length buf - offset \<le> RECORD_LAYER_HEADER_SIZE then Err ErrInvalidPacketLength
        else
          let pkt_len = RECORD_LAYER_HEADER_SIZE + be16 (buf ! (offset + RECORD_LAYER_HEADER_SIZE - 2))
                (buf ! (offset + RECORD_LAYER_HEADER_SIZE - 1))
          in if offset + pkt_len > length buf then Err ErrInvalidPacketLength
             else obind (unpack_loop buf (offset + pkt_len)) (\<lambda>out. Ok (take pkt_len (drop offset buf) # out))
      else Ok [])"
  by pat_completeness auto
termination
  by (relation "measure (\<lambda>(buf, offset). length buf - offset)") (auto simp: RECORD_LAYER_HEADER_SIZE_def)

declare unpack_loop.simps [simp del]

definition unpack_datagram :: "bytes \<Rightarrow> bytes list dtls_result" where
  "unpack_datagram buf = unpack_loop buf 0"

fun compact_loop :: "nat \<Rightarrow> bytes list \<Rightarrow> bytes \<Rightarrow> bytes list" where
  "compact_loop mtu [] current = [current]"
| "compact_loop mtu (p # ps) current =
     (if current \<noteq> [] \<and> length current + length p \<ge> mtu then current # compact_loop mtu ps p
      else compact_loop mtu ps (current @ p))"

definition compact_raw_packets :: "bytes list \<Rightarrow> nat \<Rightarrow> bytes list" where
  "compact_raw_packets raw_packets mtu = compact_loop mtu raw_packets []"

section \<open>Round trips\<close>

definition wf_header :: "handshake_header \<Rightarrow> bool" where
  "wf_header h \<longleftrightarrow> unat (hh_length h) < 2 ^ 24 \<and> unat (hh_fragment_offset h) < 2 ^ 24 \<and> unat (hh_fragment_length h) < 2 ^ 24"

lemma handshake_header_roundtrip:
  assumes "wf_header h"
  shows "\<exists>b. handshake_header_marshal h = Ok b \<and> length b = HANDSHAKE_HEADER_LENGTH \<and>
    (\<forall>r. handshake_header_unmarshal (b @ r) = Ok (h, r))"
proof -
  obtain l fo fl where p: "put_u24 (hh_length h) = Ok l" "put_u24 (hh_fragment_offset h) = Ok fo"
    "put_u24 (hh_fragment_length h) = Ok fl" "length l = 3" "length fo = 3" "length fl = 3"
    using assms put_u24_ok [of "hh_length h"] put_u24_ok [of "hh_fragment_offset h"] put_u24_ok [of "hh_fragment_length h"]
    by (auto simp: wf_header_def)
  show ?thesis using p
    by (simp add: handshake_header_marshal_def handshake_header_unmarshal_def HANDSHAKE_HEADER_LENGTH_def dtls_simps)
qed

fun wf_content :: "content \<Rightarrow> bool" where
  "wf_content (C_Handshake h) \<longleftrightarrow> wf_header (hs_header h) \<and> hh_type (hs_header h) = handshake_type_of (hs_message h) \<and>
     wf_message (hs_message h)"
| "wf_content _ \<longleftrightarrow> True"

definition wf_record :: "record_layer \<Rightarrow> bool" where
  "wf_record r \<longleftrightarrow> rl_content_type (rl_header r) = content_type_of (rl_content r) \<and>
     rl_protocol_version (rl_header r) \<in> {PROTOCOL_VERSION1_0, PROTOCOL_VERSION1_2} \<and>
     rl_sequence_number (rl_header r) \<le> MAX_SEQUENCE_NUMBER \<and> wf_content (rl_content r)"

lemma record_header_roundtrip:
  assumes "rl_protocol_version h \<in> {PROTOCOL_VERSION1_0, PROTOCOL_VERSION1_2}" and "rl_sequence_number h \<le> MAX_SEQUENCE_NUMBER"
  shows "\<exists>b. record_layer_header_marshal h = Ok b \<and> length b = RECORD_LAYER_HEADER_SIZE \<and>
    drop 11 b = put_u16 (rl_content_len h) \<and> (\<forall>r. record_layer_header_unmarshal (b @ r) = Ok (h, r))"
proof -
  have "unat (rl_sequence_number h) < 2 ^ 48" using assms(2) by (simp add: MAX_SEQUENCE_NUMBER_def word_le_nat_alt)
  moreover have "\<not> (rl_protocol_version h \<noteq> PROTOCOL_VERSION1_0 \<and> rl_protocol_version h \<noteq> PROTOCOL_VERSION1_2)"
    using assms(1) by auto
  ultimately show ?thesis using assms(2)
    by (auto simp: record_layer_header_marshal_def record_layer_header_unmarshal_def RECORD_LAYER_HEADER_SIZE_def dtls_simps
        put_version_def get_version_def)
qed

lemma handshake_roundtrip:
  assumes "wf_content (C_Handshake h)"
  shows "\<exists>b. handshake_marshal h = Ok b \<and> length b = handshake_size h \<and> handshake_unmarshal b = Ok h"
proof -
  obtain a where a: "handshake_header_marshal (hs_header h) = Ok a" "length a = HANDSHAKE_HEADER_LENGTH"
    "\<And>r. handshake_header_unmarshal (a @ r) = Ok (hs_header h, r)"
    using handshake_header_roundtrip [of "hs_header h"] assms by auto
  obtain b where b: "message_marshal (hs_message h) = Ok b" "length b = message_size (hs_message h)"
    "message_unmarshal (handshake_type_of (hs_message h)) b = Ok (hs_message h)"
    using message_codec [of "hs_message h"] assms by auto
  show ?thesis using a b assms
    by (simp add: handshake_marshal_def handshake_unmarshal_def handshake_size_def HANDSHAKE_HEADER_LENGTH_def)
qed

lemma content_size_marshal:
  assumes "wf_content c"
  shows "\<exists>b. content_marshal c = Ok b \<and> length b = content_size c"
  using assms handshake_roundtrip by (cases c) auto

text \<open>A record on the wire whose header announces the length of its content, which is not empty.\<close>

definition framed_record :: "bytes \<Rightarrow> bool" where
  "framed_record p \<longleftrightarrow> RECORD_LAYER_HEADER_SIZE < length p \<and>
     length p = RECORD_LAYER_HEADER_SIZE + be16 (p ! (RECORD_LAYER_HEADER_SIZE - 2)) (p ! (RECORD_LAYER_HEADER_SIZE - 1))"

lemma unpack_loop_ok:
  "\<forall>p \<in> set ps. framed_record p \<Longrightarrow> unpack_loop (pre @ concat ps) (length pre) = Ok ps"
proof (induction ps arbitrary: pre)
  case (Cons p ps)
  let ?buf = "pre @ concat (p # ps)" and ?n = RECORD_LAYER_HEADER_SIZE
  have p: "?n < length p" "length p = ?n + be16 (p ! (?n - 2)) (p ! (?n - 1))" using Cons.prems by (simp_all add: framed_record_def)
  have i: "?buf ! (length pre + ?n - 2) = p ! (?n - 2)" "?buf ! (length pre + ?n - 1) = p ! (?n - 1)"
    using p(1) by (simp_all add: nth_append RECORD_LAYER_HEADER_SIZE_def)
  have l: "length pre < length ?buf" "\<not> length ?buf - length pre \<le> ?n" "\<not> length pre + length p > length ?buf"
    "take (length p) (drop (length pre) ?buf) = p" using p(1) by (cases p; simp)+
  have tail: "unpack_loop ?buf (length pre + length p) = Ok ps" using Cons.IH [of "pre @ p"] Cons.prems by simp
  show ?case
    by (subst unpack_loop.simps) (simp only: i p(2) [symmetric] l tail Let_def if_True if_False obind.simps)
qed (simp add: unpack_loop.simps)

lemma compact_loop_parts:
  "\<forall>p \<in> set ps \<union> set q. p \<noteq> [] \<Longrightarrow> length (concat q) < mtu \<or> length q \<le> 1 \<Longrightarrow>
   \<exists>parts. compact_loop mtu ps (concat q) = map concat parts \<and> concat parts = q @ ps \<and>
     (\<forall>d \<in> set parts. length (concat d) < mtu \<or> length d \<le> 1)"
proof (induction ps arbitrary: q)
  case Nil
  then show ?case by (intro exI [of _ "[q]"]) simp
next
  case (Cons p ps)
  show ?case
  proof (cases "concat q \<noteq> [] \<and> length (concat q) + length p \<ge> mtu")
    case True
    obtain parts where "compact_loop mtu ps (concat [p]) = map concat parts" "concat parts = [p] @ ps"
      "\<forall>d \<in> set parts. length (concat d) < mtu \<or> length d \<le> 1" using Cons.IH [of "[p]"] Cons.prems(1) by auto
    then show ?thesis using True Cons.prems(2) by (intro exI [of _ "q # parts"]) simp
  next
    case False
    have "q = [] \<or> length (concat (q @ [p])) < mtu" using False Cons.prems(1) by (cases q) auto
    then obtain parts where "compact_loop mtu ps (concat (q @ [p])) = map concat parts" "concat parts = (q @ [p]) @ ps"
      "\<forall>d \<in> set parts. length (concat d) < mtu \<or> length d \<le> 1" using Cons.IH [of "q @ [p]"] Cons.prems(1) by auto
    then show ?thesis using False by (intro exI [of _ parts]) (auto simp del: concat_eq_Nil_conv)
  qed
qed

section \<open>Properties\<close>

text \<open>
  A record of either protocol version with a 48-bit sequence number and a well-formed content of its type is
  encoded, header and content, into 13 bytes and the size of the content, and decoding gives the record back. A
  sequence number of more than 48 bits is refused.
\<close>

theorem record_roundtrip:
  assumes "wf_record r"
  shows "(\<exists>b. record_layer_marshal r = Ok b \<and> length b = RECORD_LAYER_HEADER_SIZE + content_size (rl_content r) \<and>
      record_layer_unmarshal b = Ok r) \<and>
    (\<forall>s > MAX_SEQUENCE_NUMBER. record_layer_marshal (r\<lparr>rl_header := (rl_header r)\<lparr>rl_sequence_number := s\<rparr>\<rparr>)
      = Err ErrSequenceNumberOverflow)"
proof -
  obtain a where a: "record_layer_header_marshal (rl_header r) = Ok a" "length a = RECORD_LAYER_HEADER_SIZE"
    "\<And>x. record_layer_header_unmarshal (a @ x) = Ok (rl_header r, x)"
    using record_header_roundtrip [of "rl_header r"] assms by (auto simp: wf_record_def)
  have t: "rl_content_type (rl_header r) = content_type_of (rl_content r)" "wf_content (rl_content r)"
    using assms by (simp_all add: wf_record_def)
  have "\<exists>b. content_marshal (rl_content r) = Ok b \<and> length b = content_size (rl_content r) \<and>
    record_layer_unmarshal (a @ b) = Ok r"
  proof (cases "rl_content r")
    case (C_Handshake h)
    then show ?thesis using t a(3) handshake_roundtrip [of h] by (auto simp: record_layer_unmarshal_def)
  qed (use t a(3) in \<open>simp_all add: record_layer_unmarshal_def alert_unmarshal_def change_cipher_spec_unmarshal_def dtls_simps\<close>)
  then show ?thesis using a(1,2) by (auto simp: record_layer_marshal_def record_layer_header_marshal_def)
qed

theorem record_roundtrip_witness:
  "let r = record_layer_new PROTOCOL_VERSION1_2 1 (C_Alert \<lparr>al_level = AL_Fatal, al_description = CloseNotify\<rparr>)
   in \<exists>b. record_layer_marshal r = Ok b \<and> length b = 15 \<and> record_layer_unmarshal b = Ok r"
proof -
  have "wf_record (record_layer_new PROTOCOL_VERSION1_2 1 (C_Alert \<lparr>al_level = AL_Fatal, al_description = CloseNotify\<rparr>))"
    by (simp add: wf_record_def record_layer_new_def)
  from record_roundtrip [OF this] show ?thesis
    by (simp add: Let_def record_layer_new_def RECORD_LAYER_HEADER_SIZE_def)
qed

text \<open>
  C26. Records survive the datagrams they travel in: however many records are sent, each datagram built from them
  unpacks into exactly the records put into it, together these are all the records in order, and a datagram with
  more than one record stays below the maximum transmission unit.
\<close>

theorem datagram_roundtrip:
  assumes "\<forall>p \<in> set ps. framed_record p"
  shows "\<exists>parts. compact_raw_packets ps mtu = map concat parts \<and> concat parts = ps \<and>
    (\<forall>q \<in> set parts. unpack_datagram (concat q) = Ok q \<and> (length (concat q) < mtu \<or> length q \<le> 1))"
proof -
  have "\<forall>p \<in> set ps \<union> set []. p \<noteq> []" using assms by (auto simp: framed_record_def)
  from compact_loop_parts [OF this] obtain parts where p: "compact_raw_packets ps mtu = map concat parts" "concat parts = ps"
    "\<forall>d \<in> set parts. length (concat d) < mtu \<or> length d \<le> 1" by (auto simp: compact_raw_packets_def)
  have "unpack_datagram (concat q) = Ok q" if "q \<in> set parts" for q
  proof -
    have "\<forall>x \<in> set q. framed_record x" using that p(2) assms by auto
    then show ?thesis using unpack_loop_ok [of q "[]"] by (simp add: unpack_datagram_def)
  qed
  with p show ?thesis by blast
qed

theorem datagram_roundtrip_witness:
  "\<exists>parts. let p = [21, 0xfe, 0xfd, 0, 0, 0, 0, 0, 0, 0, 0, 0, 2, 1, 0] in
     compact_raw_packets [p, p, p] 40 = map concat parts \<and> concat parts = [p, p, p] \<and>
     (\<forall>q \<in> set parts. unpack_datagram (concat q) = Ok q)"
proof -
  let ?p = "[21, 0xfe, 0xfd, 0, 0, 0, 0, 0, 0, 0, 0, 0, 2, 1, 0] :: bytes"
  have "framed_record ?p" by (simp add: framed_record_def RECORD_LAYER_HEADER_SIZE_def be16_def)
  with datagram_roundtrip [of "[?p, ?p, ?p]" 40] show ?thesis by (simp add: Let_def) blast
qed

end
