(* ===== verification/Dtls_Fragment.thy ===== *)
theory Dtls_Fragment
  imports Dtls_Record
begin

text \<open>
  Fragmentation of handshake messages: the sender's \<^verbatim>\<open>fragment_handshake\<close> and \<^verbatim>\<open>process_handshake_packet\<close>
  (\<^verbatim>\<open>crates/dtls/conn/mod.rs\<close>) and the receiver's \<^verbatim>\<open>FragmentBuffer\<close> (\<^verbatim>\<open>fragment_buffer/mod.rs\<close>), and that together
  they carry every message, whatever the order of its records.

  Encryption is an argument: \<open>enc\<close> is the \<^verbatim>\<open>encrypt\<close> of the cipher suite when the connection has one.
\<close>

section \<open>The sender\<close>

text \<open>\<^verbatim>\<open>for i in (0..num_bytes).step_by(split_len)\<close>; a step of zero panics.\<close>

function split_loop :: "bytes \<Rightarrow> nat \<Rightarrow> nat \<Rightarrow> bytes list" where
  "split_loop bs k i =
     (if 0 < k \<and> i < length bs then
        let j = (if i + k > length bs then length bs else i + k)
        in take (j - i) (drop i bs) # split_loop bs k (i + k)
      else [])"
  by pat_completeness auto
termination
  by (relation "measure (\<lambda>(bs, _, i). length bs - i)") auto

declare split_loop.simps [simp del]

definition split_bytes :: "bytes \<Rightarrow> nat \<Rightarrow> bytes list dtls_result" where
  "split_bytes bs split_len = (if split_len = 0 then Panic else Ok (split_loop bs split_len 0))"

text \<open>The loop over the pieces, with the running offset.\<close>

fun fragment_loop :: "handshake_header \<Rightarrow> nat \<Rightarrow> bytes list \<Rightarrow> bytes list dtls_result" where
  "fragment_loop h offset [] = Ok []"
| "fragment_loop h offset (c # cs) =
     obind (handshake_header_marshal (h\<lparr>hh_fragment_offset := of_nat offset, hh_fragment_length := of_nat (length c)\<rparr>)) (\<lambda>raw.
     obind (fragment_loop h (offset + length c) cs) (\<lambda>rest. Ok ((raw @ c) # rest)))"

definition fragment_handshake :: "nat \<Rightarrow> handshake \<Rightarrow> bytes list dtls_result" where
  "fragment_handshake mtu h =
     obind (message_marshal (hs_message h)) (\<lambda>content.
     obind (split_bytes content mtu) (\<lambda>content_fragments.
       fragment_loop (hs_header h) 0 (if content_fragments = [] then [[]] else content_fragments)))"

text \<open>\<^verbatim>\<open>while lsn.len() <= epoch { lsn.push(0); }\<close>\<close>

definition extend_lsn :: "u16 \<Rightarrow> u64 list \<Rightarrow> u64 list" where
  "extend_lsn epoch lsn = lsn @ replicate (unat epoch + 1 - length lsn) 0"

type_synonym encryption = "(record_layer_header \<Rightarrow> bytes \<Rightarrow> bytes dtls_result) option"

definition encrypt_with :: "encryption \<Rightarrow> bool \<Rightarrow> record_layer_header \<Rightarrow> bytes \<Rightarrow> bytes dtls_result" where
  "encrypt_with enc should_encrypt h raw =
     (if should_encrypt then case enc of Some f \<Rightarrow> f h raw | None \<Rightarrow> Ok raw else Ok raw)"

fun process_fragments :: "encryption \<Rightarrow> bool \<Rightarrow> record_layer_header \<Rightarrow> bytes list \<Rightarrow> u64 list \<Rightarrow> bytes list dtls_result \<times> u64 list"
  where
  "process_fragments enc se rh [] lsn = (Ok [], lsn)"
| "process_fragments enc se rh (f # fs) lsn =
     (let epoch = unat (rl_epoch rh);
          s = lsn ! epoch;
          lsn = lsn[epoch := s + 1]
      in if s > MAX_SEQUENCE_NUMBER then (Err ErrSequenceNumberOverflow, lsn)
         else
           let h = rh\<lparr>rl_content_len := of_nat (length f), rl_sequence_number := s\<rparr> in
           case obind (record_layer_header_marshal h) (\<lambda>raw. encrypt_with enc se h (raw @ f)) of
             Ok p \<Rightarrow>
               (case process_fragments enc se rh fs lsn of
                  (Ok ps, lsn) \<Rightarrow> (Ok (p # ps), lsn)
                | (e, lsn) \<Rightarrow> (e, lsn))
           | Err e \<Rightarrow> (Err e, lsn)
           | Panic \<Rightarrow> (Panic, lsn))"

definition process_handshake_packet ::
  "encryption \<Rightarrow> bool \<Rightarrow> nat \<Rightarrow> record_layer_header \<Rightarrow> handshake \<Rightarrow> u64 list \<Rightarrow> bytes list dtls_result \<times> u64 list" where
  "process_handshake_packet enc se mtu rh h lsn =
     (case fragment_handshake mtu h of
        Ok fs \<Rightarrow> process_fragments enc se rh fs (extend_lsn (rl_epoch rh) lsn)
      | Err e \<Rightarrow> (Err e, lsn)
      | Panic \<Rightarrow> (Panic, lsn))"

text \<open>\<^verbatim>\<open>process_packet\<close>, for the records that are not handshake messages.\<close>

definition process_packet :: "encryption \<Rightarrow> bool \<Rightarrow> record_layer \<Rightarrow> u64 list \<Rightarrow> bytes dtls_result \<times> u64 list" where
  "process_packet enc se r lsn =
     (let epoch = unat (rl_epoch (rl_header r));
          lsn = extend_lsn (rl_epoch (rl_header r)) lsn;
          s = lsn ! epoch;
          lsn = lsn[epoch := s + 1]
      in if s > MAX_SEQUENCE_NUMBER then (Err ErrSequenceNumberOverflow, lsn)
         else
           let r = r\<lparr>rl_header := (rl_header r)\<lparr>rl_sequence_number := s\<rparr>\<rparr>
           in (obind (record_layer_marshal r) (encrypt_with enc se (rl_header r)), lsn))"

section \<open>The receiver\<close>

record fragment =
  fr_record :: record_layer_header
  fr_header :: handshake_header
  fr_data :: bytes

record fragment_buffer =
  fg_cache :: "(u16, fragment list) hash_map"
  fg_current :: u16

definition fragment_buffer_new :: fragment_buffer where
  "fragment_buffer_new = \<lparr>fg_cache = [], fg_current = 0\<rparr>"

text \<open>\<^verbatim>\<open>entry(seq).or_insert_with(Vec::new)\<close> and the push onto it.\<close>

definition add_fragment :: "fragment \<Rightarrow> fragment_buffer \<Rightarrow> fragment_buffer" where
  "add_fragment f b =
     (let s = hh_message_sequence (fr_header f);
          old = (case hm_get (fg_cache b) s of Some fs \<Rightarrow> fs | None \<Rightarrow> [])
      in b\<lparr>fg_cache := hm_insert s (old @ [f]) (fg_cache b)\<rparr>)"

lemma handshake_header_unmarshal_length:
  "handshake_header_unmarshal buf = Ok (h, r) \<Longrightarrow> HANDSHAKE_HEADER_LENGTH \<le> length buf"
proof -
  have u8: "length b = Suc (length r)" if "rd get_u8 b = Ok (x, r)" for b r x
    using that by (cases b) (auto simp: rd_def)
  have u16: "length b = 2 + length r" if "rd get_u16 b = Ok (x, r)" for b r x
    using that by (cases b rule: get_u16.cases) (auto simp: rd_def)
  have u24: "length b = 3 + length r" if "rd get_u24 b = Ok (x, r)" for b r x
    using that by (cases b rule: get_u24.cases) (auto simp: rd_def)
  show "handshake_header_unmarshal buf = Ok (h, r) \<Longrightarrow> ?thesis"
    by (auto simp: handshake_header_unmarshal_def obind_eq_Ok HANDSHAKE_HEADER_LENGTH_def dest!: u8 u16 u24)
qed

function push_loop :: "record_layer_header \<Rightarrow> bytes \<Rightarrow> fragment_buffer \<Rightarrow> bool dtls_result \<times> fragment_buffer" where
  "push_loop rh buf b =
     (if buf \<noteq> [] then
        case handshake_header_unmarshal buf of
          Ok (h, _) \<Rightarrow>
            let end' = HANDSHAKE_HEADER_LENGTH + unat (hh_length h);
                end' = (if end' > length buf then length buf else end');
                data = take (end' - HANDSHAKE_HEADER_LENGTH) (drop HANDSHAKE_HEADER_LENGTH buf)
            in push_loop rh (drop end' buf) (add_fragment \<lparr>fr_record = rh, fr_header = h, fr_data = data\<rparr> b)
        | Err e \<Rightarrow> (Err e, b)
        | Panic \<Rightarrow> (Panic, b)
      else (Ok True, b))"
  by pat_completeness auto
termination
  by (relation "measure (\<lambda>(_, buf, _). length buf)") (auto simp: HANDSHAKE_HEADER_LENGTH_def)

declare push_loop.simps [simp del]

definition fragment_push :: "bytes \<Rightarrow> fragment_buffer \<Rightarrow> bool dtls_result \<times> fragment_buffer" where
  "fragment_push buf b =
     (case record_layer_header_unmarshal buf of
        Ok (rh, _) \<Rightarrow>
          if rl_content_type rh \<noteq> CT_Handshake then (Ok False, b)
          else push_loop rh (drop RECORD_LAYER_HEADER_SIZE buf) b
      | Err e \<Rightarrow> (Err e, b)
      | Panic \<Rightarrow> (Panic, b))"

text \<open>
  \<^verbatim>\<open>append_message\<close>: the first fragment at the offset decides; \<open>Some None\<close> is \<^verbatim>\<open>false\<close>. The recursion need not
  end, and not ending is \<open>None\<close>.
\<close>

partial_function (option) append_message :: "u32 \<Rightarrow> fragment list \<Rightarrow> bytes \<Rightarrow> bytes option option" where
  "append_message target frags raw =
     (case find (\<lambda>f. hh_fragment_offset (fr_header f) = target) frags of
        None \<Rightarrow> Some None
      | Some f \<Rightarrow>
          let fragment_end = hh_fragment_offset (fr_header f) + hh_fragment_length (fr_header f) in
          if fragment_end \<noteq> hh_length (fr_header f)
          then Option.bind (append_message fragment_end frags raw) (\<lambda>r. Some (map_option (\<lambda>raw. fr_data f @ raw) r))
          else Some (Some (fr_data f @ raw)))"

text \<open>A result of \<open>None\<close> is a pop that does not return.\<close>

definition fragment_pop :: "fragment_buffer \<Rightarrow> ((bytes \<times> u16) dtls_result \<times> fragment_buffer) option" where
  "fragment_pop b =
     (case hm_get (fg_cache b) (fg_current b) of
        None \<Rightarrow> Some (Err ErrEmptyFragment, b)
      | Some frags \<Rightarrow>
          Option.bind (append_message 0 frags []) (\<lambda>r.
            case r of
              None \<Rightarrow> Some (Err ErrEmptyFragment, b)
            | Some raw_message \<Rightarrow>
                let first = hd frags;
                    first_header = (fr_header first)\<lparr>hh_fragment_offset := 0, hh_fragment_length := hh_length (fr_header first)\<rparr>
                in case handshake_header_marshal first_header of
                     Ok raw_header \<Rightarrow>
                       Some (Ok (raw_header @ raw_message, rl_epoch (fr_record first)),
                             b\<lparr>fg_cache := hm_remove (fg_current b) (fg_cache b), fg_current := fg_current b + 1\<rparr>)
                   | Err _ \<Rightarrow> Some (Err ErrEmptyFragment, b)
                   | Panic \<Rightarrow> Some (Panic, b)))"

section \<open>The pieces of a message\<close>

text \<open>The offsets at which a content of \<open>n\<close> bytes is cut, and the piece at an offset.\<close>

function offsets :: "nat \<Rightarrow> nat \<Rightarrow> nat \<Rightarrow> nat list" where
  "offsets k i n = (if 0 < k \<and> i < n then i # offsets k (i + k) n else [])"
  by pat_completeness auto
termination
  by (relation "measure (\<lambda>(_, i, n). n - i)") auto

declare offsets.simps [simp del]

definition piece :: "nat \<Rightarrow> bytes \<Rightarrow> nat \<Rightarrow> bytes" where
  "piece k c i = take k (drop i c)"

definition cuts :: "nat \<Rightarrow> bytes \<Rightarrow> nat list" where
  "cuts k c = (if c = [] then [0] else offsets k 0 (length c))"

definition piece_header :: "handshake_header \<Rightarrow> nat \<Rightarrow> bytes \<Rightarrow> nat \<Rightarrow> handshake_header" where
  "piece_header h k c i = h\<lparr>hh_fragment_offset := of_nat i, hh_fragment_length := of_nat (length (piece k c i))\<rparr>"

lemma offsets_range: "j \<in> set (offsets k i n) \<Longrightarrow> i \<le> j \<and> j < n"
  by (induction k i n rule: offsets.induct) (subst (asm) offsets.simps, auto split: if_splits)

lemma distinct_offsets: "distinct (offsets k i n)"
proof (induction k i n rule: offsets.induct)
  case (1 k i n)
  have "i \<notin> set (offsets k (i + k) n)" if "0 < k" using offsets_range [of i k "i + k" n] that by auto
  then show ?case using 1 by (subst offsets.simps) auto
qed

lemma cuts_facts: "distinct (cuts k c)" "j \<in> set (cuts k c) \<Longrightarrow> j \<le> length c"
  by (auto simp: cuts_def distinct_offsets dest: offsets_range split: if_splits)

lemma split_loop_pieces: "0 < k \<Longrightarrow> split_loop c k i = map (piece k c) (offsets k i (length c))"
proof (induction k i "length c" rule: offsets.induct)
  case (1 k i)
  then show ?case by (subst split_loop.simps, subst offsets.simps) (auto simp: piece_def)
qed

lemma fragment_loop_pieces:
  assumes "0 < k" and "wf_header h" and "length c < 2 ^ 24"
  shows "i \<le> length c \<Longrightarrow> \<exists>fs. fragment_loop h i (map (piece k c) (offsets k i (length c))) = Ok fs \<and>
    list_all2 (\<lambda>f j. \<exists>b. handshake_header_marshal (piece_header h k c j) = Ok b \<and> f = b @ piece k c j) fs (offsets k i (length c))"
  using assms(1)
proof (induction k i "length c" rule: offsets.induct)
  case (1 k i)
  show ?case
  proof (cases "i < length c")
    case True
    have len: "length (piece k c i) = min k (length c - i)" by (simp add: piece_def)
    have "wf_header (piece_header h k c i)"
      using assms(2,3) True len by (simp add: wf_header_def piece_header_def unat_of_nat)
    then obtain b where b: "handshake_header_marshal (piece_header h k c i) = Ok b"
      using handshake_header_roundtrip by blast
    have "\<exists>fs. fragment_loop h (i + length (piece k c i)) (map (piece k c) (offsets k (i + k) (length c))) = Ok fs \<and>
      list_all2 (\<lambda>f j. \<exists>b. handshake_header_marshal (piece_header h k c j) = Ok b \<and> f = b @ piece k c j) fs
        (offsets k (i + k) (length c))"
    proof (cases "i + k \<le> length c")
      case le: True
      then have "length (piece k c i) = k" using len by simp
      then show ?thesis using 1(1) True 1(3) le by simp
    next
      case False
      then have "offsets k (i + k) (length c) = []" by (simp add: offsets.simps)
      then show ?thesis by simp
    qed
    then show ?thesis using b True 1(3)
      by (subst (1 2) offsets.simps) (auto simp: piece_header_def)
  qed (simp add: offsets.simps)
qed

lemma fragment_handshake_pieces:
  assumes "0 < k" and "wf_header (hs_header h)" and "message_marshal (hs_message h) = Ok c" and "length c < 2 ^ 24"
  shows "\<exists>fs. fragment_handshake k h = Ok fs \<and>
    list_all2 (\<lambda>f j. \<exists>b. handshake_header_marshal (piece_header (hs_header h) k c j) = Ok b \<and> f = b @ piece k c j) fs (cuts k c)"
proof (cases "c = []")
  case True
  have "wf_header (piece_header (hs_header h) k c 0)" using assms(2) True by (simp add: wf_header_def piece_header_def piece_def)
  then obtain b where "handshake_header_marshal (piece_header (hs_header h) k c 0) = Ok b"
    using handshake_header_roundtrip by blast
  then show ?thesis using assms(1,3) True
    by (simp add: fragment_handshake_def split_bytes_def split_loop.simps cuts_def piece_header_def piece_def)
next
  case False
  then have "offsets k 0 (length c) \<noteq> []" using assms(1) by (simp add: offsets.simps)
  then show ?thesis
    using fragment_loop_pieces [OF assms(1,2,4), of 0] assms(1,3) False
    by (simp add: fragment_handshake_def split_bytes_def split_loop_pieces cuts_def)
qed

section \<open>Records of a message\<close>

lemma process_fragments_records:
  assumes "rl_protocol_version rh \<in> {PROTOCOL_VERSION1_0, PROTOCOL_VERSION1_2}"
  shows "process_fragments enc False rh fs lsn = (Ok ps, lsn') \<Longrightarrow>
    list_all2 (\<lambda>p f. drop RECORD_LAYER_HEADER_SIZE p = f \<and>
      (\<exists>r. record_layer_header_unmarshal p = Ok (r, f) \<and> rl_content_type r = rl_content_type rh \<and> rl_epoch r = rl_epoch rh)) ps fs"
proof (induction fs arbitrary: lsn ps)
  case (Cons f fs)
  let ?s = "lsn ! unat (rl_epoch rh)"
  let ?h = "rh\<lparr>rl_content_len := of_nat (length f), rl_sequence_number := ?s\<rparr>"
  have s: "\<not> ?s > MAX_SEQUENCE_NUMBER" using Cons.prems by (auto simp: Let_def split: if_splits)
  then have "?s \<le> MAX_SEQUENCE_NUMBER" by (simp add: not_less)
  then obtain a where a: "record_layer_header_marshal ?h = Ok a" "length a = RECORD_LAYER_HEADER_SIZE"
    "record_layer_header_unmarshal (a @ f) = Ok (?h, f)"
    using record_header_roundtrip [of ?h] assms by auto
  obtain ps' where "ps = (a @ f) # ps'" "process_fragments enc False rh fs (lsn[unat (rl_epoch rh) := ?s + 1]) = (Ok ps', lsn')"
    using Cons.prems s a(1) by (auto simp: Let_def encrypt_with_def split: prod.splits outcome.splits)
  with Cons.IH a(2,3) show ?case by simp
qed simp

text \<open>The fragment a record carries.\<close>

definition carried :: "bytes \<Rightarrow> fragment" where
  "carried p =
     (case record_layer_header_unmarshal p of
        Ok (r, f) \<Rightarrow> (case handshake_header_unmarshal f of Ok (h, d) \<Rightarrow> \<lparr>fr_record = r, fr_header = h, fr_data = d\<rparr>))"

text \<open>A record that carries the piece of \<open>c\<close> at offset \<open>j\<close> under epoch \<open>e\<close>.\<close>

definition carries :: "handshake_header \<Rightarrow> nat \<Rightarrow> bytes \<Rightarrow> u16 \<Rightarrow> bytes \<Rightarrow> nat \<Rightarrow> bool" where
  "carries h k c e p j \<longleftrightarrow> fr_header (carried p) = piece_header h k c j \<and> fr_data (carried p) = piece k c j \<and>
     rl_epoch (fr_record (carried p)) = e \<and> (\<forall>b. fragment_push p b = (Ok True, add_fragment (carried p) b))"

lemma record_carries:
  assumes "wf_header h" and "unat (hh_length h) = length c" and "j \<le> length c"
    and "handshake_header_marshal (piece_header h k c j) = Ok b"
    and "drop RECORD_LAYER_HEADER_SIZE p = b @ piece k c j"
    and "record_layer_header_unmarshal p = Ok (r, b @ piece k c j)" and "rl_content_type r = CT_Handshake"
  shows "carries h k c (rl_epoch r) p j"
proof -
  have c: "length c < 2 ^ 24" using assms(1,2) by (simp add: wf_header_def)
  have len: "length (piece k c j) \<le> length c" by (simp add: piece_def)
  have "wf_header (piece_header h k c j)"
    using assms(1,3) c len by (simp add: wf_header_def piece_header_def unat_of_nat)
  then have b: "length b = HANDSHAKE_HEADER_LENGTH" "\<And>x. handshake_header_unmarshal (b @ x) = Ok (piece_header h k c j, x)"
    using handshake_header_roundtrip [of "piece_header h k c j"] assms(4) by auto
  have car: "carried p = \<lparr>fr_record = r, fr_header = piece_header h k c j, fr_data = piece k c j\<rparr>"
    using assms(6) b(2) by (simp add: carried_def)
  have hl: "unat (hh_length (piece_header h k c j)) = length c" using assms(2) by (simp add: piece_header_def)
  have "push_loop r (b @ piece k c j) g = (Ok True, add_fragment (carried p) g)" for g
    using b len hl unfolding car
    by (subst push_loop.simps) (auto simp: Let_def HANDSHAKE_HEADER_LENGTH_def push_loop.simps)
  then have "fragment_push p g = (Ok True, add_fragment (carried p) g)" for g
    using assms(5-7) by (simp add: fragment_push_def)
  then show ?thesis by (simp add: carries_def car)
qed

lemma message_records:
  assumes "0 < k" and "wf_header (hs_header h)" and "message_marshal (hs_message h) = Ok c"
    and "unat (hh_length (hs_header h)) = length c"
    and "rl_protocol_version rh \<in> {PROTOCOL_VERSION1_0, PROTOCOL_VERSION1_2}" and "rl_content_type rh = CT_Handshake"
    and "process_handshake_packet enc False k rh h lsn = (Ok raws, lsn')"
  shows "list_all2 (carries (hs_header h) k c (rl_epoch rh)) raws (cuts k c)"
proof -
  have "length c < 2 ^ 24" using assms(2,4) by (simp add: wf_header_def)
  then obtain fs where fs: "fragment_handshake k h = Ok fs" and p: "list_all2 (\<lambda>f j. \<exists>b.
      handshake_header_marshal (piece_header (hs_header h) k c j) = Ok b \<and> f = b @ piece k c j) fs (cuts k c)"
    using fragment_handshake_pieces [OF assms(1-3)] by blast
  have "process_fragments enc False rh fs (extend_lsn (rl_epoch rh) lsn) = (Ok raws, lsn')"
    using assms(7) fs by (simp add: process_handshake_packet_def)
  note r = process_fragments_records [OF assms(5) this]
  show ?thesis unfolding list_all2_conv_all_nth
  proof (intro conjI allI impI)
    show "length raws = length (cuts k c)" using r p by (simp add: list_all2_conv_all_nth)
    fix i assume i: "i < length raws"
    obtain b where b: "handshake_header_marshal (piece_header (hs_header h) k c (cuts k c ! i)) = Ok b"
      "fs ! i = b @ piece k c (cuts k c ! i)" using p r i by (auto simp: list_all2_conv_all_nth)
    obtain x where "drop RECORD_LAYER_HEADER_SIZE (raws ! i) = fs ! i" "record_layer_header_unmarshal (raws ! i) = Ok (x, fs ! i)"
      "rl_content_type x = CT_Handshake" "rl_epoch x = rl_epoch rh"
      using r i assms(6) by (auto simp: list_all2_conv_all_nth)
    moreover have "cuts k c ! i \<le> length c" using cuts_facts(2) [of "cuts k c ! i" k c] p r i by (simp add: list_all2_conv_all_nth)
    ultimately show "carries (hs_header h) k c (rl_epoch rh) (raws ! i) (cuts k c ! i)"
      using record_carries [OF assms(2,4) _ b(1), of "raws ! i" x] b(2) by simp
  qed
qed

section \<open>Reassembly\<close>

text \<open>What the receiver does with the fragments of one message: all of them, or nothing.\<close>

lemma of_nat_u32_eq: "i < 2 ^ 24 \<Longrightarrow> j < 2 ^ 24 \<Longrightarrow> (of_nat i :: u32) = of_nat j \<longleftrightarrow> i = j"
  by (simp add: word_of_nat_eq_iff take_bit_nat_eq_self)

definition piece_of :: "handshake_header \<Rightarrow> nat \<Rightarrow> bytes \<Rightarrow> fragment \<Rightarrow> nat \<Rightarrow> bool" where
  "piece_of h k c f j \<longleftrightarrow> j \<in> set (cuts k c) \<and> fr_header f = piece_header h k c j \<and> fr_data f = piece k c j"

lemma find_piece:
  assumes "\<forall>f \<in> set frs. \<exists>j. piece_of h k c f j" and "length c < 2 ^ 24" and "i \<le> length c"
  shows "find (\<lambda>f. hh_fragment_offset (fr_header f) = of_nat i) frs = None \<longleftrightarrow> \<not> (\<exists>f \<in> set frs. piece_of h k c f i)"
    and "find (\<lambda>f. hh_fragment_offset (fr_header f) = of_nat i) frs = Some f \<Longrightarrow> piece_of h k c f i"
proof -
  have eq: "hh_fragment_offset (fr_header f) = of_nat i \<longleftrightarrow> piece_of h k c f i" if f: "f \<in> set frs" for f
  proof -
    obtain j where j: "piece_of h k c f j" using assms(1) f by blast
    then have "j \<le> length c" using cuts_facts(2) [of j k c] by (simp add: piece_of_def)
    then have "(of_nat j :: u32) = of_nat i \<longleftrightarrow> j = i" using assms(2,3) by (intro of_nat_u32_eq) auto
    moreover have "hh_fragment_offset (fr_header f) = of_nat j" using j by (simp add: piece_of_def piece_header_def)
    moreover have "piece_of h k c f i \<Longrightarrow> hh_fragment_offset (fr_header f) = of_nat i" by (simp add: piece_of_def piece_header_def)
    ultimately show ?thesis using j by auto
  qed
  show "find (\<lambda>f. hh_fragment_offset (fr_header f) = of_nat i) frs = None \<longleftrightarrow> \<not> (\<exists>f \<in> set frs. piece_of h k c f i)"
    using eq by (auto simp: find_None_iff)
  show "find (\<lambda>f. hh_fragment_offset (fr_header f) = of_nat i) frs = Some f \<Longrightarrow> piece_of h k c f i"
    using eq by (auto simp: find_Some_iff)
qed

lemma append_pieces:
  assumes "\<forall>f \<in> set frs. \<exists>j. piece_of h k c f j" and "length c < 2 ^ 24" and "hh_length h = of_nat (length c)"
  shows "i < length c \<Longrightarrow> 0 < k \<Longrightarrow> append_message (of_nat i) frs [] =
    Some (if \<forall>j \<in> set (offsets k i (length c)). \<exists>f \<in> set frs. piece_of h k c f j then Some (drop i c) else None)"
  using assms(1)
proof (induction k i "length c" rule: offsets.induct)
  case (1 k i)
  have o: "offsets k i (length c) = i # offsets k (i + k) (length c)" using 1(2,3) by (simp add: offsets.simps [of k i])
  show ?case
  proof (cases "find (\<lambda>f. hh_fragment_offset (fr_header f) = of_nat i) frs")
    case None
    then have "\<not> (\<exists>f \<in> set frs. piece_of h k c f i)" using find_piece(1) [OF 1(4) assms(2)] 1(2) by simp
    then show ?thesis using None o by (subst append_message.simps) auto
  next
    case (Some f)
    then have f: "piece_of h k c f i" "f \<in> set frs"
      using find_piece(2) [OF 1(4) assms(2)] 1(2) by (auto simp: find_Some_iff)
    have fh: "hh_fragment_offset (fr_header f) + hh_fragment_length (fr_header f) = of_nat (i + length (piece k c i))"
      "hh_length (fr_header f) = of_nat (length c)" "fr_data f = piece k c i"
      using f(1) assms(3) by (simp_all add: piece_of_def piece_header_def)
    show ?thesis
    proof (cases "i + k < length c")
      case True
      then have p: "length (piece k c i) = k" by (simp add: piece_def)
      have ne: "(of_nat (i + k) :: u32) \<noteq> of_nat (length c)" using True assms(2) by (subst of_nat_u32_eq) auto
      have IH: "append_message (of_nat (i + k)) frs [] = Some (if \<forall>j \<in> set (offsets k (i + k) (length c)).
          \<exists>f \<in> set frs. piece_of h k c f j then Some (drop (i + k) c) else None)"
        using 1(1) 1(2-4) True by blast
      have "piece k c i @ drop (i + k) c = drop i c" 
        using append_take_drop_id [of k "drop i c"] by (simp add: piece_def add.commute)
      then show ?thesis using Some f ne IH unfolding o
        by (subst append_message.simps) (auto simp: fh(2,3) fh(1) [unfolded p] Let_def simp del: of_nat_add)
    next
      case False
      then have p: "i + length (piece k c i) = length c" "piece k c i = drop i c" using 1(2) by (simp_all add: piece_def)
      have "offsets k (i + k) (length c) = []" using False by (simp add: offsets.simps)
      then show ?thesis using Some f unfolding o
        by (subst append_message.simps) (auto simp: fh(2,3) fh(1) [unfolded p(1)] p(2) Let_def simp del: of_nat_add)
    qed
  qed
qed

lemma append_cuts:
  assumes "0 < k" and "\<forall>f \<in> set frs. \<exists>j. piece_of h k c f j" and "length c < 2 ^ 24" and "hh_length h = of_nat (length c)"
  shows "append_message 0 frs [] = Some (if \<forall>j \<in> set (cuts k c). \<exists>f \<in> set frs. piece_of h k c f j then Some c else None)"
proof (cases "c = []")
  case False
  then show ?thesis using append_pieces [OF assms(2-4), of 0] assms(1) by (simp add: cuts_def)
next
  case True
  show ?thesis
  proof (cases "find (\<lambda>f. hh_fragment_offset (fr_header f) = of_nat 0) frs")
    case None
    then show ?thesis using find_piece(1) [OF assms(2,3), of 0] True by (subst append_message.simps) (auto simp: cuts_def)
  next
    case (Some f)
    then have "piece_of h k c f 0" "f \<in> set frs" using find_piece(2) [OF assms(2,3), of 0 f] by (auto simp: find_Some_iff)
    then show ?thesis using Some True assms(4)
      by (subst append_message.simps) (auto simp: cuts_def piece_of_def piece_header_def piece_def Let_def)
  qed
qed

definition receive :: "bytes list \<Rightarrow> fragment_buffer \<Rightarrow> fragment_buffer" where
  "receive ps b = fold (\<lambda>p b. snd (fragment_push p b)) ps b"

lemma receive_cache:
  assumes "\<forall>p \<in> set ps. \<exists>j. carries h k c e p j" and "hm_get (fg_cache b) (hh_message_sequence h) = None"
  shows "hm_get (fg_cache (receive ps b)) (hh_message_sequence h) = (if ps = [] then None else Some (map carried ps)) \<and>
    fg_current (receive ps b) = fg_current b"
  using assms(1)
proof (induction ps rule: rev_induct)
  case (snoc p ps)
  obtain j where j: "carries h k c e p j" using snoc.prems by auto
  then have s: "hh_message_sequence (fr_header (carried p)) = hh_message_sequence h" by (simp add: carries_def piece_header_def)
  have "receive (ps @ [p]) b = add_fragment (carried p) (receive ps b)" using j by (simp add: receive_def carries_def)
  then show ?case using snoc s by (simp add: add_fragment_def hm_simps Let_def)
qed (simp add: receive_def assms(2))

text \<open>All fragments have arrived exactly when every offset is there.\<close>

lemma all_arrived_iff:
  assumes "list_all2 (carries h k c e) raws (cuts k c)" and "set ps \<subseteq> set raws" and "length c < 2 ^ 24"
  shows "(\<forall>j \<in> set (cuts k c). \<exists>f \<in> set (map carried ps). piece_of h k c f j) \<longleftrightarrow> set ps = set raws"
proof -
  have r: "length raws = length (cuts k c)" "\<And>i. i < length raws \<Longrightarrow> carries h k c e (raws ! i) (cuts k c ! i)"
    using assms(1) by (auto simp: list_all2_conv_all_nth)
  have same: "i' = i" if "i < length raws" "i' < length raws" "piece_of h k c (carried (raws ! i')) (cuts k c ! i)" for i i'
  proof -
    have le: "cuts k c ! i \<le> length c" "cuts k c ! i' \<le> length c" using cuts_facts(2) [of _ k c] that(1,2) r(1) by auto
    have "(of_nat (cuts k c ! i') :: u32) = of_nat (cuts k c ! i)"
      using that(3) r(2) [OF that(2)] by (auto simp: piece_of_def carries_def piece_header_def dest: arg_cong [of _ _ hh_fragment_offset])
    then have "cuts k c ! i' = cuts k c ! i" using le assms(3) by (subst (asm) of_nat_u32_eq) auto
    then show ?thesis using cuts_facts(1) that r(1) by (simp add: nth_eq_iff_index_eq)
  qed
  have own: "piece_of h k c (carried (raws ! i)) (cuts k c ! i)" if "i < length raws" for i
    using r that by (simp add: piece_of_def carries_def)
  show ?thesis
  proof
    assume all: "\<forall>j \<in> set (cuts k c). \<exists>f \<in> set (map carried ps). piece_of h k c f j"
    have "raws ! i \<in> set ps" if i: "i < length raws" for i
    proof -
      have "cuts k c ! i \<in> set (cuts k c)" using i r(1) by simp
      then obtain p where p: "p \<in> set ps" "piece_of h k c (carried p) (cuts k c ! i)" using all by (metis (mono_tags) imageE list.set_map)
      moreover obtain i' where "i' < length raws" "p = raws ! i'" using p(1) assms(2) by (metis in_set_conv_nth subsetD)
      ultimately show ?thesis using same [OF i] by auto
    qed
    then have "set raws \<subseteq> set ps" by (auto simp: in_set_conv_nth)
    with assms(2) show "set ps = set raws" by blast
  next
    assume e: "set ps = set raws"
    show "\<forall>j \<in> set (cuts k c). \<exists>f \<in> set (map carried ps). piece_of h k c f j"
    proof
      fix j assume "j \<in> set (cuts k c)"
      then obtain i where "i < length raws" "j = cuts k c ! i" using r(1) by (auto simp: in_set_conv_nth)
      then show "\<exists>f \<in> set (map carried ps). piece_of h k c f j" using own e nth_mem by fastforce
    qed
  qed
qed

section \<open>Properties\<close>

text \<open>
  C11. Handshake messages survive fragmentation, loss, duplication and reordering of their records. Let a
  well-formed message be split for any transmission unit and sent as records, and let any of these records
  arrive, in any order and any number of times, at a buffer that waits for the message. When all of them have
  arrived, \<^verbatim>\<open>pop\<close> returns the whole message, with the header of an unfragmented one, under the epoch of its
  records, and moves on to the next message; before that it reports that there is none and changes nothing. It
  always returns.
\<close>

theorem fragments_reassembled:
  assumes "wf_content (C_Handshake h)" and "unat (hh_length (hs_header h)) = message_size (hs_message h)" and "0 < mtu"
    and "rl_protocol_version rh \<in> {PROTOCOL_VERSION1_0, PROTOCOL_VERSION1_2}" and "rl_content_type rh = CT_Handshake"
    and "process_handshake_packet enc False mtu rh h lsn = (Ok raws, lsn')"
    and "fg_current b = hh_message_sequence (hs_header h)" and "hm_get (fg_cache b) (fg_current b) = None"
    and "set arrived \<subseteq> set raws"
  shows "let b' = receive arrived b;
           whole = h\<lparr>hs_header := (hs_header h)\<lparr>hh_fragment_offset := 0, hh_fragment_length := hh_length (hs_header h)\<rparr>\<rparr> in
    if set arrived = set raws
    then \<exists>m b''. fragment_pop b' = Some (Ok (m, rl_epoch rh), b'') \<and> handshake_marshal whole = Ok m \<and>
      handshake_unmarshal m = Ok whole \<and> fg_current b'' = fg_current b + 1 \<and> hm_get (fg_cache b'') (fg_current b) = None
    else fragment_pop b' = Some (Err ErrEmptyFragment, b')"
proof -
  let ?h = "hs_header h" and ?w = "(hs_header h)\<lparr>hh_fragment_offset := 0, hh_fragment_length := hh_length (hs_header h)\<rparr>"
  have w: "wf_header ?h" "wf_header ?w" "wf_content (C_Handshake (h\<lparr>hs_header := ?w\<rparr>))"
    using assms(1) by (simp_all add: wf_header_def)
  obtain c where c: "message_marshal (hs_message h) = Ok c" "length c = message_size (hs_message h)"
    using message_codec [of "hs_message h"] assms(1) by auto
  have n: "unat (hh_length ?h) = length c" "length c < 2 ^ 24" using assms(2) c(2) w(1) by (simp_all add: wf_header_def)
  then have hl: "hh_length ?h = of_nat (length c)" by (simp flip: n(1))
  have r: "list_all2 (carries ?h mtu c (rl_epoch rh)) raws (cuts mtu c)"
    using message_records [OF assms(3) w(1) c(1) n(1) assms(4,5,6)] .
  then have ca: "\<exists>j. carries ?h mtu c (rl_epoch rh) p j \<and> j \<in> set (cuts mtu c)" if "p \<in> set raws" for p
    using that by (metis in_set_conv_nth list_all2_conv_all_nth nth_mem)
  have cp: "\<forall>p \<in> set arrived. \<exists>j. carries ?h mtu c (rl_epoch rh) p j" using ca assms(9) by blast
  have cache: "hm_get (fg_cache (receive arrived b)) (fg_current b) = (if arrived = [] then None else Some (map carried arrived))"
    "fg_current (receive arrived b) = fg_current b"
    using receive_cache [OF cp] assms(7,8) by simp_all
  have pieces: "\<forall>f \<in> set (map carried arrived). \<exists>j. piece_of ?h mtu c f j"
    using ca assms(9) by (fastforce simp: piece_of_def carries_def)
  have app: "append_message 0 (map carried arrived) [] = Some (if set arrived = set raws then Some c else None)"
    using append_cuts [OF assms(3) pieces n(2) hl] all_arrived_iff [OF r assms(9) n(2)] by simp
  have ne: "raws \<noteq> []"
  proof -
    have "cuts mtu c \<noteq> []" using assms(3) by (simp add: cuts_def offsets.simps)
    then show ?thesis using r by auto
  qed
  show ?thesis
  proof (cases "set arrived = set raws")
    case True
    then have a: "arrived \<noteq> []" using ne by auto
    then obtain p where p: "hd (map carried arrived) = carried p" "p \<in> set arrived" by (cases arrived) auto
    then obtain j where "carries ?h mtu c (rl_epoch rh) p j" using cp by blast
    then have first: "(fr_header (hd (map carried arrived)))\<lparr>hh_fragment_offset := 0,
        hh_fragment_length := hh_length (fr_header (hd (map carried arrived)))\<rparr> = ?w"
      "rl_epoch (fr_record (hd (map carried arrived))) = rl_epoch rh"
      unfolding p(1) by (simp_all add: carries_def piece_header_def)
    obtain x where x: "handshake_header_marshal ?w = Ok x" using handshake_header_roundtrip [OF w(2)] by blast
    have m: "handshake_marshal (h\<lparr>hs_header := ?w\<rparr>) = Ok (x @ c)" using x c(1) by (simp add: handshake_marshal_def)
    then have "handshake_unmarshal (x @ c) = Ok (h\<lparr>hs_header := ?w\<rparr>)" using handshake_roundtrip [OF w(3)] by auto
    moreover have "fragment_pop (receive arrived b) = Some (Ok (x @ c, rl_epoch rh), (receive arrived b)
        \<lparr>fg_cache := hm_remove (fg_current b) (fg_cache (receive arrived b)), fg_current := fg_current b + 1\<rparr>)"
      unfolding fragment_pop_def cache using a app True by (simp add: Let_def first x)
    ultimately show ?thesis using m True by (simp add: Let_def hm_simps)
  next
    case False
    then have "fragment_pop (receive arrived b) = Some (Err ErrEmptyFragment, receive arrived b)"
      unfolding fragment_pop_def cache using app by simp
    with False show ?thesis by (simp add: Let_def)
  qed
qed

theorem fragments_reassembled_witness:
  "\<exists>raws b'' m. let h = handshake_new (HM_Finished [1, 2, 3]);
      rh = \<lparr>rl_content_type = CT_Handshake, rl_protocol_version = PROTOCOL_VERSION1_2, rl_epoch = 0, rl_sequence_number = 0,
        rl_content_len = 0\<rparr> in
     process_handshake_packet None False 2 rh h [] = (Ok raws, [2]) \<and> length raws = 2 \<and>
     fragment_pop (receive (rev raws @ raws) fragment_buffer_new) = Some (Ok (m, 0), b'') \<and> handshake_unmarshal m = Ok h"
proof -
  let ?h = "handshake_new (HM_Finished [1, 2, 3])"
  let ?rh = "\<lparr>rl_content_type = CT_Handshake, rl_protocol_version = PROTOCOL_VERSION1_2, rl_epoch = 0, rl_sequence_number = 0,
        rl_content_len = 0\<rparr>"
  let ?raws = "[[22, 0xfe, 0xfd, 0, 0, 0, 0, 0, 0, 0, 0, 0, 14, 20, 0, 0, 3, 0, 0, 0, 0, 0, 0, 0, 2, 1, 2],
      [22, 0xfe, 0xfd, 0, 0, 0, 0, 0, 0, 0, 1, 0, 13, 20, 0, 0, 3, 0, 0, 0, 0, 2, 0, 0, 1, 3]] :: bytes list"
  have p: "process_handshake_packet None False 2 ?rh ?h [] = (Ok ?raws, [2])"
    by (simp add: process_handshake_packet_def fragment_handshake_def split_bytes_def split_loop.simps handshake_new_def
        handshake_header_marshal_def put_u24_def put_u16_def put_u48_def record_layer_header_marshal_def MAX_SEQUENCE_NUMBER_def
        put_version_def PROTOCOL_VERSION1_2_def encrypt_with_def extend_lsn_def Let_def)
  have w: "wf_content (C_Handshake ?h)" "unat (hh_length (hs_header ?h)) = message_size (hs_message ?h)"
    "hh_message_sequence (hs_header ?h) = 0"
    "?h\<lparr>hs_header := (hs_header ?h)\<lparr>hh_fragment_offset := 0, hh_fragment_length := hh_length (hs_header ?h)\<rparr>\<rparr> = ?h"
    by (simp_all add: handshake_new_def wf_header_def)
  have "fg_current fragment_buffer_new = 0" "hm_get (fg_cache fragment_buffer_new) 0 = None"
    by (simp_all add: fragment_buffer_new_def hm_simps)
  with fragments_reassembled [OF w(1,2) _ _ _ p, of fragment_buffer_new "rev ?raws @ ?raws"] w(3,4)
  obtain m b'' where "fragment_pop (receive (rev ?raws @ ?raws) fragment_buffer_new) = Some (Ok (m, 0), b'')"
    "handshake_unmarshal m = Ok ?h" by (auto simp: Let_def insert_commute)
  then show ?thesis using p by (intro exI [of _ ?raws]) (auto simp: Let_def)
qed

text \<open>
  A single record can make \<^verbatim>\<open>pop\<close> recurse for ever: a fragment of length zero at offset zero of a message that is not
  empty is followed by itself. Such a record needs no key, since handshake records of epoch 0 are not encrypted.
\<close>

lemma append_message_diverges:
  assumes "hh_fragment_offset (fr_header f) = 0" and "hh_fragment_length (fr_header f) = 0" and "hh_length (fr_header f) \<noteq> 0"
  shows "append_message 0 (f # fs) raw = None"
proof (rule ccontr)
  assume "append_message 0 (f # fs) raw \<noteq> None"
  then obtain y where y: "append_message 0 (f # fs) raw = Some y" by blast
  have "0 = (0 :: u32) \<and> f # fs = f # fs \<longrightarrow> False"
  proof (rule append_message.raw_induct [where P = "\<lambda>t frs raw' y. t = 0 \<and> frs = f # fs \<longrightarrow> False", OF _ y], goal_cases)
    case (1 am t frs raw' y)
    show ?case using 1(2) assms by (auto simp: Let_def split: bind_splits dest!: 1(1))
  qed
  then show False by simp
qed

lemma zero_fragment_diverges:
  "fragment_pop (snd (fragment_push [22, 0xfe, 0xfd, 0, 0, 0, 0, 0, 0, 0, 0, 0, 12, 1, 0, 0, 5, 0, 0, 0, 0, 0, 0, 0, 0] fragment_buffer_new)) = None"
proof -
  let ?p = "[22, 0xfe, 0xfd, 0, 0, 0, 0, 0, 0, 0, 0, 0, 12, 1, 0, 0, 5, 0, 0, 0, 0, 0, 0, 0, 0] :: bytes"
  obtain f where "fragment_push ?p fragment_buffer_new = (Ok True, fragment_buffer_new\<lparr>fg_cache := [(0, [f])]\<rparr>)"
    "hh_fragment_offset (fr_header f) = 0" "hh_fragment_length (fr_header f) = 0" "hh_length (fr_header f) = 5"
    by (simp add: fragment_push_def record_layer_header_unmarshal_def get_version_def rd_def PROTOCOL_VERSION1_0_def
        PROTOCOL_VERSION1_2_def content_type_from_def RECORD_LAYER_HEADER_SIZE_def push_loop.simps handshake_header_unmarshal_def
        HANDSHAKE_HEADER_LENGTH_def add_fragment_def fragment_buffer_new_def hm_simps Let_def)
  then show ?thesis using append_message_diverges [of f "[]" "[]"]
    by (simp add: fragment_pop_def hm_get_def fragment_buffer_new_def)
qed

end
