(* ===== verification/Dtls_Cache.thy ===== *)
theory Dtls_Cache
  imports Dtls_Fragment
begin

text \<open>
  The handshake cache (\<^verbatim>\<open>crates/dtls/handshake/handshake_cache.rs\<close>): the messages of both sides that the flights
  wait for and that the verify data are computed from. The hash function is a parameter.
\<close>

section \<open>The cache\<close>

record handshake_cache_item =
  ci_typ :: handshake_type
  ci_is_client :: bool
  ci_epoch :: u16
  ci_message_sequence :: u16
  ci_data :: bytes

record pull_rule =
  pr_typ :: handshake_type
  pr_epoch :: u16
  pr_is_client :: bool
  pr_optional :: bool

type_synonym handshake_cache = "handshake_cache_item list"

definition handshake_cache_new :: handshake_cache where "handshake_cache_new = []"

definition cache_push :: "bytes \<Rightarrow> u16 \<Rightarrow> u16 \<Rightarrow> handshake_type \<Rightarrow> bool \<Rightarrow> handshake_cache \<Rightarrow> bool \<times> handshake_cache" where
  "cache_push data epoch message_sequence typ is_client cache =
     (if \<exists>i \<in> set cache. ci_message_sequence i = message_sequence \<and> ci_is_client i = is_client then (False, cache)
      else (True, cache @ [\<lparr>ci_typ = typ, ci_is_client = is_client, ci_epoch = epoch,
              ci_message_sequence = message_sequence, ci_data = data\<rparr>]))"

definition rule_matches :: "pull_rule \<Rightarrow> handshake_cache_item \<Rightarrow> bool" where
  "rule_matches r c \<longleftrightarrow> ci_typ c = pr_typ r \<and> ci_is_client c = pr_is_client r \<and> ci_epoch c = pr_epoch r"

definition pull_step :: "pull_rule \<Rightarrow> handshake_cache_item \<Rightarrow> handshake_cache_item option \<Rightarrow> handshake_cache_item option" where
  "pull_step r c item =
     (if rule_matches r c then
        case item of
          Some x \<Rightarrow> if ci_message_sequence x < ci_message_sequence c then Some c else item
        | None \<Rightarrow> Some c
      else item)"

definition pull_one :: "handshake_cache \<Rightarrow> pull_rule \<Rightarrow> handshake_cache_item option" where
  "pull_one cache r = fold (pull_step r) cache None"

fun cache_pull :: "handshake_cache \<Rightarrow> pull_rule list \<Rightarrow> handshake_cache_item list" where
  "cache_pull cache [] = []"
| "cache_pull cache (r # rs) =
     (case pull_one cache r of Some c \<Rightarrow> c # cache_pull cache rs | None \<Rightarrow> cache_pull cache rs)"

text \<open>The first loop of \<^verbatim>\<open>full_pull_map\<close> collects the items, the second decodes them and tests the numbers.\<close>

fun full_pull_items :: "handshake_cache \<Rightarrow> pull_rule list \<Rightarrow> (handshake_type, handshake_cache_item) hash_map
    \<Rightarrow> (handshake_type, handshake_cache_item) hash_map dtls_result" where
  "full_pull_items cache [] ci = Ok ci"
| "full_pull_items cache (r # rs) ci =
     (case pull_one cache r of
        None \<Rightarrow> if \<not> pr_optional r then Err ErrOther else full_pull_items cache rs ci
      | Some c \<Rightarrow> full_pull_items cache rs (hm_insert (pr_typ r) c ci))"

fun full_pull_decode :: "(handshake_type, handshake_cache_item) hash_map \<Rightarrow> pull_rule list \<Rightarrow> int
    \<Rightarrow> (handshake_type, handshake_message) hash_map \<Rightarrow> (int \<times> (handshake_type, handshake_message) hash_map) dtls_result" where
  "full_pull_decode ci [] s out = Ok (s, out)"
| "full_pull_decode ci (r # rs) s out =
     (case hm_get ci (pr_typ r) of
        None \<Rightarrow> full_pull_decode ci rs s out
      | Some i \<Rightarrow>
          obind (handshake_unmarshal (ci_data i)) (\<lambda>raw_handshake.
            if of_int s \<noteq> hh_message_sequence (hs_header raw_handshake) then Err ErrOther
            else full_pull_decode ci rs (s + 1) (hm_insert (pr_typ r) (hs_message raw_handshake) out)))"

definition full_pull_map :: "handshake_cache \<Rightarrow> int \<Rightarrow> pull_rule list
    \<Rightarrow> (int \<times> (handshake_type, handshake_message) hash_map) dtls_result" where
  "full_pull_map cache start_seq rules =
     obind (full_pull_items cache rules []) (\<lambda>ci. full_pull_decode ci rules start_seq [])"

definition pull_and_merge :: "handshake_cache \<Rightarrow> pull_rule list \<Rightarrow> bytes" where
  "pull_and_merge cache rules = concat (map ci_data (cache_pull cache rules))"

text \<open>The rules of \<^verbatim>\<open>session_hash\<close>, in the order of RFC 5246, section 7.3.\<close>

definition session_rules :: "u16 \<Rightarrow> pull_rule list" where
  "session_rules epoch =
     map (\<lambda>(typ, is_client). \<lparr>pr_typ = typ, pr_epoch = epoch, pr_is_client = is_client, pr_optional = False\<rparr>)
       [(HT_ClientHello, True), (HT_ServerHello, False), (HT_Certificate, False), (HT_ServerKeyExchange, False),
        (HT_CertificateRequest, False), (HT_ServerHelloDone, False), (HT_Certificate, True), (HT_ClientKeyExchange, True)]"

definition session_hash :: "(bytes \<Rightarrow> bytes) \<Rightarrow> u16 \<Rightarrow> bytes \<Rightarrow> handshake_cache \<Rightarrow> bytes dtls_result" where
  "session_hash hash_func epoch additional cache =
     Ok (hash_func (concat (map ci_data (cache_pull cache (session_rules epoch))) @ additional))"

section \<open>Properties\<close>

text \<open>Per side the numbers of the messages are distinct.\<close>

definition cache_inv :: "handshake_cache \<Rightarrow> bool" where
  "cache_inv cache \<longleftrightarrow> distinct (map (\<lambda>i. (ci_is_client i, ci_message_sequence i)) cache)"

lemma cache_inv_new: "cache_inv handshake_cache_new"
  by (simp add: cache_inv_def handshake_cache_new_def)

lemma cache_inv_push: "cache_inv cache \<Longrightarrow> cache_inv (snd (cache_push d e s t c cache))"
  by (auto simp: cache_inv_def cache_push_def)

text \<open>What a rule selects.\<close>

definition is_latest :: "handshake_cache \<Rightarrow> pull_rule \<Rightarrow> handshake_cache_item option \<Rightarrow> bool" where
  "is_latest cache r item =
     (case item of
        None \<Rightarrow> \<forall>c \<in> set cache. \<not> rule_matches r c
      | Some x \<Rightarrow> x \<in> set cache \<and> rule_matches r x \<and>
          (\<forall>c \<in> set cache. rule_matches r c \<longrightarrow> c \<noteq> x \<longrightarrow> ci_message_sequence c < ci_message_sequence x))"

lemma pull_one_latest: "cache_inv cache \<Longrightarrow> is_latest cache r (pull_one cache r)"
proof (induction cache rule: rev_induct)
  case (snoc c cs)
  have inv: "cache_inv cs" using snoc.prems by (simp add: cache_inv_def)
  have other: "ci_message_sequence c \<noteq> ci_message_sequence x" if "x \<in> set cs" "rule_matches r c" "rule_matches r x" for x
    using snoc.prems that by (force simp: cache_inv_def rule_matches_def)
  have one: "pull_one (cs @ [c]) r = pull_step r c (pull_one cs r)" by (simp add: pull_one_def)
  show ?case
  proof (cases "pull_one cs r")
    case None
    with snoc.IH [OF inv] show ?thesis by (auto simp: one is_latest_def pull_step_def)
  next
    case (Some x)
    with snoc.IH [OF inv] other [of x] show ?thesis
      by (auto simp: one is_latest_def pull_step_def not_less intro: order.strict_trans le_neq_trans)
  qed
qed (simp add: is_latest_def pull_one_def)

lemma cache_pull_filter: "cache_pull cache rs = map the (filter (\<lambda>x. x \<noteq> None) (map (pull_one cache) rs))"
  by (induction rs) (auto split: option.splits)

lemma pull_one_typ: "cache_inv cache \<Longrightarrow> pull_one cache r = Some c \<Longrightarrow> ci_typ c = pr_typ r"
  using pull_one_latest [of cache r] by (auto simp: is_latest_def rule_matches_def)

lemma cache_pull_typs:
  "cache_inv cache \<Longrightarrow> map ci_typ (cache_pull cache rs) = map pr_typ (filter (\<lambda>r. pull_one cache r \<noteq> None) rs)"
  by (induction rs) (auto dest: pull_one_typ split: option.splits)

lemma full_pull_items_eq:
  assumes "cache_inv cache" and "distinct (map pr_typ rs)" and "\<forall>r \<in> set rs. pr_typ r \<notin> set (hm_keys ci)"
  shows "full_pull_items cache rs ci =
    (if \<forall>r \<in> set rs. pr_optional r \<or> pull_one cache r \<noteq> None
     then Ok (ci @ map (\<lambda>c. (ci_typ c, c)) (cache_pull cache rs)) else Err ErrOther)"
  using assms(2,3)
proof (induction rs arbitrary: ci)
  case (Cons r rs)
  have "\<forall>x \<in> set rs. pr_typ x \<notin> set (hm_keys (hm_insert (pr_typ r) c ci))" for c
    using Cons.prems by (auto simp: hm_simps rev_image_eqI)
  from Cons.IH [OF _ this] show ?case using Cons.IH [of ci] Cons.prems assms(1)
    by (cases "pull_one cache r") (auto simp: hm_insert_new dest: pull_one_typ)
qed simp

text \<open>The items decode to messages with consecutive numbers.\<close>

definition consecutive :: "int \<Rightarrow> handshake list \<Rightarrow> bool" where
  "consecutive s hs \<longleftrightarrow> (\<forall>i < length hs. hh_message_sequence (hs_header (hs ! i)) = of_int (s + int i))"

lemma consecutive_Cons:
  "consecutive s (h # hs) \<longleftrightarrow> hh_message_sequence (hs_header h) = of_int s \<and> consecutive (s + 1) hs"
  by (auto simp: consecutive_def nth_Cons less_Suc_eq_0_disj add.assoc split: nat.splits)

definition decodes :: "handshake_cache_item list \<Rightarrow> handshake list \<Rightarrow> bool" where
  "decodes cs hs \<longleftrightarrow> list_all2 (\<lambda>c h. handshake_unmarshal (ci_data c) = Ok h) cs hs"

lemma decodes_Cons: "(\<exists>hs. decodes (c # cs) hs \<and> P hs) \<longleftrightarrow> (\<exists>h hs. handshake_unmarshal (ci_data c) = Ok h \<and> decodes cs hs \<and> P (h # hs))"
  by (auto simp: decodes_def list_all2_Cons1)

lemma full_pull_decode_eq:
  assumes "cache_inv cache" and "distinct (map pr_typ rs)" and "\<forall>r \<in> set rs. pr_typ r \<notin> set (hm_keys out)"
    and "\<forall>r \<in> set rs. hm_get ci (pr_typ r) = pull_one cache r"
  shows "full_pull_decode ci rs s out = Ok (s', out') \<longleftrightarrow>
    (\<exists>hs. decodes (cache_pull cache rs) hs \<and> consecutive s hs \<and> s' = s + int (length hs) \<and>
       out' = out @ zip (map ci_typ (cache_pull cache rs)) (map hs_message hs))"
  using assms(2-)
proof (induction rs arbitrary: s out)
  case Nil
  then show ?case by (auto simp: decodes_def consecutive_def)
next
  case (Cons r rs)
  show ?case
  proof (cases "pull_one cache r")
    case None
    with Cons show ?thesis by simp
  next
    case (Some c)
    have "\<forall>x \<in> set rs. pr_typ x \<notin> set (hm_keys (hm_insert (pr_typ r) m out))" for m
      using Cons.prems by (auto simp: hm_simps rev_image_eqI)
    note new = this
    have IH: "full_pull_decode ci rs (s + 1) (hm_insert (pr_typ r) (hs_message h) out) = Ok (s', out') \<longleftrightarrow>
      (\<exists>hs. decodes (cache_pull cache rs) hs \<and> consecutive (s + 1) hs \<and> s' = s + 1 + int (length hs) \<and>
         out' = (out @ [(pr_typ r, hs_message h)]) @ zip (map ci_typ (cache_pull cache rs)) (map hs_message hs))" for h
      using Cons.IH [OF _ new, of "s + 1" "hs_message h"] Cons.prems by (simp add: hm_insert_new)
    have "full_pull_decode ci (r # rs) s out = Ok (s', out') \<longleftrightarrow>
      (\<exists>h. handshake_unmarshal (ci_data c) = Ok h \<and> hh_message_sequence (hs_header h) = of_int s \<and>
        full_pull_decode ci rs (s + 1) (hm_insert (pr_typ r) (hs_message h) out) = Ok (s', out'))"
      using Some Cons.prems by (auto simp: obind_eq_Ok)
    also have "\<dots> \<longleftrightarrow> (\<exists>h hs. handshake_unmarshal (ci_data c) = Ok h \<and> decodes (cache_pull cache rs) hs \<and>
        consecutive s (h # hs) \<and> s' = s + int (length (h # hs)) \<and>
        out' = out @ zip (map ci_typ (c # cache_pull cache rs)) (map hs_message (h # hs)))"
      unfolding IH consecutive_Cons using pull_one_typ [OF assms(1) Some] by (simp add: algebra_simps) blast
    also have "\<dots> \<longleftrightarrow> (\<exists>hs. decodes (c # cache_pull cache rs) hs \<and>
        consecutive s hs \<and> s' = s + int (length hs) \<and>
        out' = out @ zip (map ci_typ (c # cache_pull cache rs)) (map hs_message hs))"
      by (rule decodes_Cons [symmetric])
    finally show ?thesis using Some by simp
  qed
qed

text \<open>
  The messages a flight waits for are delivered exactly when they are complete. For rules that name each
  message type once, \<^verbatim>\<open>full_pull_map\<close> succeeds if and only if every mandatory message is in the cache and the messages
  found, in the order of the rules, decode and carry consecutive message numbers from the expected one on; it then
  returns the next expected number and maps each type to its decoded message. For each rule the message taken is the
  one with the highest number (a ClientHello with cookie supersedes the one without), whatever order they came in.
\<close>

theorem full_pull_complete:
  assumes "cache_inv cache" and "distinct (map pr_typ rules)"
  shows "(full_pull_map cache s rules = Ok (s', out) \<longleftrightarrow>
      (\<forall>r \<in> set rules. pr_optional r \<or> (\<exists>c \<in> set cache. rule_matches r c)) \<and>
      (\<exists>hs. decodes (cache_pull cache rules) hs \<and> consecutive s hs \<and> s' = s + int (length hs) \<and>
         out = zip (map ci_typ (cache_pull cache rules)) (map hs_message hs))) \<and>
    (\<forall>r \<in> set rules. is_latest cache r (pull_one cache r))"
proof -
  let ?ci = "map (\<lambda>c. (ci_typ c, c)) (cache_pull cache rules)"
  have none: "pull_one cache r = None \<longleftrightarrow> (\<forall>c \<in> set cache. \<not> rule_matches r c)" for r
    using pull_one_latest [OF assms(1), of r] by (auto simp: is_latest_def split: option.splits)
  have get: "hm_get ?ci (pr_typ r) = pull_one cache r" if "r \<in> set rules" for r
    using that assms(2)
  proof (induction rules)
    case (Cons a rs)
    have "ci_typ ` set (cache_pull cache rs) = pr_typ ` set (filter (\<lambda>r. pull_one cache r \<noteq> None) rs)"
      using arg_cong [OF cache_pull_typs [OF assms(1), of rs], of set] by simp
    then have new: "pr_typ a \<notin> ci_typ ` set (cache_pull cache rs)" using Cons.prems(2) by auto
    show ?case
    proof (cases "r = a")
      case True
      with new show ?thesis
        by (cases "pull_one cache a") (auto simp: hm_get_def map_of_eq_None_iff image_comp comp_def dest: pull_one_typ [OF assms(1)])
    next
      case False
      with Cons show ?thesis
        by (cases "pull_one cache a") (auto simp: hm_get_def rev_image_eqI dest: pull_one_typ [OF assms(1)])
    qed
  qed simp
  show ?thesis
    using full_pull_items_eq [OF assms, of "[]"] full_pull_decode_eq [OF assms, of "[]" ?ci s s' out] get
    by (auto simp: full_pull_map_def hm_keys_def none pull_one_latest [OF assms(1)])
qed

theorem full_pull_complete_witness:
  "\<exists>s' out. full_pull_map
     [\<lparr>ci_typ = HT_ServerHelloDone, ci_is_client = False, ci_epoch = 0, ci_message_sequence = 5,
       ci_data = [14, 0, 0, 0, 0, 5, 0, 0, 0, 0, 0, 0]\<rparr>] 5
     [\<lparr>pr_typ = HT_ServerHelloDone, pr_epoch = 0, pr_is_client = False, pr_optional = False\<rparr>] = Ok (s', out) \<and> s' = 6 \<and>
     out = [(HT_ServerHelloDone, HM_ServerHelloDone)]"
proof -
  let ?c = "\<lparr>ci_typ = HT_ServerHelloDone, ci_is_client = False, ci_epoch = 0, ci_message_sequence = 5,
    ci_data = [14, 0, 0, 0, 0, 5, 0, 0, 0, 0, 0, 0]\<rparr>"
  let ?r = "\<lparr>pr_typ = HT_ServerHelloDone, pr_epoch = 0, pr_is_client = False, pr_optional = False\<rparr>"
  let ?h = "\<lparr>hs_header = \<lparr>hh_type = HT_ServerHelloDone, hh_length = 0, hh_message_sequence = 5, hh_fragment_offset = 0,
    hh_fragment_length = 0\<rparr>, hs_message = HM_ServerHelloDone\<rparr>"
  have p: "cache_pull [?c] [?r] = [?c]" by (simp add: pull_one_def pull_step_def rule_matches_def)
  have "handshake_unmarshal (ci_data ?c) = Ok ?h"
    by (simp add: handshake_unmarshal_def handshake_header_unmarshal_def rd_def handshake_type_from_def)
  then have "decodes [?c] [?h]" by (simp add: decodes_def)
  moreover have "consecutive 5 [?h]" by (simp add: consecutive_def)
  ultimately have "\<exists>hs. decodes (cache_pull [?c] [?r]) hs \<and> consecutive 5 hs \<and> 6 = 5 + int (length hs) \<and>
      [(HT_ServerHelloDone, HM_ServerHelloDone)] = zip (map ci_typ (cache_pull [?c] [?r])) (map hs_message hs)"
    unfolding p by (intro exI [of _ "[?h]"]) simp
  moreover have "cache_inv [?c]" "distinct (map pr_typ [?r])" by (simp_all add: cache_inv_def)
  ultimately show ?thesis using full_pull_complete [of "[?c]" "[?r]" 5 6 "[(HT_ServerHelloDone, HM_ServerHelloDone)]"]
    unfolding p by (simp add: rule_matches_def)
qed

end
