(* ===== verification/Dtls_Conn.thy ===== *)
theory Dtls_Conn
  imports Dtls_Cache Util_Replay
begin

text \<open>
  The record processing of a DTLS connection (\<^verbatim>\<open>crates/dtls/conn/mod.rs\<close>): the task that numbers, encrypts and sends
  outgoing records and the task that takes records from incoming datagrams. Ciphers, sockets and the state of the
  handshake are parameters. The two tasks share the handshake cache; each call of a handler runs to its end before
  the next one of the same task.
\<close>

section \<open>Outgoing records\<close>

record dtls_packet =
  dp_record :: record_layer
  dp_should_encrypt :: bool

definition outgoing_packet :: "encryption \<Rightarrow> bool \<Rightarrow> nat \<Rightarrow> dtls_packet \<Rightarrow> handshake_cache \<times> u64 list
    \<Rightarrow> bytes list dtls_result \<times> handshake_cache \<times> u64 list" where
  "outgoing_packet enc is_client mtu p = (\<lambda>(cache, lsn).
     (case rl_content (dp_record p) of
        C_Handshake h \<Rightarrow>
          (case record_layer_marshal (dp_record p) of
             Ok handshake_raw \<Rightarrow>
               let cache = snd (cache_push (drop RECORD_LAYER_HEADER_SIZE handshake_raw) (rl_epoch (rl_header (dp_record p)))
                     (hh_message_sequence (hs_header h)) (hh_type (hs_header h)) is_client cache);
                   (r, lsn) = process_handshake_packet enc (dp_should_encrypt p) mtu (rl_header (dp_record p)) h lsn
               in (r, cache, lsn)
           | Err e \<Rightarrow> (Err e, cache, lsn)
           | Panic \<Rightarrow> (Panic, cache, lsn))
      | _ \<Rightarrow>
          let (r, lsn) = process_packet enc (dp_should_encrypt p) (dp_record p) lsn
          in (obind r (\<lambda>raw. Ok [raw]), cache, lsn)))"

fun outgoing_packets :: "encryption \<Rightarrow> bool \<Rightarrow> nat \<Rightarrow> dtls_packet list \<Rightarrow> handshake_cache \<times> u64 list
    \<Rightarrow> bytes list dtls_result \<times> handshake_cache \<times> u64 list" where
  "outgoing_packets enc is_client mtu [] s = (Ok [], s)"
| "outgoing_packets enc is_client mtu (p # ps) s =
     (case outgoing_packet enc is_client mtu p s of
        (Ok raw, s) \<Rightarrow>
          (case outgoing_packets enc is_client mtu ps s of
             (Ok raws, s) \<Rightarrow> (Ok (raw @ raws), s)
           | (r, s) \<Rightarrow> (r, s))
      | (r, s) \<Rightarrow> (r, s))"

text \<open>Sending stops at the first error of the socket; the result lists what was handed to it.\<close>

fun send_all :: "(bytes \<Rightarrow> unit dtls_result) \<Rightarrow> bytes list \<Rightarrow> unit dtls_result \<times> bytes list" where
  "send_all send [] = (Ok (), [])"
| "send_all send (d # ds) =
     (case send d of Ok _ \<Rightarrow> (let (r, sent) = send_all send ds in (r, d # sent)) | r \<Rightarrow> (r, [d]))"

definition handle_outgoing_packets :: "encryption \<Rightarrow> (bytes \<Rightarrow> unit dtls_result) \<Rightarrow> bool \<Rightarrow> nat \<Rightarrow> dtls_packet list
    \<Rightarrow> handshake_cache \<times> u64 list \<Rightarrow> (unit dtls_result \<times> bytes list) \<times> handshake_cache \<times> u64 list" where
  "handle_outgoing_packets enc send is_client mtu pkts s =
     (case outgoing_packets enc is_client mtu pkts s of
        (Ok raw_packets, s) \<Rightarrow>
          (if raw_packets \<noteq> [] then send_all send (compact_raw_packets raw_packets mtu) else (Ok (), []), s)
      | (Err e, s) \<Rightarrow> ((Err e, []), s)
      | (Panic, s) \<Rightarrow> ((Panic, []), s))"

section \<open>Incoming records\<close>

text \<open>\<open>cr_decrypted\<close> lists the application data handed to the reader of the connection, \<open>cr_alerts\<close> the alerts to send.\<close>

record conn_reader =
  cr_is_client :: bool
  cr_window :: nat
  cr_replay_detector :: "sliding_window_detector list"
  cr_decrypted :: "bytes list"
  cr_encrypted_packets :: "bytes list"
  cr_fragment_buffer :: fragment_buffer
  cr_cache :: handshake_cache
  cr_remote_epoch :: u16
  cr_alerts :: "dtls_packet list"

definition conn_reader_new :: "bool \<Rightarrow> nat \<Rightarrow> conn_reader" where
  "conn_reader_new is_client window =
     \<lparr>cr_is_client = is_client, cr_window = window, cr_replay_detector = [], cr_decrypted = [], cr_encrypted_packets = [],
      cr_fragment_buffer = fragment_buffer_new, cr_cache = handshake_cache_new, cr_remote_epoch = 0, cr_alerts = []\<rparr>"

text \<open>A cipher suite: whether it is initialised, and its decryption.\<close>

type_synonym decryption = "(bool \<times> (bytes \<Rightarrow> bytes dtls_result)) option"

definition suite_invalid :: "decryption \<Rightarrow> bool" where
  "suite_invalid cs = (case cs of None \<Rightarrow> True | Some (initialized, _) \<Rightarrow> \<not> initialized)"

type_synonym incoming_result = "bool \<times> alert option \<times> dtls_error option"

definition enqueue_packet :: "bool \<Rightarrow> bytes \<Rightarrow> conn_reader \<Rightarrow> conn_reader" where
  "enqueue_packet enqueue pkt ctx =
     (if enqueue then ctx\<lparr>cr_encrypted_packets := cr_encrypted_packets ctx @ [pkt]\<rparr> else ctx)"

definition extend_detectors :: "u16 \<Rightarrow> conn_reader \<Rightarrow> conn_reader" where
  "extend_detectors epoch ctx =
     ctx\<lparr>cr_replay_detector := cr_replay_detector ctx @
       replicate (unat epoch + 1 - length (cr_replay_detector ctx)) (sliding_window_detector_new (cr_window ctx) MAX_SEQUENCE_NUMBER)\<rparr>"

definition detector_check :: "u16 \<Rightarrow> u64 \<Rightarrow> conn_reader \<Rightarrow> bool \<times> conn_reader" where
  "detector_check epoch s ctx =
     (let (ok, d) = sw_check s (cr_replay_detector ctx ! unat epoch)
      in (ok, ctx\<lparr>cr_replay_detector := (cr_replay_detector ctx)[unat epoch := d]\<rparr>))"

definition detector_accept :: "u16 \<Rightarrow> conn_reader \<Rightarrow> conn_reader dtls_result" where
  "detector_accept epoch ctx =
     (case sw_accept (cr_replay_detector ctx ! unat epoch) of
        Ok d \<Rightarrow> Ok (ctx\<lparr>cr_replay_detector := (cr_replay_detector ctx)[unat epoch := d]\<rparr>)
      | _ \<Rightarrow> Panic)"

text \<open>
  \<^verbatim>\<open>while let Ok((out, epoch)) = ctx.fragment_buffer.pop()\<close>: complete messages go to the cache, messages that do not
  decode are dropped. \<open>None\<close> is a pop that does not return.
\<close>

lemma fragment_pop_shrinks:
  "fragment_pop b = Some (Ok m, b') \<Longrightarrow> length (fg_cache b') < length (fg_cache b)"
proof -
  assume p: "fragment_pop b = Some (Ok m, b')"
  then obtain frags where f: "hm_get (fg_cache b) (fg_current b) = Some frags"
    by (auto simp: fragment_pop_def split: option.splits)
  with p have b': "fg_cache b' = hm_remove (fg_current b) (fg_cache b)"
    by (cases "append_message 0 frags []") (auto simp: fragment_pop_def Let_def split: option.splits outcome.splits)
  from hm_get_in [OF f] have "length (hm_remove (fg_current b) (fg_cache b)) < length (fg_cache b)"
    unfolding hm_remove_def by (intro length_filter_less) auto
  then show ?thesis by (simp add: b')
qed

function pop_loop :: "bool \<Rightarrow> fragment_buffer \<Rightarrow> handshake_cache \<Rightarrow> (unit dtls_result \<times> fragment_buffer \<times> handshake_cache) option" where
  "pop_loop is_client b cache =
     (case fragment_pop b of
        None \<Rightarrow> None
      | Some (r, b') \<Rightarrow>
          (case r of
             Ok (out, epoch) \<Rightarrow>
               (case handshake_unmarshal out of
                  Ok rh \<Rightarrow> pop_loop is_client b' (snd (cache_push out epoch (hh_message_sequence (hs_header rh))
                             (hh_type (hs_header rh)) (\<not> is_client) cache))
                | Err _ \<Rightarrow> pop_loop is_client b' cache
                | Panic \<Rightarrow> Some (Panic, b', cache))
           | Err _ \<Rightarrow> Some (Ok (), b', cache)
           | Panic \<Rightarrow> Some (Panic, b', cache)))"
  by pat_completeness auto
termination
  by (relation "measure (\<lambda>(_, b, _). length (fg_cache b))") (auto dest: fragment_pop_shrinks)

declare pop_loop.simps [simp del]

text \<open>A record that holds handshake messages.\<close>

definition handle_handshake_record :: "u16 \<Rightarrow> conn_reader \<Rightarrow> (incoming_result dtls_result \<times> conn_reader) option" where
  "handle_handshake_record epoch ctx =
     (case detector_accept epoch ctx of
        Ok ctx \<Rightarrow>
          (case pop_loop (cr_is_client ctx) (cr_fragment_buffer ctx) (cr_cache ctx) of
             None \<Rightarrow> None
           | Some (r, b, cache) \<Rightarrow>
               Some (obind r (\<lambda>_. Ok (True, None, None)), ctx\<lparr>cr_fragment_buffer := b, cr_cache := cache\<rparr>))
      | _ \<Rightarrow> Some (Panic, ctx))"

text \<open>Any other record, after decryption.\<close>

definition handle_content :: "decryption \<Rightarrow> u16 \<Rightarrow> bool \<Rightarrow> record_layer_header \<Rightarrow> bytes \<Rightarrow> conn_reader
    \<Rightarrow> incoming_result dtls_result \<times> conn_reader" where
  "handle_content cs epoch enqueue h pkt ctx =
     (case record_layer_unmarshal pkt of
        Panic \<Rightarrow> (Panic, ctx)
      | Err err \<Rightarrow> (Ok (False, Some \<lparr>al_level = AL_Fatal, al_description = DecodeError\<rparr>, Some err), ctx)
      | Ok r \<Rightarrow>
          (case rl_content r of
             C_Alert a \<Rightarrow>
               let a = (if al_description a = CloseNotify then \<lparr>al_level = AL_Warning, al_description = CloseNotify\<rparr> else a)
               in case detector_accept (rl_epoch h) ctx of
                    Ok ctx \<Rightarrow> (Ok (False, Some a, Some ErrOther), ctx)
                  | _ \<Rightarrow> (Panic, ctx)
           | C_ChangeCipherSpec \<Rightarrow>
               if suite_invalid cs then (Ok (False, None, None), enqueue_packet enqueue pkt ctx)
               else if epoch + 1 = rl_epoch h + 1 then
                 case detector_accept (rl_epoch h) (ctx\<lparr>cr_remote_epoch := rl_epoch h + 1\<rparr>) of
                   Ok ctx \<Rightarrow> (Ok (False, None, None), ctx)
                 | _ \<Rightarrow> (Panic, ctx)
               else (Ok (False, None, None), ctx)
           | C_ApplicationData d \<Rightarrow>
               if rl_epoch h = 0 then
                 (Ok (False, Some \<lparr>al_level = AL_Fatal, al_description = UnexpectedMessage\<rparr>, Some ErrApplicationDataEpochZero), ctx)
               else
                 (case detector_accept (rl_epoch h) ctx of
                    Ok ctx \<Rightarrow> (Ok (False, None, None), ctx\<lparr>cr_decrypted := cr_decrypted ctx @ [d]\<rparr>)
                  | _ \<Rightarrow> (Panic, ctx))
           | C_Handshake _ \<Rightarrow>
               (Ok (False, Some \<lparr>al_level = AL_Fatal, al_description = UnexpectedMessage\<rparr>, Some ErrUnhandledContextType), ctx)))"

text \<open>The record after the replay check, with the packet in clear.\<close>

definition handle_plain_record :: "decryption \<Rightarrow> u16 \<Rightarrow> bool \<Rightarrow> record_layer_header \<Rightarrow> bytes \<Rightarrow> conn_reader
    \<Rightarrow> (incoming_result dtls_result \<times> conn_reader) option" where
  "handle_plain_record cs epoch enqueue h pkt ctx =
     (case fragment_push pkt (cr_fragment_buffer ctx) of
        (r, b) \<Rightarrow>
          let ctx = ctx\<lparr>cr_fragment_buffer := b\<rparr> in
          (case r of
             Panic \<Rightarrow> Some (Panic, ctx)
           | Err _ \<Rightarrow> Some (Ok (False, None, None), ctx)
           | Ok True \<Rightarrow> handle_handshake_record (rl_epoch h) ctx
           | Ok False \<Rightarrow> Some (handle_content cs epoch enqueue h pkt ctx)))"

definition handle_incoming_packet :: "decryption \<Rightarrow> bytes \<Rightarrow> bool \<Rightarrow> conn_reader
    \<Rightarrow> (incoming_result dtls_result \<times> conn_reader) option" where
  "handle_incoming_packet cs pkt enqueue ctx =
     (case record_layer_header_unmarshal pkt of
        Panic \<Rightarrow> Some (Panic, ctx)
      | Err _ \<Rightarrow> Some (Ok (False, None, None), ctx)
      | Ok (h, _) \<Rightarrow>
          let epoch = cr_remote_epoch ctx in
          if rl_epoch h > epoch then
            Some (Ok (False, None, None), if rl_epoch h > epoch + 1 then ctx else enqueue_packet enqueue pkt ctx)
          else
            let (ok, ctx) = detector_check (rl_epoch h) (rl_sequence_number h) (extend_detectors (rl_epoch h) ctx) in
            if \<not> ok then Some (Ok (False, None, None), ctx)
            else if rl_epoch h \<noteq> 0 then
              if suite_invalid cs then Some (Ok (False, None, None), enqueue_packet enqueue pkt ctx)
              else
                (case snd (the cs) pkt of
                   Ok pkt \<Rightarrow> handle_plain_record cs epoch enqueue h pkt ctx
                 | Err _ \<Rightarrow> Some (Ok (False, None, None), ctx)
                 | Panic \<Rightarrow> Some (Panic, ctx))
            else handle_plain_record cs epoch enqueue h pkt ctx)"

text \<open>
  What the reader does with the outcome of a record: an alert is queued for sending (which fails when the sending task
  is gone), and a fatal alert or a close notification ends the reader.
\<close>

definition after_packet :: "u16 \<Rightarrow> bool \<Rightarrow> bool \<Rightarrow> alert option \<Rightarrow> dtls_error option \<Rightarrow> conn_reader \<Rightarrow> unit dtls_result \<times> conn_reader" where
  "after_packet local_epoch completed tx_open alert err ctx =
     (case alert of
        None \<Rightarrow> (case err of None \<Rightarrow> Ok () | Some e \<Rightarrow> Err e, ctx)
      | Some a \<Rightarrow>
          let p = \<lparr>dp_record = record_layer_new PROTOCOL_VERSION1_2 local_epoch (C_Alert a), dp_should_encrypt = completed\<rparr>;
              ctx = (if tx_open then ctx\<lparr>cr_alerts := cr_alerts ctx @ [p]\<rparr> else ctx);
              err = (if \<not> tx_open \<and> err = None then Some ErrOther else err)
          in (if al_level a = AL_Fatal \<or> al_description a = CloseNotify then Err ErrAlertFatalOrClose
              else case err of None \<Rightarrow> Ok () | Some e \<Rightarrow> Err e, ctx))"

fun handle_packets :: "decryption \<Rightarrow> u16 \<Rightarrow> bool \<Rightarrow> bool \<Rightarrow> bool \<Rightarrow> bytes list \<Rightarrow> bool \<Rightarrow> conn_reader
    \<Rightarrow> (bool dtls_result \<times> conn_reader) option" where
  "handle_packets cs local_epoch completed tx_open enqueue [] has_handshake ctx = Some (Ok has_handshake, ctx)"
| "handle_packets cs local_epoch completed tx_open enqueue (p # ps) has_handshake ctx =
     (case handle_incoming_packet cs p enqueue ctx of
        None \<Rightarrow> None
      | Some (r, ctx) \<Rightarrow>
          (case r of
             Ok (hs, alert, err) \<Rightarrow>
               (case after_packet local_epoch completed tx_open alert err ctx of
                  (Ok _, ctx) \<Rightarrow> handle_packets cs local_epoch completed tx_open enqueue ps (has_handshake \<or> hs) ctx
                | (Err e, ctx) \<Rightarrow> Some (Err e, ctx)
                | (Panic, ctx) \<Rightarrow> Some (Panic, ctx))
           | Err e \<Rightarrow> Some (Err e, ctx)
           | Panic \<Rightarrow> Some (Panic, ctx)))"

text \<open>
  \<^verbatim>\<open>read_and_buffer\<close> on a datagram; the result says whether the handshaker has to be woken. While that one works, it can
  ask for the queued packets to be handled.
\<close>

definition read_and_buffer :: "decryption \<Rightarrow> u16 \<Rightarrow> bool \<Rightarrow> bool \<Rightarrow> bytes \<Rightarrow> conn_reader \<Rightarrow> (bool dtls_result \<times> conn_reader) option" where
  "read_and_buffer cs local_epoch completed tx_open datagram ctx =
     (case unpack_datagram datagram of
        Ok pkts \<Rightarrow> handle_packets cs local_epoch completed tx_open True pkts False ctx
      | Err e \<Rightarrow> Some (Err e, ctx)
      | Panic \<Rightarrow> Some (Panic, ctx))"

definition handle_queued_packets :: "decryption \<Rightarrow> u16 \<Rightarrow> bool \<Rightarrow> bool \<Rightarrow> conn_reader \<Rightarrow> (bool dtls_result \<times> conn_reader) option" where
  "handle_queued_packets cs local_epoch completed tx_open ctx =
     handle_packets cs local_epoch completed tx_open False (cr_encrypted_packets ctx) False (ctx\<lparr>cr_encrypted_packets := []\<rparr>)"

section \<open>The numbers of outgoing records\<close>

text \<open>The next number of an epoch; epochs without an entry start at zero.\<close>

definition next_number :: "u64 list \<Rightarrow> nat \<Rightarrow> nat" where
  "next_number lsn e = (if e < length lsn then unat (lsn ! e) else 0)"

text \<open>
  A record is sealed by a call of the cipher (or by none, in clear) with a header; its epoch and sequence number are
  what the nonce is made of.
\<close>

type_synonym seal = "bool \<times> record_layer_header \<times> bytes"

definition seals :: "encryption \<Rightarrow> seal \<Rightarrow> bytes \<Rightarrow> bool" where
  "seals enc = (\<lambda>(se, h, raw) p. encrypt_with enc se h raw = Ok p)"

definition nonce :: "seal \<Rightarrow> nat \<times> nat" where
  "nonce = (\<lambda>(_, h, _). (unat (rl_epoch h), unat (rl_sequence_number h)))"

text \<open>From \<open>lsn\<close> to \<open>lsn'\<close> the numbers grow, below a bound, and \<open>cs\<close> uses new numbers only, each once.\<close>

definition numbers_used :: "nat \<Rightarrow> u64 list \<Rightarrow> u64 list \<Rightarrow> seal list \<Rightarrow> bool" where
  "numbers_used B lsn lsn' cs \<longleftrightarrow>
     (\<forall>e. next_number lsn e \<le> next_number lsn' e \<and> next_number lsn' e \<le> B) \<and> distinct (map nonce cs) \<and>
     (\<forall>c \<in> set cs. next_number lsn (fst (nonce c)) \<le> snd (nonce c) \<and> snd (nonce c) < next_number lsn' (fst (nonce c)))"

lemma numbers_used_append:
  assumes "numbers_used B l1 l2 cs" and "numbers_used B' l2 l3 ds"
  shows "numbers_used B' l1 l3 (cs @ ds)"
proof -
  have "nonce c \<noteq> nonce d" if "c \<in> set cs" "d \<in> set ds" for c d
    using assms that by (metis leD numbers_used_def)
  then show ?thesis using assms unfolding numbers_used_def
    by (fastforce intro: order_trans order.strict_trans2 simp: disjoint_iff)
qed

lemma numbers_used_none: "numbers_used B lsn lsn' cs \<Longrightarrow> numbers_used B lsn lsn' []"
  by (simp add: numbers_used_def)

lemma next_number_extend: "next_number (extend_lsn epoch lsn) e = next_number lsn e"
  by (auto simp: next_number_def extend_lsn_def nth_append)

lemma length_extend_lsn: "unat epoch < length (extend_lsn epoch lsn)"
  by (simp add: extend_lsn_def)

lemma next_number_step:
  assumes "unat e < length lsn" and "next_number lsn (unat (e :: u16)) < 2 ^ 64 - 1"
  shows "next_number (lsn[unat e := lsn ! unat e + 1]) x = (if x = unat e then next_number lsn x + 1 else next_number lsn x)"
proof -
  have "unat (lsn ! unat e + 1) = unat (lsn ! unat e) + 1"
    using assms by (subst unat_add_lem [THEN iffD1]) (auto simp: next_number_def)
  then show ?thesis using assms(1) by (auto simp: next_number_def)
qed

lemma one_number_used:
  assumes "unat (rl_epoch h) < length lsn" and "\<forall>e. next_number lsn e \<le> B" and "2 ^ 48 \<le> B" and "B < 2 ^ 64 - 1"
    and "rl_sequence_number h = lsn ! unat (rl_epoch h)"
  shows "lsn ! unat (rl_epoch h) \<le> MAX_SEQUENCE_NUMBER \<Longrightarrow>
      numbers_used B lsn (lsn[unat (rl_epoch h) := lsn ! unat (rl_epoch h) + 1]) [(se, h, raw)]"
    and "numbers_used (B + 1) lsn (lsn[unat (rl_epoch h) := lsn ! unat (rl_epoch h) + 1]) []"
proof -
  have "next_number lsn (unat (rl_epoch h)) < 2 ^ 64 - 1" using assms(2,4) le_less_trans by blast
  note step = next_number_step [OF assms(1) this]
  have "lsn ! unat (rl_epoch h) \<le> MAX_SEQUENCE_NUMBER \<Longrightarrow> unat (lsn ! unat (rl_epoch h)) < 2 ^ 48"
    by (simp add: MAX_SEQUENCE_NUMBER_def word_le_nat_alt)
  then show "lsn ! unat (rl_epoch h) \<le> MAX_SEQUENCE_NUMBER \<Longrightarrow>
      numbers_used B lsn (lsn[unat (rl_epoch h) := lsn ! unat (rl_epoch h) + 1]) [(se, h, raw)]"
    using assms(1,2,3,5) by (auto simp: numbers_used_def step nonce_def) (auto simp: next_number_def)
  show "numbers_used (B + 1) lsn (lsn[unat (rl_epoch h) := lsn ! unat (rl_epoch h) + 1]) []"
    using assms(2) by (auto simp: numbers_used_def step intro: le_SucI)
qed

text \<open>How records are numbered and sealed from \<open>lsn\<close> to \<open>lsn'\<close>, when \<open>r\<close> is the result.\<close>

definition sealed_ok :: "encryption \<Rightarrow> nat \<Rightarrow> u64 list \<Rightarrow> u64 list \<Rightarrow> bytes list dtls_result \<Rightarrow> bool" where
  "sealed_ok enc B lsn lsn' r \<longleftrightarrow>
     (\<exists>cs. numbers_used B lsn lsn' cs \<and> (case r of Ok raws \<Rightarrow> list_all2 (seals enc) cs raws | _ \<Rightarrow> True))"

lemma sealed_okI: "numbers_used B lsn lsn' cs \<Longrightarrow> (\<And>raws. r = Ok raws \<Longrightarrow> list_all2 (seals enc) cs raws) \<Longrightarrow> sealed_ok enc B lsn lsn' r"
  by (auto simp: sealed_ok_def split: outcome.splits)

lemma numbers_used_refl: "\<forall>e. next_number lsn e \<le> B \<Longrightarrow> B \<le> C \<Longrightarrow> numbers_used C lsn lsn []"
  by (auto simp: numbers_used_def intro: order_trans)

lemma numbers_used_weaken: "numbers_used B l l' cs \<Longrightarrow> B \<le> B' \<Longrightarrow> numbers_used B' l l' cs"
  unfolding numbers_used_def by (meson order_trans)

lemma process_fragments_numbers:
  assumes "2 ^ 48 \<le> B" and "B < 2 ^ 64 - 1"
  shows "unat (rl_epoch rh) < length lsn \<Longrightarrow> \<forall>e. next_number lsn e \<le> B \<Longrightarrow>
    process_fragments enc se rh fs lsn = (r, lsn') \<Longrightarrow> sealed_ok enc (B + 1) lsn lsn' r"
proof (induction fs arbitrary: lsn r lsn')
  case Nil
  then show ?case using numbers_used_refl [of lsn B "B + 1"] by (intro sealed_okI [of _ _ _ "[]"]) auto
next
  case (Cons f fs)
  let ?s = "lsn ! unat (rl_epoch rh)"
  let ?l = "lsn[unat (rl_epoch rh) := ?s + 1]" and ?h = "rh\<lparr>rl_content_len := of_nat (length f), rl_sequence_number := ?s\<rparr>"
  have one: "?s \<le> MAX_SEQUENCE_NUMBER \<Longrightarrow> numbers_used B lsn ?l [(se, ?h, raw)]" "numbers_used (B + 1) lsn ?l []" for raw
    using one_number_used [of ?h lsn B] Cons.prems(1,2) assms by auto
  show ?case
  proof (cases "?s \<le> MAX_SEQUENCE_NUMBER")
    case False
    with Cons.prems(3) one(2) show ?thesis by (auto simp: Let_def not_le intro!: sealed_okI [of _ _ _ "[]"])
  next
    case True
    let ?o = "obind (record_layer_header_marshal ?h) (\<lambda>raw. encrypt_with enc se ?h (raw @ f))"
    show ?thesis
    proof (cases ?o)
      case (Ok p)
      then obtain raw where raw: "encrypt_with enc se ?h raw = Ok p" by (auto simp: obind_eq_Ok)
      obtain r2 l2 where rest: "process_fragments enc se rh fs ?l = (r2, l2)" by fastforce
      then have r: "r = obind r2 (\<lambda>ps. Ok (p # ps))" and l2: "l2 = lsn'"
        using Cons.prems(3) leD [OF True] Ok by (cases r2; auto simp: Let_def)+
      have "\<forall>e. next_number ?l e \<le> B" using one(1) [OF True] by (simp add: numbers_used_def)
      from Cons.IH [OF _ this rest [unfolded l2]] Cons.prems(1) obtain cs where cs: "numbers_used (B + 1) ?l lsn' cs"
        "case r2 of Ok raws \<Rightarrow> list_all2 (seals enc) cs raws | _ \<Rightarrow> True" by (auto simp: sealed_ok_def)
      show ?thesis
      proof (rule sealed_okI)
        show "numbers_used (B + 1) lsn lsn' ([(se, ?h, raw)] @ cs)" by (rule numbers_used_append [OF one(1) [OF True] cs(1)])
        show "r = Ok raws \<Longrightarrow> list_all2 (seals enc) ([(se, ?h, raw)] @ cs) raws" for raws
          using r cs(2) raw by (auto simp: obind_eq_Ok seals_def)
      qed
    qed (use Cons.prems(3) leD [OF True] one(2) in \<open>auto simp: Let_def intro!: sealed_okI [of _ _ _ "[]"]\<close>)
  qed
qed

lemma sealed_ok_extend: "sealed_ok enc B (extend_lsn epoch lsn) lsn' r = sealed_ok enc B lsn lsn' r"
  by (simp add: sealed_ok_def numbers_used_def next_number_extend)

lemma process_packet_numbers:
  assumes "2 ^ 48 \<le> B" and "B < 2 ^ 64 - 1" and "\<forall>e. next_number lsn e \<le> B"
    and "process_packet enc se r lsn = (x, lsn')"
  shows "sealed_ok enc (B + 1) lsn lsn' (obind x (\<lambda>raw. Ok [raw]))"
proof -
  let ?x = "extend_lsn (rl_epoch (rl_header r)) lsn"
  let ?s = "?x ! unat (rl_epoch (rl_header r))"
  let ?h = "(rl_header r)\<lparr>rl_sequence_number := ?s\<rparr>"
  let ?l = "?x[unat (rl_epoch (rl_header r)) := ?s + 1]"
  have one: "?s \<le> MAX_SEQUENCE_NUMBER \<Longrightarrow> numbers_used B ?x ?l [(se, ?h, raw)]" "numbers_used (B + 1) ?x ?l []" for raw
    using one_number_used [of ?h ?x B] assms by (auto simp: length_extend_lsn next_number_extend)
  have l: "lsn' = ?l" using assms(4) by (auto simp: process_packet_def Let_def split: if_splits)
  have "sealed_ok enc (B + 1) ?x ?l (obind x (\<lambda>raw. Ok [raw]))"
  proof (cases x)
    case (Ok q)
    then have s: "?s \<le> MAX_SEQUENCE_NUMBER" using assms(4) by (auto simp: process_packet_def Let_def not_less split: if_splits)
    then have "x = obind (record_layer_marshal (r\<lparr>rl_header := ?h\<rparr>)) (encrypt_with enc se ?h)"
      using assms(4) leD [OF s] by (simp add: process_packet_def Let_def)
    with Ok obtain raw where "encrypt_with enc se ?h raw = Ok q" by (auto simp: obind_eq_Ok)
    with one(1) [OF s, THEN numbers_used_weaken] Ok show ?thesis
      by (intro sealed_okI [of _ _ _ "[(se, ?h, raw)]"]) (auto simp: seals_def)
  qed (use one(2) in \<open>auto intro!: sealed_okI [of _ _ _ "[]"]\<close>)
  then show ?thesis by (simp add: l sealed_ok_extend)
qed

lemma outgoing_packet_numbers:
  assumes "2 ^ 48 \<le> B" and "B < 2 ^ 64 - 1" and "\<forall>e. next_number lsn e \<le> B"
    and "outgoing_packet enc is_client mtu p (cache, lsn) = (r, cache', lsn')"
  shows "sealed_ok enc (B + 1) lsn lsn' r"
proof -
  let ?rh = "rl_header (dp_record p)"
  let ?x = "extend_lsn (rl_epoch ?rh) lsn"
  have same: "sealed_ok enc (B + 1) lsn lsn (Err x)" "sealed_ok enc (B + 1) lsn lsn Panic" for x
    using numbers_used_refl [of lsn B "B + 1"] assms(3) by (auto intro!: sealed_okI [of _ _ _ "[]"])
  show ?thesis
  proof (cases "\<exists>h. rl_content (dp_record p) = C_Handshake h")
    case True
    then obtain h where h: "rl_content (dp_record p) = C_Handshake h" by blast
    show ?thesis
    proof (cases "record_layer_marshal (dp_record p)")
      case (Ok raw)
      obtain e where e: "process_handshake_packet enc (dp_should_encrypt p) mtu ?rh h lsn = (r, lsn')"
        using assms(4) h Ok by (auto simp: outgoing_packet_def Let_def split: prod.splits)
      show ?thesis
      proof (cases "fragment_handshake mtu h")
        case (Ok fs)
        with e have "process_fragments enc (dp_should_encrypt p) ?rh fs ?x = (r, lsn')"
          by (simp add: process_handshake_packet_def)
        from process_fragments_numbers [OF assms(1,2) _ _ this] show ?thesis
          using assms(3) by (simp add: length_extend_lsn next_number_extend sealed_ok_extend)
      next
        case (Err x)
        then have "r = Err x" "lsn' = lsn" using e by (simp_all add: process_handshake_packet_def)
        then show ?thesis using same(1) by simp
      next
        case Panic
        then have "r = Panic" "lsn' = lsn" using e by (simp_all add: process_handshake_packet_def)
        then show ?thesis using same(2) by simp
      qed
    qed (use assms(4) h same in \<open>auto simp: outgoing_packet_def\<close>)
  next
    case False
    obtain r1 where r1: "process_packet enc (dp_should_encrypt p) (dp_record p) lsn = (r1, lsn')" "r = obind r1 (\<lambda>raw. Ok [raw])"
      using assms(4) False by (auto simp: outgoing_packet_def Let_def split: content.splits prod.splits)
    from process_packet_numbers [OF assms(1-3) r1(1)] show ?thesis by (simp add: r1(2))
  qed
qed

lemma outgoing_packets_numbers:
  "2 ^ 48 \<le> B \<Longrightarrow> B + length ps < 2 ^ 64 \<Longrightarrow> \<forall>e. next_number lsn e \<le> B \<Longrightarrow>
   outgoing_packets enc is_client mtu ps (cache, lsn) = (r, cache', lsn') \<Longrightarrow> sealed_ok enc (B + length ps) lsn lsn' r"
proof (induction ps arbitrary: B cache lsn r cache' lsn')
  case Nil
  then show ?case using numbers_used_refl [of lsn B B] by (auto intro!: sealed_okI [of _ _ _ "[]"])
next
  case (Cons p ps)
  obtain r1 c1 l1 where 1: "outgoing_packet enc is_client mtu p (cache, lsn) = (r1, c1, l1)" by (metis surj_pair)
  have "sealed_ok enc (B + 1) lsn l1 r1" using outgoing_packet_numbers [OF _ _ _ 1] Cons.prems by simp
  then obtain cs where cs: "numbers_used (B + 1) lsn l1 cs" "case r1 of Ok raws \<Rightarrow> list_all2 (seals enc) cs raws | _ \<Rightarrow> True"
    by (auto simp: sealed_ok_def)
  show ?case
  proof (cases r1)
    case (Ok raw)
    obtain r2 c2 l2 where 2: "outgoing_packets enc is_client mtu ps (c1, l1) = (r2, c2, l2)" by (metis surj_pair)
    then have r: "r = obind r2 (\<lambda>raws. Ok (raw @ raws))" and l2: "l2 = lsn'"
      using Cons.prems(4) 1 Ok by (cases r2; auto)+
    have "\<forall>e. next_number l1 e \<le> B + 1" using cs(1) by (simp add: numbers_used_def)
    from Cons.IH [OF _ _ this 2] Cons.prems obtain ds where ds: "numbers_used (B + 1 + length ps) l1 lsn' ds"
      "case r2 of Ok raws \<Rightarrow> list_all2 (seals enc) ds raws | _ \<Rightarrow> True" by (auto simp: sealed_ok_def l2)
    from numbers_used_append [OF cs(1) ds(1)] show ?thesis
      using cs(2) ds(2) Ok by (intro sealed_okI [of _ _ _ "cs @ ds"]) (auto simp: r obind_eq_Ok intro: list_all2_appendI)
  qed (use Cons.prems(4) 1 cs(1) in \<open>auto intro!: sealed_okI [of _ _ _ "[]"] numbers_used_weaken [OF numbers_used_none]\<close>)
qed

text \<open>
  The sending task on a list of requests, each with the cipher and the socket as they are at its time. The result
  lists the datagrams handed to the socket for each request.
\<close>

type_synonym send_request = "encryption \<times> (bytes \<Rightarrow> unit dtls_result) \<times> dtls_packet list"

fun sender_run :: "bool \<Rightarrow> nat \<Rightarrow> send_request list \<Rightarrow> handshake_cache \<times> u64 list \<Rightarrow> bytes list list" where
  "sender_run is_client mtu [] s = []"
| "sender_run is_client mtu ((enc, send, pkts) # rs) s =
     (let ((_, sent), s) = handle_outgoing_packets enc send is_client mtu pkts s in sent # sender_run is_client mtu rs s)"

text \<open>The datagrams sent are the first of those made from the sealed records.\<close>

definition sent_sealed :: "nat \<Rightarrow> send_request \<Rightarrow> bytes list \<Rightarrow> seal list \<Rightarrow> bool" where
  "sent_sealed mtu = (\<lambda>(enc, _) sent cs.
     sent = [] \<or> (\<exists>raws rest. list_all2 (seals enc) cs raws \<and> sent @ rest = compact_raw_packets raws mtu))"

lemma send_all_prefix: "\<exists>rest. snd (send_all send ds) @ rest = ds"
  by (induction ds) (auto split: outcome.splits prod.splits)

lemma handle_outgoing_numbers:
  assumes "2 ^ 48 \<le> B" and "B + length ps < 2 ^ 64" and "\<forall>e. next_number lsn e \<le> B"
    and "handle_outgoing_packets enc send is_client mtu ps (cache, lsn) = ((r, sent), cache', lsn')"
  shows "\<exists>cs. numbers_used (B + length ps) lsn lsn' cs \<and> sent_sealed mtu (enc, send, ps) sent cs"
proof -
  obtain r1 where 1: "outgoing_packets enc is_client mtu ps (cache, lsn) = (r1, cache', lsn')"
    using assms(4) by (auto simp: handle_outgoing_packets_def split: prod.splits outcome.splits)
  from outgoing_packets_numbers [OF assms(1-3) 1] obtain cs where
    cs: "numbers_used (B + length ps) lsn lsn' cs" "case r1 of Ok raws \<Rightarrow> list_all2 (seals enc) cs raws | _ \<Rightarrow> True"
    by (auto simp: sealed_ok_def)
  have "sent_sealed mtu (enc, send, ps) sent cs"
  proof (cases r1)
    case (Ok raws)
    then have "sent = [] \<or> sent = snd (send_all send (compact_raw_packets raws mtu))"
      using assms(4) 1 by (auto simp: handle_outgoing_packets_def split: if_splits)
    then show ?thesis using cs(2) Ok send_all_prefix [of send "compact_raw_packets raws mtu"] by (auto simp: sent_sealed_def)
  qed (use assms(4) 1 in \<open>auto simp: handle_outgoing_packets_def sent_sealed_def\<close>)
  with cs(1) show ?thesis by blast
qed

lemma sender_run_numbers:
  "2 ^ 48 \<le> B \<Longrightarrow> B + sum_list (map (\<lambda>(_, _, ps). length ps) rs) < 2 ^ 64 \<Longrightarrow> \<forall>e. next_number lsn e \<le> B \<Longrightarrow>
   \<exists>css C lsn'. length css = length rs \<and> (\<forall>i < length rs. sent_sealed mtu (rs ! i) (sender_run is_client mtu rs (cache, lsn) ! i) (css ! i)) \<and>
     numbers_used C lsn lsn' (concat css)"
proof (induction rs arbitrary: B cache lsn)
  case Nil
  then show ?case using numbers_used_refl [of lsn B B] by auto
next
  case (Cons q rs)
  obtain enc send ps where q: "q = (enc, send, ps)" by (metis surj_pair)
  obtain r sent c1 l1 where 1: "handle_outgoing_packets enc send is_client mtu ps (cache, lsn) = ((r, sent), c1, l1)"
    by (metis surj_pair)
  have "B + length ps < 2 ^ 64" using Cons.prems(2) q by simp
  from handle_outgoing_numbers [OF Cons.prems(1) this Cons.prems(3) 1] obtain cs where
    cs: "numbers_used (B + length ps) lsn l1 cs" "sent_sealed mtu q sent cs" unfolding q by blast
  have "\<forall>e. next_number l1 e \<le> B + length ps" using cs(1) by (simp add: numbers_used_def)
  from Cons.IH [OF _ _ this, of c1] Cons.prems(1,2) q obtain css C l2 where css: "length css = length rs"
    "\<forall>i < length rs. sent_sealed mtu (rs ! i) (sender_run is_client mtu rs (c1, l1) ! i) (css ! i)"
    "numbers_used C l1 l2 (concat css)" by (auto simp: add.assoc)
  have "sender_run is_client mtu (q # rs) (cache, lsn) = sent # sender_run is_client mtu rs (c1, l1)" by (simp add: q 1)
  then show ?case using css cs(2) numbers_used_append [OF cs(1) css(3)]
    by (intro exI [of _ "cs # css"] exI [of _ C] exI [of _ l2]) (auto simp: nth_Cons split: nat.splits)
qed



end
