(* ===== verification/Dtls_Receive.thy ===== *)
theory Dtls_Receive
  imports Dtls_Conn
begin

text \<open>
  What the reader of a DTLS connection guarantees for the records it takes (\<^verbatim>\<open>handle_incoming_packet\<close> in
  \<^verbatim>\<open>crates/dtls/conn/mod.rs\<close>): application data is authentic and taken once.
\<close>

section \<open>Runs of the reader\<close>

text \<open>
  The calls of \<^verbatim>\<open>handle_incoming_packet\<close>, for packets from datagrams and for queued ones, each with the cipher suite
  of its time. The run lists for each call the packet and the application data it delivered, and ends with a call
  that panics or does not return.
\<close>

type_synonym reader_call = "decryption \<times> bytes \<times> bool"

fun reader_run :: "reader_call list \<Rightarrow> conn_reader \<Rightarrow> bytes list list" where
  "reader_run [] ctx = []"
| "reader_run ((cs, pkt, enqueue) # calls) ctx =
     (case handle_incoming_packet cs pkt enqueue ctx of
        Some (Ok _, ctx') \<Rightarrow> drop (length (cr_decrypted ctx)) (cr_decrypted ctx') # reader_run calls ctx'
      | _ \<Rightarrow> [])"

text \<open>Epoch and sequence number in the header of a packet.\<close>

definition record_number :: "bytes \<Rightarrow> nat \<times> nat" where
  "record_number pkt =
     (case record_layer_header_unmarshal pkt of
        Ok (h, _) \<Rightarrow> (unat (rl_epoch h), unat (rl_sequence_number h))
      | _ \<Rightarrow> (0, 0))"

text \<open>The packet decrypts, under an initialised cipher suite, to a record with the application data.\<close>

definition authentic_data :: "decryption \<Rightarrow> bytes \<Rightarrow> bytes list \<Rightarrow> bool" where
  "authentic_data cs pkt ds \<longleftrightarrow>
     (\<exists>dec plain r d. cs = Some (True, dec) \<and> dec pkt = Ok plain \<and> record_layer_unmarshal plain = Ok r \<and>
        rl_content r = C_ApplicationData d \<and> ds = [d])"

section \<open>The detectors\<close>

text \<open>The detectors represent the numbers taken so far, per epoch.\<close>

definition window_ok :: "nat \<Rightarrow> bool" where
  "window_ok w \<longleftrightarrow> 0 < w \<and> w \<le> unat MAX_SEQUENCE_NUMBER \<and> w mod 64 \<le> 32"

definition detectors_ok :: "nat \<Rightarrow> conn_reader \<Rightarrow> (nat \<Rightarrow> nat set) \<Rightarrow> bool" where
  "detectors_ok w ctx S \<longleftrightarrow> cr_window ctx = w \<and>
     (\<forall>e. if e < length (cr_replay_detector ctx) then represents w MAX_SEQUENCE_NUMBER (cr_replay_detector ctx ! e) (S e)
          else S e = {})"

lemma window_sum: "window_ok w \<Longrightarrow> w + unat MAX_SEQUENCE_NUMBER < 2 ^ 64"
  by (simp add: window_ok_def MAX_SEQUENCE_NUMBER_def)

lemma detectors_new: "window_ok w \<Longrightarrow> detectors_ok w (conn_reader_new c w) (\<lambda>_. {})"
  by (simp add: detectors_ok_def conn_reader_new_def)

lemma detectors_extend:
  "detectors_ok w ctx S \<Longrightarrow> window_ok w \<Longrightarrow> detectors_ok w (extend_detectors e ctx) S \<and> unat e < length (cr_replay_detector (extend_detectors e ctx))"
  by (auto simp: detectors_ok_def extend_detectors_def nth_append window_ok_def intro: represents_new split: if_splits)

lemma detectors_update [simp]:
  "detectors_ok w (ctx\<lparr>cr_decrypted := x\<rparr>) S = detectors_ok w ctx S"
  "detectors_ok w (ctx\<lparr>cr_fragment_buffer := f\<rparr>) S = detectors_ok w ctx S"
  "detectors_ok w (ctx\<lparr>cr_cache := k\<rparr>) S = detectors_ok w ctx S"
  "detectors_ok w (ctx\<lparr>cr_remote_epoch := e\<rparr>) S = detectors_ok w ctx S"
  by (simp_all add: detectors_ok_def)

text \<open>After the check of a number that passes, the detector is ready to take it.\<close>

definition pending_number :: "nat \<Rightarrow> conn_reader \<Rightarrow> (nat \<Rightarrow> nat set) \<Rightarrow> u16 \<Rightarrow> u64 \<Rightarrow> bool" where
  "pending_number w ctx S e s \<longleftrightarrow>
     (let d = cr_replay_detector ctx ! unat e in
      detectors_ok w ctx S \<and> unat e < length (cr_replay_detector ctx) \<and> sw_accepted d \<and> sw_seq d = s \<and>
      takes w (unat MAX_SEQUENCE_NUMBER) (S (unat e)) (unat s, True))"

lemma detector_check_ok:
  assumes "detectors_ok w ctx S" and "window_ok w" and "unat e < length (cr_replay_detector ctx)"
    and "detector_check e s ctx = (ok, ctx')"
  shows "detectors_ok w ctx' S \<and> cr_decrypted ctx' = cr_decrypted ctx \<and> (ok \<longrightarrow> pending_number w ctx' S e s)"
proof -
  let ?d = "cr_replay_detector ctx ! unat e"
  have rep: "represents w MAX_SEQUENCE_NUMBER ?d (S (unat e))" using assms(1,3) by (auto simp: detectors_ok_def split: if_splits)
  obtain d where d: "sw_check s ?d = (ok, d)" "ctx' = ctx\<lparr>cr_replay_detector := (cr_replay_detector ctx)[unat e := d]\<rparr>"
    using assms(4) by (auto simp: detector_check_def Let_def split: prod.splits)
  have t: "ok = takes w (unat MAX_SEQUENCE_NUMBER) (S (unat e)) (unat s, True)"
    using sw_check_takes [OF rep window_sum [OF assms(2)], of s] d(1) by simp
  have r: "represents w MAX_SEQUENCE_NUMBER d (S (unat e))" "ok \<longrightarrow> sw_accepted d \<and> sw_seq d = s"
    using d(1) rep by (auto simp: sw_check_def Let_def represents_flags split: if_splits)
  have "detectors_ok w ctx' S" using assms(1,3) r(1) by (auto simp: detectors_ok_def d(2) nth_list_update)
  with t r(2) assms(3) show ?thesis by (auto simp: pending_number_def d(2))
qed

lemma detector_accept_ok:
  assumes "pending_number w ctx S e s" and "window_ok w"
  shows "\<exists>ctx'. detector_accept e ctx = Ok ctx' \<and> cr_decrypted ctx' = cr_decrypted ctx \<and>
    detectors_ok w ctx' (S(unat e := insert (unat s) (S (unat e))))"
proof -
  let ?d = "cr_replay_detector ctx ! unat e"
  have p: "detectors_ok w ctx S" "unat e < length (cr_replay_detector ctx)" "sw_accepted ?d" "sw_seq ?d = s"
    "takes w (unat MAX_SEQUENCE_NUMBER) (S (unat e)) (unat s, True)"
    using assms(1) by (simp_all add: pending_number_def Let_def)
  have rep: "represents w MAX_SEQUENCE_NUMBER ?d (S (unat e))" using p(1,2) by (auto simp: detectors_ok_def split: if_splits)
  from sw_accept_represents [OF rep _ p(3)] p(4,5) assms(2) obtain d where
    "sw_accept ?d = Ok d" "represents w MAX_SEQUENCE_NUMBER d (insert (unat s) (S (unat e)))"
    by (auto simp: window_ok_def)
  with p(1,2) show ?thesis by (auto simp: detector_accept_def detectors_ok_def nth_list_update)
qed

text \<open>A step of the reader takes numbers, and what it delivers satisfies \<open>P\<close>.\<close>

definition reader_step_ok :: "nat \<Rightarrow> (nat \<Rightarrow> nat set) \<Rightarrow> conn_reader \<Rightarrow> conn_reader \<Rightarrow> ((nat \<Rightarrow> nat set) \<Rightarrow> bytes list \<Rightarrow> bool) \<Rightarrow> bool" where
  "reader_step_ok w S ctx ctx' P \<longleftrightarrow>
     (\<exists>S' ds. detectors_ok w ctx' S' \<and> (\<forall>e. S e \<subseteq> S' e) \<and> cr_decrypted ctx' = cr_decrypted ctx @ ds \<and> (ds \<noteq> [] \<longrightarrow> P S' ds))"

lemma reader_step_idle:
  "detectors_ok w ctx' S \<Longrightarrow> cr_decrypted ctx' = cr_decrypted ctx \<Longrightarrow> reader_step_ok w S ctx ctx' P"
  by (auto simp: reader_step_ok_def)

lemma reader_step_takes:
  "detectors_ok w ctx' (S(e := insert s (S e))) \<Longrightarrow> cr_decrypted ctx' = cr_decrypted ctx \<Longrightarrow> reader_step_ok w S ctx ctx' P"
  unfolding reader_step_ok_def by (intro exI [of _ "S(e := insert s (S e))"] exI [of _ "[]"]) auto

lemma reader_step_from:
  "reader_step_ok w S c ctx' P \<Longrightarrow> cr_decrypted c = cr_decrypted ctx \<Longrightarrow> (\<And>S' ds. ds \<noteq> [] \<Longrightarrow> P S' ds \<Longrightarrow> Q S' ds) \<Longrightarrow> reader_step_ok w S ctx ctx' Q"
  unfolding reader_step_ok_def by (metis (no_types))

lemma pending_update:
  "cr_replay_detector c = cr_replay_detector ctx \<Longrightarrow> cr_window c = cr_window ctx \<Longrightarrow> pending_number w c S e s = pending_number w ctx S e s"
  by (simp add: pending_number_def detectors_ok_def)

lemma enqueue_packet_keeps:
  "detectors_ok w (enqueue_packet q pkt ctx) S = detectors_ok w ctx S" "cr_decrypted (enqueue_packet q pkt ctx) = cr_decrypted ctx"
  by (simp_all add: enqueue_packet_def detectors_ok_def)

definition taken_data :: "(nat \<Rightarrow> nat set) \<Rightarrow> record_layer_header \<Rightarrow> bytes \<Rightarrow> (nat \<Rightarrow> nat set) \<Rightarrow> bytes list \<Rightarrow> bool" where
  "taken_data S h pkt S' ds \<longleftrightarrow> rl_epoch h \<noteq> 0 \<and> unat (rl_sequence_number h) \<notin> S (unat (rl_epoch h)) \<and>
     unat (rl_sequence_number h) \<in> S' (unat (rl_epoch h)) \<and>
     (\<exists>r d. record_layer_unmarshal pkt = Ok r \<and> rl_content r = C_ApplicationData d \<and> ds = [d])"

lemma handle_content_safe:
  assumes "pending_number w ctx S (rl_epoch h) (rl_sequence_number h)" and "window_ok w"
    and "handle_content cs epoch enqueue h pkt ctx = (Ok res, ctx')"
  shows "reader_step_ok w S ctx ctx' (taken_data S h pkt)"
proof (cases "record_layer_unmarshal pkt")
  case (Ok r)
  have d: "detectors_ok w ctx S" "unat (rl_sequence_number h) \<notin> S (unat (rl_epoch h))"
    using assms(1) by (auto simp: pending_number_def Let_def takes_def)
  from detector_accept_ok [OF assms(1,2)] obtain c where
    c: "detector_accept (rl_epoch h) ctx = Ok c" "cr_decrypted c = cr_decrypted ctx"
      "detectors_ok w c (S(unat (rl_epoch h) := insert (unat (rl_sequence_number h)) (S (unat (rl_epoch h)))))" by blast
  have "pending_number w (ctx\<lparr>cr_remote_epoch := rl_epoch h + 1\<rparr>) S (rl_epoch h) (rl_sequence_number h)"
    using assms(1) by (subst pending_update [where ctx = ctx]) simp_all
  from detector_accept_ok [OF this assms(2)] obtain c' where
    c': "detector_accept (rl_epoch h) (ctx\<lparr>cr_remote_epoch := rl_epoch h + 1\<rparr>) = Ok c'" "cr_decrypted c' = cr_decrypted ctx"
      "detectors_ok w c' (S(unat (rl_epoch h) := insert (unat (rl_sequence_number h)) (S (unat (rl_epoch h)))))" by auto
  show ?thesis
  proof (cases "rl_content r")
    case C_ChangeCipherSpec
    with assms(3) Ok c' d(1) show ?thesis
      by (auto simp: handle_content_def enqueue_packet_keeps intro: reader_step_idle reader_step_takes split: if_splits)
  next
    case (C_ApplicationData x)
    show ?thesis
    proof (cases "rl_epoch h = 0")
      case False
      then have "ctx' = c\<lparr>cr_decrypted := cr_decrypted c @ [x]\<rparr>" using assms(3) Ok c(1) C_ApplicationData by (simp add: handle_content_def)
      with c(2,3) d(2) Ok C_ApplicationData False show ?thesis
        unfolding reader_step_ok_def taken_data_def
        by (intro exI [of _ "S(unat (rl_epoch h) := insert (unat (rl_sequence_number h)) (S (unat (rl_epoch h))))"] exI [of _ "[x]"])
          auto
    qed (use assms(3) Ok C_ApplicationData d(1) in \<open>auto simp: handle_content_def intro: reader_step_idle\<close>)
  qed (use assms(3) Ok c d(1) in \<open>auto simp: handle_content_def Let_def intro: reader_step_idle reader_step_takes\<close>)
qed (use assms in \<open>auto simp: handle_content_def pending_number_def Let_def intro: reader_step_idle\<close>)

lemma handle_handshake_record_safe:
  assumes "pending_number w ctx S e s" and "window_ok w" and "handle_handshake_record e ctx = Some (Ok res, ctx')"
  shows "reader_step_ok w S ctx ctx' P"
proof -
  from detector_accept_ok [OF assms(1,2)] obtain c where
    "detector_accept e ctx = Ok c" "cr_decrypted c = cr_decrypted ctx" "detectors_ok w c (S(unat e := insert (unat s) (S (unat e))))"
    by blast
  with assms(3) show ?thesis
    by (auto simp: handle_handshake_record_def intro!: reader_step_takes [of _ _ _ "unat e" "unat s"] split: option.splits prod.splits)
qed

lemma handle_plain_record_safe:
  assumes "pending_number w ctx S (rl_epoch h) (rl_sequence_number h)" and "window_ok w"
    and "handle_plain_record cs epoch enqueue h pkt ctx = Some (Ok res, ctx')"
  shows "reader_step_ok w S ctx ctx' (taken_data S h pkt)"
proof -
  obtain r b where r: "fragment_push pkt (cr_fragment_buffer ctx) = (r, b)" by fastforce
  let ?c = "ctx\<lparr>cr_fragment_buffer := b\<rparr>"
  have p: "pending_number w ?c S (rl_epoch h) (rl_sequence_number h)"
    using assms(1) by (subst pending_update [where ctx = ctx]) simp_all
  have d: "detectors_ok w ?c S" using p by (simp add: pending_number_def Let_def)
  show ?thesis
  proof (cases r)
    case (Ok hs)
    show ?thesis
    proof (cases hs)
      case True
      with Ok r assms(3) have "handle_handshake_record (rl_epoch h) ?c = Some (Ok res, ctx')"
        by (simp add: handle_plain_record_def)
      from handle_handshake_record_safe [OF p assms(2) this, of "taken_data S h pkt"] show ?thesis by (rule reader_step_from) auto
    next
      case False
      with Ok r assms(3) have "handle_content cs epoch enqueue h pkt ?c = (Ok res, ctx')"
        by (simp add: handle_plain_record_def)
      from handle_content_safe [OF p assms(2) this] show ?thesis by (rule reader_step_from) auto
    qed
  qed (use r assms(3) d in \<open>auto simp: handle_plain_record_def intro: reader_step_idle\<close>)
qed

lemma handle_incoming_packet_safe:
  assumes "detectors_ok w ctx S" and "window_ok w" and "handle_incoming_packet cs pkt enqueue ctx = Some (Ok res, ctx')"
  shows "reader_step_ok w S ctx ctx' (\<lambda>S' ds. authentic_data cs pkt ds \<and> fst (record_number pkt) \<noteq> 0 \<and>
    snd (record_number pkt) \<notin> S (fst (record_number pkt)) \<and> snd (record_number pkt) \<in> S' (fst (record_number pkt)))"
    (is "reader_step_ok w S ctx ctx' ?P")
proof (cases "record_layer_header_unmarshal pkt")
  case (Ok hr)
  obtain h rest where h: "hr = (h, rest)" by fastforce
  have rn: "record_number pkt = (unat (rl_epoch h), unat (rl_sequence_number h))" using Ok h by (simp add: record_number_def)
  let ?x = "extend_detectors (rl_epoch h) ctx"
  obtain ok c where c: "detector_check (rl_epoch h) (rl_sequence_number h) ?x = (ok, c)" by fastforce
  have x: "detectors_ok w ?x S" "unat (rl_epoch h) < length (cr_replay_detector ?x)" "cr_decrypted ?x = cr_decrypted ctx"
    using detectors_extend [OF assms(1,2)] by (auto simp: extend_detectors_def)
  from detector_check_ok [OF x(1) assms(2) x(2) c] x(3) have
    ck: "detectors_ok w c S" "cr_decrypted c = cr_decrypted ctx" "ok \<Longrightarrow> pending_number w c S (rl_epoch h) (rl_sequence_number h)" by auto
  show ?thesis
  proof (cases "rl_epoch h > cr_remote_epoch ctx")
    case True
    with assms(1,3) Ok h show ?thesis
      by (auto simp: handle_incoming_packet_def Let_def enqueue_packet_keeps intro!: reader_step_idle split: if_splits)
  next
    case epoch: False
    show ?thesis
    proof (cases "ok \<and> (rl_epoch h = 0 \<or> \<not> suite_invalid cs)")
      case False
      with assms(3) Ok h c epoch ck(1,2) show ?thesis
        by (auto simp: handle_incoming_packet_def Let_def enqueue_packet_keeps intro!: reader_step_idle split: if_splits)
    next
      case True
      show ?thesis
      proof (cases "rl_epoch h = 0")
        case True: True
        with assms(3) Ok h c epoch \<open>ok \<and> _\<close> have "handle_plain_record cs (cr_remote_epoch ctx) enqueue h pkt c = Some (Ok res, ctx')"
          by (auto simp: handle_incoming_packet_def Let_def)
        from handle_plain_record_safe [OF _ assms(2) this] ck(3) \<open>ok \<and> _\<close> have
          "reader_step_ok w S c ctx' (taken_data S h pkt)" by blast
        then show ?thesis by (rule reader_step_from [OF _ ck(2)]) (simp add: taken_data_def True)
      next
        case False
        with True have cs: "ok" "\<not> suite_invalid cs" by auto
        then obtain dec where dec: "cs = Some (True, dec)" by (auto simp: suite_invalid_def split: option.splits)
        show ?thesis
        proof (cases "dec pkt")
          case (Ok plain)
          with assms(3) \<open>record_layer_header_unmarshal pkt = Ok hr\<close> h c epoch cs dec False
          have "handle_plain_record cs (cr_remote_epoch ctx) enqueue h plain c = Some (Ok res, ctx')"
            by (auto simp: handle_incoming_packet_def Let_def)
          from handle_plain_record_safe [OF ck(3) [OF cs(1)] assms(2) this] show ?thesis
            by (rule reader_step_from [OF _ ck(2)]) (use dec Ok in \<open>auto simp: taken_data_def rn authentic_data_def unat_eq_0\<close>)
        qed (use assms(3) Ok h c epoch cs dec False ck(1,2) in
            \<open>auto simp: handle_incoming_packet_def Let_def intro!: reader_step_idle\<close>)
      qed
    qed
  qed
qed (use assms in \<open>auto simp: handle_incoming_packet_def intro: reader_step_idle\<close>)

section \<open>Application data is authentic and taken once\<close>

text \<open>What call \<open>i\<close> of a run delivers, given the numbers taken before the run.\<close>

definition delivery_ok :: "(nat \<Rightarrow> nat set) \<Rightarrow> reader_call list \<Rightarrow> bytes list list \<Rightarrow> bool" where
  "delivery_ok S calls rs \<longleftrightarrow>
     (\<forall>i < length rs. rs ! i \<noteq> [] \<longrightarrow>
        (case calls ! i of (cs, pkt, _) \<Rightarrow> authentic_data cs pkt (rs ! i) \<and> fst (record_number pkt) \<noteq> 0 \<and>
           snd (record_number pkt) \<notin> S (fst (record_number pkt)))) \<and>
     (\<forall>i j. i < j \<longrightarrow> j < length rs \<longrightarrow> rs ! i \<noteq> [] \<longrightarrow> rs ! j \<noteq> [] \<longrightarrow>
        record_number (fst (snd (calls ! i))) \<noteq> record_number (fst (snd (calls ! j))))"

lemma delivery_ok_Cons:
  assumes "delivery_ok S' calls rs" and "\<forall>e. S e \<subseteq> S' e"
    and "ds \<noteq> [] \<Longrightarrow> authentic_data cs pkt ds \<and> fst (record_number pkt) \<noteq> 0 \<and>
      snd (record_number pkt) \<notin> S (fst (record_number pkt)) \<and> snd (record_number pkt) \<in> S' (fst (record_number pkt))"
  shows "delivery_ok S ((cs, pkt, q) # calls) (ds # rs)"
  unfolding delivery_ok_def
proof (intro conjI allI impI)
  fix i assume "i < length (ds # rs)" "(ds # rs) ! i \<noteq> []"
  then show "case ((cs, pkt, q) # calls) ! i of (cs, pkt, _) \<Rightarrow> authentic_data cs pkt ((ds # rs) ! i) \<and>
      fst (record_number pkt) \<noteq> 0 \<and> snd (record_number pkt) \<notin> S (fst (record_number pkt))"
    using assms by (cases i) (fastforce simp: delivery_ok_def)+
next
  fix i j assume ij: "i < j" "j < length (ds # rs)" "(ds # rs) ! i \<noteq> []" "(ds # rs) ! j \<noteq> []"
  then obtain k where k: "j = Suc k" "k < length rs" "rs ! k \<noteq> []" by (cases j) auto
  obtain cs' pkt' q' where c: "calls ! k = (cs', pkt', q')" by (metis surj_pair)
  have new: "snd (record_number pkt') \<notin> S' (fst (record_number pkt'))"
    using assms(1) k(2,3) c by (fastforce simp: delivery_ok_def)
  show "record_number (fst (snd (((cs, pkt, q) # calls) ! i))) \<noteq> record_number (fst (snd (((cs, pkt, q) # calls) ! j)))"
  proof (cases i)
    case 0
    with ij(3) assms(3) new k(1) c show ?thesis by auto
  next
    case (Suc m)
    with ij k assms(1) show ?thesis by (simp add: delivery_ok_def)
  qed
qed

lemma reader_run_ok:
  assumes "window_ok w"
  shows "detectors_ok w ctx S \<Longrightarrow> delivery_ok S calls (reader_run calls ctx)"
proof (induction calls arbitrary: ctx S)
  case (Cons c calls)
  obtain cs pkt q where c: "c = (cs, pkt, q)" by (metis surj_pair)
  show ?case
  proof (cases "\<exists>res ctx'. handle_incoming_packet cs pkt q ctx = Some (Ok res, ctx')")
    case True
    then obtain res ctx' where h: "handle_incoming_packet cs pkt q ctx = Some (Ok res, ctx')" by blast
    from handle_incoming_packet_safe [OF Cons.prems assms h] obtain S' ds where s: "detectors_ok w ctx' S'" "\<forall>e. S e \<subseteq> S' e"
      "cr_decrypted ctx' = cr_decrypted ctx @ ds" "ds \<noteq> [] \<Longrightarrow> authentic_data cs pkt ds \<and> fst (record_number pkt) \<noteq> 0 \<and>
      snd (record_number pkt) \<notin> S (fst (record_number pkt)) \<and> snd (record_number pkt) \<in> S' (fst (record_number pkt))"
      unfolding reader_step_ok_def by blast
    from delivery_ok_Cons [OF Cons.IH [OF s(1)] s(2,4)] show ?thesis by (simp add: c h s(3))
  next
    case False
    then have "reader_run (c # calls) ctx = []"
      by (simp add: c split: option.splits prod.splits outcome.splits)
    then show ?thesis by (simp add: delivery_ok_def)
  qed
qed (simp add: delivery_ok_def)

text \<open>
  C22. Application data is authentic and delivered once. Whatever packets reach the reader of a new connection, in
  whatever order and however often, queued or not, and however the cipher suite changes: data delivered by a
  call is the content of a record that an initialised cipher suite decrypted, never of epoch zero, and no two calls
  deliver data under the same epoch and sequence number.
\<close>

theorem application_data_once:
  assumes "window_ok w"
  shows "let rs = reader_run calls (conn_reader_new is_client w) in
    (\<forall>i < length rs. rs ! i \<noteq> [] \<longrightarrow>
       (case calls ! i of (cs, pkt, _) \<Rightarrow> authentic_data cs pkt (rs ! i) \<and> fst (record_number pkt) \<noteq> 0)) \<and>
    (\<forall>i j. i < j \<longrightarrow> j < length rs \<longrightarrow> rs ! i \<noteq> [] \<longrightarrow> rs ! j \<noteq> [] \<longrightarrow>
       record_number (fst (snd (calls ! i))) \<noteq> record_number (fst (snd (calls ! j))))"
  using reader_run_ok [OF assms detectors_new [OF assms], of calls is_client]
  unfolding delivery_ok_def Let_def by (auto split: prod.splits)

text \<open>
  Conversely a record is delivered when it decrypts to application data and its number is new, within the window and of
  an epoch that has begun.
\<close>

lemma fresh_data_delivered:
  assumes "detectors_ok w ctx S" and "window_ok w" and "record_layer_header_unmarshal pkt = Ok (h, rest)"
    and "rl_epoch h \<noteq> 0" and "rl_epoch h \<le> cr_remote_epoch ctx"
    and "takes w (unat MAX_SEQUENCE_NUMBER) (S (unat (rl_epoch h))) (unat (rl_sequence_number h), True)"
    and "dec pkt = Ok plain" and "record_layer_unmarshal plain = Ok r" and "rl_content r = C_ApplicationData d"
  shows "\<exists>ctx'. handle_incoming_packet (Some (True, dec)) pkt enqueue ctx = Some (Ok (False, None, None), ctx') \<and>
    cr_decrypted ctx' = cr_decrypted ctx @ [d]"
proof -
  let ?x = "extend_detectors (rl_epoch h) ctx"
  obtain ok c where c: "detector_check (rl_epoch h) (rl_sequence_number h) ?x = (ok, c)" by fastforce
  have x: "detectors_ok w ?x S" "unat (rl_epoch h) < length (cr_replay_detector ?x)" "cr_decrypted ?x = cr_decrypted ctx"
    using detectors_extend [OF assms(1,2)] by (auto simp: extend_detectors_def)
  have "represents w MAX_SEQUENCE_NUMBER (cr_replay_detector ?x ! unat (rl_epoch h)) (S (unat (rl_epoch h)))"
    using x(1,2) by (auto simp: detectors_ok_def split: if_splits)
  from sw_check_takes [OF this window_sum [OF assms(2)], of "rl_sequence_number h"] c assms(6)
  have ok: ok by (auto simp: detector_check_def Let_def split: prod.splits)
  from detector_check_ok [OF x(1) assms(2) x(2) c] ok x(3) have
    p: "pending_number w c S (rl_epoch h) (rl_sequence_number h)" "cr_decrypted c = cr_decrypted ctx" by auto
  obtain hd rd where hd: "record_layer_header_unmarshal plain = Ok (hd, rd)"
    using assms(8) by (auto simp: record_layer_unmarshal_def obind_eq_Ok)
  moreover have "rl_content_type hd = CT_ApplicationData"
    using assms(8,9) hd by (cases "rl_content_type hd")
      (auto simp: record_layer_unmarshal_def obind_eq_Ok change_cipher_spec_unmarshal_def split: if_splits)
  ultimately have push: "fragment_push plain b = (Ok False, b)" for b by (simp add: fragment_push_def)
  from detector_accept_ok [OF p(1) assms(2)] obtain c' where
    "detector_accept (rl_epoch h) c = Ok c'" "cr_decrypted c' = cr_decrypted ctx" using p(2) by auto
  with assms ok c push show ?thesis
    by (auto simp: handle_incoming_packet_def suite_invalid_def handle_plain_record_def handle_content_def Let_def not_less)
qed

theorem application_data_once_witness:
  "let ccs = [20, 0xfe, 0xfd, 0, 0, 0, 0, 0, 0, 0, 0, 0, 1, 1];
       pkt = [23, 0xfe, 0xfd, 0, 1, 0, 0, 0, 0, 0, 7, 0, 2, 1, 2];
       cs = Some (True, Ok);
       rs = reader_run [(cs, ccs, True), (cs, pkt, True), (cs, pkt, True)] (conn_reader_new True 64)
   in length rs = 3 \<and> rs ! 1 = [[1, 2]] \<and> rs ! 2 = []"
proof -
  let ?ccs = "[20, 0xfe, 0xfd, 0, 0, 0, 0, 0, 0, 0, 0, 0, 1, 1] :: bytes"
  let ?pkt = "[23, 0xfe, 0xfd, 0, 1, 0, 0, 0, 0, 0, 7, 0, 2, 1, 2] :: bytes"
  let ?cs = "Some (True, Ok) :: decryption"
  let ?calls = "[(?cs, ?ccs, True), (?cs, ?pkt, True), (?cs, ?pkt, True)]"
  let ?rs = "reader_run ?calls (conn_reader_new True 64)"
  let ?v = "\<lparr>pv_major = 0xfe, pv_minor = 0xfd\<rparr>"
  have h: "record_layer_header_unmarshal ?ccs =
      Ok (\<lparr>rl_content_type = CT_ChangeCipherSpec, rl_protocol_version = ?v, rl_epoch = 0, rl_sequence_number = 0, rl_content_len = 1\<rparr>, [1])"
    "record_layer_header_unmarshal ?pkt =
      Ok (\<lparr>rl_content_type = CT_ApplicationData, rl_protocol_version = ?v, rl_epoch = 1, rl_sequence_number = 7, rl_content_len = 2\<rparr>, [1, 2])"
    by (simp_all add: record_layer_header_unmarshal_def rd_def get_version_def PROTOCOL_VERSION1_0_def PROTOCOL_VERSION1_2_def content_type_from_def)
  have p: "fragment_push ?ccs b = (Ok False, b)" "fragment_push ?pkt b = (Ok False, b)" for b
    by (simp_all add: fragment_push_def h)
  have r: "\<exists>h. record_layer_unmarshal ?ccs = Ok \<lparr>rl_header = h, rl_content = C_ChangeCipherSpec\<rparr>"
    "\<exists>h. record_layer_unmarshal ?pkt = Ok \<lparr>rl_header = h, rl_content = C_ApplicationData [1, 2]\<rparr>"
    by (simp_all add: record_layer_unmarshal_def h change_cipher_spec_unmarshal_def rd_def)
  note eval = handle_incoming_packet_def h suite_invalid_def handle_plain_record_def p handle_content_def extend_detectors_def
    detector_check_def detector_accept_def sw_check_def sw_accept_def sliding_window_detector_new_def fixed_big_int_new_def
    fb_bit_def lsh_def set_bit_at_def lsh_step_def lsh_word_def MAX_SEQUENCE_NUMBER_def Let_def
  have v: "length ?rs = 3" "?rs ! 1 = [[1, 2]]"
    using r by (auto simp: eval conn_reader_new_def)
  have "window_ok 64" by (simp add: window_ok_def MAX_SEQUENCE_NUMBER_def)
  from application_data_once [OF this, of ?calls True] have "\<forall>i j. i < j \<longrightarrow> j < length ?rs \<longrightarrow> ?rs ! i \<noteq> [] \<longrightarrow> ?rs ! j \<noteq> [] \<longrightarrow>
      record_number (fst (snd (?calls ! i))) \<noteq> record_number (fst (snd (?calls ! j)))" unfolding Let_def by (rule conjunct2)
  from this [rule_format, of 1 2] v have "?rs ! 2 = []" by (auto simp del: reader_run.simps)
  with v show ?thesis unfolding Let_def by blast
qed

section \<open>Records of epoch zero after the handshake\<close>

text \<open>
  Records of epoch zero carry no authentication, and the reader goes on taking them after the handshake: an alert in
  clear with a number that is new in epoch zero ends the reader of an established connection.
\<close>

definition clear_alert :: "u64 \<Rightarrow> bytes" where
  "clear_alert s = [21, 0xfe, 0xfd, 0, 0] @ put_u48 s @ [0, 2, 1, 0]"

lemma clear_alert_closes:
  assumes "detectors_ok w ctx S" and "window_ok w" and "takes w (unat MAX_SEQUENCE_NUMBER) (S 0) (unat s, True)"
  shows "\<exists>ctx'. read_and_buffer cs local_epoch completed tx_open (clear_alert s) ctx = Some (Err ErrAlertFatalOrClose, ctx')"
proof -
  let ?h = "\<lparr>rl_content_type = CT_Alert, rl_protocol_version = PROTOCOL_VERSION1_2, rl_epoch = 0, rl_sequence_number = s,
    rl_content_len = 2\<rparr>"
  have "unat s < 2 ^ 48" using assms(3) by (simp add: takes_def MAX_SEQUENCE_NUMBER_def)
  then have u: "rd get_u48 (put_u48 s @ r) = Ok (s, r)" for r by (simp add: dtls_simps)
  have h: "record_layer_header_unmarshal (clear_alert s) = Ok (?h, [1, 0])"
    by (simp add: record_layer_header_unmarshal_def clear_alert_def u rd_def [of get_u8] rd_def [of get_u16] get_version_def
        PROTOCOL_VERSION1_2_def content_type_from_def)
  have r: "record_layer_unmarshal (clear_alert s) = Ok \<lparr>rl_header = ?h, rl_content = C_Alert \<lparr>al_level = AL_Warning, al_description = CloseNotify\<rparr>\<rparr>"
    by (simp add: record_layer_unmarshal_def h alert_unmarshal_def rd_def alert_level_from_def alert_description_from_def alert_descriptions_def)
  have push: "fragment_push (clear_alert s) b = (Ok False, b)" for b by (simp add: fragment_push_def h)
  have len: "length (clear_alert s) = 15" by (simp add: clear_alert_def put_u48_def)
  have unpack: "unpack_datagram (clear_alert s) = Ok [clear_alert s]"
    unfolding unpack_datagram_def by (subst unpack_loop.simps, subst unpack_loop.simps)
      (simp add: len RECORD_LAYER_HEADER_SIZE_def, simp add: clear_alert_def put_u48_def be16_def)
  let ?x = "extend_detectors 0 ctx"
  obtain ok c where c: "detector_check 0 s ?x = (ok, c)" by fastforce
  have x: "detectors_ok w ?x S" "unat (0 :: u16) < length (cr_replay_detector ?x)" using detectors_extend [OF assms(1,2), of 0] by auto
  have "represents w MAX_SEQUENCE_NUMBER (cr_replay_detector ?x ! 0) (S 0)"
    using x by (auto simp: detectors_ok_def split: if_splits)
  from sw_check_takes [OF this window_sum [OF assms(2)], of s] c assms(3) have ok: ok
    by (auto simp: detector_check_def Let_def split: prod.splits)
  from detector_check_ok [OF x(1) assms(2) x(2) c] ok have "pending_number w c S 0 s" by simp
  from detector_accept_ok [OF this assms(2)] obtain c' where "detector_accept 0 c = Ok c'" by blast
  then have "handle_incoming_packet cs (clear_alert s) True ctx =
      Some (Ok (False, Some \<lparr>al_level = AL_Warning, al_description = CloseNotify\<rparr>, Some ErrOther), c')"
    using c ok by (simp add: handle_incoming_packet_def h handle_plain_record_def push handle_content_def r Let_def)
  then show ?thesis by (simp add: read_and_buffer_def unpack after_packet_def Let_def)
qed

end
