(* ===== verification/Util_Text.thy ===== *)
theory Util_Text
  imports Util_Utf8
begin

text \<open>
  Texts of the standard library as the crates use them: decimal numbers and their parsing, splitting at white space, and
  the printed and parsed forms of IP addresses. A string is the list of its UTF-8 bytes.
\<close>

definition ascii :: "string \<Rightarrow> bytes" where
  "ascii s = map of_char s"

definition is_digit :: "u8 \<Rightarrow> bool" where
  "is_digit b \<longleftrightarrow> 48 \<le> b \<and> b \<le> 57"

section \<open>Numbers\<close>

text \<open>The decimal digits of a number, as \<^verbatim>\<open>Display\<close> prints them.\<close>

fun show_nat :: "nat \<Rightarrow> bytes" where
  "show_nat n = (if n < 10 then [48 + of_nat n] else show_nat (n div 10) @ [48 + of_nat (n mod 10)])"

declare show_nat.simps [simp del]

definition digits_value :: "bytes \<Rightarrow> nat" where
  "digits_value = foldl (\<lambda>v b. v * 10 + unat (b - 48)) 0"

text \<open>\<^verbatim>\<open>str::parse\<close> for an unsigned type with the given maximum: an optional plus sign, then at least one digit.\<close>

definition parse_uint :: "nat \<Rightarrow> bytes \<Rightarrow> nat option" where
  "parse_uint maximum s =
     (let ds = (case s of b # r \<Rightarrow> if b = 43 then r else s | [] \<Rightarrow> []) in
      if ds \<noteq> [] \<and> (\<forall>b \<in> set ds. is_digit b) \<and> digits_value ds \<le> maximum then Some (digits_value ds) else None)"

definition parse_u16 :: "bytes \<Rightarrow> u16 option" where
  "parse_u16 s = map_option of_nat (parse_uint 65535 s)"

definition parse_u32 :: "bytes \<Rightarrow> u32 option" where
  "parse_u32 s = map_option of_nat (parse_uint 4294967295 s)"

lemma digit_byte:
  assumes "n < 10"
  shows "is_digit (48 + of_nat n)" and "unat ((48 + of_nat n :: u8) - 48) = n"
proof -
  from assms have "unat (48 + of_nat n :: u8) = 48 + n" by (simp add: unat_word_ariths unat_of_nat)
  then show "is_digit (48 + of_nat n)" using assms by (simp add: is_digit_def word_le_nat_alt)
  show "unat ((48 + of_nat n :: u8) - 48) = n" using assms by (simp add: unat_of_nat)
qed

lemma digits_value_snoc: "digits_value (xs @ [b]) = digits_value xs * 10 + unat (b - 48)"
  by (simp add: digits_value_def)

lemma show_nat_digits: "(\<forall>b \<in> set (show_nat n). is_digit b) \<and> digits_value (show_nat n) = n \<and> show_nat n \<noteq> []"
proof (induction n rule: show_nat.induct)
  case (1 n)
  show ?case
  proof (cases "n < 10")
    case True
    then show ?thesis using digit_byte [of n] by (simp add: show_nat.simps [of n] digits_value_def)
  next
    case False
    have "n mod 10 < 10" by simp
    from digit_byte [OF this] 1 [OF False] False show ?thesis
      by (subst (1 2 3) show_nat.simps) (auto simp: digits_value_snoc)
  qed
qed

lemma parse_show_nat [simp]: "n \<le> maximum \<Longrightarrow> parse_uint maximum (show_nat n) = Some n"
proof -
  assume "n \<le> maximum"
  obtain b r where s: "show_nat n = b # r" using show_nat_digits [of n] by (cases "show_nat n") auto
  then have "is_digit b" using show_nat_digits [of n] by auto
  then have "b \<noteq> 43" by (auto simp: is_digit_def)
  with s show ?thesis using show_nat_digits [of n] \<open>n \<le> maximum\<close> by (simp add: parse_uint_def)
qed

lemma parse_show_u16 [simp]: "parse_u16 (show_nat (unat x)) = Some x"
  using unsigned_less [of x, where 'a = nat] by (simp add: parse_u16_def)

lemma parse_show_u32 [simp]: "parse_u32 (show_nat (unat x)) = Some x"
  using unsigned_less [of x, where 'a = nat] by (simp add: parse_u32_def)

section \<open>White space\<close>

text \<open>The length in bytes of the white space character at the front, zero if there is none.\<close>

definition white_space :: "bytes \<Rightarrow> nat" where
  "white_space s = (case s of
       a # r \<Rightarrow>
         if 9 \<le> a \<and> a \<le> 13 \<or> a = 32 then 1
         else (case r of
             b # q \<Rightarrow>
               if a = 0xC2 \<and> (b = 0x85 \<or> b = 0xA0) then 2
               else (case q of
                   c # _ \<Rightarrow>
                     if a = 0xE1 \<and> b = 0x9A \<and> c = 0x80 \<or> a = 0xE2 \<and> b = 0x81 \<and> c = 0x9F \<or> a = 0xE3 \<and> b = 0x80 \<and> c = 0x80 \<or>
                        a = 0xE2 \<and> b = 0x80 \<and> (0x80 \<le> c \<and> c \<le> 0x8A \<or> c = 0xA8 \<or> c = 0xA9 \<or> c = 0xAF) then 3 else 0
                 | [] \<Rightarrow> 0)
           | [] \<Rightarrow> 0)
     | [] \<Rightarrow> 0)"

text \<open>\<^verbatim>\<open>split_whitespace\<close>: \<open>word\<close> holds the bytes of the piece being read.\<close>

definition end_piece :: "bytes \<Rightarrow> bytes list \<Rightarrow> bytes list" where
  "end_piece word ws = (if word = [] then ws else word # ws)"

function split_ws :: "bytes \<Rightarrow> bytes \<Rightarrow> bytes list" where
  "split_ws word [] = end_piece word []"
| "split_ws word (b # s) =
     (let n = white_space (b # s) in if n = 0 then split_ws (word @ [b]) s else end_piece word (split_ws [] (drop n (b # s))))"
  by pat_completeness auto
termination by (relation "measure (\<lambda>(_, s). length s)") auto

definition split_whitespace :: "bytes \<Rightarrow> bytes list" where
  "split_whitespace s = split_ws [] s"

text \<open>A piece without white space, also when a space follows.\<close>

definition plain_word :: "bytes \<Rightarrow> bool" where
  "plain_word w \<longleftrightarrow> w \<noteq> [] \<and> (\<forall>b \<in> set w. 33 \<le> b \<and> b < 0x80)"

fun unwords :: "bytes list \<Rightarrow> bytes" where
  "unwords [] = []"
| "unwords [w] = w"
| "unwords (w # ws) = w @ 32 # unwords ws"

lemma white_space_plain: "33 \<le> b \<Longrightarrow> b < 0x80 \<Longrightarrow> white_space (b # s) = 0"
proof -
  assume b: "33 \<le> b" "b < 0x80"
  then have "\<not> (9 \<le> b \<and> b \<le> 13 \<or> b = 32)" "b \<noteq> 0xC2" "b \<noteq> 0xE1" "b \<noteq> 0xE2" "b \<noteq> 0xE3"
    by (auto simp: word_le_nat_alt word_less_nat_alt)
  then show ?thesis by (auto simp: white_space_def split: list.splits)
qed

lemma split_ws_word:
  "(\<forall>b \<in> set w. 33 \<le> b \<and> b < 0x80) \<Longrightarrow> split_ws acc (w @ s) = split_ws (acc @ w) s"
  by (induction w arbitrary: acc) (auto simp: white_space_plain)

lemma split_unwords:
  assumes "\<forall>w \<in> set ws. plain_word w"
  shows "split_whitespace (unwords ws) = ws"
  using assms unfolding split_whitespace_def
proof (induction ws rule: unwords.induct)
  case (2 w)
  then show ?case using split_ws_word [of w "[]" "[]"] by (auto simp: plain_word_def end_piece_def)
next
  case (3 w v ws)
  have "white_space (32 # unwords (v # ws)) = 1" by (simp add: white_space_def)
  with 3 split_ws_word [of w "[]" "32 # unwords (v # ws)"] show ?case
    by (auto simp: plain_word_def end_piece_def simp del: unwords.simps simp: unwords.simps(3))
qed (simp add: end_piece_def)

lemma plain_word_show_nat: "plain_word (show_nat n)"
  using show_nat_digits [of n] by (auto simp: plain_word_def is_digit_def word_le_nat_alt word_less_nat_alt)

section \<open>IP addresses\<close>

text \<open>An address is given by its octets, four or sixteen.\<close>

datatype ip_addr = IpV4 bytes | IpV6 bytes

record socket_addr =
  sa_ip :: ip_addr
  sa_port :: u16

fun is_ipv4 :: "ip_addr \<Rightarrow> bool" where
  "is_ipv4 (IpV4 _) = True" | "is_ipv4 (IpV6 _) = False"

fun join_with :: "u8 \<Rightarrow> bytes list \<Rightarrow> bytes" where
  "join_with _ [] = []"
| "join_with _ [w] = w"
| "join_with c (w # ws) = w @ c # join_with c ws"

definition show_ipv4 :: "bytes \<Rightarrow> bytes" where
  "show_ipv4 os = join_with 46 (map (\<lambda>b. show_nat (unat b)) os)"

definition hex_digit :: "nat \<Rightarrow> u8" where
  "hex_digit n = (if n < 10 then 48 + of_nat n else 87 + of_nat n)"

fun show_hex :: "nat \<Rightarrow> bytes" where
  "show_hex n = (if n < 16 then [hex_digit n] else show_hex (n div 16) @ [hex_digit (n mod 16)])"

declare show_hex.simps [simp del]

fun segments :: "bytes \<Rightarrow> nat list" where
  "segments (a # b # r) = (unat a * 256 + unat b) # segments r"
| "segments _ = []"

text \<open>The first longest run of zero segments, as start and length.\<close>

fun zero_run :: "nat list \<Rightarrow> nat \<Rightarrow> nat \<times> nat \<Rightarrow> nat \<times> nat \<Rightarrow> nat \<times> nat" where
  "zero_run [] _ _ longest = longest"
| "zero_run (s # ss) i current longest =
     (if s = 0 then
        let current = (if snd current = 0 then (i, 1) else (fst current, snd current + 1))
        in zero_run ss (i + 1) current (if snd current > snd longest then current else longest)
      else zero_run ss (i + 1) (0, 0) longest)"

definition show_ipv6 :: "bytes \<Rightarrow> bytes" where
  "show_ipv6 os =
     (let segs = segments os; (start, len) = zero_run segs 0 (0, 0) (0, 0); sub = (\<lambda>xs. join_with 58 (map show_hex xs)) in
      if take 12 os = replicate 10 0 @ [0xFF, 0xFF] then ascii ''::ffff:'' @ show_ipv4 (drop 12 os)
      else if len > 1 then sub (take start segs) @ ascii ''::'' @ sub (drop (start + len) segs)
      else sub segs)"

fun show_ip :: "ip_addr \<Rightarrow> bytes" where
  "show_ip (IpV4 os) = show_ipv4 os" | "show_ip (IpV6 os) = show_ipv6 os"

text \<open>The parser of the standard library. A parser returns the value and the rest of the text.\<close>

definition to_digit :: "nat \<Rightarrow> u8 \<Rightarrow> nat option" where
  "to_digit radix b =
     (let d = (if is_digit b then unat (b - 48) else if 97 \<le> b \<and> b \<le> 102 then unat (b - 87)
               else if 65 \<le> b \<and> b \<le> 70 then unat (b - 55) else 99)
      in if d < radix then Some d else None)"

definition read_number :: "nat \<Rightarrow> nat \<Rightarrow> nat \<Rightarrow> bool \<Rightarrow> bytes \<Rightarrow> (nat \<times> bytes) option" where
  "read_number radix max_digits maximum allow_zero_prefix s =
     (let ds = takeWhile (\<lambda>b. to_digit radix b \<noteq> None) s;
          v = foldl (\<lambda>v b. v * radix + the (to_digit radix b)) 0 ds
      in if ds = [] \<or> length ds > max_digits \<or> v > maximum then None
         else if \<not> allow_zero_prefix \<and> hd ds = 48 \<and> length ds > 1 then None
         else Some (v, drop (length ds) s))"

definition read_given_char :: "u8 \<Rightarrow> bytes \<Rightarrow> bytes option" where
  "read_given_char c s = (case s of b # r \<Rightarrow> if b = c then Some r else None | [] \<Rightarrow> None)"

definition read_separator :: "u8 \<Rightarrow> nat \<Rightarrow> (bytes \<Rightarrow> ('a \<times> bytes) option) \<Rightarrow> bytes \<Rightarrow> ('a \<times> bytes) option" where
  "read_separator c i p s = (if i = 0 then p s else Option.bind (read_given_char c s) p)"

definition read_ipv4 :: "bytes \<Rightarrow> (bytes \<times> bytes) option" where
  "read_ipv4 s =
     (let octet = (\<lambda>i. read_separator 46 i (read_number 10 3 255 False)) in
      Option.bind (octet 0 s) (\<lambda>(a, s). Option.bind (octet 1 s) (\<lambda>(b, s). Option.bind (octet 2 s) (\<lambda>(c, s).
      Option.bind (octet 3 s) (\<lambda>(d, s). Some ([of_nat a, of_nat b, of_nat c, of_nat d], s))))))"

text \<open>Up to \<open>limit\<close> groups of an IPv6 address from number \<open>i\<close> on, as octets; the flag tells an embedded IPv4 address.\<close>

fun read_groups :: "nat \<Rightarrow> nat \<Rightarrow> bytes \<Rightarrow> bytes \<Rightarrow> bytes \<times> bool \<times> bytes" where
  "read_groups 0 _ acc s = (acc, False, s)"
| "read_groups (Suc k) i acc s =
     (case (if k > 0 then read_separator 58 i read_ipv4 s else None) of
        Some (os, s) \<Rightarrow> (acc @ os, True, s)
      | None \<Rightarrow>
          (case read_separator 58 i (read_number 16 4 65535 True) s of
             Some (g, s) \<Rightarrow> read_groups k (i + 1) (acc @ put_u16 (of_nat g)) s
           | None \<Rightarrow> (acc, False, s)))"

definition read_ipv6 :: "bytes \<Rightarrow> (bytes \<times> bytes) option" where
  "read_ipv6 s =
     (let (head, v4, s) = read_groups 8 0 [] s in
      if length head = 16 then Some (head, s)
      else if v4 then None
      else Option.bind (read_given_char 58 s) (\<lambda>s. Option.bind (read_given_char 58 s) (\<lambda>s.
        let (tail, _, s) = read_groups (8 - (length head div 2 + 1)) 0 [] s
        in Some (head @ replicate (16 - length head - length tail) 0 @ tail, s))))"

definition parse_ip :: "bytes \<Rightarrow> ip_addr option" where
  "parse_ip s =
     (case read_ipv4 s of
        Some (os, r) \<Rightarrow> if r = [] then Some (IpV4 os) else None
      | None \<Rightarrow>
          (case read_ipv6 s of
             Some (os, r) \<Rightarrow> if r = [] then Some (IpV6 os) else None
           | None \<Rightarrow> None))"

end
