(* ===== verification/Stun_Message.thy ===== *)
theory Stun_Message
  imports Util_Text
begin

text \<open>
  STUN messages (\<^verbatim>\<open>crates/stun/message.rs\<close>, \<^verbatim>\<open>attributes.rs\<close>, \<^verbatim>\<open>error.rs\<close>, \<^verbatim>\<open>agent.rs\<close>): the message under
  construction with its buffer, appending of attributes, and decoding. A setter is a function on messages that may
  fail after it has changed the message.
\<close>

section \<open>Errors and types\<close>

text \<open>Errors that wrap another error or a message carry no payload.\<close>

datatype stun_error = ErrAttributeNotFound | ErrNoDefaultReason | ErrUnexpectedEof | ErrAttributeSizeInvalid
  | ErrAttributeSizeOverflow | ErrUnexpectedHeaderEof | ErrIntegrityMismatch | ErrFingerprintBeforeIntegrity
  | ErrBadUnknownAttrsSize | ErrCollectorClosed | SErr_Other | SErr_Url | SErr_Utf8 | SErr_Io | SErr_MpscSend | SErr_Util

type_synonym 'a stun_result = "(stun_error, 'a) outcome"

definition MAGIC_COOKIE :: u32 where "MAGIC_COOKIE = 0x2112A442"
definition ATTRIBUTE_HEADER_SIZE :: nat where "ATTRIBUTE_HEADER_SIZE = 4"
definition MESSAGE_HEADER_SIZE :: nat where "MESSAGE_HEADER_SIZE = 20"
definition TRANSACTION_ID_SIZE :: nat where "TRANSACTION_ID_SIZE = 12"
definition PADDING :: nat where "PADDING = 4"

lemmas stun_sizes = ATTRIBUTE_HEADER_SIZE_def MESSAGE_HEADER_SIZE_def TRANSACTION_ID_SIZE_def PADDING_def

text \<open>\<^verbatim>\<open>MessageClass\<close> wraps a byte, \<^verbatim>\<open>Method\<close> and \<^verbatim>\<open>AttrType\<close> 16 bits.\<close>

record message_type =
  mt_method :: u16
  mt_class :: u8

definition BINDING_REQUEST :: message_type where "BINDING_REQUEST = \<lparr>mt_method = 1, mt_class = 0\<rparr>"
definition BINDING_SUCCESS :: message_type where "BINDING_SUCCESS = \<lparr>mt_method = 1, mt_class = 2\<rparr>"

definition type_value :: "message_type \<Rightarrow> u16" where
  "type_value t =
     (let a = mt_method t AND 0xf; b = mt_method t AND 0x70; d = mt_method t AND 0xf80;
          method = a + push_bit 1 b + push_bit 2 d;
          c = ucast (mt_class t);
          c0 = push_bit 4 (c AND 1);
          c1 = push_bit 7 (c AND 2)
      in method + (c0 + c1))"

definition read_value :: "u16 \<Rightarrow> message_type" where
  "read_value v =
     (let c0 = drop_bit 4 v AND 1; c1 = drop_bit 7 v AND 2;
          a = v AND 0xf; b = drop_bit 1 v AND 0x70; d = drop_bit 2 v AND 0xf80
      in \<lparr>mt_method = a + b + d, mt_class = ucast (c0 + c1)\<rparr>)"

record raw_attribute =
  at_typ :: u16
  at_length :: u16
  at_value :: bytes

definition ATTR_USERNAME :: u16 where "ATTR_USERNAME = 0x0006"
definition ATTR_MESSAGE_INTEGRITY :: u16 where "ATTR_MESSAGE_INTEGRITY = 0x0008"
definition ATTR_ERROR_CODE :: u16 where "ATTR_ERROR_CODE = 0x0009"
definition ATTR_UNKNOWN_ATTRIBUTES :: u16 where "ATTR_UNKNOWN_ATTRIBUTES = 0x000A"
definition ATTR_REALM :: u16 where "ATTR_REALM = 0x0014"
definition ATTR_NONCE :: u16 where "ATTR_NONCE = 0x0015"
definition ATTR_MAPPED_ADDRESS :: u16 where "ATTR_MAPPED_ADDRESS = 0x0001"
definition ATTR_XORMAPPED_ADDRESS :: u16 where "ATTR_XORMAPPED_ADDRESS = 0x0020"
definition ATTR_SOFTWARE :: u16 where "ATTR_SOFTWARE = 0x8022"
definition ATTR_FINGERPRINT :: u16 where "ATTR_FINGERPRINT = 0x8028"

definition nearest_padded_value_length :: "nat \<Rightarrow> nat" where
  "nearest_padded_value_length l = (let n = PADDING * (l div PADDING) in if n < l then n + PADDING else n)"

text \<open>An old number of \<^verbatim>\<open>XOR-MAPPED-ADDRESS\<close> is translated.\<close>

definition compat_attr_type :: "u16 \<Rightarrow> u16" where
  "compat_attr_type v = (if v = 0x8020 then ATTR_XORMAPPED_ADDRESS else v)"

record stun_message =
  sm_typ :: message_type
  sm_length :: u32
  sm_transaction_id :: bytes
  sm_attributes :: "raw_attribute list"
  sm_raw :: bytes

type_synonym setter = "stun_message \<Rightarrow> unit stun_result \<times> stun_message"

text \<open>\<^verbatim>\<open>from_be_bytes\<close> on 16 and 32 bits.\<close>

definition be_u16 :: "u8 \<Rightarrow> u8 \<Rightarrow> u16" where
  "be_u16 a b = push_bit 8 (ucast a) OR ucast b"

definition be_u32 :: "u8 \<Rightarrow> u8 \<Rightarrow> u8 \<Rightarrow> u8 \<Rightarrow> u32" where
  "be_u32 a b c d = push_bit 24 (ucast a) OR push_bit 16 (ucast b) OR push_bit 8 (ucast c) OR ucast d"

definition is_message :: "bytes \<Rightarrow> bool" where
  "is_message b \<longleftrightarrow> MESSAGE_HEADER_SIZE \<le> length b \<and> be_u32 (b ! 4) (b ! 5) (b ! 6) (b ! 7) = MAGIC_COOKIE"

section \<open>Building a message\<close>

definition stun_message_new :: stun_message where
  "stun_message_new = \<lparr>sm_typ = \<lparr>mt_method = 0, mt_class = 0\<rparr>, sm_length = 0,
     sm_transaction_id = replicate TRANSACTION_ID_SIZE 0, sm_attributes = [], sm_raw = replicate MESSAGE_HEADER_SIZE 0\<rparr>"

definition msg_reset :: "stun_message \<Rightarrow> stun_message" where
  "msg_reset m = m\<lparr>sm_raw := [], sm_length := 0, sm_attributes := []\<rparr>"

definition raw_grow :: "nat \<Rightarrow> bool \<Rightarrow> bytes \<Rightarrow> bytes" where
  "raw_grow n resize raw =
     (if length raw \<ge> n then (if resize then take n raw else raw) else raw @ replicate (n - length raw) 0)"

text \<open>\<^verbatim>\<open>raw[i..].copy_from_slice(xs)\<close> for a slice of the length of \<open>xs\<close>; outside the buffer it panics.\<close>

definition raw_put :: "nat \<Rightarrow> bytes \<Rightarrow> bytes \<Rightarrow> bytes stun_result" where
  "raw_put i xs raw = (if i + length xs \<le> length raw then Ok (take i raw @ xs @ drop (i + length xs) raw) else Panic)"

definition write_length :: "stun_message \<Rightarrow> stun_message stun_result" where
  "write_length m = obind (raw_put 2 (put_u16 (ucast (sm_length m))) (raw_grow 4 False (sm_raw m))) (\<lambda>raw. Ok (m\<lparr>sm_raw := raw\<rparr>))"

definition write_type :: "stun_message \<Rightarrow> stun_message stun_result" where
  "write_type m = obind (raw_put 0 (put_u16 (type_value (sm_typ m))) (raw_grow 2 False (sm_raw m))) (\<lambda>raw. Ok (m\<lparr>sm_raw := raw\<rparr>))"

definition write_transaction_id :: "stun_message \<Rightarrow> stun_message stun_result" where
  "write_transaction_id m = obind (raw_put 8 (sm_transaction_id m) (sm_raw m)) (\<lambda>raw. Ok (m\<lparr>sm_raw := raw\<rparr>))"

definition write_header :: "stun_message \<Rightarrow> stun_message stun_result" where
  "write_header m =
     obind (write_type (m\<lparr>sm_raw := raw_grow MESSAGE_HEADER_SIZE False (sm_raw m)\<rparr>)) (\<lambda>m.
     obind (write_length m) (\<lambda>m.
     obind (raw_put 4 (put_u32 MAGIC_COOKIE) (sm_raw m)) (\<lambda>raw.
     obind (raw_put 8 (sm_transaction_id m) raw) (\<lambda>raw. Ok (m\<lparr>sm_raw := raw\<rparr>)))))"

text \<open>Appending the bytes of an attribute, and its padding when the length is not a multiple of four.\<close>

definition add_value :: "u16 \<Rightarrow> bytes \<Rightarrow> stun_message \<Rightarrow> stun_message stun_result" where
  "add_value t v m =
     (let alloc_size = ATTRIBUTE_HEADER_SIZE + length v;
          first = MESSAGE_HEADER_SIZE + unat (sm_length m);
          last = first + alloc_size
      in obind (raw_put first (put_u16 t @ put_u16 (of_nat (length v)) @ v) (raw_grow last True (sm_raw m))) (\<lambda>raw.
         Ok (m\<lparr>sm_raw := raw, sm_length := sm_length m + of_nat alloc_size\<rparr>)))"

definition add_padding :: "nat \<Rightarrow> stun_message \<Rightarrow> stun_message stun_result" where
  "add_padding l m =
     (if unat (of_nat l :: u16) mod PADDING \<noteq> 0 then
        let bytes_to_add = nearest_padded_value_length l - l;
            last = length (sm_raw m) + bytes_to_add
        in obind (raw_put (last - bytes_to_add) (replicate bytes_to_add 0) (raw_grow last True (sm_raw m))) (\<lambda>raw.
           Ok (m\<lparr>sm_raw := raw, sm_length := sm_length m + of_nat bytes_to_add\<rparr>))
      else Ok m)"

definition msg_add :: "u16 \<Rightarrow> bytes \<Rightarrow> stun_message \<Rightarrow> stun_message stun_result" where
  "msg_add t v m =
     obind (add_value t v m) (\<lambda>m. obind (add_padding (length v) m) (\<lambda>m.
     write_length (m\<lparr>sm_attributes := sm_attributes m @ [\<lparr>at_typ = t, at_length = of_nat (length v), at_value = v\<rparr>]\<rparr>)))"

text \<open>An operation that only panics, as a setter.\<close>

definition as_setter :: "(stun_message \<Rightarrow> stun_message stun_result) \<Rightarrow> setter" where
  "as_setter f m = (case f m of Ok m' \<Rightarrow> (Ok (), m') | Err e \<Rightarrow> (Err e, m) | Panic \<Rightarrow> (Panic, m))"

definition set_type :: "message_type \<Rightarrow> setter" where
  "set_type t m = as_setter write_type (m\<lparr>sm_typ := t\<rparr>)"

definition set_transaction_id :: "bytes \<Rightarrow> setter" where
  "set_transaction_id t m = as_setter write_transaction_id (m\<lparr>sm_transaction_id := t\<rparr>)"

definition set_attribute :: "u16 \<Rightarrow> bytes \<Rightarrow> setter" where
  "set_attribute t v = as_setter (msg_add t v)"

fun apply_setters :: "setter list \<Rightarrow> setter" where
  "apply_setters [] m = (Ok (), m)"
| "apply_setters (s # ss) m = (case s m of (Ok _, m) \<Rightarrow> apply_setters ss m | (r, m) \<Rightarrow> (r, m))"

definition msg_build :: "setter list \<Rightarrow> setter" where
  "msg_build setters m =
     (case as_setter write_header (msg_reset m) of (Ok _, m) \<Rightarrow> apply_setters setters m | (r, m) \<Rightarrow> (r, m))"

section \<open>Decoding\<close>

function decode_loop :: "nat \<Rightarrow> nat \<Rightarrow> bytes \<Rightarrow> raw_attribute list \<Rightarrow> unit stun_result \<times> raw_attribute list" where
  "decode_loop sz offset b acc =
     (if offset < sz then
        if length b < ATTRIBUTE_HEADER_SIZE then (Err SErr_Other, acc)
        else
          let l = be_u16 (b ! 2) (b ! 3);
              a_l = unat l;
              a_buff_l = nearest_padded_value_length a_l;
              b1 = drop ATTRIBUTE_HEADER_SIZE b
          in if length b1 < a_buff_l then (Err SErr_Other, acc)
             else decode_loop sz (offset + ATTRIBUTE_HEADER_SIZE + a_buff_l) (drop a_buff_l b1)
                    (acc @ [\<lparr>at_typ = compat_attr_type (be_u16 (b ! 0) (b ! 1)), at_length = l, at_value = take a_l b1\<rparr>])
      else (Ok (), acc))"
  by pat_completeness auto
termination
  by (relation "measure (\<lambda>(sz, offset, _). sz - offset)") (auto simp: stun_sizes)

declare decode_loop.simps [simp del]

definition msg_decode :: setter where
  "msg_decode m =
     (let buf = sm_raw m in
      if length buf < MESSAGE_HEADER_SIZE then (Err ErrUnexpectedHeaderEof, m)
      else
        let t = be_u16 (buf ! 0) (buf ! 1);
            sz = unat (be_u16 (buf ! 2) (buf ! 3));
            cookie = be_u32 (buf ! 4) (buf ! 5) (buf ! 6) (buf ! 7);
            full_size = MESSAGE_HEADER_SIZE + sz
        in if cookie \<noteq> MAGIC_COOKIE then (Err SErr_Other, m)
           else if length buf < full_size then (Err SErr_Other, m)
           else
             let (r, as) = decode_loop sz 0 (take sz (drop MESSAGE_HEADER_SIZE buf)) []
             in (r, m\<lparr>sm_typ := read_value t, sm_length := of_nat sz,
                      sm_transaction_id := take TRANSACTION_ID_SIZE (drop 8 buf), sm_attributes := as\<rparr>))"

definition msg_contains :: "u16 \<Rightarrow> stun_message \<Rightarrow> bool" where
  "msg_contains t m \<longleftrightarrow> (\<exists>a \<in> set (sm_attributes m). at_typ a = t)"

definition msg_get :: "u16 \<Rightarrow> stun_message \<Rightarrow> bytes stun_result" where
  "msg_get t m = (case find (\<lambda>a. at_typ a = t) (sm_attributes m) of Some a \<Rightarrow> Ok (at_value a) | None \<Rightarrow> Err ErrAttributeNotFound)"

section \<open>Message types\<close>

text \<open>The bits of the fields of a message type.\<close>

lemma field_bits:
  "bit (0xf :: u16) n \<longleftrightarrow> n < 4" "bit (0x70 :: u16) n \<longleftrightarrow> 4 \<le> n \<and> n < 7" "bit (0xf80 :: u16) n \<longleftrightarrow> 7 \<le> n \<and> n < 12"
  "bit (1 :: u16) n \<longleftrightarrow> n = 0" "bit (2 :: u16) n \<longleftrightarrow> n = 1"
proof -
  have m: "(0xf :: u16) = mask 4" "(0x70 :: u16) = push_bit 4 (mask 3)" "(0xf80 :: u16) = push_bit 7 (mask 5)"
    "(2 :: u16) = push_bit 1 (mask 1)"
    by (simp_all add: mask_eq_exp_minus_1 push_bit_eq_mult)
  show "bit (0xf :: u16) n \<longleftrightarrow> n < 4" "bit (0x70 :: u16) n \<longleftrightarrow> 4 \<le> n \<and> n < 7" "bit (0xf80 :: u16) n \<longleftrightarrow> 7 \<le> n \<and> n < 12"
    by (unfold m, auto simp only: bit_push_bit_iff bit_mask_iff possible_bit_word) auto
  show "bit (1 :: u16) n \<longleftrightarrow> n = 0" by (simp add: bit_1_iff)
  show "bit (2 :: u16) n \<longleftrightarrow> n = 1" unfolding m(4) by (auto simp only: bit_push_bit_iff bit_mask_iff possible_bit_word) auto
qed

lemmas type_bits = bit_and_iff bit_or_iff bit_push_bit_iff bit_drop_bit_eq field_bits possible_bit_word comp_def

lemma type_value_or:
  "type_value t = (mt_method t AND 0xf) OR push_bit 1 (mt_method t AND 0x70) OR push_bit 2 (mt_method t AND 0xf80) OR
     push_bit 4 (ucast (mt_class t) AND 1) OR push_bit 7 (ucast (mt_class t) AND 2)"
proof -
  let ?m = "mt_method t" and ?c = "ucast (mt_class t) :: u16"
  have 1: "(?m AND 0xf) + push_bit 1 (?m AND 0x70) = (?m AND 0xf) OR push_bit 1 (?m AND 0x70)"
    by (rule disjunctive_add) (simp only: type_bits, linarith)
  have 2: "((?m AND 0xf) OR push_bit 1 (?m AND 0x70)) + push_bit 2 (?m AND 0xf80) =
      ((?m AND 0xf) OR push_bit 1 (?m AND 0x70)) OR push_bit 2 (?m AND 0xf80)"
    by (rule disjunctive_add) (simp only: type_bits, linarith)
  have 3: "push_bit 4 (?c AND 1) + push_bit 7 (?c AND 2) = push_bit 4 (?c AND 1) OR push_bit 7 (?c AND 2)"
    by (rule disjunctive_add) (simp only: type_bits, linarith)
  have 4: "(((?m AND 0xf) OR push_bit 1 (?m AND 0x70)) OR push_bit 2 (?m AND 0xf80)) + (push_bit 4 (?c AND 1) OR push_bit 7 (?c AND 2)) =
      (((?m AND 0xf) OR push_bit 1 (?m AND 0x70)) OR push_bit 2 (?m AND 0xf80)) OR (push_bit 4 (?c AND 1) OR push_bit 7 (?c AND 2))"
    by (rule disjunctive_add) (simp only: type_bits, linarith)
  show ?thesis unfolding type_value_def Let_def 1 2 3 4 by (simp only: or.assoc)
qed

lemma read_value_or:
  "read_value v = \<lparr>mt_method = (v AND 0xf) OR (drop_bit 1 v AND 0x70) OR (drop_bit 2 v AND 0xf80),
     mt_class = ucast ((drop_bit 4 v AND 1) OR (drop_bit 7 v AND 2))\<rparr>"
proof -
  have 1: "(v AND 0xf) + (drop_bit 1 v AND 0x70) = (v AND 0xf) OR (drop_bit 1 v AND 0x70)"
    by (rule disjunctive_add) (simp only: type_bits, linarith)
  have 2: "((v AND 0xf) OR (drop_bit 1 v AND 0x70)) + (drop_bit 2 v AND 0xf80) = ((v AND 0xf) OR (drop_bit 1 v AND 0x70)) OR (drop_bit 2 v AND 0xf80)"
    by (rule disjunctive_add) (simp only: type_bits, linarith)
  have 3: "(drop_bit 4 v AND 1) + (drop_bit 7 v AND 2) = (drop_bit 4 v AND 1) OR (drop_bit 7 v AND 2)"
    by (rule disjunctive_add) (simp only: type_bits, linarith)
  show ?thesis unfolding read_value_def Let_def 1 2 3 by (simp only: or.assoc)
qed

text \<open>Every 12-bit method with every 2-bit class survives the encoding.\<close>

definition wf_type :: "message_type \<Rightarrow> bool" where
  "wf_type t \<longleftrightarrow> unat (mt_method t) < 2 ^ 12 \<and> unat (mt_class t) < 2 ^ 2"

lemma bit_below: "unat (x :: 'a :: len word) < 2 ^ n \<Longrightarrow> bit x k \<Longrightarrow> k < n"
proof -
  assume u: "unat x < 2 ^ n" and k: "bit x k"
  have "bit (unat x) k" using k by (simp add: bit_unsigned_iff bit_imp_le_length)
  moreover have "take_bit n (unat x) = unat x" using u by (simp add: take_bit_nat_eq_self_iff)
  ultimately show ?thesis by (metis bit_take_bit_iff)
qed

lemma bit_type_value:
  "bit (type_value t) k \<longleftrightarrow> k < 4 \<and> bit (mt_method t) k \<or> k = 4 \<and> bit (mt_class t) 0 \<or>
     (5 \<le> k \<and> k < 8) \<and> bit (mt_method t) (k - 1) \<or> k = 8 \<and> bit (mt_class t) 1 \<or>
     (9 \<le> k \<and> k < 14) \<and> bit (mt_method t) (k - 2)"
proof -
  consider "k < 4" | "k = 4" | "5 \<le> k" "k < 8" | "k = 8" | "9 \<le> k" "k < 14" | "14 \<le> k" by linarith
  then show ?thesis unfolding type_value_or
    by cases (simp_all only: bit_and_iff bit_or_iff bit_push_bit_iff field_bits bit_unsigned_iff possible_bit_word, auto)
qed

lemma read_value_type_value:
  assumes "wf_type t"
  shows "read_value (type_value t) = t"
proof -
  have m: "bit (mt_method t) k \<Longrightarrow> k < 12" for k using assms bit_below [of "mt_method t" 12 k] by (simp add: wf_type_def)
  have c: "bit (mt_class t) k \<Longrightarrow> k < 2" for k using assms bit_below [of "mt_class t" 2 k] by (simp add: wf_type_def)
  let ?v = "type_value t"
  have "bit ((?v AND 0xf) OR (drop_bit 1 ?v AND 0x70) OR (drop_bit 2 ?v AND 0xf80)) k = bit (mt_method t) k" for k
  proof -
    consider "k < 4" | "4 \<le> k" "k < 7" | "7 \<le> k" "k < 12" | "12 \<le> k" by linarith
    then show ?thesis
      by cases (use m [of k] in \<open>simp_all only: bit_and_iff bit_or_iff bit_drop_bit_eq field_bits comp_def bit_type_value\<close>, auto)
  qed
  then have "(?v AND 0xf) OR (drop_bit 1 ?v AND 0x70) OR (drop_bit 2 ?v AND 0xf80) = mt_method t" by (intro bit_word_eqI) simp
  moreover have "bit (ucast ((drop_bit 4 ?v AND 1) OR (drop_bit 7 ?v AND 2)) :: u8) k = bit (mt_class t) k" for k
  proof -
    consider "k = 0" | "k = 1" | "2 \<le> k" by linarith
    then show ?thesis
      by cases (use c [of k] in \<open>simp_all only: bit_unsigned_iff bit_and_iff bit_or_iff bit_drop_bit_eq field_bits comp_def bit_type_value\<close>, auto)
  qed
  then have "ucast ((drop_bit 4 ?v AND 1) OR (drop_bit 7 ?v AND 2)) = mt_class t" by (intro bit_word_eqI) simp
  ultimately show ?thesis by (simp add: read_value_or)
qed

section \<open>Well-formed messages\<close>

text \<open>The bytes of an attribute with its padding, of a list of attributes, and of the header.\<close>

definition attr_wire :: "raw_attribute \<Rightarrow> bytes" where
  "attr_wire a = put_u16 (at_typ a) @ put_u16 (at_length a) @ at_value a @
     replicate (nearest_padded_value_length (length (at_value a)) - length (at_value a)) 0"

definition attrs_wire :: "raw_attribute list \<Rightarrow> bytes" where
  "attrs_wire as = concat (map attr_wire as)"

definition msg_header :: "message_type \<Rightarrow> nat \<Rightarrow> bytes \<Rightarrow> bytes" where
  "msg_header t n tid = put_u16 (type_value t) @ put_u16 (of_nat n) @ put_u32 MAGIC_COOKIE @ tid"

definition attr_ok :: "raw_attribute \<Rightarrow> bool" where
  "attr_ok a \<longleftrightarrow> at_length a = of_nat (length (at_value a)) \<and> length (at_value a) < 65536 \<and> at_typ a \<noteq> 0x8020"

definition wf_msg :: "stun_message \<Rightarrow> bool" where
  "wf_msg m \<longleftrightarrow> length (sm_transaction_id m) = TRANSACTION_ID_SIZE \<and>
     (\<forall>a \<in> set (sm_attributes m). attr_ok a) \<and> length (attrs_wire (sm_attributes m)) < 65536 \<and>
     sm_length m = of_nat (length (attrs_wire (sm_attributes m))) \<and>
     sm_raw m = msg_header (sm_typ m) (length (attrs_wire (sm_attributes m))) (sm_transaction_id m) @ attrs_wire (sm_attributes m)"

lemma npvl_bounds: "l \<le> nearest_padded_value_length l" "nearest_padded_value_length l < l + 4"
  "nearest_padded_value_length l mod 4 = 0" "l mod 4 = 0 \<Longrightarrow> nearest_padded_value_length l = l"
  by (simp_all add: nearest_padded_value_length_def stun_sizes Let_def, presburger+)

lemma npvl_le: "l < 65536 \<Longrightarrow> nearest_padded_value_length l \<le> 65536"
  by (auto simp: nearest_padded_value_length_def stun_sizes Let_def)

lemma length_attr_wire: "length (attr_wire a) = 4 + nearest_padded_value_length (length (at_value a))"
  using npvl_bounds(1) [of "length (at_value a)"] by (simp add: attr_wire_def)

lemma attrs_wire_simps [simp]: "attrs_wire [] = []" "attrs_wire (a # as) = attr_wire a @ attrs_wire as"
  "attrs_wire (as @ bs) = attrs_wire as @ attrs_wire bs"
  by (simp_all add: attrs_wire_def)

lemma length_msg_header [simp]: "length tid = TRANSACTION_ID_SIZE \<Longrightarrow> length (msg_header t n tid) = MESSAGE_HEADER_SIZE"
  by (simp add: msg_header_def stun_sizes)

lemma raw_put_mid: "i = length a \<Longrightarrow> length ys = length xs \<Longrightarrow> raw_put i xs (a @ ys @ c) = Ok (a @ xs @ c)"
  by (simp add: raw_put_def)

lemma raw_put_end: "i = length a \<Longrightarrow> length ys = length xs \<Longrightarrow> raw_put i xs (a @ ys) = Ok (a @ xs)"
  by (simp add: raw_put_def)

lemma raw_grow_end: "length a \<le> n \<Longrightarrow> raw_grow n True a = a @ replicate (n - length a) 0"
  by (auto simp: raw_grow_def)

lemma raw_grow_long: "n \<le> length a \<Longrightarrow> raw_grow n False a = a"
  by (simp add: raw_grow_def)

lemma ucast_of_nat_u16: "ucast (of_nat k :: u32) = (of_nat k :: u16)"
  by (rule bit_word_eqI) (simp add: bit_simps bit_take_bit_iff)

text \<open>Writing the length into a buffer that begins with a header.\<close>

lemma write_length_header:
  "sm_raw m = msg_header t n tid @ rest \<Longrightarrow> sm_length m = of_nat k \<Longrightarrow>
   write_length m = Ok (m\<lparr>sm_raw := msg_header t k tid @ rest\<rparr>)"
  using raw_put_mid [of 2 "put_u16 (type_value t)" "put_u16 (of_nat n)" "put_u16 (of_nat k)" "put_u32 MAGIC_COOKIE @ tid @ rest"]
  by (simp add: write_length_def msg_header_def raw_grow_long ucast_of_nat_u16)

lemma add_value_end:
  assumes "length (sm_raw m) = MESSAGE_HEADER_SIZE + unat (sm_length m)"
  shows "add_value t v m = Ok (m\<lparr>sm_raw := sm_raw m @ put_u16 t @ put_u16 (of_nat (length v)) @ v,
    sm_length := sm_length m + of_nat (4 + length v)\<rparr>)"
  using assms by (simp add: add_value_def Let_def stun_sizes raw_grow_end raw_put_end)

lemma add_padding_end:
  assumes "l < 65536"
  shows "add_padding l m = Ok (m\<lparr>sm_raw := sm_raw m @ replicate (nearest_padded_value_length l - l) 0,
    sm_length := sm_length m + of_nat (nearest_padded_value_length l - l)\<rparr>)"
proof -
  have "unat (of_nat l :: u16) = l" using assms by (simp add: unsigned_of_nat take_bit_nat_eq_self_iff)
  then show ?thesis using npvl_bounds(4) [of l]
    by (auto simp: add_padding_def Let_def stun_sizes raw_grow_end raw_put_end)
qed

text \<open>Appending to a well-formed message, whatever length its header holds at that time.\<close>

lemma msg_add_any:
  assumes "wf_msg m" and "t \<noteq> 0x8020" and "length (attrs_wire (sm_attributes m)) + 4 + nearest_padded_value_length (length v) < 65536"
  shows "\<exists>m'. msg_add t v (m\<lparr>sm_raw := msg_header (sm_typ m) k (sm_transaction_id m) @ attrs_wire (sm_attributes m)\<rparr>) = Ok m' \<and>
    wf_msg m' \<and> sm_typ m' = sm_typ m \<and> sm_transaction_id m' = sm_transaction_id m \<and>
    sm_attributes m' = sm_attributes m @ [\<lparr>at_typ = t, at_length = of_nat (length v), at_value = v\<rparr>]"
proof -
  let ?a = "\<lparr>at_typ = t, at_length = of_nat (length v), at_value = v\<rparr>"
  let ?n = "length (attrs_wire (sm_attributes m))" and ?p = "nearest_padded_value_length (length v)"
  let ?k = "m\<lparr>sm_raw := msg_header (sm_typ m) k (sm_transaction_id m) @ attrs_wire (sm_attributes m)\<rparr>"
  have w: "length (sm_transaction_id m) = TRANSACTION_ID_SIZE" "sm_length m = of_nat ?n" "?n < 65536"
    using assms(1) by (simp_all add: wf_msg_def)
  have v: "length v \<le> ?p" "length v < 65536" "?p < length v + 4" using npvl_bounds(1,2) [of "length v"] assms(3) by linarith+
  have "unat (sm_length m) = ?n" using w(2,3) by (simp add: unsigned_of_nat take_bit_nat_eq_self_iff)
  then have 1: "length (sm_raw ?k) = MESSAGE_HEADER_SIZE + unat (sm_length ?k)" by (simp add: w(1))
  have wire: "attr_wire ?a = put_u16 t @ put_u16 (of_nat (length v)) @ v @ replicate (?p - length v) 0" by (simp add: attr_wire_def)
  let ?len = "of_nat ?n + of_nat (4 + length v) + of_nat (?p - length v) :: u32"
  have len: "?len = of_nat (length (attrs_wire (sm_attributes m @ [?a])))"
    using v(1) by (simp add: length_attr_wire)
  let ?m = "m\<lparr>sm_raw := msg_header (sm_typ m) k (sm_transaction_id m) @ attrs_wire (sm_attributes m @ [?a]), sm_length := ?len,
    sm_attributes := sm_attributes m @ [?a]\<rparr>"
  have "msg_add t v ?k = write_length ?m"
    using add_value_end [OF 1, of t v] add_padding_end [OF v(2)] by (simp add: msg_add_def w(2) wire)
  also have "\<dots> = Ok (?m\<lparr>sm_raw := msg_header (sm_typ m) (length (attrs_wire (sm_attributes m @ [?a]))) (sm_transaction_id m) @
      attrs_wire (sm_attributes m @ [?a])\<rparr>)"
    using len by (intro write_length_header) simp_all
  finally show ?thesis using assms w v len by (simp add: wf_msg_def attr_ok_def length_attr_wire)
qed

lemma msg_add_wf:
  assumes "wf_msg m" and "t \<noteq> 0x8020" and "length (attrs_wire (sm_attributes m)) + 4 + nearest_padded_value_length (length v) < 65536"
  shows "\<exists>m'. msg_add t v m = Ok m' \<and> wf_msg m' \<and> sm_typ m' = sm_typ m \<and> sm_transaction_id m' = sm_transaction_id m \<and>
    sm_attributes m' = sm_attributes m @ [\<lparr>at_typ = t, at_length = of_nat (length v), at_value = v\<rparr>]"
proof -
  have "m\<lparr>sm_raw := msg_header (sm_typ m) (length (attrs_wire (sm_attributes m))) (sm_transaction_id m) @ attrs_wire (sm_attributes m)\<rparr> = m"
    using assms(1) by (intro stun_message.equality) (simp_all add: wf_msg_def)
  with msg_add_any [OF assms, of "length (attrs_wire (sm_attributes m))"] show ?thesis by simp
qed

lemma write_header_wf:
  assumes "length (sm_transaction_id m) = TRANSACTION_ID_SIZE"
  shows "\<exists>m'. write_header (msg_reset m) = Ok m' \<and> wf_msg m' \<and> sm_attributes m' = []"
proof -
  let ?z = "replicate 20 0 :: bytes" and ?t = "put_u16 (type_value (sm_typ m))"
  have g: "raw_grow MESSAGE_HEADER_SIZE False [] = ?z" by (simp add: raw_grow_def stun_sizes)
  have z: "?z = replicate 2 0 @ replicate 2 0 @ replicate 4 0 @ replicate 12 0" by (simp add: numeral_eq_Suc)
  have 1: "raw_put 0 ?t (raw_grow 2 False ?z) = Ok (?t @ replicate 2 0 @ replicate 4 0 @ replicate 12 0)"
    unfolding z by (simp add: raw_grow_long raw_put_mid [of 0 "[]", simplified])
  have 2: "raw_put 2 (put_u16 0) (raw_grow 4 False (?t @ replicate 2 0 @ replicate 4 0 @ replicate 12 0)) =
      Ok (?t @ put_u16 0 @ replicate 4 0 @ replicate 12 0)"
    by (simp add: raw_grow_long raw_put_mid)
  have 3: "raw_put 4 (put_u32 MAGIC_COOKIE) (?t @ put_u16 0 @ replicate 4 0 @ replicate 12 0) =
      Ok (?t @ put_u16 0 @ put_u32 MAGIC_COOKIE @ replicate 12 0)"
    using raw_put_mid [of 4 "?t @ put_u16 0" "replicate 4 0" "put_u32 MAGIC_COOKIE" "replicate 12 0"] by simp
  have 4: "raw_put 8 (sm_transaction_id m) (?t @ put_u16 0 @ put_u32 MAGIC_COOKIE @ replicate 12 0) =
      Ok (?t @ put_u16 0 @ put_u32 MAGIC_COOKIE @ sm_transaction_id m)"
    using raw_put_end [of 8 "?t @ put_u16 0 @ put_u32 MAGIC_COOKIE" "replicate 12 0" "sm_transaction_id m"] assms
    by (simp add: stun_sizes)
  show ?thesis using assms
    by (simp add: write_header_def msg_reset_def g write_type_def 1 write_length_def 2 3 4 wf_msg_def msg_header_def)
qed

lemma set_type_wf:
  assumes "wf_msg m"
  shows "\<exists>m'. set_type t m = (Ok (), m') \<and> wf_msg m' \<and> sm_typ m' = t \<and> sm_transaction_id m' = sm_transaction_id m \<and>
    sm_attributes m' = sm_attributes m"
  using assms raw_put_mid [of 0 "[]" "put_u16 (type_value (sm_typ m))" "put_u16 (type_value t)"]
  by (simp add: set_type_def as_setter_def write_type_def wf_msg_def msg_header_def raw_grow_long)

lemma set_transaction_id_wf:
  assumes "wf_msg m" and "length tid = TRANSACTION_ID_SIZE"
  shows "\<exists>m'. set_transaction_id tid m = (Ok (), m') \<and> wf_msg m' \<and> sm_typ m' = sm_typ m \<and> sm_transaction_id m' = tid \<and>
    sm_attributes m' = sm_attributes m"
  using assms raw_put_mid [of 8 "put_u16 (type_value (sm_typ m)) @ put_u16 (of_nat (length (attrs_wire (sm_attributes m)))) @
    put_u32 MAGIC_COOKIE" "sm_transaction_id m" tid "attrs_wire (sm_attributes m)"]
  by (simp add: set_transaction_id_def as_setter_def write_transaction_id_def wf_msg_def msg_header_def)

text \<open>Appending attributes in a row.\<close>

definition mk_attr :: "u16 \<times> bytes \<Rightarrow> raw_attribute" where
  "mk_attr = (\<lambda>(t, v). \<lparr>at_typ = t, at_length = of_nat (length v), at_value = v\<rparr>)"

lemma attr_value_mk [simp]: "at_value (mk_attr p) = snd p" "at_typ (mk_attr p) = fst p"
  by (simp_all add: mk_attr_def split: prod.splits)

lemma set_attributes_wf:
  "wf_msg m \<Longrightarrow> \<forall>p \<in> set ps. fst p \<noteq> 0x8020 \<Longrightarrow> length (attrs_wire (sm_attributes m @ map mk_attr ps)) < 65536 \<Longrightarrow>
   \<exists>m'. apply_setters (map (\<lambda>(t, v). set_attribute t v) ps) m = (Ok (), m') \<and> wf_msg m' \<and> sm_typ m' = sm_typ m \<and>
     sm_transaction_id m' = sm_transaction_id m \<and> sm_attributes m' = sm_attributes m @ map mk_attr ps"
proof (induction ps arbitrary: m)
  case (Cons p ps)
  obtain t v where p: "p = (t, v)" by fastforce
  from msg_add_wf [of m t v] Cons.prems p obtain m1 where
    m1: "msg_add t v m = Ok m1" "wf_msg m1" "sm_typ m1 = sm_typ m" "sm_transaction_id m1 = sm_transaction_id m"
      "sm_attributes m1 = sm_attributes m @ [mk_attr p]"
    by (auto simp: length_attr_wire mk_attr_def)
  with Cons.IH [OF m1(2)] Cons.prems(2,3) p show ?case by (auto simp: set_attribute_def as_setter_def)
qed simp

section \<open>Decoding what was built\<close>

lemma be_put:
  "be_u16 (ucast (drop_bit 8 x)) (ucast x) = x"
  "be_u32 (ucast (drop_bit 24 y)) (ucast (drop_bit 16 y)) (ucast (drop_bit 8 y)) (ucast y) = y"
  by (simp_all add: be_u16_def be_u32_def u16_split u32_split)

lemma decode_loop_wire:
  "\<forall>a \<in> set as. attr_ok a \<Longrightarrow> sz = offset + length (attrs_wire as) \<Longrightarrow>
   decode_loop sz offset (attrs_wire as) acc = (Ok (), acc @ as)"
proof (induction as arbitrary: offset acc)
  case Nil
  then show ?case by (simp add: decode_loop.simps)
next
  case (Cons a as)
  let ?l = "length (at_value a)" and ?p = "nearest_padded_value_length (length (at_value a))"
  have ok: "at_length a = of_nat ?l" "unat (at_length a) = ?l" "at_typ a \<noteq> 0x8020"
    using Cons.prems(1) by (auto simp: attr_ok_def unsigned_of_nat take_bit_nat_eq_self_iff)
  have p: "?l \<le> ?p" by (rule npvl_bounds)
  let ?b = "attrs_wire (a # as)"
  have n: "be_u16 (?b ! 0) (?b ! Suc 0) = at_typ a" "be_u16 (?b ! 2) (?b ! 3) = at_length a"
    "drop 4 ?b = at_value a @ replicate (?p - ?l) 0 @ attrs_wire as"
    by (simp_all add: attr_wire_def put_u16_def be_put)
  have len: "length ?b = 4 + ?p + length (attrs_wire as)" by (simp add: length_attr_wire)
  have a: "\<lparr>at_typ = compat_attr_type (at_typ a), at_length = at_length a, at_value = at_value a\<rparr> = a"
    using ok(3) by (simp add: compat_attr_type_def)
  have "decode_loop sz offset ?b acc = decode_loop sz (offset + 4 + ?p) (attrs_wire as) (acc @ [a])"
    by (subst decode_loop.simps)
      (use Cons.prems(2) len p in \<open>simp add: Let_def stun_sizes n ok(2) a del: attrs_wire_simps\<close>)
  also have "\<dots> = (Ok (), acc @ a # as)" using Cons.IH [of "offset + 4 + ?p" "acc @ [a]"] Cons.prems
    by (simp add: length_attr_wire)
  finally show ?case .
qed

lemma msg_decode_wf:
  assumes "wf_msg m" and "wf_type (sm_typ m)"
  shows "msg_decode (m0\<lparr>sm_raw := sm_raw m\<rparr>) = (Ok (), m)"
proof -
  let ?w = "attrs_wire (sm_attributes m)" and ?r = "sm_raw m"
  have w: "length (sm_transaction_id m) = 12" "sm_length m = of_nat (length ?w)" "length ?w < 65536" "\<forall>a \<in> set (sm_attributes m). attr_ok a"
    "?r = put_u16 (type_value (sm_typ m)) @ put_u16 (of_nat (length ?w)) @ put_u32 MAGIC_COOKIE @ sm_transaction_id m @ ?w"
    using assms(1) by (simp_all add: wf_msg_def msg_header_def stun_sizes)
  have u: "unat (of_nat (length ?w) :: u16) = length ?w" using w(3) by (simp add: unsigned_of_nat take_bit_nat_eq_self_iff)
  have n: "be_u16 (?r ! 0) (?r ! Suc 0) = type_value (sm_typ m)" "be_u16 (?r ! 2) (?r ! 3) = of_nat (length ?w)"
    "be_u32 (?r ! 4) (?r ! 5) (?r ! 6) (?r ! 7) = MAGIC_COOKIE" "drop 20 ?r = ?w" "take 12 (drop 8 ?r) = sm_transaction_id m"
    "length ?r = 20 + length ?w"
    unfolding w(5) using w(1) by (simp_all add: put_u16_def put_u32_def be_put)
  have "m0\<lparr>sm_raw := ?r, sm_typ := sm_typ m, sm_length := sm_length m, sm_transaction_id := sm_transaction_id m,
      sm_attributes := sm_attributes m\<rparr> = m" by (rule stun_message.equality) simp_all
  then show ?thesis
    using decode_loop_wire [OF w(4), of "length ?w" 0 "[]"] read_value_type_value [OF assms(2)] w(2)
    by (simp add: msg_decode_def Let_def stun_sizes n u)
qed

text \<open>
  C23. What is built can be decoded. Building a message with a type, a transaction id and any list of attributes
  succeeds, whatever the message held before, as long as the padded attributes fit the 16-bit length; and decoding
  the bytes, with any message, gives exactly that message back: type, transaction id, length and all attributes in order.
\<close>

theorem stun_roundtrip:
  assumes "length (sm_transaction_id m0) = TRANSACTION_ID_SIZE" and "wf_type t" and "length tid = TRANSACTION_ID_SIZE"
    and "\<forall>p \<in> set ps. fst p \<noteq> 0x8020" and "length (attrs_wire (map mk_attr ps)) < 65536"
  shows "\<exists>m. msg_build ([set_type t, set_transaction_id tid] @ map (\<lambda>(a, v). set_attribute a v) ps) m0 = (Ok (), m) \<and>
    sm_typ m = t \<and> sm_transaction_id m = tid \<and> sm_attributes m = map mk_attr ps \<and> is_message (sm_raw m) \<and>
    (\<forall>m1. msg_decode (m1\<lparr>sm_raw := sm_raw m\<rparr>) = (Ok (), m))"
proof -
  from write_header_wf [OF assms(1)] obtain a where a: "write_header (msg_reset m0) = Ok a" "wf_msg a" "sm_attributes a = []" by blast
  from set_type_wf [OF a(2), of t] obtain b where b: "set_type t a = (Ok (), b)" "wf_msg b" "sm_typ b = t" "sm_attributes b = []"
    using a(3) by auto
  from set_transaction_id_wf [OF b(2) assms(3)] obtain c where
    c: "set_transaction_id tid b = (Ok (), c)" "wf_msg c" "sm_typ c = t" "sm_transaction_id c = tid" "sm_attributes c = []"
    using b(3,4) by auto
  from set_attributes_wf [OF c(2) assms(4)] assms(5) c obtain m where
    m: "apply_setters (map (\<lambda>(a, v). set_attribute a v) ps) c = (Ok (), m)" "wf_msg m" "sm_typ m = t" "sm_transaction_id m = tid"
      "sm_attributes m = map mk_attr ps" by auto
  have "is_message (sm_raw m)"
    using m(2) by (simp add: is_message_def wf_msg_def msg_header_def stun_sizes) (simp add: put_u16_def put_u32_def be_put)
  with m msg_decode_wf [OF m(2)] assms(2) show ?thesis
    by (intro exI [of _ m]) (simp add: msg_build_def as_setter_def a(1) b(1) c(1))
qed

theorem stun_roundtrip_witness:
  "\<exists>m. msg_build ([set_type BINDING_REQUEST, set_transaction_id (replicate 12 7)] @
      map (\<lambda>(a, v). set_attribute a v) [(ATTR_USERNAME, [97, 58, 98]), (ATTR_SOFTWARE, [])]) stun_message_new = (Ok (), m) \<and>
    length (sm_attributes m) = 2 \<and> (\<forall>m1. msg_decode (m1\<lparr>sm_raw := sm_raw m\<rparr>) = (Ok (), m))"
  using stun_roundtrip [of stun_message_new BINDING_REQUEST "replicate 12 7" "[(ATTR_USERNAME, [97, 58, 98]), (ATTR_SOFTWARE, [])]"]
  by (fastforce simp: stun_message_new_def stun_sizes wf_type_def BINDING_REQUEST_def ATTR_USERNAME_def ATTR_SOFTWARE_def length_attr_wire
      nearest_padded_value_length_def Let_def)

end
