(* ===== verification/Stun_Attributes.thy ===== *)
theory Stun_Attributes
  imports Stun_Message
begin

text \<open>
  The attributes of STUN messages (\<^verbatim>\<open>crates/stun\<close>: \<^verbatim>\<open>checks.rs\<close>, \<^verbatim>\<open>textattrs.rs\<close>, \<^verbatim>\<open>addr.rs\<close>, \<^verbatim>\<open>xoraddr.rs\<close>,
  \<^verbatim>\<open>error_code.rs\<close>, \<^verbatim>\<open>uattrs.rs\<close>, \<^verbatim>\<open>integrity.rs\<close>, \<^verbatim>\<open>fingerprint.rs\<close>). HMAC-SHA1 and CRC-32 are
  parameters.
\<close>

section \<open>Checks and text attributes\<close>

definition check_hmac :: "bytes \<Rightarrow> bytes \<Rightarrow> unit stun_result" where
  "check_hmac got expected = (if got = expected then Ok () else Err ErrIntegrityMismatch)"

definition check_overflow :: "nat \<Rightarrow> nat \<Rightarrow> unit stun_result" where
  "check_overflow got mx = (if got \<le> mx then Ok () else Err ErrAttributeSizeOverflow)"

definition check_size :: "nat \<Rightarrow> nat \<Rightarrow> unit stun_result" where
  "check_size got expected = (if got = expected then Ok () else Err ErrAttributeSizeInvalid)"

text \<open>The longest texts; no limit means that the type is not a text attribute.\<close>

definition text_max_len :: "u16 \<Rightarrow> nat option" where
  "text_max_len t =
     (if t = ATTR_USERNAME then Some 513 else if t = ATTR_REALM then Some 763 else if t = ATTR_SOFTWARE then Some 763
      else if t = ATTR_NONCE then Some 763 else None)"

definition text_add_to :: "u16 \<Rightarrow> bytes \<Rightarrow> setter" where
  "text_add_to t text m =
     (case text_max_len t of
        None \<Rightarrow> (Err SErr_Other, m)
      | Some max_len \<Rightarrow>
          (case check_overflow (length text) max_len of Ok _ \<Rightarrow> set_attribute t text m | Err e \<Rightarrow> (Err e, m) | Panic \<Rightarrow> (Panic, m)))"

definition text_get_from_as :: "u16 \<Rightarrow> stun_message \<Rightarrow> bytes stun_result" where
  "text_get_from_as t m =
     (case text_max_len t of
        None \<Rightarrow> Err SErr_Other
      | Some _ \<Rightarrow> obind (msg_get t m) (\<lambda>a. if utf8_ok a then Ok a else Err SErr_Utf8))"

section \<open>Addresses\<close>

record mapped_address =
  ma_ip :: ip_addr
  ma_port :: u16

definition FAMILY_IPV4 :: u16 where "FAMILY_IPV4 = 1"
definition FAMILY_IPV6 :: u16 where "FAMILY_IPV6 = 2"
definition IPV4LEN :: nat where "IPV4LEN = 4"
definition IPV6LEN :: nat where "IPV6LEN = 16"

fun ip_family :: "ip_addr \<Rightarrow> u16" where
  "ip_family (IpV4 _) = FAMILY_IPV4" | "ip_family (IpV6 _) = FAMILY_IPV6"

fun ip_octets :: "ip_addr \<Rightarrow> bytes" where
  "ip_octets (IpV4 o4) = o4" | "ip_octets (IpV6 o6) = o6"

definition mapped_add_to_as :: "u16 \<Rightarrow> mapped_address \<Rightarrow> setter" where
  "mapped_add_to_as t a = set_attribute t (put_u16 (ip_family (ma_ip a)) @ put_u16 (ma_port a) @ ip_octets (ma_ip a))"

text \<open>A short address is filled with zeros, a long one cut off.\<close>

definition copy_ip :: "nat \<Rightarrow> bytes \<Rightarrow> bytes" where
  "copy_ip n v = (let l = min n (length v) in take l v @ replicate (n - l) 0)"

definition mapped_decode :: "bytes \<Rightarrow> mapped_address stun_result" where
  "mapped_decode v =
     (if length v \<le> 4 then Err ErrUnexpectedEof
      else
        let family = be_u16 (v ! 0) (v ! 1); port = be_u16 (v ! 2) (v ! 3) in
        if family \<noteq> FAMILY_IPV6 \<and> family \<noteq> FAMILY_IPV4 then Err SErr_Other
        else if family = FAMILY_IPV6 then Ok \<lparr>ma_ip = IpV6 (copy_ip IPV6LEN (drop 4 v)), ma_port = port\<rparr>
        else Ok \<lparr>ma_ip = IpV4 (copy_ip IPV4LEN (drop 4 v)), ma_port = port\<rparr>)"

definition mapped_get_from_as :: "u16 \<Rightarrow> stun_message \<Rightarrow> mapped_address stun_result" where
  "mapped_get_from_as t m = obind (msg_get t m) mapped_decode"

definition safe_xor_bytes :: "bytes \<Rightarrow> bytes \<Rightarrow> bytes \<Rightarrow> nat \<times> bytes" where
  "safe_xor_bytes dst a b =
     (let n = length a; n = (if length b < n then length b else n); n = (if length dst < n then length dst else n)
      in (n, map2 (XOR) (take n a) (take n b) @ drop n dst))"

definition xor_value :: "bytes \<Rightarrow> bytes" where
  "xor_value tid = put_u32 MAGIC_COOKIE @ tid"

definition xor_port :: "u16 \<Rightarrow> u16" where
  "xor_port p = p XOR ucast (drop_bit 16 MAGIC_COOKIE)"

definition xor_encode :: "bytes \<Rightarrow> mapped_address \<Rightarrow> bytes" where
  "xor_encode tid a =
     put_u16 (ip_family (ma_ip a)) @ put_u16 (xor_port (ma_port a)) @
     snd (safe_xor_bytes (replicate (length (ip_octets (ma_ip a))) 0) (ip_octets (ma_ip a)) (xor_value tid))"

definition xor_add_to_as :: "u16 \<Rightarrow> mapped_address \<Rightarrow> setter" where
  "xor_add_to_as t a m = set_attribute t (xor_encode (sm_transaction_id m) a) m"

definition xor_decode :: "bytes \<Rightarrow> bytes \<Rightarrow> mapped_address stun_result" where
  "xor_decode tid v =
     (if length v \<le> 4 then Err ErrUnexpectedEof
      else
        let family = be_u16 (v ! 0) (v ! 1) in
        if family \<noteq> FAMILY_IPV6 \<and> family \<noteq> FAMILY_IPV4 then Err SErr_Other
        else
          obind (check_overflow (length (drop 4 v)) (if family = FAMILY_IPV4 then IPV4LEN else IPV6LEN)) (\<lambda>_.
            let port = xor_port (be_u16 (v ! 2) (v ! 3)) in
            if family = FAMILY_IPV6
            then Ok \<lparr>ma_ip = IpV6 (snd (safe_xor_bytes (replicate IPV6LEN 0) (drop 4 v) (xor_value tid))), ma_port = port\<rparr>
            else Ok \<lparr>ma_ip = IpV4 (snd (safe_xor_bytes (replicate IPV4LEN 0) (drop 4 v) (xor_value tid))), ma_port = port\<rparr>))"

definition xor_get_from_as :: "u16 \<Rightarrow> stun_message \<Rightarrow> mapped_address stun_result" where
  "xor_get_from_as t m = obind (msg_get t m) (xor_decode (sm_transaction_id m))"

section \<open>Error codes and unknown attributes\<close>

record error_code_attribute =
  ec_code :: u16
  ec_reason :: bytes

definition error_code_encode :: "error_code_attribute \<Rightarrow> bytes" where
  "error_code_encode a = [0, 0, ucast (ec_code a div 100), ucast (ec_code a mod 100)] @ ec_reason a"

definition error_code_add_to :: "error_code_attribute \<Rightarrow> setter" where
  "error_code_add_to a m =
     (case check_overflow (length (ec_reason a) + 4) (763 + 4) of
        Ok _ \<Rightarrow> set_attribute ATTR_ERROR_CODE (error_code_encode a) m
      | Err e \<Rightarrow> (Err e, m)
      | Panic \<Rightarrow> (Panic, m))"

definition error_code_decode :: "bytes \<Rightarrow> error_code_attribute stun_result" where
  "error_code_decode v =
     (if length v < 4 then Err ErrUnexpectedEof
      else Ok \<lparr>ec_code = ucast (v ! 2) * 100 + ucast (v ! 3), ec_reason = drop 4 v\<rparr>)"

definition error_code_get_from :: "stun_message \<Rightarrow> error_code_attribute stun_result" where
  "error_code_get_from m = obind (msg_get ATTR_ERROR_CODE m) error_code_decode"

definition unknown_add_to :: "u16 list \<Rightarrow> setter" where
  "unknown_add_to ts = set_attribute ATTR_UNKNOWN_ATTRIBUTES (concat (map put_u16 ts))"

function unknown_loop :: "bytes \<Rightarrow> nat \<Rightarrow> u16 list" where
  "unknown_loop v first = (if first < length v then be_u16 (v ! first) (v ! (first + 1)) # unknown_loop v (first + 2) else [])"
  by pat_completeness auto
termination
  by (relation "measure (\<lambda>(v, first). length v - first)") auto

declare unknown_loop.simps [simp del]

definition unknown_decode :: "bytes \<Rightarrow> u16 list stun_result" where
  "unknown_decode v = (if length v mod 2 \<noteq> 0 then Err ErrBadUnknownAttrsSize else Ok (unknown_loop v 0))"

definition unknown_get_from :: "stun_message \<Rightarrow> u16 list stun_result" where
  "unknown_get_from m = obind (msg_get ATTR_UNKNOWN_ATTRIBUTES m) unknown_decode"

section \<open>Integrity and fingerprint\<close>

definition MESSAGE_INTEGRITY_SIZE :: nat where "MESSAGE_INTEGRITY_SIZE = 20"

definition integrity_add_to :: "(bytes \<Rightarrow> bytes \<Rightarrow> bytes) \<Rightarrow> bytes \<Rightarrow> setter" where
  "integrity_add_to new_hmac key m =
     (if \<exists>a \<in> set (sm_attributes m). at_typ a = ATTR_FINGERPRINT then (Err ErrFingerprintBeforeIntegrity, m)
      else
        as_setter (\<lambda>m.
          obind (write_length (m\<lparr>sm_length := sm_length m + of_nat (MESSAGE_INTEGRITY_SIZE + ATTRIBUTE_HEADER_SIZE)\<rparr>)) (\<lambda>m1.
            msg_add ATTR_MESSAGE_INTEGRITY (new_hmac key (sm_raw m1)) (m1\<lparr>sm_length := sm_length m\<rparr>))) m)"

text \<open>The sizes of the attributes after the first \<^verbatim>\<open>MESSAGE-INTEGRITY\<close>.\<close>

fun size_after_integrity :: "bool \<Rightarrow> raw_attribute list \<Rightarrow> nat" where
  "size_after_integrity after [] = 0"
| "size_after_integrity after (a # as) =
     (if after then nearest_padded_value_length (unat (at_length a)) + ATTRIBUTE_HEADER_SIZE else 0) +
     size_after_integrity (after \<or> at_typ a = ATTR_MESSAGE_INTEGRITY) as"

definition integrity_check :: "(bytes \<Rightarrow> bytes \<Rightarrow> bytes) \<Rightarrow> bytes \<Rightarrow> setter" where
  "integrity_check new_hmac key m =
     (case msg_get ATTR_MESSAGE_INTEGRITY m of
        Err e \<Rightarrow> (Err e, m)
      | Panic \<Rightarrow> (Panic, m)
      | Ok v \<Rightarrow>
          let size_reduced = size_after_integrity False (sm_attributes m) in
          (case write_length (m\<lparr>sm_length := sm_length m - of_nat size_reduced\<rparr>) of
             Ok m1 \<Rightarrow>
               if MESSAGE_HEADER_SIZE + unat (sm_length m1) < ATTRIBUTE_HEADER_SIZE + MESSAGE_INTEGRITY_SIZE then (Panic, m1)
               else
                 let start_of_hmac = MESSAGE_HEADER_SIZE + unat (sm_length m1) - (ATTRIBUTE_HEADER_SIZE + MESSAGE_INTEGRITY_SIZE) in
                 (case bytes_slice (sm_raw m1) 0 start_of_hmac of
                    Ok b \<Rightarrow>
                      (case write_length (m1\<lparr>sm_length := sm_length m\<rparr>) of
                         Ok m2 \<Rightarrow> (check_hmac v (new_hmac key b), m2)
                       | _ \<Rightarrow> (Panic, m1))
                  | Err e \<Rightarrow> (Err e, m1)
                  | Panic \<Rightarrow> (Panic, m1))
           | Err e \<Rightarrow> (Err e, m)
           | Panic \<Rightarrow> (Panic, m)))"

definition FINGERPRINT_SIZE :: nat where "FINGERPRINT_SIZE = 4"

definition fingerprint_value :: "(bytes \<Rightarrow> u32) \<Rightarrow> bytes \<Rightarrow> u32" where
  "fingerprint_value crc32 b = crc32 b XOR 0x5354554e"

definition fingerprint_add_to :: "(bytes \<Rightarrow> u32) \<Rightarrow> setter" where
  "fingerprint_add_to crc32 =
     as_setter (\<lambda>m.
       obind (write_length (m\<lparr>sm_length := sm_length m + of_nat (FINGERPRINT_SIZE + ATTRIBUTE_HEADER_SIZE)\<rparr>)) (\<lambda>m1.
         msg_add ATTR_FINGERPRINT (put_u32 (fingerprint_value crc32 (sm_raw m1))) (m1\<lparr>sm_length := sm_length m\<rparr>)))"

section \<open>Attributes survive the wire\<close>

text \<open>
  The contract of an attribute: its value can be decoded from its encoding, both relative to a transaction id. Then the
  value is found in the decoded message whatever is added after it.
\<close>

text \<open>The first attribute of a type.\<close>

lemma find_after: "\<forall>a \<in> set as. at_typ a \<noteq> t \<Longrightarrow> at_typ b = t \<Longrightarrow> find (\<lambda>a. at_typ a = t) (as @ b # bs) = Some b"
  by (induction as) auto

locale stun_attribute =
  fixes aty :: u16 and encode :: "bytes \<Rightarrow> 'a \<Rightarrow> bytes" and decode :: "bytes \<Rightarrow> bytes \<Rightarrow> 'a stun_result" and valid :: "'a \<Rightarrow> bool"
  assumes aty_current: "aty \<noteq> 0x8020"
    and decode_encode: "valid x \<Longrightarrow> length tid = TRANSACTION_ID_SIZE \<Longrightarrow> decode tid (encode tid x) = Ok x"
begin

lemma found_after:
  assumes "\<not> msg_contains aty m" and "sm_attributes m2 = sm_attributes m @ mk_attr (aty, v) # rest"
  shows "msg_get aty m2 = Ok v"
  using assms by (simp add: msg_contains_def msg_get_def find_after)

lemma received:
  assumes "wf_msg m" and "wf_type (sm_typ m)" and "\<not> msg_contains aty m" and "valid x" and "\<forall>p \<in> set ps. fst p \<noteq> 0x8020"
    and "length (attrs_wire (sm_attributes m @ map mk_attr ((aty, encode (sm_transaction_id m) x) # ps))) < 65536"
  shows "\<exists>m2. apply_setters (set_attribute aty (encode (sm_transaction_id m) x) # map (\<lambda>(t, v). set_attribute t v) ps) m = (Ok (), m2) \<and>
    (\<forall>m0. msg_decode (m0\<lparr>sm_raw := sm_raw m2\<rparr>) = (Ok (), m2)) \<and> obind (msg_get aty m2) (decode (sm_transaction_id m2)) = Ok x"
proof -
  let ?v = "encode (sm_transaction_id m) x"
  have "\<forall>p \<in> set ((aty, ?v) # ps). fst p \<noteq> 0x8020" using assms(5) aty_current by simp
  from set_attributes_wf [OF assms(1) this assms(6)] obtain m2 where
    m2: "apply_setters (map (\<lambda>(t, v). set_attribute t v) ((aty, ?v) # ps)) m = (Ok (), m2)" "wf_msg m2" "sm_typ m2 = sm_typ m"
      "sm_transaction_id m2 = sm_transaction_id m" "sm_attributes m2 = sm_attributes m @ mk_attr (aty, ?v) # map mk_attr ps" by auto
  have "length (sm_transaction_id m) = TRANSACTION_ID_SIZE" using assms(1) by (simp add: wf_msg_def)
  with m2 found_after [OF assms(3) m2(5)] msg_decode_wf [OF m2(2)] assms(2) decode_encode [OF assms(4)] show ?thesis
    by (intro exI [of _ m2]) (simp del: apply_setters.simps)
qed

end

definition ip_ok :: "ip_addr \<Rightarrow> bool" where
  "ip_ok ip = (case ip of IpV4 o4 \<Rightarrow> length o4 = IPV4LEN | IpV6 o6 \<Rightarrow> length o6 = IPV6LEN)"

lemma map2_xor_twice: "length a \<le> length b \<Longrightarrow> map2 (XOR) (map2 (XOR) a b) b = (a :: u8 list)"
  by (induction a b rule: list_induct2') (simp_all add: xor.assoc)

lemma xor_bytes_twice:
  assumes "length a = n" and "n \<le> length b"
  shows "snd (safe_xor_bytes (replicate n 0) (snd (safe_xor_bytes (replicate n 0) a b)) b) = a"
    and "length (snd (safe_xor_bytes (replicate n 0) a b)) = n"
  using assms map2_xor_twice [of a "take n b"] by (auto simp: safe_xor_bytes_def Let_def)

lemma xor_port_twice: "xor_port (xor_port p) = p"
  by (simp add: xor_port_def xor.assoc)

lemma be_put_nth:
  "be_u16 ((put_u16 x @ r) ! 0) ((put_u16 x @ r) ! Suc 0) = x"
  "be_u16 ((put_u16 x @ put_u16 y @ r) ! 2) ((put_u16 x @ put_u16 y @ r) ! 3) = y"
  "drop 4 (put_u16 x @ put_u16 y @ r) = r"
  by (simp_all add: put_u16_def be_put)

interpretation xor_mapped: stun_attribute ATTR_XORMAPPED_ADDRESS xor_encode xor_decode "\<lambda>a. ip_ok (ma_ip a)"
proof
  fix a :: mapped_address and tid :: bytes
  assume ok: "ip_ok (ma_ip a)" and "length tid = TRANSACTION_ID_SIZE"
  then have x: "length (xor_value tid) = 16" by (simp add: xor_value_def stun_sizes)
  show "xor_decode tid (xor_encode tid a) = Ok a"
  proof (cases "ma_ip a")
    case (IpV4 o4)
    with ok x have "length o4 = 4" by (simp add: ip_ok_def IPV4LEN_def)
    with IpV4 x xor_bytes_twice [of o4 4 "xor_value tid"] show ?thesis
      by (simp add: xor_decode_def xor_encode_def be_put_nth Let_def check_overflow_def xor_port_twice FAMILY_IPV4_def FAMILY_IPV6_def IPV4LEN_def)
  next
    case (IpV6 o6)
    with ok x have "length o6 = 16" by (simp add: ip_ok_def IPV6LEN_def)
    with IpV6 x xor_bytes_twice [of o6 16 "xor_value tid"] show ?thesis
      by (simp add: xor_decode_def xor_encode_def be_put_nth Let_def check_overflow_def xor_port_twice FAMILY_IPV4_def FAMILY_IPV6_def IPV6LEN_def)
  qed
qed (simp add: ATTR_XORMAPPED_ADDRESS_def)

interpretation plain_mapped: stun_attribute ATTR_MAPPED_ADDRESS
  "\<lambda>_ a. put_u16 (ip_family (ma_ip a)) @ put_u16 (ma_port a) @ ip_octets (ma_ip a)" "\<lambda>_. mapped_decode" "\<lambda>a. ip_ok (ma_ip a)"
proof
  fix a :: mapped_address and tid :: bytes
  assume ok: "ip_ok (ma_ip a)"
  show "mapped_decode (put_u16 (ip_family (ma_ip a)) @ put_u16 (ma_port a) @ ip_octets (ma_ip a)) = Ok a"
    using ok by (cases "ma_ip a")
      (simp_all add: mapped_decode_def ip_ok_def be_put_nth Let_def copy_ip_def FAMILY_IPV4_def FAMILY_IPV6_def IPV4LEN_def IPV6LEN_def)
qed (simp add: ATTR_MAPPED_ADDRESS_def)

interpretation error_code: stun_attribute ATTR_ERROR_CODE "\<lambda>_. error_code_encode" "\<lambda>_. error_code_decode" "\<lambda>a. ec_code a < 25600"
proof
  fix a :: error_code_attribute and tid :: bytes
  assume a: "ec_code a < 25600"
  have d: "unat (ec_code a div 100) < 256" "unat (ec_code a mod 100) < 256"
    using a by (simp_all add: unat_div unat_mod word_less_nat_alt)
  have u: "ucast (ucast x :: u8) = x" if "unat x < 256" for x :: u16
    by (rule bit_word_eqI) (use bit_below [of x 8] that in \<open>auto simp: bit_unsigned_iff\<close>)
  have "ucast (ucast (ec_code a div 100) :: u8) * 100 + ucast (ucast (ec_code a mod 100) :: u8) = ec_code a"
    by (simp add: u d div_mult_mod_eq)
  then show "error_code_decode (error_code_encode a) = Ok a" by (simp add: error_code_decode_def error_code_encode_def)
qed (simp add: ATTR_ERROR_CODE_def)

lemma unknown_loop_wire: "first = length pre \<Longrightarrow> unknown_loop (pre @ concat (map put_u16 ts)) first = ts"
proof (induction ts arbitrary: pre first)
  case (Cons t ts)
  have "unknown_loop ((pre @ put_u16 t) @ concat (map put_u16 ts)) (first + 2) = ts" using Cons by (intro Cons.IH) simp
  then show ?case using Cons.prems by (subst unknown_loop.simps) (simp add: nth_append put_u16_def be_put)
qed (simp add: unknown_loop.simps)

lemma length_put_u16s: "length (concat (map put_u16 ts)) = 2 * length ts"
  by (induction ts) simp_all

interpretation unknown: stun_attribute ATTR_UNKNOWN_ATTRIBUTES "\<lambda>_ ts. concat (map put_u16 ts)" "\<lambda>_. unknown_decode" "\<lambda>_. True"
  by unfold_locales (simp_all add: ATTR_UNKNOWN_ATTRIBUTES_def unknown_decode_def length_put_u16s unknown_loop_wire [of 0 "[]", simplified])

interpretation username: stun_attribute ATTR_USERNAME "\<lambda>_ x. x" "\<lambda>_ a. if utf8_ok a then Ok a else Err SErr_Utf8" utf8_ok
  by unfold_locales (simp_all add: ATTR_USERNAME_def)

text \<open>
  The address a STUN server reports arrives. An address of either family put into a message as
  \<^verbatim>\<open>XOR-MAPPED-ADDRESS\<close>, combined with the magic cookie and the transaction id, is what the receiver reads from the
  decoded message, whatever attributes follow it.
\<close>

theorem xor_address_received:
  assumes "wf_msg m" and "wf_type (sm_typ m)" and "\<not> msg_contains ATTR_XORMAPPED_ADDRESS m" and "ip_ok (ma_ip a)"
    and "\<forall>p \<in> set ps. fst p \<noteq> 0x8020"
    and "length (attrs_wire (sm_attributes m @ map mk_attr ((ATTR_XORMAPPED_ADDRESS, xor_encode (sm_transaction_id m) a) # ps))) < 65536"
  shows "\<exists>m2. apply_setters (xor_add_to_as ATTR_XORMAPPED_ADDRESS a # map (\<lambda>(t, v). set_attribute t v) ps) m = (Ok (), m2) \<and>
    (\<forall>m0. \<exists>m3. msg_decode (m0\<lparr>sm_raw := sm_raw m2\<rparr>) = (Ok (), m3) \<and> xor_get_from_as ATTR_XORMAPPED_ADDRESS m3 = Ok a)"
  using xor_mapped.received [OF assms] by (auto simp: xor_add_to_as_def xor_get_from_as_def)

theorem xor_address_received_witness:
  "\<exists>m m2. write_header (msg_reset stun_message_new) = Ok m \<and>
    apply_setters [xor_add_to_as ATTR_XORMAPPED_ADDRESS \<lparr>ma_ip = IpV4 [192, 0, 2, 1], ma_port = 3478\<rparr>] m = (Ok (), m2) \<and>
    (\<forall>m0. \<exists>m3. msg_decode (m0\<lparr>sm_raw := sm_raw m2\<rparr>) = (Ok (), m3) \<and>
       xor_get_from_as ATTR_XORMAPPED_ADDRESS m3 = Ok \<lparr>ma_ip = IpV4 [192, 0, 2, 1], ma_port = 3478\<rparr>)"
proof -
  let ?a = "\<lparr>ma_ip = IpV4 [192, 0, 2, 1], ma_port = 3478\<rparr>"
  have "length (sm_transaction_id stun_message_new) = TRANSACTION_ID_SIZE" by (simp add: stun_message_new_def)
  from write_header_wf [OF this] obtain m where m: "write_header (msg_reset stun_message_new) = Ok m" "wf_msg m" "sm_attributes m = []"
    by blast
  have "wf_type (sm_typ m)"
    using m(1) by (auto simp: write_header_def obind_eq_Ok write_type_def write_length_def msg_reset_def stun_message_new_def wf_type_def)
  moreover have "length (xor_encode (sm_transaction_id m) ?a) = 8"
    using m(2) by (simp add: xor_encode_def xor_value_def wf_msg_def stun_sizes safe_xor_bytes_def)
  ultimately show ?thesis using xor_address_received [OF m(2), of ?a "[]"] m
    by (auto simp: msg_contains_def ip_ok_def IPV4LEN_def length_attr_wire nearest_padded_value_length_def stun_sizes)
qed

section \<open>Integrity\<close>

text \<open>What the code authenticates: the header, with a length that ends after the integrity attribute, and all attributes before it.\<close>

definition integrity_text :: "stun_message \<Rightarrow> raw_attribute list \<Rightarrow> bytes" where
  "integrity_text m pre = msg_header (sm_typ m) (length (attrs_wire pre) + 24) (sm_transaction_id m) @ attrs_wire pre"

lemma attr_ok_length: "attr_ok a \<Longrightarrow> unat (at_length a) = length (at_value a)"
  by (auto simp: attr_ok_def unsigned_of_nat take_bit_nat_eq_self_iff)

lemma size_after_True: "\<forall>a \<in> set as. attr_ok a \<Longrightarrow> size_after_integrity True as = length (attrs_wire as)"
  by (induction as) (simp_all add: attr_ok_length length_attr_wire stun_sizes)

lemma size_after_first:
  "\<forall>b \<in> set pre. at_typ b \<noteq> ATTR_MESSAGE_INTEGRITY \<Longrightarrow> at_typ a = ATTR_MESSAGE_INTEGRITY \<Longrightarrow> \<forall>b \<in> set post. attr_ok b \<Longrightarrow>
   size_after_integrity False (pre @ a # post) = length (attrs_wire post)"
  by (induction pre) (simp_all add: size_after_True)

lemma integrity_check_iff:
  assumes "wf_msg m" and "sm_attributes m = pre @ a # post" and "at_typ a = ATTR_MESSAGE_INTEGRITY"
    and "\<forall>b \<in> set pre. at_typ b \<noteq> ATTR_MESSAGE_INTEGRITY" and "\<And>k b. length (new_hmac k b) = MESSAGE_INTEGRITY_SIZE"
  shows "integrity_check new_hmac key m =
    (if at_value a = new_hmac key (integrity_text m pre) then Ok () else Err ErrIntegrityMismatch, m)"
proof -
  let ?w = "attrs_wire (sm_attributes m)" and ?v = "at_value a" and ?h = "\<lambda>n. msg_header (sm_typ m) n (sm_transaction_id m)"
  define k where "k = length (attrs_wire pre) + length (attr_wire a)"
  have w: "length (sm_transaction_id m) = TRANSACTION_ID_SIZE" "sm_length m = of_nat (length ?w)" "length ?w < 65536" "sm_raw m = ?h (length ?w) @ ?w"
    "\<forall>b \<in> set post. attr_ok b" using assms(1,2) by (simp_all add: wf_msg_def)
  have n: "length ?w = k + length (attrs_wire post)" by (simp add: assms(2) k_def)
  have "sm_length m - of_nat (size_after_integrity False (sm_attributes m)) = of_nat k"
    using size_after_first [OF assms(4,3) w(5)] by (simp add: assms(2) w(2) k_def)
  note reduced = this
  have wl: "write_length (m\<lparr>sm_length := of_nat k\<rparr>) = Ok (m\<lparr>sm_length := of_nat k, sm_raw := ?h k @ ?w\<rparr>)"
    using write_length_header [of "m\<lparr>sm_length := of_nat k\<rparr>" "sm_typ m" "length ?w" "sm_transaction_id m" ?w k] w(4) by simp
  have restored: "write_length (m\<lparr>sm_length := of_nat k, sm_raw := ?h k @ ?w, sm_length := sm_length m\<rparr>) = Ok m"
  proof -
    have "write_length (m\<lparr>sm_raw := ?h k @ ?w\<rparr>) = Ok (m\<lparr>sm_raw := ?h (length ?w) @ ?w\<rparr>)"
      using write_length_header [of "m\<lparr>sm_raw := ?h k @ ?w\<rparr>" "sm_typ m" k "sm_transaction_id m" ?w "length ?w"] w(2) by simp
    moreover have "m\<lparr>sm_raw := ?h (length ?w) @ ?w\<rparr> = m" 
      "m\<lparr>sm_length := of_nat k, sm_raw := ?h k @ ?w, sm_length := sm_length m\<rparr> = m\<lparr>sm_raw := ?h k @ ?w\<rparr>"
      by (auto intro!: stun_message.equality simp: w(4))
    ultimately show ?thesis by simp
  qed
  have u: "unat (of_nat k :: u32) = k" using w(3) n by (simp add: unsigned_of_nat take_bit_nat_eq_self_iff)
  have k: "4 \<le> k" by (simp add: length_attr_wire k_def)
  have get: "msg_get ATTR_MESSAGE_INTEGRITY m = Ok ?v" using find_after [OF assms(4,3)] by (simp add: msg_get_def assms(2))
  let ?b = "take (k - 4) (?h k @ ?w)"
  have slice: "bytes_slice (?h k @ ?w) 0 (20 + k - 24) = (Ok ?b :: bytes stun_result)"
    using k n w(1) by (simp add: bytes_slice_def stun_sizes)
  have res: "check_hmac ?v (new_hmac key ?b) = (if ?v = new_hmac key (integrity_text m pre) then Ok () else Err ErrIntegrityMismatch)"
  proof (cases "length ?v = 20")
    case True
    then have a: "length (attr_wire a) = 24" by (simp add: length_attr_wire nearest_padded_value_length_def stun_sizes)
    then have "?b = integrity_text m pre" using w(1) by (simp add: integrity_text_def assms(2) stun_sizes k_def)
    then show ?thesis by (simp add: check_hmac_def)
  next
    case False
    then have "?v \<noteq> new_hmac key x" for x using assms(5) [of key x] by (auto simp: MESSAGE_INTEGRITY_SIZE_def)
    then show ?thesis by (simp add: check_hmac_def)
  qed
  show ?thesis unfolding integrity_check_def get outcome.case Let_def reduced wl
    using slice restored u k res by (simp add: stun_sizes MESSAGE_INTEGRITY_SIZE_def)
qed

text \<open>Adding an attribute whose value is computed from the buffer under an adjusted length.\<close>

lemma adjusted_add:
  assumes "wf_msg m" and "t \<noteq> 0x8020" and "length v < 65536"
    and "length (attrs_wire (sm_attributes m)) + 4 + nearest_padded_value_length (length v) < 65536"
    and "v = f (msg_header (sm_typ m) (length (attrs_wire (sm_attributes m)) + k) (sm_transaction_id m) @ attrs_wire (sm_attributes m))"
  shows "\<exists>m'. obind (write_length (m\<lparr>sm_length := sm_length m + of_nat k\<rparr>)) (\<lambda>m1. msg_add t (f (sm_raw m1)) (m1\<lparr>sm_length := sm_length m\<rparr>)) = Ok m' \<and>
    wf_msg m' \<and> sm_typ m' = sm_typ m \<and> sm_transaction_id m' = sm_transaction_id m \<and> sm_attributes m' = sm_attributes m @ [mk_attr (t, v)]"
proof -
  let ?w = "attrs_wire (sm_attributes m)"
  let ?h = "msg_header (sm_typ m) (length ?w + k) (sm_transaction_id m)"
  have w: "sm_length m = of_nat (length ?w)" "sm_raw m = msg_header (sm_typ m) (length ?w) (sm_transaction_id m) @ ?w"
    using assms(1) by (simp_all add: wf_msg_def)
  have 1: "write_length (m\<lparr>sm_length := sm_length m + of_nat k\<rparr>) = Ok (m\<lparr>sm_length := sm_length m + of_nat k, sm_raw := ?h @ ?w\<rparr>)"
    using write_length_header [of "m\<lparr>sm_length := sm_length m + of_nat k\<rparr>" "sm_typ m" "length ?w" "sm_transaction_id m" ?w "length ?w + k"] w
    by simp
  have 2: "m\<lparr>sm_length := sm_length m + of_nat k, sm_raw := ?h @ ?w, sm_length := sm_length m\<rparr> = m\<lparr>sm_raw := ?h @ ?w\<rparr>"
    by (rule stun_message.equality) simp_all
  from msg_add_any [OF assms(1,2,4), of "length ?w + k"] show ?thesis
    unfolding 1 using assms(5) by (auto simp: 2 mk_attr_def simp del: stun_message.update_convs)
qed

lemma integrity_add_wf:
  assumes "wf_msg m" and "\<not> msg_contains ATTR_FINGERPRINT m" and "length (attrs_wire (sm_attributes m)) + 24 < 65536"
    and "\<And>k b. length (new_hmac k b) = MESSAGE_INTEGRITY_SIZE"
  shows "\<exists>m'. integrity_add_to new_hmac key m = (Ok (), m') \<and> wf_msg m' \<and> sm_typ m' = sm_typ m \<and> sm_transaction_id m' = sm_transaction_id m \<and>
    sm_attributes m' = sm_attributes m @ [mk_attr (ATTR_MESSAGE_INTEGRITY, new_hmac key (integrity_text m (sm_attributes m)))]"
proof -
  let ?v = "new_hmac key (integrity_text m (sm_attributes m))"
  have l: "length ?v = 20" using assms(4) by (simp add: MESSAGE_INTEGRITY_SIZE_def)
  then have "nearest_padded_value_length (length ?v) = 20" by (simp add: nearest_padded_value_length_def stun_sizes)
  with adjusted_add [OF assms(1), of ATTR_MESSAGE_INTEGRITY ?v "new_hmac key" 24] l assms(2,3) show ?thesis
    by (auto simp: integrity_add_to_def as_setter_def msg_contains_def integrity_text_def ATTR_MESSAGE_INTEGRITY_def stun_sizes MESSAGE_INTEGRITY_SIZE_def)
qed

lemma fingerprint_add_wf:
  assumes "wf_msg m" and "length (attrs_wire (sm_attributes m)) + 8 < 65536"
  shows "\<exists>m' v. fingerprint_add_to crc32 m = (Ok (), m') \<and> wf_msg m' \<and> sm_typ m' = sm_typ m \<and> sm_transaction_id m' = sm_transaction_id m \<and>
    sm_attributes m' = sm_attributes m @ [mk_attr (ATTR_FINGERPRINT, v)]"
proof -
  let ?f = "\<lambda>b. put_u32 (fingerprint_value crc32 b)"
  let ?v = "?f (msg_header (sm_typ m) (length (attrs_wire (sm_attributes m)) + 8) (sm_transaction_id m) @ attrs_wire (sm_attributes m))"
  have "nearest_padded_value_length (length ?v) = 4" by (simp add: nearest_padded_value_length_def stun_sizes)
  with adjusted_add [OF assms(1), of ATTR_FINGERPRINT ?v ?f 8] assms(2) show ?thesis
    by (auto simp: fingerprint_add_to_def as_setter_def ATTR_FINGERPRINT_def stun_sizes FINGERPRINT_SIZE_def)
qed

lemma integrity_sealed:
  assumes "wf_msg m" and "wf_type (sm_typ m)" and "\<not> msg_contains ATTR_FINGERPRINT m" and "\<not> msg_contains ATTR_MESSAGE_INTEGRITY m"
    and "length (attrs_wire (sm_attributes m)) + 32 < 65536" and "\<And>k b. length (new_hmac k b) = MESSAGE_INTEGRITY_SIZE"
  shows "\<exists>m2. apply_setters [integrity_add_to new_hmac key, fingerprint_add_to crc32] m = (Ok (), m2) \<and> wf_msg m2 \<and> sm_typ m2 = sm_typ m \<and>
    sm_transaction_id m2 = sm_transaction_id m \<and> (\<exists>v w. sm_attributes m2 = sm_attributes m @ map mk_attr [(ATTR_MESSAGE_INTEGRITY, v), (ATTR_FINGERPRINT, w)]) \<and>
    (\<forall>m0. msg_decode (m0\<lparr>sm_raw := sm_raw m2\<rparr>) = (Ok (), m2)) \<and>
    (\<forall>key'. integrity_check new_hmac key' m2 =
      (if new_hmac key (integrity_text m (sm_attributes m)) = new_hmac key' (integrity_text m (sm_attributes m))
       then Ok () else Err ErrIntegrityMismatch, m2))"
proof -
  have "length (attrs_wire (sm_attributes m)) + 24 < 65536" using assms(5) by simp
  from integrity_add_wf [where new_hmac = new_hmac and key = key, OF assms(1,3) this assms(6)] obtain m1 where
    m1: "integrity_add_to new_hmac key m = (Ok (), m1)" "wf_msg m1" "sm_typ m1 = sm_typ m" "sm_transaction_id m1 = sm_transaction_id m"
      "sm_attributes m1 = sm_attributes m @ [mk_attr (ATTR_MESSAGE_INTEGRITY, new_hmac key (integrity_text m (sm_attributes m)))]" by blast
  have "length (attrs_wire (sm_attributes m1)) + 8 < 65536"
    using assms(5) by (simp add: m1(5) length_attr_wire assms(6) nearest_padded_value_length_def stun_sizes MESSAGE_INTEGRITY_SIZE_def)
  from fingerprint_add_wf [OF m1(2) this, of crc32] obtain m2 v where
    m2: "fingerprint_add_to crc32 m1 = (Ok (), m2)" "wf_msg m2" "sm_typ m2 = sm_typ m" "sm_transaction_id m2 = sm_transaction_id m"
      "sm_attributes m2 = sm_attributes m @ mk_attr (ATTR_MESSAGE_INTEGRITY, new_hmac key (integrity_text m (sm_attributes m))) #
        [mk_attr (ATTR_FINGERPRINT, v)]" using m1(3-5) by auto
  have same_text: "integrity_text m2 pre = integrity_text m pre" for pre using m2(3,4) by (simp add: integrity_text_def)
  have "\<forall>b \<in> set (sm_attributes m). at_typ b \<noteq> ATTR_MESSAGE_INTEGRITY" using assms(4) by (auto simp: msg_contains_def)
  from integrity_check_iff [where new_hmac = new_hmac, OF m2(2,5) _ this assms(6)] msg_decode_wf [OF m2(2)] assms(2) m2 m1(1) show ?thesis
    by (intro exI [of _ m2]) (auto simp: same_text)
qed

lemma apply_setters_append: "apply_setters xs m = (Ok u, m1) \<Longrightarrow> apply_setters (xs @ ys) m = apply_setters ys m1"
  by (induction xs arbitrary: m) (auto split: prod.splits outcome.splits)

text \<open>A message with integrity and fingerprint, as the ICE agent builds all of its messages.\<close>

lemma sealed_build:
  assumes head: "hs = [set_type t, set_transaction_id tid] \<or> hs = [set_transaction_id tid, set_type t]"
    and t: "wf_type t" and tid: "length tid = TRANSACTION_ID_SIZE"
    and ps: "\<forall>p \<in> set ps. fst p \<notin> {0x8020, ATTR_MESSAGE_INTEGRITY, ATTR_FINGERPRINT}" and len: "length (attrs_wire (map mk_attr ps)) + 32 < 65536"
    and mid: "\<And>m. sm_transaction_id m = tid \<Longrightarrow> apply_setters mid m = apply_setters (map (\<lambda>(a, v). set_attribute a v) ps) m"
    and hmac: "\<And>k b. length (new_hmac k b) = MESSAGE_INTEGRITY_SIZE"
  shows "\<exists>m v w. msg_build (hs @ mid @ [integrity_add_to new_hmac key, fingerprint_add_to crc32]) stun_message_new = (Ok (), m) \<and>
    sm_typ m = t \<and> sm_transaction_id m = tid \<and> sm_attributes m = map mk_attr (ps @ [(ATTR_MESSAGE_INTEGRITY, v), (ATTR_FINGERPRINT, w)]) \<and>
    is_message (sm_raw m) \<and> (\<forall>m0. msg_decode (m0\<lparr>sm_raw := sm_raw m\<rparr>) = (Ok (), m)) \<and> integrity_check new_hmac key m = (Ok (), m)"
proof -
  have "length (sm_transaction_id stun_message_new) = TRANSACTION_ID_SIZE" by (simp add: stun_message_new_def)
  from write_header_wf [OF this] obtain a where a: "write_header (msg_reset stun_message_new) = Ok a" "wf_msg a" "sm_attributes a = []" by blast
  have "\<exists>c. apply_setters hs a = (Ok (), c) \<and> wf_msg c \<and> sm_typ c = t \<and> sm_transaction_id c = tid \<and> sm_attributes c = []"
    using head
  proof
    assume hs: "hs = [set_type t, set_transaction_id tid]"
    from set_type_wf [OF a(2), of t] obtain b where b: "set_type t a = (Ok (), b)" "wf_msg b" "sm_typ b = t" "sm_attributes b = []" using a(3) by auto
    from set_transaction_id_wf [OF b(2) tid] b hs show ?thesis by fastforce
  next
    assume hs: "hs = [set_transaction_id tid, set_type t]"
    from set_transaction_id_wf [OF a(2) tid] obtain b where
      b: "set_transaction_id tid a = (Ok (), b)" "wf_msg b" "sm_transaction_id b = tid" "sm_attributes b = []" using a(3) by auto
    from set_type_wf [OF b(2), of t] b hs show ?thesis by fastforce
  qed
  then obtain c where c: "apply_setters hs a = (Ok (), c)" "wf_msg c" "sm_typ c = t" "sm_transaction_id c = tid" "sm_attributes c = []" by blast
  from set_attributes_wf [OF c(2), of ps] ps len c obtain m where
    m: "apply_setters mid c = (Ok (), m)" "wf_msg m" "sm_typ m = t" "sm_transaction_id m = tid"
      "sm_attributes m = map mk_attr ps" using mid [OF c(4)] by fastforce
  have "\<not> msg_contains ATTR_FINGERPRINT m" "\<not> msg_contains ATTR_MESSAGE_INTEGRITY m" "length (attrs_wire (sm_attributes m)) + 32 < 65536"
    using ps m(5) len by (auto simp: msg_contains_def)
  from integrity_sealed [where new_hmac = new_hmac and key = key and ?crc32.0 = crc32, OF m(2) _ this hmac] t m obtain m2 v w where
    m2: "apply_setters [integrity_add_to new_hmac key, fingerprint_add_to crc32] m = (Ok (), m2)" "wf_msg m2" "sm_typ m2 = t" "sm_transaction_id m2 = tid"
      "sm_attributes m2 = map mk_attr ps @ map mk_attr [(ATTR_MESSAGE_INTEGRITY, v), (ATTR_FINGERPRINT, w)]"
      "\<forall>m0. msg_decode (m0\<lparr>sm_raw := sm_raw m2\<rparr>) = (Ok (), m2)" "integrity_check new_hmac key m2 = (Ok (), m2)" by auto
  have "is_message (sm_raw m2)"
    using m2(2) by (simp add: is_message_def wf_msg_def msg_header_def stun_sizes) (simp add: put_u16_def put_u32_def be_put)
  moreover have "apply_setters (hs @ mid @ [integrity_add_to new_hmac key, fingerprint_add_to crc32]) a = (Ok (), m2)"
    using apply_setters_append [OF c(1)] apply_setters_append [OF m(1)] m2(1) by simp
  ultimately show ?thesis using m2(3-7)
    by (intro exI [of _ m2] exI [of _ v] exI [of _ w]) (simp add: msg_build_def as_setter_def a(1))
qed

text \<open>
  C24. The integrity of STUN messages is checked over exactly what was authenticated. A message to which
  \<^verbatim>\<open>MESSAGE-INTEGRITY\<close> and \<^verbatim>\<open>FINGERPRINT\<close> were added is decoded by the receiver to the same message, and the receiver accepts
  it under a key if and only if that key gives the same code for the authenticated text: the header, with the length up to
  the integrity attribute, and all attributes before it. With the sender's key it is always accepted; the check leaves the
  message as it was. The code is assumed to have 20 bytes.
\<close>

theorem integrity_roundtrip:
  assumes "wf_msg m" and "wf_type (sm_typ m)" and "\<not> msg_contains ATTR_FINGERPRINT m" and "\<not> msg_contains ATTR_MESSAGE_INTEGRITY m"
    and "length (attrs_wire (sm_attributes m)) + 32 < 65536" and "\<And>k b. length (new_hmac k b) = MESSAGE_INTEGRITY_SIZE"
  shows "\<exists>m2. apply_setters [integrity_add_to new_hmac key, fingerprint_add_to crc32] m = (Ok (), m2) \<and>
    (\<forall>m0. msg_decode (m0\<lparr>sm_raw := sm_raw m2\<rparr>) = (Ok (), m2)) \<and>
    (\<forall>key'. integrity_check new_hmac key' m2 =
      (if new_hmac key (integrity_text m (sm_attributes m)) = new_hmac key' (integrity_text m (sm_attributes m))
       then Ok () else Err ErrIntegrityMismatch, m2))"
  using integrity_sealed [where new_hmac = new_hmac and key = key and ?crc32.0 = crc32, OF assms] by blast

theorem integrity_roundtrip_witness:
  "\<exists>m m2. write_header (msg_reset stun_message_new) = Ok m \<and>
    apply_setters [integrity_add_to (\<lambda>k _. replicate 20 (of_nat (length k))) [1], fingerprint_add_to (\<lambda>_. 0)] m = (Ok (), m2) \<and>
    (\<forall>m0. msg_decode (m0\<lparr>sm_raw := sm_raw m2\<rparr>) = (Ok (), m2)) \<and>
    fst (integrity_check (\<lambda>k _. replicate 20 (of_nat (length k))) [1] m2) = Ok () \<and>
    fst (integrity_check (\<lambda>k _. replicate 20 (of_nat (length k))) [1, 2] m2) = Err ErrIntegrityMismatch"
proof -
  let ?f = "\<lambda>(k :: bytes) (_ :: bytes). replicate 20 (of_nat (length k)) :: bytes"
  have "length (sm_transaction_id stun_message_new) = TRANSACTION_ID_SIZE" by (simp add: stun_message_new_def)
  from write_header_wf [OF this] obtain m where m: "write_header (msg_reset stun_message_new) = Ok m" "wf_msg m" "sm_attributes m = []"
    by blast
  have "wf_type (sm_typ m)"
    using m(1) by (auto simp: write_header_def obind_eq_Ok write_type_def write_length_def msg_reset_def stun_message_new_def wf_type_def)
  with integrity_roundtrip [OF m(2), of ?f "[1]" "\<lambda>_. 0"] m(3) obtain m2 where
    "apply_setters [integrity_add_to ?f [1], fingerprint_add_to (\<lambda>_. 0)] m = (Ok (), m2)"
    "\<forall>m0. msg_decode (m0\<lparr>sm_raw := sm_raw m2\<rparr>) = (Ok (), m2)"
    "\<forall>key'. integrity_check ?f key' m2 = (if ?f [1] [] = ?f key' [] then Ok () else Err ErrIntegrityMismatch, m2)"
    by (auto simp: msg_contains_def MESSAGE_INTEGRITY_SIZE_def simp del: apply_setters.simps)
  with m(1) show ?thesis by (intro exI [of _ m] exI [of _ m2]) (simp del: apply_setters.simps)
qed

end
