(* ===== verification/Ice_Candidate.thy ===== *)
theory Ice_Candidate
  imports Stun_Attributes
begin

text \<open>
  ICE candidates and candidate pairs (\<^verbatim>\<open>crates/ice/candidate/\<close>, \<^verbatim>\<open>network_type/\<close>, \<^verbatim>\<open>state/\<close>, \<^verbatim>\<open>error.rs\<close>) and the STUN
  attributes of ICE (\<^verbatim>\<open>control/\<close>, \<^verbatim>\<open>priority/\<close>, \<^verbatim>\<open>use_candidate/\<close>). A candidate holds the socket only as the fact that there
  is one; the CRC of the foundation is a parameter. Arithmetic on machine words wraps, as in a release build.
\<close>

section \<open>Types\<close>

datatype ice_error = ErrLocalUfragInsufficientBits | ErrLocalPwdInsufficientBits | IErr_Closed | ErrCanceledByCaller
  | ErrMultipleStart | ErrRemoteUfragEmpty | ErrRemotePwdEmpty | ErrNoOnCandidateHandler | ErrMultipleGatherAttempted
  | ErrAddressParseFailed | ErrLiteUsingNonHostCandidates | ErrUselessUrlsProvided | ErrUnsupportedNat1to1IpCandidateType
  | ErrInvalidNat1to1IpMapping | ErrExternalMappedIpNotFound | ErrMulticastDnsWithNat1to1IpMapping
  | ErrIneffectiveNat1to1IpMappingHost | ErrInvalidMulticastDnshostName | ErrRestartWhenGathering
  | ErrAttributeTooShortIceCandidate | ErrParseRelatedAddr | ErrUnknownCandidateType | ErrDetermineNetworkType
  | ErrMismatchUsername | IErr_ParseInt | IErr_ParseIp | IErr_Io | IErr_Util | IErr_Stun stun_error | IErr_ParseUrl | IErr_Other

type_synonym 'a ice_result = "(ice_error, 'a) outcome"

datatype network_type = NT_Unspecified | Udp4 | Udp6

definition network_type_from :: "u8 \<Rightarrow> network_type" where
  "network_type_from v = (if v = 1 then Udp4 else if v = 2 then Udp6 else NT_Unspecified)"

fun network_type_as :: "network_type \<Rightarrow> u8" where
  "network_type_as NT_Unspecified = 0" | "network_type_as Udp4 = 1" | "network_type_as Udp6 = 2"

fun network_type_display :: "network_type \<Rightarrow> bytes" where
  "network_type_display Udp4 = ascii ''udp4''"
| "network_type_display Udp6 = ascii ''udp6''"
| "network_type_display NT_Unspecified = ascii ''unspecified''"

fun network_short :: "network_type \<Rightarrow> bytes" where
  "network_short NT_Unspecified = ascii ''Unspecified''" | "network_short _ = ascii ''udp''"

definition to_lower :: "u8 \<Rightarrow> u8" where
  "to_lower b = (if 65 \<le> b \<and> b \<le> 90 then b + 32 else b)"

definition determine_network_type :: "bytes \<Rightarrow> ip_addr \<Rightarrow> network_type ice_result" where
  "determine_network_type network ip =
     (if take 3 (map to_lower network) = ascii ''udp'' then (if is_ipv4 ip then Ok Udp4 else Ok Udp6)
      else Err ErrDetermineNetworkType)"

datatype candidate_type = CT_Unspecified | Host

fun candidate_type_display :: "candidate_type \<Rightarrow> bytes" where
  "candidate_type_display Host = ascii ''host''"
| "candidate_type_display CT_Unspecified = ascii ''Unknown candidate type''"

fun preference :: "candidate_type \<Rightarrow> u16" where
  "preference Host = 126" | "preference CT_Unspecified = 0"

datatype connection_state = CS_Unspecified | CS_New | CS_Checking | CS_Connected | CS_Completed | CS_Failed
  | CS_Disconnected | CS_Closed

datatype gathering_state = GS_Unspecified | GS_New | GS_Gathering | GS_Complete

definition DEFAULT_LOCAL_PREFERENCE :: u16 where "DEFAULT_LOCAL_PREFERENCE = 65535"

section \<open>Candidates\<close>

record candidate =
  cb_id :: bytes
  cb_network_type :: network_type
  cb_type :: candidate_type
  cb_component :: u16
  cb_address :: bytes
  cb_port :: u16
  cb_related :: "(bytes \<times> u16) option"
  cb_resolved :: socket_addr
  cb_last_sent :: u64
  cb_last_received :: u64
  cb_conn :: bool
  cb_open :: bool
  cb_foundation :: bytes
  cb_priority :: u32
  cb_network :: bytes

definition candidate_default :: candidate where
  "candidate_default = \<lparr>cb_id = [], cb_network_type = NT_Unspecified, cb_type = CT_Unspecified, cb_component = 0, cb_address = [],
     cb_port = 0, cb_related = None, cb_resolved = \<lparr>sa_ip = IpV4 [0, 0, 0, 0], sa_port = 0\<rparr>, cb_last_sent = 0, cb_last_received = 0,
     cb_conn = False, cb_open = False, cb_foundation = [], cb_priority = 0, cb_network = []\<rparr>"

definition cand_foundation :: "(bytes \<Rightarrow> u32) \<Rightarrow> candidate \<Rightarrow> bytes" where
  "cand_foundation crc c =
     (if cb_foundation c \<noteq> [] then cb_foundation c
      else show_nat (unat (crc (candidate_type_display (cb_type c) @ cb_address c @ network_type_display (cb_network_type c)))))"

definition cand_priority :: "candidate \<Rightarrow> u32" where
  "cand_priority c =
     (if cb_priority c \<noteq> 0 then cb_priority c
      else push_bit 24 1 * ucast (preference (cb_type c)) + push_bit 8 1 * ucast DEFAULT_LOCAL_PREFERENCE + (256 - ucast (cb_component c)))"

definition cand_equal :: "candidate \<Rightarrow> candidate \<Rightarrow> bool" where
  "cand_equal a b \<longleftrightarrow> cb_network_type a = cb_network_type b \<and> cb_type a = cb_type b \<and> cb_address a = cb_address b \<and>
     cb_port a = cb_port b \<and> cb_related a = cb_related b"

definition cand_seen :: "u64 \<Rightarrow> bool \<Rightarrow> candidate \<Rightarrow> candidate" where
  "cand_seen now outbound c = (if outbound then c\<lparr>cb_last_sent := now\<rparr> else c\<lparr>cb_last_received := now\<rparr>)"

definition cand_close :: "candidate \<Rightarrow> unit ice_result \<times> candidate" where
  "cand_close c = (if cb_open c then (Ok (), c\<lparr>cb_open := False\<rparr>) else (Err IErr_Closed, c))"

definition cand_set_ip :: "ip_addr \<Rightarrow> candidate \<Rightarrow> unit ice_result \<times> candidate" where
  "cand_set_ip ip c =
     (case determine_network_type (cb_network c) ip of
        Ok nt \<Rightarrow> (Ok (), c\<lparr>cb_network_type := nt, cb_resolved := \<lparr>sa_ip = ip, sa_port = cb_port c\<rparr>\<rparr>)
      | Err e \<Rightarrow> (Err e, c)
      | Panic \<Rightarrow> (Panic, c))"

definition cand_marshal :: "(bytes \<Rightarrow> u32) \<Rightarrow> candidate \<Rightarrow> bytes" where
  "cand_marshal crc c =
     unwords [cand_foundation crc c, show_nat (unat (cb_component c)), network_short (cb_network_type c),
       show_nat (unat (cand_priority c)), cb_address c, show_nat (unat (cb_port c)), ascii ''typ'', candidate_type_display (cb_type c)] @
     (case cb_related c of Some (a, p) \<Rightarrow> ascii '' raddr '' @ a @ ascii '' rport '' @ show_nat (unat p) | None \<Rightarrow> [])"

record candidate_config =
  cc_id :: bytes
  cc_network :: bytes
  cc_address :: bytes
  cc_port :: u16
  cc_component :: u16
  cc_priority :: u32
  cc_foundation :: bytes
  cc_conn :: bool

text \<open>\<open>rand_id\<close> is the random identifier drawn when the configuration has none.\<close>

definition ends_with :: "bytes \<Rightarrow> bytes \<Rightarrow> bool" where
  "ends_with s t \<longleftrightarrow> length t \<le> length s \<and> drop (length s - length t) s = t"

definition new_candidate_host :: "bytes \<Rightarrow> candidate_config \<Rightarrow> candidate ice_result" where
  "new_candidate_host rand_id cfg =
     (let c = candidate_default\<lparr>cb_id := (if cc_id cfg = [] then rand_id else cc_id cfg), cb_address := cc_address cfg, cb_type := Host,
            cb_component := cc_component cfg, cb_port := cc_port cfg, cb_foundation := cc_foundation cfg, cb_priority := cc_priority cfg,
            cb_network := cc_network cfg, cb_network_type := Udp4, cb_conn := cc_conn cfg\<rparr>
      in if ends_with (cc_address cfg) (ascii ''.local'') then Ok c
         else case parse_ip (cc_address cfg) of
             None \<Rightarrow> Err IErr_ParseIp
           | Some ip \<Rightarrow> (case cand_set_ip ip c of (Ok _, c) \<Rightarrow> Ok c | (Err e, _) \<Rightarrow> Err e | (Panic, _) \<Rightarrow> Panic))"

definition unmarshal_candidate :: "bytes \<Rightarrow> bytes \<Rightarrow> candidate ice_result" where
  "unmarshal_candidate rand_id raw =
     (let split = split_whitespace raw in
      if length split < 8 then Err IErr_Other
      else case parse_u16 (split ! 1) of
        None \<Rightarrow> Err IErr_ParseInt
      | Some component \<Rightarrow>
          case parse_u32 (split ! 3) of
            None \<Rightarrow> Err IErr_ParseInt
          | Some priority \<Rightarrow>
              case parse_u16 (split ! 5) of
                None \<Rightarrow> Err IErr_ParseInt
              | Some port \<Rightarrow>
                  if length split > 8 \<and> split ! 8 = ascii ''raddr'' \<and> length (drop 8 split) < 4 then Err IErr_Other
                  else if split ! 7 = ascii ''host'' then
                    new_candidate_host rand_id \<lparr>cc_id = [], cc_network = split ! 2, cc_address = split ! 4, cc_port = port,
                      cc_component = component, cc_priority = priority, cc_foundation = split ! 0, cc_conn = False\<rparr>
                  else Err IErr_Other)"

section \<open>Candidate pairs\<close>

datatype pair_state = PS_Unspecified | PS_Waiting | PS_InProgress | PS_Failed | PS_Succeeded

text \<open>A pair refers to its candidates by their place in the store of the agent.\<close>

type_synonym cref = nat

record candidate_pair =
  cp_controlling :: bool
  cp_remote :: cref
  cp_local :: cref
  cp_count :: u16
  cp_state :: pair_state
  cp_nominated :: bool

definition pair_new :: "cref \<Rightarrow> cref \<Rightarrow> bool \<Rightarrow> candidate_pair" where
  "pair_new l r controlling = \<lparr>cp_controlling = controlling, cp_remote = r, cp_local = l, cp_count = 0,
     cp_state = PS_Waiting, cp_nominated = False\<rparr>"

definition pair_formula :: "bool \<Rightarrow> u32 \<Rightarrow> u32 \<Rightarrow> u64" where
  "pair_formula controlling local_prio remote_prio =
     (let (g, d) = (if controlling then (local_prio, remote_prio) else (remote_prio, local_prio))
      in (push_bit 32 1 - 1) * ucast (min g d) + 2 * ucast (max g d) + (if g > d then 1 else 0))"

definition pair_priority :: "(cref \<Rightarrow> candidate) \<Rightarrow> candidate_pair \<Rightarrow> u64" where
  "pair_priority st p = pair_formula (cp_controlling p) (cand_priority (st (cp_local p))) (cand_priority (st (cp_remote p)))"

definition pair_equal :: "(cref \<Rightarrow> candidate) \<Rightarrow> candidate_pair \<Rightarrow> candidate_pair \<Rightarrow> bool" where
  "pair_equal st a b \<longleftrightarrow> cand_equal (st (cp_local a)) (st (cp_local b)) \<and> cand_equal (st (cp_remote a)) (st (cp_remote b))"

section \<open>STUN attributes of ICE\<close>

definition ATTR_PRIORITY :: u16 where "ATTR_PRIORITY = 0x0024"
definition ATTR_USE_CANDIDATE :: u16 where "ATTR_USE_CANDIDATE = 0x0025"
definition ATTR_ICE_CONTROLLED :: u16 where "ATTR_ICE_CONTROLLED = 0x8029"
definition ATTR_ICE_CONTROLLING :: u16 where "ATTR_ICE_CONTROLLING = 0x802A"
definition TIE_BREAKER_SIZE :: nat where "TIE_BREAKER_SIZE = 8"

definition put_u64 :: "u64 \<Rightarrow> bytes" where
  "put_u64 x = put_u32 (ucast (drop_bit 32 x)) @ put_u32 (ucast x)"

definition be_u64 :: "bytes \<Rightarrow> u64" where
  "be_u64 v = push_bit 32 (ucast (be_u32 (v ! 0) (v ! 1) (v ! 2) (v ! 3))) OR ucast (be_u32 (v ! 4) (v ! 5) (v ! 6) (v ! 7))"

definition tie_breaker_add_to_as :: "u16 \<Rightarrow> u64 \<Rightarrow> setter" where
  "tie_breaker_add_to_as t n = set_attribute t (put_u64 n)"

definition tie_breaker_decode :: "bytes \<Rightarrow> u64 stun_result" where
  "tie_breaker_decode v = obind (check_size (length v) TIE_BREAKER_SIZE) (\<lambda>_. Ok (be_u64 v))"

definition tie_breaker_get_from_as :: "u16 \<Rightarrow> stun_message \<Rightarrow> u64 stun_result" where
  "tie_breaker_get_from_as t m = obind (msg_get t m) tie_breaker_decode"

definition controlled_add_to :: "u64 \<Rightarrow> setter" where
  "controlled_add_to n = tie_breaker_add_to_as ATTR_ICE_CONTROLLED n"

definition controlling_add_to :: "u64 \<Rightarrow> setter" where
  "controlling_add_to n = tie_breaker_add_to_as ATTR_ICE_CONTROLLING n"

datatype ice_role = Controlling | Controlled | Role_Unspecified

definition control_add_to :: "ice_role \<Rightarrow> u64 \<Rightarrow> setter" where
  "control_add_to r n = (if r = Controlling then tie_breaker_add_to_as ATTR_ICE_CONTROLLING n else tie_breaker_add_to_as ATTR_ICE_CONTROLLED n)"

definition control_get_from :: "stun_message \<Rightarrow> (ice_role \<times> u64) stun_result" where
  "control_get_from m =
     (if msg_contains ATTR_ICE_CONTROLLING m then obind (tie_breaker_get_from_as ATTR_ICE_CONTROLLING m) (\<lambda>n. Ok (Controlling, n))
      else if msg_contains ATTR_ICE_CONTROLLED m then obind (tie_breaker_get_from_as ATTR_ICE_CONTROLLED m) (\<lambda>n. Ok (Controlled, n))
      else Err ErrAttributeNotFound)"

definition priority_add_to :: "u32 \<Rightarrow> setter" where
  "priority_add_to p = set_attribute ATTR_PRIORITY (put_u32 p)"

definition use_candidate_add_to :: setter where
  "use_candidate_add_to = set_attribute ATTR_USE_CANDIDATE []"

lemmas ice_attrs = ATTR_PRIORITY_def ATTR_USE_CANDIDATE_def ATTR_ICE_CONTROLLED_def ATTR_ICE_CONTROLLING_def

text \<open>The control attributes keep the contract of STUN attributes.\<close>

lemma be_u32_put: "be_u32 (put_u32 x ! 0) (put_u32 x ! Suc 0) (put_u32 x ! 2) (put_u32 x ! 3) = x"
  by (simp add: put_u32_def be_put)

lemma be_put_u64: "be_u64 (put_u64 x) = x"
proof -
  have nth: "(put_u32 a @ put_u32 b) ! 4 = put_u32 b ! 0" "(put_u32 a @ put_u32 b) ! 5 = put_u32 b ! Suc 0"
    "(put_u32 a @ put_u32 b) ! 6 = put_u32 b ! 2" "(put_u32 a @ put_u32 b) ! 7 = put_u32 b ! 3"
    "(put_u32 a @ put_u32 b) ! 0 = put_u32 a ! 0" "(put_u32 a @ put_u32 b) ! Suc 0 = put_u32 a ! Suc 0"
    "(put_u32 a @ put_u32 b) ! 2 = put_u32 a ! 2" "(put_u32 a @ put_u32 b) ! 3 = put_u32 a ! 3" for a b
    by (simp_all add: nth_append)
  have "push_bit 32 (ucast (ucast (drop_bit 32 x) :: u32)) OR ucast (ucast x :: u32) = x"
    by (rule bit_word_eqI) (auto simp: bit_or_iff bit_push_bit_iff bit_ucast_iff bit_drop_bit_eq)
  then show ?thesis by (simp only: be_u64_def put_u64_def nth be_u32_put One_nat_def)
qed

lemma tie_breaker_decode_put: "tie_breaker_decode (put_u64 n) = Ok n"
  by (simp add: tie_breaker_decode_def check_size_def be_put_u64 TIE_BREAKER_SIZE_def put_u64_def [THEN arg_cong [of _ _ length]])

interpretation controlling: stun_attribute ATTR_ICE_CONTROLLING "\<lambda>_. put_u64" "\<lambda>_. tie_breaker_decode" "\<lambda>_. True"
  by unfold_locales (simp_all add: tie_breaker_decode_put ice_attrs)

interpretation controlled: stun_attribute ATTR_ICE_CONTROLLED "\<lambda>_. put_u64" "\<lambda>_. tie_breaker_decode" "\<lambda>_. True"
  by unfold_locales (simp_all add: tie_breaker_decode_put ice_attrs)

section \<open>Priorities\<close>

text \<open>
  The priority of a candidate pair is computed without overflow on 64 bits, whatever the priorities of the candidates, and
  both agents compute the same number for the same pair: what is local to the controlling agent is remote to the controlled one.
  The number is \<open>(2^32 - 1) * min + 2 * max\<close>, plus one when the controlling side's candidate has the higher priority.
\<close>

theorem pair_priority_exact:
  "unat (pair_formula controlling l r) =
     (2 ^ 32 - 1) * min (unat l) (unat r) + 2 * max (unat l) (unat r) + (if (if controlling then r < l else l < r) then 1 else 0) \<and>
   pair_formula (\<not> controlling) r l = pair_formula controlling l r"
proof -
  have bound: "(2 ^ 32 - 1) * min (unat g) (unat d) + 2 * max (unat g) (unat d) + (if d < g then 1 else 0) < 2 ^ 64" for g d :: u32
  proof -
    define m M where "m = min (unat g) (unat d)" and "M = max (unat g) (unat d)"
    have M: "M \<le> 2 ^ 32 - 1" using unsigned_less [of g, where 'a = nat] unsigned_less [of d, where 'a = nat] by (simp add: M_def)
    show ?thesis
    proof (cases "d < g")
      case True
      then have "m + 1 \<le> M" by (simp add: m_def M_def word_less_nat_alt)
      with M have "(2 ^ 32 - 1) * m \<le> (2 ^ 32 - 1) * (2 ^ 32 - 2)" by (intro mult_le_mono2) simp
      with M True show ?thesis by (simp add: m_def [symmetric] M_def [symmetric])
    next
      case False
      have "m \<le> M" by (simp add: m_def M_def)
      with M have "(2 ^ 32 - 1) * m \<le> (2 ^ 32 - 1) * (2 ^ 32 - 1)" by (intro mult_le_mono2) simp
      with M False show ?thesis by (simp add: m_def [symmetric] M_def [symmetric])
    qed
  qed
  have len64: "LENGTH(64) = 64" by simp
  have "unat (4294967295 * ucast (min g d) + 2 * ucast (max g d) + (if d < g then 1 else 0) :: u64) =
    (2 ^ 32 - 1) * min (unat g) (unat d) + 2 * max (unat g) (unat d) + (if d < g then 1 else 0)" for g d :: u32
  proof -
    have "(4294967295 * ucast (min g d) + 2 * ucast (max g d) + (if d < g then 1 else 0) :: u64) =
      of_nat ((2 ^ 32 - 1) * min (unat g) (unat d) + 2 * max (unat g) (unat d) + (if d < g then 1 else 0))"
      by (simp add: min_def max_def word_le_nat_alt)
    then show ?thesis using bound [of g d] by (simp only: unat_of_nat mod_less len64)
  qed
  from this [of l r] this [of r l] show ?thesis
    by (cases controlling) (simp_all add: pair_formula_def min.commute [of r] max.commute [of r] min.commute [of "unat r"] max.commute [of "unat r"])
qed

section \<open>Round trip of candidates\<close>

lemma plain_ascii [simp]: "plain_word (ascii ''host'')" "plain_word (ascii ''typ'')" "plain_word (ascii ''udp'')"
  by (simp_all add: plain_word_def ascii_def)

lemma plain_foundation: "cb_foundation c = [] \<or> plain_word (cb_foundation c) \<Longrightarrow> plain_word (cand_foundation crc c)"
  by (auto simp: cand_foundation_def plain_word_show_nat)

text \<open>What a host candidate is made of.\<close>

lemma new_candidate_host_Ok:
  assumes "new_candidate_host rand_id cfg = Ok c"
  shows "cb_type c = Host \<and> cb_related c = None \<and> cb_address c = cc_address cfg \<and> cb_port c = cc_port cfg \<and>
    cb_component c = cc_component cfg \<and> cb_priority c = cc_priority cfg \<and> cb_foundation c = cc_foundation cfg \<and>
    (if ends_with (cc_address cfg) (ascii ''.local'') then cb_network_type c = Udp4
     else \<exists>ip. parse_ip (cc_address cfg) = Some ip \<and> cb_resolved c = \<lparr>sa_ip = ip, sa_port = cc_port cfg\<rparr> \<and>
       cb_network_type c = (if is_ipv4 ip then Udp4 else Udp6))"
proof (cases "ends_with (cc_address cfg) (ascii ''.local'')")
  case True
  with assms show ?thesis by (auto simp: new_candidate_host_def Let_def candidate_default_def)
next
  case False
  with assms obtain ip where ip: "parse_ip (cc_address cfg) = Some ip"
    by (cases "parse_ip (cc_address cfg)") (simp_all add: new_candidate_host_def Let_def)
  with assms False show ?thesis
    by (simp add: new_candidate_host_def Let_def cand_set_ip_def determine_network_type_def candidate_default_def split: if_splits)
      (auto simp: candidate_default_def)
qed

lemma new_candidate_host_udp:
  assumes "cc_network cfg = ascii ''udp''" and "ends_with (cc_address cfg) (ascii ''.local'') \<or> parse_ip (cc_address cfg) \<noteq> None"
  shows "\<exists>c. new_candidate_host rand_id cfg = Ok c"
proof -
  have "take 3 (map to_lower (ascii ''udp'')) = ascii ''udp''" by (simp add: ascii_def to_lower_def)
  with assms show ?thesis
    by (auto simp: new_candidate_host_def Let_def cand_set_ip_def determine_network_type_def candidate_default_def split: option.splits)
qed

text \<open>The words of the line of a host candidate, and the configuration the reader makes of them.\<close>

definition host_line :: "candidate \<Rightarrow> bool" where
  "host_line c \<longleftrightarrow> cb_type c = Host \<and> cb_related c = None \<and> cb_network_type c \<noteq> NT_Unspecified \<and> plain_word (cb_address c) \<and>
     (cb_foundation c = [] \<or> plain_word (cb_foundation c))"

lemma candidate_line:
  assumes "host_line c"
  shows "\<exists>ws. cand_marshal crc c = unwords ws \<and> length ws = 8 \<and> (\<forall>w \<in> set ws. plain_word w)"
    and "unmarshal_candidate rand_id (cand_marshal crc c) = new_candidate_host rand_id \<lparr>cc_id = [], cc_network = ascii ''udp'',
      cc_address = cb_address c, cc_port = cb_port c, cc_component = cb_component c, cc_priority = cand_priority c,
      cc_foundation = cand_foundation crc c, cc_conn = False\<rparr>"
proof -
  have c: "cb_type c = Host" "cb_related c = None" "plain_word (cb_address c)" using assms by (simp_all add: host_line_def)
  have nt: "network_short (cb_network_type c) = ascii ''udp''" using assms by (cases "cb_network_type c") (simp_all add: host_line_def)
  define ws where "ws = [cand_foundation crc c, show_nat (unat (cb_component c)), ascii ''udp'', show_nat (unat (cand_priority c)),
    cb_address c, show_nat (unat (cb_port c)), ascii ''typ'', ascii ''host'']"
  have line: "cand_marshal crc c = unwords ws" using c nt by (simp add: cand_marshal_def ws_def)
  have w: "\<forall>w \<in> set ws. plain_word w"
    using c plain_foundation [of c crc] assms by (simp add: ws_def plain_word_show_nat host_line_def)
  then have split: "split_whitespace (unwords ws) = ws" by (rule split_unwords)
  have nth: "ws ! 0 = cand_foundation crc c" "ws ! 1 = show_nat (unat (cb_component c))" "ws ! 2 = ascii ''udp''"
    "ws ! 3 = show_nat (unat (cand_priority c))" "ws ! 4 = cb_address c" "ws ! 5 = show_nat (unat (cb_port c))"
    "ws ! 7 = ascii ''host''" "length ws = 8" by (simp_all add: ws_def)
  show "\<exists>ws. cand_marshal crc c = unwords ws \<and> length ws = 8 \<and> (\<forall>w \<in> set ws. plain_word w)" using line w nth(8) by blast
  show "unmarshal_candidate rand_id (cand_marshal crc c) = new_candidate_host rand_id \<lparr>cc_id = [], cc_network = ascii ''udp'',
      cc_address = cb_address c, cc_port = cb_port c, cc_component = cb_component c, cc_priority = cand_priority c,
      cc_foundation = cand_foundation crc c, cc_conn = False\<rparr>"
    by (simp only: unmarshal_candidate_def line split Let_def nth parse_show_u16 parse_show_u32 option.case) simp
qed

text \<open>
  A host candidate survives signalling: the line written for it is read back to a candidate with the same foundation,
  component, priority, address, port and network type, which the agent treats as equal. The address and the foundation must not
  contain white space.
\<close>

theorem candidate_roundtrip:
  assumes "new_candidate_host rand_id cfg = Ok c" and "plain_word (cc_address cfg)" and "cc_foundation cfg = [] \<or> plain_word (cc_foundation cfg)"
  shows "\<exists>d. unmarshal_candidate rand2 (cand_marshal crc c) = Ok d \<and> cand_equal d c \<and> cand_foundation crc d = cand_foundation crc c \<and>
    cb_component d = cb_component c \<and> cand_priority d = cand_priority c"
proof -
  note c = new_candidate_host_Ok [OF assms(1)]
  define cfg' where "cfg' = \<lparr>cc_id = [], cc_network = ascii ''udp'', cc_address = cb_address c, cc_port = cb_port c,
    cc_component = cb_component c, cc_priority = cand_priority c, cc_foundation = cand_foundation crc c, cc_conn = False\<rparr>"
  have "host_line c" using c assms(2,3) by (auto simp: host_line_def split: if_splits)
  then have "unmarshal_candidate rand2 (cand_marshal crc c) = new_candidate_host rand2 cfg'" unfolding cfg'_def by (rule candidate_line(2))
  moreover have "\<exists>d. new_candidate_host rand2 cfg' = Ok d" using c by (intro new_candidate_host_udp) (auto simp: cfg'_def split: if_splits)
  ultimately obtain d where d: "unmarshal_candidate rand2 (cand_marshal crc c) = Ok d" "new_candidate_host rand2 cfg' = Ok d" by auto
  note d' = new_candidate_host_Ok [OF d(2)]
  have "plain_word (cand_foundation crc c)" using c assms(3) by (intro plain_foundation) simp
  then have f: "cand_foundation crc c \<noteq> []" unfolding plain_word_def by simp
  have "cand_equal d c" using c d' by (auto simp: cand_equal_def cfg'_def split: if_splits)
  moreover have "cand_foundation crc d = cand_foundation crc c" using d' f by (simp add: cand_foundation_def [of crc d] cfg'_def)
  moreover have "cand_priority d = cand_priority c"
  proof (cases "cand_priority c = 0")
    case True
    then have "cb_priority c = 0" by (rule contrapos_pp) (simp add: cand_priority_def)
    moreover have "cb_priority d = 0" using d' True by (simp add: cfg'_def)
    ultimately show ?thesis using c d' by (simp only: cand_priority_def) (simp add: cfg'_def)
  next
    case False
    then show ?thesis using d' by (simp add: cand_priority_def [of d] cfg'_def)
  qed
  ultimately show ?thesis using d(1) d' by (auto simp: cfg'_def)
qed

theorem candidate_roundtrip_witness:
  "\<exists>c d. new_candidate_host [1] \<lparr>cc_id = [], cc_network = ascii ''udp'', cc_address = ascii ''a.local'', cc_port = 5000, cc_component = 1,
      cc_priority = 0, cc_foundation = [], cc_conn = True\<rparr> = Ok c \<and> unmarshal_candidate [2] (cand_marshal (\<lambda>_. 7) c) = Ok d \<and>
    cand_equal d c \<and> cand_priority d = cand_priority c"
proof -
  define cfg where "cfg = \<lparr>cc_id = [], cc_network = ascii ''udp'', cc_address = ascii ''a.local'', cc_port = 5000, cc_component = 1,
      cc_priority = 0, cc_foundation = [], cc_conn = True\<rparr>"
  have "ends_with (cc_address cfg) (ascii ''.local'')" by (simp add: cfg_def ends_with_def ascii_def)
  with new_candidate_host_udp [of cfg "[1]"] obtain c where c: "new_candidate_host [1] cfg = Ok c" by (auto simp: cfg_def)
  have "plain_word (cc_address cfg)" "cc_foundation cfg = []" by (simp_all add: cfg_def plain_word_def ascii_def)
  with candidate_roundtrip [OF c, of "[2]" "\<lambda>_. 7"] obtain d where
    "unmarshal_candidate [2] (cand_marshal (\<lambda>_. 7) c) = Ok d" "cand_equal d c" "cand_priority d = cand_priority c" by blast
  with c show ?thesis unfolding cfg_def by blast
qed

end
