(* ===== verification/Ice_Agent.thy ===== *)
theory Ice_Agent
  imports Ice_Candidate Util_Buffer
begin

text \<open>
  The ICE agent (\<^verbatim>\<open>crates/ice/agent/\<close>, \<^verbatim>\<open>crates/ice/util/\<close>): candidates, the checklist, connectivity checks in the controlling
  and the controlled role, nomination, timeouts, and the connection that carries data over the selected pair.

  Candidates and pairs are shared objects with fields that change, so the agent has a store of each and refers to them by
  their place in it. The clock, the socket, HMAC, CRC and the random transaction ids are the environment of a step: \<^verbatim>\<open>Instant\<close> and
  \<^verbatim>\<open>Duration\<close> count nanoseconds, one reading of the clocks per step. What is put on the notification channels and on the sockets is
  recorded in the state; a full channel, which makes the sender wait, is not modelled. A panic ends the task as an error does.
\<close>

section \<open>State\<close>

record ice_env =
  ev_now :: nat
  ev_sys :: u64
  ev_hmac :: "bytes \<Rightarrow> bytes \<Rightarrow> bytes"
  ev_crc :: "bytes \<Rightarrow> u32"
  ev_txid :: "nat \<Rightarrow> bytes"
  ev_send :: "bytes \<Rightarrow> socket_addr \<Rightarrow> bool"

record binding_request =
  br_timestamp :: nat
  br_id :: bytes
  br_destination :: socket_addr
  br_use :: bool

datatype ice_event = StateChange connection_state | PairChange | CandidateFound cref

type_synonym pref = nat

record ice_agent =
  ag_cands :: "candidate list"
  ag_pairs :: "candidate_pair list"
  ag_connected_tx :: bool
  ag_connected_rx :: bool
  ag_done_tx :: bool
  ag_force :: bool
  ag_check_rx :: bool
  ag_chan :: bool
  ag_events :: "ice_event list"
  ag_tie_breaker :: u64
  ag_controlling :: bool
  ag_lite :: bool
  ag_start_time :: nat
  ag_nominated :: "pref option"
  ag_state :: connection_state
  ag_started_ch :: bool
  ag_local_ufrag :: bytes
  ag_local_pwd :: bytes
  ag_remote_ufrag :: bytes
  ag_remote_pwd :: bytes
  ag_local :: "(network_type, cref list) hash_map"
  ag_remote :: "(network_type, cref list) hash_map"
  ag_pending :: "binding_request list"
  ag_selected :: "pref option"
  ag_checklist :: "pref list"
  ag_buffer :: buffer
  ag_done :: bool
  ag_max_requests :: u16
  ag_host_wait :: nat
  ag_disconnected_timeout :: nat
  ag_failed_timeout :: nat
  ag_keepalive :: nat
  ag_check_interval :: nat
  ag_gathering :: gathering_state
  ag_txids :: nat
  ag_sent :: "(bytes \<times> cref \<times> socket_addr) list"

definition millis :: "nat \<Rightarrow> nat" where "millis n = n * 1000000"

definition DEFAULT_CHECK_INTERVAL :: nat where "DEFAULT_CHECK_INTERVAL = millis 200"
definition DEFAULT_KEEPALIVE_INTERVAL :: nat where "DEFAULT_KEEPALIVE_INTERVAL = millis 2000"
definition DEFAULT_DISCONNECTED_TIMEOUT :: nat where "DEFAULT_DISCONNECTED_TIMEOUT = millis 5000"
definition DEFAULT_FAILED_TIMEOUT :: nat where "DEFAULT_FAILED_TIMEOUT = millis 25000"
definition DEFAULT_HOST_ACCEPTANCE_MIN_WAIT :: nat where "DEFAULT_HOST_ACCEPTANCE_MIN_WAIT = 0"
definition DEFAULT_MAX_BINDING_REQUESTS :: u16 where "DEFAULT_MAX_BINDING_REQUESTS = 7"
definition MAX_BUFFER_SIZE :: nat where "MAX_BUFFER_SIZE = 1000 * 1000"
definition MAX_BINDING_REQUEST_TIMEOUT :: nat where "MAX_BINDING_REQUEST_TIMEOUT = millis 4000"

text \<open>\<^verbatim>\<open>AgentInternal::new\<close> followed by \<^verbatim>\<open>init_with_defaults\<close>, with the random tie breaker.\<close>

record agent_config =
  cf_controlling :: bool
  cf_lite :: bool
  cf_max_requests :: "u16 option"
  cf_host_wait :: "nat option"
  cf_disconnected_timeout :: "nat option"
  cf_failed_timeout :: "nat option"
  cf_keepalive :: "nat option"
  cf_check_interval :: nat

definition or_default :: "'a option \<Rightarrow> 'a \<Rightarrow> 'a" where
  "or_default x d = (case x of Some y \<Rightarrow> y | None \<Rightarrow> d)"

definition init_with_defaults :: "agent_config \<Rightarrow> ice_agent \<Rightarrow> ice_agent" where
  "init_with_defaults cfg a = a\<lparr>
     ag_max_requests := or_default (cf_max_requests cfg) DEFAULT_MAX_BINDING_REQUESTS,
     ag_host_wait := or_default (cf_host_wait cfg) DEFAULT_HOST_ACCEPTANCE_MIN_WAIT,
     ag_disconnected_timeout := or_default (cf_disconnected_timeout cfg) DEFAULT_DISCONNECTED_TIMEOUT,
     ag_failed_timeout := or_default (cf_failed_timeout cfg) DEFAULT_FAILED_TIMEOUT,
     ag_keepalive := or_default (cf_keepalive cfg) DEFAULT_KEEPALIVE_INTERVAL,
     ag_check_interval := (if cf_check_interval cfg = 0 then DEFAULT_CHECK_INTERVAL else cf_check_interval cfg)\<rparr>"

definition agent_internal_new :: "nat \<Rightarrow> u64 \<Rightarrow> agent_config \<Rightarrow> ice_agent" where
  "agent_internal_new now tie cfg = \<lparr>ag_cands = [], ag_pairs = [], ag_connected_tx = True, ag_connected_rx = True, ag_done_tx = True,
     ag_force = False, ag_check_rx = True, ag_chan = True, ag_events = [], ag_tie_breaker = tie, ag_controlling = cf_controlling cfg,
     ag_lite = cf_lite cfg, ag_start_time = now, ag_nominated = None, ag_state = CS_New, ag_started_ch = True,
     ag_local_ufrag = [], ag_local_pwd = [], ag_remote_ufrag = [], ag_remote_pwd = [], ag_local = [], ag_remote = [], ag_pending = [],
     ag_selected = None, ag_checklist = [], ag_buffer = buffer_new 0 MAX_BUFFER_SIZE, ag_done = False, ag_max_requests = 0,
     ag_host_wait = 0, ag_disconnected_timeout = 0, ag_failed_timeout = 0, ag_keepalive = 0, ag_check_interval = 0,
     ag_gathering = GS_Unspecified, ag_txids = 0, ag_sent = []\<rparr>"

section \<open>Store\<close>

definition cand :: "ice_agent \<Rightarrow> cref \<Rightarrow> candidate" where
  "cand a c = ag_cands a ! c"

definition pair :: "ice_agent \<Rightarrow> pref \<Rightarrow> candidate_pair" where
  "pair a p = ag_pairs a ! p"

definition upd_cand :: "cref \<Rightarrow> (candidate \<Rightarrow> candidate) \<Rightarrow> ice_agent \<Rightarrow> ice_agent" where
  "upd_cand c f a = a\<lparr>ag_cands := (ag_cands a)[c := f (cand a c)]\<rparr>"

definition upd_pair :: "pref \<Rightarrow> (candidate_pair \<Rightarrow> candidate_pair) \<Rightarrow> ice_agent \<Rightarrow> ice_agent" where
  "upd_pair p f a = a\<lparr>ag_pairs := (ag_pairs a)[p := f (pair a p)]\<rparr>"

definition event :: "ice_event \<Rightarrow> ice_agent \<Rightarrow> ice_agent" where
  "event e a = (if ag_chan a then a\<lparr>ag_events := ag_events a @ [e]\<rparr> else a)"

section \<open>Connection state\<close>

definition close_cand :: "cref \<Rightarrow> ice_agent \<Rightarrow> ice_agent" where
  "close_cand c = upd_cand c (\<lambda>x. snd (cand_close x))"

definition delete_all_candidates :: "ice_agent \<Rightarrow> ice_agent" where
  "delete_all_candidates a =
     (let a1 = (fold close_cand (concat (hm_values (ag_local a))) a)\<lparr>ag_local := []\<rparr>
      in (fold close_cand (concat (hm_values (ag_remote a1))) a1)\<lparr>ag_remote := []\<rparr>)"

definition update_connection_state :: "connection_state \<Rightarrow> ice_agent \<Rightarrow> ice_agent" where
  "update_connection_state new_state a =
     (if ag_state a \<noteq> new_state then
        event (StateChange new_state)
          ((if new_state = CS_Failed then delete_all_candidates a else a)\<lparr>ag_state := new_state\<rparr>)
      else a)"

definition set_selected_pair :: "pref option \<Rightarrow> ice_agent \<Rightarrow> ice_agent" where
  "set_selected_pair op a =
     (case op of
        Some p \<Rightarrow>
          (event PairChange (update_connection_state CS_Connected
            ((upd_pair p (\<lambda>x. x\<lparr>cp_nominated := True\<rparr>) a)\<lparr>ag_selected := Some p\<rparr>)))\<lparr>ag_connected_tx := False\<rparr>
      | None \<Rightarrow> a\<lparr>ag_selected := None\<rparr>)"

section \<open>Checklist\<close>

definition add_pair :: "cref \<Rightarrow> cref \<Rightarrow> ice_agent \<Rightarrow> ice_agent" where
  "add_pair l r a = a\<lparr>ag_pairs := ag_pairs a @ [pair_new l r (ag_controlling a)], ag_checklist := ag_checklist a @ [length (ag_pairs a)]\<rparr>"

definition find_pair :: "cref \<Rightarrow> cref \<Rightarrow> ice_agent \<Rightarrow> pref option" where
  "find_pair l r a =
     find (\<lambda>p. cand_equal (cand a (cp_local (pair a p))) (cand a l) \<and> cand_equal (cand a (cp_remote (pair a p))) (cand a r)) (ag_checklist a)"

definition better :: "ice_agent \<Rightarrow> pref \<Rightarrow> pref option \<Rightarrow> pref option" where
  "better a p best =
     (case best of
        Some b \<Rightarrow> if pair_priority (cand a) (pair a b) < pair_priority (cand a) (pair a p) then Some p else Some b
      | None \<Rightarrow> Some p)"

definition get_best_available_candidate_pair :: "ice_agent \<Rightarrow> pref option" where
  "get_best_available_candidate_pair a =
     fold (\<lambda>p best. if cp_state (pair a p) = PS_Failed then best else better a p best) (ag_checklist a) None"

definition get_best_valid_candidate_pair :: "ice_agent \<Rightarrow> pref option" where
  "get_best_valid_candidate_pair a =
     fold (\<lambda>p best. if cp_state (pair a p) \<noteq> PS_Succeeded then best else better a p best) (ag_checklist a) None"

section \<open>Sending\<close>

definition write_to :: "ice_env \<Rightarrow> bytes \<Rightarrow> cref \<Rightarrow> cref \<Rightarrow> ice_agent \<Rightarrow> nat ice_result \<times> ice_agent" where
  "write_to env raw l r a =
     (let dst = cb_resolved (cand a r) in
      if cb_conn (cand a l) then
        (if ev_send env raw dst then (Ok (length raw), (upd_cand l (cand_seen (ev_sys env) True) a)\<lparr>ag_sent := ag_sent a @ [(raw, l, dst)]\<rparr>)
         else (Err IErr_Util, a))
      else (Ok 0, upd_cand l (cand_seen (ev_sys env) True) a))"

definition send_stun :: "ice_env \<Rightarrow> stun_message \<Rightarrow> cref \<Rightarrow> cref \<Rightarrow> ice_agent \<Rightarrow> ice_agent" where
  "send_stun env m l r a = snd (write_to env (sm_raw m) l r a)"

definition invalidate_pending_binding_requests :: "nat \<Rightarrow> ice_agent \<Rightarrow> ice_agent" where
  "invalidate_pending_binding_requests now a =
     a\<lparr>ag_pending := filter (\<lambda>b. now < br_timestamp b \<or> now - br_timestamp b < MAX_BINDING_REQUEST_TIMEOUT) (ag_pending a)\<rparr>"

definition send_binding_request :: "ice_env \<Rightarrow> stun_message \<Rightarrow> cref \<Rightarrow> cref \<Rightarrow> ice_agent \<Rightarrow> ice_agent" where
  "send_binding_request env m l r a =
     (let a1 = invalidate_pending_binding_requests (ev_now env) a
      in send_stun env m l r (a1\<lparr>ag_pending := ag_pending a1 @ [\<lparr>br_timestamp = ev_now env, br_id = sm_transaction_id m,
           br_destination = cb_resolved (cand a1 r), br_use = msg_contains ATTR_USE_CANDIDATE m\<rparr>]\<rparr>))"

text \<open>The setters of a binding request; the role attribute and \<^verbatim>\<open>USE-CANDIDATE\<close> depend on the caller.\<close>

definition request_setters :: "ice_env \<Rightarrow> bytes \<Rightarrow> setter list \<Rightarrow> u32 \<Rightarrow> ice_agent \<Rightarrow> setter list" where
  "request_setters env txid role prio a =
     [set_type BINDING_REQUEST, set_transaction_id txid,
      text_add_to ATTR_USERNAME (ag_remote_ufrag a @ ascii '':'' @ ag_local_ufrag a)] @ role @
     [priority_add_to prio, integrity_add_to (ev_hmac env) (ag_remote_pwd a), fingerprint_add_to (ev_crc env)]"

definition send_request :: "ice_env \<Rightarrow> setter list \<Rightarrow> cref \<Rightarrow> cref \<Rightarrow> ice_agent \<Rightarrow> ice_agent" where
  "send_request env role l r a =
     (let txid = ev_txid env (ag_txids a);
          a1 = a\<lparr>ag_txids := ag_txids a + 1\<rparr>
      in case msg_build (request_setters env txid role (cand_priority (cand a l)) a) stun_message_new of
           (Ok _, msg) \<Rightarrow> send_binding_request env msg l r a1
         | _ \<Rightarrow> a1)"

definition nominate_pair :: "ice_env \<Rightarrow> ice_agent \<Rightarrow> ice_agent" where
  "nominate_pair env a =
     (case ag_nominated a of
        Some p \<Rightarrow> send_request env [use_candidate_add_to, controlling_add_to (ag_tie_breaker a)] (cp_local (pair a p)) (cp_remote (pair a p)) a
      | None \<Rightarrow> a)"

definition ping_candidate :: "ice_env \<Rightarrow> cref \<Rightarrow> cref \<Rightarrow> ice_agent \<Rightarrow> ice_agent" where
  "ping_candidate env l r a =
     (if ag_controlling a then send_request env [controlling_add_to (ag_tie_breaker a)] l r a
      else send_request env [controlled_add_to (ag_tie_breaker a)] l r a)"

definition send_binding_success :: "ice_env \<Rightarrow> stun_message \<Rightarrow> cref \<Rightarrow> cref \<Rightarrow> ice_agent \<Rightarrow> ice_agent" where
  "send_binding_success env m l r a =
     (let addr = cb_resolved (cand a r) in
      case msg_build [set_transaction_id (sm_transaction_id m), set_type BINDING_SUCCESS,
          xor_add_to_as ATTR_XORMAPPED_ADDRESS \<lparr>ma_ip = sa_ip addr, ma_port = sa_port addr\<rparr>,
          integrity_add_to (ev_hmac env) (ag_local_pwd a), fingerprint_add_to (ev_crc env)] stun_message_new of
        (Ok _, out) \<Rightarrow> send_stun env out l r a
      | _ \<Rightarrow> a)"

text \<open>The loop under the lock of the checklist, which collects the pairs to ping.\<close>

definition ping_step :: "pref \<Rightarrow> ice_agent \<times> (cref \<times> cref) list \<Rightarrow> ice_agent \<times> (cref \<times> cref) list" where
  "ping_step p s =
     (case s of (a, out) \<Rightarrow>
        let st = cp_state (pair a p) in
        if st \<noteq> PS_Waiting \<and> st \<noteq> PS_InProgress then (a, out)
        else
          let a1 = upd_pair p (\<lambda>x. x\<lparr>cp_state := PS_InProgress\<rparr>) a in
          if cp_count (pair a1 p) > ag_max_requests a1 then (upd_pair p (\<lambda>x. x\<lparr>cp_state := PS_Failed\<rparr>) a1, out)
          else (upd_pair p (\<lambda>x. x\<lparr>cp_count := cp_count x + 1\<rparr>) a1, out @ [(cp_local (pair a1 p), cp_remote (pair a1 p))]))"

definition ping_all_candidates :: "ice_env \<Rightarrow> ice_agent \<Rightarrow> ice_agent" where
  "ping_all_candidates env a =
     (case fold ping_step (ag_checklist a) (a, []) of (a1, pairs) \<Rightarrow> fold (\<lambda>(l, r). ping_candidate env l r) pairs a1)"

section \<open>The selected pair over time\<close>

definition validate_selected_pair :: "ice_env \<Rightarrow> ice_agent \<Rightarrow> bool \<times> ice_agent" where
  "validate_selected_pair env a =
     (case ag_selected a of
        None \<Rightarrow> (False, a)
      | Some p \<Rightarrow>
          let disconnected_time = unat (ev_sys env) - unat (cb_last_received (cand a (cp_remote (pair a p))));
              total_time_to_failure = (if ag_failed_timeout a \<noteq> 0 then ag_failed_timeout a + ag_disconnected_timeout a else 0)
          in (True,
              if total_time_to_failure \<noteq> 0 \<and> disconnected_time > total_time_to_failure then update_connection_state CS_Failed a
              else if ag_disconnected_timeout a \<noteq> 0 \<and> disconnected_time > ag_disconnected_timeout a then update_connection_state CS_Disconnected a
              else update_connection_state CS_Connected a))"

definition check_keepalive :: "ice_env \<Rightarrow> ice_agent \<Rightarrow> ice_agent" where
  "check_keepalive env a =
     (case ag_selected a of
        None \<Rightarrow> a
      | Some p \<Rightarrow>
          let l = cp_local (pair a p); r = cp_remote (pair a p);
              last_sent = unat (ev_sys env) - unat (cb_last_sent (cand a l));
              last_received = unat (ev_sys env) - unat (cb_last_received (cand a r))
          in if ag_keepalive a \<noteq> 0 \<and> (last_sent > ag_keepalive a \<or> last_received > ag_keepalive a) then ping_candidate env l r a else a)"

definition is_nominatable :: "ice_env \<Rightarrow> cref \<Rightarrow> ice_agent \<Rightarrow> bool" where
  "is_nominatable env c a = (case cb_type (cand a c) of Host \<Rightarrow> ev_now env - ag_start_time a > ag_host_wait a | _ \<Rightarrow> False)"

definition selector_start :: "nat \<Rightarrow> ice_agent \<Rightarrow> ice_agent" where
  "selector_start now a = (if ag_controlling a then a\<lparr>ag_nominated := None, ag_start_time := now\<rparr> else a)"

definition contact_controlling :: "ice_env \<Rightarrow> ice_agent \<Rightarrow> ice_agent" where
  "contact_controlling env a =
     (if ag_selected a \<noteq> None then
        (case validate_selected_pair env a of (v, a1) \<Rightarrow> if v then check_keepalive env a1 else a1)
      else if ag_nominated a \<noteq> None then nominate_pair env a
      else
        case get_best_valid_candidate_pair a of
          Some p \<Rightarrow>
            if is_nominatable env (cp_local (pair a p)) a \<and> is_nominatable env (cp_remote (pair a p)) a then
              nominate_pair env ((upd_pair p (\<lambda>x. x\<lparr>cp_nominated := True\<rparr>) a)\<lparr>ag_nominated := Some p\<rparr>)
            else ping_all_candidates env a
        | None \<Rightarrow> ping_all_candidates env a)"

definition contact_controlled :: "ice_env \<Rightarrow> ice_agent \<Rightarrow> ice_agent" where
  "contact_controlled env a =
     (if ag_lite a then snd (validate_selected_pair env a)
      else if ag_selected a \<noteq> None then
        (case validate_selected_pair env a of (v, a1) \<Rightarrow> if v then check_keepalive env a1 else a1)
      else ping_all_candidates env a)"

definition contact_candidates :: "ice_env \<Rightarrow> ice_agent \<Rightarrow> ice_agent" where
  "contact_candidates env a = (if ag_controlling a then contact_controlling env a else contact_controlled env a)"

text \<open>One round of the check task, with its last state and the time checking began.\<close>

definition contact :: "ice_env \<Rightarrow> connection_state \<times> nat \<Rightarrow> ice_agent \<Rightarrow> (connection_state \<times> nat) \<times> ice_agent" where
  "contact env t a =
     (case t of (last_connection_state, checking_duration) \<Rightarrow>
        if ag_state a = CS_Failed then ((CS_Failed, checking_duration), a)
        else
          let checking_duration = (if ag_state a = CS_Checking \<and> last_connection_state \<noteq> CS_Checking then ev_now env else checking_duration)
          in if ag_state a = CS_Checking \<and> ev_now env - checking_duration > ag_disconnected_timeout a + ag_failed_timeout a then
               let a1 = update_connection_state CS_Failed a in ((ag_state a1, checking_duration), a1)
             else let a1 = contact_candidates env a in ((ag_state a1, checking_duration), a1))"

text \<open>How long the check task sleeps.\<close>

definition update_interval :: "nat \<Rightarrow> nat \<Rightarrow> nat" where
  "update_interval x interval = (if x \<noteq> 0 \<and> (interval = 0 \<or> interval > x) then x else interval)"

definition check_interval :: "connection_state \<Rightarrow> ice_agent \<Rightarrow> nat" where
  "check_interval cs a =
     (let i = DEFAULT_CHECK_INTERVAL;
          i = (if cs = CS_New \<or> cs = CS_Checking then update_interval (ag_check_interval a) i
               else if cs = CS_Connected \<or> cs = CS_Disconnected then update_interval (ag_keepalive a) i else i)
      in update_interval (ag_failed_timeout a) (update_interval (ag_disconnected_timeout a) i))"

section \<open>Candidates of both sides\<close>

definition request_connectivity_check :: "ice_agent \<Rightarrow> ice_agent" where
  "request_connectivity_check a = a\<lparr>ag_force := True\<rparr>"

text \<open>A candidate enters the store when it is created.\<close>

definition alloc_cand :: "candidate \<Rightarrow> ice_agent \<Rightarrow> cref \<times> ice_agent" where
  "alloc_cand c a = (length (ag_cands a), a\<lparr>ag_cands := ag_cands a @ [c]\<rparr>)"

definition of_type :: "(network_type, cref list) hash_map \<Rightarrow> network_type \<Rightarrow> cref list" where
  "of_type m nt = (case hm_get m nt of Some cs \<Rightarrow> cs | None \<Rightarrow> [])"

definition add_remote_candidate :: "cref \<Rightarrow> ice_agent \<Rightarrow> ice_agent" where
  "add_remote_candidate c a =
     (let nt = cb_network_type (cand a c); cs = of_type (ag_remote a) nt in
      if \<exists>x \<in> set cs. cand_equal (cand a x) (cand a c) then a
      else
        let a1 = a\<lparr>ag_remote := hm_insert nt (cs @ [c]) (ag_remote a)\<rparr>
        in request_connectivity_check (fold (\<lambda>l. add_pair l c) (of_type (ag_local a1) nt) a1))"

definition start_candidate :: "cref \<Rightarrow> ice_agent \<Rightarrow> ice_agent" where
  "start_candidate c = upd_cand c (\<lambda>x. x\<lparr>cb_open := True\<rparr>)"

definition add_candidate :: "cref \<Rightarrow> ice_agent \<Rightarrow> ice_agent" where
  "add_candidate c a =
     (let a = start_candidate c a; nt = cb_network_type (cand a c); cs = of_type (ag_local a) nt in
      if \<exists>x \<in> set cs. cand_equal (cand a x) (cand a c) then close_cand c a
      else
        let a1 = a\<lparr>ag_local := hm_insert nt (cs @ [c]) (ag_local a)\<rparr>
        in event (CandidateFound c) (request_connectivity_check (fold (add_pair c) (of_type (ag_remote a1) nt) a1)))"

datatype mdns_mode = Mdns_Unspecified | Mdns_Disabled | Mdns_QueryOnly | Mdns_QueryAndGather

text \<open>\<^verbatim>\<open>Agent::add_remote_candidate\<close>; the task it spawns is part of the step.\<close>

definition agent_add_remote_candidate :: "mdns_mode \<Rightarrow> candidate \<Rightarrow> ice_agent \<Rightarrow> unit ice_result \<times> ice_agent" where
  "agent_add_remote_candidate mode c a =
     (if cb_type c = Host \<and> ends_with (cb_address c) (ascii ''.local'') then (Ok (), a)
      else case alloc_cand c a of (r, a1) \<Rightarrow> (Ok (), add_remote_candidate r a1))"

definition find_remote_candidate :: "network_type \<Rightarrow> socket_addr \<Rightarrow> ice_agent \<Rightarrow> cref option" where
  "find_remote_candidate nt addr a =
     find (\<lambda>c. cb_address (cand a c) = show_ip (sa_ip addr) \<and> cb_port (cand a c) = sa_port addr) (of_type (ag_remote a) nt)"

section \<open>Inbound messages\<close>

fun remove_request :: "bytes \<Rightarrow> binding_request list \<Rightarrow> binding_request option \<times> binding_request list" where
  "remove_request txid [] = (None, [])"
| "remove_request txid (b # bs) =
     (if br_id b = txid then (Some b, bs) else case remove_request txid bs of (r, rest) \<Rightarrow> (r, b # rest))"

definition handle_inbound_binding_success :: "ice_env \<Rightarrow> bytes \<Rightarrow> ice_agent \<Rightarrow> binding_request option \<times> ice_agent" where
  "handle_inbound_binding_success env txid a =
     (let a1 = invalidate_pending_binding_requests (ev_now env) a
      in case remove_request txid (ag_pending a1) of (r, rest) \<Rightarrow> (r, a1\<lparr>ag_pending := rest\<rparr>))"

definition mark_succeeded :: "pref \<Rightarrow> ice_agent \<Rightarrow> ice_agent" where
  "mark_succeeded p = upd_pair p (\<lambda>x. x\<lparr>cp_state := PS_Succeeded\<rparr>)"

definition handle_success_response :: "ice_env \<Rightarrow> stun_message \<Rightarrow> cref \<Rightarrow> cref \<Rightarrow> socket_addr \<Rightarrow> ice_agent \<Rightarrow> ice_agent" where
  "handle_success_response env m l r remote_addr a =
     (case handle_inbound_binding_success env (sm_transaction_id m) a of
        (None, a1) \<Rightarrow> a1
      | (Some request, a1) \<Rightarrow>
          if br_destination request \<noteq> remote_addr then a1
          else case find_pair l r a1 of
              None \<Rightarrow> a1
            | Some p \<Rightarrow>
                if ag_controlling a1 \<and> br_use request \<and> ag_selected a1 = None then set_selected_pair (Some p) (mark_succeeded p a1)
                else mark_succeeded p a1)"

definition binding_request_controlling :: "ice_env \<Rightarrow> stun_message \<Rightarrow> cref \<Rightarrow> cref \<Rightarrow> ice_agent \<Rightarrow> ice_agent" where
  "binding_request_controlling env m l r a =
     (let a1 = send_binding_success env m l r a in
      case find_pair l r a1 of
        None \<Rightarrow> add_pair l r a1
      | Some p \<Rightarrow>
          if cp_state (pair a1 p) = PS_Succeeded \<and> ag_nominated a1 = None \<and> ag_selected a1 = None then
            (case get_best_available_candidate_pair a1 of
               Some best \<Rightarrow>
                 if pair_equal (cand a1) (pair a1 best) (pair a1 p) \<and> is_nominatable env (cp_local (pair a1 p)) a1 \<and>
                    is_nominatable env (cp_remote (pair a1 p)) a1
                 then nominate_pair env (a1\<lparr>ag_nominated := Some p\<rparr>)
                 else a1
             | None \<Rightarrow> a1)
          else a1)"

definition binding_request_controlled :: "ice_env \<Rightarrow> stun_message \<Rightarrow> cref \<Rightarrow> cref \<Rightarrow> ice_agent \<Rightarrow> ice_agent" where
  "binding_request_controlled env m l r a =
     (let a1 = (if find_pair l r a = None then add_pair l r a else a) in
      case find_pair l r a1 of
        None \<Rightarrow> a1
      | Some p \<Rightarrow>
          if msg_contains ATTR_USE_CANDIDATE m then
            if cp_state (pair a1 p) = PS_Succeeded then
              send_binding_success env m l r (if ag_selected a1 = None then set_selected_pair (Some p) a1 else a1)
            else ping_candidate env l r a1
          else ping_candidate env l r (send_binding_success env m l r a1))"

definition handle_binding_request :: "ice_env \<Rightarrow> stun_message \<Rightarrow> cref \<Rightarrow> cref \<Rightarrow> ice_agent \<Rightarrow> ice_agent" where
  "handle_binding_request env m l r a =
     (if ag_controlling a then binding_request_controlling env m l r a else binding_request_controlled env m l r a)"

definition assert_inbound_username :: "bytes \<Rightarrow> stun_message \<Rightarrow> unit ice_result" where
  "assert_inbound_username expected m =
     (case text_get_from_as ATTR_USERNAME m of
        Ok username \<Rightarrow> if username \<noteq> expected then Err IErr_Other else Ok ()
      | Err e \<Rightarrow> Err (IErr_Stun e)
      | Panic \<Rightarrow> Panic)"

definition assert_inbound_message_integrity :: "ice_env \<Rightarrow> bytes \<Rightarrow> stun_message \<Rightarrow> unit ice_result \<times> stun_message" where
  "assert_inbound_message_integrity env key m =
     (case integrity_check (ev_hmac env) key m of
        (Ok _, m1) \<Rightarrow> (Ok (), m1)
      | (Err e, m1) \<Rightarrow> (Err (IErr_Stun e), m1)
      | (Panic, m1) \<Rightarrow> (Panic, m1))"

definition METHOD_BINDING :: u16 where "METHOD_BINDING = 1"
definition CLASS_REQUEST :: u8 where "CLASS_REQUEST = 0"
definition CLASS_INDICATION :: u8 where "CLASS_INDICATION = 1"
definition CLASS_SUCCESS_RESPONSE :: u8 where "CLASS_SUCCESS_RESPONSE = 2"

text \<open>Messages the agent does not answer: other methods and classes, and messages of the peer's role that conflict with its own.\<close>

definition inbound_ignored :: "stun_message \<Rightarrow> ice_agent \<Rightarrow> bool" where
  "inbound_ignored m a \<longleftrightarrow>
     mt_method (sm_typ m) \<noteq> METHOD_BINDING \<or> mt_class (sm_typ m) \<notin> {CLASS_SUCCESS_RESPONSE, CLASS_REQUEST, CLASS_INDICATION} \<or>
     (if ag_controlling a then msg_contains ATTR_ICE_CONTROLLING m \<or> msg_contains ATTR_USE_CANDIDATE m
      else msg_contains ATTR_ICE_CONTROLLED m)"

definition seen_inbound :: "ice_env \<Rightarrow> cref \<Rightarrow> ice_agent \<Rightarrow> ice_agent" where
  "seen_inbound env c = upd_cand c (cand_seen (ev_sys env) False)"

definition ice_handle_inbound :: "ice_env \<Rightarrow> stun_message \<Rightarrow> cref \<Rightarrow> socket_addr \<Rightarrow> ice_agent \<Rightarrow> ice_agent" where
  "ice_handle_inbound env m l remote a =
     (if inbound_ignored m a then a
      else
        let rc = find_remote_candidate (cb_network_type (cand a l)) remote a in
        if mt_class (sm_typ m) = CLASS_SUCCESS_RESPONSE then
          (case assert_inbound_message_integrity env (ag_remote_pwd a) m of
             (Ok _, m1) \<Rightarrow>
               (case rc of Some r \<Rightarrow> seen_inbound env r (handle_success_response env m1 l r remote a) | None \<Rightarrow> a)
           | _ \<Rightarrow> a)
        else if mt_class (sm_typ m) = CLASS_REQUEST then
          (case assert_inbound_username (ag_local_ufrag a @ ascii '':'' @ ag_remote_ufrag a) m of
             Ok _ \<Rightarrow>
               (case assert_inbound_message_integrity env (ag_local_pwd a) m of
                  (Ok _, m1) \<Rightarrow>
                    (case rc of Some r \<Rightarrow> seen_inbound env r (handle_binding_request env m1 l r a) | None \<Rightarrow> a)
                | _ \<Rightarrow> a)
           | _ \<Rightarrow> a)
        else (case rc of Some r \<Rightarrow> seen_inbound env r a | None \<Rightarrow> a))"

definition validate_non_stun_traffic :: "ice_env \<Rightarrow> cref \<Rightarrow> socket_addr \<Rightarrow> ice_agent \<Rightarrow> bool \<times> ice_agent" where
  "validate_non_stun_traffic env l remote a =
     (case find_remote_candidate (cb_network_type (cand a l)) remote a of
        Some r \<Rightarrow> (True, seen_inbound env r a)
      | None \<Rightarrow> (False, a))"

definition handle_inbound_candidate_msg :: "ice_env \<Rightarrow> cref \<Rightarrow> bytes \<Rightarrow> socket_addr \<Rightarrow> ice_agent \<Rightarrow> ice_agent" where
  "handle_inbound_candidate_msg env c buf src a =
     (if is_message buf then
        (case msg_decode (stun_message_new\<lparr>sm_raw := buf\<rparr>) of
           (Ok _, m) \<Rightarrow> ice_handle_inbound env m c src a
         | _ \<Rightarrow> a)
      else
        case validate_non_stun_traffic env c src a of
          (False, a1) \<Rightarrow> a1
        | (True, a1) \<Rightarrow> a1\<lparr>ag_buffer := snd (buffer_write buf (ag_buffer a1))\<rparr>)"

section \<open>Start, restart and close\<close>

definition set_remote_credentials :: "bytes \<Rightarrow> bytes \<Rightarrow> ice_agent \<Rightarrow> unit ice_result \<times> ice_agent" where
  "set_remote_credentials ufrag pwd a =
     (if ufrag = [] then (Err ErrRemoteUfragEmpty, a)
      else if pwd = [] then (Err ErrRemotePwdEmpty, a)
      else (Ok (), a\<lparr>ag_remote_ufrag := ufrag, ag_remote_pwd := pwd\<rparr>))"

text \<open>The check task starts if no earlier call has taken its channels.\<close>

definition start_connectivity_checks :: "ice_env \<Rightarrow> bool \<Rightarrow> bytes \<Rightarrow> bytes \<Rightarrow> ice_agent \<Rightarrow> unit ice_result \<times> ice_agent" where
  "start_connectivity_checks env controlling ufrag pwd a =
     (if \<not> ag_started_ch a then (Err ErrMultipleStart, a)
      else case set_remote_credentials ufrag pwd a of
        (Ok _, a1) \<Rightarrow>
          (Ok (), (request_connectivity_check (update_connection_state CS_Checking
             ((selector_start (ev_now env) (a1\<lparr>ag_controlling := controlling\<rparr>))\<lparr>ag_started_ch := False\<rparr>)))\<lparr>ag_check_rx := False\<rparr>)
      | r \<Rightarrow> r)"

definition agent_close :: "ice_agent \<Rightarrow> unit ice_result \<times> ice_agent" where
  "agent_close a =
     (if \<not> ag_done_tx a then (Err IErr_Closed, a)
      else
        let a1 = (delete_all_candidates (a\<lparr>ag_done_tx := False\<rparr>))\<lparr>ag_started_ch := False\<rparr>;
            a2 = update_connection_state CS_Closed (a1\<lparr>ag_buffer := buffer_close (ag_buffer a1)\<rparr>)
        in (Ok (), a2\<lparr>ag_chan := False, ag_done := True\<rparr>))"

definition LEN_UFRAG :: nat where "LEN_UFRAG = 16"
definition LEN_PWD :: nat where "LEN_PWD = 32"

text \<open>\<^verbatim>\<open>Agent::restart\<close>; \<open>rand_ufrag\<close> and \<open>rand_pwd\<close> are the generated credentials.\<close>

definition restart :: "ice_env \<Rightarrow> bytes \<Rightarrow> bytes \<Rightarrow> bytes \<Rightarrow> bytes \<Rightarrow> ice_agent \<Rightarrow> unit ice_result \<times> ice_agent" where
  "restart env rand_ufrag rand_pwd ufrag0 pwd0 a =
     (let ufrag = (if ufrag0 = [] then rand_ufrag else ufrag0);
          pwd = (if pwd0 = [] then rand_pwd else pwd0)
      in if length ufrag * 8 < 24 then (Err ErrLocalUfragInsufficientBits, a)
         else if length pwd * 8 < 128 then (Err ErrLocalPwdInsufficientBits, a)
         else if ag_gathering a = GS_Gathering then (Err ErrRestartWhenGathering, a)
         else
           let a1 = a\<lparr>ag_gathering := GS_New\<rparr> in
           if \<not> ag_done_tx a1 then (Err IErr_Closed, a1)
           else
             let a2 = a1\<lparr>ag_local_ufrag := ufrag, ag_local_pwd := pwd, ag_remote_ufrag := [], ag_remote_pwd := [], ag_pending := [], ag_checklist := []\<rparr>;
                 a3 = selector_start (ev_now env) (delete_all_candidates (set_selected_pair None a2))
             in (Ok (), if ag_state a3 \<noteq> CS_New then update_connection_state CS_Checking a3 else a3))"

section \<open>The connection over the agent\<close>

definition conn_send :: "ice_env \<Rightarrow> bytes \<Rightarrow> ice_agent \<Rightarrow> nat ice_result \<times> ice_agent" where
  "conn_send env buf a =
     (if ag_done a then (Err IErr_Io, a)
      else if is_message buf then (Err IErr_Other, a)
      else
        let write = (\<lambda>p. case write_to env buf (cp_local (pair a p)) (cp_remote (pair a p)) a of (Ok n, a1) \<Rightarrow> (Ok n, a1) | (_, a1) \<Rightarrow> (Err IErr_Io, a1))
        in case ag_selected a of
             Some p \<Rightarrow> write p
           | None \<Rightarrow> (case get_best_available_candidate_pair a of Some p \<Rightarrow> write p | None \<Rightarrow> (Ok 0, a)))"

text \<open>A read that would wait gives \<open>None\<close>.\<close>

definition conn_recv :: "bytes \<Rightarrow> ice_agent \<Rightarrow> nat ice_result option \<times> bytes \<times> ice_agent" where
  "conn_recv buf a =
     (if ag_done a then (Some (Err IErr_Io), buf, a)
      else case buffer_read buf (ag_buffer a) of
        (None, buf1, b) \<Rightarrow> (None, buf1, a\<lparr>ag_buffer := b\<rparr>)
      | (Some (Ok n), buf1, b) \<Rightarrow> (Some (Ok n), buf1, a\<lparr>ag_buffer := b\<rparr>)
      | (Some _, buf1, b) \<Rightarrow> (Some (Err IErr_Io), buf1, a\<lparr>ag_buffer := b\<rparr>))"

end
