(* ===== verification/Ice_Invariant.thy ===== *)
theory Ice_Invariant
  imports Ice_Agent
begin

text \<open>
  What every step of the ICE agent keeps: references stay inside the stores, a selected pair has succeeded and is nominated, and
  only an authentic answer to an own request makes a pair succeed.
\<close>

section \<open>Operations that only cause traffic\<close>

text \<open>
  Sending changes the times of candidates, the pending requests and what was sent. Everything else of the agent is its
  \<open>core\<close>.
\<close>

definition strip :: "candidate \<Rightarrow> candidate" where
  "strip c = c\<lparr>cb_last_sent := 0, cb_last_received := 0, cb_open := False\<rparr>"

definition core :: "ice_agent \<Rightarrow> candidate list \<times> ice_agent" where
  "core a = (map strip (ag_cands a), a\<lparr>ag_cands := [], ag_pending := [], ag_txids := 0, ag_sent := []\<rparr>)"

lemma core_fields:
  assumes "core a' = core a"
  shows "ag_pairs a' = ag_pairs a" "ag_checklist a' = ag_checklist a" "ag_selected a' = ag_selected a" "ag_nominated a' = ag_nominated a"
    "ag_state a' = ag_state a" "ag_controlling a' = ag_controlling a" "ag_local a' = ag_local a" "ag_remote a' = ag_remote a"
    "ag_max_requests a' = ag_max_requests a" "ag_remote_pwd a' = ag_remote_pwd a" "ag_local_pwd a' = ag_local_pwd a"
    "ag_events a' = ag_events a" "ag_buffer a' = ag_buffer a" "ag_start_time a' = ag_start_time a" "ag_host_wait a' = ag_host_wait a"
    "length (ag_cands a') = length (ag_cands a)" "map strip (ag_cands a') = map strip (ag_cands a)"
proof -
  from assms have s: "a'\<lparr>ag_cands := [], ag_pending := [], ag_txids := 0, ag_sent := []\<rparr> = a\<lparr>ag_cands := [], ag_pending := [], ag_txids := 0, ag_sent := []\<rparr>"
    and m: "map strip (ag_cands a') = map strip (ag_cands a)" by (simp_all add: core_def)
  show "map strip (ag_cands a') = map strip (ag_cands a)" by (rule m)
  show "length (ag_cands a') = length (ag_cands a)" using arg_cong [OF m, of length] by simp
  show "ag_pairs a' = ag_pairs a" using arg_cong [OF s, of ag_pairs] by simp
  show "ag_checklist a' = ag_checklist a" using arg_cong [OF s, of ag_checklist] by simp
  show "ag_selected a' = ag_selected a" using arg_cong [OF s, of ag_selected] by simp
  show "ag_nominated a' = ag_nominated a" using arg_cong [OF s, of ag_nominated] by simp
  show "ag_state a' = ag_state a" using arg_cong [OF s, of ag_state] by simp
  show "ag_controlling a' = ag_controlling a" using arg_cong [OF s, of ag_controlling] by simp
  show "ag_local a' = ag_local a" using arg_cong [OF s, of ag_local] by simp
  show "ag_remote a' = ag_remote a" using arg_cong [OF s, of ag_remote] by simp
  show "ag_max_requests a' = ag_max_requests a" using arg_cong [OF s, of ag_max_requests] by simp
  show "ag_remote_pwd a' = ag_remote_pwd a" using arg_cong [OF s, of ag_remote_pwd] by simp
  show "ag_local_pwd a' = ag_local_pwd a" using arg_cong [OF s, of ag_local_pwd] by simp
  show "ag_events a' = ag_events a" using arg_cong [OF s, of ag_events] by simp
  show "ag_buffer a' = ag_buffer a" using arg_cong [OF s, of ag_buffer] by simp
  show "ag_start_time a' = ag_start_time a" using arg_cong [OF s, of ag_start_time] by simp
  show "ag_host_wait a' = ag_host_wait a" using arg_cong [OF s, of ag_host_wait] by simp
qed

lemma map_strip_update: "strip (f (xs ! c)) = strip (xs ! c) \<Longrightarrow> map strip (xs[c := f (xs ! c)]) = map strip xs"
  by (cases "c < length xs") (simp_all add: map_update list_update_same_conv list_update_beyond)

lemma core_upd_cand [simp]: "(\<And>x. strip (f x) = strip x) \<Longrightarrow> core (upd_cand c f a) = core a"
  by (simp add: core_def upd_cand_def cand_def map_strip_update)

lemma strip_ops [simp]: "strip (cand_seen now outbound x) = strip x" "strip (snd (cand_close x)) = strip x" "strip (x\<lparr>cb_open := b\<rparr>) = strip x"
  by (simp_all add: strip_def cand_seen_def cand_close_def)

lemma core_traffic [simp]:
  "core (a\<lparr>ag_pending := ps\<rparr>) = core a" "core (a\<lparr>ag_txids := n\<rparr>) = core a" "core (a\<lparr>ag_sent := s\<rparr>) = core a"
  by (simp_all add: core_def)

lemma core_write_to [simp]: "core (snd (write_to env raw l r a)) = core a"
  by (simp add: write_to_def Let_def)

lemma core_send [simp]:
  "core (send_stun env m l r a) = core a" "core (invalidate_pending_binding_requests now a) = core a"
  "core (send_binding_request env m l r a) = core a" "core (send_binding_success env m l r a) = core a"
  "core (send_request env role l r a) = core a" "core (nominate_pair env a) = core a" "core (ping_candidate env l r a) = core a"
  by (auto simp: send_stun_def invalidate_pending_binding_requests_def send_binding_request_def send_binding_success_def send_request_def
      nominate_pair_def ping_candidate_def Let_def split: option.splits prod.splits outcome.splits)

lemma core_check_keepalive [simp]: "core (check_keepalive env a) = core a"
  by (simp add: check_keepalive_def Let_def split: option.splits)

lemma core_seen_inbound [simp]: "core (seen_inbound env c a) = core a"
  by (simp add: seen_inbound_def)

lemma core_close_cands [simp]: "core (fold close_cand cs a) = core a"
  by (induction cs arbitrary: a) (simp_all add: close_cand_def)

lemma core_fold_ping [simp]: "core (fold (\<lambda>(l, r). ping_candidate env l r) ps a) = core a"
  by (induction ps arbitrary: a) (auto simp: split_def)

lemma core_binding_success [simp]: "core (snd (handle_inbound_binding_success env txid a)) = core a"
  by (simp add: handle_inbound_binding_success_def Let_def split: prod.splits)

section \<open>Steps of the agent\<close>

text \<open>
  The inputs of an agent: a round of the check task, a datagram at a local candidate, candidates of both sides, the calls of the
  application. Each is handled in one step, with its own environment.
\<close>

datatype ice_input = Tick "connection_state \<times> nat" | Datagram cref bytes socket_addr | AddRemote mdns_mode candidate | AddLocal candidate
  | Start bool bytes bytes | Restart bytes bytes bytes bytes | Close | Send bytes

fun ice_step :: "ice_env \<Rightarrow> ice_input \<Rightarrow> ice_agent \<Rightarrow> ice_agent" where
  "ice_step env (Tick t) a = snd (contact env t a)"
| "ice_step env (Datagram c buf src) a = handle_inbound_candidate_msg env c buf src a"
| "ice_step env (AddRemote mode c) a = snd (agent_add_remote_candidate mode c a)"
| "ice_step env (AddLocal c) a = (case alloc_cand c a of (r, a1) \<Rightarrow> add_candidate r a1)"
| "ice_step env (Start controlling ufrag pwd) a = snd (start_connectivity_checks env controlling ufrag pwd a)"
| "ice_step env (Restart ru rp ufrag pwd) a = snd (restart env ru rp ufrag pwd a)"
| "ice_step env Close a = snd (agent_close a)"
| "ice_step env (Send buf) a = snd (conn_send env buf a)"

definition input_ok :: "ice_input \<Rightarrow> ice_agent \<Rightarrow> bool" where
  "input_ok i a = (case i of Datagram c _ _ \<Rightarrow> c < length (ag_cands a) | _ \<Rightarrow> True)"

inductive ice_reachable :: "ice_agent \<Rightarrow> bool" where
  init: "ice_reachable (init_with_defaults cfg (agent_internal_new now tie cfg))"
| step: "ice_reachable a \<Longrightarrow> input_ok i a \<Longrightarrow> ice_reachable (ice_step env i a)"

section \<open>Invariant\<close>

definition refs_ok :: "ice_agent \<Rightarrow> bool" where
  "refs_ok a \<longleftrightarrow> (\<forall>p \<in> set (ag_checklist a). p < length (ag_pairs a)) \<and> (\<forall>p. ag_selected a = Some p \<longrightarrow> p < length (ag_pairs a)) \<and>
     (\<forall>p. ag_nominated a = Some p \<longrightarrow> p < length (ag_pairs a)) \<and>
     (\<forall>x \<in> set (ag_pairs a). cp_local x < length (ag_cands a) \<and> cp_remote x < length (ag_cands a)) \<and>
     (\<forall>(nt, cs) \<in> set (ag_local a). \<forall>c \<in> set cs. c < length (ag_cands a)) \<and>
     (\<forall>(nt, cs) \<in> set (ag_remote a). \<forall>c \<in> set cs. c < length (ag_cands a))"

definition selected_ok :: "ice_agent \<Rightarrow> bool" where
  "selected_ok a \<longleftrightarrow> (\<forall>p. ag_selected a = Some p \<longrightarrow> cp_state (pair a p) = PS_Succeeded \<and> cp_nominated (pair a p)) \<and>
     (ag_state a = CS_Connected \<or> ag_state a = CS_Disconnected \<longrightarrow> ag_selected a \<noteq> None)"

definition agent_inv :: "ice_agent \<Rightarrow> bool" where
  "agent_inv a \<longleftrightarrow> refs_ok a \<and> selected_ok a"

definition succeeded :: "ice_agent \<Rightarrow> pref set" where
  "succeeded a = {p. p < length (ag_pairs a) \<and> cp_state (pair a p) = PS_Succeeded}"

lemma core_inv: "core a' = core a \<Longrightarrow> agent_inv a' = agent_inv a \<and> succeeded a' = succeeded a"
  using core_fields [of a' a] by (simp add: agent_inv_def refs_ok_def selected_ok_def succeeded_def pair_def)

text \<open>An operation is sound when it keeps the invariant and makes no pair succeed.\<close>

definition sound :: "ice_agent \<Rightarrow> ice_agent \<Rightarrow> bool" where
  "sound a a' \<longleftrightarrow> (agent_inv a \<longrightarrow> agent_inv a') \<and> succeeded a' = succeeded a"

lemma sound_refl [simp]: "sound a a"
  by (simp add: sound_def)

lemma sound_trans: "sound a b \<Longrightarrow> sound b c \<Longrightarrow> sound a c"
  by (simp add: sound_def)

lemma sound_core: "core a' = core a \<Longrightarrow> sound a a'"
  using core_inv [of a' a] by (simp add: sound_def)

lemma sound_then_core: "sound a b \<Longrightarrow> core c = core b \<Longrightarrow> sound a c"
  by (rule sound_trans [OF _ sound_core])

lemma sound_fold: "(\<And>x a. sound a (f x a)) \<Longrightarrow> sound a (fold f xs a)"
  by (induction xs arbitrary: a) (auto intro: sound_trans)

text \<open>Operations on fields that the invariant does not mention.\<close>

definition other_fields :: "ice_agent \<Rightarrow> ice_agent \<Rightarrow> bool" where
  "other_fields a a' \<longleftrightarrow> ag_pairs a' = ag_pairs a \<and> ag_checklist a' = ag_checklist a \<and> ag_selected a' = ag_selected a \<and>
     ag_nominated a' = ag_nominated a \<and> ag_state a' = ag_state a \<and> length (ag_cands a') = length (ag_cands a) \<and>
     ag_local a' = ag_local a \<and> ag_remote a' = ag_remote a"

lemma sound_other: "other_fields a a' \<Longrightarrow> sound a a'"
  by (simp add: sound_def other_fields_def agent_inv_def refs_ok_def selected_ok_def succeeded_def pair_def)

lemma sound_event: "sound a (event e a)"
  by (rule sound_other) (simp add: event_def other_fields_def)

lemma sound_delete_all: "sound a (delete_all_candidates a)"
proof -
  let ?a1 = "fold close_cand (concat (hm_values (ag_local a))) a"
  let ?a2 = "fold close_cand (concat (hm_values (ag_remote (?a1\<lparr>ag_local := []\<rparr>)))) (?a1\<lparr>ag_local := []\<rparr>)"
  have drop: "sound b (b\<lparr>ag_local := []\<rparr>)" "sound b (b\<lparr>ag_remote := []\<rparr>)" for b
    by (auto simp: sound_def agent_inv_def refs_ok_def selected_ok_def succeeded_def pair_def)
  have "sound a ?a1" by (rule sound_core) simp
  moreover have "sound ?a1 (?a1\<lparr>ag_local := []\<rparr>)" by (rule drop)
  moreover have "sound (?a1\<lparr>ag_local := []\<rparr>) ?a2" by (rule sound_core) simp
  moreover have "sound ?a2 (?a2\<lparr>ag_remote := []\<rparr>)" by (rule drop)
  ultimately show ?thesis unfolding delete_all_candidates_def Let_def by (blast intro: sound_trans)
qed

text \<open>A state that needs no selected pair, or any state when there is one.\<close>

lemma sound_set_state:
  "ag_selected a \<noteq> None \<or> s \<notin> {CS_Connected, CS_Disconnected} \<Longrightarrow> sound a (a\<lparr>ag_state := s\<rparr>)"
  by (auto simp: sound_def agent_inv_def refs_ok_def selected_ok_def succeeded_def pair_def)

lemma delete_all_fields [simp]:
  "ag_selected (delete_all_candidates a) = ag_selected a" "ag_state (delete_all_candidates a) = ag_state a"
  "ag_pairs (delete_all_candidates a) = ag_pairs a" "ag_checklist (delete_all_candidates a) = ag_checklist a"
  "ag_nominated (delete_all_candidates a) = ag_nominated a" "ag_controlling (delete_all_candidates a) = ag_controlling a"
  by (simp_all add: delete_all_candidates_def Let_def core_fields [OF core_close_cands])

lemma sound_update_state:
  assumes "ag_selected a \<noteq> None \<or> s \<notin> {CS_Connected, CS_Disconnected}"
  shows "sound a (update_connection_state s a)"
proof -
  let ?b = "if s = CS_Failed then delete_all_candidates a else a"
  have "sound a ?b" using sound_delete_all by simp
  moreover have "sound ?b (?b\<lparr>ag_state := s\<rparr>)" using assms by (intro sound_set_state) auto
  ultimately show ?thesis using sound_event [of "?b\<lparr>ag_state := s\<rparr>"] unfolding update_connection_state_def by (auto intro: sound_trans)
qed

section \<open>Soundness of the operations\<close>

lemma pair_upd_pair: "pair (upd_pair p f a) q = (if q = p \<and> p < length (ag_pairs a) then f (pair a p) else pair a q)"
  by (auto simp: pair_def upd_pair_def nth_list_update list_update_beyond)

lemma upd_pair_fields [simp]:
  "length (ag_pairs (upd_pair p f a)) = length (ag_pairs a)" "ag_checklist (upd_pair p f a) = ag_checklist a" "ag_selected (upd_pair p f a) = ag_selected a"
  "ag_nominated (upd_pair p f a) = ag_nominated a" "ag_state (upd_pair p f a) = ag_state a" "ag_cands (upd_pair p f a) = ag_cands a"
  "ag_local (upd_pair p f a) = ag_local a" "ag_remote (upd_pair p f a) = ag_remote a" "ag_controlling (upd_pair p f a) = ag_controlling a"
  "ag_max_requests (upd_pair p f a) = ag_max_requests a"
  by (simp_all add: upd_pair_def)

lemma set_pairs_upd:
  assumes "x \<in> set (ag_pairs (upd_pair p f a))"
  shows "x \<in> set (ag_pairs a) \<or> p < length (ag_pairs a) \<and> x = f (pair a p)"
  using assms set_update_subset_insert [of "ag_pairs a" p "f (pair a p)"]
  by (cases "p < length (ag_pairs a)") (auto simp: upd_pair_def list_update_beyond)

lemma sound_upd_pair:
  assumes "cp_local (f (pair a p)) = cp_local (pair a p)" and "cp_remote (f (pair a p)) = cp_remote (pair a p)"
    and "cp_state (f (pair a p)) = PS_Succeeded \<longleftrightarrow> cp_state (pair a p) = PS_Succeeded"
    and "cp_nominated (pair a p) \<Longrightarrow> cp_nominated (f (pair a p))"
  shows "sound a (upd_pair p f a)"
proof -
  have "\<forall>x \<in> set (ag_pairs (upd_pair p f a)). cp_local x < length (ag_cands a) \<and> cp_remote x < length (ag_cands a)"
    if "\<forall>x \<in> set (ag_pairs a). cp_local x < length (ag_cands a) \<and> cp_remote x < length (ag_cands a)"
  proof
    fix x assume "x \<in> set (ag_pairs (upd_pair p f a))"
    from set_pairs_upd [OF this] show "cp_local x < length (ag_cands a) \<and> cp_remote x < length (ag_cands a)"
    proof
      assume p: "p < length (ag_pairs a) \<and> x = f (pair a p)"
      then have "pair a p \<in> set (ag_pairs a)" by (simp add: pair_def)
      with that have "cp_local (pair a p) < length (ag_cands a)" "cp_remote (pair a p) < length (ag_cands a)" by blast+
      with p assms(1,2) show ?thesis by simp
    qed (use that in blast)
  qed
  then have "refs_ok a \<Longrightarrow> refs_ok (upd_pair p f a)" unfolding refs_ok_def upd_pair_fields by blast
  moreover have "selected_ok a \<Longrightarrow> selected_ok (upd_pair p f a)" using assms(3,4) by (simp add: selected_ok_def pair_upd_pair)
  moreover have "succeeded (upd_pair p f a) = succeeded a" using assms(3) by (auto simp: succeeded_def pair_upd_pair)
  ultimately show ?thesis by (simp add: sound_def agent_inv_def)
qed

lemma pair_append: "pair (a\<lparr>ag_pairs := ag_pairs a @ [x], ag_checklist := cl\<rparr>) p = (if p < length (ag_pairs a) then pair a p else (x # []) ! (p - length (ag_pairs a)))"
  by (simp add: pair_def nth_append)

lemma sound_add_pair:
  assumes "l < length (ag_cands a)" and "r < length (ag_cands a)"
  shows "sound a (add_pair l r a)"
proof -
  have s: "succeeded (add_pair l r a) = succeeded a"
    by (auto simp: succeeded_def add_pair_def pair_append pair_new_def less_Suc_eq)
  have "agent_inv (add_pair l r a)" if inv: "agent_inv a"
  proof -
    have "refs_ok (add_pair l r a)" using inv assms by (auto simp: agent_inv_def refs_ok_def add_pair_def pair_new_def less_Suc_eq)
    moreover have "selected_ok (add_pair l r a)" using inv by (auto simp: agent_inv_def refs_ok_def selected_ok_def add_pair_def pair_append)
    ultimately show ?thesis by (simp add: agent_inv_def)
  qed
  with s show ?thesis by (simp add: sound_def)
qed

lemma sound_select:
  assumes "p < length (ag_pairs a)" and "cp_state (pair a p) = PS_Succeeded"
  shows "sound a (set_selected_pair (Some p) a)"
proof -
  let ?b = "upd_pair p (\<lambda>x. x\<lparr>cp_nominated := True\<rparr>) a"
  let ?c = "?b\<lparr>ag_selected := Some p\<rparr>"
  have "sound a ?b" by (rule sound_upd_pair) simp_all
  moreover have "sound ?b ?c"
  proof -
    have "pair ?b p = (pair a p)\<lparr>cp_nominated := True\<rparr>" using assms(1) by (simp add: pair_upd_pair)
    moreover have "pair ?c q = pair ?b q" for q by (simp add: pair_def)
    ultimately have "selected_ok ?c" using assms(2) by (simp add: selected_ok_def)
    moreover have "refs_ok ?b \<Longrightarrow> refs_ok ?c" using assms(1) by (simp add: refs_ok_def)
    moreover have "succeeded ?c = succeeded ?b" by (simp add: succeeded_def pair_def)
    ultimately show ?thesis by (simp add: sound_def agent_inv_def)
  qed
  moreover have "sound ?c (update_connection_state CS_Connected ?c)" by (rule sound_update_state) simp
  moreover have "sound d (d\<lparr>ag_connected_tx := False\<rparr>)" for d by (rule sound_other) (simp add: other_fields_def)
  ultimately show ?thesis unfolding set_selected_pair_def option.case using sound_event sound_trans by meson
qed

lemma sound_ping_step: "sound a (fst (ping_step p (a, out)))"
proof -
  let ?f = "\<lambda>x. x\<lparr>cp_state := PS_InProgress\<rparr>" and ?g = "\<lambda>x. x\<lparr>cp_state := PS_Failed\<rparr>" and ?h = "\<lambda>x. x\<lparr>cp_count := cp_count x + 1\<rparr>"
  show ?thesis
  proof (cases "cp_state (pair a p) = PS_Waiting \<or> cp_state (pair a p) = PS_InProgress")
    case True
    let ?b = "upd_pair p ?f a"
    from True have "sound a ?b" by (intro sound_upd_pair) auto
    moreover have "sound ?b (upd_pair p ?h ?b)" by (rule sound_upd_pair) auto
    moreover have "sound ?b (upd_pair p ?g ?b)" using True by (intro sound_upd_pair) (auto simp: pair_upd_pair)
    ultimately show ?thesis using True by (auto simp: ping_step_def Let_def intro: sound_trans)
  next
    case False
    then show ?thesis by (simp add: ping_step_def Let_def)
  qed
qed

lemma sound_ping_steps: "sound a (fst (fold ping_step ps (a, out)))"
proof (induction ps arbitrary: a out)
  case (Cons p ps)
  obtain b o2 where b: "ping_step p (a, out) = (b, o2)" by (cases "ping_step p (a, out)")
  then show ?case using sound_ping_step [of a p out] Cons [of b o2] by (auto intro: sound_trans)
qed simp

lemma sound_ping_all: "sound a (ping_all_candidates env a)"
proof -
  obtain b ps where b: "fold ping_step (ag_checklist a) (a, []) = (b, ps)" by (cases "fold ping_step (ag_checklist a) (a, [])")
  have "sound a b" using sound_ping_steps [of a "ag_checklist a" "[]"] b by simp
  moreover have "sound b (fold (\<lambda>(l, r). ping_candidate env l r) ps b)" by (rule sound_core) simp
  ultimately show ?thesis unfolding ping_all_candidates_def b by (auto intro: sound_trans)
qed

lemma sound_validate: "sound a (snd (validate_selected_pair env a))"
  by (auto simp: validate_selected_pair_def Let_def split: option.splits intro!: sound_update_state)

lemma sound_validated: "sound a (case validate_selected_pair env a of (v, b) \<Rightarrow> if v then check_keepalive env b else b)"
  using sound_validate [of a env] by (auto split: prod.splits intro: sound_then_core)

lemma best_in_checklist:
  "fold (\<lambda>p best. if P p then best else better a p best) ps b0 = Some p \<Longrightarrow> b0 = Some p \<or> p \<in> set ps \<and> \<not> P p"
proof (induction ps arbitrary: b0)
  case (Cons q ps)
  have "better a q b0 = b0 \<or> better a q b0 = Some q" by (simp add: better_def split: option.splits)
  with Cons.IH [of b0] Cons.IH [of "better a q b0"] Cons.prems show ?case by (cases "P q") auto
qed simp

lemma sound_nominated:
  assumes "p < length (ag_pairs a)"
  shows "sound a (a\<lparr>ag_nominated := Some p\<rparr>)"
  using assms by (auto simp: sound_def agent_inv_def refs_ok_def selected_ok_def succeeded_def pair_def)

lemma sound_contact_controlling: "agent_inv a \<Longrightarrow> sound a (contact_controlling env a)"
proof -
  assume inv: "agent_inv a"
  have "sound a (nominate_pair env ((upd_pair p (\<lambda>x. x\<lparr>cp_nominated := True\<rparr>) a)\<lparr>ag_nominated := Some p\<rparr>))"
    if "get_best_valid_candidate_pair a = Some p" for p
  proof -
    let ?b = "upd_pair p (\<lambda>x. x\<lparr>cp_nominated := True\<rparr>) a"
    have "p \<in> set (ag_checklist a)" using best_in_checklist [OF that [unfolded get_best_valid_candidate_pair_def]] by simp
    with inv have "p < length (ag_pairs ?b)" by (simp add: agent_inv_def refs_ok_def)
    then have "sound ?b (?b\<lparr>ag_nominated := Some p\<rparr>)" by (rule sound_nominated)
    moreover have "sound a ?b" by (rule sound_upd_pair) simp_all
    ultimately show ?thesis by (meson sound_then_core sound_trans core_send(6))
  qed
  then show ?thesis using sound_validated sound_ping_all sound_core [OF core_send(6)]
    by (auto simp: contact_controlling_def split: option.split)
qed

lemma sound_contact: "agent_inv a \<Longrightarrow> sound a (snd (contact env t a))"
proof -
  assume inv: "agent_inv a"
  have "sound a (contact_candidates env a)"
    using sound_contact_controlling [OF inv] sound_validated sound_validate sound_ping_all
    by (simp add: contact_candidates_def contact_controlled_def)
  moreover have "sound a (update_connection_state CS_Failed a)" by (rule sound_update_state) simp
  ultimately show ?thesis by (simp add: contact_def Let_def split: prod.splits)
qed

lemma of_type_in: "c \<in> set (of_type m nt) \<Longrightarrow> \<exists>cs. (nt, cs) \<in> set m \<and> c \<in> set cs"
  using hm_get_in [of m nt] by (cases "hm_get m nt") (auto simp: of_type_def)

lemma refs_of_type:
  assumes "refs_ok a"
  shows "c \<in> set (of_type (ag_local a) nt) \<Longrightarrow> c < length (ag_cands a)" "c \<in> set (of_type (ag_remote a) nt) \<Longrightarrow> c < length (ag_cands a)"
  using assms of_type_in [of c "ag_local a" nt] of_type_in [of c "ag_remote a" nt] unfolding refs_ok_def by blast+

lemma sound_add_pairs:
  assumes "\<forall>x \<in> set ps. fst x < length (ag_cands a) \<and> snd x < length (ag_cands a)"
  shows "sound a (fold (\<lambda>(l, r). add_pair l r) ps a)"
  using assms
proof (induction ps arbitrary: a)
  case (Cons x ps)
  obtain l r where x: "x = (l, r)" by (cases x)
  have "ag_cands (add_pair l r a) = ag_cands a" by (simp add: add_pair_def)
  with Cons x have "sound (add_pair l r a) (fold (\<lambda>(l, r). add_pair l r) ps (add_pair l r a))" by simp
  moreover have "sound a (add_pair l r a)" using Cons.prems x by (intro sound_add_pair) auto
  ultimately show ?case using x by (auto intro: sound_trans)
qed simp

lemma fold_add_pair:
  "fold (\<lambda>l. add_pair l c) ls a = fold (\<lambda>(l, r). add_pair l r) (map (\<lambda>l. (l, c)) ls) a"
  "fold (add_pair c) rs a = fold (\<lambda>(l, r). add_pair l r) (map (\<lambda>r. (c, r)) rs) a"
  by (simp_all add: fold_map comp_def)

lemma sound_alloc: "sound a (a\<lparr>ag_cands := ag_cands a @ [c]\<rparr>)"
proof -
  have "refs_ok a \<Longrightarrow> refs_ok (a\<lparr>ag_cands := ag_cands a @ [c]\<rparr>)" by (fastforce simp: refs_ok_def)
  then show ?thesis by (simp add: sound_def agent_inv_def selected_ok_def succeeded_def pair_def)
qed

lemma refs_insert:
  assumes "\<forall>(k, cs) \<in> set m. \<forall>c \<in> set cs. c < n" and "c < n"
  shows "\<forall>(k, cs) \<in> set (hm_insert nt (of_type m nt @ [c]) m). \<forall>c \<in> set cs. c < n"
proof -
  have "\<forall>x \<in> set (of_type m nt @ [c]). x < n" using assms of_type_in [of _ m nt] by fastforce
  then show ?thesis using assms(1) hm_in_insert [of _ _ nt _ m] by fastforce
qed

lemma sound_join:
  assumes "c < length (ag_cands a)"
  shows "sound a (a\<lparr>ag_remote := hm_insert nt (of_type (ag_remote a) nt @ [c]) (ag_remote a)\<rparr>)" (is "sound a ?r")
    and "sound a (a\<lparr>ag_local := hm_insert nt (of_type (ag_local a) nt @ [c]) (ag_local a)\<rparr>)" (is "sound a ?l")
proof -
  note r = refs_insert [OF _ assms, of "ag_remote a" nt] and l = refs_insert [OF _ assms, of "ag_local a" nt]
  have f: "ag_checklist ?r = ag_checklist a" "ag_pairs ?r = ag_pairs a" "ag_selected ?r = ag_selected a" "ag_nominated ?r = ag_nominated a"
    "ag_cands ?r = ag_cands a" "ag_local ?r = ag_local a" "ag_remote ?r = hm_insert nt (of_type (ag_remote a) nt @ [c]) (ag_remote a)"
    "ag_checklist ?l = ag_checklist a" "ag_pairs ?l = ag_pairs a" "ag_selected ?l = ag_selected a" "ag_nominated ?l = ag_nominated a"
    "ag_cands ?l = ag_cands a" "ag_remote ?l = ag_remote a" "ag_local ?l = hm_insert nt (of_type (ag_local a) nt @ [c]) (ag_local a)" by simp_all
  have refs: "refs_ok a \<Longrightarrow> refs_ok ?r" "refs_ok a \<Longrightarrow> refs_ok ?l" unfolding refs_ok_def f using r l by blast+
  then show "sound a ?r" "sound a ?l" by (simp_all add: sound_def agent_inv_def selected_ok_def succeeded_def pair_def)
qed

lemma sound_request_check: "sound a (request_connectivity_check a)"
  by (rule sound_other) (simp add: request_connectivity_check_def other_fields_def)

lemma sound_add_remote:
  assumes inv: "agent_inv a" and c: "c < length (ag_cands a)"
  shows "sound a (add_remote_candidate c a)"
proof -
  let ?nt = "cb_network_type (cand a c)"
  let ?a1 = "a\<lparr>ag_remote := hm_insert ?nt (of_type (ag_remote a) ?nt @ [c]) (ag_remote a)\<rparr>"
  have ls: "\<forall>l \<in> set (of_type (ag_local a) ?nt). l < length (ag_cands a)" using refs_of_type(1) inv by (auto simp: agent_inv_def)
  have "sound ?a1 (fold (\<lambda>l. add_pair l c) (of_type (ag_local ?a1) ?nt) ?a1)"
    unfolding fold_add_pair using ls c by (intro sound_add_pairs) auto
  from sound_trans [OF sound_trans [OF sound_join(1) [OF c] this] sound_request_check] show ?thesis
    unfolding add_remote_candidate_def Let_def by simp
qed

lemma sound_add_candidate:
  assumes inv: "agent_inv a" and c: "c < length (ag_cands a)"
  shows "sound a (add_candidate c a)"
proof -
  define b where "b = start_candidate c a"
  have b: "core b = core a" by (simp add: b_def start_candidate_def)
  have inv': "agent_inv b" and len: "c < length (ag_cands b)" using inv c core_inv [OF b] core_fields(16) [OF b] by simp_all
  let ?nt = "cb_network_type (cand b c)"
  let ?b1 = "b\<lparr>ag_local := hm_insert ?nt (of_type (ag_local b) ?nt @ [c]) (ag_local b)\<rparr>"
  have ls: "\<forall>r \<in> set (of_type (ag_remote b) ?nt). r < length (ag_cands b)" using refs_of_type(2) inv' by (auto simp: agent_inv_def)
  have "sound ?b1 (fold (add_pair c) (of_type (ag_remote ?b1) ?nt) ?b1)" unfolding fold_add_pair using ls len by (intro sound_add_pairs) auto
  from sound_trans [OF sound_trans [OF sound_trans [OF sound_join(2) [OF len] this] sound_request_check] sound_event]
  have "sound b (event (CandidateFound c) (request_connectivity_check (fold (add_pair c) (of_type (ag_remote ?b1) ?nt) ?b1)))" .
  moreover have "sound b (close_cand c b)" by (rule sound_core) (simp add: close_cand_def)
  ultimately have "sound b (add_candidate c a)" unfolding add_candidate_def Let_def b_def [symmetric] by simp
  with sound_core [OF b] show ?thesis by (rule sound_trans)
qed

lemma found_pair: "agent_inv a \<Longrightarrow> find_pair l r a = Some p \<Longrightarrow> p < length (ag_pairs a)"
  unfolding find_pair_def agent_inv_def refs_ok_def by (auto simp: find_Some_iff)

lemma found_remote: "agent_inv a \<Longrightarrow> find_remote_candidate nt addr a = Some r \<Longrightarrow> r < length (ag_cands a)"
proof -
  assume "agent_inv a" and "find_remote_candidate nt addr a = Some r"
  then have "refs_ok a" "r \<in> set (of_type (ag_remote a) nt)" by (auto simp: agent_inv_def find_remote_candidate_def find_Some_iff)
  then show ?thesis by (rule refs_of_type(2))
qed

lemma sound_request_controlling:
  assumes inv: "agent_inv a" and "l < length (ag_cands a)" and "r < length (ag_cands a)"
  shows "sound a (binding_request_controlling env m l r a)"
proof -
  define b where "b = send_binding_success env m l r a"
  have b: "core b = core a" by (simp add: b_def)
  have inv': "agent_inv b" using core_inv [OF b] inv by simp
  have "sound b (add_pair l r b)" using assms(2,3) core_fields(16) [OF b] by (intro sound_add_pair) simp_all
  moreover have "sound b (nominate_pair env (b\<lparr>ag_nominated := Some p\<rparr>))" if "find_pair l r b = Some p" for p
    using sound_nominated [OF found_pair [OF inv' that]] by (rule sound_then_core) simp
  ultimately have "sound b (binding_request_controlling env m l r a)"
    unfolding binding_request_controlling_def Let_def b_def [symmetric] by (simp split: option.split)
  with sound_core [OF b] show ?thesis by (rule sound_trans)
qed

lemma sound_request_controlled:
  assumes inv: "agent_inv a" and "l < length (ag_cands a)" and "r < length (ag_cands a)"
  shows "sound a (binding_request_controlled env m l r a)"
proof -
  define b where "b = (if find_pair l r a = None then add_pair l r a else a)"
  have b: "sound a b" using sound_add_pair [OF assms(2,3)] by (simp add: b_def)
  with inv have inv': "agent_inv b" by (simp add: sound_def)
  have "sound b (send_binding_success env m l r (if ag_selected b = None then set_selected_pair (Some p) b else b))"
    if "find_pair l r b = Some p" "cp_state (pair b p) = PS_Succeeded" for p
    using sound_then_core [OF sound_select [OF found_pair [OF inv' that(1)] that(2)] core_send(4)] sound_core [OF core_send(4)] by simp
  moreover have "sound b (ping_candidate env l r b)" "sound b (ping_candidate env l r (send_binding_success env m l r b))"
    by (rule sound_core, simp)+
  ultimately have "sound b (binding_request_controlled env m l r a)"
    unfolding binding_request_controlled_def Let_def b_def [symmetric] by (simp split: option.split)
  with b show ?thesis by (rule sound_trans)
qed

section \<open>Success responses\<close>

text \<open>A pair that succeeds: the invariant is kept and this pair is the only one that changes its state.\<close>

definition sound_success :: "pref \<Rightarrow> ice_agent \<Rightarrow> ice_agent \<Rightarrow> bool" where
  "sound_success p a a' \<longleftrightarrow> (agent_inv a \<longrightarrow> agent_inv a') \<and> succeeded a' = insert p (succeeded a)"

lemma mark_succeeded_ok:
  assumes "p < length (ag_pairs a)"
  shows "sound_success p a (mark_succeeded p a)"
proof -
  let ?f = "\<lambda>x :: candidate_pair. x\<lparr>cp_state := PS_Succeeded\<rparr>"
  have "\<forall>x \<in> set (ag_pairs (mark_succeeded p a)). cp_local x < length (ag_cands a) \<and> cp_remote x < length (ag_cands a)" if "refs_ok a"
  proof
    fix x assume "x \<in> set (ag_pairs (mark_succeeded p a))"
    from set_pairs_upd [OF this [unfolded mark_succeeded_def]] have "\<exists>y \<in> set (ag_pairs a). cp_local x = cp_local y \<and> cp_remote x = cp_remote y"
      by (auto simp: pair_def)
    with that show "cp_local x < length (ag_cands a) \<and> cp_remote x < length (ag_cands a)" by (auto simp: refs_ok_def)
  qed
  then have "refs_ok a \<Longrightarrow> refs_ok (mark_succeeded p a)" unfolding refs_ok_def mark_succeeded_def upd_pair_fields by blast
  moreover have "selected_ok a \<Longrightarrow> selected_ok (mark_succeeded p a)" by (simp add: selected_ok_def mark_succeeded_def pair_upd_pair)
  moreover have "succeeded (mark_succeeded p a) = insert p (succeeded a)" using assms by (auto simp: succeeded_def mark_succeeded_def pair_upd_pair)
  ultimately show ?thesis by (simp add: sound_success_def agent_inv_def)
qed

lemma remove_request_some: "remove_request txid bs = (Some b, rest) \<Longrightarrow> b \<in> set bs \<and> br_id b = txid"
  by (induction bs arbitrary: rest) (auto split: if_splits prod.splits)

text \<open>The request that an accepted response answers, and the pair it belongs to.\<close>

definition answered :: "ice_env \<Rightarrow> ice_agent \<Rightarrow> stun_message \<Rightarrow> socket_addr \<Rightarrow> binding_request \<Rightarrow> bool" where
  "answered env a m src b \<longleftrightarrow> b \<in> set (ag_pending a) \<and> br_id b = sm_transaction_id m \<and> br_destination b = src \<and>
     (ev_now env < br_timestamp b \<or> ev_now env - br_timestamp b < MAX_BINDING_REQUEST_TIMEOUT)"

lemma binding_success_some:
  "handle_inbound_binding_success env txid a = (Some b, a1) \<Longrightarrow> b \<in> set (ag_pending a) \<and> br_id b = txid \<and>
     (ev_now env < br_timestamp b \<or> ev_now env - br_timestamp b < MAX_BINDING_REQUEST_TIMEOUT)"
  by (auto simp: handle_inbound_binding_success_def invalidate_pending_binding_requests_def Let_def split: prod.splits dest: remove_request_some)

lemma success_response_cases:
  assumes inv: "agent_inv a"
  shows "sound a (handle_success_response env m l r src a) \<or>
    (\<exists>b p. answered env a m src b \<and> find_pair l r (snd (handle_inbound_binding_success env (sm_transaction_id m) a)) = Some p \<and>
       sound_success p a (handle_success_response env m l r src a))"
proof -
  obtain ob a1 where ob: "handle_inbound_binding_success env (sm_transaction_id m) a = (ob, a1)" by fastforce
  then have c: "core a1 = core a" using core_binding_success [of env "sm_transaction_id m" a] by simp
  then have inv1: "agent_inv a1" and s1: "succeeded a1 = succeeded a" using core_inv [OF c] inv by simp_all
  show ?thesis
  proof (cases "\<exists>b p. ob = Some b \<and> br_destination b = src \<and> find_pair l r a1 = Some p")
    case True
    then obtain b p where b: "ob = Some b" "br_destination b = src" "find_pair l r a1 = Some p" by blast
    have ans: "answered env a m src b" using binding_success_some [of env "sm_transaction_id m" a b a1] ob b by (simp add: answered_def)
    have p: "p < length (ag_pairs a1)" by (rule found_pair [OF inv1 b(3)])
    from mark_succeeded_ok [OF p] have ms: "sound_success p a1 (mark_succeeded p a1)" .
    have "sound (mark_succeeded p a1) (set_selected_pair (Some p) (mark_succeeded p a1))"
      using p by (intro sound_select) (simp_all add: mark_succeeded_def pair_upd_pair)
    with ms have "sound_success p a1 (set_selected_pair (Some p) (mark_succeeded p a1))" by (simp add: sound_success_def sound_def)
    with ms have "sound_success p a1 (handle_success_response env m l r src a)"
      unfolding handle_success_response_def ob b(1) using b(2,3) by simp
    with inv1 s1 have "sound_success p a (handle_success_response env m l r src a)" by (simp add: sound_success_def)
    with ans b(3) ob show ?thesis by auto
  next
    case False
    then have "handle_success_response env m l r src a = a1"
      unfolding handle_success_response_def ob by (auto split: option.splits)
    with sound_core [OF c] show ?thesis by simp
  qed
qed

end
