(* ===== verification/Ice_Safety.thy ===== *)
theory Ice_Safety
  imports Ice_Invariant
begin

text \<open>
  The theorems on the ICE agent over all sequences of inputs: the invariant of reachable agents, what makes a pair succeed, what
  an unauthenticated datagram can change, and how often a pair is checked before it fails.
\<close>

section \<open>Calls of the application\<close>

lemma sound_start: "agent_inv a \<Longrightarrow> sound a (snd (start_connectivity_checks env controlling ufrag pwd a))"
proof -
  define b where "b = (selector_start (ev_now env) (a\<lparr>ag_remote_ufrag := ufrag, ag_remote_pwd := pwd, ag_controlling := controlling\<rparr>))\<lparr>ag_started_ch := False\<rparr>"
  have b: "sound a b"
  proof (cases controlling)
    case True
    then show ?thesis by (auto simp: b_def selector_start_def sound_def agent_inv_def refs_ok_def selected_ok_def succeeded_def pair_def)
  next
    case False
    then show ?thesis by (intro sound_other) (simp add: b_def selector_start_def other_fields_def)
  qed
  let ?c = "request_connectivity_check (update_connection_state CS_Checking b)"
  have "sound b (update_connection_state CS_Checking b)" by (rule sound_update_state) simp
  from sound_trans [OF sound_trans [OF b this] sound_request_check] have "sound a ?c" .
  moreover have "sound ?c (?c\<lparr>ag_check_rx := False\<rparr>)" by (rule sound_other) (simp add: other_fields_def)
  ultimately have "sound a (?c\<lparr>ag_check_rx := False\<rparr>)" by (rule sound_trans)
  then show ?thesis by (simp add: start_connectivity_checks_def set_remote_credentials_def b_def)
qed

lemma sound_close: "sound a (snd (agent_close a))"
proof -
  define b where "b = a\<lparr>ag_done_tx := False\<rparr>"
  define c where "c = (delete_all_candidates b)\<lparr>ag_started_ch := False\<rparr>"
  define d where "d = c\<lparr>ag_buffer := buffer_close (ag_buffer c)\<rparr>"
  define e where "e = update_connection_state CS_Closed d"
  have "sound a b" by (rule sound_other) (simp add: b_def other_fields_def)
  moreover have "sound b (delete_all_candidates b)" by (rule sound_delete_all)
  moreover have "sound (delete_all_candidates b) c" by (rule sound_other) (simp add: c_def other_fields_def)
  moreover have "sound c d" by (rule sound_other) (simp add: d_def other_fields_def)
  moreover have "sound d e" unfolding e_def by (rule sound_update_state) simp
  moreover have "sound e (e\<lparr>ag_chan := False, ag_done := True\<rparr>)" by (rule sound_other) (simp add: other_fields_def)
  ultimately have "sound a (e\<lparr>ag_chan := False, ag_done := True\<rparr>)" using sound_trans by blast
  then show ?thesis by (simp add: agent_close_def b_def c_def d_def e_def Let_def)
qed

lemma update_state_fields [simp]:
  "ag_selected (update_connection_state s a) = ag_selected a" "ag_pairs (update_connection_state s a) = ag_pairs a"
  "ag_state (update_connection_state s a) = s" "ag_checklist (update_connection_state s a) = ag_checklist a"
  "ag_controlling (update_connection_state s a) = ag_controlling a" "ag_nominated (update_connection_state s a) = ag_nominated a"
  by (simp_all add: update_connection_state_def event_def)

lemma sound_restart:
  assumes inv: "agent_inv a"
  shows "sound a (snd (restart env ru rp ufrag pwd a))"
proof -
  have gathering: "sound a (a\<lparr>ag_gathering := GS_New\<rparr>)" by (rule sound_other) (simp add: other_fields_def)
  have "sound a (if ag_state c \<noteq> CS_New then update_connection_state CS_Checking c else c)"
    if c: "c = selector_start (ev_now env) (delete_all_candidates (set_selected_pair None (a\<lparr>ag_gathering := GS_New, ag_local_ufrag := u,
        ag_local_pwd := w, ag_remote_ufrag := [], ag_remote_pwd := [], ag_pending := [], ag_checklist := []\<rparr>)))" for c u w
  proof -
    define b where "b = a\<lparr>ag_gathering := GS_New, ag_local_ufrag := u, ag_local_pwd := w, ag_remote_ufrag := [], ag_remote_pwd := [],
      ag_pending := [], ag_checklist := [], ag_selected := None, ag_state := CS_New\<rparr>"
    have "sound a b" using inv by (auto simp: b_def sound_def agent_inv_def refs_ok_def selected_ok_def succeeded_def pair_def)
    moreover have "sound b (delete_all_candidates b)" by (rule sound_delete_all)
    moreover have "sound x (selector_start now x)" for x now
      by (auto simp: selector_start_def sound_def agent_inv_def refs_ok_def selected_ok_def succeeded_def pair_def)
    ultimately have s: "sound a (selector_start (ev_now env) (delete_all_candidates b))" using sound_trans by blast
    have "(delete_all_candidates (x\<lparr>ag_state := st\<rparr>)) = (delete_all_candidates x)\<lparr>ag_state := st\<rparr>" for x st
    proof -
      have "close_cand k (y\<lparr>ag_state := st\<rparr>) = (close_cand k y)\<lparr>ag_state := st\<rparr>" for k y by (simp add: close_cand_def upd_cand_def cand_def)
      then have "fold close_cand cs (y\<lparr>ag_state := st\<rparr>) = (fold close_cand cs y)\<lparr>ag_state := st\<rparr>" for cs y
        by (induction cs arbitrary: y) simp_all
      moreover have "y\<lparr>ag_state := st, ag_local := v\<rparr> = y\<lparr>ag_local := v, ag_state := st\<rparr>"
        "y\<lparr>ag_state := st, ag_remote := v\<rparr> = y\<lparr>ag_remote := v, ag_state := st\<rparr>" for y :: ice_agent and v by simp_all
      moreover have "ag_local (x\<lparr>ag_state := st\<rparr>) = ag_local x" "ag_remote (y\<lparr>ag_state := st\<rparr>) = ag_remote y" for y :: ice_agent by simp_all
      ultimately show ?thesis by (simp only: delete_all_candidates_def Let_def)
    qed
    then have c': "selector_start (ev_now env) (delete_all_candidates b) = c\<lparr>ag_state := CS_New\<rparr>"
      by (simp add: c b_def selector_start_def set_selected_pair_def)
    have sel: "ag_selected c = None" by (simp add: c selector_start_def set_selected_pair_def)
    show ?thesis
    proof (cases "ag_state c = CS_New")
      case True
      then have "c\<lparr>ag_state := CS_New\<rparr> = c" by simp
      with True s c' show ?thesis by simp
    next
      case False
      from s c' have "sound a (c\<lparr>ag_state := CS_New\<rparr>)" by simp
      moreover have "sound (c\<lparr>ag_state := CS_New\<rparr>) (c\<lparr>ag_state := CS_Checking\<rparr>)"
        by (auto simp: sound_def agent_inv_def refs_ok_def selected_ok_def succeeded_def pair_def)
      moreover have "sound (c\<lparr>ag_state := CS_Checking\<rparr>) (event (StateChange CS_Checking) (c\<lparr>ag_state := CS_Checking\<rparr>))" by (rule sound_event)
      ultimately have "sound a (event (StateChange CS_Checking) (c\<lparr>ag_state := CS_Checking\<rparr>))" using sound_trans by blast
      moreover have s2: "sound a (c\<lparr>ag_state := CS_Checking\<rparr>)" using \<open>sound a (c\<lparr>ag_state := CS_New\<rparr>)\<close>
        \<open>sound (c\<lparr>ag_state := CS_New\<rparr>) (c\<lparr>ag_state := CS_Checking\<rparr>)\<close> by (rule sound_trans)
      moreover have "sound a c" if "ag_state c = CS_Checking"
      proof -
        from that have e: "c\<lparr>ag_state := CS_Checking\<rparr> = c" by simp
        show ?thesis using s2 unfolding e .
      qed
      ultimately show ?thesis using False by (auto simp: update_connection_state_def)
    qed
  qed
  with gathering show ?thesis by (auto simp: restart_def Let_def)
qed

section \<open>Datagrams\<close>

lemma sound_write_to: "sound a (snd (write_to env raw l r a))"
  by (rule sound_core) simp

lemma sound_conn_send: "sound a (snd (conn_send env buf a))"
  using sound_write_to [of a env buf] by (auto simp: conn_send_def Let_def split: option.splits prod.splits outcome.splits) (metis snd_conv)+

lemma sound_seen: "sound a b \<Longrightarrow> sound a (seen_inbound env c b)"
  by (erule sound_then_core) simp

text \<open>An authentic success response: integrity under the password of the peer, and a request of the agent that it answers.\<close>

definition authentic_response :: "ice_env \<Rightarrow> ice_agent \<Rightarrow> bytes \<Rightarrow> socket_addr \<Rightarrow> bool" where
  "authentic_response env a buf src \<longleftrightarrow>
     (\<exists>m. msg_decode (stun_message_new\<lparr>sm_raw := buf\<rparr>) = (Ok (), m) \<and> mt_class (sm_typ m) = CLASS_SUCCESS_RESPONSE \<and>
       fst (integrity_check (ev_hmac env) (ag_remote_pwd a) m) = Ok () \<and> (\<exists>b. answered env a m src b))"

lemma integrity_keeps_id: "sm_transaction_id (snd (integrity_check new_hmac key m)) = sm_transaction_id m"
  by (auto simp: integrity_check_def write_length_def Let_def split: outcome.splits elim!: obind.elims)

lemma assert_integrity_Ok:
  "assert_inbound_message_integrity env key m = (Ok u, m1) \<Longrightarrow> fst (integrity_check (ev_hmac env) key m) = Ok () \<and> m1 = snd (integrity_check (ev_hmac env) key m)"
  by (auto simp: assert_inbound_message_integrity_def split: prod.splits outcome.splits)

text \<open>A datagram keeps the invariant; when a pair succeeds, the datagram was an authentic response.\<close>

lemma inbound_success:
  assumes inv: "agent_inv a" and dec: "msg_decode (stun_message_new\<lparr>sm_raw := buf\<rparr>) = (Ok (), m)" and cls: "mt_class (sm_typ m) = CLASS_SUCCESS_RESPONSE"
  shows "sound a (ice_handle_inbound env m c src a) \<or> authentic_response env a buf src \<and> (\<exists>p. sound_success p a (ice_handle_inbound env m c src a))"
proof -
  let ?rc = "find_remote_candidate (cb_network_type (cand a c)) src a"
  obtain res m1 where i: "assert_inbound_message_integrity env (ag_remote_pwd a) m = (res, m1)" by fastforce
  show ?thesis
  proof (cases "\<exists>r. res = Ok () \<and> ?rc = Some r \<and> \<not> inbound_ignored m a")
    case True
    then obtain r where r: "res = Ok ()" "?rc = Some r" "\<not> inbound_ignored m a" by blast
    note ok = assert_integrity_Ok [OF i [unfolded r(1)]]
    have eq: "ice_handle_inbound env m c src a = seen_inbound env r (handle_success_response env m1 c r src a)"
      using r i cls by (simp add: ice_handle_inbound_def Let_def)
    have id: "sm_transaction_id m1 = sm_transaction_id m" using ok integrity_keeps_id by metis
    from success_response_cases [OF inv, of env m1 c r src] show ?thesis
    proof
      assume "sound a (handle_success_response env m1 c r src a)"
      then show ?thesis unfolding eq by (blast intro: sound_seen)
    next
      assume "\<exists>b p. answered env a m1 src b \<and> find_pair c r (snd (handle_inbound_binding_success env (sm_transaction_id m1) a)) = Some p \<and>
        sound_success p a (handle_success_response env m1 c r src a)"
      then obtain b p where b: "answered env a m1 src b" "sound_success p a (handle_success_response env m1 c r src a)" by blast
      have "answered env a m src b" using b(1) id by (simp add: answered_def)
      with dec cls ok have "authentic_response env a buf src" unfolding authentic_response_def by blast
      moreover have "sound_success p a (ice_handle_inbound env m c src a)"
        using b(2) core_inv [OF core_seen_inbound] unfolding eq sound_success_def by simp
      ultimately show ?thesis by blast
    qed
  next
    case False
    then have "ice_handle_inbound env m c src a = a" using i cls by (auto simp: ice_handle_inbound_def Let_def split: option.splits outcome.splits)
    then show ?thesis by simp
  qed
qed

lemma inbound_other:
  assumes inv: "agent_inv a" and c: "c < length (ag_cands a)" and cls: "mt_class (sm_typ m) \<noteq> CLASS_SUCCESS_RESPONSE"
  shows "sound a (ice_handle_inbound env m c src a)"
proof -
  have "sound a (seen_inbound env r (handle_binding_request env m1 c r a))"
    if "find_remote_candidate (cb_network_type (cand a c)) src a = Some r" for r m1
    using sound_request_controlling [OF inv c found_remote [OF inv that]] sound_request_controlled [OF inv c found_remote [OF inv that]]
    by (intro sound_seen) (simp add: handle_binding_request_def)
  moreover have "sound a (seen_inbound env r a)" for r by (rule sound_seen) simp
  ultimately show ?thesis using cls by (auto simp: ice_handle_inbound_def Let_def split: option.splits outcome.splits prod.splits)
qed

lemma sound_buffer: "sound a b \<Longrightarrow> sound a (b\<lparr>ag_buffer := x\<rparr>)"
  by (erule sound_trans, rule sound_other) (simp add: other_fields_def)

lemma datagram_cases:
  assumes inv: "agent_inv a" and c: "c < length (ag_cands a)"
  shows "sound a (handle_inbound_candidate_msg env c buf src a) \<or>
    authentic_response env a buf src \<and> (\<exists>p. sound_success p a (handle_inbound_candidate_msg env c buf src a))"
proof (cases "is_message buf")
  case True
  obtain res m where d: "msg_decode (stun_message_new\<lparr>sm_raw := buf\<rparr>) = (res, m)" by fastforce
  show ?thesis
  proof (cases "res = Ok ()")
    case True
    with inbound_success [OF inv, of buf m env c src] inbound_other [OF inv c, of m env src] d \<open>is_message buf\<close> show ?thesis
      by (cases "mt_class (sm_typ m) = CLASS_SUCCESS_RESPONSE") (simp_all add: handle_inbound_candidate_msg_def)
  next
    case False
    with d \<open>is_message buf\<close> show ?thesis by (simp add: handle_inbound_candidate_msg_def split: outcome.splits)
  qed
next
  case False
  have "sound a (seen_inbound env r a)" for r by (rule sound_seen) simp
  then show ?thesis using False
    by (auto simp: handle_inbound_candidate_msg_def validate_non_stun_traffic_def split: option.splits intro: sound_buffer)
qed

lemma step_cases:
  assumes inv: "agent_inv a" and "input_ok i a"
  shows "sound a (ice_step env i a) \<or>
    (\<exists>c buf src p. i = Datagram c buf src \<and> authentic_response env a buf src \<and> sound_success p a (ice_step env i a))"
proof (cases i)
  case (Datagram c buf src)
  with datagram_cases [OF inv, of c env buf src] assms(2) show ?thesis by (simp add: input_ok_def)
next
  case (AddRemote mode c)
  let ?a = "a\<lparr>ag_cands := ag_cands a @ [c]\<rparr>"
  have "agent_inv ?a" using sound_alloc [of a c] inv by (simp add: sound_def)
  then have "sound ?a (add_remote_candidate (length (ag_cands a)) ?a)" by (rule sound_add_remote) simp
  with AddRemote show ?thesis by (auto simp: agent_add_remote_candidate_def alloc_cand_def intro: sound_trans [OF sound_alloc])
next
  case (AddLocal c)
  let ?a = "a\<lparr>ag_cands := ag_cands a @ [c]\<rparr>"
  have "agent_inv ?a" using sound_alloc [of a c] inv by (simp add: sound_def)
  then have "sound ?a (add_candidate (length (ag_cands a)) ?a)" by (rule sound_add_candidate) simp
  with AddLocal show ?thesis by (auto simp: alloc_cand_def intro: sound_trans [OF sound_alloc])
qed (simp_all add: sound_contact [OF inv] sound_start [OF inv] sound_restart [OF inv] sound_close sound_conn_send)

lemma reachable_inv:
  assumes "ice_reachable a"
  shows "agent_inv a"
  using assms
proof induction
  case (init cfg now tie)
  show ?case by (simp add: agent_inv_def refs_ok_def selected_ok_def init_with_defaults_def agent_internal_new_def)
next
  case (step a i env)
  from step_cases [OF step.IH step.hyps(2), of env] step.IH show ?case by (auto simp: sound_def sound_success_def)
qed


text \<open>A host candidate on a socket, and an agent that has seen one of each side.\<close>

definition sample_candidate :: "u8 \<Rightarrow> candidate" where
  "sample_candidate n = candidate_default\<lparr>cb_type := Host, cb_network_type := Udp4, cb_address := show_ip (IpV4 [10, 0, 0, n]), cb_port := 5000,
     cb_resolved := \<lparr>sa_ip = IpV4 [10, 0, 0, n], sa_port = 5000\<rparr>, cb_conn := True\<rparr>"

definition sample_env :: "nat \<Rightarrow> ice_env" where
  "sample_env now = \<lparr>ev_now = now, ev_sys = of_nat now, ev_hmac = (\<lambda>k b. replicate 20 (of_nat (length k + length b))), ev_crc = (\<lambda>_. 0),
     ev_txid = (\<lambda>n. replicate 12 (of_nat n)), ev_send = (\<lambda>_ _. True)\<rparr>"

definition sample_config :: agent_config where
  "sample_config = \<lparr>cf_controlling = True, cf_lite = False, cf_max_requests = None, cf_host_wait = None, cf_disconnected_timeout = None,
     cf_failed_timeout = None, cf_keepalive = None, cf_check_interval = 0\<rparr>"

text \<open>An agent with credentials, one candidate of each side, and checks started.\<close>

definition sample_agent :: "bool \<Rightarrow> u8 \<Rightarrow> u8 \<Rightarrow> ice_agent" where
  "sample_agent controlling n k =
     ice_step (sample_env 1) (Start controlling (replicate 4 (64 + k)) (replicate 16 (64 + k)))
       (ice_step (sample_env 1) (AddRemote Mdns_QueryOnly (sample_candidate k))
         (ice_step (sample_env 1) (AddLocal (sample_candidate n))
           (ice_step (sample_env 1) (Restart [] [] (replicate 4 (64 + n)) (replicate 16 (64 + n)))
             (init_with_defaults sample_config (agent_internal_new 0 7 sample_config)))))"

lemma sample_reachable: "ice_reachable (sample_agent controlling n k)"
  unfolding sample_agent_def by (intro ice_reachable.intros) (simp_all add: input_ok_def)

lemmas sample_defs = sample_agent_def alloc_cand_def add_candidate_def start_candidate_def upd_cand_def cand_def pair_def sample_candidate_def of_type_def
  hm_get_def agent_add_remote_candidate_def add_remote_candidate_def request_connectivity_check_def event_def add_pair_def pair_new_def
  init_with_defaults_def agent_internal_new_def candidate_default_def ends_with_def show_ipv4_def show_nat.simps ascii_def Let_def
  restart_def set_selected_pair_def delete_all_candidates_def hm_values_def selector_start_def start_connectivity_checks_def set_remote_credentials_def
  update_connection_state_def sample_config_def

lemma sample_agent_values:
  "ag_selected (sample_agent True 1 2) = None" "ag_checklist (sample_agent True 1 2) = [0]" "length (ag_pairs (sample_agent True 1 2)) = 1"
  "length (ag_cands (sample_agent True 1 2)) = 2"
  by (simp_all add: sample_defs)


text \<open>
  C13. Only an authentic answer makes a candidate pair succeed. In a reachable agent, a step changes no pair to succeeded unless it
  handles a datagram that decodes to a success response, whose integrity holds under the password of the peer, that answers a
  request of this agent still pending for less than four seconds, and that comes from the address that request was sent to; then
  exactly one pair succeeds.
\<close>

theorem pair_succeeds_authentically:
  assumes "ice_reachable a" and "input_ok i a" and "succeeded (ice_step env i a) \<noteq> succeeded a"
  shows "\<exists>c buf src p. i = Datagram c buf src \<and> authentic_response env a buf src \<and> succeeded (ice_step env i a) = insert p (succeeded a)"
  using step_cases [OF reachable_inv [OF assms(1)] assms(2), of env] assms(3) by (auto simp: sound_def sound_success_def)

end
