(* ===== verification/Ice_Check.thy ===== *)
theory Ice_Check
  imports Ice_Safety
begin

text \<open>
  Connectivity checks between two agents: the request one agent sends is accepted by the other, and its answer makes the pair
  succeed at the first.
\<close>

section \<open>The messages of a check\<close>

text \<open>Attributes of a request, as type and value.\<close>

definition role_attrs :: "bool \<Rightarrow> bool \<Rightarrow> u64 \<Rightarrow> (u16 \<times> bytes) list" where
  "role_attrs controlling use tie =
     (if use then [(ATTR_USE_CANDIDATE, [])] else []) @ [(if controlling then ATTR_ICE_CONTROLLING else ATTR_ICE_CONTROLLED, put_u64 tie)]"

definition request_attrs :: "bool \<Rightarrow> bool \<Rightarrow> u64 \<Rightarrow> u32 \<Rightarrow> bytes \<Rightarrow> (u16 \<times> bytes) list" where
  "request_attrs controlling use tie prio username = (ATTR_USERNAME, username) # role_attrs controlling use tie @ [(ATTR_PRIORITY, put_u32 prio)]"

definition role_setters :: "bool \<Rightarrow> bool \<Rightarrow> u64 \<Rightarrow> setter list" where
  "role_setters controlling use tie =
     (if use then [use_candidate_add_to] else []) @ [if controlling then controlling_add_to tie else controlled_add_to tie]"

lemma stun_attr_consts: "ATTR_USERNAME = 6" "ATTR_MESSAGE_INTEGRITY = 8" "ATTR_FINGERPRINT = 0x8028" "ATTR_XORMAPPED_ADDRESS = 0x20"
  "ATTR_PRIORITY = 0x24" "ATTR_USE_CANDIDATE = 0x25" "ATTR_ICE_CONTROLLED = 0x8029" "ATTR_ICE_CONTROLLING = 0x802A"
  by (simp_all add: ATTR_USERNAME_def ATTR_MESSAGE_INTEGRITY_def ATTR_FINGERPRINT_def ATTR_XORMAPPED_ADDRESS_def ice_attrs)

lemma length_put_u64 [simp]: "length (put_u64 x) = 8"
  by (simp add: put_u64_def)

lemma npvl_small: "nearest_padded_value_length 0 = 0" "nearest_padded_value_length 4 = 4" "nearest_padded_value_length 8 = 8"
  by (simp_all add: nearest_padded_value_length_def stun_sizes)

lemma text_add_username: "length u \<le> 513 \<Longrightarrow> text_add_to ATTR_USERNAME u m = set_attribute ATTR_USERNAME u m"
  by (simp add: text_add_to_def text_max_len_def check_overflow_def)

lemma role_setters_eq: "role_setters controlling use tie = map (\<lambda>(a, v). set_attribute a v) (role_attrs controlling use tie)"
  by (simp add: role_attrs_def role_setters_def use_candidate_add_to_def controlling_add_to_def controlled_add_to_def tie_breaker_add_to_as_def)

lemma request_built:
  assumes "length txid = 12" and "length (ag_remote_ufrag a @ ascii '':'' @ ag_local_ufrag a) \<le> 513"
    and "\<And>k b. length (ev_hmac env k b) = MESSAGE_INTEGRITY_SIZE"
  shows "\<exists>m v w. msg_build (request_setters env txid (role_setters controlling use tie) prio a) stun_message_new = (Ok (), m) \<and>
    sm_typ m = BINDING_REQUEST \<and> sm_transaction_id m = txid \<and>
    sm_attributes m = map mk_attr (request_attrs controlling use tie prio (ag_remote_ufrag a @ ascii '':'' @ ag_local_ufrag a) @
      [(ATTR_MESSAGE_INTEGRITY, v), (ATTR_FINGERPRINT, w)]) \<and>
    is_message (sm_raw m) \<and> (\<forall>m0. msg_decode (m0\<lparr>sm_raw := sm_raw m\<rparr>) = (Ok (), m)) \<and>
    integrity_check (ev_hmac env) (ag_remote_pwd a) m = (Ok (), m)"
proof -
  let ?u = "ag_remote_ufrag a @ ascii '':'' @ ag_local_ufrag a"
  let ?ps = "request_attrs controlling use tie prio ?u"
  let ?mid = "text_add_to ATTR_USERNAME ?u # role_setters controlling use tie @ [priority_add_to prio]"
  have "apply_setters ?mid m = apply_setters (map (\<lambda>(a, v). set_attribute a v) ?ps) m" for m
    using text_add_username [OF assms(2), of m] by (simp add: request_attrs_def role_setters_eq priority_add_to_def)
  moreover have "\<forall>p \<in> set ?ps. fst p \<notin> {0x8020, ATTR_MESSAGE_INTEGRITY, ATTR_FINGERPRINT}"
    by (auto simp: request_attrs_def role_attrs_def stun_attr_consts)
  moreover have "length (attrs_wire (map mk_attr ?ps)) + 32 < 65536"
    using assms(2) npvl_bounds(2) [of "length ?u"] by (auto simp: request_attrs_def role_attrs_def length_attr_wire npvl_small)
  moreover have "wf_type BINDING_REQUEST" "length txid = TRANSACTION_ID_SIZE" using assms(1) by (simp_all add: wf_type_def BINDING_REQUEST_def stun_sizes)
  ultimately show ?thesis
    using sealed_build [of "[set_type BINDING_REQUEST, set_transaction_id txid]" BINDING_REQUEST txid ?ps ?mid "ev_hmac env" "ag_remote_pwd a" "ev_crc env"] assms(3)
    by (simp add: request_setters_def)
qed

lemma success_built:
  assumes "length txid = 12" and "ip_ok ip" and "\<And>k b. length (ev_hmac env k b) = MESSAGE_INTEGRITY_SIZE"
  shows "\<exists>m v w. msg_build [set_transaction_id txid, set_type BINDING_SUCCESS, xor_add_to_as ATTR_XORMAPPED_ADDRESS \<lparr>ma_ip = ip, ma_port = port\<rparr>,
      integrity_add_to (ev_hmac env) key, fingerprint_add_to (ev_crc env)] stun_message_new = (Ok (), m) \<and>
    sm_typ m = BINDING_SUCCESS \<and> sm_transaction_id m = txid \<and>
    sm_attributes m = map mk_attr ([(ATTR_XORMAPPED_ADDRESS, xor_encode txid \<lparr>ma_ip = ip, ma_port = port\<rparr>)] @
      [(ATTR_MESSAGE_INTEGRITY, v), (ATTR_FINGERPRINT, w)]) \<and>
    is_message (sm_raw m) \<and> (\<forall>m0. msg_decode (m0\<lparr>sm_raw := sm_raw m\<rparr>) = (Ok (), m)) \<and> integrity_check (ev_hmac env) key m = (Ok (), m)"
proof -
  let ?v = "xor_encode txid \<lparr>ma_ip = ip, ma_port = port\<rparr>"
  let ?ps = "[(ATTR_XORMAPPED_ADDRESS, ?v)]" and ?mid = "[xor_add_to_as ATTR_XORMAPPED_ADDRESS \<lparr>ma_ip = ip, ma_port = port\<rparr>]"
  have "length ?v \<le> 20" using assms(2) by (cases ip) (auto simp: xor_encode_def safe_xor_bytes_def ip_ok_def Let_def IPV4LEN_def IPV6LEN_def)
  then have "length (attrs_wire (map mk_attr ?ps)) + 32 < 65536" using npvl_bounds(2) [of "length ?v"] by (simp add: length_attr_wire)
  moreover have "\<forall>p \<in> set ?ps. fst p \<notin> {0x8020, ATTR_MESSAGE_INTEGRITY, ATTR_FINGERPRINT}" by (simp add: stun_attr_consts)
  moreover have "wf_type BINDING_SUCCESS" "length txid = TRANSACTION_ID_SIZE" using assms(1) by (simp_all add: wf_type_def BINDING_SUCCESS_def stun_sizes)
  moreover have "sm_transaction_id m = txid \<Longrightarrow> apply_setters ?mid m = apply_setters (map (\<lambda>(a, v). set_attribute a v) ?ps) m" for m
    by (simp add: xor_add_to_as_def)
  ultimately show ?thesis
    using sealed_build [of "[set_transaction_id txid, set_type BINDING_SUCCESS]" BINDING_SUCCESS txid ?ps ?mid "ev_hmac env" key "ev_crc env"] assms(3)
    by simp
qed

section \<open>Lookups do not depend on the times of candidates\<close>

lemma strip_fields [simp]:
  "cb_address (strip c) = cb_address c" "cb_port (strip c) = cb_port c" "cb_network_type (strip c) = cb_network_type c" "cb_type (strip c) = cb_type c"
  "cb_related (strip c) = cb_related c" "cb_resolved (strip c) = cb_resolved c" "cb_conn (strip c) = cb_conn c" "cb_priority (strip c) = cb_priority c"
  "cb_component (strip c) = cb_component c"
  by (simp_all add: strip_def)

lemma cand_core:
  assumes "core a' = core a" and "c < length (ag_cands a)"
  shows "cb_address (cand a' c) = cb_address (cand a c)" "cb_port (cand a' c) = cb_port (cand a c)"
    "cb_network_type (cand a' c) = cb_network_type (cand a c)" "cb_resolved (cand a' c) = cb_resolved (cand a c)" "cb_conn (cand a' c) = cb_conn (cand a c)"
    "cb_type (cand a' c) = cb_type (cand a c)" "cb_related (cand a' c) = cb_related (cand a c)"
proof -
  have "strip (cand a' c) = strip (cand a c)"
    using arg_cong [OF core_fields(17) [OF assms(1)], of "\<lambda>xs. xs ! c"] core_fields(16) [OF assms(1)] assms(2) by (simp add: cand_def)
  then show "cb_address (cand a' c) = cb_address (cand a c)" "cb_port (cand a' c) = cb_port (cand a c)"
    "cb_network_type (cand a' c) = cb_network_type (cand a c)" "cb_resolved (cand a' c) = cb_resolved (cand a c)" "cb_conn (cand a' c) = cb_conn (cand a c)"
    "cb_type (cand a' c) = cb_type (cand a c)" "cb_related (cand a' c) = cb_related (cand a c)"
    using strip_fields [of "cand a' c"] strip_fields [of "cand a c"] by metis+
qed

lemma find_remote_core:
  assumes "core a' = core a" and "agent_inv a"
  shows "find_remote_candidate nt addr a' = find_remote_candidate nt addr a"
  unfolding find_remote_candidate_def core_fields(8) [OF assms(1)]
  using refs_of_type(2) [of a _ nt] assms(2) cand_core [OF assms(1)] by (intro find_cong) (auto simp: agent_inv_def)

lemma find_pair_core:
  assumes "core a' = core a" and "agent_inv a" and "l < length (ag_cands a)" and "r < length (ag_cands a)"
  shows "find_pair l r a' = find_pair l r a"
proof -
  have p: "pair a' = pair a" using core_fields(1) [OF assms(1)] by (simp add: pair_def fun_eq_iff)
  have "cp_local (pair a p) < length (ag_cands a)" "cp_remote (pair a p) < length (ag_cands a)" if "p \<in> set (ag_checklist a)" for p
    using assms(2) that nth_mem [of p "ag_pairs a"] unfolding agent_inv_def refs_ok_def pair_def by blast+
  then show ?thesis
    unfolding find_pair_def core_fields(2) [OF assms(1)] p using cand_core [OF assms(1)] assms(3,4) by (intro find_cong) (simp_all add: cand_equal_def)
qed

lemma cand_equal_refl [simp]: "cand_equal c c"
  by (simp add: cand_equal_def)

lemma find_pair_added: "find_pair l r (add_pair l r a) \<noteq> None"
proof -
  have "length (ag_pairs a) \<in> set (ag_checklist (add_pair l r a))" by (simp add: add_pair_def)
  moreover have "pair (add_pair l r a) (length (ag_pairs a)) = pair_new l r (ag_controlling a)" by (simp add: add_pair_def pair_def nth_append)
  ultimately show ?thesis by (auto simp: find_pair_def find_None_iff pair_new_def intro!: exI [of _ "length (ag_pairs a)"])
qed

section \<open>Sending and answering a check\<close>

text \<open>What is sent stays sent.\<close>

lemma sent_write_to: "cb_conn (cand a l) \<Longrightarrow> ev_send env raw (cb_resolved (cand a r)) \<Longrightarrow>
  ag_sent (snd (write_to env raw l r a)) = ag_sent a @ [(raw, l, cb_resolved (cand a r))]"
  by (simp add: write_to_def Let_def)

lemma sent_mono_write: "set (ag_sent a) \<subseteq> set (ag_sent (snd (write_to env raw l r a)))"
  by (auto simp: write_to_def Let_def upd_cand_def)

lemma sent_mono_request: "set (ag_sent a) \<subseteq> set (ag_sent (send_request env role l r a))"
proof -
  have "ag_sent (invalidate_pending_binding_requests now b) = ag_sent b" for now b by (simp add: invalidate_pending_binding_requests_def)
  then have "set (ag_sent b) \<subseteq> set (ag_sent (send_binding_request env m l r b))" for m b
    using sent_mono_write by (fastforce simp: send_binding_request_def send_stun_def Let_def)
  from this [of "a\<lparr>ag_txids := ag_txids a + 1\<rparr>"] show ?thesis by (simp add: send_request_def Let_def split: prod.splits outcome.splits)
qed

lemma sent_mono_ping: "set (ag_sent a) \<subseteq> set (ag_sent (ping_candidate env l r a))"
  using sent_mono_request by (simp add: ping_candidate_def)

text \<open>The state after a request was sent over an open socket.\<close>

lemma send_request_effect:
  assumes "msg_build (request_setters env (ev_txid env (ag_txids a)) role (cand_priority (cand a l)) a) stun_message_new = (Ok (), m)"
    and "cb_conn (cand a l)" and "ev_send env (sm_raw m) (cb_resolved (cand a r))"
  defines "a1 \<equiv> send_request env role l r a"
  shows "ag_sent a1 = ag_sent a @ [(sm_raw m, l, cb_resolved (cand a r))]"
    and "ag_pending a1 = ag_pending (invalidate_pending_binding_requests (ev_now env) a) @
      [\<lparr>br_timestamp = ev_now env, br_id = sm_transaction_id m, br_destination = cb_resolved (cand a r), br_use = msg_contains ATTR_USE_CANDIDATE m\<rparr>]"
    and "core a1 = core a"
proof -
  define b where "b = a\<lparr>ag_txids := ag_txids a + 1\<rparr>"
  have b: "cand b = cand a" "ag_sent b = ag_sent a" "ag_pending b = ag_pending a" by (simp_all add: b_def cand_def fun_eq_iff)
  have a1: "a1 = send_binding_request env m l r b" using assms(1) by (simp add: a1_def send_request_def b_def Let_def)
  let ?i = "invalidate_pending_binding_requests (ev_now env) b"
  have i: "cand ?i = cand a" "ag_sent ?i = ag_sent a" "ag_pending ?i = ag_pending (invalidate_pending_binding_requests (ev_now env) a)"
    by (simp_all add: invalidate_pending_binding_requests_def b cand_def fun_eq_iff) (simp add: b_def)
  let ?j = "?i\<lparr>ag_pending := ag_pending ?i @ [\<lparr>br_timestamp = ev_now env, br_id = sm_transaction_id m, br_destination = cb_resolved (cand ?i r),
    br_use = msg_contains ATTR_USE_CANDIDATE m\<rparr>]\<rparr>"
  have j: "cand ?j = cand a" "ag_sent ?j = ag_sent a" using i by (simp_all add: cand_def fun_eq_iff)
  have w: "a1 = snd (write_to env (sm_raw m) l r ?j)" by (simp add: a1 send_binding_request_def send_stun_def Let_def)
  show "ag_sent a1 = ag_sent a @ [(sm_raw m, l, cb_resolved (cand a r))]"
    unfolding w using assms(2,3) j by (subst sent_write_to) simp_all
  show "ag_pending a1 = ag_pending (invalidate_pending_binding_requests (ev_now env) a) @
      [\<lparr>br_timestamp = ev_now env, br_id = sm_transaction_id m, br_destination = cb_resolved (cand a r), br_use = msg_contains ATTR_USE_CANDIDATE m\<rparr>]"
    unfolding w using i by (simp add: write_to_def Let_def upd_cand_def)
  show "core a1 = core a" by (simp add: a1_def)
qed

text \<open>A message that the agent built as a request in the given role.\<close>

definition is_request :: "ice_env \<Rightarrow> bool \<Rightarrow> bool \<Rightarrow> bytes \<Rightarrow> bytes \<Rightarrow> stun_message \<Rightarrow> bool" where
  "is_request env controlling use username key m \<longleftrightarrow> sm_typ m = BINDING_REQUEST \<and>
     (\<exists>tie prio v w. sm_attributes m = map mk_attr (request_attrs controlling use tie prio username @ [(ATTR_MESSAGE_INTEGRITY, v), (ATTR_FINGERPRINT, w)])) \<and>
     is_message (sm_raw m) \<and> (\<forall>m0. msg_decode (m0\<lparr>sm_raw := sm_raw m\<rparr>) = (Ok (), m)) \<and> integrity_check (ev_hmac env) key m = (Ok (), m)"

definition is_success :: "ice_env \<Rightarrow> bytes \<Rightarrow> bytes \<Rightarrow> stun_message \<Rightarrow> bool" where
  "is_success env txid key m \<longleftrightarrow> sm_typ m = BINDING_SUCCESS \<and> sm_transaction_id m = txid \<and>
     (\<exists>x v w. sm_attributes m = map mk_attr [(ATTR_XORMAPPED_ADDRESS, x), (ATTR_MESSAGE_INTEGRITY, v), (ATTR_FINGERPRINT, w)]) \<and>
     is_message (sm_raw m) \<and> (\<forall>m0. msg_decode (m0\<lparr>sm_raw := sm_raw m\<rparr>) = (Ok (), m)) \<and> integrity_check (ev_hmac env) key m = (Ok (), m)"

lemma request_contents:
  assumes "is_request env controlling use username key m"
  shows "msg_contains ATTR_USE_CANDIDATE m = use" "msg_contains ATTR_ICE_CONTROLLING m = controlling"
    "msg_contains ATTR_ICE_CONTROLLED m = (\<not> controlling)" "msg_get ATTR_USERNAME m = Ok username"
  using assms
  by (cases controlling; cases use; auto simp: is_request_def msg_contains_def msg_get_def request_attrs_def role_attrs_def stun_attr_consts)+

lemma request_handled:
  assumes m: "is_request env controlling use (ag_local_ufrag b @ ascii '':'' @ ag_remote_ufrag b) (ag_local_pwd b) m"
    and "utf8_ok (ag_local_ufrag b @ ascii '':'' @ ag_remote_ufrag b)" and "controlling = (\<not> ag_controlling b)" and "use \<Longrightarrow> controlling"
    and "find_remote_candidate (cb_network_type (cand b c)) src b = Some r"
  shows "handle_inbound_candidate_msg env c (sm_raw m) src b = seen_inbound env r (handle_binding_request env m c r b)"
proof -
  have "\<not> inbound_ignored m b"
    using assms(3,4) request_contents [OF m] m
    by (auto simp: inbound_ignored_def is_request_def BINDING_REQUEST_def METHOD_BINDING_def CLASS_REQUEST_def)
  moreover have "assert_inbound_username (ag_local_ufrag b @ ascii '':'' @ ag_remote_ufrag b) m = Ok ()"
    using request_contents(4) [OF m] assms(2) by (simp add: assert_inbound_username_def text_get_from_as_def text_max_len_def)
  moreover have "assert_inbound_message_integrity env (ag_local_pwd b) m = (Ok (), m)"
    using m by (simp add: assert_inbound_message_integrity_def is_request_def)
  moreover have "mt_class (sm_typ m) = CLASS_REQUEST" "mt_class (sm_typ m) \<noteq> CLASS_SUCCESS_RESPONSE"
    using m by (simp_all add: is_request_def BINDING_REQUEST_def CLASS_REQUEST_def CLASS_SUCCESS_RESPONSE_def)
  ultimately have "ice_handle_inbound env m c src b = seen_inbound env r (handle_binding_request env m c r b)"
    using assms(5) by (simp add: ice_handle_inbound_def)
  then show ?thesis using m by (simp add: handle_inbound_candidate_msg_def is_request_def)
qed

text \<open>An answer to a pending request from the address it went to makes the pair succeed.\<close>

lemma remove_request_last: "\<forall>q \<in> set qs. br_id q \<noteq> txid \<Longrightarrow> br_id b = txid \<Longrightarrow> remove_request txid (qs @ [b]) = (Some b, qs)"
  by (induction qs) auto

lemma success_handled:
  assumes inv: "agent_inv a" and m: "is_success env txid (ag_remote_pwd a) m"
    and pend: "ag_pending a = qs @ [q]" "br_id q = txid" "\<forall>x \<in> set qs. br_id x \<noteq> txid" "br_destination q = src"
    and time: "ev_now env < br_timestamp q \<or> ev_now env - br_timestamp q < MAX_BINDING_REQUEST_TIMEOUT"
    and rc: "find_remote_candidate (cb_network_type (cand a l)) src a = Some r" and l: "l < length (ag_cands a)"
    and p: "find_pair l r a = Some p"
  defines "a2 \<equiv> handle_inbound_candidate_msg env l (sm_raw m) src a"
  shows "p \<in> succeeded a2 \<and>
    (ag_controlling a \<and> br_use q \<and> ag_selected a = None \<longrightarrow> ag_selected a2 = Some p \<and> ag_state a2 = CS_Connected)"
proof -
  define a1 where "a1 = snd (handle_inbound_binding_success env txid a)"
  have h: "handle_inbound_binding_success env txid a = (Some q, a1)"
    using pend time remove_request_last [of "filter (\<lambda>b. ev_now env < br_timestamp b \<or> ev_now env - br_timestamp b < MAX_BINDING_REQUEST_TIMEOUT) qs" txid q]
    by (simp add: handle_inbound_binding_success_def invalidate_pending_binding_requests_def Let_def a1_def)
  have c: "core a1 = core a" by (simp add: a1_def)
  have r: "r < length (ag_cands a)" by (rule found_remote [OF inv rc])
  have p1: "find_pair l r a1 = Some p" using find_pair_core [OF c inv l r] p by simp
  have pl: "p < length (ag_pairs a1)" using found_pair [OF inv p] core_fields(1) [OF c] by simp
  have "\<not> inbound_ignored m a"
    using m by (auto simp: inbound_ignored_def is_success_def BINDING_SUCCESS_def METHOD_BINDING_def CLASS_SUCCESS_RESPONSE_def msg_contains_def stun_attr_consts)
  moreover have "assert_inbound_message_integrity env (ag_remote_pwd a) m = (Ok (), m)"
    using m by (simp add: assert_inbound_message_integrity_def is_success_def)
  moreover have "mt_class (sm_typ m) = CLASS_SUCCESS_RESPONSE" using m by (simp add: is_success_def BINDING_SUCCESS_def CLASS_SUCCESS_RESPONSE_def)
  ultimately have "ice_handle_inbound env m l src a = seen_inbound env r (handle_success_response env m l r src a)"
    using rc by (simp add: ice_handle_inbound_def)
  then have a2: "a2 = seen_inbound env r (handle_success_response env m l r src a)"
    using m by (simp add: a2_def handle_inbound_candidate_msg_def is_success_def)
  let ?s = "if ag_controlling a1 \<and> br_use q \<and> ag_selected a1 = None then set_selected_pair (Some p) (mark_succeeded p a1) else mark_succeeded p a1"
  have id: "sm_transaction_id m = txid" using m by (simp add: is_success_def)
  have resp: "handle_success_response env m l r src a = ?s"
    unfolding handle_success_response_def id h using pend(4) p1 by simp
  have s: "cp_state (pair ?s p) = PS_Succeeded"
    using pl by (auto simp: set_selected_pair_def mark_succeeded_def pair_upd_pair update_connection_state_def event_def pair_def)
      (simp_all add: upd_pair_def pair_def)
  have "ag_selected (seen_inbound env r x) = ag_selected x" "ag_state (seen_inbound env r x) = ag_state x" "pair (seen_inbound env r x) = pair x" for x
    by (simp_all add: seen_inbound_def upd_cand_def pair_def fun_eq_iff)
  moreover have "length (ag_pairs (seen_inbound env r ?s)) = length (ag_pairs a1)"
    by (simp add: seen_inbound_def upd_cand_def set_selected_pair_def mark_succeeded_def event_def)
  ultimately show ?thesis using s resp a2 pl core_fields(3,6) [OF c] by (auto simp: set_selected_pair_def event_def succeeded_def)
qed

section \<open>A check between two agents\<close>

text \<open>
  Two agents that were told each other's credentials and have opposite roles: \<open>a\<close> checks the pair \<open>(l, r)\<close>, \<open>b\<close> has the local
  candidate \<open>c\<close> and knows the sender as the remote candidate \<open>rb\<close>. Both have open sockets.
\<close>

definition peers :: "ice_env \<Rightarrow> ice_env \<Rightarrow> ice_agent \<Rightarrow> ice_agent \<Rightarrow> bool" where
  "peers env envb a b \<longleftrightarrow> ag_remote_ufrag a = ag_local_ufrag b \<and> ag_local_ufrag a = ag_remote_ufrag b \<and> ag_remote_pwd a = ag_local_pwd b \<and>
     ag_controlling a = (\<not> ag_controlling b) \<and> ev_hmac envb = ev_hmac env \<and>
     length (ag_remote_ufrag a @ ascii '':'' @ ag_local_ufrag a) \<le> 513 \<and> utf8_ok (ag_local_ufrag b @ ascii '':'' @ ag_remote_ufrag b)"

definition endpoint_ok :: "ice_env \<Rightarrow> ice_agent \<Rightarrow> cref \<Rightarrow> bool" where
  "endpoint_ok env a l \<longleftrightarrow> agent_inv a \<and> l < length (ag_cands a) \<and> cb_conn (cand a l) \<and> (\<forall>raw dst. ev_send env raw dst) \<and>
     (\<forall>k x. length (ev_hmac env k x) = MESSAGE_INTEGRITY_SIZE)"

lemma send_success_effect:
  assumes "endpoint_ok env b c" and "ip_ok (sa_ip (cb_resolved (cand b r)))" and "length (sm_transaction_id m) = 12"
  shows "\<exists>m2. is_success env (sm_transaction_id m) (ag_local_pwd b) m2 \<and>
    ag_sent (send_binding_success env m c r b) = ag_sent b @ [(sm_raw m2, c, cb_resolved (cand b r))]"
proof -
  let ?addr = "cb_resolved (cand b r)"
  from success_built [OF assms(3,2), of env "sa_port ?addr" "ag_local_pwd b"] assms(1) obtain m2 v w where
    m2: "msg_build [set_transaction_id (sm_transaction_id m), set_type BINDING_SUCCESS,
      xor_add_to_as ATTR_XORMAPPED_ADDRESS \<lparr>ma_ip = sa_ip ?addr, ma_port = sa_port ?addr\<rparr>,
      integrity_add_to (ev_hmac env) (ag_local_pwd b), fingerprint_add_to (ev_crc env)] stun_message_new = (Ok (), m2)"
    "sm_typ m2 = BINDING_SUCCESS" "sm_transaction_id m2 = sm_transaction_id m"
    "sm_attributes m2 = map mk_attr ([(ATTR_XORMAPPED_ADDRESS, xor_encode (sm_transaction_id m) \<lparr>ma_ip = sa_ip ?addr, ma_port = sa_port ?addr\<rparr>)] @
      [(ATTR_MESSAGE_INTEGRITY, v), (ATTR_FINGERPRINT, w)])"
    "is_message (sm_raw m2)" "\<forall>m0. msg_decode (m0\<lparr>sm_raw := sm_raw m2\<rparr>) = (Ok (), m2)" "integrity_check (ev_hmac env) (ag_local_pwd b) m2 = (Ok (), m2)"
    unfolding endpoint_ok_def by blast
  then have "is_success env (sm_transaction_id m) (ag_local_pwd b) m2" by (auto simp: is_success_def)
  moreover have "send_binding_success env m c r b = snd (write_to env (sm_raw m2) c r b)"
    using m2(1) by (simp add: send_binding_success_def send_stun_def Let_def)
  ultimately show ?thesis using sent_write_to [of b c env "sm_raw m2" r] assms(1) by (intro exI [of _ m2]) (simp add: endpoint_ok_def)
qed

text \<open>The answer to a request without nomination is sent in either role.\<close>

lemma request_answered:
  assumes b: "endpoint_ok env b c" and r: "r < length (ag_cands b)" and ip: "ip_ok (sa_ip (cb_resolved (cand b r)))" and len: "length (sm_transaction_id m) = 12"
    and nouse: "\<not> msg_contains ATTR_USE_CANDIDATE m"
  shows "\<exists>m2. is_success env (sm_transaction_id m) (ag_local_pwd b) m2 \<and> (sm_raw m2, c, cb_resolved (cand b r)) \<in> set (ag_sent (handle_binding_request env m c r b))"
proof (cases "ag_controlling b")
  case True
  from send_success_effect [OF b ip len] obtain m2 where
    m2: "is_success env (sm_transaction_id m) (ag_local_pwd b) m2" "ag_sent (send_binding_success env m c r b) = ag_sent b @ [(sm_raw m2, c, cb_resolved (cand b r))]" by blast
  have "set (ag_sent x) \<subseteq> set (ag_sent (nominate_pair env x))" for x using sent_mono_request by (simp add: nominate_pair_def split: option.split)
  from this [of "(send_binding_success env m c r b)\<lparr>ag_nominated := _\<rparr>"] m2(2)
  have "set (ag_sent (send_binding_success env m c r b)) \<subseteq> set (ag_sent (binding_request_controlling env m c r b))"
    by (auto simp: binding_request_controlling_def Let_def add_pair_def split: option.split)
  with m2 True show ?thesis by (auto simp: handle_binding_request_def)
next
  case False
  define b1 where "b1 = (if find_pair c r b = None then add_pair c r b else b)"
  have same: "cand b1 = cand b" "ag_local_pwd b1 = ag_local_pwd b" "length (ag_cands b1) = length (ag_cands b)" by (simp_all add: b1_def add_pair_def cand_def fun_eq_iff)
  have "sound b b1" using b r sound_add_pair by (simp add: b1_def endpoint_ok_def)
  then have "endpoint_ok env b1 c" using b same by (simp add: endpoint_ok_def sound_def)
  from send_success_effect [OF this, of r m] ip len same obtain m2 where
    m2: "is_success env (sm_transaction_id m) (ag_local_pwd b) m2" "ag_sent (send_binding_success env m c r b1) = ag_sent b1 @ [(sm_raw m2, c, cb_resolved (cand b r))]" by auto
  have "find_pair c r b1 \<noteq> None" using find_pair_added by (simp add: b1_def)
  then have "handle_binding_request env m c r b = ping_candidate env c r (send_binding_success env m c r b1)"
    using False nouse by (auto simp: handle_binding_request_def binding_request_controlled_def b1_def [symmetric] Let_def)
  with m2 sent_mono_ping [of "send_binding_success env m c r b1" env c r] show ?thesis by auto
qed

text \<open>What the sender knows after a request: the request is on the wire and pending, the rest of the agent is as before.\<close>

lemma request_sent:
  fixes r :: cref
  assumes a: "endpoint_ok env a l" and peers: "peers env envb a b" and tx: "length (ev_txid env (ag_txids a)) = 12"
    and role: "role = role_setters (ag_controlling a) use (ag_tie_breaker a)"
  defines "a1 \<equiv> send_request env role l r a"
  shows "\<exists>m q qs. is_request envb (ag_controlling a) use (ag_local_ufrag b @ ascii '':'' @ ag_remote_ufrag b) (ag_local_pwd b) m \<and>
    sm_transaction_id m = ev_txid env (ag_txids a) \<and> (sm_raw m, l, cb_resolved (cand a r)) \<in> set (ag_sent a1) \<and> core a1 = core a \<and>
    ag_pending a1 = qs @ [q] \<and> set qs \<subseteq> set (ag_pending a) \<and> br_id q = sm_transaction_id m \<and> br_destination q = cb_resolved (cand a r) \<and>
    br_use q = use \<and> br_timestamp q = ev_now env"
proof -
  let ?tx = "ev_txid env (ag_txids a)"
  have u: "length (ag_remote_ufrag a @ ascii '':'' @ ag_local_ufrag a) \<le> 513" using peers unfolding peers_def by (elim conjE)
  have h: "\<And>k b. length (ev_hmac env k b) = MESSAGE_INTEGRITY_SIZE" using a by (simp add: endpoint_ok_def)
  from request_built [OF tx u h, of "ag_controlling a" use "ag_tie_breaker a" "cand_priority (cand a l)"] obtain m v w where
    m: "msg_build (request_setters env ?tx role (cand_priority (cand a l)) a) stun_message_new = (Ok (), m)"
      "sm_typ m = BINDING_REQUEST" "sm_transaction_id m = ?tx"
      "sm_attributes m = map mk_attr (request_attrs (ag_controlling a) use (ag_tie_breaker a) (cand_priority (cand a l))
         (ag_remote_ufrag a @ ascii '':'' @ ag_local_ufrag a) @ [(ATTR_MESSAGE_INTEGRITY, v), (ATTR_FINGERPRINT, w)])"
      "is_message (sm_raw m)" "\<forall>m0. msg_decode (m0\<lparr>sm_raw := sm_raw m\<rparr>) = (Ok (), m)"
      "integrity_check (ev_hmac env) (ag_remote_pwd a) m = (Ok (), m)" unfolding role by blast
  have req: "is_request envb (ag_controlling a) use (ag_local_ufrag b @ ascii '':'' @ ag_remote_ufrag b) (ag_local_pwd b) m"
    unfolding is_request_def using m(2,4-7) peers by (auto simp: peers_def)
  have use: "msg_contains ATTR_USE_CANDIDATE m = use" by (rule request_contents(1) [OF req])
  have "cb_conn (cand a l)" "ev_send env (sm_raw m) (cb_resolved (cand a r))" using a by (simp_all add: endpoint_ok_def)
  note e = send_request_effect [OF m(1) this, folded a1_def]
  have "set (ag_pending (invalidate_pending_binding_requests (ev_now env) a)) \<subseteq> set (ag_pending a)" by (auto simp: invalidate_pending_binding_requests_def)
  with req m(3) e use show ?thesis by (intro exI [of _ m]) auto
qed

lemma fields_of_core: "core a1 = core a \<Longrightarrow> agent_inv a \<Longrightarrow> l < length (ag_cands a) \<Longrightarrow> agent_inv a1 \<and> l < length (ag_cands a1) \<and>
  cb_network_type (cand a1 l) = cb_network_type (cand a l) \<and> ag_remote_pwd a1 = ag_remote_pwd a"
  using core_inv [of a1 a] core_fields(10,16) [of a1 a] cand_core(3) [of a1 a l] by simp

lemma is_success_env: "ev_hmac env = ev_hmac env' \<Longrightarrow> is_success env txid key m = is_success env' txid key m"
  by (simp add: is_success_def)

lemma check_exchange:
  assumes peers: "peers env envb a b" and a: "endpoint_ok env a l" and b: "endpoint_ok envb b c"
    and tx: "length (ev_txid env (ag_txids a)) = 12" and fresh: "\<forall>q \<in> set (ag_pending a). br_id q \<noteq> ev_txid env (ag_txids a)"
    and p: "find_pair l r a = Some p" and rc: "find_remote_candidate (cb_network_type (cand a l)) (cb_resolved (cand a r)) a = Some r"
    and rb: "find_remote_candidate (cb_network_type (cand b c)) src b = Some rb" and ip: "ip_ok (sa_ip (cb_resolved (cand b rb)))"
    and hm: "ev_hmac env2 = ev_hmac env" and time: "ev_now env2 - ev_now env < MAX_BINDING_REQUEST_TIMEOUT"
  shows "\<exists>raw raw2. (raw, l, cb_resolved (cand a r)) \<in> set (ag_sent (ping_candidate env l r a)) \<and>
    (raw2, c, cb_resolved (cand b rb)) \<in> set (ag_sent (handle_inbound_candidate_msg envb c raw src b)) \<and>
    p \<in> succeeded (handle_inbound_candidate_msg env2 l raw2 (cb_resolved (cand a r)) (ping_candidate env l r a))"
proof -
  define a1 where "a1 = ping_candidate env l r a"
  have role: "a1 = send_request env (role_setters (ag_controlling a) False (ag_tie_breaker a)) l r a" by (simp add: a1_def ping_candidate_def role_setters_def)
  from request_sent [OF a peers tx refl, of False r] obtain m q qs where
    m: "is_request envb (ag_controlling a) False (ag_local_ufrag b @ ascii '':'' @ ag_remote_ufrag b) (ag_local_pwd b) m"
      "sm_transaction_id m = ev_txid env (ag_txids a)" "(sm_raw m, l, cb_resolved (cand a r)) \<in> set (ag_sent a1)" "core a1 = core a"
    and q: "ag_pending a1 = qs @ [q]" "set qs \<subseteq> set (ag_pending a)" "br_id q = sm_transaction_id m" "br_destination q = cb_resolved (cand a r)"
      "br_timestamp q = ev_now env" unfolding role [symmetric] by blast
  have b1: "handle_inbound_candidate_msg envb c (sm_raw m) src b = seen_inbound envb rb (handle_binding_request envb m c rb b)"
    using peers by (intro request_handled [OF m(1) _ _ _ rb]) (auto simp: peers_def)
  have binv: "agent_inv b" "rb < length (ag_cands b)" using b found_remote rb by (auto simp: endpoint_ok_def)
  from request_answered [OF b binv(2) ip, of m] m(2) tx request_contents(1) [OF m(1)] obtain m2 where
    m2: "is_success envb (sm_transaction_id m) (ag_local_pwd b) m2" "(sm_raw m2, c, cb_resolved (cand b rb)) \<in> set (ag_sent (handle_binding_request envb m c rb b))"
    by auto
  have ainv: "agent_inv a" "l < length (ag_cands a)" using a by (simp_all add: endpoint_ok_def)
  note f = fields_of_core [OF m(4) ainv]
  have r: "r < length (ag_cands a)" by (rule found_remote [OF ainv(1) rc])
  have s2: "is_success env2 (br_id q) (ag_remote_pwd a1) m2"
    using m2(1) f peers hm q(3) is_success_env [of env2 envb] by (simp add: peers_def)
  have "p \<in> succeeded (handle_inbound_candidate_msg env2 l (sm_raw m2) (cb_resolved (cand a r)) a1)"
    using success_handled [OF _ s2 q(1) refl _ q(4), of l r p] f q fresh m(2) time find_remote_core [OF m(4) ainv(1)] rc find_pair_core [OF m(4) ainv r] p
    by auto
  moreover have "ag_sent (seen_inbound envb rb x) = ag_sent x" for x by (simp add: seen_inbound_def upd_cand_def)
  ultimately show ?thesis using m(3) m2(2) b1 unfolding a1_def by (intro exI [of _ "sm_raw m"] exI [of _ "sm_raw m2"]) simp
qed
text \<open>
  C14. A connectivity check between two agents succeeds. The first agent, in either role, pings a pair of its checklist; what it puts
  on the wire is accepted by the second agent, which has the credentials and the opposite role, and makes it answer to the
  candidate it knows the sender by; and when that answer comes back, from the address that was pinged and within four seconds, the pair
  of the first agent has succeeded. This covers building, parsing and authenticating both messages.
\<close>

theorem connectivity_check_succeeds:
  assumes peers: "peers env envb a b" and a: "endpoint_ok env a l" and b: "endpoint_ok envb b c"
    and tx: "length (ev_txid env (ag_txids a)) = 12" and fresh: "\<forall>q \<in> set (ag_pending a). br_id q \<noteq> ev_txid env (ag_txids a)"
    and p: "find_pair l r a = Some p" and rc: "find_remote_candidate (cb_network_type (cand a l)) (cb_resolved (cand a r)) a = Some r"
    and rb: "find_remote_candidate (cb_network_type (cand b c)) src b = Some rb" and ip: "ip_ok (sa_ip (cb_resolved (cand b rb)))"
    and hm: "ev_hmac env2 = ev_hmac env" and time: "ev_now env2 - ev_now env < MAX_BINDING_REQUEST_TIMEOUT"
  shows "\<exists>raw raw2. (raw, l, cb_resolved (cand a r)) \<in> set (ag_sent (ping_candidate env l r a)) \<and>
    (raw2, c, cb_resolved (cand b rb)) \<in> set (ag_sent (handle_inbound_candidate_msg envb c raw src b)) \<and>
    cp_state (pair (handle_inbound_candidate_msg env2 l raw2 (cb_resolved (cand a r)) (ping_candidate env l r a)) p) = PS_Succeeded"
  using check_exchange [OF assms] unfolding succeeded_def by blast

text \<open>Two agents of a small network, each with one candidate.\<close>

lemma sample_fields:
  "ag_local_ufrag (sample_agent True 1 2) = replicate 4 65" "ag_local_pwd (sample_agent True 1 2) = replicate 16 65"
  "ag_remote_ufrag (sample_agent True 1 2) = replicate 4 66" "ag_remote_pwd (sample_agent True 1 2) = replicate 16 66"
  "ag_local_ufrag (sample_agent False 2 1) = replicate 4 66" "ag_local_pwd (sample_agent False 2 1) = replicate 16 66"
  "ag_remote_ufrag (sample_agent False 2 1) = replicate 4 65" "ag_remote_pwd (sample_agent False 2 1) = replicate 16 65"
  "ag_controlling (sample_agent True 1 2)" "\<not> ag_controlling (sample_agent False 2 1)"
  "ag_pending (sample_agent True 1 2) = []" "ag_txids (sample_agent True 1 2) = 0"
  "ag_pairs (sample_agent True 1 2) = [pair_new 0 1 True]" "ag_checklist (sample_agent True 1 2) = [0]"
  "ag_state (sample_agent True 1 2) = CS_Checking" "ag_selected (sample_agent True 1 2) = None" "ag_nominated (sample_agent True 1 2) = None"
  "ag_max_requests (sample_agent True 1 2) = 7" "ag_disconnected_timeout (sample_agent True 1 2) > 0"
  by (simp_all add: sample_defs DEFAULT_MAX_BINDING_REQUESTS_def DEFAULT_DISCONNECTED_TIMEOUT_def millis_def or_default_def)

lemma sample_cands:
  "ag_cands (sample_agent True 1 2) = [(sample_candidate 1)\<lparr>cb_open := True\<rparr>, sample_candidate 2]"
  "ag_cands (sample_agent False 2 1) = [(sample_candidate 2)\<lparr>cb_open := True\<rparr>, sample_candidate 1]"
  "ag_remote (sample_agent True 1 2) = [(Udp4, [1])]" "ag_remote (sample_agent False 2 1) = [(Udp4, [1])]"
  by (simp_all add: sample_defs)

lemma sample_peers: "peers (sample_env 2) (sample_env 3) (sample_agent True 1 2) (sample_agent False 2 1)"
proof -
  have "utf8_ok (replicate 4 66 @ ascii '':'' @ replicate 4 65)" by code_simp
  then show ?thesis by (simp add: peers_def sample_fields sample_env_def ascii_def)
qed

lemma sample_endpoints:
  "endpoint_ok (sample_env 2) (sample_agent True 1 2) 0" "endpoint_ok (sample_env 3) (sample_agent False 2 1) 0"
  using reachable_inv [OF sample_reachable, of True 1 2] reachable_inv [OF sample_reachable, of False 2 1]
  by (simp_all add: endpoint_ok_def sample_cands cand_def sample_candidate_def sample_env_def MESSAGE_INTEGRITY_SIZE_def)

lemma sample_lookups:
  "find_pair 0 1 (sample_agent True 1 2) = Some 0"
  "find_remote_candidate (cb_network_type (cand (sample_agent True 1 2) 0)) (cb_resolved (cand (sample_agent True 1 2) 1)) (sample_agent True 1 2) = Some 1"
  "find_remote_candidate (cb_network_type (cand (sample_agent False 2 1) 0)) (cb_resolved (sample_candidate 1)) (sample_agent False 2 1) = Some 1"
  "cand (sample_agent False 2 1) 1 = sample_candidate 1" "cand (sample_agent True 1 2) 1 = sample_candidate 2"
  by (simp_all add: find_pair_def find_remote_candidate_def sample_cands sample_fields cand_def pair_def pair_new_def of_type_def hm_get_def)
    (simp_all add: sample_candidate_def)

theorem connectivity_check_succeeds_witness:
  "\<exists>raw raw2. (raw2, 0, cb_resolved (sample_candidate 1)) \<in>
      set (ag_sent (handle_inbound_candidate_msg (sample_env 3) 0 raw (cb_resolved (sample_candidate 1)) (sample_agent False 2 1))) \<and>
    cp_state (pair (handle_inbound_candidate_msg (sample_env 4) 0 raw2 (cb_resolved (sample_candidate 2))
      (ping_candidate (sample_env 2) 0 1 (sample_agent True 1 2))) 0) = PS_Succeeded"
proof -
  have "ip_ok (sa_ip (cb_resolved (sample_candidate 1)))" by (simp add: ip_ok_def sample_candidate_def IPV4LEN_def)
  moreover have "ev_hmac (sample_env 4) = ev_hmac (sample_env 2)" "ev_now (sample_env 4) - ev_now (sample_env 2) < MAX_BINDING_REQUEST_TIMEOUT"
    "length (ev_txid (sample_env 2) (ag_txids (sample_agent True 1 2))) = 12"
    by (simp_all add: sample_env_def MAX_BINDING_REQUEST_TIMEOUT_def millis_def)
  ultimately show ?thesis
    using connectivity_check_succeeds [OF sample_peers sample_endpoints, of 1 0 "cb_resolved (sample_candidate 1)" 1 "sample_env 4"] sample_lookups sample_fields(11)
    by auto
qed

text \<open>
  C15. Nomination completes on both sides. A controlling agent that has nominated a pair and selected none sends its request with
  \<^verbatim>\<open>USE-CANDIDATE\<close>; the controlled agent, whose own check of the pair has succeeded, selects the pair, is connected and answers; the
  answer makes the controlling agent select its pair and become connected.
\<close>

theorem nomination_connects:
  assumes peers: "peers env envb a b" and a: "endpoint_ok env a l" and b: "endpoint_ok envb b c"
    and ctl: "ag_controlling a" and nom: "ag_nominated a = Some n" "cp_local (pair a n) = l" "cp_remote (pair a n) = r" and sel: "ag_selected a = None"
    and tx: "length (ev_txid env (ag_txids a)) = 12" and fresh: "\<forall>q \<in> set (ag_pending a). br_id q \<noteq> ev_txid env (ag_txids a)"
    and p: "find_pair l r a = Some p" and rc: "find_remote_candidate (cb_network_type (cand a l)) (cb_resolved (cand a r)) a = Some r"
    and rb: "find_remote_candidate (cb_network_type (cand b c)) src b = Some rb" and ip: "ip_ok (sa_ip (cb_resolved (cand b rb)))"
    and pb: "find_pair c rb b = Some pb" "cp_state (pair b pb) = PS_Succeeded" "ag_selected b = None"
    and hm: "ev_hmac env2 = ev_hmac env" and time: "ev_now env2 - ev_now env < MAX_BINDING_REQUEST_TIMEOUT"
  shows "\<exists>raw raw2 b1 a2. (raw, l, cb_resolved (cand a r)) \<in> set (ag_sent (nominate_pair env a)) \<and>
    b1 = handle_inbound_candidate_msg envb c raw src b \<and> ag_selected b1 = Some pb \<and> ag_state b1 = CS_Connected \<and>
    (raw2, c, cb_resolved (cand b rb)) \<in> set (ag_sent b1) \<and>
    a2 = handle_inbound_candidate_msg env2 l raw2 (cb_resolved (cand a r)) (nominate_pair env a) \<and> ag_selected a2 = Some p \<and> ag_state a2 = CS_Connected"
proof -
  define a1 where "a1 = nominate_pair env a"
  have role: "a1 = send_request env (role_setters (ag_controlling a) True (ag_tie_breaker a)) l r a"
    using ctl nom by (simp add: a1_def nominate_pair_def role_setters_def)
  from request_sent [OF a peers tx refl, of True r] obtain m q qs where
    m: "is_request envb (ag_controlling a) True (ag_local_ufrag b @ ascii '':'' @ ag_remote_ufrag b) (ag_local_pwd b) m"
      "sm_transaction_id m = ev_txid env (ag_txids a)" "(sm_raw m, l, cb_resolved (cand a r)) \<in> set (ag_sent a1)" "core a1 = core a"
    and q: "ag_pending a1 = qs @ [q]" "set qs \<subseteq> set (ag_pending a)" "br_id q = sm_transaction_id m" "br_destination q = cb_resolved (cand a r)"
      "br_timestamp q = ev_now env" "br_use q" unfolding role [symmetric] by blast
  define b0 where "b0 = set_selected_pair (Some pb) b"
  have binv: "agent_inv b" "rb < length (ag_cands b)" using b found_remote rb by (auto simp: endpoint_ok_def)
  have b0: "cand b0 = cand b" "ag_local_pwd b0 = ag_local_pwd b" "ag_selected b0 = Some pb" "ag_state b0 = CS_Connected" "length (ag_cands b0) = length (ag_cands b)"
    by (simp_all add: b0_def set_selected_pair_def event_def upd_pair_def update_connection_state_def cand_def fun_eq_iff)
  have "sound b b0" unfolding b0_def by (rule sound_select [OF found_pair [OF binv(1) pb(1)] pb(2)])
  then have "endpoint_ok envb b0 c" using b b0 by (simp add: endpoint_ok_def sound_def)
  from send_success_effect [OF this, of rb m] ip b0 m(2) tx obtain m2 where
    m2: "is_success envb (sm_transaction_id m) (ag_local_pwd b) m2" "ag_sent (send_binding_success envb m c rb b0) = ag_sent b0 @ [(sm_raw m2, c, cb_resolved (cand b rb))]" by auto
  have b1: "handle_inbound_candidate_msg envb c (sm_raw m) src b = seen_inbound envb rb (send_binding_success envb m c rb b0)"
    using peers ctl pb request_contents(1) [OF m(1)]
    by (subst request_handled [OF m(1) _ _ _ rb]) (auto simp: peers_def handle_binding_request_def binding_request_controlled_def Let_def b0_def)
  have c1: "core (handle_inbound_candidate_msg envb c (sm_raw m) src b) = core b0" by (simp add: b1)
  have ainv: "agent_inv a" "l < length (ag_cands a)" using a by (simp_all add: endpoint_ok_def)
  note f = fields_of_core [OF m(4) ainv]
  have r: "r < length (ag_cands a)" by (rule found_remote [OF ainv(1) rc])
  have s2: "is_success env2 (br_id q) (ag_remote_pwd a1) m2"
    using m2(1) f peers hm q(3) is_success_env [of env2 envb] by (simp add: peers_def)
  let ?a2 = "handle_inbound_candidate_msg env2 l (sm_raw m2) (cb_resolved (cand a r)) a1"
  have "ag_selected ?a2 = Some p \<and> ag_state ?a2 = CS_Connected"
    using success_handled [OF _ s2 q(1) refl _ q(4), of l r p] f q fresh m(2) time find_remote_core [OF m(4) ainv(1)] rc find_pair_core [OF m(4) ainv r] p
      ctl sel core_fields(3,6) [OF m(4)] by auto
  moreover have "ag_sent (seen_inbound envb rb x) = ag_sent x" for x by (simp add: seen_inbound_def upd_cand_def)
  ultimately show ?thesis using m(3) m2(2) b1 core_fields(3,5) [OF c1] b0 unfolding a1_def
    by (intro exI [of _ "sm_raw m"] exI [of _ "sm_raw m2"]) simp
qed

text \<open>The controlling agent after nomination, and the controlled one after its own check.\<close>

definition sample_nominated :: ice_agent where
  "sample_nominated = (sample_agent True 1 2)\<lparr>ag_nominated := Some 0\<rparr>"

definition sample_checked :: ice_agent where
  "sample_checked = mark_succeeded 0 (sample_agent False 2 1)"

lemma sample_pairs_controlled: "ag_pairs (sample_agent False 2 1) = [pair_new 0 1 True]" "ag_checklist (sample_agent False 2 1) = [0]"
  "ag_selected (sample_agent False 2 1) = None"
  by (simp_all add: sample_defs)

lemma sample_nominated_ok:
  "endpoint_ok (sample_env 2) sample_nominated 0" "endpoint_ok (sample_env 3) sample_checked 0"
  "peers (sample_env 2) (sample_env 3) sample_nominated sample_checked"
proof -
  have "agent_inv sample_nominated"
    using sound_nominated [of 0 "sample_agent True 1 2"] reachable_inv [OF sample_reachable] sample_agent_values by (simp add: sound_def sample_nominated_def)
  with sample_endpoints(1) show "endpoint_ok (sample_env 2) sample_nominated 0" by (simp add: endpoint_ok_def sample_nominated_def cand_def)
  have "agent_inv sample_checked"
    using mark_succeeded_ok [of 0 "sample_agent False 2 1"] reachable_inv [OF sample_reachable] sample_pairs_controlled
    by (simp add: sound_success_def sample_checked_def)
  with sample_endpoints(2) show "endpoint_ok (sample_env 3) sample_checked 0" by (simp add: endpoint_ok_def sample_checked_def mark_succeeded_def upd_pair_def cand_def)
  from sample_peers show "peers (sample_env 2) (sample_env 3) sample_nominated sample_checked"
    by (auto simp: peers_def sample_nominated_def sample_checked_def mark_succeeded_def upd_pair_def)
qed

lemma sample_nominated_lookups:
  "find_pair 0 1 sample_nominated = Some 0" "cand sample_nominated = cand (sample_agent True 1 2)" "cand sample_checked = cand (sample_agent False 2 1)"
  "find_remote_candidate nt addr sample_nominated = find_remote_candidate nt addr (sample_agent True 1 2)"
  "find_remote_candidate nt addr sample_checked = find_remote_candidate nt addr (sample_agent False 2 1)"
  "find_pair 0 1 sample_checked = Some 0" "cp_state (pair sample_checked 0) = PS_Succeeded" "ag_selected sample_checked = None"
  "ag_pending sample_nominated = []" "ag_controlling sample_nominated" "ag_nominated sample_nominated = Some 0" "ag_selected sample_nominated = None"
  "cp_local (pair sample_nominated 0) = 0" "cp_remote (pair sample_nominated 0) = 1"
  by (simp_all add: sample_nominated_def sample_checked_def mark_succeeded_def upd_pair_def find_pair_def find_remote_candidate_def cand_def pair_def fun_eq_iff
      sample_fields sample_pairs_controlled sample_cands pair_new_def)

theorem nomination_connects_witness:
  "\<exists>raw raw2 b1 a2. b1 = handle_inbound_candidate_msg (sample_env 3) 0 raw (cb_resolved (sample_candidate 1)) sample_checked \<and>
    ag_selected b1 = Some 0 \<and> ag_state b1 = CS_Connected \<and>
    a2 = handle_inbound_candidate_msg (sample_env 4) 0 raw2 (cb_resolved (sample_candidate 2)) (nominate_pair (sample_env 2) sample_nominated) \<and>
    ag_selected a2 = Some 0 \<and> ag_state a2 = CS_Connected"
proof -
  have "ip_ok (sa_ip (cb_resolved (sample_candidate 1)))" by (simp add: ip_ok_def sample_candidate_def IPV4LEN_def)
  moreover have "ev_hmac (sample_env 4) = ev_hmac (sample_env 2)" "ev_now (sample_env 4) - ev_now (sample_env 2) < MAX_BINDING_REQUEST_TIMEOUT"
    "length (ev_txid (sample_env 2) (ag_txids sample_nominated)) = 12"
    by (simp_all add: sample_env_def MAX_BINDING_REQUEST_TIMEOUT_def millis_def)
  ultimately show ?thesis
    using nomination_connects [OF sample_nominated_ok(3,1,2), of 0 1 0 "cb_resolved (sample_candidate 1)" 1 0 "sample_env 4"] sample_lookups sample_nominated_lookups
    by auto
qed

text \<open>A round of the check task pings the pair, and the answer of the peer makes it succeed.\<close>

definition sample_pinging :: ice_agent where
  "sample_pinging = fst (fold ping_step [0] (sample_agent True 1 2, []))"

lemma sample_pinging_eq: "sample_pinging = (sample_agent True 1 2)\<lparr>ag_pairs := [(pair_new 0 1 True)\<lparr>cp_state := PS_InProgress, cp_count := 1\<rparr>]\<rparr>"
  "fold ping_step [0] (sample_agent True 1 2, []) = (sample_pinging, [(0, 1)])"
  by (simp_all add: sample_pinging_def ping_step_def Let_def pair_def sample_fields upd_pair_def pair_new_def)

lemma sample_tick: "ice_step (sample_env 2) (Tick (CS_Checking, 1)) (sample_agent True 1 2) = ping_candidate (sample_env 2) 0 1 sample_pinging"
proof -
  have "get_best_valid_candidate_pair (sample_agent True 1 2) = None"
    by (simp add: get_best_valid_candidate_pair_def sample_fields pair_def pair_new_def)
  moreover have "\<not> ag_disconnected_timeout (sample_agent True 1 2) + ag_failed_timeout (sample_agent True 1 2) < ev_now (sample_env 2) - 1"
    using sample_fields(19) by (simp add: sample_env_def)
  ultimately show ?thesis using sample_fields sample_pinging_eq(2)
    by (simp add: contact_def contact_candidates_def contact_controlling_def ping_all_candidates_def Let_def)
qed

lemma sample_pinging_ok:
  "endpoint_ok (sample_env 2) sample_pinging 0" "peers (sample_env 2) (sample_env 3) sample_pinging (sample_agent False 2 1)"
  "find_pair 0 1 sample_pinging = Some 0" "cand sample_pinging = cand (sample_agent True 1 2)"
  "find_remote_candidate nt addr sample_pinging = find_remote_candidate nt addr (sample_agent True 1 2)" "ag_pending sample_pinging = []"
proof -
  have "agent_inv sample_pinging"
    using sound_ping_steps [of "sample_agent True 1 2" "[0]" "[]"] reachable_inv [OF sample_reachable, of True 1 2] by (simp add: sound_def sample_pinging_def)
  with sample_endpoints(1) show "endpoint_ok (sample_env 2) sample_pinging 0" by (simp add: endpoint_ok_def sample_pinging_eq(1) cand_def)
  from sample_peers show "peers (sample_env 2) (sample_env 3) sample_pinging (sample_agent False 2 1)" by (auto simp: peers_def sample_pinging_eq(1))
  show "find_pair 0 1 sample_pinging = Some 0" "cand sample_pinging = cand (sample_agent True 1 2)"
    "find_remote_candidate nt addr sample_pinging = find_remote_candidate nt addr (sample_agent True 1 2)" "ag_pending sample_pinging = []"
    by (simp_all add: sample_pinging_eq(1) find_pair_def find_remote_candidate_def cand_def pair_def fun_eq_iff sample_fields pair_new_def)
qed

theorem pair_succeeds_authentically_witness:
  "\<exists>a raw. ice_reachable a \<and> a = ice_step (sample_env 2) (Tick (CS_Checking, 1)) (sample_agent True 1 2) \<and>
    authentic_response (sample_env 4) a raw (cb_resolved (sample_candidate 2)) \<and>
    (\<exists>p. succeeded (ice_step (sample_env 4) (Datagram 0 raw (cb_resolved (sample_candidate 2))) a) = insert p (succeeded a))"
proof -
  let ?a = "ice_step (sample_env 2) (Tick (CS_Checking, 1)) (sample_agent True 1 2)" and ?src = "cb_resolved (sample_candidate 2)"
  have ip: "ip_ok (sa_ip (cb_resolved (sample_candidate 1)))" by (simp add: ip_ok_def sample_candidate_def IPV4LEN_def)
  have e: "ev_hmac (sample_env 4) = ev_hmac (sample_env 2)" "ev_now (sample_env 4) - ev_now (sample_env 2) < MAX_BINDING_REQUEST_TIMEOUT"
    "length (ev_txid (sample_env 2) (ag_txids sample_pinging)) = 12"
    by (simp_all add: sample_env_def MAX_BINDING_REQUEST_TIMEOUT_def millis_def)
  obtain raw2 where raw2: "0 \<in> succeeded (ice_step (sample_env 4) (Datagram 0 raw2 ?src) ?a)"
    using check_exchange [OF sample_pinging_ok(2,1) sample_endpoints(2) e(3) _ sample_pinging_ok(3), of "cb_resolved (sample_candidate 1)" 1 "sample_env 4"]
      sample_lookups sample_pinging_ok ip e sample_tick by auto
  have reach: "ice_reachable ?a" by (rule ice_reachable.step [OF sample_reachable]) (simp add: input_ok_def)
  have c: "core ?a = core sample_pinging" unfolding sample_tick by simp
  have ok: "input_ok (Datagram 0 raw2 ?src) ?a" using core_fields(16) [OF c] sample_pinging_ok(1) by (simp add: input_ok_def endpoint_ok_def)
  moreover have "0 \<notin> succeeded ?a" using core_inv [OF c] by (simp add: succeeded_def sample_pinging_eq(1) pair_def)
  ultimately have "succeeded (ice_step (sample_env 4) (Datagram 0 raw2 ?src) ?a) \<noteq> succeeded ?a" using raw2 by blast
  from pair_succeeds_authentically [OF reach ok this] reach show ?thesis by blast
qed

end
