(* ===== verification/Ice_Limits.thy ===== *)
theory Ice_Limits
  imports Ice_Check
begin

text \<open>
  Bounds of the ICE agent: how often a pair is checked, what datagrams without valid credentials can do, and when an agent gives
  up checking.
\<close>

section \<open>Rounds of checks\<close>

text \<open>What a round of checks does to one pair.\<close>

definition ping_pair :: "u16 \<Rightarrow> candidate_pair \<Rightarrow> candidate_pair" where
  "ping_pair mx x =
     (if cp_state x \<noteq> PS_Waiting \<and> cp_state x \<noteq> PS_InProgress then x
      else if cp_count x > mx then x\<lparr>cp_state := PS_Failed\<rparr>
      else x\<lparr>cp_state := PS_InProgress, cp_count := cp_count x + 1\<rparr>)"

lemma ping_step_pair:
  assumes "p < length (ag_pairs a)"
  shows "pair (fst (ping_step q (a, out))) p = (if p = q then ping_pair (ag_max_requests a) (pair a p) else pair a p)"
    and "length (ag_pairs (fst (ping_step q (a, out)))) = length (ag_pairs a)" and "ag_max_requests (fst (ping_step q (a, out))) = ag_max_requests a"
    and "ag_checklist (fst (ping_step q (a, out))) = ag_checklist a"
  using assms by (auto simp: ping_step_def ping_pair_def Let_def pair_upd_pair)

lemma ping_steps_pair:
  assumes "p < length (ag_pairs a)" and "distinct ps"
  shows "pair (fst (fold ping_step ps (a, out))) p = (if p \<in> set ps then ping_pair (ag_max_requests a) (pair a p) else pair a p) \<and>
    length (ag_pairs (fst (fold ping_step ps (a, out)))) = length (ag_pairs a) \<and> ag_max_requests (fst (fold ping_step ps (a, out))) = ag_max_requests a \<and>
    ag_checklist (fst (fold ping_step ps (a, out))) = ag_checklist a"
  using assms
proof (induction ps arbitrary: a out)
  case (Cons q ps)
  obtain b o2 where b: "ping_step q (a, out) = (b, o2)" by (cases "ping_step q (a, out)")
  note s = ping_step_pair [OF Cons.prems(1), of q out, unfolded b fst_conv]
  have "p < length (ag_pairs b)" "distinct ps" using s(2) Cons.prems by simp_all
  from Cons.IH [OF this, of o2] s Cons.prems(2) b show ?case by auto
qed simp

lemma ping_all_pair:
  assumes "p < length (ag_pairs a)" and "distinct (ag_checklist a)" and "p \<in> set (ag_checklist a)"
  shows "pair (ping_all_candidates env a) p = ping_pair (ag_max_requests a) (pair a p) \<and>
    length (ag_pairs (ping_all_candidates env a)) = length (ag_pairs a) \<and> ag_max_requests (ping_all_candidates env a) = ag_max_requests a \<and>
    ag_checklist (ping_all_candidates env a) = ag_checklist a"
proof -
  obtain b ps where b: "fold ping_step (ag_checklist a) (a, []) = (b, ps)" by (cases "fold ping_step (ag_checklist a) (a, [])")
  have c: "core (ping_all_candidates env a) = core b" by (simp add: ping_all_candidates_def b)
  have "pair (ping_all_candidates env a) = pair b" using core_fields(1) [OF c] by (simp add: pair_def fun_eq_iff)
  with ping_steps_pair [OF assms(1,2), of "[]"] b assms(3) core_fields(1,2,9) [OF c] show ?thesis by auto
qed

lemma ping_pair_rounds:
  assumes "unat mx < 65535" and "cp_state x = PS_Waiting" and "cp_count x = 0"
  shows "(ping_pair mx ^^ n) x = x\<lparr>cp_state := (if n = 0 then PS_Waiting else if n \<le> unat mx + 1 then PS_InProgress else PS_Failed),
    cp_count := of_nat (min n (unat mx + 1))\<rparr>"
proof (induction n)
  case 0
  show ?case using assms(2,3) by simp
next
  case (Suc n)
  have u: "unat (of_nat k :: u16) = k" if "k \<le> unat mx + 1" for k using that assms(1) by (simp add: unsigned_of_nat take_bit_nat_eq_self_iff)
  show ?case
  proof (cases "n \<le> unat mx")
    case True
    then have "\<not> mx < (of_nat n :: u16)" using u [of n] by (simp add: word_less_nat_alt)
    with True Suc show ?thesis by (simp add: ping_pair_def min_def)
  next
    case False
    define k where "k = unat mx + 1"
    have lt: "mx < (of_nat k :: u16)" using u [of k] unfolding word_less_nat_alt k_def by simp
    have "k \<le> n" using False by (simp add: k_def)
    then have "min n k = k" "min (Suc n) k = k" "n \<noteq> 0" "\<not> Suc n \<le> k" using k_def by simp_all
    with lt Suc show ?thesis unfolding k_def [symmetric] by (simp add: ping_pair_def)
  qed
qed



section \<open>Datagrams without credentials\<close>

definition credentials_ok :: "ice_env \<Rightarrow> ice_agent \<Rightarrow> bytes \<Rightarrow> bool" where
  "credentials_ok env a buf \<longleftrightarrow>
     (\<exists>m. msg_decode (stun_message_new\<lparr>sm_raw := buf\<rparr>) = (Ok (), m) \<and>
       (mt_class (sm_typ m) = CLASS_SUCCESS_RESPONSE \<and> fst (integrity_check (ev_hmac env) (ag_remote_pwd a) m) = Ok () \<or>
        mt_class (sm_typ m) = CLASS_REQUEST \<and> msg_get ATTR_USERNAME m = Ok (ag_local_ufrag a @ ascii '':'' @ ag_remote_ufrag a) \<and>
        fst (integrity_check (ev_hmac env) (ag_local_pwd a) m) = Ok ()))"

text \<open>Only the time of a remote candidate changes, and only for the one with the source address.\<close>

definition only_seen :: "ice_env \<Rightarrow> socket_addr \<Rightarrow> candidate list \<Rightarrow> candidate list \<Rightarrow> bool" where
  "only_seen env src cs cs' \<longleftrightarrow> cs' = cs \<or>
     (\<exists>r < length cs. cb_address (cs ! r) = show_ip (sa_ip src) \<and> cb_port (cs ! r) = sa_port src \<and> cs' = cs[r := (cs ! r)\<lparr>cb_last_received := ev_sys env\<rparr>])"

lemma seen_only:
  assumes "agent_inv a" and "find_remote_candidate nt src a = Some r"
  shows "\<exists>cs. seen_inbound env r a = a\<lparr>ag_cands := cs\<rparr> \<and> only_seen env src (ag_cands a) cs"
proof -
  have "r < length (ag_cands a)" by (rule found_remote [OF assms])
  moreover have "cb_address (cand a r) = show_ip (sa_ip src)" "cb_port (cand a r) = sa_port src"
    using assms(2) by (auto simp: find_remote_candidate_def find_Some_iff)
  ultimately show ?thesis
    by (intro exI [of _ "(ag_cands a)[r := (ag_cands a ! r)\<lparr>cb_last_received := ev_sys env\<rparr>]"])
      (auto simp: seen_inbound_def upd_cand_def cand_seen_def cand_def only_seen_def)
qed

lemma unauthenticated_inbound:
  assumes inv: "agent_inv a" and "msg_decode (stun_message_new\<lparr>sm_raw := buf\<rparr>) = (Ok (), m)" and "\<not> credentials_ok env a buf"
  shows "\<exists>cs. ice_handle_inbound env m c src a = a\<lparr>ag_cands := cs\<rparr> \<and> only_seen env src (ag_cands a) cs"
proof -
  have same: "\<exists>cs. a = a\<lparr>ag_cands := cs\<rparr> \<and> only_seen env src (ag_cands a) cs" by (rule exI [of _ "ag_cands a"]) (simp add: only_seen_def)
  have 1: "fst (assert_inbound_message_integrity env (ag_remote_pwd a) m) \<noteq> Ok ()" if "mt_class (sm_typ m) = CLASS_SUCCESS_RESPONSE"
    using assms(2,3) that by (auto simp: credentials_ok_def assert_inbound_message_integrity_def split: prod.splits outcome.splits)
  have 2: "assert_inbound_username (ag_local_ufrag a @ ascii '':'' @ ag_remote_ufrag a) m \<noteq> Ok () \<or>
    fst (assert_inbound_message_integrity env (ag_local_pwd a) m) \<noteq> Ok ()" if "mt_class (sm_typ m) = CLASS_REQUEST"
    using assms(2,3) that
    by (auto simp: credentials_ok_def assert_inbound_message_integrity_def assert_inbound_username_def text_get_from_as_def obind_eq_Ok
        split: prod.splits outcome.splits option.splits if_splits)
  show ?thesis
  proof (cases "\<not> inbound_ignored m a \<and> mt_class (sm_typ m) \<noteq> CLASS_SUCCESS_RESPONSE \<and> mt_class (sm_typ m) \<noteq> CLASS_REQUEST")
    case True
    with same seen_only [OF inv] show ?thesis by (auto simp: ice_handle_inbound_def split: option.split)
  next
    case False
    then have "ice_handle_inbound env m c src a = a" using 1 2
      by (auto simp: ice_handle_inbound_def Let_def split: outcome.splits prod.splits)
    with same show ?thesis by simp
  qed
qed



section \<open>A closed agent\<close>

text \<open>The flags that closing sets; no operation but closing and starting changes them.\<close>

definition flags :: "ice_agent \<Rightarrow> bool \<times> bool \<times> bool" where
  "flags a = (ag_done_tx a, ag_started_ch a, ag_done a)"

lemma flags_core:
  assumes "core a' = core a"
  shows "flags a' = flags a"
proof -
  from assms have s: "a'\<lparr>ag_cands := [], ag_pending := [], ag_txids := 0, ag_sent := []\<rparr> = a\<lparr>ag_cands := [], ag_pending := [], ag_txids := 0, ag_sent := []\<rparr>"
    by (simp add: core_def)
  show ?thesis using arg_cong [OF s, of flags] by (simp add: flags_def)
qed

lemma flags_simps [simp]:
  "flags (event e a) = flags a" "flags (upd_pair p f a) = flags a" "flags (upd_cand c g a) = flags a" "flags (add_pair l r a) = flags a"
  "flags (a\<lparr>ag_state := s\<rparr>) = flags a" "flags (a\<lparr>ag_local := m\<rparr>) = flags a" "flags (a\<lparr>ag_remote := m\<rparr>) = flags a" "flags (a\<lparr>ag_selected := o1\<rparr>) = flags a"
  "flags (a\<lparr>ag_nominated := o1\<rparr>) = flags a" "flags (a\<lparr>ag_connected_tx := x\<rparr>) = flags a" "flags (a\<lparr>ag_buffer := y\<rparr>) = flags a"
  "flags (a\<lparr>ag_cands := cs\<rparr>) = flags a" "flags (request_connectivity_check a) = flags a" "flags (start_candidate c a) = flags a" "flags (close_cand c a) = flags a"
  "flags (selector_start now a) = flags a" "flags (mark_succeeded p a) = flags a"
  by (simp_all add: flags_def event_def upd_pair_def upd_cand_def add_pair_def request_connectivity_check_def start_candidate_def close_cand_def
      selector_start_def mark_succeeded_def)

lemma flags_fold: "(\<And>x b. flags (f x b) = flags b) \<Longrightarrow> flags (fold f xs a) = flags a"
  by (induction xs arbitrary: a) simp_all

lemma flags_state [simp]: "flags (delete_all_candidates a) = flags a" "flags (update_connection_state s a) = flags a" "flags (set_selected_pair o1 a) = flags a"
proof -
  show d: "flags (delete_all_candidates a) = flags a" for a by (simp add: delete_all_candidates_def Let_def flags_fold)
  show u: "flags (update_connection_state s a) = flags a" for a s by (simp add: update_connection_state_def d)
  show "flags (set_selected_pair o1 a) = flags a" by (simp add: set_selected_pair_def u split: option.split)
qed

lemma flags_traffic [simp]:
  "flags (nominate_pair env a) = flags a" "flags (ping_candidate env l r a) = flags a" "flags (send_binding_success env m l r a) = flags a"
  "flags (check_keepalive env a) = flags a" "flags (seen_inbound env c a) = flags a" "flags (snd (write_to env raw l r a)) = flags a"
  by (rule flags_core, simp)+

lemma flags_ping_all [simp]: "flags (ping_all_candidates env a) = flags a"
proof -
  have "flags (fst (ping_step p s)) = flags (fst s)" for p s by (simp add: ping_step_def Let_def split: prod.splits)
  then have "flags (fst (fold ping_step ps s)) = flags (fst s)" for ps s by (induction ps arbitrary: s) simp_all
  from this [of "ag_checklist a" "(a, [])"] show ?thesis
    by (auto simp: ping_all_candidates_def flags_fold split: prod.splits)
qed

lemma flags_contact: "flags (snd (contact env t a)) = flags a"
proof -
  have v: "flags (snd (validate_selected_pair env b)) = flags b" for b by (simp add: validate_selected_pair_def Let_def split: option.split)
  have k: "flags (case validate_selected_pair env b of (v, c) \<Rightarrow> if v then check_keepalive env c else c) = flags b" for b
    using v [of b] by (cases "validate_selected_pair env b") simp
  have "flags (contact_candidates env a) = flags a"
    using v k by (simp add: contact_candidates_def contact_controlling_def contact_controlled_def split: option.split)
  then show ?thesis by (simp add: contact_def Let_def split: prod.splits)
qed

lemma flags_request: "flags (handle_binding_request env m l r a) = flags a"
  by (simp add: handle_binding_request_def binding_request_controlling_def binding_request_controlled_def Let_def split: option.split)

lemma flags_response: "flags (handle_success_response env m l r src a) = flags a"
  using flags_core [OF core_binding_success [of env "sm_transaction_id m" a]]
  by (auto simp: handle_success_response_def split: prod.splits option.splits)

lemma flags_inbound: "flags (handle_inbound_candidate_msg env c buf src a) = flags a"
proof -
  have "flags (ice_handle_inbound env m c src a) = flags a" for m
    by (simp add: ice_handle_inbound_def Let_def flags_request flags_response split: option.split outcome.split prod.split)
  then show ?thesis
    by (simp add: handle_inbound_candidate_msg_def validate_non_stun_traffic_def split: prod.split outcome.split option.split bool.split)
qed

lemma flags_conn_send: "flags (snd (conn_send env buf a)) = flags a"
proof -
  have "flags (snd (case write_to env buf l r a of (Ok n, a1) \<Rightarrow> (Ok n, a1) | (_, a1) \<Rightarrow> (Err IErr_Io, a1))) = flags a" for l r
    using flags_traffic(6) [of env buf l r a] by (cases "write_to env buf l r a") (simp split: outcome.split)
  then show ?thesis by (simp add: conn_send_def Let_def split: option.split)
qed

lemma closed_stays:
  assumes "flags a = (False, False, True)"
  shows "flags (ice_step env i a) = (False, False, True)"
proof (cases i)
  case (AddRemote mode c)
  then show ?thesis using assms by (simp add: agent_add_remote_candidate_def alloc_cand_def add_remote_candidate_def Let_def flags_fold)
next
  case (AddLocal c)
  then show ?thesis using assms by (simp add: alloc_cand_def add_candidate_def Let_def flags_fold)
next
  case (Restart ru rp u w)
  then show ?thesis using assms by (simp add: restart_def Let_def flags_def)
next
  case (Start ctl u w)
  then show ?thesis using assms by (simp add: start_connectivity_checks_def flags_def)
next
  case Close
  then show ?thesis using assms by (simp add: agent_close_def flags_def)
qed (use assms in \<open>simp_all add: flags_contact flags_inbound flags_conn_send\<close>)

lemma fold_close_fields:
  "ag_local (fold close_cand cs a) = ag_local a" "ag_remote (fold close_cand cs a) = ag_remote a"
  by (induction cs arbitrary: a) (simp_all add: close_cand_def upd_cand_def)

lemma delete_all_lists: "ag_local (delete_all_candidates a) = []" "ag_remote (delete_all_candidates a) = []"
  by (simp_all add: delete_all_candidates_def Let_def fold_close_fields)

lemma agent_close_closes:
  assumes "agent_close a = (Ok (), b)"
  shows "ag_local b = [] \<and> ag_remote b = [] \<and> ag_state b = CS_Closed \<and> flags b = (False, False, True)"
proof -
  define d where "d = delete_all_candidates (a\<lparr>ag_done_tx := False\<rparr>)"
  have d: "ag_local d = []" "ag_remote d = []" "\<not> ag_done_tx d"
    using flags_state(1) [of "a\<lparr>ag_done_tx := False\<rparr>"] by (simp_all add: d_def delete_all_lists flags_def)
  define e where "e = update_connection_state CS_Closed (d\<lparr>ag_started_ch := False, ag_buffer := buffer_close (ag_buffer d)\<rparr>)"
  have e: "ag_local e = []" "ag_remote e = []" "ag_state e = CS_Closed" "flags e = (False, False, ag_done d)"
    using d by (simp_all add: e_def update_connection_state_def event_def flags_def)
  have "b = e\<lparr>ag_chan := False, ag_done := True\<rparr>"
    using assms by (auto simp: agent_close_def Let_def d_def e_def split: if_splits)
  with e show ?thesis by (simp add: flags_def)
qed

text \<open>
  C18. A closed agent stays closed and refuses every call. Closing releases the candidates of both sides; afterwards, whatever
  datagrams, rounds and calls follow, closing, starting, restarting, sending and receiving fail with their errors and leave the agent as
  it is, but for the gathering state, which a refused restart resets.
\<close>

theorem closed_agent_refuses:
  assumes "agent_close a = (Ok (), b)" and "c = fold (\<lambda>(env, i). ice_step env i) steps b"
  shows "ag_local b = [] \<and> ag_remote b = [] \<and> ag_state b = CS_Closed \<and>
    agent_close c = (Err IErr_Closed, c) \<and> start_connectivity_checks env controlling ufrag pwd c = (Err ErrMultipleStart, c) \<and>
    conn_send env buf c = (Err IErr_Io, c) \<and> conn_recv buf c = (Some (Err IErr_Io), buf, c) \<and>
    (\<exists>e g. restart env ru rp ufrag pwd c = (Err e, c\<lparr>ag_gathering := g\<rparr>))"
proof -
  have b: "ag_local b = [] \<and> ag_remote b = [] \<and> ag_state b = CS_Closed \<and> flags b = (False, False, True)"
    by (rule agent_close_closes [OF assms(1)])
  then have "flags b = (False, False, True)" by blast
  then have "flags (fold (\<lambda>(env, i). ice_step env i) steps b) = (False, False, True)"
    by (induction steps arbitrary: b) (auto simp: closed_stays)
  then have "\<not> ag_done_tx c" "\<not> ag_started_ch c" "ag_done c" by (simp_all add: assms(2) flags_def)
  moreover have "\<exists>g. c = c\<lparr>ag_gathering := g\<rparr>" by (rule exI [of _ "ag_gathering c"]) simp
  ultimately show ?thesis using b
    by (auto simp: agent_close_def start_connectivity_checks_def conn_send_def conn_recv_def restart_def Let_def)
qed

theorem closed_agent_refuses_witness:
  "fst (agent_close (sample_agent True 1 2)) = Ok () \<and>
   fst (agent_close (ice_step (sample_env 2) (Start True [1] [2]) (snd (agent_close (sample_agent True 1 2))))) = Err IErr_Closed"
proof -
  have t: "ag_done_tx (sample_agent True 1 2)" by (simp add: sample_defs sample_env_def)
  then have "agent_close (sample_agent True 1 2) = (Ok (), snd (agent_close (sample_agent True 1 2)))"
    by (simp add: agent_close_def Let_def)
  from closed_agent_refuses [OF this refl, where steps = "[(sample_env 2, Start True [1] [2])]"] t show ?thesis
    by (simp add: agent_close_def Let_def)
qed

end
