(* ===== verification/Data_Channel.thy ===== *)
theory Data_Channel
  imports Sctp_Outbound
begin

text \<open>
  Data channels (\<^verbatim>\<open>webrtc/data_channel/\<close>): the messages of the establishment protocol, a channel over an SCTP stream
  with its writing and reading side, and \<^verbatim>\<open>RTCDataChannel\<close> with its ready state and its handlers. The last section composes the
  channel with fragmentation and reassembly: what one side writes the other side reads.
\<close>

section \<open>Establishment messages (\<^verbatim>\<open>internal/message/\<close>)\<close>

datatype dc_error = UnexpectedEndOfBuffer nat nat | InvalidMessageType u8 | DCErr_Util dc_util_error | DCErr_Sctp error
and dc_util_error = Util_Std dc_error | Util_Other

type_synonym 'a dc_result = "(dc_error, 'a) outcome"
type_synonym 'a dcu_result = "(dc_util_error, 'a) outcome"

datatype dc_message_type = DataChannelAckType | DataChannelOpenType

record data_channel_open =
  open_label :: bytes
  open_protocol :: bytes

datatype dc_message = DataChannelAck | DataChannelOpen data_channel_open

definition MESSAGE_TYPE_ACK :: u8 where "MESSAGE_TYPE_ACK = 0x02"
definition MESSAGE_TYPE_OPEN :: u8 where "MESSAGE_TYPE_OPEN = 0x03"
definition MESSAGE_TYPE_LEN :: nat where "MESSAGE_TYPE_LEN = 1"
definition CHANNEL_OPEN_HEADER_LEN :: nat where "CHANNEL_OPEN_HEADER_LEN = 11"

definition type_marshal_to :: "dc_message_type \<Rightarrow> bytes \<Rightarrow> (nat \<times> bytes) dcu_result" where
  "type_marshal_to t buf =
     (let b = (case t of DataChannelAckType \<Rightarrow> MESSAGE_TYPE_ACK | DataChannelOpenType \<Rightarrow> MESSAGE_TYPE_OPEN)
      in if buf = [] then Panic else Ok (1, b # tl buf))"

definition type_unmarshal :: "bytes \<Rightarrow> dc_message_type dcu_result" where
  "type_unmarshal buf =
     (if length buf < MESSAGE_TYPE_LEN then Err (Util_Std (UnexpectedEndOfBuffer MESSAGE_TYPE_LEN (length buf)))
      else if hd buf = MESSAGE_TYPE_ACK then Ok DataChannelAckType
      else if hd buf = MESSAGE_TYPE_OPEN then Ok DataChannelOpenType
      else Err (Util_Std (InvalidMessageType (hd buf))))"

definition open_marshal_size :: "data_channel_open \<Rightarrow> nat" where
  "open_marshal_size m = CHANNEL_OPEN_HEADER_LEN + length (open_label m) + length (open_protocol m)"

text \<open>The lengths are cut to 16 bits by \<^verbatim>\<open>as u16\<close>. The buffer keeps its bytes beyond what is put.\<close>

definition open_marshal_to :: "data_channel_open \<Rightarrow> bytes \<Rightarrow> (nat \<times> bytes) dcu_result" where
  "open_marshal_to m buf =
     (let required_len = open_marshal_size m in
      if length buf < required_len then Err (Util_Std (UnexpectedEndOfBuffer required_len (length buf)))
      else
        let out = put_u16 (of_nat (length (open_label m))) @ put_u16 (of_nat (length (open_protocol m))) @ open_label m @ open_protocol m
        in Ok (open_marshal_size m, out @ drop (length out) buf))"

definition open_unmarshal :: "bytes \<Rightarrow> data_channel_open dcu_result" where
  "open_unmarshal buf =
     (if length buf < CHANNEL_OPEN_HEADER_LEN then Err (Util_Std (UnexpectedEndOfBuffer CHANNEL_OPEN_HEADER_LEN (length buf)))
      else
        obind (get_u16 buf) (\<lambda>(label_len, rest). obind (get_u16 rest) (\<lambda>(protocol_len, rest).
          let label_len = unat label_len; protocol_len = unat protocol_len; required_len = label_len + protocol_len
          in if length rest < required_len then Err (Util_Std (UnexpectedEndOfBuffer required_len (length rest)))
             else Ok \<lparr>open_label = take label_len rest, open_protocol = take protocol_len (drop label_len rest)\<rparr>)))"

fun message_marshal_size :: "dc_message \<Rightarrow> nat" where
  "message_marshal_size DataChannelAck = 0 + MESSAGE_TYPE_LEN"
| "message_marshal_size (DataChannelOpen m) = open_marshal_size m + MESSAGE_TYPE_LEN"

fun dc_message_type_of :: "dc_message \<Rightarrow> dc_message_type" where
  "dc_message_type_of DataChannelAck = DataChannelAckType"
| "dc_message_type_of (DataChannelOpen _) = DataChannelOpenType"

definition dcep_marshal_to :: "dc_message \<Rightarrow> bytes \<Rightarrow> (nat \<times> bytes) dcu_result" where
  "dcep_marshal_to m buf =
     obind (type_marshal_to (dc_message_type_of m) buf) (\<lambda>(n, buf).
       case m of
         DataChannelAck \<Rightarrow> Ok (n + 0, buf)
       | DataChannelOpen om \<Rightarrow> obind (open_marshal_to om (drop n buf)) (\<lambda>(k, rest). Ok (n + k, take n buf @ rest)))"

text \<open>\<^verbatim>\<open>Marshal::marshal\<close>: into a buffer of zeros of the announced size.\<close>

definition dcep_marshal :: "dc_message \<Rightarrow> bytes dcu_result" where
  "dcep_marshal m =
     (let l = message_marshal_size m in
      obind (dcep_marshal_to m (replicate l 0)) (\<lambda>(n, buf). if n \<noteq> l then Err Util_Other else Ok buf))"

definition dcep_unmarshal :: "bytes \<Rightarrow> dc_message dcu_result" where
  "dcep_unmarshal buf =
     (if length buf < MESSAGE_TYPE_LEN then Err (Util_Std (UnexpectedEndOfBuffer MESSAGE_TYPE_LEN (length buf)))
      else obind (type_unmarshal buf) (\<lambda>t. case t of DataChannelAckType \<Rightarrow> Ok DataChannelAck | DataChannelOpenType \<Rightarrow> Panic))"

section \<open>The channel (\<^verbatim>\<open>internal/data_channel.rs\<close>)\<close>

definition handle_dcep :: "bytes \<Rightarrow> unit dc_result" where
  "handle_dcep data =
     (case dcep_unmarshal data of
        Ok m \<Rightarrow> (case m of DataChannelAck \<Rightarrow> Ok () | _ \<Rightarrow> Panic)
      | Err e \<Rightarrow> Err (DCErr_Util e)
      | Panic \<Rightarrow> Panic)"

definition dc_write_sctp :: "nat \<Rightarrow> bytes \<Rightarrow> payload_protocol_identifier \<Rightarrow> shared \<times> stream \<Rightarrow> (nat dc_result \<times> shared \<times> stream) option" where
  "dc_write_sctp now p ppi st =
     map_option (\<lambda>(r, st'). (case r of Ok n \<Rightarrow> Ok n | Err e \<Rightarrow> Err (DCErr_Sctp e) | Panic \<Rightarrow> Panic, st')) (write_sctp now p ppi st)"

definition write_ppi :: "bool \<Rightarrow> nat \<Rightarrow> payload_protocol_identifier" where
  "write_ppi is_string data_len =
     (if \<not> is_string then (if data_len = 0 then BinaryEmpty else Binary) else (if data_len = 0 then StringEmpty else PPI_String))"

definition write_data_channel :: "nat \<Rightarrow> bytes \<Rightarrow> bool \<Rightarrow> shared \<times> stream \<Rightarrow> (nat dc_result \<times> shared \<times> stream) option" where
  "write_data_channel now data is_string st =
     (let ppi = write_ppi is_string (length data) in
      if length data = 0
      then map_option (\<lambda>(r, st'). (obind r (\<lambda>_. Ok 0), st')) (dc_write_sctp now [0] ppi st)
      else dc_write_sctp now data ppi st)"

definition dc_write :: "nat \<Rightarrow> bytes \<Rightarrow> shared \<times> stream \<Rightarrow> (nat dc_result \<times> shared \<times> stream) option" where
  "dc_write now data = write_data_channel now data False"

text \<open>
  The loop of \<^verbatim>\<open>read_data_channel\<close> around the reader of the stream: \<open>DC_Reading\<close> carries the state of \<^verbatim>\<open>read_sctp\<close>. A message of the
  establishment protocol is handled and the loop goes on; an error closes the stream.
\<close>

datatype dc_reader = DC_Reading reader | DC_Done "(nat \<times> bool) dc_result"

definition read_result :: "nat \<Rightarrow> payload_protocol_identifier \<Rightarrow> nat \<times> bool" where
  "read_result n ppi = (if ppi = StringEmpty \<or> ppi = BinaryEmpty then 0 else n, ppi = PPI_String \<or> ppi = StringEmpty)"

fun dc_read_step :: "nat \<Rightarrow> shared \<times> stream \<times> bytes \<times> dc_reader \<Rightarrow> (shared \<times> stream \<times> bytes \<times> dc_reader) option" where
  "dc_read_step now (h, s, buf, DC_Reading (R_Done (Ok (n, ppi)))) =
     (if ppi = Dcep
      then Some (h, s, buf, case handle_dcep (take n buf) of Panic \<Rightarrow> DC_Done Panic | _ \<Rightarrow> DC_Reading R_Check)
      else Some (h, s, buf, DC_Done (Ok (read_result n ppi))))"
| "dc_read_step now (h, s, buf, DC_Reading (R_Done (Err e))) =
     (case stream_close now (h, s) of
        (Ok _, h, s) \<Rightarrow> Some (h, s, buf, DC_Done (Err (DCErr_Sctp e)))
      | (Err e', h, s) \<Rightarrow> Some (h, s, buf, DC_Done (Err (DCErr_Sctp e')))
      | (Panic, h, s) \<Rightarrow> Some (h, s, buf, DC_Done Panic))"
| "dc_read_step now (h, s, buf, DC_Reading (R_Done Panic)) = Some (h, s, buf, DC_Done Panic)"
| "dc_read_step now (h, s, buf, DC_Reading rd) =
     map_option (\<lambda>(s, buf, rd). (h, s, buf, DC_Reading rd)) (read_sctp_step (s, buf, rd))"
| "dc_read_step now (h, s, buf, DC_Done r) = None"

record dc_config =
  config_label :: bytes
  config_protocol :: bytes

definition dc_client :: "nat \<Rightarrow> dc_config \<Rightarrow> u16 \<Rightarrow> association \<Rightarrow> (unit dc_result \<times> association) option" where
  "dc_client now cfg si a =
     (case dcep_marshal (DataChannelOpen \<lparr>open_label = config_label cfg, open_protocol = config_protocol cfg\<rparr>) of
        Ok msg \<Rightarrow>
          map_option (\<lambda>(r, a'). (case r of Ok _ \<Rightarrow> Ok () | Err e \<Rightarrow> Err (DCErr_Sctp e) | Panic \<Rightarrow> Panic, a')) (user_write now si msg Dcep a)
      | Err e \<Rightarrow> Some (Err (DCErr_Util e), a)
      | Panic \<Rightarrow> Some (Panic, a))"

definition dc_dial :: "nat \<Rightarrow> u16 \<Rightarrow> dc_config \<Rightarrow> association \<Rightarrow> (unit dc_result \<times> association) option" where
  "dc_dial now identifier cfg a =
     (case open_stream identifier a of
        (Ok _, a) \<Rightarrow> dc_client now cfg identifier a
      | (Err e, a) \<Rightarrow> Some (Err (DCErr_Sctp e), a)
      | (Panic, a) \<Rightarrow> Some (Panic, a))"

section \<open>\<^verbatim>\<open>RTCDataChannel\<close>\<close>

datatype data_channel_state = DCS_Unspecified | DCS_Connecting | DCS_Open | DCS_Closing | DCS_Closed

definition data_channel_state_from :: "u8 \<Rightarrow> data_channel_state" where
  "data_channel_state_from v =
     (if v = 1 then DCS_Connecting else if v = 2 then DCS_Open else if v = 3 then DCS_Closing else if v = 4 then DCS_Closed else DCS_Unspecified)"

fun data_channel_state_as :: "data_channel_state \<Rightarrow> u8" where
  "data_channel_state_as DCS_Unspecified = 0"
| "data_channel_state_as DCS_Connecting = 1"
| "data_channel_state_as DCS_Open = 2"
| "data_channel_state_as DCS_Closing = 3"
| "data_channel_state_as DCS_Closed = 4"

text \<open>
  A handler is a number; \<open>rdc_opened\<close> lists the handlers of \<^verbatim>\<open>on_open\<close> that ran. The low-threshold callback of the stream is
  \<open>low_handler\<close> of the stream. The task \<^verbatim>\<open>do_open\<close> spawns is part of the step.
\<close>

record rtc_data_channel =
  rdc_label :: bytes
  rdc_protocol :: bytes
  rdc_ready :: u8
  rdc_threshold :: nat
  rdc_detached :: bool
  rdc_on_open :: "nat option"
  rdc_low :: bool
  rdc_transport :: bool
  rdc_channel :: "u16 option"
  rdc_opened :: "nat list"

datatype rtc_error = ErrSCTPNotEstablished | ErrDetachBeforeOpened | ErrDataChannel dc_error

definition rtc_data_channel_new :: "bytes \<Rightarrow> bytes \<Rightarrow> rtc_data_channel" where
  "rtc_data_channel_new label protocol = \<lparr>rdc_label = label, rdc_protocol = protocol, rdc_ready = data_channel_state_as DCS_Connecting,
     rdc_threshold = 0, rdc_detached = False, rdc_on_open = None, rdc_low = False, rdc_transport = False, rdc_channel = None, rdc_opened = []\<rparr>"

definition ready_state :: "rtc_data_channel \<Rightarrow> data_channel_state" where
  "ready_state d = data_channel_state_from (rdc_ready d)"

definition set_ready_state :: "data_channel_state \<Rightarrow> rtc_data_channel \<Rightarrow> rtc_data_channel" where
  "set_ready_state r d = d\<lparr>rdc_ready := data_channel_state_as r\<rparr>"

definition do_open :: "rtc_data_channel \<Rightarrow> rtc_data_channel" where
  "do_open d = (case rdc_on_open d of Some f \<Rightarrow> d\<lparr>rdc_on_open := None, rdc_opened := rdc_opened d @ [f]\<rparr> | None \<Rightarrow> d)"

definition rtc_on_open :: "nat \<Rightarrow> rtc_data_channel \<Rightarrow> rtc_data_channel" where
  "rtc_on_open f d =
     (let d1 = d\<lparr>rdc_on_open := Some f\<rparr> in if ready_state d1 = DCS_Open then do_open d1 else d1)"

definition handle_open :: "u16 \<Rightarrow> rtc_data_channel \<Rightarrow> rtc_data_channel" where
  "handle_open dc d = do_open (set_ready_state DCS_Open (d\<lparr>rdc_channel := Some dc\<rparr>))"

text \<open>The threshold and the callback, which may have been set before, are handed to the stream of the new channel.\<close>

definition configure_stream :: "rtc_data_channel \<Rightarrow> u16 \<Rightarrow> association \<Rightarrow> association" where
  "configure_stream d si a =
     (case hm_get (streams a) si of
        None \<Rightarrow> a
      | Some s \<Rightarrow>
          let s1 = set_buffered_amount_low_threshold (rdc_threshold d) s;
              s2 = (if rdc_low d then set_on_buffered_amount_low s1 else s1)
          in a\<lparr>streams := hm_insert si s2 (streams a)\<rparr>)"

definition rtc_open :: "nat \<Rightarrow> association option \<Rightarrow> rtc_data_channel \<Rightarrow> ((rtc_error, unit) outcome \<times> association option \<times> rtc_data_channel) option" where
  "rtc_open now assoc d =
     (case assoc of
        None \<Rightarrow> Some (Err ErrSCTPNotEstablished, None, d)
      | Some a \<Rightarrow>
          if rdc_transport d then Some (Ok (), Some a, d)
          else
            let d1 = d\<lparr>rdc_transport := True\<rparr> in
            map_option (\<lambda>(r, a1).
                case r of
                  Ok _ \<Rightarrow> (Ok (), Some (configure_stream d1 0 a1), handle_open 0 (d1\<lparr>rdc_low := False\<rparr>))
                | Err e \<Rightarrow> (Err (ErrDataChannel e), Some a1, d1)
                | Panic \<Rightarrow> (Panic, Some a1, d1))
              (dc_dial now 0 \<lparr>config_label = rdc_label d, config_protocol = rdc_protocol d\<rparr> a))"

definition rtc_detach :: "rtc_data_channel \<Rightarrow> (rtc_error, u16) outcome \<times> rtc_data_channel" where
  "rtc_detach d = (case rdc_channel d of Some dc \<Rightarrow> (Ok dc, d\<lparr>rdc_detached := True\<rparr>) | None \<Rightarrow> (Err ErrDetachBeforeOpened, d))"

section \<open>Establishment messages: what is sent\<close>

lemma data_channel_state_from_as [simp]: "data_channel_state_from (data_channel_state_as s) = s"
  by (cases s) (simp_all add: data_channel_state_from_def)

text \<open>The bytes of an OPEN message: the type, the lengths, label and protocol, and seven zero bytes at the end.\<close>

lemma dcep_marshal_open:
  "dcep_marshal (DataChannelOpen m) = Ok (MESSAGE_TYPE_OPEN # put_u16 (of_nat (length (open_label m))) @
     put_u16 (of_nat (length (open_protocol m))) @ open_label m @ open_protocol m @ replicate 7 0)"
proof -
  have "replicate (open_marshal_size m + 1) (0 :: u8) = 0 # replicate (open_marshal_size m) 0" by simp
  then show ?thesis
    by (simp add: dcep_marshal_def dcep_marshal_to_def type_marshal_to_def open_marshal_to_def Let_def MESSAGE_TYPE_LEN_def)
      (simp add: open_marshal_size_def CHANNEL_OPEN_HEADER_LEN_def put_u16_def)
qed

section \<open>From one channel to the other\<close>

text \<open>The fragments of a message with the TSNs the sender gives them when they go into flight.\<close>

definition numbered :: "u32 \<Rightarrow> chunk_payload_data list \<Rightarrow> chunk_payload_data list" where
  "numbered t cs = map (\<lambda>i. (cs ! i)\<lparr>tsn := t + of_nat i\<rparr>) [0..<length cs]"

lemma message_tail_nth:
  "message_tail t cs \<longleftrightarrow> cs \<noteq> [] \<and> (\<forall>i < length cs. tsn (cs ! i) = t + of_nat (Suc i) \<and> \<not> beginning_fragment (cs ! i) \<and>
     (ending_fragment (cs ! i) \<longleftrightarrow> Suc i = length cs))"
proof (induction cs arbitrary: t)
  case (Cons c cs)
  show ?case by (cases "cs = []") (auto simp: All_less_Suc2 Cons.IH add.assoc)
qed simp

lemma forms_message_nth:
  "forms_message m \<longleftrightarrow> m \<noteq> [] \<and> (\<forall>i < length m. tsn (m ! i) = tsn (m ! 0) + of_nat i \<and> (beginning_fragment (m ! i) \<longleftrightarrow> i = 0) \<and>
     (ending_fragment (m ! i) \<longleftrightarrow> Suc i = length m))"
proof (cases m)
  case (Cons c cs)
  then show ?thesis by (cases "cs = []") (auto simp: All_less_Suc2 message_tail_nth add.assoc)
qed simp

text \<open>Among the fragments of a message no part forms a message.\<close>

lemma part_of_message:
  assumes "forms_message fs" and "forms_message m" and "mset m \<subseteq># mset fs" and "length fs \<le> 2 ^ 31"
  shows "m = fs"
proof -
  have at: "\<exists>j < length fs. m ! i = fs ! j" if "i < length m" for i
  proof -
    have "m ! i \<in> set fs" using nth_mem [OF that] set_mset_mono [OF assms(3)] by auto
    then show ?thesis by (metis in_set_conv_nth)
  qed
  have len: "length m \<le> length fs" using size_mset_mono [OF assms(3)] by simp
  have m: "m \<noteq> []" "\<forall>i < length m. tsn (m ! i) = tsn (m ! 0) + of_nat i \<and> (beginning_fragment (m ! i) \<longleftrightarrow> i = 0) \<and>
      (ending_fragment (m ! i) \<longleftrightarrow> Suc i = length m)" using assms(2) unfolding forms_message_nth by blast+
  have f: "\<forall>i < length fs. tsn (fs ! i) = tsn (fs ! 0) + of_nat i \<and> (beginning_fragment (fs ! i) \<longleftrightarrow> i = 0) \<and>
      (ending_fragment (fs ! i) \<longleftrightarrow> Suc i = length fs)" using assms(1) unfolding forms_message_nth by blast
  have pos: "0 < length m" using m(1) by simp
  obtain j where "j < length fs" "m ! 0 = fs ! j" using at [OF pos] by blast
  with f m(2) pos have z: "m ! 0 = fs ! 0" by metis
  have same: "m ! i = fs ! i" if i: "i < length m" for i
  proof -
    obtain j where j: "j < length fs" "m ! i = fs ! j" using at [OF i] by blast
    have "tsn (fs ! 0) + of_nat i = tsn (fs ! 0) + of_nat j" using m(2) f i j z by metis
    then have "(of_nat i :: u32) = of_nat j" by simp
    then have "i mod 2 ^ LENGTH(32) = j mod 2 ^ LENGTH(32)" by (metis unat_of_nat)
    then show ?thesis using i j len assms(4) by simp
  qed
  have l: "length m - 1 < length m" using pos by simp
  then have "ending_fragment (m ! (length m - 1))" using m(2) by simp
  then have "ending_fragment (fs ! (length m - 1))" using same [OF l] by simp
  then have "Suc (length m - 1) = length fs" using f l len by simp
  then have "length m = length fs" using pos by simp
  with same show ?thesis by (intro nth_equalityI) auto
qed

lemma sort_message:
  assumes "forms_message fs" and "length fs \<le> 2 ^ 31" and "mset ds = mset fs"
  shows "sort_chunks_by_tsn ds = fs"
proof -
  define b where "b = tsn (fs ! 0)"
  have d: "tsn_dist b (fs ! i) = i" if "i < length fs" for i
  proof -
    have "tsn (fs ! i) = b + of_nat i" using that assms(1) unfolding forms_message_nth b_def by blast
    then show ?thesis using that assms(2) by (simp add: unat_of_nat)
  qed
  have "map (tsn_dist b) fs = [0..<length fs]" by (rule nth_equalityI) (simp_all add: d)
  then have "distinct (map (\<lambda>x. unat (x - b)) (map tsn fs))" using distinct_upt [of 0 "length fs"] by (simp only: map_map comp_def)
  then have dist: "distinct (map tsn fs)" unfolding distinct_map by (rule conjunct1)
  have ds: "set ds = set fs" "distinct (map tsn ds)"
    using dist mset_eq_setD [OF assms(3)] mset_eq_imp_distinct_iff [of "map tsn ds" "map tsn fs"] assms(3) by simp_all
  have "sort_chunks_by_tsn ds = sort_key (tsn_dist b) ds"
  proof (rule sort_chunks_by_tsn_key)
    show "\<forall>c \<in> set ds. tsn_dist b c < 2 ^ 31"
    proof
      fix c assume "c \<in> set ds"
      then obtain i where "i < length fs" "c = fs ! i" using ds(1) by (metis in_set_conv_nth)
      then show "tsn_dist b c < 2 ^ 31" using d [of i] assms(2) by simp
    qed
  qed (rule ds(2))
  also have "\<dots> = sort_key (tsn_dist b) fs"
    by (rule sort_key_mset_eq [OF assms(3) inj_tsn_dist [OF ds(2)]])
  also have "\<dots> = fs"
    by (intro sort_key_id_if_sorted) (simp add: sorted_iff_nth_mono d)
  finally show ?thesis .
qed

lemma push_completes:
  assumes "stream_identifier c = rq_si q" and "unordered c" and "rq_push c q = (True, q')"
  obtains s where "rq_unordered q' = rq_unordered q @ [s]" and "forms_message (cs_chunks s)"
    and "cs_ppi s = payload_type (hd (cs_chunks s))"
    and "mset (unordered_chunks q) + {#c#} = mset (cs_chunks s) + mset (unordered_chunks q')"
  using rq_push_unordered [OF assms(1,2)] that unfolding assms(3) by (simp only: prod.case bool.case) blast

lemma push_stores:
  assumes "stream_identifier c = rq_si q" and "unordered c" and "rq_push c q = (False, q')"
  shows "q' = q\<lparr>rq_n_bytes := rq_n_bytes q + length (user_data c), unordered_chunks := sort_chunks_by_tsn (unordered_chunks q @ [c])\<rparr> \<and>
    (\<nexists>a m b. unordered_chunks q' = a @ m @ b \<and> forms_message m)"
  using rq_push_unordered [OF assms(1,2)] unfolding assms(3) prod.case bool.case .

text \<open>A fragment that does not complete the message is stored; the last one hands over the message.\<close>

lemma push_part:
  assumes "forms_message fs" and "length fs \<le> 2 ^ 31" and "stream_identifier c = rq_si q" and "unordered c"
    and "add_mset c (mset (unordered_chunks q)) \<subset># mset fs"
  shows "\<exists>u. rq_push c q = (False, q\<lparr>rq_n_bytes := rq_n_bytes q + length (user_data c), unordered_chunks := u\<rparr>) \<and>
    mset u = add_mset c (mset (unordered_chunks q))"
proof (cases "rq_push c q")
  case (Pair ok q')
  show ?thesis
  proof (cases ok)
    case True
    with Pair have "rq_push c q = (True, q')" by simp
    then obtain s where "rq_unordered q' = rq_unordered q @ [s]" and "forms_message (cs_chunks s)" and "cs_ppi s = payload_type (hd (cs_chunks s))"
      and ms: "mset (unordered_chunks q) + {#c#} = mset (cs_chunks s) + mset (unordered_chunks q')" by (rule push_completes [OF assms(3,4)])
    have "add_mset c (mset (unordered_chunks q)) = mset (cs_chunks s) + mset (unordered_chunks q')"
      by (rule trans [OF add_mset_add_single ms])
    then have "mset (cs_chunks s) \<subseteq># add_mset c (mset (unordered_chunks q))" by (metis mset_subset_eq_add_left)
    then have lt: "mset (cs_chunks s) \<subset># mset fs" using assms(5) by (rule subset_mset.le_less_trans)
    have "cs_chunks s = fs"
      by (rule part_of_message [OF assms(1) \<open>forms_message (cs_chunks s)\<close> subset_mset.less_imp_le [OF lt] assms(2)])
    then have False using lt by (metis subset_mset.less_irrefl)
    then show ?thesis ..
  next
    case False
    with Pair have p: "rq_push c q = (False, q')" by simp
    let ?u = "sort_chunks_by_tsn (unordered_chunks q @ [c])"
    have "q' = q\<lparr>rq_n_bytes := rq_n_bytes q + length (user_data c), unordered_chunks := ?u\<rparr>"
      by (rule conjunct1 [OF push_stores [OF assms(3,4) p]])
    with p have "rq_push c q = (False, q\<lparr>rq_n_bytes := rq_n_bytes q + length (user_data c), unordered_chunks := ?u\<rparr>)" by (simp only:)
    moreover have "mset ?u = add_mset c (mset (unordered_chunks q))" by (simp add: sort_chunks_by_tsn_def)
    ultimately show ?thesis by (intro exI conjI)
  qed
qed

lemma push_last:
  assumes "forms_message fs" and "length fs \<le> 2 ^ 31" and "stream_identifier c = rq_si q" and "unordered c"
    and "add_mset c (mset (unordered_chunks q)) = mset fs" and "rq_unordered q = []"
  shows "\<exists>q' s. rq_push c q = (True, q') \<and> rq_unordered q' = [s] \<and> cs_chunks s = fs \<and> cs_ppi s = payload_type (hd fs)"
proof (cases "rq_push c q")
  case (Pair ok q')
  show ?thesis
  proof (cases ok)
    case True
    with Pair have "rq_push c q = (True, q')" by simp
    then obtain s where "rq_unordered q' = rq_unordered q @ [s]" and "forms_message (cs_chunks s)" and "cs_ppi s = payload_type (hd (cs_chunks s))"
      and "mset (unordered_chunks q) + {#c#} = mset (cs_chunks s) + mset (unordered_chunks q')" by (rule push_completes [OF assms(3,4)])
    then have s: "forms_message (cs_chunks s)" "rq_unordered q' = [s]"
      "cs_ppi s = payload_type (hd (cs_chunks s))" "mset fs = mset (cs_chunks s) + mset (unordered_chunks q')"
      using assms(5,6) by simp_all
    then have "cs_chunks s = fs" using part_of_message [OF assms(1) s(1)] assms(2) by simp
    with True Pair s show ?thesis by simp
  next
    case False
    with Pair have "rq_push c q = (False, q')" by simp
    note st = push_stores [OF assms(3,4) this]
    have q': "unordered_chunks q' = sort_chunks_by_tsn (unordered_chunks q @ [c])" by (subst conjunct1 [OF st]) simp
    have "unordered_chunks q' = [] @ fs @ []"
      using sort_message [OF assms(1,2), of "unordered_chunks q @ [c]"] assms(5) q' by simp
    with conjunct2 [OF st] assms(1) show ?thesis by blast
  qed
qed

text \<open>The receiving stream while the fragments of one unordered message arrive.\<close>

definition idle_stream :: "u16 \<Rightarrow> stream \<Rightarrow> bool" where
  "idle_stream si s \<longleftrightarrow> rq_si (reassembly s) = si \<and> unordered_chunks (reassembly s) = [] \<and> rq_unordered (reassembly s) = [] \<and>
     rq_ordered (reassembly s) = [] \<and> \<not> st_closed s"

lemma handle_part:
  assumes "forms_message fs" and "length fs \<le> 2 ^ 31" and "\<forall>c \<in> set fs. stream_identifier c = si \<and> unordered c"
    and "idle_stream si s" and "mset ds \<subset># mset fs"
  shows "\<exists>q. fold stream_handle_data ds s = s\<lparr>reassembly := q\<rparr> \<and> rq_si q = si \<and> rq_unordered q = [] \<and> rq_ordered q = [] \<and>
    mset (unordered_chunks q) = mset ds"
  using assms(5)
proof (induction ds rule: rev_induct)
  case Nil
  then show ?case using assms(4) by (intro exI [of _ "reassembly s"]) (simp add: idle_stream_def)
next
  case (snoc c ds)
  have "mset ds \<subset># mset (ds @ [c])" by simp
  with snoc.prems have "mset ds \<subset># mset fs" by (rule subset_mset.less_trans [rotated])
  from snoc.IH [OF this] obtain q where q: "fold stream_handle_data ds s = s\<lparr>reassembly := q\<rparr>" "rq_si q = si" "rq_unordered q = []"
    "rq_ordered q = []" "mset (unordered_chunks q) = mset ds" by blast
  have "c \<in> set fs" using snoc.prems by (metis in_set_conv_decomp mset_subset_eqD set_mset_mset subset_mset.less_imp_le)
  with assms(3) have c: "stream_identifier c = rq_si q" "unordered c" using q(2) by auto
  have "add_mset c (mset (unordered_chunks q)) \<subset># mset fs" using snoc.prems q(5) by simp
  from push_part [OF assms(1,2) c this] obtain u where
    "rq_push c q = (False, q\<lparr>rq_n_bytes := rq_n_bytes q + length (user_data c), unordered_chunks := u\<rparr>)" "mset u = mset (ds @ [c])"
    using q(5) by auto
  then have "fold stream_handle_data (ds @ [c]) s =
      s\<lparr>reassembly := q\<lparr>rq_n_bytes := rq_n_bytes q + length (user_data c), unordered_chunks := u\<rparr>\<rparr>" and "mset u = mset (ds @ [c])"
    using q(1) stream_handle_data_def [of c "s\<lparr>reassembly := q\<rparr>"] by simp_all
  with q(2-4) show ?case by (intro exI [of _ "q\<lparr>rq_n_bytes := rq_n_bytes q + length (user_data c), unordered_chunks := u\<rparr>"]) simp
qed

lemma handle_all:
  assumes "forms_message fs" and "length fs \<le> 2 ^ 31" and "\<forall>c \<in> set fs. stream_identifier c = si \<and> unordered c"
    and "idle_stream si s" and "mset ds = mset fs"
  shows "\<exists>q cset. fold stream_handle_data ds s = s\<lparr>reassembly := q, read_notifier := notify_one (read_notifier s)\<rparr> \<and>
    rq_unordered q = [cset] \<and> cs_chunks cset = fs \<and> cs_ppi cset = payload_type (hd fs)"
proof -
  obtain c ds' where ds: "ds = ds' @ [c]" using assms(1,5) by (cases ds rule: rev_cases) auto
  then have "mset ds' \<subset># mset fs" by (simp flip: assms(5))
  from handle_part [OF assms(1-4) this] obtain q where q: "fold stream_handle_data ds' s = s\<lparr>reassembly := q\<rparr>" "rq_si q = si"
    "rq_unordered q = []" "mset (unordered_chunks q) = mset ds'" by blast
  have "c \<in> set fs" using mset_eq_setD [OF assms(5)] ds by auto
  with assms(3) have c: "stream_identifier c = rq_si q" "unordered c" using q(2) by auto
  have "add_mset c (mset (unordered_chunks q)) = mset fs" using assms(5) ds q(4) by simp
  from push_last [OF assms(1,2) c this q(3)] obtain q' cset where
    "rq_push c q = (True, q')" "rq_unordered q' = [cset]" "cs_chunks cset = fs" "cs_ppi cset = payload_type (hd fs)" by blast
  moreover from this q ds have "fold stream_handle_data ds s = s\<lparr>reassembly := q', read_notifier := notify_one (read_notifier s)\<rparr>"
    by (simp add: stream_handle_data_def is_readable_def)
  ultimately show ?thesis by blast
qed

text \<open>What a write of a non-empty message gives: fragments that, once numbered, form one message.\<close>

lemma length_numbered [simp]: "length (numbered t cs) = length cs"
  by (simp add: numbered_def)

lemma numbered_nth: "i < length cs \<Longrightarrow> numbered t cs ! i = (cs ! i)\<lparr>tsn := t + of_nat i\<rparr>"
  by (simp add: numbered_def)

lemma numbered_fragments:
  assumes "0 < max_payload_size s" and "raw \<noteq> []"
  obtains cs where "packetize_loop now s raw ppi unord r 0 (length raw) = Some cs" and "cs \<noteq> []" and "length cs \<le> length raw"
    and "\<And>t. forms_message (numbered t cs)" and "\<And>t. message_data (numbered t cs) = raw"
    and "\<And>t. \<forall>c \<in> set (numbered t cs). stream_identifier c = st_identifier s \<and> unordered c = unord \<and> payload_type c = ppi"
proof -
  from packetize_loop_spec [OF assms(1), of 0 "length raw" raw now ppi unord r] assms(2) obtain cs where
    cs: "packetize_loop now s raw ppi unord r 0 (length raw) = Some cs" "cs \<noteq> []" "message_data cs = raw" "framed False cs"
      "\<forall>c \<in> set (tl cs). \<not> beginning_fragment c" "\<forall>c \<in> set (butlast cs). \<not> ending_fragment c" "ending_fragment (last cs)"
      "\<forall>c \<in> set cs. user_data c \<noteq> [] \<and> stream_identifier c = st_identifier s \<and> unordered c = unord \<and> payload_type c = ppi"
    by auto
  have b: "beginning_fragment (cs ! i) \<longleftrightarrow> i = 0" if "i < length cs" for i
  proof (cases i)
    case 0
    then show ?thesis using cs(2,4) by (cases cs) auto
  next
    case (Suc k)
    with that have "cs ! i = tl cs ! k" "k < length (tl cs)" by (simp_all add: nth_tl)
    then show ?thesis using cs(5) Suc by (metis nat.distinct(1) nth_mem)
  qed
  have e: "ending_fragment (cs ! i) \<longleftrightarrow> Suc i = length cs" if "i < length cs" for i
  proof (cases "Suc i = length cs")
    case True
    then have "i = length cs - 1" by simp
    then have "cs ! i = last cs" using cs(2) by (simp add: last_conv_nth)
    then show ?thesis using cs(7) True by simp
  next
    case False
    with that have "cs ! i = butlast cs ! i" "i < length (butlast cs)" by (simp_all add: nth_butlast)
    then show ?thesis using cs(6) False by (metis nth_mem)
  qed
  have "length cs \<le> payload_bytes cs" using cs(8)
  proof (induction cs)
    case (Cons c cs)
    then have "1 \<le> length (user_data c)" "length cs \<le> payload_bytes cs" by (simp_all add: Suc_le_eq)
    then show ?case by simp
  qed simp
  then have "length cs \<le> length raw" using length_message_data [of cs] cs(3) by simp
  moreover have "forms_message (numbered t cs)" for t
    unfolding forms_message_nth using cs(2) b e by (auto simp: numbered_nth) (simp add: numbered_def)
  moreover have "map user_data (numbered t cs) = map user_data cs" for t by (rule nth_equalityI) (simp_all add: numbered_nth)
  then have "message_data (numbered t cs) = raw" for t using cs(3) by (simp add: message_data_def)
  moreover have "\<forall>c \<in> set (numbered t cs). stream_identifier c = st_identifier s \<and> unordered c = unord \<and> payload_type c = ppi" for t
    using cs(8) by (auto simp: numbered_def)
  ultimately show thesis using that cs(1,2) by blast
qed

text \<open>A reader that has not yet looked, or is waiting, when the fragments arrive.\<close>

definition reader_ready :: "stream \<Rightarrow> reader \<Rightarrow> bool" where
  "reader_ready s rd \<longleftrightarrow> rd = R_Check \<and> read_notifier s = N_Empty \<or> rd = R_Waiting \<and> read_notifier s = N_Waiting"

definition dc_reads :: "nat \<Rightarrow> shared \<times> stream \<times> bytes \<times> dc_reader \<Rightarrow> shared \<times> stream \<times> bytes \<times> dc_reader \<Rightarrow> bool" where
  "dc_reads now x y \<longleftrightarrow> dc_read_step now x = Some y"

lemma dc_reads_check: "\<not> st_closed s \<Longrightarrow> dc_reads now (h, s, buf, DC_Reading R_Check) (h, s, buf, DC_Reading R_Read)"
  by (simp add: dc_reads_def)

text \<open>Without a complete message the reader waits and stays blocked.\<close>

lemma read_blocks:
  assumes "rq_unordered (reassembly s) = []" and "rq_ordered (reassembly s) = []" and "\<not> st_closed s" and "reader_ready s rd"
  shows "\<exists>s'. (dc_reads now)\<^sup>*\<^sup>* (h, s, buf, DC_Reading rd) (h, s', buf, DC_Reading R_Waiting) \<and>
    dc_read_step now (h, s', buf, DC_Reading R_Waiting) = None"
proof (cases "rd = R_Waiting")
  case True
  with assms(4) show ?thesis by (intro exI [of _ s]) (simp add: reader_ready_def)
next
  case False
  with assms(4) have rd: "rd = R_Check" "read_notifier s = N_Empty" by (auto simp: reader_ready_def)
  have "dc_reads now (h, s, buf, DC_Reading R_Read) (h, s, buf, DC_Reading R_Await)"
    using assms(1,2) by (simp add: dc_reads_def rq_read_def)
  moreover have "dc_reads now (h, s, buf, DC_Reading R_Await) (h, s\<lparr>read_notifier := N_Waiting\<rparr>, buf, DC_Reading R_Waiting)"
    using rd(2) by (simp add: dc_reads_def)
  ultimately have "(dc_reads now)\<^sup>*\<^sup>* (h, s, buf, DC_Reading rd) (h, s\<lparr>read_notifier := N_Waiting\<rparr>, buf, DC_Reading R_Waiting)"
    unfolding rd(1) by (meson dc_reads_check [OF assms(3)] converse_rtranclp_into_rtranclp rtranclp.rtrancl_refl)
  then show ?thesis by (intro exI [of _ "s\<lparr>read_notifier := N_Waiting\<rparr>"]) simp
qed

text \<open>A message of the application is returned.\<close>

lemma read_returns_check:
  assumes "rq_unordered (reassembly s) = cset # rest" and "\<not> st_closed s" and "cs_ppi cset \<noteq> Dcep" and "m = message_data (cs_chunks cset)"
    and "length m \<le> length buf"
  shows "\<exists>s'. (dc_reads now)\<^sup>*\<^sup>* (h, s, buf, DC_Reading R_Check)
    (h, s', m @ drop (length m) buf, DC_Done (Ok (read_result (length m) (cs_ppi cset))))"
proof -
  have "\<exists>q. rq_read buf (reassembly s) = (Ok (length m, cs_ppi cset), m @ drop (length m) buf, q)"
    using assms(1,4,5) by (simp add: rq_read_def read_deliver_eq Let_def min_absorb1)
  then obtain q where q: "rq_read buf (reassembly s) = (Ok (length m, cs_ppi cset), m @ drop (length m) buf, q)" ..
  let ?s = "s\<lparr>reassembly := q\<rparr>"
  have "dc_reads now (h, s, buf, DC_Reading R_Read) (h, ?s, m @ drop (length m) buf, DC_Reading (R_Done (Ok (length m, cs_ppi cset))))"
    using q by (simp add: dc_reads_def)
  moreover have "dc_reads now (h, ?s, m @ drop (length m) buf, DC_Reading (R_Done (Ok (length m, cs_ppi cset))))
      (h, ?s, m @ drop (length m) buf, DC_Done (Ok (read_result (length m) (cs_ppi cset))))"
    using assms(3) by (simp add: dc_reads_def)
  ultimately show ?thesis
    by (meson dc_reads_check [OF assms(2)] converse_rtranclp_into_rtranclp rtranclp.rtrancl_refl)
qed

lemma read_returns:
  assumes "rq_unordered (reassembly s) = cset # rest" and "\<not> st_closed s" and "rd = R_Check \<or> rd = R_Waiting \<and> read_notifier s = N_Notified"
    and "cs_ppi cset \<noteq> Dcep" and "m = message_data (cs_chunks cset)" and "length m \<le> length buf"
  shows "\<exists>s'. (dc_reads now)\<^sup>*\<^sup>* (h, s, buf, DC_Reading rd)
    (h, s', m @ drop (length m) buf, DC_Done (Ok (read_result (length m) (cs_ppi cset))))"
proof (cases "rd = R_Check")
  case True
  then show ?thesis using read_returns_check [OF assms(1,2,4-6)] by simp
next
  case False
  with assms(3) have rd: "rd = R_Waiting" "read_notifier s = N_Notified" by auto
  let ?s = "s\<lparr>read_notifier := N_Empty\<rparr>"
  have step: "dc_reads now (h, s, buf, DC_Reading rd) (h, ?s, buf, DC_Reading R_Check)" using rd by (simp add: dc_reads_def)
  have "rq_unordered (reassembly ?s) = cset # rest" "\<not> st_closed ?s" using assms(1,2) by simp_all
  from read_returns_check [OF this assms(4-6)] step show ?thesis by (meson converse_rtranclp_into_rtranclp)
qed

text \<open>The sending side of a channel.\<close>

lemma write_data_channel_sends:
  assumes "get_state h = Established" and "0 < max_payload_size s" and "max 1 (length data) \<le> unat (max_message_size h)"
  obtains cs h' s' where "write_data_channel now data is_string (h, s) = Some (Ok (length data), h', s')"
    and "pending h' = fold pend_push cs (pending h)" and "awake h'"
    and "length cs \<le> max 1 (length data)"
    and "\<And>t. forms_message (numbered t cs)" and "\<And>t. message_data (numbered t cs) = (if data = [] then [0] else data)"
    and "\<And>t. \<forall>c \<in> set (numbered t cs). stream_identifier c = st_identifier s \<and> unordered c \<and> payload_type c = write_ppi is_string (length data)"
proof -
  define raw where "raw = (if data = [] then [0] else data)"
  define ppi where "ppi = write_ppi is_string (length data)"
  have raw: "raw \<noteq> []" "length raw = max 1 (length data)" by (cases data; simp add: raw_def)+
  have ppi: "ppi \<noteq> Dcep" by (simp add: ppi_def write_ppi_def)
  from numbered_fragments [OF assms(2) raw(1), of now ppi True "next_flag h"] obtain cs where
    cs: "packetize_loop now s raw ppi True (next_flag h) 0 (length raw) = Some cs" "length cs \<le> length raw"
      "\<And>t. forms_message (numbered t cs)" "\<And>t. message_data (numbered t cs) = raw"
      "\<And>t. \<forall>c \<in> set (numbered t cs). stream_identifier c = st_identifier s \<and> unordered c = True \<and> payload_type c = ppi" by metis
  define h1 where "h1 = h\<lparr>flags := hm_insert (next_flag h + 1) False (hm_insert (next_flag h) False (flags h)), next_flag := next_flag h + 2\<rparr>"
  define s1 where "s1 = s\<lparr>buffered_amount := buffered_amount s + length raw\<rparr>"
  have p: "packetize now raw ppi (h, s) = Some (cs, h1, s1)" using cs(1) ppi by (simp add: packetize_def Let_def h1_def s1_def)
  have st: "get_state h1 = Established" "pending h1 = pending h" using assms(1) by (simp_all add: h1_def get_state_def)
  let ?h = "awake_write_loop (h1\<lparr>pending := fold pend_push cs (pending h)\<rparr>)"
  have w: "write_sctp now raw ppi (h, s) = Some (Ok (length raw), ?h, s1)"
    using assms(1) p st assms(3) [folded raw(2)] by (simp add: write_sctp_def send_payload_data_def)
  have "write_data_channel now data is_string (h, s) = Some (Ok (length data), ?h, s1)"
    using w by (cases "data = []") (simp_all add: write_data_channel_def dc_write_sctp_def raw_def ppi_def Let_def)
  moreover have "pending ?h = fold pend_push cs (pending h)" "awake ?h" by (simp_all add: awake_write_loop_def)
  ultimately show thesis using that cs(2-5) raw(2) unfolding raw_def ppi_def by simp
qed

section \<open>Properties\<close>



text \<open>
  The OPEN message on the wire: the documented layout has channel type, priority and reliability parameter between the type and the
  lengths, but the lengths follow the type at once. With a label of four bytes, the field documented as the length of the label holds
  bytes of the label, and announces more bytes than the message has.
\<close>

lemma open_layout_mismatch:
  "\<exists>raw. dcep_marshal (DataChannelOpen \<lparr>open_label = [100, 97, 116, 97], open_protocol = []\<rparr>) = Ok raw \<and>
    get_u16 (drop 8 raw) = (Ok (0x6100, drop 10 raw) :: (unit, u16 \<times> bytes) outcome) \<and> length (drop 12 raw) = 4"
proof -
  have "replicate 7 (0 :: u8) = [0, 0, 0, 0, 0, 0, 0]" by code_simp
  then show ?thesis by (simp add: dcep_marshal_open MESSAGE_TYPE_OPEN_def put_u16_def)
qed

text \<open>
  A message of the establishment protocol whose first byte is the OPEN type, sent by the peer, ends the reading task by a panic.
\<close>

lemma peer_open_panics: "handle_dcep (MESSAGE_TYPE_OPEN # rest) = Panic"
  by (simp add: handle_dcep_def dcep_unmarshal_def type_unmarshal_def MESSAGE_TYPE_LEN_def MESSAGE_TYPE_OPEN_def MESSAGE_TYPE_ACK_def)

text \<open>The decoder that goes with the encoder of OPEN inverts it, as long as label and protocol are below 64 KiB.\<close>

lemma open_roundtrip:
  assumes "length (open_label m) < 65536" and "length (open_protocol m) < 65536"
  shows "\<exists>raw. dcep_marshal (DataChannelOpen m) = Ok raw \<and> open_unmarshal (tl raw) = Ok m"
  using assms by (simp add: dcep_marshal_open open_unmarshal_def CHANNEL_OPEN_HEADER_LEN_def codec_simps unat_of_nat Let_def)

text \<open>The handler of \<^verbatim>\<open>on_open\<close> runs once, whether it is set before or after the channel opens.\<close>

lemma on_open_runs_once:
  "rdc_opened (handle_open si (rtc_on_open f (rtc_data_channel_new l p))) = [f]"
  "rdc_opened (rtc_on_open f (handle_open si (rtc_data_channel_new l p))) = [f]"
  by (simp_all add: rtc_on_open_def handle_open_def do_open_def rtc_data_channel_new_def ready_state_def set_ready_state_def data_channel_state_from_def)


section \<open>Opening a channel\<close>

text \<open>\<^verbatim>\<open>open\<close> never panics.\<close>

lemma write_no_panic: "write_sctp now p ppi st = Some (r, st') \<Longrightarrow> r \<noteq> Panic"
  by (cases st) (auto simp: write_sctp_def send_payload_data_def bind_eq_Some_conv split: if_splits prod.splits)

lemma open_no_panic: "rtc_open now assoc d = Some (r, assoc', d') \<Longrightarrow> r \<noteq> Panic"
proof -
  have o1: "fst (open_stream si a) \<noteq> Panic" for si a by (auto simp: open_stream_def split: prod.splits option.splits)
  have w: "user_write now si p ppi a = Some (r, a') \<Longrightarrow> r \<noteq> Panic" for si p ppi a r a'
    using write_no_panic by (fastforce simp: user_write_def split: option.splits prod.splits)
  have "dc_client now cfg si a = Some (r, a') \<Longrightarrow> r \<noteq> Panic" for cfg si a r a'
    by (auto simp: dc_client_def dcep_marshal_open dest: w split: outcome.splits) (metis outcome.exhaust)
  then have d: "dc_dial now i cfg a = Some (r, a') \<Longrightarrow> r \<noteq> Panic" for i cfg a r a'
    using o1 [of i a] by (cases "open_stream i a"; cases "fst (open_stream i a)") (auto simp: dc_dial_def)
  assume "rtc_open now assoc d = Some (r, assoc', d')"
  then show "r \<noteq> Panic" by (auto simp: rtc_open_def Let_def dest!: d split: option.splits if_splits outcome.splits)
      (metis (full_types) outcome.exhaust old.unit.exhaust)
qed

lemma rtc_open_opens:
  assumes "hm_get (streams a) 0 = None" and "get_state (sh a) = Established" and "0 < a_max_payload_size a" and "\<not> rdc_transport d"
    and "12 + length (rdc_label d) + length (rdc_protocol d) \<le> unat (max_message_size (sh a))"
  obtains a' d' where "rtc_open now (Some a) d = Some (Ok (), Some a', d')" and "ready_state d' = DCS_Open" and "rdc_channel d' = Some 0"
    and "hm_get (streams a') 0 \<noteq> None"
proof -
  let ?s = "stream_new 0 (a_max_payload_size a)" and ?om = "DataChannelOpen \<lparr>open_label = rdc_label d, open_protocol = rdc_protocol d\<rparr>"
  define a1 where "a1 = a\<lparr>streams := hm_insert 0 ?s (streams a)\<rparr>"
  have o1: "open_stream 0 a = (Ok ?s, a1)" using assms(1) by (simp add: open_stream_def create_stream_def Let_def a1_def)
  obtain msg where m: "dcep_marshal ?om = Ok msg" "msg \<noteq> []" "length msg \<le> unat (max_message_size (sh a))"
    using assms(5) by (simp add: dcep_marshal_open)
  have "0 < max_payload_size ?s" using assms(3) by (simp add: stream_new_def)
  from packetize_message [OF this m(2)] obtain cs h s where p: "packetize now msg Dcep (sh a, ?s) = Some (cs, h, s)" by meson
  have "get_state h = Established" using p assms(2) by (auto simp: packetize_def bind_eq_Some_conv get_state_def Let_def)
  with p m(3) assms(2) obtain h' where w: "write_sctp now msg Dcep (sh a, ?s) = Some (Ok (length msg), h', s)"
    by (simp add: write_sctp_def send_payload_data_def)
  have "hm_get (streams a1) 0 = Some ?s" "sh a1 = sh a" by (simp_all add: a1_def hm_simps)
  with w m(1) have "dc_client now \<lparr>config_label = rdc_label d, config_protocol = rdc_protocol d\<rparr> 0 a1 =
      Some (Ok (), a1\<lparr>sh := h', streams := hm_insert 0 s (streams a1)\<rparr>)" by (simp add: dc_client_def user_write_def)
  with o1 have "dc_dial now 0 \<lparr>config_label = rdc_label d, config_protocol = rdc_protocol d\<rparr> a =
      Some (Ok (), a1\<lparr>sh := h', streams := hm_insert 0 s (streams a1)\<rparr>)" by (simp add: dc_dial_def)
  then show thesis using assms(4)
    by (intro that [of "configure_stream (d\<lparr>rdc_transport := True\<rparr>) 0 (a1\<lparr>sh := h', streams := hm_insert 0 s (streams a1)\<rparr>)"])
      (auto simp: rtc_open_def configure_stream_def handle_open_def do_open_def ready_state_def set_ready_state_def data_channel_state_from_def Let_def hm_simps split: option.splits)
qed

text \<open>Every channel is dialled on stream 0, so a second one cannot be opened on the association.\<close>

lemma second_channel_refused:
  assumes "hm_get (streams a) 0 \<noteq> None" and "\<not> rdc_transport d"
  shows "rtc_open now (Some a) d = Some (Err (ErrDataChannel (DCErr_Sctp ErrStreamAlreadyExist)), Some a, d\<lparr>rdc_transport := True\<rparr>)"
  using assms by (simp add: rtc_open_def dc_dial_def open_stream_def Let_def)

end
