(* ===== verification/Mux.thy ===== *)
theory Mux
  imports Ice_Check
begin

text \<open>
  The multiplexer (\<^verbatim>\<open>webrtc/mux/\<close>) between the ICE connection and DTLS: endpoints with a match function and a packet buffer, and the
  loop that reads from the connection and dispatches. The order in which the map of endpoints is walked is not determined in Rust; it is
  the argument \<open>order\<close>, a list of the keys.
\<close>

section \<open>Model\<close>

definition match_range :: "u8 \<Rightarrow> u8 \<Rightarrow> bytes \<Rightarrow> bool" where
  "match_range lower upper buf = (if buf = [] then False else lower \<le> buf ! 0 \<and> buf ! 0 \<le> upper)"

definition match_dtls :: "bytes \<Rightarrow> bool" where
  "match_dtls b = match_range 20 63 b"

record endpoint =
  ep_id :: nat
  ep_buffer :: buffer
  ep_match :: "bytes \<Rightarrow> bool"

record mux =
  mux_id :: nat
  mux_endpoints :: "(nat, endpoint) hash_map"

definition MUX_RECEIVE_MTU :: nat where "MUX_RECEIVE_MTU = 1460"
definition MUX_MAX_BUFFER_SIZE :: nat where "MUX_MAX_BUFFER_SIZE = 1000 * 1000"

definition mux_new :: mux where
  "mux_new = \<lparr>mux_id = 0, mux_endpoints = []\<rparr>"

definition new_endpoint :: "(bytes \<Rightarrow> bool) \<Rightarrow> mux \<Rightarrow> nat \<times> mux" where
  "new_endpoint f m =
     (let i = mux_id m;
          e = \<lparr>ep_id = i, ep_buffer = buffer_new 0 MUX_MAX_BUFFER_SIZE, ep_match = f\<rparr>
      in (i, m\<lparr>mux_id := i + 1, mux_endpoints := hm_insert i e (mux_endpoints m)\<rparr>))"

definition endpoint_matches :: "mux \<Rightarrow> bytes \<Rightarrow> nat \<Rightarrow> bool" where
  "endpoint_matches m buf i = (case hm_get (mux_endpoints m) i of Some ep \<Rightarrow> ep_match ep buf | None \<Rightarrow> False)"

definition dispatch :: "nat list \<Rightarrow> bytes \<Rightarrow> mux \<Rightarrow> unit util_result \<times> mux" where
  "dispatch order buf m =
     (case find (endpoint_matches m buf) order of
        None \<Rightarrow> (Ok (), m)
      | Some i \<Rightarrow>
          (case hm_get (mux_endpoints m) i of
             None \<Rightarrow> (Ok (), m)
           | Some ep \<Rightarrow>
               (case buffer_write buf (ep_buffer ep) of
                  (r, b) \<Rightarrow> (obind r (\<lambda>_. Ok ()), m\<lparr>mux_endpoints := hm_insert i (ep\<lparr>ep_buffer := b\<rparr>) (mux_endpoints m)\<rparr>))))"

text \<open>
  One turn of \<^verbatim>\<open>read_loop\<close>: \<open>received\<close> is what \<^verbatim>\<open>next_conn.recv\<close> returns and leaves in the buffer; on an error the length of the last
  packet is kept. An error of \<open>dispatch\<close>, or a slice out of range, ends the loop.
\<close>

record mux_loop =
  ml_buf :: bytes
  ml_n :: nat
  ml_running :: bool

definition mux_loop_new :: mux_loop where
  "mux_loop_new = \<lparr>ml_buf = replicate MUX_RECEIVE_MTU 0, ml_n = 0, ml_running = True\<rparr>"

definition mux_loop_turn :: "nat list \<Rightarrow> nat ice_result \<times> bytes \<Rightarrow> mux_loop \<times> mux \<Rightarrow> mux_loop \<times> mux" where
  "mux_loop_turn order received = (\<lambda>(l, m).
     if \<not> ml_running l then (l, m)
     else
       case received of (result, buf) \<Rightarrow>
         let n = (case result of Ok k \<Rightarrow> k | _ \<Rightarrow> ml_n l);
             l1 = l\<lparr>ml_buf := buf, ml_n := n\<rparr>
         in if n > length buf then (l1\<lparr>ml_running := False\<rparr>, m)
            else case dispatch order (take n buf) m of
                (Ok _, m1) \<Rightarrow> (l1, m1)
              | (_, m1) \<Rightarrow> (l1\<lparr>ml_running := False\<rparr>, m1))"

text \<open>\<^verbatim>\<open>Endpoint::recv\<close>; a read that would wait gives \<open>None\<close>.\<close>

definition endpoint_recv :: "bytes \<Rightarrow> endpoint \<Rightarrow> nat ice_result option \<times> bytes \<times> endpoint" where
  "endpoint_recv buf ep =
     (case buffer_read buf (ep_buffer ep) of
        (None, buf, b) \<Rightarrow> (None, buf, ep\<lparr>ep_buffer := b\<rparr>)
      | (Some (Ok n), buf, b) \<Rightarrow> (Some (Ok n), buf, ep\<lparr>ep_buffer := b\<rparr>)
      | (Some _, buf, b) \<Rightarrow> (Some (Err IErr_Io), buf, ep\<lparr>ep_buffer := b\<rparr>))"

text \<open>The loop over the ICE agent: a turn happens when the agent's connection returns.\<close>

definition mux_agent_turn :: "nat list \<Rightarrow> ice_agent \<times> mux_loop \<times> mux \<Rightarrow> ice_agent \<times> mux_loop \<times> mux" where
  "mux_agent_turn order = (\<lambda>(a, l, m).
     if \<not> ml_running l then (a, l, m)
     else case conn_recv (ml_buf l) a of
         (None, buf, a1) \<Rightarrow> (a1, l\<lparr>ml_buf := buf\<rparr>, m)
       | (Some r, buf, a1) \<Rightarrow> (a1, mux_loop_turn order (r, buf) (l, m)))"

section \<open>Dispatching to one endpoint\<close>

text \<open>A multiplexer whose one endpoint takes DTLS and holds the packets \<open>ps\<close>, as the transport sets it up.\<close>

definition dtls_mux :: "mux \<Rightarrow> bytes list \<Rightarrow> bool" where
  "dtls_mux m ps \<longleftrightarrow> (\<exists>ep. mux_endpoints m = [(0, ep)] \<and> ep_match ep = match_dtls \<and> holds_packets (ep_buffer ep) ps \<and>
     \<not> bf_closed (ep_buffer ep) \<and> bf_limit_count (ep_buffer ep) = 0 \<and> bf_limit_size (ep_buffer ep) = MUX_MAX_BUFFER_SIZE)"

definition framed_size :: "bytes list \<Rightarrow> nat" where
  "framed_size ps = length (concat (map frame ps))"

lemma framed_size_simps [simp]: "framed_size [] = 0" "framed_size (ps @ qs) = framed_size ps + framed_size qs"
    "framed_size (p # ps) = length p + 2 + framed_size ps"
  by (simp_all add: framed_size_def length_frame)

lemma dtls_mux_new: "dtls_mux (snd (new_endpoint match_dtls mux_new)) []"
  by (simp add: new_endpoint_def mux_new_def dtls_mux_def Let_def holds_packets_new) (simp add: buffer_new_def)

lemma dispatch_dtls:
  assumes "dtls_mux m ps" and "length p < 65536" and "match_dtls p"
  shows "\<exists>m'. dispatch [0] p m = (if framed_size (ps @ [p]) \<le> MUX_MAX_BUFFER_SIZE then Ok () else Err ErrBufferFull, m') \<and>
    dtls_mux m' (if framed_size (ps @ [p]) \<le> MUX_MAX_BUFFER_SIZE then ps @ [p] else ps)"
proof -
  from assms(1) obtain ep where m: "mux_endpoints m = [(0, ep)]" and ep: "ep_match ep = match_dtls" "holds_packets (ep_buffer ep) ps"
    "\<not> bf_closed (ep_buffer ep)" "bf_limit_count (ep_buffer ep) = 0" "bf_limit_size (ep_buffer ep) = MUX_MAX_BUFFER_SIZE"
    by (auto simp: dtls_mux_def)
  have acc: "accepts_packet (ep_buffer ep) ps p \<longleftrightarrow> framed_size (ps @ [p]) \<le> MUX_MAX_BUFFER_SIZE"
    using assms(2) ep(3-5) by (auto simp: accepts_packet_def framed_size_def buf_bound_def MUX_MAX_BUFFER_SIZE_def)
  from buffer_write_holds [OF ep(2), of p] obtain b where
    w: "buffer_write p (ep_buffer ep) = (if framed_size (ps @ [p]) \<le> MUX_MAX_BUFFER_SIZE then Ok (length p) else Err ErrBufferFull, b)"
    and b: "holds_packets b (if framed_size (ps @ [p]) \<le> MUX_MAX_BUFFER_SIZE then ps @ [p] else ps)"
      "\<not> bf_closed b" "bf_limit_count b = 0" "bf_limit_size b = MUX_MAX_BUFFER_SIZE"
    using assms(2) ep(3-5) unfolding acc by auto
  have "dispatch [0] p m = (obind (fst (buffer_write p (ep_buffer ep))) (\<lambda>_. Ok ()), m\<lparr>mux_endpoints := [(0, ep\<lparr>ep_buffer := b\<rparr>)]\<rparr>)"
    using m ep(1) assms(3) w by (simp add: dispatch_def endpoint_matches_def hm_get_def)
  moreover have "dtls_mux (m\<lparr>mux_endpoints := [(0, ep\<lparr>ep_buffer := b\<rparr>)]\<rparr>) (if framed_size (ps @ [p]) \<le> MUX_MAX_BUFFER_SIZE then ps @ [p] else ps)"
    using ep(1) b by (simp add: dtls_mux_def)
  ultimately show ?thesis using w by auto
qed

lemma dispatch_other: "dtls_mux m ps \<Longrightarrow> \<not> match_dtls p \<Longrightarrow> dispatch [0] p m = (Ok (), m)"
  by (auto simp: dispatch_def dtls_mux_def endpoint_matches_def hm_get_def)

lemma turn_packet:
  assumes "dtls_mux m ps" and "ml_running l" and "length p < 65536"
  shows "\<exists>m'. mux_loop_turn [0] (Ok (length p), p @ rest) (l, m) =
      (l\<lparr>ml_buf := p @ rest, ml_n := length p, ml_running := \<not> match_dtls p \<or> framed_size (ps @ [p]) \<le> MUX_MAX_BUFFER_SIZE\<rparr>, m') \<and>
    dtls_mux m' (if match_dtls p \<and> framed_size (ps @ [p]) \<le> MUX_MAX_BUFFER_SIZE then ps @ [p] else ps)"
proof (cases "match_dtls p")
  case True
  from dispatch_dtls [OF assms(1,3) True] show ?thesis using assms(2) True
    by (cases "framed_size (ps @ [p]) \<le> MUX_MAX_BUFFER_SIZE") (auto simp: mux_loop_turn_def Let_def)
next
  case False
  with dispatch_other [OF assms(1) False] show ?thesis using assms by (simp add: mux_loop_turn_def Let_def)
qed

text \<open>Packets received one after the other, each in a buffer with whatever bytes come after it.\<close>

definition mux_received :: "bytes \<times> bytes \<Rightarrow> nat ice_result \<times> bytes" where
  "mux_received = (\<lambda>(p, rest). (Ok (length p), p @ rest))"

lemma turns_in_order:
  assumes "dtls_mux m ps" and "ml_running l" and "\<forall>(p, rest) \<in> set rs. length p < 65536"
    and "framed_size (ps @ filter match_dtls (map fst rs)) \<le> MUX_MAX_BUFFER_SIZE"
  shows "\<exists>l' m'. fold (mux_loop_turn [0]) (map mux_received rs) (l, m) = (l', m') \<and> ml_running l' \<and> dtls_mux m' (ps @ filter match_dtls (map fst rs))"
  using assms
proof (induction rs arbitrary: l m ps)
  case (Cons r rs)
  obtain p rest where r: "r = (p, rest)" by (cases r)
  let ?ps = "if match_dtls p then ps @ [p] else ps"
  have fits: "match_dtls p \<Longrightarrow> framed_size (ps @ [p]) \<le> MUX_MAX_BUFFER_SIZE" using Cons.prems(4) r by (auto split: if_splits)
  from turn_packet [OF Cons.prems(1,2), of p rest] Cons.prems(3) r fits obtain l1 m1 where
    t: "mux_loop_turn [0] (mux_received r) (l, m) = (l1, m1)" "ml_running l1" "dtls_mux m1 ?ps"
    by (auto simp: mux_received_def split: if_splits)
  have "framed_size (?ps @ filter match_dtls (map fst rs)) \<le> MUX_MAX_BUFFER_SIZE" using Cons.prems(4) r by (auto split: if_splits)
  from Cons.IH [OF t(3,2) _ this] Cons.prems(3) t(1) r show ?case by auto
qed simp

section \<open>Properties\<close>

text \<open>
  The multiplexer hands the DTLS packets of the connection to the DTLS endpoint, all of them, unchanged and in order, and nothing
  else, as long as they fit into the buffer of one megabyte; the loop then goes on.
\<close>

theorem mux_in_order:
  assumes "\<forall>(p, rest) \<in> set rs. length p < 65536" and "framed_size (filter match_dtls (map fst rs)) \<le> MUX_MAX_BUFFER_SIZE"
  shows "\<exists>l m. fold (mux_loop_turn [0]) (map mux_received rs) (mux_loop_new, snd (new_endpoint match_dtls mux_new)) = (l, m) \<and>
    ml_running l \<and> dtls_mux m (filter match_dtls (map fst rs))"
  using turns_in_order [OF dtls_mux_new, of mux_loop_new rs] assms by (simp add: mux_loop_new_def)

theorem mux_in_order_witness:
  "\<exists>l m. fold (mux_loop_turn [0]) (map mux_received [([22, 1], [0]), ([1], []), ([63], [7, 7])]) (mux_loop_new, snd (new_endpoint match_dtls mux_new)) = (l, m) \<and>
    ml_running l \<and> dtls_mux m [[22, 1], [63]]"
  using mux_in_order [of "[([22, 1], [0]), ([1], []), ([63], [7, 7])]"]
  by (simp add: match_dtls_def match_range_def MUX_MAX_BUFFER_SIZE_def word_le_nat_alt)

text \<open>
  A DTLS packet that does not fit into the endpoint's buffer ends the loop for good: later packets are not read, whatever the
  reader has taken out in the meantime. The comment at \<^verbatim>\<open>new_endpoint\<close> says that packets are dropped when the buffer is full.
\<close>

lemma full_endpoint_ends_loop:
  assumes "dtls_mux m ps" and "ml_running l" and "length p < 65536" and "match_dtls p" and "framed_size (ps @ [p]) > MUX_MAX_BUFFER_SIZE"
  shows "\<exists>l' m'. mux_loop_turn [0] (Ok (length p), p @ rest) (l, m) = (l', m') \<and> \<not> ml_running l' \<and>
    (\<forall>rs m2. fold (mux_loop_turn [0]) rs (l', m2) = (l', m2))"
proof -
  have "fold (mux_loop_turn [0]) rs (l', m2) = (l', m2)" if "\<not> ml_running l'" for l' rs m2
    using that by (induction rs) (simp_all add: mux_loop_turn_def)
  with turn_packet [OF assms(1-3), of rest] assms(4,5) show ?thesis by auto
qed

text \<open>An error of the connection makes the loop dispatch the last packet again.\<close>

lemma recv_error_repeats:
  assumes "dtls_mux m ps" and "ml_running l" and "take (ml_n l) (ml_buf l) = p" and "ml_n l = length p" and "length p < 65536"
    and "match_dtls p" and "framed_size (ps @ [p]) \<le> MUX_MAX_BUFFER_SIZE"
  shows "\<exists>m'. mux_loop_turn [0] (Err e, ml_buf l) (l, m) = (l, m') \<and> dtls_mux m' (ps @ [p])"
proof -
  have "length p \<le> length (ml_buf l)" using assms(3,4) by (metis length_take min.absorb_iff2 min.commute)
  with dispatch_dtls [OF assms(1,5,6)] assms show ?thesis by (auto simp: mux_loop_turn_def Let_def)
qed

text \<open>A DTLS record of an epoch whose low byte is not 33 is never taken for a STUN message.\<close>

lemma be_u32_top: "ucast (drop_bit 24 (be_u32 a b c d)) = a"
  by (rule bit_word_eqI) (auto simp: be_u32_def bit_simps dest: bit_imp_le_length)

lemma dtls_not_stun: "buf ! 4 \<noteq> 0x21 \<Longrightarrow> \<not> is_message buf"
proof
  assume "buf ! 4 \<noteq> 0x21" and "is_message buf"
  then have "be_u32 (buf ! 4) (buf ! 5) (buf ! 6) (buf ! 7) = MAGIC_COOKIE" by (simp add: is_message_def)
  from arg_cong [OF this, of "\<lambda>x. ucast (drop_bit 24 x) :: u8"] \<open>buf ! 4 \<noteq> 0x21\<close> show False
    by (simp add: be_u32_top MAGIC_COOKIE_def)
qed



end
