(* ===== verification/Sdp_Session.thy ===== *)
theory Sdp_Session
  imports Util_Text
begin

text \<open>
  Session descriptions (\<^verbatim>\<open>crates/sdp/\<close>): the description and media records, their texts, the builders and \<^verbatim>\<open>marshal\<close>.
  \<^verbatim>\<open>Url\<close> belongs to the crate \<^verbatim>\<open>url\<close>: a URL is its text, and \<^verbatim>\<open>Url::parse\<close> is the parameter \<open>parse_url\<close>, which gives the text of the
  parsed URL.
\<close>

section \<open>Texts of the standard library\<close>

fun show_int :: "int \<Rightarrow> bytes" where
  "show_int i = (if i < 0 then 45 # show_nat (nat (- i)) else show_nat (nat i))"

text \<open>\<^verbatim>\<open>str::parse\<close> for a signed type: an optional sign, then at least one digit, the value in range.\<close>

definition parse_sint :: "int \<Rightarrow> int \<Rightarrow> bytes \<Rightarrow> int option" where
  "parse_sint lo hi s =
     (let (neg, ds) = (case s of b # r \<Rightarrow> if b = 45 then (True, r) else if b = 43 then (False, r) else (False, s) | [] \<Rightarrow> (False, []));
          v = (if neg then - int (digits_value ds) else int (digits_value ds))
      in if ds \<noteq> [] \<and> (\<forall>b \<in> set ds. is_digit b) \<and> lo \<le> v \<and> v \<le> hi then Some v else None)"

definition parse_i64 :: "bytes \<Rightarrow> int option" where "parse_i64 = parse_sint (- (2 ^ 63)) (2 ^ 63 - 1)"
definition parse_i32 :: "bytes \<Rightarrow> int option" where "parse_i32 = parse_sint (- (2 ^ 31)) (2 ^ 31 - 1)"

definition parse_u64 :: "bytes \<Rightarrow> u64 option" where
  "parse_u64 s = map_option of_nat (parse_uint 18446744073709551615 s)"

fun split_char :: "u8 \<Rightarrow> bytes \<Rightarrow> bytes list" where
  "split_char c [] = [[]]"
| "split_char c (b # s) = (if b = c then [] # split_char c s else (case split_char c s of w # ws \<Rightarrow> (b # w) # ws | [] \<Rightarrow> [[b]]))"

text \<open>\<^verbatim>\<open>splitn(2, c)\<close>\<close>

fun splitn2 :: "u8 \<Rightarrow> bytes \<Rightarrow> bytes list" where
  "splitn2 c [] = [[]]"
| "splitn2 c (b # s) = (if b = c then [[], s] else (case splitn2 c s of w # ws \<Rightarrow> (b # w) # ws | [] \<Rightarrow> [[b]]))"

function trim_start :: "bytes \<Rightarrow> bytes" where
  "trim_start s = (if white_space s = 0 then s else trim_start (drop (white_space s) s))"
  by pat_completeness auto
termination by (relation "measure length") (auto simp: white_space_def split: list.splits if_splits)

declare trim_start.simps [simp del]

function trim_end :: "bytes \<Rightarrow> bytes" where
  "trim_end [] = []"
| "trim_end (b # s) =
     (let n = white_space (b # s) in
      if n = 0 then b # trim_end s
      else let r = trim_end (drop n (b # s)) in if r = [] then [] else take n (b # s) @ r)"
  by pat_completeness auto
termination by (relation "measure length") auto

definition trim :: "bytes \<Rightarrow> bytes" where
  "trim s = trim_end (trim_start s)"

section \<open>Records\<close>

datatype sdp_error = Sdp_Io | Sdp_Utf8 | SdpInvalidSyntax bytes | SdpInvalidValue bytes | SdpEmptyTimeDescription
  | Sdp_ParseInt | Sdp_ParseUrl

type_synonym 'a sdp_result = "(sdp_error, 'a) outcome"

record origin =
  og_username :: bytes
  og_session_id :: u64
  og_session_version :: u64
  og_network_type :: bytes
  og_address_type :: bytes
  og_unicast_address :: bytes

record sdp_address =
  ad_address :: bytes
  ad_ttl :: "int option"
  ad_range :: "int option"

record connection_information =
  ci_network_type :: bytes
  ci_address_type :: bytes
  ci_address :: "sdp_address option"

record bandwidth =
  bw_experimental :: bool
  bw_type :: bytes
  bw_bandwidth :: u64

record sdp_attribute =
  attr_key :: bytes
  attr_value :: "bytes option"

record time_zone =
  tz_adjustment_time :: u64
  tz_offset :: int

record timing =
  tm_start_time :: u64
  tm_stop_time :: u64

record repeat_time =
  rt_interval :: int
  rt_duration :: int
  rt_offsets :: "int list"

record time_description =
  td_timing :: timing
  td_repeat_times :: "repeat_time list"

record ranged_port =
  rp_value :: int
  rp_range :: "int option"

record media_name =
  mn_media :: bytes
  mn_port :: ranged_port
  mn_protos :: "bytes list"
  mn_formats :: "bytes list"

record media_description =
  md_media_name :: media_name
  md_media_title :: "bytes option"
  md_connection_information :: "connection_information option"
  md_bandwidth :: "bandwidth list"
  md_encryption_key :: "bytes option"
  md_attributes :: "sdp_attribute list"

record session_description =
  sd_version :: int
  sd_origin :: origin
  sd_session_name :: bytes
  sd_session_information :: "bytes option"
  sd_uri :: "bytes option"
  sd_email_address :: "bytes option"
  sd_phone_number :: "bytes option"
  sd_connection_information :: "connection_information option"
  sd_bandwidth :: "bandwidth list"
  sd_time_descriptions :: "time_description list"
  sd_time_zones :: "time_zone list"
  sd_encryption_key :: "bytes option"
  sd_attributes :: "sdp_attribute list"
  sd_media_descriptions :: "media_description list"

section \<open>Texts of the records\<close>

definition join :: "u8 \<Rightarrow> bytes list \<Rightarrow> bytes" where
  "join c ws = (case ws of [] \<Rightarrow> [] | w # vs \<Rightarrow> w @ concat (map (\<lambda>v. c # v) vs))"

definition show_u64 :: "u64 \<Rightarrow> bytes" where "show_u64 x = show_nat (unat x)"

definition origin_new :: origin where
  "origin_new = \<lparr>og_username = [], og_session_id = 0, og_session_version = 0, og_network_type = [], og_address_type = [], og_unicast_address = []\<rparr>"

definition origin_display :: "origin \<Rightarrow> bytes" where
  "origin_display o1 = join 32 [og_username o1, show_u64 (og_session_id o1), show_u64 (og_session_version o1), og_network_type o1,
     og_address_type o1, og_unicast_address o1]"

definition address_display :: "sdp_address \<Rightarrow> bytes" where
  "address_display a = join 47 ([ad_address a] @ (case ad_ttl a of Some t \<Rightarrow> [show_int t] | None \<Rightarrow> []) @
     (case ad_range a of Some r \<Rightarrow> [show_int r] | None \<Rightarrow> []))"

definition connection_information_display :: "connection_information \<Rightarrow> bytes" where
  "connection_information_display c =
     (case ci_address c of
        Some a \<Rightarrow> join 32 [ci_network_type c, ci_address_type c, address_display a]
      | None \<Rightarrow> join 32 [ci_network_type c, ci_address_type c])"

definition bandwidth_display :: "bandwidth \<Rightarrow> bytes" where
  "bandwidth_display b = (if bw_experimental b then ascii ''X-'' else []) @ bw_type b @ [58] @ show_u64 (bw_bandwidth b)"

definition attribute_display :: "sdp_attribute \<Rightarrow> bytes" where
  "attribute_display a = (case attr_value a of Some v \<Rightarrow> attr_key a @ [58] @ v | None \<Rightarrow> attr_key a)"

definition time_zone_display :: "time_zone \<Rightarrow> bytes" where
  "time_zone_display z = join 32 [show_u64 (tz_adjustment_time z), show_int (tz_offset z)]"

definition timing_display :: "timing \<Rightarrow> bytes" where
  "timing_display t = join 32 [show_u64 (tm_start_time t), show_u64 (tm_stop_time t)]"

definition repeat_time_display :: "repeat_time \<Rightarrow> bytes" where
  "repeat_time_display r = join 32 ([show_int (rt_interval r), show_int (rt_duration r)] @ map show_int (rt_offsets r))"

definition ranged_port_display :: "ranged_port \<Rightarrow> bytes" where
  "ranged_port_display p = (case rp_range p of Some r \<Rightarrow> join 47 [show_int (rp_value p), show_int r] | None \<Rightarrow> show_int (rp_value p))"

definition media_name_display :: "media_name \<Rightarrow> bytes" where
  "media_name_display m = join 32 [mn_media m, ranged_port_display (mn_port m), join 47 (mn_protos m), join 32 (mn_formats m)]"

definition END_LINE :: bytes where "END_LINE = [13, 10]"

definition key_value_build :: "bytes \<Rightarrow> bytes option \<Rightarrow> bytes" where
  "key_value_build key value = (case value of Some v \<Rightarrow> key @ v @ END_LINE | None \<Rightarrow> [])"

text \<open>The part of \<^verbatim>\<open>marshal\<close> for one time description and for one media description.\<close>

definition marshal_time_description :: "time_description \<Rightarrow> bytes" where
  "marshal_time_description t = key_value_build (ascii ''t='') (Some (timing_display (td_timing t))) @
     concat (map (\<lambda>r. key_value_build (ascii ''r='') (Some (repeat_time_display r))) (td_repeat_times t))"

definition marshal_media_description :: "media_description \<Rightarrow> bytes" where
  "marshal_media_description m =
     key_value_build (ascii ''m='') (Some (media_name_display (md_media_name m))) @
     key_value_build (ascii ''i='') (md_media_title m) @
     key_value_build (ascii ''c='') (map_option connection_information_display (md_connection_information m)) @
     concat (map (\<lambda>b. key_value_build (ascii ''b='') (Some (bandwidth_display b))) (md_bandwidth m)) @
     key_value_build (ascii ''k='') (md_encryption_key m) @
     concat (map (\<lambda>a. key_value_build (ascii ''a='') (Some (attribute_display a))) (md_attributes m))"

definition sdp_marshal :: "session_description \<Rightarrow> bytes" where
  "sdp_marshal d =
     key_value_build (ascii ''v='') (Some (show_int (sd_version d))) @
     key_value_build (ascii ''o='') (Some (origin_display (sd_origin d))) @
     key_value_build (ascii ''s='') (Some (sd_session_name d)) @
     key_value_build (ascii ''i='') (sd_session_information d) @
     key_value_build (ascii ''u='') (sd_uri d) @
     key_value_build (ascii ''e='') (sd_email_address d) @
     key_value_build (ascii ''p='') (sd_phone_number d) @
     key_value_build (ascii ''c='') (map_option connection_information_display (sd_connection_information d)) @
     concat (map (\<lambda>b. key_value_build (ascii ''b='') (Some (bandwidth_display b))) (sd_bandwidth d)) @
     concat (map marshal_time_description (sd_time_descriptions d)) @
     (if sd_time_zones d \<noteq> [] then key_value_build (ascii ''z='') (Some (join 32 (map time_zone_display (sd_time_zones d)))) else []) @
     key_value_build (ascii ''k='') (sd_encryption_key d) @
     concat (map (\<lambda>a. key_value_build (ascii ''a='') (Some (attribute_display a))) (sd_attributes d)) @
     concat (map marshal_media_description (sd_media_descriptions d))"

section \<open>Building a description\<close>

definition attribute_new :: "bytes \<Rightarrow> bytes option \<Rightarrow> sdp_attribute" where
  "attribute_new k v = \<lparr>attr_key = k, attr_value = v\<rparr>"

definition is_ice_candidate :: "sdp_attribute \<Rightarrow> bool" where
  "is_ice_candidate a \<longleftrightarrow> attr_key a = ascii ''candidate''"

definition with_property_attribute :: "bytes \<Rightarrow> session_description \<Rightarrow> session_description" where
  "with_property_attribute key d = d\<lparr>sd_attributes := sd_attributes d @ [attribute_new key None]\<rparr>"

definition with_value_attribute :: "bytes \<Rightarrow> bytes \<Rightarrow> session_description \<Rightarrow> session_description" where
  "with_value_attribute key v d = d\<lparr>sd_attributes := sd_attributes d @ [attribute_new key (Some v)]\<rparr>"

definition with_fingerprint :: "bytes \<Rightarrow> bytes \<Rightarrow> session_description \<Rightarrow> session_description" where
  "with_fingerprint algorithm v = with_value_attribute (ascii ''fingerprint'') (algorithm @ [32] @ v)"

definition with_media :: "media_description \<Rightarrow> session_description \<Rightarrow> session_description" where
  "with_media m d = d\<lparr>sd_media_descriptions := sd_media_descriptions d @ [m]\<rparr>"

definition sdp_attribute_value :: "bytes \<Rightarrow> session_description \<Rightarrow> bytes option" where
  "sdp_attribute_value key d = (case find (\<lambda>a. attr_key a = key) (sd_attributes d) of Some a \<Rightarrow> attr_value a | None \<Rightarrow> None)"

definition media_attribute :: "bytes \<Rightarrow> media_description \<Rightarrow> bytes option option" where
  "media_attribute key m = map_option attr_value (find (\<lambda>a. attr_key a = key) (md_attributes m))"

definition media_with_property_attribute :: "bytes \<Rightarrow> media_description \<Rightarrow> media_description" where
  "media_with_property_attribute key m = m\<lparr>md_attributes := md_attributes m @ [attribute_new key None]\<rparr>"

definition media_with_value_attribute :: "bytes \<Rightarrow> bytes \<Rightarrow> media_description \<Rightarrow> media_description" where
  "media_with_value_attribute key v m = m\<lparr>md_attributes := md_attributes m @ [attribute_new key (Some v)]\<rparr>"

definition media_with_fingerprint :: "bytes \<Rightarrow> bytes \<Rightarrow> media_description \<Rightarrow> media_description" where
  "media_with_fingerprint algorithm v = media_with_value_attribute (ascii ''fingerprint'') (algorithm @ [32] @ v)"

definition with_ice_credentials :: "bytes \<Rightarrow> bytes \<Rightarrow> media_description \<Rightarrow> media_description" where
  "with_ice_credentials username password m =
     media_with_value_attribute (ascii ''ice-pwd'') password (media_with_value_attribute (ascii ''ice-ufrag'') username m)"

text \<open>\<open>random\<close> is the random number of \<^verbatim>\<open>new_session_id\<close>, \<open>nanos\<close> the clock reading.\<close>

definition new_session_id :: "u64 \<Rightarrow> u64" where
  "new_session_id random = random AND ((- 1) XOR push_bit 63 1)"

definition new_jsep_session_description :: "u64 \<Rightarrow> u32 \<Rightarrow> bool \<Rightarrow> session_description" where
  "new_jsep_session_description random nanos identity =
     (let d = \<lparr>sd_version = 0,
            sd_origin = \<lparr>og_username = ascii ''-'', og_session_id = new_session_id random, og_session_version = ucast nanos,
              og_network_type = ascii ''IN'', og_address_type = ascii ''IP4'', og_unicast_address = ascii ''0.0.0.0''\<rparr>,
            sd_session_name = ascii ''-'', sd_session_information = None, sd_uri = None, sd_email_address = None, sd_phone_number = None,
            sd_connection_information = None, sd_bandwidth = [],
            sd_time_descriptions = [\<lparr>td_timing = \<lparr>tm_start_time = 0, tm_stop_time = 0\<rparr>, td_repeat_times = []\<rparr>],
            sd_time_zones = [], sd_encryption_key = None, sd_attributes = [], sd_media_descriptions = []\<rparr>
      in if identity then with_property_attribute (ascii ''identity'') d else d)"

end
