(* ===== verification/Sdp_Parser.thy ===== *)
theory Sdp_Parser
  imports Sdp_Session
begin

text \<open>
  The parser of session descriptions (\<^verbatim>\<open>crates/sdp/lexer/\<close> and the second half of \<^verbatim>\<open>description/session.rs\<close>). A state function of the
  source is a value of \<open>state_fn\<close>, and \<open>run_fn\<close> calls the function it names; the loop of \<^verbatim>\<open>unmarshal\<close> is a recursive function whose
  termination is proved: every line read consumes at least two bytes.
\<close>

section \<open>Lexer\<close>

record lexer =
  lx_desc :: session_description
  lx_rest :: bytes

fun read_until :: "u8 \<Rightarrow> bytes \<Rightarrow> bytes \<times> bytes" where
  "read_until c [] = ([], [])"
| "read_until c (b # s) = (if b = c then ([b], s) else case read_until c s of (x, y) \<Rightarrow> (b # x, y))"

definition syntax_error :: "bytes \<Rightarrow> 'a sdp_result" where
  "syntax_error key = (if utf8_ok key then Err (SdpInvalidSyntax key) else Err Sdp_Utf8)"

fun read_type :: "bytes \<Rightarrow> ((bytes \<times> nat) \<times> bytes) sdp_result" where
  "read_type [] = Ok (([], 0), [])"
| "read_type (b # s) =
     (if b = 10 \<or> b = 13 then read_type s
      else case read_until 61 (b # s) of
          (buf, rest) \<Rightarrow> if length buf = 2 then Ok ((buf, length buf), rest) else syntax_error buf)"

definition sdp_read_value :: "bytes \<Rightarrow> ((bytes \<times> nat) \<times> bytes) sdp_result" where
  "sdp_read_value s = (case read_until 10 s of (line, rest) \<Rightarrow> if utf8_ok line then Ok ((trim line, length line), rest) else Err Sdp_Io)"

definition index_of :: "bytes \<Rightarrow> bytes list \<Rightarrow> int" where
  "index_of element data = (case find (\<lambda>k. data ! k = element) [0..<length data] of Some k \<Rightarrow> int k | None \<Rightarrow> - 1)"

datatype state_fn = S1 | S2 | S3 | S4 | S5 | S6 | S7 | S8 | S9 | S10 | S11 | S12 | S13 | S14 | S15 | S16
  | U_protocol_version | U_origin | U_session_name | U_session_information | U_uri | U_email | U_phone
  | U_session_connection_information | U_session_bandwidth | U_timing | U_repeat_times | U_time_zones | U_session_encryption_key
  | U_session_attribute | U_media_description | U_media_title | U_media_connection_information | U_media_bandwidth
  | U_media_encryption_key | U_media_attribute

type_synonym next_fn = "(state_fn option \<times> lexer) sdp_result"

section \<open>Types of lines\<close>

text \<open>The frame of the functions \<^verbatim>\<open>s1\<close> to \<^verbatim>\<open>s16\<close>: \<open>may_end\<close> for those that accept the end of the input.\<close>

definition read_line_type :: "bool \<Rightarrow> (bytes \<times> state_fn) list \<Rightarrow> lexer \<Rightarrow> next_fn" where
  "read_line_type may_end table lx =
     obind (read_type (lx_rest lx)) (\<lambda>((key, num_bytes), rest).
       let lx = lx\<lparr>lx_rest := rest\<rparr> in
       if may_end \<and> key = [] \<and> num_bytes = 0 then Ok (None, lx)
       else case map_of table key of Some f \<Rightarrow> Ok (Some f, lx) | None \<Rightarrow> syntax_error key)"

definition s1 :: "lexer \<Rightarrow> next_fn" where "s1 = read_line_type False [(ascii ''v='', U_protocol_version)]"
definition s2 :: "lexer \<Rightarrow> next_fn" where "s2 = read_line_type False [(ascii ''o='', U_origin)]"
definition s3 :: "lexer \<Rightarrow> next_fn" where "s3 = read_line_type False [(ascii ''s='', U_session_name)]"

definition s4 :: "lexer \<Rightarrow> next_fn" where
  "s4 = read_line_type False [(ascii ''i='', U_session_information), (ascii ''u='', U_uri), (ascii ''e='', U_email), (ascii ''p='', U_phone),
     (ascii ''c='', U_session_connection_information), (ascii ''b='', U_session_bandwidth), (ascii ''t='', U_timing)]"

definition s5 :: "lexer \<Rightarrow> next_fn" where
  "s5 = read_line_type False [(ascii ''b='', U_session_bandwidth), (ascii ''t='', U_timing)]"

definition s6 :: "lexer \<Rightarrow> next_fn" where
  "s6 = read_line_type False [(ascii ''p='', U_phone), (ascii ''c='', U_session_connection_information), (ascii ''b='', U_session_bandwidth),
     (ascii ''t='', U_timing)]"

definition s7 :: "lexer \<Rightarrow> next_fn" where
  "s7 = read_line_type False [(ascii ''u='', U_uri), (ascii ''e='', U_email), (ascii ''p='', U_phone),
     (ascii ''c='', U_session_connection_information), (ascii ''b='', U_session_bandwidth), (ascii ''t='', U_timing)]"

definition s8 :: "lexer \<Rightarrow> next_fn" where
  "s8 = read_line_type False [(ascii ''c='', U_session_connection_information), (ascii ''b='', U_session_bandwidth), (ascii ''t='', U_timing)]"

definition s9 :: "lexer \<Rightarrow> next_fn" where
  "s9 = read_line_type True [(ascii ''z='', U_time_zones), (ascii ''k='', U_session_encryption_key), (ascii ''a='', U_session_attribute),
     (ascii ''r='', U_repeat_times), (ascii ''t='', U_timing), (ascii ''m='', U_media_description)]"

definition s10 :: "lexer \<Rightarrow> next_fn" where
  "s10 = read_line_type False [(ascii ''e='', U_email), (ascii ''p='', U_phone), (ascii ''c='', U_session_connection_information),
     (ascii ''b='', U_session_bandwidth), (ascii ''t='', U_timing)]"

definition s11 :: "lexer \<Rightarrow> next_fn" where
  "s11 = read_line_type True [(ascii ''a='', U_session_attribute), (ascii ''m='', U_media_description)]"

definition s12 :: "lexer \<Rightarrow> next_fn" where
  "s12 = read_line_type True [(ascii ''a='', U_media_attribute), (ascii ''k='', U_media_encryption_key), (ascii ''b='', U_media_bandwidth),
     (ascii ''c='', U_media_connection_information), (ascii ''i='', U_media_title), (ascii ''m='', U_media_description)]"

definition s13 :: "lexer \<Rightarrow> next_fn" where
  "s13 = read_line_type True [(ascii ''a='', U_session_attribute), (ascii ''k='', U_session_encryption_key), (ascii ''m='', U_media_description)]"

definition s14 :: "lexer \<Rightarrow> next_fn" where
  "s14 = read_line_type True [(ascii ''a='', U_media_attribute), (ascii ''k='', U_media_encryption_key), (ascii ''b='', U_media_bandwidth),
     (ascii ''c='', U_media_connection_information), (ascii ''i='', U_media_title), (ascii ''m='', U_media_description)]"

definition s15 :: "lexer \<Rightarrow> next_fn" where
  "s15 = read_line_type True [(ascii ''a='', U_media_attribute), (ascii ''k='', U_media_encryption_key), (ascii ''b='', U_media_bandwidth),
     (ascii ''c='', U_media_connection_information), (ascii ''i='', U_media_title), (ascii ''m='', U_media_description)]"

definition s16 :: "lexer \<Rightarrow> next_fn" where
  "s16 = read_line_type True [(ascii ''a='', U_media_attribute), (ascii ''k='', U_media_encryption_key),
     (ascii ''c='', U_media_connection_information), (ascii ''b='', U_media_bandwidth), (ascii ''i='', U_media_title),
     (ascii ''m='', U_media_description)]"

section \<open>Values of lines\<close>

text \<open>The frame of the functions that read a value: \<open>use\<close> turns the value and the description into the new description.\<close>

definition read_line_value :: "(bytes \<Rightarrow> session_description \<Rightarrow> session_description sdp_result) \<Rightarrow> state_fn \<Rightarrow> lexer \<Rightarrow> next_fn" where
  "read_line_value f s lx =
     obind (sdp_read_value (lx_rest lx)) (\<lambda>((v, _), rest).
       obind (f v (lx_desc lx)) (\<lambda>d. Ok (Some s, lx\<lparr>lx_desc := d, lx_rest := rest\<rparr>)))"

definition parsed :: "'a option \<Rightarrow> 'a sdp_result" where
  "parsed x = (case x of Some y \<Rightarrow> Ok y | None \<Rightarrow> Err Sdp_ParseInt)"

definition quoted :: "string \<Rightarrow> bytes \<Rightarrow> bytes" where
  "quoted k v = ascii ''`'' @ ascii k @ v @ ascii ''`''"

definition unmarshal_protocol_version :: "bytes \<Rightarrow> session_description \<Rightarrow> session_description sdp_result" where
  "unmarshal_protocol_version v d =
     obind (parsed (parse_u32 v)) (\<lambda>version. if version \<noteq> 0 then Err (SdpInvalidSyntax v) else Ok d)"

definition unmarshal_origin :: "bytes \<Rightarrow> session_description \<Rightarrow> session_description sdp_result" where
  "unmarshal_origin v d =
     (let fields = split_whitespace v in
      if length fields \<noteq> 6 then Err (SdpInvalidSyntax (quoted ''o='' v))
      else obind (parsed (parse_u64 (fields ! 1))) (\<lambda>session_id. obind (parsed (parse_u64 (fields ! 2))) (\<lambda>session_version.
        if index_of (fields ! 3) [ascii ''IN''] = - 1 then Err (SdpInvalidValue (fields ! 3))
        else if index_of (fields ! 4) [ascii ''IP4'', ascii ''IP6''] = - 1 then Err (SdpInvalidValue (fields ! 4))
        else Ok (d\<lparr>sd_origin := \<lparr>og_username = fields ! 0, og_session_id = session_id, og_session_version = session_version,
               og_network_type = fields ! 3, og_address_type = fields ! 4, og_unicast_address = fields ! 5\<rparr>\<rparr>))))"

definition unmarshal_connection_information :: "bytes \<Rightarrow> connection_information option sdp_result" where
  "unmarshal_connection_information v =
     (let fields = split_whitespace v in
      if length fields < 2 then Err (SdpInvalidSyntax (quoted ''c='' v))
      else if index_of (fields ! 0) [ascii ''IN''] = - 1 then Err (SdpInvalidValue (fields ! 0))
      else if index_of (fields ! 1) [ascii ''IP4'', ascii ''IP6''] = - 1 then Err (SdpInvalidValue (fields ! 1))
      else Ok (Some \<lparr>ci_network_type = fields ! 0, ci_address_type = fields ! 1,
        ci_address = (if length fields > 2 then Some \<lparr>ad_address = fields ! 2, ad_ttl = None, ad_range = None\<rparr> else None)\<rparr>))"

text \<open>\<^verbatim>\<open>trim_start_matches("X-")\<close>\<close>

fun trim_experimental :: "bytes \<Rightarrow> bytes" where
  "trim_experimental (a # b # s) = (if a = 88 \<and> b = 45 then trim_experimental s else a # b # s)"
| "trim_experimental s = s"

definition unmarshal_bandwidth :: "bytes \<Rightarrow> bandwidth sdp_result" where
  "unmarshal_bandwidth v =
     (let parts = split_char 58 v in
      if length parts \<noteq> 2 then Err (SdpInvalidSyntax (quoted ''b='' v))
      else
        let experimental = (take 2 (parts ! 0) = ascii ''X-'');
            bandwidth_type = (if experimental then trim_experimental (parts ! 0) else parts ! 0)
        in if \<not> experimental \<and> index_of (parts ! 0) [ascii ''CT'', ascii ''AS''] = - 1 then Err (SdpInvalidValue (parts ! 0))
           else obind (parsed (parse_u64 (parts ! 1))) (\<lambda>b.
             Ok \<lparr>bw_experimental = experimental, bw_type = bandwidth_type, bw_bandwidth = b\<rparr>))"

definition unmarshal_timing :: "bytes \<Rightarrow> session_description \<Rightarrow> session_description sdp_result" where
  "unmarshal_timing v d =
     (let fields = split_whitespace v in
      if length fields < 2 then Err (SdpInvalidSyntax (quoted ''t='' v))
      else obind (parsed (parse_u64 (fields ! 0))) (\<lambda>start_time. obind (parsed (parse_u64 (fields ! 1))) (\<lambda>stop_time.
        Ok (d\<lparr>sd_time_descriptions := sd_time_descriptions d @
          [\<lparr>td_timing = \<lparr>tm_start_time = start_time, tm_stop_time = stop_time\<rparr>, td_repeat_times = []\<rparr>]\<rparr>))))"

text \<open>\<^verbatim>\<open>checked_mul\<close> on \<^verbatim>\<open>i64\<close>\<close>

definition parse_time_units :: "bytes \<Rightarrow> int sdp_result" where
  "parse_time_units v =
     (let (num, factor) =
        (if v = [] then (v, 1)
         else if last v = 100 then (butlast v, 86400)
         else if last v = 104 then (butlast v, 3600)
         else if last v = 109 then (butlast v, 60)
         else if last v = 115 then (butlast v, 1)
         else (v, 1))
      in obind (parsed (parse_i64 num)) (\<lambda>n.
           if - (2 ^ 63) \<le> n * factor \<and> n * factor < 2 ^ 63 then Ok (n * factor) else Err (SdpInvalidValue v)))"

fun map_result :: "('a \<Rightarrow> 'b sdp_result) \<Rightarrow> 'a list \<Rightarrow> 'b list sdp_result" where
  "map_result f [] = Ok []"
| "map_result f (x # xs) = obind (f x) (\<lambda>y. obind (map_result f xs) (\<lambda>ys. Ok (y # ys)))"

text \<open>\<^verbatim>\<open>last_mut\<close>: change the latest element; the error when there is none is that of the source.\<close>

definition update_latest :: "('a \<Rightarrow> 'a sdp_result) \<Rightarrow> 'a list \<Rightarrow> 'a list sdp_result" where
  "update_latest f xs = (if xs = [] then Err SdpEmptyTimeDescription else obind (f (last xs)) (\<lambda>x. Ok (butlast xs @ [x])))"

definition unmarshal_repeat_times :: "bytes \<Rightarrow> session_description \<Rightarrow> session_description sdp_result" where
  "unmarshal_repeat_times v d =
     (let fields = split_whitespace v in
      if length fields < 3 then Err (SdpInvalidSyntax (quoted ''r='' v))
      else obind (update_latest (\<lambda>t.
             obind (parse_time_units (fields ! 0)) (\<lambda>interval. obind (parse_time_units (fields ! 1)) (\<lambda>duration.
             obind (map_result parse_time_units (drop 2 fields)) (\<lambda>offsets.
               Ok (t\<lparr>td_repeat_times := td_repeat_times t @ [\<lparr>rt_interval = interval, rt_duration = duration, rt_offsets = offsets\<rparr>]\<rparr>)))))
           (sd_time_descriptions d)) (\<lambda>ts. Ok (d\<lparr>sd_time_descriptions := ts\<rparr>)))"

fun time_zone_pairs :: "bytes list \<Rightarrow> time_zone list sdp_result" where
  "time_zone_pairs (a # b # fs) =
     obind (parsed (parse_u64 a)) (\<lambda>adjustment_time. obind (parse_time_units b) (\<lambda>offset. obind (time_zone_pairs fs) (\<lambda>zs.
       Ok (\<lparr>tz_adjustment_time = adjustment_time, tz_offset = offset\<rparr> # zs))))"
| "time_zone_pairs fs = Ok []"

definition unmarshal_time_zones :: "bytes \<Rightarrow> session_description \<Rightarrow> session_description sdp_result" where
  "unmarshal_time_zones v d =
     (let fields = split_whitespace v in
      if length fields mod 2 \<noteq> 0 then Err (SdpInvalidSyntax (quoted ''t='' v))
      else obind (time_zone_pairs fields) (\<lambda>zs. Ok (d\<lparr>sd_time_zones := sd_time_zones d @ zs\<rparr>)))"

definition parse_attribute :: "bytes \<Rightarrow> sdp_attribute" where
  "parse_attribute v =
     (let fields = splitn2 58 v in
      if length fields = 2 then \<lparr>attr_key = fields ! 0, attr_value = Some (fields ! 1)\<rparr> else \<lparr>attr_key = fields ! 0, attr_value = None\<rparr>)"

definition MEDIA_TYPES :: "bytes list" where
  "MEDIA_TYPES = [ascii ''audio'', ascii ''video'', ascii ''text'', ascii ''application'', ascii ''message'']"

definition PROTOS :: "bytes list" where
  "PROTOS = [ascii ''UDP'', ascii ''RTP'', ascii ''AVP'', ascii ''SAVP'', ascii ''SAVPF'', ascii ''TLS'', ascii ''DTLS'', ascii ''SCTP'', ascii ''AVPF'']"

definition parse_port :: "bytes \<Rightarrow> ranged_port sdp_result" where
  "parse_port field =
     (let parts = split_char 47 field in
      obind (parsed (parse_u16 (parts ! 0))) (\<lambda>port.
      obind (if length parts > 1 then obind (parsed (parse_i32 (parts ! 1))) (\<lambda>r. Ok (Some r)) else Ok None) (\<lambda>range.
        Ok \<lparr>rp_value = uint port, rp_range = range\<rparr>)))"

definition unmarshal_media_name :: "bytes \<Rightarrow> media_name sdp_result" where
  "unmarshal_media_name v =
     (let fields = split_whitespace v in
      if length fields < 4 then Err (SdpInvalidSyntax (quoted ''m='' v))
      else if index_of (fields ! 0) MEDIA_TYPES = - 1 then Err (SdpInvalidValue (fields ! 0))
      else obind (parse_port (fields ! 1)) (\<lambda>port.
        obind (map_result (\<lambda>proto. if index_of proto PROTOS = - 1 then Err (SdpInvalidValue (fields ! 2)) else Ok proto) (split_char 47 (fields ! 2)))
          (\<lambda>protos. Ok \<lparr>mn_media = fields ! 0, mn_port = port, mn_protos = protos, mn_formats = drop 3 fields\<rparr>)))"

definition unmarshal_media_description :: "bytes \<Rightarrow> session_description \<Rightarrow> session_description sdp_result" where
  "unmarshal_media_description v d =
     obind (unmarshal_media_name v) (\<lambda>name. Ok (with_media \<lparr>md_media_name = name, md_media_title = None, md_connection_information = None,
       md_bandwidth = [], md_encryption_key = None, md_attributes = []\<rparr> d))"

text \<open>The functions that change the latest media description.\<close>

definition on_latest_media :: "(media_description \<Rightarrow> media_description sdp_result) \<Rightarrow> session_description \<Rightarrow> session_description sdp_result" where
  "on_latest_media f d = obind (update_latest f (sd_media_descriptions d)) (\<lambda>ms. Ok (d\<lparr>sd_media_descriptions := ms\<rparr>))"

definition unmarshal_media_title :: "bytes \<Rightarrow> session_description \<Rightarrow> session_description sdp_result" where
  "unmarshal_media_title v = on_latest_media (\<lambda>m. Ok (m\<lparr>md_media_title := Some v\<rparr>))"

definition unmarshal_media_connection_information :: "bytes \<Rightarrow> session_description \<Rightarrow> session_description sdp_result" where
  "unmarshal_media_connection_information v =
     on_latest_media (\<lambda>m. obind (unmarshal_connection_information v) (\<lambda>c. Ok (m\<lparr>md_connection_information := c\<rparr>)))"

definition unmarshal_media_bandwidth :: "bytes \<Rightarrow> session_description \<Rightarrow> session_description sdp_result" where
  "unmarshal_media_bandwidth v = on_latest_media (\<lambda>m. obind (unmarshal_bandwidth v) (\<lambda>b. Ok (m\<lparr>md_bandwidth := md_bandwidth m @ [b]\<rparr>)))"

definition unmarshal_media_encryption_key :: "bytes \<Rightarrow> session_description \<Rightarrow> session_description sdp_result" where
  "unmarshal_media_encryption_key v = on_latest_media (\<lambda>m. Ok (m\<lparr>md_encryption_key := Some v\<rparr>))"

definition unmarshal_media_attribute :: "bytes \<Rightarrow> session_description \<Rightarrow> session_description sdp_result" where
  "unmarshal_media_attribute v = on_latest_media (\<lambda>m. Ok (m\<lparr>md_attributes := md_attributes m @ [parse_attribute v]\<rparr>))"

definition unmarshal_uri :: "(bytes \<Rightarrow> bytes option) \<Rightarrow> bytes \<Rightarrow> session_description \<Rightarrow> session_description sdp_result" where
  "unmarshal_uri parse_url v d = (case parse_url v of Some u \<Rightarrow> Ok (d\<lparr>sd_uri := Some u\<rparr>) | None \<Rightarrow> Err Sdp_ParseUrl)"

definition unmarshal_session_name :: "bytes \<Rightarrow> session_description \<Rightarrow> session_description sdp_result" where
  "unmarshal_session_name v d = Ok (d\<lparr>sd_session_name := v\<rparr>)"
definition unmarshal_session_information :: "bytes \<Rightarrow> session_description \<Rightarrow> session_description sdp_result" where
  "unmarshal_session_information v d = Ok (d\<lparr>sd_session_information := Some v\<rparr>)"
definition unmarshal_email :: "bytes \<Rightarrow> session_description \<Rightarrow> session_description sdp_result" where
  "unmarshal_email v d = Ok (d\<lparr>sd_email_address := Some v\<rparr>)"
definition unmarshal_phone :: "bytes \<Rightarrow> session_description \<Rightarrow> session_description sdp_result" where
  "unmarshal_phone v d = Ok (d\<lparr>sd_phone_number := Some v\<rparr>)"
definition unmarshal_session_connection_information :: "bytes \<Rightarrow> session_description \<Rightarrow> session_description sdp_result" where
  "unmarshal_session_connection_information v d =
     obind (unmarshal_connection_information v) (\<lambda>c. Ok (d\<lparr>sd_connection_information := c\<rparr>))"
definition unmarshal_session_bandwidth :: "bytes \<Rightarrow> session_description \<Rightarrow> session_description sdp_result" where
  "unmarshal_session_bandwidth v d = obind (unmarshal_bandwidth v) (\<lambda>b. Ok (d\<lparr>sd_bandwidth := sd_bandwidth d @ [b]\<rparr>))"
definition unmarshal_session_encryption_key :: "bytes \<Rightarrow> session_description \<Rightarrow> session_description sdp_result" where
  "unmarshal_session_encryption_key v d = Ok (d\<lparr>sd_encryption_key := Some v\<rparr>)"
definition unmarshal_session_attribute :: "bytes \<Rightarrow> session_description \<Rightarrow> session_description sdp_result" where
  "unmarshal_session_attribute v d = Ok (d\<lparr>sd_attributes := sd_attributes d @ [parse_attribute v]\<rparr>)"

section \<open>The loop\<close>

fun run_fn :: "(bytes \<Rightarrow> bytes option) \<Rightarrow> state_fn \<Rightarrow> lexer \<Rightarrow> next_fn" where
  "run_fn parse_url S1 = s1" | "run_fn parse_url S2 = s2" | "run_fn parse_url S3 = s3" | "run_fn parse_url S4 = s4"
| "run_fn parse_url S5 = s5" | "run_fn parse_url S6 = s6" | "run_fn parse_url S7 = s7" | "run_fn parse_url S8 = s8"
| "run_fn parse_url S9 = s9" | "run_fn parse_url S10 = s10" | "run_fn parse_url S11 = s11" | "run_fn parse_url S12 = s12"
| "run_fn parse_url S13 = s13" | "run_fn parse_url S14 = s14" | "run_fn parse_url S15 = s15" | "run_fn parse_url S16 = s16"
| "run_fn parse_url U_protocol_version = read_line_value unmarshal_protocol_version S2"
| "run_fn parse_url U_origin = read_line_value unmarshal_origin S3"
| "run_fn parse_url U_session_name = read_line_value unmarshal_session_name S4"
| "run_fn parse_url U_session_information = read_line_value unmarshal_session_information S7"
| "run_fn parse_url U_uri = read_line_value (unmarshal_uri parse_url) S10"
| "run_fn parse_url U_email = read_line_value unmarshal_email S6"
| "run_fn parse_url U_phone = read_line_value unmarshal_phone S8"
| "run_fn parse_url U_session_connection_information = read_line_value unmarshal_session_connection_information S5"
| "run_fn parse_url U_session_bandwidth = read_line_value unmarshal_session_bandwidth S5"
| "run_fn parse_url U_timing = read_line_value unmarshal_timing S9"
| "run_fn parse_url U_repeat_times = read_line_value unmarshal_repeat_times S9"
| "run_fn parse_url U_time_zones = read_line_value unmarshal_time_zones S13"
| "run_fn parse_url U_session_encryption_key = read_line_value unmarshal_session_encryption_key S11"
| "run_fn parse_url U_session_attribute = read_line_value unmarshal_session_attribute S11"
| "run_fn parse_url U_media_description = read_line_value unmarshal_media_description S12"
| "run_fn parse_url U_media_title = read_line_value unmarshal_media_title S16"
| "run_fn parse_url U_media_connection_information = read_line_value unmarshal_media_connection_information S15"
| "run_fn parse_url U_media_bandwidth = read_line_value unmarshal_media_bandwidth S15"
| "run_fn parse_url U_media_encryption_key = read_line_value unmarshal_media_encryption_key S14"
| "run_fn parse_url U_media_attribute = read_line_value unmarshal_media_attribute S14"

definition reads_type :: "state_fn \<Rightarrow> bool" where
  "reads_type f \<longleftrightarrow> f \<in> {S1, S2, S3, S4, S5, S6, S7, S8, S9, S10, S11, S12, S13, S14, S15, S16}"

lemma read_until_length: "read_until c s = (x, y) \<Longrightarrow> length x + length y = length s"
  by (induction s arbitrary: x y) (auto split: if_splits prod.splits)

lemma read_type_length: "read_type s = Ok ((key, n), rest) \<Longrightarrow> length key + length rest \<le> length s \<and> n = length key"
  by (induction s) (auto simp: syntax_error_def split: if_splits prod.splits dest: read_until_length)

lemma read_type_key: "read_type s = Ok ((key, n), rest) \<Longrightarrow> key = [] \<or> length key = 2"
  by (induction s) (auto simp: syntax_error_def split: if_splits prod.splits)

text \<open>A type takes at least two bytes from the input and leads to a value; a value takes none at worst and leads to a type.\<close>

lemma read_line_type_next:
  assumes "read_line_type may_end table lx = Ok (Some f, lx')" and "[] \<notin> fst ` set table"
  shows "length (lx_rest lx') + 2 \<le> length (lx_rest lx) \<and> f \<in> snd ` set table"
proof -
  from assms(1) obtain key n rest where r: "read_type (lx_rest lx) = Ok ((key, n), rest)" "map_of table key = Some f" "lx' = lx\<lparr>lx_rest := rest\<rparr>"
    by (auto simp: read_line_type_def obind_eq_Ok Let_def syntax_error_def split: if_splits option.splits prod.splits)
  have "key \<noteq> []" using r(2) assms(2) by (force dest: map_of_SomeD)
  with read_type_key [OF r(1)] read_type_length [OF r(1)] r(2,3) show ?thesis by (force dest: map_of_SomeD)
qed

lemma read_line_value_next: "read_line_value f s lx = Ok (g, lx') \<Longrightarrow> length (lx_rest lx') \<le> length (lx_rest lx) \<and> g = Some s"
  by (auto simp: read_line_value_def sdp_read_value_def obind_eq_Ok split: prod.splits if_splits dest: read_until_length)

lemmas state_defs = s1_def s2_def s3_def s4_def s5_def s6_def s7_def s8_def s9_def s10_def s11_def s12_def s13_def s14_def s15_def s16_def

lemma run_fn_next:
  assumes "run_fn parse_url f lx = Ok (Some g, lx')"
  shows "if reads_type f then length (lx_rest lx') + 2 \<le> length (lx_rest lx) \<and> \<not> reads_type g
    else length (lx_rest lx') \<le> length (lx_rest lx) \<and> reads_type g"
  using assms
  by (cases f) (auto simp: reads_type_def state_defs ascii_def dest!: read_line_type_next read_line_value_next)

function unmarshal_loop :: "(bytes \<Rightarrow> bytes option) \<Rightarrow> state_fn \<Rightarrow> lexer \<Rightarrow> session_description sdp_result" where
  "unmarshal_loop parse_url f lx =
     (case run_fn parse_url f lx of
        Ok (Some g, lx') \<Rightarrow> unmarshal_loop parse_url g lx'
      | Ok (None, lx') \<Rightarrow> Ok (lx_desc lx')
      | Err e \<Rightarrow> Err e
      | Panic \<Rightarrow> Panic)"
  by pat_completeness auto
termination
  by (relation "measure (\<lambda>(_, f, lx). 2 * length (lx_rest lx) + (if reads_type f then 1 else 2))")
    (auto dest!: run_fn_next split: if_splits)

declare unmarshal_loop.simps [simp del]

definition empty_description :: session_description where
  "empty_description = \<lparr>sd_version = 0, sd_origin = origin_new, sd_session_name = [], sd_session_information = None, sd_uri = None,
     sd_email_address = None, sd_phone_number = None, sd_connection_information = None, sd_bandwidth = [], sd_time_descriptions = [],
     sd_time_zones = [], sd_encryption_key = None, sd_attributes = [], sd_media_descriptions = []\<rparr>"

definition sdp_unmarshal :: "(bytes \<Rightarrow> bytes option) \<Rightarrow> bytes \<Rightarrow> session_description sdp_result" where
  "sdp_unmarshal parse_url raw = unmarshal_loop parse_url S1 \<lparr>lx_desc = empty_description, lx_rest = raw\<rparr>"

end
