(* ===== verification/Sdp_Roundtrip.thy ===== *)
theory Sdp_Roundtrip
  imports Sdp_Parser
begin

text \<open>
  What the parser of session descriptions promises: a description that \<^verbatim>\<open>marshal\<close> writes from well-formed fields is read back unchanged, and
  every description that \<^verbatim>\<open>unmarshal\<close> accepts is well typed. The round trip follows the parser line by line: \<open>runs\<close> says that the loop
  gets from one set of states to another while it consumes the text of a section.
\<close>

section \<open>Lines\<close>

definition line_text :: "bytes \<Rightarrow> bool" where
  "line_text v \<longleftrightarrow> trim v = v \<and> 10 \<notin> set v \<and> utf8_ok v"

lemma white_space_le: "white_space s \<le> length s"
  by (auto simp: white_space_def split: list.splits)

lemma white_space_end_line: "v \<noteq> [] \<Longrightarrow> white_space (v @ 13 # s) = white_space v"
  by (auto simp: white_space_def split: list.splits)

lemma length_trim_start: "length (trim_start s) \<le> length s"
  by (induction s rule: trim_start.induct) (subst trim_start.simps, auto)

lemma length_trim_end: "length (trim_end s) \<le> length s"
proof (induction s rule: trim_end.induct)
  case (2 b s)
  show ?case
  proof (cases "white_space (b # s) = 0")
    case True
    with 2(1) show ?thesis by simp
  next
    case False
    have "white_space (b # s) \<le> length (b # s)" by (rule white_space_le)
    moreover from 2(2) [OF refl False] have "length (trim_end (drop (white_space (b # s)) (b # s))) \<le> length (b # s) - white_space (b # s)"
      by simp
    ultimately show ?thesis using False by (auto simp: Let_def)
  qed
qed simp

lemma trim_id:
  assumes "trim v = v"
  shows "white_space v = 0" and "trim_end v = v"
proof -
  have l: "length v \<le> length (trim_start v)" using assms length_trim_end [of "trim_start v"] by (simp add: trim_def)
  show w: "white_space v = 0"
  proof (rule ccontr)
    assume "white_space v \<noteq> 0"
    then have "length (trim_start v) \<le> length v - white_space v"
      using length_trim_start [of "drop (white_space v) v"] by (simp add: trim_start.simps [of v])
    with l \<open>white_space v \<noteq> 0\<close> white_space_le [of v] show False by simp
  qed
  then have "trim_start v = v" by (simp add: trim_start.simps [of v])
  with assms show "trim_end v = v" by (simp add: trim_def)
qed

lemma trim_end_line [simp]: "trim_end [13, 10] = []" "white_space [13, 10] = 1" "trim_start [13, 10] = []"
  by (simp_all add: white_space_def trim_start.simps)

lemma trim_end_end_line: "trim_end (v @ [13, 10]) = trim_end v"
proof (induction v rule: trim_end.induct)
  case (2 b s)
  let ?n = "white_space (b # s)"
  have n: "white_space ((b # s) @ [13, 10]) = ?n" by (rule white_space_end_line) simp
  have le: "?n \<le> length (b # s)" by (rule white_space_le)
  have d: "drop ?n (b # s @ [13, 10]) = drop ?n (b # s) @ [13, 10]" "take ?n (b # s @ [13, 10]) = take ?n (b # s)"
    using le drop_append [of ?n "b # s" "[13, 10]"] take_append [of ?n "b # s" "[13, 10]"] by simp_all
  show ?case
  proof (cases "?n = 0")
    case True
    with 2(1) n show ?thesis by simp
  next
    case False
    from 2(2) [OF refl this] d n False show ?thesis by (simp add: Let_def)
  qed
qed (simp only: append_Nil trim_end_line trim_end.simps(1))

lemma trim_line: "trim v = v \<Longrightarrow> trim (v @ END_LINE) = v"
proof (cases "v = []")
  case False
  assume v: "trim v = v"
  have "white_space (v @ [13, 10]) = 0" using trim_id(1) [OF v] white_space_end_line [OF False] by simp
  then show ?thesis using trim_id(2) [OF v] by (simp add: trim_def END_LINE_def trim_start.simps [of "v @ [13, 10]"] trim_end_end_line)
qed (simp add: trim_def END_LINE_def)

lemma utf8_ok_append: "utf8_ok u \<Longrightarrow> utf8_ok v \<Longrightarrow> utf8_ok (u @ v)"
proof (induction u rule: measure_induct_rule [of length])
  case (less u)
  show ?case
  proof (cases u)
    case (Cons a r)
    show ?thesis
    proof (cases "a < 0x80")
      case True
      with less Cons show ?thesis by simp
    next
      case False
      with less(2) Cons obtain b r2 where r: "r = b # r2" by (cases r) auto
      show ?thesis
      proof (cases "0xC2 \<le> a \<and> a \<le> 0xDF")
        case True
        with False less(1) [of r2] less(2,3) Cons r show ?thesis by simp
      next
        case two: False
        with False less(2) Cons r obtain c r3 where r2: "r2 = c # r3" by (cases r2) auto
        show ?thesis
        proof (cases "utf8_three a b c")
          case True
          with False two less(1) [of r3] less(2,3) Cons r r2 show ?thesis by (simp del: de_Morgan_conj)
        next
          case three: False
          with False two less(2) Cons r r2 obtain d r4 where "r3 = d # r4" by (cases r3) (auto simp del: de_Morgan_conj)
          with False two three less(1) [of r4] less(2,3) Cons r r2 show ?thesis by (simp del: de_Morgan_conj)
        qed
      qed
    qed
  qed (use less in simp)
qed

lemma read_until_line: "c \<notin> set v \<Longrightarrow> read_until c (v @ c # rest) = (v @ [c], rest)"
  by (induction v) auto

lemma read_value_line: "line_text v \<Longrightarrow> sdp_read_value (v @ END_LINE @ rest) = Ok ((v, length v + 2), rest)"
  using read_until_line [of 10 "v @ [13]" rest] trim_line [of v] utf8_ok_append [of v END_LINE]
  by (simp add: sdp_read_value_def line_text_def END_LINE_def)

section \<open>Texts\<close>

lemma white_space_ascii: "b < 0x80 \<Longrightarrow> white_space (b # s) \<le> 1"
proof -
  assume "b < 0x80"
  then have "b \<noteq> 0xC2" "b \<noteq> 0xE1" "b \<noteq> 0xE2" "b \<noteq> 0xE3" by (auto simp: word_less_nat_alt)
  then show ?thesis by (auto simp: white_space_def split: list.splits)
qed

lemma utf8_ok_ascii: "\<forall>b \<in> set v. b < 0x80 \<Longrightarrow> utf8_ok v"
  by (induction v) auto

lemma trim_end_ascii: "v \<noteq> [] \<Longrightarrow> \<forall>b \<in> set v. b < 0x80 \<Longrightarrow> 33 \<le> last v \<Longrightarrow> trim_end v = v"
proof (induction v)
  case (Cons b s)
  have w: "white_space (b # s) = 0 \<or> white_space (b # s) = 1" using white_space_ascii [of b s] Cons.prems by auto
  show ?case
  proof (cases "s = []")
    case True
    with Cons.prems show ?thesis by (simp add: white_space_plain)
  next
    case False
    with Cons have "trim_end s = s" by simp
    with w False show ?thesis by (auto simp: Let_def)
  qed
qed simp

lemma line_text_ascii:
  assumes "v \<noteq> []" and "\<forall>b \<in> set v. 32 \<le> b \<and> b < 0x80" and "33 \<le> hd v" and "33 \<le> last v"
  shows "line_text v"
proof -
  have "white_space v = 0" using assms by (cases v) (auto simp: white_space_plain)
  then have "trim_start v = v" by (simp add: trim_start.simps [of v])
  moreover have "10 \<notin> set v" using assms(2) by (auto simp: word_le_nat_alt)
  ultimately show ?thesis using trim_end_ascii [of v] utf8_ok_ascii [of v] assms by (simp add: line_text_def trim_def)
qed

lemma unwords_bytes:
  assumes "\<forall>w \<in> set ws. plain_word w" and "ws \<noteq> []"
  shows "unwords ws \<noteq> [] \<and> (\<forall>b \<in> set (unwords ws). 32 \<le> b \<and> b < 0x80) \<and> 33 \<le> hd (unwords ws) \<and> 33 \<le> last (unwords ws)"
  using assms
proof (induction ws rule: unwords.induct)
  case (2 w)
  then have "hd w \<in> set w" "last w \<in> set w" by (auto simp: plain_word_def)
  with 2 show ?case by (fastforce simp: plain_word_def word_le_nat_alt)
next
  case (3 w v ws)
  then have "hd w \<in> set w" by (auto simp: plain_word_def)
  with 3 show ?case by (fastforce simp: plain_word_def word_le_nat_alt)
qed simp

lemma line_text_unwords: "\<forall>w \<in> set ws. plain_word w \<Longrightarrow> ws \<noteq> [] \<Longrightarrow> line_text (unwords ws)"
  using unwords_bytes [of ws] by (auto intro: line_text_ascii)

lemma line_text_word: "plain_word w \<Longrightarrow> line_text w"
  using line_text_unwords [of "[w]"] by simp

lemma join_unwords: "join 32 ws = unwords ws"
proof -
  have "unwords (w # vs) = w @ concat (map (\<lambda>v. 32 # v) vs)" for w vs
    by (induction vs arbitrary: w) auto
  then show ?thesis by (cases ws) (simp_all add: join_def)
qed

lemma split_char_none: "c \<notin> set w \<Longrightarrow> split_char c w = [w]"
  by (induction w) auto

lemma split_char_first: "c \<notin> set w \<Longrightarrow> split_char c (w @ c # s) = w # split_char c s"
  by (induction w) auto

lemma split_char_join:
  assumes "\<forall>w \<in> set ws. c \<notin> set w" and "ws \<noteq> []"
  shows "split_char c (join c ws) = ws"
proof -
  have "c \<notin> set w \<Longrightarrow> \<forall>v \<in> set vs. c \<notin> set v \<Longrightarrow> split_char c (w @ concat (map (\<lambda>v. c # v) vs)) = w # vs" for w vs
    by (induction vs arbitrary: w) (auto simp: split_char_none split_char_first)
  then show ?thesis using assms by (cases ws) (auto simp: join_def)
qed

lemma splitn2_none: "c \<notin> set w \<Longrightarrow> splitn2 c w = [w]"
  by (induction w) auto

lemma splitn2_first: "c \<notin> set w \<Longrightarrow> splitn2 c (w @ c # s) = [w, s]"
  by (induction w) auto

lemma plain_word_join:
  assumes "\<forall>w \<in> set ws. plain_word w" and "ws \<noteq> []" and "33 \<le> c" and "c < 0x80"
  shows "plain_word (join c ws)"
  using assms by (cases ws) (auto simp: join_def plain_word_def)

lemma plain_word_show_u64 [simp]: "plain_word (show_u64 x)"
  by (simp add: show_u64_def plain_word_show_nat)

lemma plain_word_show_int [simp]: "plain_word (show_int i)"
  using plain_word_show_nat [of "nat (- i)"] plain_word_show_nat [of "nat i"] by (simp add: plain_word_def)

lemma parse_show_u64 [simp]: "parse_u64 (show_u64 x) = Some x"
  using unsigned_less [of x, where 'a = nat] by (simp add: parse_u64_def show_u64_def)

lemma digit_not: "is_digit b \<Longrightarrow> b \<noteq> 43 \<and> b \<noteq> 45 \<and> b \<noteq> 47 \<and> b \<noteq> 58"
  by (auto simp: is_digit_def word_le_nat_alt)

lemma show_nat_no_sign: "c \<in> {43, 45, 47, 58} \<Longrightarrow> c \<notin> set (show_nat n)"
  using show_nat_digits [of n] digit_not by auto

lemma parse_show_int:
  assumes "lo \<le> i" and "i \<le> hi"
  shows "parse_sint lo hi (show_int i) = Some i"
proof -
  have s: "(case show_nat n of b # r \<Rightarrow> if b = 45 then (True, r) else if b = 43 then (False, r) else (False, show_nat n) | [] \<Rightarrow> (False, []))
      = (False, show_nat n)" for n
    using show_nat_no_sign [of 43 n] show_nat_no_sign [of 45 n] by (auto split: list.splits)
  show ?thesis
    using assms show_nat_digits [of "nat i"] show_nat_digits [of "nat (- i)"] by (auto simp: parse_sint_def s)
qed

lemma show_int_no_separator: "c \<in> {47, 58} \<Longrightarrow> c \<notin> set (show_int i)"
  using show_nat_no_sign [of c] by auto

declare show_int.simps [simp del]

section \<open>Well-typed descriptions\<close>

definition in_i64 :: "int \<Rightarrow> bool" where "in_i64 i \<longleftrightarrow> - (2 ^ 63) \<le> i \<and> i < 2 ^ 63"
definition in_i32 :: "int \<Rightarrow> bool" where "in_i32 i \<longleftrightarrow> - (2 ^ 31) \<le> i \<and> i < 2 ^ 31"

definition origin_typed :: "origin \<Rightarrow> bool" where
  "origin_typed og \<longleftrightarrow> og_network_type og = ascii ''IN'' \<and> og_address_type og \<in> {ascii ''IP4'', ascii ''IP6''}"

definition connection_typed :: "connection_information \<Rightarrow> bool" where
  "connection_typed c \<longleftrightarrow> ci_network_type c = ascii ''IN'' \<and> ci_address_type c \<in> {ascii ''IP4'', ascii ''IP6''} \<and>
     (case ci_address c of None \<Rightarrow> True | Some a \<Rightarrow> ad_ttl a = None \<and> ad_range a = None)"

definition bandwidth_typed :: "bandwidth \<Rightarrow> bool" where
  "bandwidth_typed b \<longleftrightarrow> 58 \<notin> set (bw_type b) \<and>
     (if bw_experimental b then take 2 (bw_type b) \<noteq> ascii ''X-'' else bw_type b \<in> {ascii ''CT'', ascii ''AS''})"

definition repeat_typed :: "repeat_time \<Rightarrow> bool" where
  "repeat_typed r \<longleftrightarrow> in_i64 (rt_interval r) \<and> in_i64 (rt_duration r) \<and> rt_offsets r \<noteq> [] \<and> list_all in_i64 (rt_offsets r)"

definition time_typed :: "time_description \<Rightarrow> bool" where
  "time_typed t \<longleftrightarrow> list_all repeat_typed (td_repeat_times t)"

definition attribute_typed :: "sdp_attribute \<Rightarrow> bool" where
  "attribute_typed a \<longleftrightarrow> 58 \<notin> set (attr_key a)"

definition port_typed :: "ranged_port \<Rightarrow> bool" where
  "port_typed p \<longleftrightarrow> 0 \<le> rp_value p \<and> rp_value p < 2 ^ 16 \<and> (case rp_range p of None \<Rightarrow> True | Some r \<Rightarrow> in_i32 r)"

definition media_name_typed :: "media_name \<Rightarrow> bool" where
  "media_name_typed m \<longleftrightarrow> mn_media m \<in> set MEDIA_TYPES \<and> port_typed (mn_port m) \<and> mn_protos m \<noteq> [] \<and>
     list_all (\<lambda>p. p \<in> set PROTOS) (mn_protos m) \<and> mn_formats m \<noteq> []"

definition media_typed :: "media_description \<Rightarrow> bool" where
  "media_typed m \<longleftrightarrow> media_name_typed (md_media_name m) \<and> pred_option connection_typed (md_connection_information m) \<and>
     list_all bandwidth_typed (md_bandwidth m) \<and> list_all attribute_typed (md_attributes m)"

definition lines_typed :: "session_description \<Rightarrow> bool" where
  "lines_typed d \<longleftrightarrow> sd_version d = 0 \<and> pred_option connection_typed (sd_connection_information d) \<and> list_all bandwidth_typed (sd_bandwidth d) \<and>
     list_all time_typed (sd_time_descriptions d) \<and> list_all (\<lambda>z. in_i64 (tz_offset z)) (sd_time_zones d) \<and>
     list_all attribute_typed (sd_attributes d) \<and> list_all media_typed (sd_media_descriptions d)"

definition session_typed :: "session_description \<Rightarrow> bool" where
  "session_typed d \<longleftrightarrow> origin_typed (sd_origin d) \<and> sd_time_descriptions d \<noteq> [] \<and> lines_typed d"

lemmas typed_defs = origin_typed_def connection_typed_def bandwidth_typed_def repeat_typed_def time_typed_def attribute_typed_def
  port_typed_def media_name_typed_def media_typed_def lines_typed_def session_typed_def

text \<open>The texts that survive a line: free text is valid UTF-8 without a line feed and without white space at its ends, a field is a plain word.\<close>

definition connection_text :: "connection_information \<Rightarrow> bool" where
  "connection_text c \<longleftrightarrow> (case ci_address c of None \<Rightarrow> True | Some a \<Rightarrow> plain_word (ad_address a))"

definition media_text :: "media_description \<Rightarrow> bool" where
  "media_text m \<longleftrightarrow> list_all plain_word (mn_formats (md_media_name m)) \<and> pred_option line_text (md_media_title m) \<and>
     pred_option connection_text (md_connection_information m) \<and> list_all (\<lambda>b. plain_word (bw_type b)) (md_bandwidth m) \<and>
     pred_option line_text (md_encryption_key m) \<and> list_all (\<lambda>a. line_text (attribute_display a)) (md_attributes m)"

definition session_text :: "session_description \<Rightarrow> bool" where
  "session_text d \<longleftrightarrow> plain_word (og_username (sd_origin d)) \<and> plain_word (og_unicast_address (sd_origin d)) \<and> line_text (sd_session_name d) \<and>
     pred_option line_text (sd_session_information d) \<and> pred_option line_text (sd_uri d) \<and> pred_option line_text (sd_email_address d) \<and>
     pred_option line_text (sd_phone_number d) \<and> pred_option connection_text (sd_connection_information d) \<and>
     list_all (\<lambda>b. plain_word (bw_type b)) (sd_bandwidth d) \<and> pred_option line_text (sd_encryption_key d) \<and>
     list_all (\<lambda>a. line_text (attribute_display a)) (sd_attributes d) \<and> list_all media_text (sd_media_descriptions d)"

section \<open>Values\<close>

lemma index_of_none: "index_of x xs = - 1 \<longleftrightarrow> x \<notin> set xs"
proof (cases "find (\<lambda>k. xs ! k = x) [0..<length xs]")
  case None
  then have "\<forall>k < length xs. xs ! k \<noteq> x" by (auto simp: find_None_iff)
  then have "x \<notin> set xs" by (auto simp: in_set_conv_nth)
  with None show ?thesis by (simp add: index_of_def)
next
  case (Some k)
  then have "k < length xs" "xs ! k = x" by (auto simp: find_Some_iff)
  with Some show ?thesis by (auto simp: index_of_def)
qed

lemma plain_words [simp]: "plain_word (ascii ''IN'')" "plain_word (ascii ''IP4'')" "plain_word (ascii ''IP6'')"
  "plain_word (ascii ''CT'')" "plain_word (ascii ''AS'')"
  by (simp_all add: ascii_def plain_word_def)

lemma plain_word_media: "w \<in> set MEDIA_TYPES \<Longrightarrow> plain_word w"
  by (auto simp: MEDIA_TYPES_def ascii_def plain_word_def)

lemma plain_word_proto: "w \<in> set PROTOS \<Longrightarrow> plain_word w \<and> 47 \<notin> set w"
  by (auto simp: PROTOS_def ascii_def plain_word_def)

lemma origin_line:
  assumes "origin_typed og" and "plain_word (og_username og)" and "plain_word (og_unicast_address og)"
  shows "line_text (origin_display og)" and "unmarshal_origin (origin_display og) d = Ok (d\<lparr>sd_origin := og\<rparr>)"
proof -
  let ?ws = "[og_username og, show_u64 (og_session_id og), show_u64 (og_session_version og), og_network_type og,
     og_address_type og, og_unicast_address og]"
  have p: "\<forall>w \<in> set ?ws. plain_word w" using assms by (auto simp: origin_typed_def)
  then show "line_text (origin_display og)" unfolding origin_display_def join_unwords by (intro line_text_unwords) auto
  have "split_whitespace (origin_display og) = ?ws" unfolding origin_display_def join_unwords by (rule split_unwords [OF p])
  then show "unmarshal_origin (origin_display og) d = Ok (d\<lparr>sd_origin := og\<rparr>)"
    using assms(1) by (auto simp: unmarshal_origin_def parsed_def index_of_none origin_typed_def)
qed

lemma connection_line:
  assumes "connection_typed c" and "connection_text c"
  shows "line_text (connection_information_display c)" and "unmarshal_connection_information (connection_information_display c) = Ok (Some c)"
proof -
  let ?ws = "[ci_network_type c, ci_address_type c] @ (case ci_address c of None \<Rightarrow> [] | Some a \<Rightarrow> [ad_address a])"
  have p: "\<forall>w \<in> set ?ws. plain_word w" using assms by (auto simp: connection_typed_def connection_text_def split: option.splits)
  have e: "connection_information_display c = unwords ?ws"
    using assms(1) by (auto simp: connection_information_display_def join_unwords address_display_def connection_typed_def join_def split: option.splits)
  show "line_text (connection_information_display c)" unfolding e using p by (intro line_text_unwords) auto
  have "split_whitespace (connection_information_display c) = ?ws" unfolding e by (rule split_unwords [OF p])
  then show "unmarshal_connection_information (connection_information_display c) = Ok (Some c)"
    using assms(1) by (auto simp: unmarshal_connection_information_def index_of_none connection_typed_def split: option.splits)
qed

lemma bandwidth_line:
  assumes "bandwidth_typed b" and "plain_word (bw_type b)"
  shows "line_text (bandwidth_display b)" and "unmarshal_bandwidth (bandwidth_display b) = Ok b"
proof -
  let ?t = "(if bw_experimental b then ascii ''X-'' else []) @ bw_type b"
  have "plain_word (bandwidth_display b)"
    using assms(2) plain_word_show_u64 [of "bw_bandwidth b"] by (auto simp: bandwidth_display_def plain_word_def ascii_def)
  then show "line_text (bandwidth_display b)" by (rule line_text_word)
  have t: "58 \<notin> set ?t" using assms(1) by (auto simp: bandwidth_typed_def ascii_def)
  have "58 \<notin> set (show_u64 (bw_bandwidth b))" using show_nat_no_sign [of 58] by (simp add: show_u64_def)
  then have s: "split_char 58 (bandwidth_display b) = [?t, show_u64 (bw_bandwidth b)]"
    using split_char_first [OF t, of "show_u64 (bw_bandwidth b)"] by (simp add: bandwidth_display_def split_char_none)
  have "take 2 (bw_type b) \<noteq> ascii ''X-'' \<Longrightarrow> trim_experimental (bw_type b) = bw_type b"
    by (cases "bw_type b" rule: trim_experimental.cases) (auto simp: ascii_def)
  with s show "unmarshal_bandwidth (bandwidth_display b) = Ok b"
    using assms(1) by (auto simp: unmarshal_bandwidth_def Let_def parsed_def index_of_none bandwidth_typed_def ascii_def)
qed

lemma timing_line:
  shows "line_text (timing_display t)"
    and "unmarshal_timing (timing_display t) d = Ok (d\<lparr>sd_time_descriptions := sd_time_descriptions d @ [\<lparr>td_timing = t, td_repeat_times = []\<rparr>]\<rparr>)"
proof -
  let ?ws = "[show_u64 (tm_start_time t), show_u64 (tm_stop_time t)]"
  have p: "\<forall>w \<in> set ?ws. plain_word w" by simp
  show "line_text (timing_display t)" unfolding timing_display_def join_unwords using p by (intro line_text_unwords) auto
  have "split_whitespace (timing_display t) = ?ws" unfolding timing_display_def join_unwords by (rule split_unwords [OF p])
  then show "unmarshal_timing (timing_display t) d = Ok (d\<lparr>sd_time_descriptions := sd_time_descriptions d @ [\<lparr>td_timing = t, td_repeat_times = []\<rparr>]\<rparr>)"
    by (simp add: unmarshal_timing_def parsed_def)
qed

lemma parse_time_show:
  assumes "in_i64 i"
  shows "parse_time_units (show_int i) = Ok i"
proof -
  have "is_digit (last (show_nat n))" for n using show_nat_digits [of n] last_in_set [of "show_nat n"] by blast
  then have d: "is_digit (last (show_int i))" using show_nat_digits by (auto simp: show_int.simps)
  have l: "last (show_int i) \<noteq> 100" "last (show_int i) \<noteq> 104" "last (show_int i) \<noteq> 109" "last (show_int i) \<noteq> 115"
    using d by (auto simp: is_digit_def word_le_nat_alt)
  have "parse_i64 (show_int i) = Some i" using assms by (simp add: parse_i64_def parse_show_int in_i64_def)
  moreover have "show_int i \<noteq> []" using plain_word_show_int [of i] by (simp add: plain_word_def)
  ultimately show ?thesis using l assms by (simp add: parse_time_units_def parsed_def in_i64_def)
qed

lemma map_result_map: "(\<And>x. x \<in> set xs \<Longrightarrow> f (g x) = Ok x) \<Longrightarrow> map_result f (map g xs) = Ok xs"
  by (induction xs) auto

lemma repeat_line:
  assumes "repeat_typed r"
  shows "line_text (repeat_time_display r)"
    and "sd_time_descriptions d = ts @ [t] \<Longrightarrow> unmarshal_repeat_times (repeat_time_display r) d =
      Ok (d\<lparr>sd_time_descriptions := ts @ [t\<lparr>td_repeat_times := td_repeat_times t @ [r]\<rparr>]\<rparr>)"
proof -
  let ?ws = "[show_int (rt_interval r), show_int (rt_duration r)] @ map show_int (rt_offsets r)"
  have p: "\<forall>w \<in> set ?ws. plain_word w" by auto
  show "line_text (repeat_time_display r)" unfolding repeat_time_display_def join_unwords using p by (intro line_text_unwords) auto
  have s: "split_whitespace (repeat_time_display r) = ?ws" unfolding repeat_time_display_def join_unwords by (rule split_unwords [OF p])
  have m: "map_result parse_time_units (map show_int (rt_offsets r)) = Ok (rt_offsets r)"
    using assms by (intro map_result_map parse_time_show) (auto simp: repeat_typed_def list_all_iff)
  have l: "\<not> length ?ws < 3" using assms by (cases "rt_offsets r") (auto simp: repeat_typed_def)
  show "unmarshal_repeat_times (repeat_time_display r) d =
      Ok (d\<lparr>sd_time_descriptions := ts @ [t\<lparr>td_repeat_times := td_repeat_times t @ [r]\<rparr>]\<rparr>)" if "sd_time_descriptions d = ts @ [t]"
    using that assms s m l by (simp add: unmarshal_repeat_times_def update_latest_def parse_time_show repeat_typed_def)
qed

lemma time_zones_line:
  assumes "zs \<noteq> []" and "list_all (\<lambda>z. in_i64 (tz_offset z)) zs"
  shows "line_text (join 32 (map time_zone_display zs))"
    and "unmarshal_time_zones (join 32 (map time_zone_display zs)) d = Ok (d\<lparr>sd_time_zones := sd_time_zones d @ zs\<rparr>)"
proof -
  let ?ws = "concat (map (\<lambda>z. [show_u64 (tz_adjustment_time z), show_int (tz_offset z)]) zs)"
  have e: "join 32 (map time_zone_display zs) = unwords ?ws" unfolding join_unwords using assms(1)
  proof (induction zs rule: induct_list012)
    case (3 z y zs)
    then show ?case by (simp add: time_zone_display_def join_unwords)
  qed (simp_all add: time_zone_display_def join_unwords)
  have p: "\<forall>w \<in> set ?ws. plain_word w" by auto
  show "line_text (join 32 (map time_zone_display zs))" unfolding e using p assms(1) by (intro line_text_unwords) auto
  have s: "split_whitespace (join 32 (map time_zone_display zs)) = ?ws" unfolding e by (rule split_unwords [OF p])
  have z: "time_zone_pairs ?ws = Ok zs" using assms(2) by (induction zs) (auto simp: parsed_def parse_time_show)
  have "length ?ws mod 2 = 0" by (induction zs) auto
  with s z show "unmarshal_time_zones (join 32 (map time_zone_display zs)) d = Ok (d\<lparr>sd_time_zones := sd_time_zones d @ zs\<rparr>)"
    by (simp add: unmarshal_time_zones_def)
qed

lemma attribute_line: "attribute_typed a \<Longrightarrow> parse_attribute (attribute_display a) = a"
  by (auto simp: attribute_typed_def parse_attribute_def attribute_display_def splitn2_none splitn2_first split: option.splits)

lemma port_field:
  assumes "port_typed p"
  shows "plain_word (ranged_port_display p)" and "parse_port (ranged_port_display p) = Ok p"
proof -
  show "plain_word (ranged_port_display p)"
    by (auto simp: ranged_port_display_def intro!: plain_word_join split: option.splits)
  have v: "parse_u16 (show_int (rp_value p)) = Some (word_of_int (rp_value p))"
    using assms parse_show_u16 [of "word_of_int (rp_value p)"]
    by (simp add: port_typed_def show_int.simps unsigned_of_int take_bit_int_eq_self)
  have u: "uint (word_of_int (rp_value p) :: u16) = rp_value p" using assms by (simp add: port_typed_def unsigned_of_int take_bit_int_eq_self)
  have r: "parse_i32 (show_int i) = Some i" if "in_i32 i" for i using that by (simp add: parse_i32_def parse_show_int in_i32_def)
  show "parse_port (ranged_port_display p) = Ok p"
  proof (cases "rp_range p")
    case None
    then show ?thesis using show_int_no_separator [of 47] v u by (simp add: parse_port_def ranged_port_display_def split_char_none parsed_def)
  next
    case (Some i)
    have "split_char 47 (ranged_port_display p) = [show_int (rp_value p), show_int i]"
      using Some show_int_no_separator [of 47] split_char_join [of "[show_int (rp_value p), show_int i]" 47] by (simp add: ranged_port_display_def)
    with Some assms v u r show ?thesis by (simp add: parse_port_def parsed_def port_typed_def)
  qed
qed

lemma media_name_line:
  assumes "media_name_typed m" and "list_all plain_word (mn_formats m)"
  shows "line_text (media_name_display m)" and "unmarshal_media_name (media_name_display m) = Ok m"
proof -
  let ?ws = "[mn_media m, ranged_port_display (mn_port m), join 47 (mn_protos m)] @ mn_formats m"
  from assms(1) have m: "mn_media m \<in> set MEDIA_TYPES" "port_typed (mn_port m)" "mn_protos m \<noteq> []" "\<forall>q \<in> set (mn_protos m). q \<in> set PROTOS" "mn_formats m \<noteq> []"
    by (auto simp: media_name_typed_def list_all_iff)
  have "plain_word (join 47 (mn_protos m))" using m(3,4) plain_word_proto by (intro plain_word_join) auto
  then have p: "\<forall>w \<in> set ?ws. plain_word w"
    using m(1,2) assms(2) plain_word_media port_field(1) by (auto simp: list_all_iff)
  obtain f fs where f: "mn_formats m = f # fs" using m(5) by (cases "mn_formats m") auto
  have e: "media_name_display m = unwords ?ws" by (simp add: media_name_display_def join_unwords f)
  show "line_text (media_name_display m)" unfolding e using p by (intro line_text_unwords) auto
  have s: "split_whitespace (media_name_display m) = ?ws" unfolding e by (rule split_unwords [OF p])
  have j: "split_char 47 (join 47 (mn_protos m)) = mn_protos m" using m(3,4) plain_word_proto by (intro split_char_join) auto
  have "map_result (\<lambda>q. if index_of q PROTOS = - 1 then Err (SdpInvalidValue x) else Ok q) (map (\<lambda>q. q) (mn_protos m)) = Ok (mn_protos m)" for x
    using m(4) by (intro map_result_map) (auto simp: index_of_none)
  with s j m(1) port_field(2) [OF m(2)] show "unmarshal_media_name (media_name_display m) = Ok m"
    by (simp add: unmarshal_media_name_def f index_of_none Let_def)
qed


section \<open>Runs of the loop\<close>

definition runs :: "(bytes \<Rightarrow> bytes option) \<Rightarrow> state_fn set \<Rightarrow> session_description \<times> bytes \<Rightarrow> state_fn set \<Rightarrow> session_description \<times> bytes \<Rightarrow> bool" where
  "runs p F x G y \<longleftrightarrow> (\<forall>f \<in> F. \<exists>g \<in> G. unmarshal_loop p f \<lparr>lx_desc = fst x, lx_rest = snd x\<rparr> =
     unmarshal_loop p g \<lparr>lx_desc = fst y, lx_rest = snd y\<rparr>)"

lemma runs_refl: "F \<subseteq> G \<Longrightarrow> runs p F x G x"
  by (auto simp: runs_def)

lemma runs_trans [trans]: "runs p F x G y \<Longrightarrow> runs p G y H z \<Longrightarrow> runs p F x H z"
  unfolding runs_def by metis

lemma runs_weaken: "runs p F x G y \<Longrightarrow> F' \<subseteq> F \<Longrightarrow> G \<subseteq> G' \<Longrightarrow> runs p F' x G' y"
  unfolding runs_def by blast

text \<open>In every state of \<open>F\<close> the type \<open>k\<close> leads to the function \<open>u\<close>.\<close>

definition accepts :: "(bytes \<Rightarrow> bytes option) \<Rightarrow> state_fn set \<Rightarrow> string \<Rightarrow> state_fn \<Rightarrow> bool" where
  "accepts p F k u \<longleftrightarrow> (\<forall>f \<in> F. \<forall>d r. run_fn p f \<lparr>lx_desc = d, lx_rest = ascii k @ r\<rparr> = Ok (Some u, \<lparr>lx_desc = d, lx_rest = r\<rparr>))"

lemma runs_line:
  assumes "accepts p F k u" and "run_fn p u = read_line_value h s" and "line_text v" and "h v d = Ok d'"
  shows "runs p F (d, key_value_build (ascii k) (Some v) @ rest) {s} (d', rest)"
proof -
  have "unmarshal_loop p f \<lparr>lx_desc = d, lx_rest = ascii k @ v @ END_LINE @ rest\<rparr> = unmarshal_loop p s \<lparr>lx_desc = d', lx_rest = rest\<rparr>" if "f \<in> F" for f
    using assms that
    by (subst unmarshal_loop.simps, simp add: accepts_def, subst unmarshal_loop.simps)
      (simp add: read_line_value_def read_value_line)
  then show ?thesis by (simp add: runs_def key_value_build_def)
qed

lemma runs_option:
  assumes "accepts p F k u" and "run_fn p u = read_line_value h s" and "pred_option line_text x" and "F \<subseteq> G" and "s \<in> G"
    and "\<And>v. x = Some v \<Longrightarrow> h v d = Ok d'" and "x = None \<Longrightarrow> d' = d"
  shows "runs p F (d, key_value_build (ascii k) x @ rest) G (d', rest)"
proof (cases x)
  case None
  with assms(4,7) show ?thesis by (simp add: key_value_build_def runs_refl)
next
  case (Some v)
  with assms(3) have "line_text v" by simp
  from runs_line [OF assms(1,2) this assms(6) [OF Some], of rest] show ?thesis
    unfolding Some by (rule runs_weaken) (use assms(5) in auto)
qed

text \<open>A list of lines: \<open>st m\<close> is the description while the part \<open>m\<close> of it grows.\<close>

lemma runs_list:
  assumes "\<And>x m rest. x \<in> set xs \<Longrightarrow> runs p F (st m, line x @ rest) F (st (add [x] m), rest)"
    and "\<And>m. add [] m = m" and "\<And>ys zs m. add zs (add ys m) = add (ys @ zs) m"
  shows "runs p F (st m, concat (map line xs) @ rest) F (st (add xs m), rest)"
  using assms(1)
proof (induction xs arbitrary: m)
  case Nil
  then show ?case by (simp add: assms(2) runs_refl)
next
  case (Cons x xs)
  have "runs p F (st m, line x @ concat (map line xs) @ rest) F (st (add [x] m), concat (map line xs) @ rest)"
    using Cons.prems by simp
  also have "runs p F (st (add [x] m), concat (map line xs) @ rest) F (st (add xs (add [x] m)), rest)"
    using Cons.prems by (intro Cons.IH) simp
  finally show ?case by (simp add: assms(3))
qed

definition Before_time :: "state_fn set" where "Before_time = {S4, S5, S6, S7, S8, S10}"
definition Session_tail :: "state_fn set" where "Session_tail = {S9, S11, S13}"
definition Media_states :: "state_fn set" where "Media_states = {S12, S14, S15, S16}"

lemmas accept_defs = accepts_def state_defs read_line_type_def ascii_def Before_time_def Session_tail_def Media_states_def

lemma accepts_start: "accepts p {S1} ''v='' U_protocol_version" "accepts p {S2} ''o='' U_origin" "accepts p {S3} ''s='' U_session_name"
  by (simp_all add: accept_defs)

lemma accepts_optional:
  "accepts p {S4} ''i='' U_session_information"
  "accepts p {S4, S7} ''u='' U_uri"
  "accepts p {S4, S7, S10} ''e='' U_email"
  "accepts p {S4, S6, S7, S10} ''p='' U_phone"
  "accepts p {S4, S6, S7, S8, S10} ''c='' U_session_connection_information"
  "accepts p Before_time ''b='' U_session_bandwidth"
  by (simp_all add: accept_defs)

lemma accepts_time: "accepts p (Before_time \<union> {S9}) ''t='' U_timing" "accepts p {S9} ''r='' U_repeat_times" "accepts p {S9} ''z='' U_time_zones"
  by (simp_all add: accept_defs)

lemma accepts_tail: "accepts p {S9, S13} ''k='' U_session_encryption_key" "accepts p Session_tail ''a='' U_session_attribute"
  "accepts p (Session_tail \<union> Media_states) ''m='' U_media_description"
  by (simp_all add: accept_defs)

lemma accepts_media: "accepts p Media_states ''i='' U_media_title" "accepts p Media_states ''c='' U_media_connection_information"
  "accepts p Media_states ''b='' U_media_bandwidth" "accepts p Media_states ''k='' U_media_encryption_key"
  "accepts p Media_states ''a='' U_media_attribute"
  by (simp_all add: accept_defs)

lemma loop_end: "f \<in> Session_tail \<union> Media_states \<Longrightarrow> unmarshal_loop p f \<lparr>lx_desc = d, lx_rest = []\<rparr> = Ok d"
  by (subst unmarshal_loop.simps) (auto simp: Session_tail_def Media_states_def state_defs read_line_type_def)

text \<open>The sections of a description.\<close>

lemma runs_bandwidths:
  assumes "list_all bandwidth_typed bs" and "list_all (\<lambda>b. plain_word (bw_type b)) bs"
  shows "runs p Before_time (d, concat (map (\<lambda>b. key_value_build (ascii ''b='') (Some (bandwidth_display b))) bs) @ rest)
    Before_time (d\<lparr>sd_bandwidth := sd_bandwidth d @ bs\<rparr>, rest)"
proof (rule runs_list [where st = "\<lambda>d. d" and add = "\<lambda>bs d. d\<lparr>sd_bandwidth := sd_bandwidth d @ bs\<rparr>"])
  fix b m rest assume "b \<in> set bs"
  with assms have "bandwidth_typed b" "plain_word (bw_type b)" by (simp_all add: list_all_iff)
  from bandwidth_line [OF this] have "runs p Before_time (m, key_value_build (ascii ''b='') (Some (bandwidth_display b)) @ rest) {S5}
      (m\<lparr>sd_bandwidth := sd_bandwidth m @ [b]\<rparr>, rest)"
    by (intro runs_line [OF accepts_optional(6) run_fn.simps(25)]) (auto simp: unmarshal_session_bandwidth_def)
  then show "runs p Before_time (m, key_value_build (ascii ''b='') (Some (bandwidth_display b)) @ rest) Before_time
      (m\<lparr>sd_bandwidth := sd_bandwidth m @ [b]\<rparr>, rest)"
    by (rule runs_weaken) (auto simp: Before_time_def)
qed auto

lemma runs_repeats:
  assumes "list_all repeat_typed rs"
  shows "runs p {S9} (d\<lparr>sd_time_descriptions := ts @ [t]\<rparr>, concat (map (\<lambda>r. key_value_build (ascii ''r='') (Some (repeat_time_display r))) rs) @ rest)
    {S9} (d\<lparr>sd_time_descriptions := ts @ [t\<lparr>td_repeat_times := td_repeat_times t @ rs\<rparr>]\<rparr>, rest)"
proof (rule runs_list [where st = "\<lambda>t. d\<lparr>sd_time_descriptions := ts @ [t]\<rparr>" and add = "\<lambda>rs t. t\<lparr>td_repeat_times := td_repeat_times t @ rs\<rparr>"])
  fix r t rest assume "r \<in> set rs"
  with assms have "repeat_typed r" by (simp add: list_all_iff)
  from repeat_line [OF this] show "runs p {S9} (d\<lparr>sd_time_descriptions := ts @ [t]\<rparr>, key_value_build (ascii ''r='') (Some (repeat_time_display r)) @ rest)
      {S9} (d\<lparr>sd_time_descriptions := ts @ [t\<lparr>td_repeat_times := td_repeat_times t @ [r]\<rparr>]\<rparr>, rest)"
    by (intro runs_line [OF accepts_time(2) run_fn.simps(27)]) auto
qed auto

lemma runs_time:
  assumes "time_typed t"
  shows "runs p (Before_time \<union> {S9}) (d, marshal_time_description t @ rest) {S9} (d\<lparr>sd_time_descriptions := sd_time_descriptions d @ [t]\<rparr>, rest)"
proof -
  let ?r = "concat (map (\<lambda>r. key_value_build (ascii ''r='') (Some (repeat_time_display r))) (td_repeat_times t))"
  let ?t = "\<lparr>td_timing = td_timing t, td_repeat_times = []\<rparr>"
  have "runs p (Before_time \<union> {S9}) (d, key_value_build (ascii ''t='') (Some (timing_display (td_timing t))) @ ?r @ rest) {S9}
      (d\<lparr>sd_time_descriptions := sd_time_descriptions d @ [?t]\<rparr>, ?r @ rest)"
    by (intro runs_line [OF accepts_time(1) run_fn.simps(26)] timing_line)
  also have "runs p {S9} (d\<lparr>sd_time_descriptions := sd_time_descriptions d @ [?t]\<rparr>, ?r @ rest) {S9}
      (d\<lparr>sd_time_descriptions := sd_time_descriptions d @ [?t\<lparr>td_repeat_times := td_repeat_times ?t @ td_repeat_times t\<rparr>]\<rparr>, rest)"
    using assms by (intro runs_repeats) (simp add: time_typed_def)
  finally show ?thesis by (cases t) (simp add: marshal_time_description_def)
qed

lemma runs_times:
  assumes "list_all time_typed ts" and "ts \<noteq> []"
  shows "runs p Before_time (d, concat (map marshal_time_description ts) @ rest) {S9} (d\<lparr>sd_time_descriptions := sd_time_descriptions d @ ts\<rparr>, rest)"
proof -
  obtain t us where t: "ts = t # us" using assms(2) by (cases ts) auto
  let ?d = "d\<lparr>sd_time_descriptions := sd_time_descriptions d @ [t]\<rparr>" and ?u = "concat (map marshal_time_description us)"
  have "time_typed u" if "u \<in> set ts" for u using assms(1) that by (simp add: list_all_iff)
  note run = runs_time [OF this]
  have "runs p Before_time (d, marshal_time_description t @ ?u @ rest) {S9} (?d, ?u @ rest)"
    using run [of t] by (rule runs_weaken) (auto simp: t)
  also have "runs p {S9} (?d, ?u @ rest) {S9} (?d\<lparr>sd_time_descriptions := sd_time_descriptions ?d @ us\<rparr>, rest)"
  proof (rule runs_list [where st = "\<lambda>d. d" and add = "\<lambda>us d. d\<lparr>sd_time_descriptions := sd_time_descriptions d @ us\<rparr>"])
    fix u m rest assume "u \<in> set us"
    then show "runs p {S9} (m, marshal_time_description u @ rest) {S9} (m\<lparr>sd_time_descriptions := sd_time_descriptions m @ [u]\<rparr>, rest)"
      using run [of u] by (auto simp: t intro: runs_weaken)
  qed auto
  finally show ?thesis by (simp add: t)
qed

lemma runs_zones:
  assumes "list_all (\<lambda>z. in_i64 (tz_offset z)) zs"
  shows "runs p {S9} (d, (if zs \<noteq> [] then key_value_build (ascii ''z='') (Some (join 32 (map time_zone_display zs))) else []) @ rest) {S9, S13}
    (d\<lparr>sd_time_zones := sd_time_zones d @ zs\<rparr>, rest)"
proof (cases "zs = []")
  case False
  from runs_line [OF accepts_time(3) run_fn.simps(28) time_zones_line [OF this assms], of p d rest] False show ?thesis
    by (auto intro: runs_weaken)
qed (simp add: runs_refl)

lemma runs_attributes:
  assumes "list_all attribute_typed xs" and "list_all (\<lambda>a. line_text (attribute_display a)) xs"
  shows "runs p Session_tail (d, concat (map (\<lambda>a. key_value_build (ascii ''a='') (Some (attribute_display a))) xs) @ rest) Session_tail
    (d\<lparr>sd_attributes := sd_attributes d @ xs\<rparr>, rest)"
proof (rule runs_list [where st = "\<lambda>d. d" and add = "\<lambda>us d. d\<lparr>sd_attributes := sd_attributes d @ us\<rparr>"])
  fix a m rest assume "a \<in> set xs"
  with assms have "line_text (attribute_display a)" "parse_attribute (attribute_display a) = a" by (simp_all add: list_all_iff attribute_line)
  then have "runs p Session_tail (m, key_value_build (ascii ''a='') (Some (attribute_display a)) @ rest) {S11}
      (m\<lparr>sd_attributes := sd_attributes m @ [a]\<rparr>, rest)"
    by (intro runs_line [OF accepts_tail(2) run_fn.simps(30)]) (simp_all add: unmarshal_session_attribute_def)
  then show "runs p Session_tail (m, key_value_build (ascii ''a='') (Some (attribute_display a)) @ rest) Session_tail
      (m\<lparr>sd_attributes := sd_attributes m @ [a]\<rparr>, rest)"
    by (rule runs_weaken) (auto simp: Session_tail_def)
qed auto

text \<open>The lines of a media description change the latest one.\<close>

lemma on_latest_media_snoc:
  "f m = Ok m' \<Longrightarrow> on_latest_media f (d\<lparr>sd_media_descriptions := ms @ [m]\<rparr>) = Ok (d\<lparr>sd_media_descriptions := ms @ [m']\<rparr>)"
  by (simp add: on_latest_media_def update_latest_def)

lemma runs_media_title:
  assumes "pred_option line_text x" and "md_media_title m = None"
  shows "runs p Media_states (d\<lparr>sd_media_descriptions := ms @ [m]\<rparr>, key_value_build (ascii ''i='') x @ rest) Media_states
    (d\<lparr>sd_media_descriptions := ms @ [m\<lparr>md_media_title := x\<rparr>]\<rparr>, rest)"
  by (rule runs_option [OF accepts_media(1) run_fn.simps(32) assms(1)])
    (use assms(2) in \<open>auto simp: unmarshal_media_title_def on_latest_media_snoc Media_states_def\<close>)

lemma runs_media_key:
  assumes "pred_option line_text x" and "md_encryption_key m = None"
  shows "runs p Media_states (d\<lparr>sd_media_descriptions := ms @ [m]\<rparr>, key_value_build (ascii ''k='') x @ rest) Media_states
    (d\<lparr>sd_media_descriptions := ms @ [m\<lparr>md_encryption_key := x\<rparr>]\<rparr>, rest)"
  by (rule runs_option [OF accepts_media(4) run_fn.simps(35) assms(1)])
    (use assms(2) in \<open>auto simp: unmarshal_media_encryption_key_def on_latest_media_snoc Media_states_def\<close>)

lemma runs_media_connection:
  assumes "pred_option connection_typed x" and "pred_option connection_text x" and "md_connection_information m = None"
  shows "runs p Media_states (d\<lparr>sd_media_descriptions := ms @ [m]\<rparr>, key_value_build (ascii ''c='') (map_option connection_information_display x) @ rest)
    Media_states (d\<lparr>sd_media_descriptions := ms @ [m\<lparr>md_connection_information := x\<rparr>]\<rparr>, rest)"
proof (rule runs_option [OF accepts_media(2) run_fn.simps(33)])
  show "pred_option line_text (map_option connection_information_display x)" using assms connection_line(1) by (cases x) auto
  show "unmarshal_media_connection_information v (d\<lparr>sd_media_descriptions := ms @ [m]\<rparr>) =
      Ok (d\<lparr>sd_media_descriptions := ms @ [m\<lparr>md_connection_information := x\<rparr>]\<rparr>)"
    if "map_option connection_information_display x = Some v" for v
    unfolding unmarshal_media_connection_information_def using that assms by (intro on_latest_media_snoc) (auto simp: connection_line(2))
qed (use assms(3) in \<open>auto simp: Media_states_def\<close>)

lemma runs_media_bandwidths:
  assumes "list_all bandwidth_typed bs" and "list_all (\<lambda>b. plain_word (bw_type b)) bs"
  shows "runs p Media_states (d\<lparr>sd_media_descriptions := ms @ [m]\<rparr>, concat (map (\<lambda>b. key_value_build (ascii ''b='') (Some (bandwidth_display b))) bs) @ rest)
    Media_states (d\<lparr>sd_media_descriptions := ms @ [m\<lparr>md_bandwidth := md_bandwidth m @ bs\<rparr>]\<rparr>, rest)"
proof (rule runs_list [where st = "\<lambda>m. d\<lparr>sd_media_descriptions := ms @ [m]\<rparr>" and add = "\<lambda>bs m. m\<lparr>md_bandwidth := md_bandwidth m @ bs\<rparr>"])
  fix b m rest assume "b \<in> set bs"
  with assms have "bandwidth_typed b" "plain_word (bw_type b)" by (simp_all add: list_all_iff)
  from bandwidth_line [OF this] have "runs p Media_states
      (d\<lparr>sd_media_descriptions := ms @ [m]\<rparr>, key_value_build (ascii ''b='') (Some (bandwidth_display b)) @ rest) {S15}
      (d\<lparr>sd_media_descriptions := ms @ [m\<lparr>md_bandwidth := md_bandwidth m @ [b]\<rparr>]\<rparr>, rest)"
    by (intro runs_line [OF accepts_media(3) run_fn.simps(34)]) (auto simp: unmarshal_media_bandwidth_def intro!: on_latest_media_snoc)
  then show "runs p Media_states (d\<lparr>sd_media_descriptions := ms @ [m]\<rparr>, key_value_build (ascii ''b='') (Some (bandwidth_display b)) @ rest) Media_states
      (d\<lparr>sd_media_descriptions := ms @ [m\<lparr>md_bandwidth := md_bandwidth m @ [b]\<rparr>]\<rparr>, rest)"
    by (rule runs_weaken) (auto simp: Media_states_def)
qed auto

lemma runs_media_attributes:
  assumes "list_all attribute_typed xs" and "list_all (\<lambda>a. line_text (attribute_display a)) xs"
  shows "runs p Media_states (d\<lparr>sd_media_descriptions := ms @ [m]\<rparr>, concat (map (\<lambda>a. key_value_build (ascii ''a='') (Some (attribute_display a))) xs) @ rest)
    Media_states (d\<lparr>sd_media_descriptions := ms @ [m\<lparr>md_attributes := md_attributes m @ xs\<rparr>]\<rparr>, rest)"
proof (rule runs_list [where st = "\<lambda>m. d\<lparr>sd_media_descriptions := ms @ [m]\<rparr>" and add = "\<lambda>xs m. m\<lparr>md_attributes := md_attributes m @ xs\<rparr>"])
  fix a m rest assume "a \<in> set xs"
  with assms have "line_text (attribute_display a)" "parse_attribute (attribute_display a) = a" by (simp_all add: list_all_iff attribute_line)
  then have "runs p Media_states (d\<lparr>sd_media_descriptions := ms @ [m]\<rparr>, key_value_build (ascii ''a='') (Some (attribute_display a)) @ rest) {S14}
      (d\<lparr>sd_media_descriptions := ms @ [m\<lparr>md_attributes := md_attributes m @ [a]\<rparr>]\<rparr>, rest)"
    by (intro runs_line [OF accepts_media(5) run_fn.simps(36)]) (auto simp: unmarshal_media_attribute_def intro!: on_latest_media_snoc)
  then show "runs p Media_states (d\<lparr>sd_media_descriptions := ms @ [m]\<rparr>, key_value_build (ascii ''a='') (Some (attribute_display a)) @ rest) Media_states
      (d\<lparr>sd_media_descriptions := ms @ [m\<lparr>md_attributes := md_attributes m @ [a]\<rparr>]\<rparr>, rest)"
    by (rule runs_weaken) (auto simp: Media_states_def)
qed auto

lemma runs_media:
  assumes "media_typed m" and "media_text m"
  shows "runs p (Session_tail \<union> Media_states) (d, marshal_media_description m @ rest) (Session_tail \<union> Media_states)
    (d\<lparr>sd_media_descriptions := sd_media_descriptions d @ [m]\<rparr>, rest)"
proof -
  let ?st = "\<lambda>m. d\<lparr>sd_media_descriptions := sd_media_descriptions d @ [m]\<rparr>"
  let ?a = "concat (map (\<lambda>a. key_value_build (ascii ''a='') (Some (attribute_display a))) (md_attributes m)) @ rest"
  let ?k = "key_value_build (ascii ''k='') (md_encryption_key m) @ ?a"
  let ?b = "concat (map (\<lambda>b. key_value_build (ascii ''b='') (Some (bandwidth_display b))) (md_bandwidth m)) @ ?k"
  let ?c = "key_value_build (ascii ''c='') (map_option connection_information_display (md_connection_information m)) @ ?b"
  let ?i = "key_value_build (ascii ''i='') (md_media_title m) @ ?c"
  let ?m0 = "\<lparr>md_media_name = md_media_name m, md_media_title = None, md_connection_information = None, md_bandwidth = [],
    md_encryption_key = None, md_attributes = []\<rparr>"
  let ?m1 = "?m0\<lparr>md_media_title := md_media_title m\<rparr>"
  let ?m2 = "?m1\<lparr>md_connection_information := md_connection_information m\<rparr>"
  let ?m3 = "?m2\<lparr>md_bandwidth := md_bandwidth ?m2 @ md_bandwidth m\<rparr>"
  let ?m4 = "?m3\<lparr>md_encryption_key := md_encryption_key m\<rparr>"
  let ?m5 = "?m4\<lparr>md_attributes := md_attributes ?m4 @ md_attributes m\<rparr>"
  note t = assms(1) [unfolded media_typed_def] assms(2) [unfolded media_text_def]
  note n = media_name_line [of "md_media_name m"]
  have "runs p (Session_tail \<union> Media_states) (d, marshal_media_description m @ rest) {S12} (?st ?m0, ?i)"
    unfolding marshal_media_description_def append_assoc
    using t n by (intro runs_line [OF accepts_tail(3) run_fn.simps(31)]) (auto simp: unmarshal_media_description_def with_media_def)
  also have "runs p {S12} (?st ?m0, ?i) Media_states (?st ?m1, ?c)"
    by (rule runs_weaken [OF runs_media_title]) (use t in \<open>auto simp: Media_states_def\<close>)
  also have "runs p Media_states (?st ?m1, ?c) Media_states (?st ?m2, ?b)"
    by (rule runs_media_connection) (use t in auto)
  also have "runs p Media_states (?st ?m2, ?b) Media_states (?st ?m3, ?k)"
    by (rule runs_media_bandwidths) (use t in auto)
  also have "runs p Media_states (?st ?m3, ?k) Media_states (?st ?m4, ?a)"
    by (rule runs_media_key) (use t in auto)
  also have "runs p Media_states (?st ?m4, ?a) (Session_tail \<union> Media_states) (?st ?m5, rest)"
    by (rule runs_weaken [OF runs_media_attributes]) (use t in auto)
  finally show ?thesis by (cases m) simp
qed

lemma runs_medias:
  assumes "list_all media_typed ms" and "list_all media_text ms"
  shows "runs p (Session_tail \<union> Media_states) (d, concat (map marshal_media_description ms) @ rest) (Session_tail \<union> Media_states)
    (d\<lparr>sd_media_descriptions := sd_media_descriptions d @ ms\<rparr>, rest)"
proof (rule runs_list [where st = "\<lambda>d. d" and add = "\<lambda>ms d. d\<lparr>sd_media_descriptions := sd_media_descriptions d @ ms\<rparr>"])
  fix m d rest assume "m \<in> set ms"
  with assms show "runs p (Session_tail \<union> Media_states) (d, marshal_media_description m @ rest) (Session_tail \<union> Media_states)
      (d\<lparr>sd_media_descriptions := sd_media_descriptions d @ [m]\<rparr>, rest)"
    by (intro runs_media) (simp_all add: list_all_iff)
qed auto

lemma runs_version: "runs p {S1} (d, key_value_build (ascii ''v='') (Some (show_int 0)) @ rest) {S2} (d, rest)"
proof (rule runs_line [OF accepts_start(1) run_fn.simps(17)])
  show "line_text (show_int 0)" by (rule line_text_word) simp
  show "unmarshal_protocol_version (show_int 0) d = Ok d"
    using parse_show_u32 [of 0] by (simp add: unmarshal_protocol_version_def parsed_def show_int.simps)
qed

lemma runs_connection:
  assumes "pred_option connection_typed x" and "pred_option connection_text x" and "sd_connection_information d = None"
  shows "runs p {S4, S6, S7, S8, S10} (d, key_value_build (ascii ''c='') (map_option connection_information_display x) @ rest)
    Before_time (d\<lparr>sd_connection_information := x\<rparr>, rest)"
proof (rule runs_option [OF accepts_optional(5) run_fn.simps(24)])
  show "pred_option line_text (map_option connection_information_display x)" using assms connection_line(1) by (cases x) auto
  show "unmarshal_session_connection_information v d = Ok (d\<lparr>sd_connection_information := x\<rparr>)"
    if "map_option connection_information_display x = Some v" for v
    using that assms by (auto simp: unmarshal_session_connection_information_def connection_line(2))
qed (use assms(3) in \<open>auto simp: Before_time_def\<close>)

text \<open>The texts that may follow the name of the session, each at most once and in this order.\<close>

lemma runs_texts:
  assumes "pred_option line_text i" "pred_option line_text u" "pred_option line_text e" "pred_option line_text n"
    and "\<And>v. u = Some v \<Longrightarrow> p v = Some v"
    and "sd_session_information d = None" "sd_uri d = None" "sd_email_address d = None" "sd_phone_number d = None"
  shows "runs p {S4} (d, key_value_build (ascii ''i='') i @ key_value_build (ascii ''u='') u @ key_value_build (ascii ''e='') e @
      key_value_build (ascii ''p='') n @ rest) {S4, S6, S7, S8, S10}
    (d\<lparr>sd_session_information := i, sd_uri := u, sd_email_address := e, sd_phone_number := n\<rparr>, rest)"
proof -
  let ?p = "key_value_build (ascii ''p='') n @ rest"
  let ?e = "key_value_build (ascii ''e='') e @ ?p"
  let ?u = "key_value_build (ascii ''u='') u @ ?e"
  let ?d1 = "d\<lparr>sd_session_information := i\<rparr>"
  let ?d2 = "?d1\<lparr>sd_uri := u\<rparr>"
  let ?d3 = "?d2\<lparr>sd_email_address := e\<rparr>"
  have "runs p {S4} (d, key_value_build (ascii ''i='') i @ ?u) {S4, S7} (?d1, ?u)"
    by (rule runs_option [OF accepts_optional(1) run_fn.simps(20) assms(1)])
      (use assms(6) in \<open>auto simp: unmarshal_session_information_def\<close>)
  also have "runs p {S4, S7} (?d1, ?u) {S4, S7, S10} (?d2, ?e)"
    by (rule runs_option [OF accepts_optional(2) run_fn.simps(21) assms(2)])
      (use assms(5,7) in \<open>auto simp: unmarshal_uri_def\<close>)
  also have "runs p {S4, S7, S10} (?d2, ?e) {S4, S6, S7, S10} (?d3, ?p)"
    by (rule runs_option [OF accepts_optional(3) run_fn.simps(22) assms(3)])
      (use assms(8) in \<open>auto simp: unmarshal_email_def\<close>)
  also have "runs p {S4, S6, S7, S10} (?d3, ?p) {S4, S6, S7, S8, S10} (?d3\<lparr>sd_phone_number := n\<rparr>, rest)"
    by (rule runs_option [OF accepts_optional(4) run_fn.simps(23) assms(4)])
      (use assms(9) in \<open>auto simp: unmarshal_phone_def\<close>)
  finally show ?thesis by simp
qed

lemma runs_key:
  assumes "pred_option line_text x" and "sd_encryption_key d = None"
  shows "runs p {S9, S13} (d, key_value_build (ascii ''k='') x @ rest) Session_tail (d\<lparr>sd_encryption_key := x\<rparr>, rest)"
  by (rule runs_option [OF accepts_tail(1) run_fn.simps(29) assms(1)])
    (use assms(2) in \<open>auto simp: unmarshal_session_encryption_key_def Session_tail_def\<close>)

lemma runs_head:
  assumes "session_typed d" and "session_text d"
  shows "runs p {S1} (empty_description, key_value_build (ascii ''v='') (Some (show_int (sd_version d))) @
      key_value_build (ascii ''o='') (Some (origin_display (sd_origin d))) @ key_value_build (ascii ''s='') (Some (sd_session_name d)) @ rest)
    {S4} (empty_description\<lparr>sd_origin := sd_origin d, sd_session_name := sd_session_name d\<rparr>, rest)"
proof -
  let ?s = "key_value_build (ascii ''s='') (Some (sd_session_name d)) @ rest"
  let ?o = "key_value_build (ascii ''o='') (Some (origin_display (sd_origin d))) @ ?s"
  have t: "origin_typed (sd_origin d)" "plain_word (og_username (sd_origin d))" "plain_word (og_unicast_address (sd_origin d))"
    "line_text (sd_session_name d)" "sd_version d = 0"
    using assms by (simp_all add: session_typed_def session_text_def lines_typed_def)
  have "runs p {S1} (empty_description, key_value_build (ascii ''v='') (Some (show_int (sd_version d))) @ ?o) {S2} (empty_description, ?o)"
    unfolding t(5) by (rule runs_version)
  also have "runs p {S2} (empty_description, ?o) {S3} (empty_description\<lparr>sd_origin := sd_origin d\<rparr>, ?s)"
    by (rule runs_line [OF accepts_start(2) run_fn.simps(18) origin_line [OF t(1-3)]])
  also have "runs p {S3} (empty_description\<lparr>sd_origin := sd_origin d\<rparr>, ?s) {S4}
      (empty_description\<lparr>sd_origin := sd_origin d, sd_session_name := sd_session_name d\<rparr>, rest)"
    by (rule runs_line [OF accepts_start(3) run_fn.simps(19) t(4)]) (simp add: unmarshal_session_name_def)
  finally show ?thesis .
qed

lemma runs_session:
  assumes "session_typed d" and "session_text d" and "\<And>u. sd_uri d = Some u \<Longrightarrow> p u = Some u"
  shows "runs p {S1} (empty_description, sdp_marshal d) (Session_tail \<union> Media_states) (d, [])"
proof -
  let ?m = "concat (map marshal_media_description (sd_media_descriptions d)) @ []"
  let ?a = "concat (map (\<lambda>a. key_value_build (ascii ''a='') (Some (attribute_display a))) (sd_attributes d)) @ ?m"
  let ?k = "key_value_build (ascii ''k='') (sd_encryption_key d) @ ?a"
  let ?z = "(if sd_time_zones d \<noteq> [] then key_value_build (ascii ''z='') (Some (join 32 (map time_zone_display (sd_time_zones d)))) else []) @ ?k"
  let ?t = "concat (map marshal_time_description (sd_time_descriptions d)) @ ?z"
  let ?b = "concat (map (\<lambda>b. key_value_build (ascii ''b='') (Some (bandwidth_display b))) (sd_bandwidth d)) @ ?t"
  let ?c = "key_value_build (ascii ''c='') (map_option connection_information_display (sd_connection_information d)) @ ?b"
  let ?i = "key_value_build (ascii ''i='') (sd_session_information d) @ key_value_build (ascii ''u='') (sd_uri d) @
    key_value_build (ascii ''e='') (sd_email_address d) @ key_value_build (ascii ''p='') (sd_phone_number d) @ ?c"
  let ?d1 = "empty_description\<lparr>sd_origin := sd_origin d, sd_session_name := sd_session_name d\<rparr>"
  let ?d2 = "?d1\<lparr>sd_session_information := sd_session_information d, sd_uri := sd_uri d, sd_email_address := sd_email_address d,
    sd_phone_number := sd_phone_number d\<rparr>"
  let ?d3 = "?d2\<lparr>sd_connection_information := sd_connection_information d\<rparr>"
  let ?d4 = "?d3\<lparr>sd_bandwidth := sd_bandwidth ?d3 @ sd_bandwidth d\<rparr>"
  let ?d5 = "?d4\<lparr>sd_time_descriptions := sd_time_descriptions ?d4 @ sd_time_descriptions d\<rparr>"
  let ?d6 = "?d5\<lparr>sd_time_zones := sd_time_zones ?d5 @ sd_time_zones d\<rparr>"
  let ?d7 = "?d6\<lparr>sd_encryption_key := sd_encryption_key d\<rparr>"
  let ?d8 = "?d7\<lparr>sd_attributes := sd_attributes ?d7 @ sd_attributes d\<rparr>"
  let ?d9 = "?d8\<lparr>sd_media_descriptions := sd_media_descriptions ?d8 @ sd_media_descriptions d\<rparr>"
  note t = assms(1) [unfolded session_typed_def lines_typed_def] assms(2) [unfolded session_text_def]
  have "runs p {S1} (empty_description, sdp_marshal d) {S4} (?d1, ?i)"
    using runs_head [OF assms(1,2), of p ?i] by (simp add: sdp_marshal_def)
  also have "runs p {S4} (?d1, ?i) {S4, S6, S7, S8, S10} (?d2, ?c)"
    by (rule runs_texts) (use t assms(3) in \<open>auto simp: empty_description_def\<close>)
  also have "runs p {S4, S6, S7, S8, S10} (?d2, ?c) Before_time (?d3, ?b)"
    by (rule runs_connection) (use t in \<open>auto simp: empty_description_def\<close>)
  also have "runs p Before_time (?d3, ?b) Before_time (?d4, ?t)" by (rule runs_bandwidths) (use t in auto)
  also have "runs p Before_time (?d4, ?t) {S9} (?d5, ?z)" by (rule runs_times) (use t in auto)
  also have "runs p {S9} (?d5, ?z) {S9, S13} (?d6, ?k)" by (rule runs_zones) (use t in auto)
  also have "runs p {S9, S13} (?d6, ?k) Session_tail (?d7, ?a)" by (rule runs_key) (use t in \<open>auto simp: empty_description_def\<close>)
  also have "runs p Session_tail (?d7, ?a) (Session_tail \<union> Media_states) (?d8, ?m)"
    by (rule runs_weaken [OF runs_attributes]) (use t in auto)
  also have "runs p (Session_tail \<union> Media_states) (?d8, ?m) (Session_tail \<union> Media_states) (?d9, [])"
    by (rule runs_medias) (use t in auto)
  finally show ?thesis using t by (cases d) (simp add: empty_description_def)
qed

lemma unmarshal_marshal:
  assumes "session_typed d" and "session_text d" and "\<And>u. sd_uri d = Some u \<Longrightarrow> parse_url u = Some u"
  shows "sdp_unmarshal parse_url (sdp_marshal d) = Ok d"
proof -
  from runs_session [where p = parse_url, OF assms] obtain f where "f \<in> Session_tail \<union> Media_states"
    and "unmarshal_loop parse_url S1 \<lparr>lx_desc = empty_description, lx_rest = sdp_marshal d\<rparr> = unmarshal_loop parse_url f \<lparr>lx_desc = d, lx_rest = []\<rparr>"
    by (auto simp: runs_def)
  then show ?thesis by (simp add: sdp_unmarshal_def loop_end)
qed

definition example_description :: session_description where
  "example_description = (with_fingerprint (ascii ''sha-256'') (ascii ''AA:BB'') (with_media
     (with_ice_credentials (ascii ''user'') (ascii ''password'')
       \<lparr>md_media_name = \<lparr>mn_media = ascii ''application'', mn_port = \<lparr>rp_value = 9, rp_range = None\<rparr>,
           mn_protos = [ascii ''UDP'', ascii ''DTLS'', ascii ''SCTP''], mn_formats = [ascii ''webrtc-datachannel'']\<rparr>,
         md_media_title = None,
         md_connection_information = Some \<lparr>ci_network_type = ascii ''IN'', ci_address_type = ascii ''IP4'',
           ci_address = Some \<lparr>ad_address = ascii ''0.0.0.0'', ad_ttl = None, ad_range = None\<rparr>\<rparr>,
         md_bandwidth = [\<lparr>bw_experimental = True, bw_type = ascii ''YZ'', bw_bandwidth = 128\<rparr>], md_encryption_key = None, md_attributes = []\<rparr>)
     (new_jsep_session_description 77 5 True)))\<lparr>sd_uri := Some (ascii ''http://a.b/''),
       sd_time_zones := [\<lparr>tz_adjustment_time = 7, tz_offset = - 3600\<rparr>]\<rparr>"

lemmas example_defs = example_description_def with_fingerprint_def with_value_attribute_def with_property_attribute_def with_media_def
  with_ice_credentials_def media_with_value_attribute_def attribute_new_def new_jsep_session_description_def Let_def

lemma example_typed: "session_typed example_description"
  by (simp add: example_defs typed_defs ascii_def MEDIA_TYPES_def PROTOS_def in_i64_def)

lemma example_text: "session_text example_description"
  by (simp add: example_defs session_text_def media_text_def connection_text_def attribute_display_def ascii_def plain_word_def line_text_ascii)

text \<open>
  C29. Round trip of session descriptions: what \<^verbatim>\<open>SessionDescription::marshal\<close> writes, \<^verbatim>\<open>SessionDescription::unmarshal\<close> reads back as the same
  description, with every section in its place, when the description is well typed, its free texts survive a line and its URL, if any, is one
  that \<^verbatim>\<open>Url::parse\<close> keeps.
\<close>

theorem sdp_roundtrip:
  assumes "session_typed d" and "session_text d" and "\<And>u. sd_uri d = Some u \<Longrightarrow> parse_url u = Some u"
  shows "sdp_unmarshal parse_url (sdp_marshal d) = Ok d"
  using assms by (rule unmarshal_marshal)

theorem sdp_roundtrip_witness:
  "sdp_unmarshal Some (sdp_marshal example_description) = Ok example_description"
  by (rule sdp_roundtrip [OF example_typed example_text]) simp

end
