(* ===== verification/Sdp_Typed.thy ===== *)
theory Sdp_Typed
  imports Sdp_Roundtrip
begin

text \<open>
  Every description the parser accepts is well typed. The invariant \<open>typed_at\<close> says what is known of the description when a state function is
  called: the origin is checked once its line was read, and the states that accept the end of the input come after a time description.
\<close>

section \<open>Types of values\<close>

lemma split_char_pieces: "w \<in> set (split_char c s) \<Longrightarrow> c \<notin> set w"
  by (induction s arbitrary: w) (auto split: if_splits list.splits)

lemma split_char_not_empty [simp]: "split_char c s \<noteq> []"
  by (induction s) (auto split: list.splits)

lemma splitn2_not_empty [simp]: "splitn2 c s \<noteq> []"
  by (induction s) (auto split: list.splits)

lemma splitn2_key: "c \<notin> set (hd (splitn2 c s))"
  by (induction s) (auto split: list.splits)

lemma parsed_Ok [simp]: "parsed x = Ok y \<longleftrightarrow> x = Some y"
  by (auto simp: parsed_def split: option.splits)

lemma parse_sint_range: "parse_sint lo hi s = Some i \<Longrightarrow> lo \<le> i \<and> i \<le> hi"
  by (auto simp: parse_sint_def Let_def split: prod.splits if_splits)

lemma map_result_Ok: "map_result f xs = Ok ys \<longleftrightarrow> list_all2 (\<lambda>x y. f x = Ok y) xs ys"
  by (induction xs arbitrary: ys) (auto simp: obind_eq_Ok list_all2_Cons1)

lemma origin_value: "unmarshal_origin v d = Ok d' \<Longrightarrow> origin_typed (sd_origin d') \<and> d' = d\<lparr>sd_origin := sd_origin d'\<rparr>"
  by (auto simp: unmarshal_origin_def Let_def obind_eq_Ok index_of_none origin_typed_def split: if_splits)

lemma connection_value: "unmarshal_connection_information v = Ok c \<Longrightarrow> pred_option connection_typed c"
  by (auto simp: unmarshal_connection_information_def Let_def index_of_none connection_typed_def split: if_splits)

lemma trim_experimental_text: "set (trim_experimental s) \<subseteq> set s \<and> take 2 (trim_experimental s) \<noteq> ascii ''X-''"
  by (induction s rule: trim_experimental.induct) (auto simp: ascii_def)

lemma bandwidth_value: "unmarshal_bandwidth v = Ok b \<Longrightarrow> bandwidth_typed b"
proof -
  assume b: "unmarshal_bandwidth v = Ok b"
  let ?p = "split_char 58 v ! 0"
  have "58 \<notin> set ?p" by (rule split_char_pieces, rule nth_mem) simp
  with b show ?thesis using trim_experimental_text [of ?p]
    by (auto simp: unmarshal_bandwidth_def Let_def obind_eq_Ok index_of_none bandwidth_typed_def split: if_splits)
qed

lemma time_value: "parse_time_units v = Ok i \<Longrightarrow> in_i64 i"
  by (auto simp: parse_time_units_def in_i64_def obind_eq_Ok split: if_splits prod.splits)

lemma time_values: "map_result parse_time_units xs = Ok ys \<Longrightarrow> list_all in_i64 ys \<and> length ys = length xs"
  by (auto simp: map_result_Ok list_all2_conv_all_nth list_all_length dest: time_value)

lemma timing_value: "unmarshal_timing v d = Ok d' \<Longrightarrow> 
  time_typed (last (sd_time_descriptions d')) \<and> d' = d\<lparr>sd_time_descriptions := sd_time_descriptions d @ [last (sd_time_descriptions d')]\<rparr>"
  by (auto simp: unmarshal_timing_def Let_def obind_eq_Ok time_typed_def split: if_splits)

lemma update_latest_value:
  assumes "update_latest f xs = Ok ys" and "list_all P xs" and "\<And>x y. P x \<Longrightarrow> f x = Ok y \<Longrightarrow> P y"
  shows "list_all P ys \<and> ys \<noteq> []"
  using assms by (cases xs rule: rev_cases) (auto simp: update_latest_def obind_eq_Ok split: if_splits)

lemma repeat_value:
  assumes "unmarshal_repeat_times v d = Ok d'" and "list_all time_typed (sd_time_descriptions d)"
  shows "list_all time_typed (sd_time_descriptions d') \<and> sd_time_descriptions d' \<noteq> [] \<and> d' = d\<lparr>sd_time_descriptions := sd_time_descriptions d'\<rparr>"
proof -
  from assms(1) obtain ts where l: "\<not> length (split_whitespace v) < 3" and u: "update_latest (\<lambda>t.
      obind (parse_time_units (split_whitespace v ! 0)) (\<lambda>interval. obind (parse_time_units (split_whitespace v ! 1)) (\<lambda>duration.
      obind (map_result parse_time_units (drop 2 (split_whitespace v))) (\<lambda>offsets.
        Ok (t\<lparr>td_repeat_times := td_repeat_times t @ [\<lparr>rt_interval = interval, rt_duration = duration, rt_offsets = offsets\<rparr>]\<rparr>)))))
      (sd_time_descriptions d) = Ok ts" and d: "d' = d\<lparr>sd_time_descriptions := ts\<rparr>"
    by (auto simp: unmarshal_repeat_times_def Let_def obind_eq_Ok split: if_splits)
  have "list_all time_typed ts \<and> ts \<noteq> []"
    by (rule update_latest_value [OF u assms(2)])
      (use l in \<open>auto simp: obind_eq_Ok time_typed_def repeat_typed_def dest!: time_value time_values\<close>)
  with d show ?thesis by auto
qed

lemma zone_pairs_value: "time_zone_pairs fs = Ok zs \<Longrightarrow> list_all (\<lambda>z. in_i64 (tz_offset z)) zs"
  by (induction fs arbitrary: zs rule: time_zone_pairs.induct) (auto simp: obind_eq_Ok dest: time_value)

lemma attribute_value_typed: "attribute_typed (parse_attribute v)"
  using splitn2_key [of 58 v] by (simp add: attribute_typed_def parse_attribute_def Let_def hd_conv_nth)

lemma port_value: "parse_port v = Ok p \<Longrightarrow> port_typed p"
proof -
  assume p: "parse_port v = Ok p"
  have "0 \<le> uint (x :: u16) \<and> uint x < 65536" for x using uint_bounded [of x] by simp
  with p show ?thesis
    by (auto simp: parse_port_def Let_def obind_eq_Ok port_typed_def in_i32_def parse_i32_def split: if_splits dest!: parse_sint_range)
qed

lemma media_name_value: "unmarshal_media_name v = Ok m \<Longrightarrow> media_name_typed m"
proof -
  assume m: "unmarshal_media_name v = Ok m"
  have "list_all (\<lambda>p. p \<in> set PROTOS) ys \<and> ys \<noteq> []"
    if "map_result (\<lambda>q. if index_of q PROTOS = - 1 then Err (SdpInvalidValue x) else Ok q) (split_char 47 w) = Ok ys" for x w ys
    using that by (auto simp: map_result_Ok list_all2_conv_all_nth list_all_length index_of_none split: if_splits)
  with m show ?thesis
    by (auto simp: unmarshal_media_name_def Let_def obind_eq_Ok index_of_none media_name_typed_def port_value split: if_splits)
qed

lemma on_latest_media_value:
  assumes "on_latest_media f d = Ok d'" and "list_all media_typed (sd_media_descriptions d)" and "\<And>x y. media_typed x \<Longrightarrow> f x = Ok y \<Longrightarrow> media_typed y"
  shows "list_all media_typed (sd_media_descriptions d') \<and> d' = d\<lparr>sd_media_descriptions := sd_media_descriptions d'\<rparr>"
proof -
  from assms(1) obtain ms where u: "update_latest f (sd_media_descriptions d) = Ok ms" and "d' = d\<lparr>sd_media_descriptions := ms\<rparr>"
    by (auto simp: on_latest_media_def obind_eq_Ok)
  with update_latest_value [OF u assms(2,3)] show ?thesis by simp
qed

section \<open>The invariant of the loop\<close>

definition before_origin :: "state_fn set" where "before_origin = {S1, S2, U_protocol_version, U_origin}"

definition before_time :: "state_fn set" where
  "before_time = {S1, S2, S3, S4, S5, S6, S7, S8, S10, U_protocol_version, U_origin, U_session_name, U_session_information, U_uri, U_email,
     U_phone, U_session_connection_information, U_session_bandwidth, U_timing}"

definition typed_at :: "state_fn \<Rightarrow> session_description \<Rightarrow> bool" where
  "typed_at f d \<longleftrightarrow> lines_typed d \<and> (f \<notin> before_origin \<longrightarrow> origin_typed (sd_origin d)) \<and> (f \<notin> before_time \<longrightarrow> sd_time_descriptions d \<noteq> [])"

lemmas typed_at_defs = typed_at_def before_origin_def before_time_def lines_typed_def

lemma read_line_type_desc:
  assumes "read_line_type may_end table lx = Ok (g, lx')"
  shows "lx_desc lx' = lx_desc lx \<and> (case g of None \<Rightarrow> may_end | Some f \<Rightarrow> f \<in> snd ` set table)"
proof -
  from assms obtain key n rest where "lx' = lx\<lparr>lx_rest := rest\<rparr>" and "g = None \<and> may_end \<or> g \<noteq> None \<and> map_of table key = g"
    by (auto simp: read_line_type_def obind_eq_Ok Let_def syntax_error_def split: if_splits option.splits prod.splits)
  moreover have "map_of table key = Some f \<Longrightarrow> f \<in> snd ` set table" for f by (force dest: map_of_SomeD)
  ultimately show ?thesis by auto
qed

lemma read_line_value_desc:
  "read_line_value h s lx = Ok (g, lx') \<Longrightarrow> g = Some s \<and> (\<exists>v. h v (lx_desc lx) = Ok (lx_desc lx'))"
  by (auto simp: read_line_value_def obind_eq_Ok split: prod.splits)

definition typed_next :: "state_fn option \<Rightarrow> session_description \<Rightarrow> bool" where
  "typed_next g d \<longleftrightarrow> (case g of Some f \<Rightarrow> typed_at f d | None \<Rightarrow> session_typed d)"

lemma typed_type:
  assumes "reads_type f" and "run_fn p f lx = Ok (g, lx')" and "typed_at f (lx_desc lx)"
  shows "typed_next g (lx_desc lx')"
  using assms
  by (cases f) (auto simp: reads_type_def state_defs typed_next_def typed_at_def before_origin_def before_time_def session_typed_def
      dest!: read_line_type_desc split: option.splits)

lemma typed_lines:
  assumes "lines_typed d"
  shows "unmarshal_protocol_version v d = Ok d' \<Longrightarrow> d' = d"
    and "unmarshal_connection_information v = Ok c \<Longrightarrow> lines_typed (d\<lparr>sd_connection_information := c\<rparr>)"
    and "unmarshal_bandwidth v = Ok b \<Longrightarrow> lines_typed (d\<lparr>sd_bandwidth := sd_bandwidth d @ [b]\<rparr>)"
    and "time_zone_pairs fs = Ok zs \<Longrightarrow> lines_typed (d\<lparr>sd_time_zones := sd_time_zones d @ zs\<rparr>)"
    and "lines_typed (d\<lparr>sd_attributes := sd_attributes d @ [parse_attribute v]\<rparr>)"
    and "unmarshal_media_name v = Ok m \<Longrightarrow> lines_typed (with_media \<lparr>md_media_name = m, md_media_title = None, md_connection_information = None,
       md_bandwidth = [], md_encryption_key = None, md_attributes = []\<rparr> d)"
  using assms
  by (auto simp: unmarshal_protocol_version_def obind_eq_Ok lines_typed_def connection_value bandwidth_value zone_pairs_value
      attribute_value_typed media_typed_def media_name_value with_media_def split: if_splits)

lemma typed_media_lines:
  assumes "lines_typed d" and "sd_time_descriptions d \<noteq> [] \<and> origin_typed (sd_origin d)"
    and "on_latest_media f d = Ok d'" and "\<And>x y. media_typed x \<Longrightarrow> f x = Ok y \<Longrightarrow> media_typed y"
  shows "lines_typed d' \<and> sd_time_descriptions d' \<noteq> [] \<and> origin_typed (sd_origin d')"
proof -
  have l: "list_all media_typed (sd_media_descriptions d)" using assms(1) by (simp add: lines_typed_def)
  have m: "list_all media_typed (sd_media_descriptions d') \<and> d' = d\<lparr>sd_media_descriptions := sd_media_descriptions d'\<rparr>"
    by (rule on_latest_media_value [OF assms(3) l]) (rule assms(4))
  obtain ms where "list_all media_typed ms" "d' = d\<lparr>sd_media_descriptions := ms\<rparr>" by (rule that [OF conjunct1 [OF m] conjunct2 [OF m]])
  with assms(1,2) show ?thesis by (simp add: lines_typed_def)
qed

lemma typed_media_values:
  assumes "lines_typed d" and "sd_time_descriptions d \<noteq> [] \<and> origin_typed (sd_origin d)"
  shows "unmarshal_media_title v d = Ok d' \<Longrightarrow> lines_typed d' \<and> sd_time_descriptions d' \<noteq> [] \<and> origin_typed (sd_origin d')"
    and "unmarshal_media_connection_information v d = Ok d' \<Longrightarrow> lines_typed d' \<and> sd_time_descriptions d' \<noteq> [] \<and> origin_typed (sd_origin d')"
    and "unmarshal_media_bandwidth v d = Ok d' \<Longrightarrow> lines_typed d' \<and> sd_time_descriptions d' \<noteq> [] \<and> origin_typed (sd_origin d')"
    and "unmarshal_media_encryption_key v d = Ok d' \<Longrightarrow> lines_typed d' \<and> sd_time_descriptions d' \<noteq> [] \<and> origin_typed (sd_origin d')"
    and "unmarshal_media_attribute v d = Ok d' \<Longrightarrow> lines_typed d' \<and> sd_time_descriptions d' \<noteq> [] \<and> origin_typed (sd_origin d')"
  unfolding unmarshal_media_title_def unmarshal_media_connection_information_def unmarshal_media_bandwidth_def unmarshal_media_encryption_key_def
    unmarshal_media_attribute_def
  by (erule typed_media_lines [OF assms];
      auto simp: media_typed_def obind_eq_Ok connection_value bandwidth_value attribute_value_typed)+

lemma typed_media_fn:
  assumes "run_fn p f lx = Ok (g, lx')" and "typed_at f (lx_desc lx)"
    and "f \<in> {U_media_title, U_media_connection_information, U_media_bandwidth, U_media_encryption_key, U_media_attribute}"
  shows "typed_next g (lx_desc lx')"
proof -
  have d: "lines_typed (lx_desc lx)" "sd_time_descriptions (lx_desc lx) \<noteq> [] \<and> origin_typed (sd_origin (lx_desc lx))"
    using assms(2,3) by (auto simp: typed_at_def before_origin_def before_time_def)
  show ?thesis using assms(1,3)
    by (auto dest!: read_line_value_desc typed_media_values [OF d] simp: typed_next_def typed_at_def)
qed

lemma typed_time_fn:
  assumes "run_fn p f lx = Ok (g, lx')" and "typed_at f (lx_desc lx)" and "f \<in> {U_origin, U_timing, U_repeat_times}"
  shows "typed_next g (lx_desc lx')"
proof -
  let ?d = "lx_desc lx" and ?d' = "lx_desc lx'"
  have l: "lines_typed ?d" "list_all time_typed (sd_time_descriptions ?d)" using assms(2) by (simp_all add: typed_at_def lines_typed_def)
  have o1: "f \<noteq> U_origin \<Longrightarrow> origin_typed (sd_origin ?d)" using assms(2,3) by (auto simp: typed_at_def before_origin_def)
  consider (o) v where "f = U_origin" "g = Some S3" "unmarshal_origin v ?d = Ok ?d'" | (t) v where "f = U_timing" "g = Some S9" "unmarshal_timing v ?d = Ok ?d'"
    | (r) v where "f = U_repeat_times" "g = Some S9" "unmarshal_repeat_times v ?d = Ok ?d'"
    using assms(1,3) by (auto dest!: read_line_value_desc)
  then show ?thesis
  proof cases
    case o
    note v = origin_value [OF o(3)]
    obtain og where "origin_typed og" "?d' = ?d\<lparr>sd_origin := og\<rparr>" by (rule that [OF conjunct1 [OF v] conjunct2 [OF v]])
    with l(1) o(2) show ?thesis by (simp add: typed_next_def typed_at_def before_time_def lines_typed_def)
  next
    case t
    note v = timing_value [OF t(3)]
    obtain td where "time_typed td" "?d' = ?d\<lparr>sd_time_descriptions := sd_time_descriptions ?d @ [td]\<rparr>"
      by (rule that [OF conjunct1 [OF v] conjunct2 [OF v]])
    with l(1) o1 t(1,2) show ?thesis by (simp add: typed_next_def typed_at_def lines_typed_def)
  next
    case r
    note v = repeat_value [OF r(3) l(2)]
    obtain ts where "list_all time_typed ts" "ts \<noteq> []" "?d' = ?d\<lparr>sd_time_descriptions := ts\<rparr>"
      by (rule that [OF conjunct1 [OF v] conjunct1 [OF conjunct2 [OF v]] conjunct2 [OF conjunct2 [OF v]]])
    with l(1) o1 r(1,2) show ?thesis by (simp add: typed_next_def typed_at_def lines_typed_def)
  qed
qed

lemma typed_text_fn:
  assumes "run_fn p f lx = Ok (g, lx')" and "typed_at f (lx_desc lx)"
    and "f \<in> {U_session_name, U_session_information, U_uri, U_email, U_phone, U_session_encryption_key}"
  shows "typed_next g (lx_desc lx')"
  using assms
  by (cases lx; cases lx') (auto dest!: read_line_value_desc simp: unmarshal_session_name_def unmarshal_session_information_def unmarshal_uri_def unmarshal_email_def
      unmarshal_phone_def unmarshal_session_encryption_key_def typed_next_def typed_at_def before_origin_def before_time_def lines_typed_def
      split: option.splits)

lemma typed_list_fn:
  assumes "run_fn p f lx = Ok (g, lx')" and "typed_at f (lx_desc lx)"
    and "f \<in> {U_protocol_version, U_session_connection_information, U_session_bandwidth, U_time_zones, U_session_attribute, U_media_description}"
  shows "typed_next g (lx_desc lx')"
proof -
  obtain d r d' r' where lx: "lx = \<lparr>lx_desc = d, lx_rest = r\<rparr>" "lx' = \<lparr>lx_desc = d', lx_rest = r'\<rparr>" by (cases lx, cases lx') blast
  have l: "lines_typed d" using assms(2) by (simp add: typed_at_def lx)
  show ?thesis using assms typed_lines(2-) [OF l] unfolding lx
    by (auto dest!: read_line_value_desc typed_lines(1) [OF l] simp: unmarshal_session_connection_information_def unmarshal_session_bandwidth_def unmarshal_time_zones_def
        unmarshal_session_attribute_def unmarshal_media_description_def Let_def obind_eq_Ok typed_next_def typed_at_def before_origin_def
        before_time_def with_media_def split: if_splits)
qed

lemma typed_step: "run_fn p f lx = Ok (g, lx') \<Longrightarrow> typed_at f (lx_desc lx) \<Longrightarrow> typed_next g (lx_desc lx')"
  by (cases "reads_type f", erule (2) typed_type, cases f)
    (auto simp only: reads_type_def insert_iff simp_thms state_fn.distinct intro: typed_media_fn typed_time_fn typed_text_fn typed_list_fn)

lemma typed_loop: "unmarshal_loop p f lx = Ok d \<Longrightarrow> typed_at f (lx_desc lx) \<Longrightarrow> session_typed d"
proof (induction p f lx rule: unmarshal_loop.induct)
  case (1 p f lx)
  note loop = 1(2) [unfolded unmarshal_loop.simps [of p f lx]]
  from loop obtain g lx' where r: "run_fn p f lx = Ok (g, lx')" by (auto split: outcome.splits)
  from typed_step [OF r 1(3)] have t: "typed_next g (lx_desc lx')" .
  show ?case
  proof (cases g)
    case None
    with loop r t show ?thesis by (simp add: typed_next_def)
  next
    case (Some h)
    with 1(1) [OF r refl Some] loop r t show ?thesis by (simp add: typed_next_def)
  qed
qed

lemma unmarshal_session_typed:
  assumes "sdp_unmarshal parse_url raw = Ok d"
  shows "session_typed d"
proof (rule typed_loop)
  show "unmarshal_loop parse_url S1 \<lparr>lx_desc = empty_description, lx_rest = raw\<rparr> = Ok d" using assms by (simp add: sdp_unmarshal_def)
  show "typed_at S1 (lx_desc \<lparr>lx_desc = empty_description, lx_rest = raw\<rparr>)"
    by (simp add: typed_at_def before_origin_def before_time_def lines_typed_def empty_description_def)
qed

text \<open>
  C30. Every session description that \<^verbatim>\<open>SessionDescription::unmarshal\<close> accepts is well typed, whatever the input and the URL parser: version 0, an
  origin and connections in network \<^verbatim>\<open>IN\<close> with \<^verbatim>\<open>IP4\<close> or \<^verbatim>\<open>IP6\<close> addresses, at least one time description, numbers in the range of their types,
  bandwidths and media of the known types, repeat times with offsets and media with protocols and formats, attribute keys without a colon.
\<close>

theorem sdp_unmarshal_typed:
  assumes "sdp_unmarshal parse_url raw = Ok d"
  shows "session_typed d"
  using assms by (rule unmarshal_session_typed)

theorem sdp_unmarshal_typed_witness:
  "sdp_unmarshal Some (sdp_marshal example_description) = Ok example_description \<and> session_typed example_description"
proof
  show r: "sdp_unmarshal Some (sdp_marshal example_description) = Ok example_description"
    by (rule unmarshal_marshal [OF example_typed example_text]) simp
  from r show "session_typed example_description" by (rule sdp_unmarshal_typed)
qed

end
