(* ===== verification/Peer_Sdp.thy ===== *)
theory Peer_Sdp
  imports Sdp_Typed Ice_Candidate Data_Channel
begin

text \<open>
  The session descriptions of a peer connection (\<^verbatim>\<open>peer_connection/sdp/\<close>, \<^verbatim>\<open>dtls_transport/dtls_role.rs\<close>, \<^verbatim>\<open>ice_transport/ice_candidate.rs\<close>,
  \<^verbatim>\<open>get_fingerprints\<close> of \<^verbatim>\<open>peer_connection/certificate.rs\<close>, \<^verbatim>\<open>ConnectionRole\<close> of \<^verbatim>\<open>crates/sdp/util\<close>): how the offer is put together from
  credentials, fingerprints and candidates, and what is taken out of the answer. The hash of a certificate is a parameter, and so is the match
  of the regular expression for plan B. \<^verbatim>\<open>to_uppercase\<close> is applied to hexadecimal digits and protocol names only, so it is the ASCII one.
\<close>

section \<open>Types\<close>

datatype pc_error = PErr_ConnectionClosed | PErr_NonCertificate | PErr_NoRemoteDescription | PErr_NoFingerprint | PErr_InvalidFingerprint
  | PErr_ConflictingFingerprints | PErr_MissingIceUfrag | PErr_MissingIcePwd | PErr_ConflictingIceUfrag | PErr_ConflictingIcePwd
  | PErr_InvalidDTLSStart | PErr_IdentityProviderNotImplemented | PErr_ICEConnectionNotStarted | PErr_ICECandidateTypeUnknown
  | PErr_ICEAgentNotExist | PErr_ICERoleUnknown | PErr_SDPDoesNotMatchOffer | PErr_SDPDoesNotMatchAnswer | PErr_SDPTypeInvalidValue
  | PErr_StateChangeInvalid | PErr_SDPTypeInvalidValueSetLocalDescription | PErr_CannotRollback | PErr_ProposedTransitionInvalid
  | PErr_ICETransportNotInNew | PErr_Ice ice_error | PErr_Sdp sdp_error | PErr_Dtls | PErr_SCTPTransportDTLS | PErr_Sctp error | PErr_Channel rtc_error

type_synonym 'a pc_result = "(pc_error, 'a) outcome"

fun lift_ice :: "'a ice_result \<Rightarrow> 'a pc_result" where
  "lift_ice (Ok x) = Ok x" | "lift_ice (Err e) = Err (PErr_Ice e)" | "lift_ice Panic = Panic"

fun lift_sdp :: "'a sdp_result \<Rightarrow> 'a pc_result" where
  "lift_sdp (Ok x) = Ok x" | "lift_sdp (Err e) = Err (PErr_Sdp e)" | "lift_sdp Panic = Panic"

fun lift_sctp :: "'a result \<Rightarrow> 'a pc_result" where
  "lift_sctp (Ok x) = Ok x" | "lift_sctp (Err e) = Err (PErr_Sctp e)" | "lift_sctp Panic = Panic"

fun lift_channel :: "(rtc_error, 'a) outcome \<Rightarrow> 'a pc_result" where
  "lift_channel (Ok x) = Ok x" | "lift_channel (Err e) = Err (PErr_Channel e)" | "lift_channel Panic = Panic"

datatype connection_role = CR_Unspecified | CR_Active | CR_Passive | CR_Actpass | CR_Holdconn

fun connection_role_display :: "connection_role \<Rightarrow> bytes" where
  "connection_role_display CR_Active = ascii ''active''"
| "connection_role_display CR_Passive = ascii ''passive''"
| "connection_role_display CR_Actpass = ascii ''actpass''"
| "connection_role_display CR_Holdconn = ascii ''holdconn''"
| "connection_role_display CR_Unspecified = ascii ''Unspecified''"

datatype dtls_role = DR_Unspecified | DR_Auto | DR_Client | DR_Server

definition DEFAULT_DTLS_ROLE_OFFER :: dtls_role where "DEFAULT_DTLS_ROLE_OFFER = DR_Auto"

fun to_connection_role :: "dtls_role \<Rightarrow> connection_role" where
  "to_connection_role DR_Client = CR_Active" | "to_connection_role DR_Server = CR_Passive" | "to_connection_role DR_Auto = CR_Actpass"
| "to_connection_role DR_Unspecified = CR_Unspecified"

text \<open>\<^verbatim>\<open>DTLSRole::from\<close> a description: the first \<^verbatim>\<open>setup\<close> attribute of a media section decides.\<close>

definition dtls_role_from :: "session_description \<Rightarrow> dtls_role" where
  "dtls_role_from d =
     (case find (\<lambda>a. attr_key a = ascii ''setup'') (concat (map md_attributes (sd_media_descriptions d))) of
        Some a \<Rightarrow> (case attr_value a of
            Some v \<Rightarrow> if v = ascii ''active'' then DR_Client else if v = ascii ''passive'' then DR_Server else DR_Auto
          | None \<Rightarrow> DR_Auto)
      | None \<Rightarrow> DR_Auto)"

record dtls_fingerprint =
  fp_algorithm :: bytes
  fp_value :: bytes

record ice_parameters =
  ip_username_fragment :: bytes
  ip_password :: bytes

datatype rtc_gathering_state = RGS_Unspecified | RGS_New | RGS_Gathering | RGS_Complete

definition to_upper :: "u8 \<Rightarrow> u8" where
  "to_upper b = (if 97 \<le> b \<and> b \<le> 122 then b - 32 else b)"

definition to_uppercase :: "bytes \<Rightarrow> bytes" where "to_uppercase s = map to_upper s"

section \<open>Certificates\<close>

text \<open>\<^verbatim>\<open>{:02x}\<close>\<close>

definition hex_byte :: "u8 \<Rightarrow> bytes" where
  "hex_byte b = [hex_digit (unat b div 16), hex_digit (unat b mod 16)]"

text \<open>A certificate is the chain of its DER encodings; \<open>sha256\<close> is the hash.\<close>

definition get_fingerprints :: "(bytes \<Rightarrow> bytes) \<Rightarrow> bytes list \<Rightarrow> dtls_fingerprint list" where
  "get_fingerprints sha256 chain = map (\<lambda>c. \<lparr>fp_algorithm = ascii ''sha-256'', fp_value = join 58 (map hex_byte (sha256 c))\<rparr>) chain"

section \<open>Candidates\<close>

datatype ice_protocol = IP_Unspecified | IP_Udp | IP_Tcp

definition ice_protocol_from :: "bytes \<Rightarrow> ice_protocol" where
  "ice_protocol_from raw =
     (if to_uppercase raw = to_uppercase (ascii ''udp'') then IP_Udp
      else if to_uppercase raw = to_uppercase (ascii ''tcp'') then IP_Tcp else IP_Unspecified)"

fun ice_protocol_display :: "ice_protocol \<Rightarrow> bytes" where
  "ice_protocol_display IP_Udp = ascii ''udp''" | "ice_protocol_display IP_Tcp = ascii ''tcp''" | "ice_protocol_display IP_Unspecified = ascii ''Unspecified''"

datatype rtc_candidate_type = RCT_Unspecified | RCT_Host

fun rtc_candidate_type_from :: "candidate_type \<Rightarrow> rtc_candidate_type" where
  "rtc_candidate_type_from Host = RCT_Host" | "rtc_candidate_type_from CT_Unspecified = RCT_Unspecified"

record rtc_ice_candidate =
  rc_stats_id :: bytes
  rc_foundation :: bytes
  rc_priority :: u32
  rc_address :: bytes
  rc_protocol :: ice_protocol
  rc_port :: u16
  rc_typ :: rtc_candidate_type
  rc_component :: u16
  rc_related_address :: bytes
  rc_related_port :: u16

definition rtc_candidate_from :: "(bytes \<Rightarrow> u32) \<Rightarrow> candidate \<Rightarrow> rtc_ice_candidate" where
  "rtc_candidate_from crc c =
     (let (related_address, related_port) = (case cb_related c of Some (a, p) \<Rightarrow> (a, p) | None \<Rightarrow> ([], 0)) in
      \<lparr>rc_stats_id = cb_id c, rc_foundation = cand_foundation crc c, rc_priority = cand_priority c, rc_address = cb_address c,
        rc_protocol = ice_protocol_from (network_short (cb_network_type c)), rc_port = cb_port c, rc_typ = rtc_candidate_type_from (cb_type c),
        rc_component = cb_component c, rc_related_address = related_address, rc_related_port = related_port\<rparr>)"

definition to_ice :: "bytes \<Rightarrow> rtc_ice_candidate \<Rightarrow> candidate pc_result" where
  "to_ice rand_id r =
     (if rc_typ r = RCT_Host then
        lift_ice (new_candidate_host rand_id \<lparr>cc_id = rc_stats_id r, cc_network = ice_protocol_display (rc_protocol r), cc_address = rc_address r,
          cc_port = rc_port r, cc_component = rc_component r, cc_priority = rc_priority r, cc_foundation = rc_foundation r, cc_conn = False\<rparr>)
      else Err PErr_ICECandidateTypeUnknown)"

definition set_component :: "u16 \<Rightarrow> candidate \<Rightarrow> candidate" where
  "set_component n c = c\<lparr>cb_component := n\<rparr>"

definition append_candidate_if_new :: "(bytes \<Rightarrow> u32) \<Rightarrow> candidate \<Rightarrow> media_description \<Rightarrow> media_description" where
  "append_candidate_if_new crc c m =
     (if Some (cand_marshal crc c) \<in> set (map attr_value (md_attributes m)) then m
      else media_with_value_attribute (ascii ''candidate'') (cand_marshal crc c) m)"

fun append_candidates :: "(bytes \<Rightarrow> u32) \<Rightarrow> bytes \<Rightarrow> rtc_ice_candidate list \<Rightarrow> media_description \<Rightarrow> media_description pc_result" where
  "append_candidates crc rand_id [] m = Ok m"
| "append_candidates crc rand_id (r # rs) m =
     obind (to_ice rand_id r) (\<lambda>c.
       append_candidates crc rand_id rs (append_candidate_if_new crc (set_component 2 c) (append_candidate_if_new crc (set_component 1 c) m)))"

definition add_candidates_to_media_descriptions ::
    "(bytes \<Rightarrow> u32) \<Rightarrow> bytes \<Rightarrow> rtc_ice_candidate list \<Rightarrow> media_description \<Rightarrow> rtc_gathering_state \<Rightarrow> media_description pc_result" where
  "add_candidates_to_media_descriptions crc rand_id candidates m gathering =
     obind (append_candidates crc rand_id candidates m) (\<lambda>m.
       if gathering \<noteq> RGS_Complete then Ok m
       else if ascii ''end-of-candidates'' \<in> set (map attr_key (md_attributes m)) then Ok m
       else Ok (media_with_property_attribute (ascii ''end-of-candidates'') m))"

section \<open>Offers\<close>

definition MEDIA_SECTION_APPLICATION :: bytes where "MEDIA_SECTION_APPLICATION = ascii ''application''"

record add_data_params =
  ap_should_add_candidates :: bool
  ap_mid_value :: bytes
  ap_ice_params :: ice_parameters
  ap_dtls_role :: connection_role
  ap_gathering :: rtc_gathering_state

definition data_media :: "add_data_params \<Rightarrow> media_description" where
  "data_media params =
     with_ice_credentials (ip_username_fragment (ap_ice_params params)) (ip_password (ap_ice_params params))
      (media_with_property_attribute (ascii ''sctp-port:5000'') (media_with_property_attribute (ascii ''sendrecv'')
      (media_with_value_attribute (ascii ''mid'') (ap_mid_value params)
      (media_with_value_attribute (ascii ''setup'') (connection_role_display (ap_dtls_role params))
      \<lparr>md_media_name = \<lparr>mn_media = MEDIA_SECTION_APPLICATION, mn_port = \<lparr>rp_value = 9, rp_range = None\<rparr>,
          mn_protos = [ascii ''UDP'', ascii ''DTLS'', ascii ''SCTP''], mn_formats = [ascii ''webrtc-datachannel'']\<rparr>,
        md_media_title = None,
        md_connection_information = Some \<lparr>ci_network_type = ascii ''IN'', ci_address_type = ascii ''IP4'',
          ci_address = Some \<lparr>ad_address = ascii ''0.0.0.0'', ad_ttl = None, ad_range = None\<rparr>\<rparr>,
        md_bandwidth = [], md_encryption_key = None, md_attributes = []\<rparr>))))"

definition add_data_media_section :: "(bytes \<Rightarrow> u32) \<Rightarrow> bytes \<Rightarrow> session_description \<Rightarrow> dtls_fingerprint list \<Rightarrow> rtc_ice_candidate list \<Rightarrow>
    add_data_params \<Rightarrow> session_description pc_result" where
  "add_data_media_section crc rand_id d fingerprints candidates params =
     (let media = fold (\<lambda>f. media_with_fingerprint (fp_algorithm f) (to_uppercase (fp_value f))) fingerprints (data_media params) in
      obind (if ap_should_add_candidates params then add_candidates_to_media_descriptions crc rand_id candidates media (ap_gathering params)
             else Ok media) (\<lambda>media. Ok (with_media media d)))"

record media_section =
  ms_id :: bytes
  ms_data :: bool

record populate_sdp_params =
  pp_is_icelite :: bool
  pp_connection_role :: connection_role
  pp_gathering :: rtc_gathering_state

fun populate_sections :: "(bytes \<Rightarrow> u32) \<Rightarrow> bytes \<Rightarrow> rtc_ice_candidate list \<Rightarrow> ice_parameters \<Rightarrow> populate_sdp_params \<Rightarrow> nat \<Rightarrow>
    media_section list \<Rightarrow> session_description \<times> bytes \<Rightarrow> (session_description \<times> bytes) pc_result" where
  "populate_sections crc rand_id candidates ice params i [] (d, bundle) = Ok (d, bundle)"
| "populate_sections crc rand_id candidates ice params i (m # ms) (d, bundle) =
     (if ms_data m then
        obind (add_data_media_section crc rand_id d [] candidates
            \<lparr>ap_should_add_candidates = (i = 0), ap_mid_value = ms_id m, ap_ice_params = ice, ap_dtls_role = pp_connection_role params,
              ap_gathering = pp_gathering params\<rparr>)
          (\<lambda>d. populate_sections crc rand_id candidates ice params (i + 1) ms (d, bundle @ [32] @ ms_id m))
      else populate_sections crc rand_id candidates ice params (i + 1) ms (d, bundle))"

definition populate_sdp :: "(bytes \<Rightarrow> u32) \<Rightarrow> bytes \<Rightarrow> session_description \<Rightarrow> dtls_fingerprint list \<Rightarrow> rtc_ice_candidate list \<Rightarrow> ice_parameters \<Rightarrow>
    media_section list \<Rightarrow> populate_sdp_params \<Rightarrow> session_description pc_result" where
  "populate_sdp crc rand_id d fingerprints candidates ice sections params =
     obind (populate_sections crc rand_id candidates ice params 0 sections (d, ascii ''BUNDLE'')) (\<lambda>(d, bundle_value).
       let d = fold (\<lambda>f. with_fingerprint (fp_algorithm f) (to_uppercase (fp_value f))) fingerprints d;
           d = (if pp_is_icelite params then with_value_attribute (ascii ''ice-lite'') (ascii ''ice-lite'') d else d)
       in Ok (with_value_attribute (ascii ''group'') bundle_value d))"

section \<open>Reading a description\<close>

definition get_mid_value :: "media_description \<Rightarrow> bytes option" where
  "get_mid_value m = (case find (\<lambda>a. attr_key a = ascii ''mid'') (md_attributes m) of Some a \<Rightarrow> attr_value a | None \<Rightarrow> None)"

datatype sdp_type = ST_Unspecified | ST_Offer | ST_Pranswer | ST_Answer | ST_Rollback

record rtc_session_description =
  rs_type :: sdp_type
  rs_sdp :: bytes
  rs_parsed :: "session_description option"

definition rs_unmarshal :: "(bytes \<Rightarrow> bytes option) \<Rightarrow> rtc_session_description \<Rightarrow> session_description pc_result" where
  "rs_unmarshal parse_url s = lift_sdp (sdp_unmarshal parse_url (rs_sdp s))"

definition rs_answer :: "(bytes \<Rightarrow> bytes option) \<Rightarrow> bytes \<Rightarrow> rtc_session_description pc_result" where
  "rs_answer parse_url sdp =
     (let desc = \<lparr>rs_type = ST_Answer, rs_sdp = sdp, rs_parsed = None\<rparr> in
      obind (rs_unmarshal parse_url desc) (\<lambda>p. Ok (desc\<lparr>rs_parsed := Some p\<rparr>)))"

definition description_is_plan_b :: "(bytes \<Rightarrow> bool) \<Rightarrow> rtc_session_description option \<Rightarrow> bool" where
  "description_is_plan_b plan_b_mid desc =
     (case desc of
        Some s \<Rightarrow> (case rs_parsed s of
            Some p \<Rightarrow> list_ex (\<lambda>m. case get_mid_value m of Some v \<Rightarrow> plan_b_mid v | None \<Rightarrow> False) (sd_media_descriptions p)
          | None \<Rightarrow> False)
      | None \<Rightarrow> False)"

definition media_values :: "bytes \<Rightarrow> session_description \<Rightarrow> bytes list" where
  "media_values key d = List.map_filter (\<lambda>m. Option.bind (media_attribute key m) (\<lambda>v. v)) (sd_media_descriptions d)"

definition all_values :: "bytes \<Rightarrow> session_description \<Rightarrow> bytes list" where
  "all_values key d = (case sdp_attribute_value key d of Some v \<Rightarrow> [v] | None \<Rightarrow> []) @ media_values key d"

definition extract_fingerprint :: "session_description \<Rightarrow> (bytes \<times> bytes) pc_result" where
  "extract_fingerprint d =
     (let fingerprints = all_values (ascii ''fingerprint'') d in
      if fingerprints = [] then Err PErr_NoFingerprint
      else if list_ex (\<lambda>f. f \<noteq> fingerprints ! 0) (tl fingerprints) then Err PErr_ConflictingFingerprints
      else let parts = split_char 32 (fingerprints ! 0) in
        if length parts \<noteq> 2 then Err PErr_InvalidFingerprint else Ok (parts ! 1, parts ! 0))"

text \<open>\<open>ids n\<close> is the random identifier of the candidate that comes after \<open>n\<close> others.\<close>

fun extract_candidates :: "(bytes \<Rightarrow> u32) \<Rightarrow> (nat \<Rightarrow> bytes) \<Rightarrow> sdp_attribute list \<Rightarrow> rtc_ice_candidate list \<Rightarrow> rtc_ice_candidate list pc_result" where
  "extract_candidates crc ids [] cs = Ok cs"
| "extract_candidates crc ids (a # as) cs =
     (if is_ice_candidate a \<and> attr_value a \<noteq> None then
        obind (lift_ice (unmarshal_candidate (ids (length cs)) (the (attr_value a)))) (\<lambda>c.
          extract_candidates crc ids as (cs @ [rtc_candidate_from crc c]))
      else extract_candidates crc ids as cs)"

definition extract_ice_details :: "(bytes \<Rightarrow> u32) \<Rightarrow> (nat \<Rightarrow> bytes) \<Rightarrow> session_description \<Rightarrow> (bytes \<times> bytes \<times> rtc_ice_candidate list) pc_result" where
  "extract_ice_details crc ids d =
     obind (extract_candidates crc ids (concat (map md_attributes (sd_media_descriptions d))) []) (\<lambda>candidates.
       let remote_ufrags = all_values (ascii ''ice-ufrag'') d; remote_pwds = all_values (ascii ''ice-pwd'') d in
       if remote_ufrags = [] then Err PErr_MissingIceUfrag
       else if remote_pwds = [] then Err PErr_MissingIcePwd
       else if list_ex (\<lambda>u. u \<noteq> remote_ufrags ! 0) (tl remote_ufrags) then Err PErr_ConflictingIceUfrag
       else if list_ex (\<lambda>u. u \<noteq> remote_pwds ! 0) (tl remote_pwds) then Err PErr_ConflictingIcePwd
       else Ok (remote_ufrags ! 0, remote_pwds ! 0, candidates))"

definition have_application_media_section :: "session_description \<Rightarrow> bool" where
  "have_application_media_section d \<longleftrightarrow> list_ex (\<lambda>m. mn_media (md_media_name m) = MEDIA_SECTION_APPLICATION) (sd_media_descriptions d)"

definition update_sdp_origin :: "origin \<Rightarrow> session_description \<Rightarrow> origin \<times> session_description" where
  "update_sdp_origin og d =
     (if og_session_version og = 0 then
        (og\<lparr>og_session_version := og_session_version (sd_origin d), og_session_id := og_session_id (sd_origin d)\<rparr>, d)
      else
        (og\<lparr>og_session_version := og_session_version og + 1\<rparr>,
         d\<lparr>sd_origin := (sd_origin d)\<lparr>og_session_id := og_session_id og, og_session_version := og_session_version (sd_origin d) + 1\<rparr>\<rparr>))"

section \<open>Descriptions after a round trip\<close>

text \<open>
  A property attribute whose key has a colon, as \<^verbatim>\<open>sctp-port:5000\<close> in the offer, is read back as a key and a value. The text is the same.
\<close>

definition reparse_attribute :: "sdp_attribute \<Rightarrow> sdp_attribute" where
  "reparse_attribute a = parse_attribute (attribute_display a)"

definition reparse_media :: "media_description \<Rightarrow> media_description" where
  "reparse_media m = m\<lparr>md_attributes := map reparse_attribute (md_attributes m)\<rparr>"

definition reparse :: "session_description \<Rightarrow> session_description" where
  "reparse d = d\<lparr>sd_attributes := map reparse_attribute (sd_attributes d), sd_media_descriptions := map reparse_media (sd_media_descriptions d)\<rparr>"

lemma splitn2_shape: "(\<exists>w. splitn2 c s = [w] \<and> w = s) \<or> (\<exists>w v. splitn2 c s = [w, v] \<and> s = w @ c # v)"
  by (induction s) auto

lemma display_parse: "attribute_display (parse_attribute s) = s"
  using splitn2_shape [of 58 s] by (auto simp: parse_attribute_def attribute_display_def)

lemma marshal_reparse: "sdp_marshal (reparse d) = sdp_marshal d"
proof -
  have "attribute_display (reparse_attribute a) = attribute_display a" for a by (simp add: reparse_attribute_def display_parse)
  then have "marshal_media_description (reparse_media m) = marshal_media_description m" for m
    by (simp add: marshal_media_description_def reparse_media_def o_def)
  with \<open>\<And>a. attribute_display (reparse_attribute a) = attribute_display a\<close> show ?thesis by (simp add: sdp_marshal_def reparse_def o_def)
qed

lemma unmarshal_reparse:
  assumes "session_typed (reparse d)" and "session_text (reparse d)" and "sd_uri d = None"
  shows "sdp_unmarshal parse_url (sdp_marshal d) = Ok (reparse d)"
  using unmarshal_marshal [OF assms(1,2), of parse_url] assms(3) by (simp add: marshal_reparse) (simp add: reparse_def)

lemma reparse_value: "58 \<notin> set k \<Longrightarrow> reparse_attribute (attribute_new k (Some v)) = attribute_new k (Some v)"
  by (simp add: reparse_attribute_def attribute_new_def attribute_line attribute_typed_def)

lemma reparse_property: "58 \<notin> set k \<Longrightarrow> reparse_attribute (attribute_new k None) = attribute_new k None"
  by (simp add: reparse_attribute_def attribute_new_def attribute_line attribute_typed_def)

section \<open>Candidates of an offer\<close>

text \<open>What a gathered candidate is: a host candidate over UDP with a resolvable address and no white space in its fields.\<close>

definition offerable :: "rtc_ice_candidate \<Rightarrow> bool" where
  "offerable r \<longleftrightarrow> rc_typ r = RCT_Host \<and> rc_protocol r = IP_Udp \<and> plain_word (rc_address r) \<and>
     (ends_with (rc_address r) (ascii ''.local'') \<or> parse_ip (rc_address r) \<noteq> None) \<and> (rc_foundation r = [] \<or> plain_word (rc_foundation r))"

definition signalled :: "candidate \<Rightarrow> bool" where
  "signalled c \<longleftrightarrow> host_line c \<and> (ends_with (cb_address c) (ascii ''.local'') \<or> parse_ip (cb_address c) \<noteq> None)"

definition cand_endpoint :: "candidate \<Rightarrow> bytes \<times> u16 \<times> u16" where
  "cand_endpoint c = (cb_address c, cb_port c, cb_component c)"

definition rtc_endpoint :: "rtc_ice_candidate \<Rightarrow> bytes \<times> u16 \<times> u16" where
  "rtc_endpoint r = (rc_address r, rc_port r, rc_component r)"

lemma to_ice_offerable:
  assumes "offerable r"
  obtains c where "to_ice rand_id r = Ok c" and "signalled c" and "cb_address c = rc_address r" and "cb_port c = rc_port r"
proof -
  let ?cfg = "\<lparr>cc_id = rc_stats_id r, cc_network = ice_protocol_display (rc_protocol r), cc_address = rc_address r,
    cc_port = rc_port r, cc_component = rc_component r, cc_priority = rc_priority r, cc_foundation = rc_foundation r, cc_conn = False\<rparr>"
  have "\<exists>c. new_candidate_host rand_id ?cfg = Ok c" using assms by (intro new_candidate_host_udp) (auto simp: offerable_def)
  then obtain c where c: "new_candidate_host rand_id ?cfg = Ok c" by blast
  note k = new_candidate_host_Ok [OF c]
  have "signalled c" using k assms by (auto simp: signalled_def host_line_def offerable_def split: if_splits)
  moreover have "to_ice rand_id r = Ok c" using assms c by (simp add: to_ice_def offerable_def)
  ultimately show thesis using that k by simp
qed

lemma signalled_component [simp]: "signalled (set_component n c) = signalled c"
  by (simp add: signalled_def set_component_def host_line_def)

lemma read_signalled:
  assumes "signalled c"
  obtains d where "unmarshal_candidate rand_id (cand_marshal crc c) = Ok d" and "cand_endpoint d = cand_endpoint c" and "signalled d"
proof -
  let ?cfg = "\<lparr>cc_id = [], cc_network = ascii ''udp'', cc_address = cb_address c, cc_port = cb_port c, cc_component = cb_component c,
    cc_priority = cand_priority c, cc_foundation = cand_foundation crc c, cc_conn = False\<rparr>"
  have "\<exists>d. new_candidate_host rand_id ?cfg = Ok d" using assms by (intro new_candidate_host_udp) (auto simp: signalled_def)
  then obtain d where d: "new_candidate_host rand_id ?cfg = Ok d" by blast
  show thesis
  proof (rule that)
    show "unmarshal_candidate rand_id (cand_marshal crc c) = Ok d" using d candidate_line(2) [of c rand_id crc] assms by (simp add: signalled_def)
    show "cand_endpoint d = cand_endpoint c" using new_candidate_host_Ok [OF d] by (simp add: cand_endpoint_def)
    have "plain_word (cand_foundation crc c)" using assms by (intro plain_foundation) (simp add: signalled_def host_line_def)
    then show "signalled d" using new_candidate_host_Ok [OF d] assms by (auto simp: signalled_def host_line_def split: if_splits)
  qed
qed

lemma line_endpoint:
  assumes "signalled c" and "signalled c'" and "cand_marshal crc c = cand_marshal crc c'"
  shows "cand_endpoint c = cand_endpoint c'"
proof -
  obtain d where d: "unmarshal_candidate [] (cand_marshal crc c) = Ok d" "cand_endpoint d = cand_endpoint c" by (rule read_signalled [OF assms(1)])
  obtain d' where d': "unmarshal_candidate [] (cand_marshal crc c') = Ok d'" "cand_endpoint d' = cand_endpoint c'" by (rule read_signalled [OF assms(2)])
  from d d' assms(3) show ?thesis by simp
qed

definition candidate_attribute :: "(bytes \<Rightarrow> u32) \<Rightarrow> candidate \<Rightarrow> sdp_attribute" where
  "candidate_attribute crc c = attribute_new (ascii ''candidate'') (Some (cand_marshal crc c))"

lemma line_not_word:
  assumes "signalled c" and "plain_word w"
  shows "cand_marshal crc c \<noteq> w"
proof
  assume e: "cand_marshal crc c = w"
  from candidate_line(1) [of c crc] assms(1) obtain ws where ws: "cand_marshal crc c = unwords ws" "length ws = 8" "\<forall>v \<in> set ws. plain_word v"
    by (auto simp: signalled_def)
  have "split_whitespace w = ws" using split_unwords [OF ws(3)] ws(1) e by simp
  moreover have "split_whitespace w = [w]" using split_unwords [of "[w]"] assms(2) by simp
  ultimately have "ws = [w]" by simp
  then show False using ws(2) by simp
qed

text \<open>Appending candidates to a media section whose other attribute values are no candidate lines.\<close>

definition no_lines :: "sdp_attribute list \<Rightarrow> bool" where
  "no_lines as \<longleftrightarrow> (\<forall>a \<in> set as. attr_key a \<noteq> ascii ''candidate'' \<and> pred_option plain_word (attr_value a))"

lemma append_candidate:
  assumes "md_attributes m = as @ map (candidate_attribute crc) cs" and "no_lines as" and "signalled c" and "\<forall>c \<in> set cs. signalled c"
  shows "\<exists>cs'. append_candidate_if_new crc c m = m\<lparr>md_attributes := as @ map (candidate_attribute crc) cs'\<rparr> \<and> (\<forall>c \<in> set cs'. signalled c) \<and>
    cand_endpoint ` set cs' = insert (cand_endpoint c) (cand_endpoint ` set cs)"
proof (cases "cand_marshal crc c \<in> cand_marshal crc ` set cs")
  case True
  then obtain c' where c': "c' \<in> set cs" "cand_marshal crc c = cand_marshal crc c'" by blast
  with line_endpoint [of c c' crc] assms(3,4) have "cand_endpoint c \<in> cand_endpoint ` set cs" by auto
  moreover have "Some (cand_marshal crc c) \<in> set (map attr_value (md_attributes m))"
    using c' by (auto simp: assms(1) candidate_attribute_def attribute_new_def)
  ultimately show ?thesis using assms(1,4) by (intro exI [of _ cs]) (auto simp: append_candidate_if_new_def)
next
  case False
  have "Some (cand_marshal crc c) \<notin> attr_value ` set as"
  proof
    assume "Some (cand_marshal crc c) \<in> attr_value ` set as"
    then obtain a where "a \<in> set as" "attr_value a = Some (cand_marshal crc c)" by auto
    with assms(2) have "plain_word (cand_marshal crc c)" by (force simp: no_lines_def)
    with line_not_word [OF assms(3)] show False by blast
  qed
  with False have "Some (cand_marshal crc c) \<notin> set (map attr_value (md_attributes m))"
    by (auto simp: assms(1) candidate_attribute_def attribute_new_def)
  then have "append_candidate_if_new crc c m = m\<lparr>md_attributes := as @ map (candidate_attribute crc) (cs @ [c])\<rparr>"
    by (simp add: append_candidate_if_new_def media_with_value_attribute_def assms(1) candidate_attribute_def)
  then show ?thesis using assms(3,4) by (intro exI [of _ "cs @ [c]"]) auto
qed

lemma append_candidates_lines:
  assumes "md_attributes m = as @ map (candidate_attribute crc) cs" and "no_lines as" and "\<forall>r \<in> set rs. offerable r" and "\<forall>c \<in> set cs. signalled c"
  shows "\<exists>cs'. append_candidates crc rand_id rs m = Ok (m\<lparr>md_attributes := as @ map (candidate_attribute crc) cs'\<rparr>) \<and> (\<forall>c \<in> set cs'. signalled c) \<and>
    cand_endpoint ` set cs' = cand_endpoint ` set cs \<union> (\<lambda>(r, k). (rc_address r, rc_port r, k)) ` (set rs \<times> {1, 2})"
  using assms(1,3,4)
proof (induction rs arbitrary: m cs)
  case Nil
  then show ?case by (intro exI [of _ cs]) simp
next
  case (Cons r rs)
  obtain c where c: "to_ice rand_id r = Ok c" "signalled c" "cb_address c = rc_address r" "cb_port c = rc_port r"
    by (rule to_ice_offerable [of r rand_id]) (use Cons.prems(2) in simp_all)
  from append_candidate [OF Cons.prems(1) assms(2) _ Cons.prems(3), of "set_component 1 c"] c(2)
  obtain cs1 where c1: "append_candidate_if_new crc (set_component 1 c) m = m\<lparr>md_attributes := as @ map (candidate_attribute crc) cs1\<rparr>"
    "\<forall>c \<in> set cs1. signalled c" "cand_endpoint ` set cs1 = insert (cand_endpoint (set_component 1 c)) (cand_endpoint ` set cs)" by auto
  let ?m1 = "m\<lparr>md_attributes := as @ map (candidate_attribute crc) cs1\<rparr>"
  from append_candidate [of ?m1 as crc cs1 "set_component 2 c"] assms(2) c(2) c1(2)
  obtain cs2 where c2: "append_candidate_if_new crc (set_component 2 c) ?m1 = m\<lparr>md_attributes := as @ map (candidate_attribute crc) cs2\<rparr>"
    "\<forall>c \<in> set cs2. signalled c" "cand_endpoint ` set cs2 = insert (cand_endpoint (set_component 2 c)) (cand_endpoint ` set cs1)" by auto
  from Cons.IH [of "m\<lparr>md_attributes := as @ map (candidate_attribute crc) cs2\<rparr>" cs2] Cons.prems(2) c2(2)
  obtain cs' where "append_candidates crc rand_id rs (m\<lparr>md_attributes := as @ map (candidate_attribute crc) cs2\<rparr>) =
      Ok (m\<lparr>md_attributes := as @ map (candidate_attribute crc) cs'\<rparr>)" "\<forall>c \<in> set cs'. signalled c"
    "cand_endpoint ` set cs' = cand_endpoint ` set cs2 \<union> (\<lambda>(r, k). (rc_address r, rc_port r, k)) ` (set rs \<times> {1, 2})" by auto
  then show ?case using c(1,3,4) c1(1,3) c2(1,3)
    by (intro exI [of _ cs']) (auto simp: cand_endpoint_def set_component_def)
qed

lemma extract_skip: "\<forall>a \<in> set as. attr_key a \<noteq> ascii ''candidate'' \<Longrightarrow> extract_candidates crc ids (as @ bs) cs = extract_candidates crc ids bs cs"
  by (induction as) (simp_all add: is_ice_candidate_def)

lemma rtc_endpoint_from: "rtc_endpoint (rtc_candidate_from crc c) = cand_endpoint c"
  by (simp add: rtc_endpoint_def rtc_candidate_from_def cand_endpoint_def Let_def split: option.splits prod.splits)

lemma offerable_from: "signalled c \<Longrightarrow> offerable (rtc_candidate_from crc c)"
proof -
  assume c: "signalled c"
  then have "plain_word (cand_foundation crc c)" by (intro plain_foundation) (simp add: signalled_def host_line_def)
  moreover have "ice_protocol_from (network_short (cb_network_type c)) = IP_Udp"
    using c by (cases "cb_network_type c") (simp_all add: signalled_def host_line_def ice_protocol_from_def)
  ultimately show ?thesis using c by (simp add: offerable_def rtc_candidate_from_def signalled_def host_line_def)
qed

lemma extract_lines:
  "\<forall>c \<in> set cs. signalled c \<Longrightarrow>
    \<exists>rs. extract_candidates crc ids (map (candidate_attribute crc) cs @ bs) xs = extract_candidates crc ids bs (xs @ rs) \<and>
      map rtc_endpoint rs = map cand_endpoint cs \<and> list_all offerable rs"
proof (induction cs arbitrary: xs)
  case (Cons c cs)
  obtain d where d: "unmarshal_candidate (ids (length xs)) (cand_marshal crc c) = Ok d" "cand_endpoint d = cand_endpoint c" "signalled d"
    by (rule read_signalled [of c]) (use Cons.prems in simp_all)
  from Cons.IH [of "xs @ [rtc_candidate_from crc d]"] Cons.prems obtain rs where
    rs: "extract_candidates crc ids (map (candidate_attribute crc) cs @ bs) (xs @ [rtc_candidate_from crc d]) =
      extract_candidates crc ids bs (xs @ rtc_candidate_from crc d # rs)" "map rtc_endpoint rs = map cand_endpoint cs"
    "list_all offerable rs" by auto
  have a: "is_ice_candidate (candidate_attribute crc c)" "attr_value (candidate_attribute crc c) = Some (cand_marshal crc c)"
    by (simp_all add: candidate_attribute_def attribute_new_def is_ice_candidate_def)
  from rs d show ?case by (intro exI [of _ "rtc_candidate_from crc d # rs"]) (simp add: a rtc_endpoint_from offerable_from)
qed simp

section \<open>The offer\<close>

definition data_attributes :: "add_data_params \<Rightarrow> sdp_attribute list" where
  "data_attributes params = [attribute_new (ascii ''setup'') (Some (connection_role_display (ap_dtls_role params))),
     attribute_new (ascii ''mid'') (Some (ap_mid_value params)), attribute_new (ascii ''sendrecv'') None, attribute_new (ascii ''sctp-port:5000'') None,
     attribute_new (ascii ''ice-ufrag'') (Some (ip_username_fragment (ap_ice_params params))),
     attribute_new (ascii ''ice-pwd'') (Some (ip_password (ap_ice_params params)))]"

definition end_of_candidates :: "rtc_gathering_state \<Rightarrow> sdp_attribute list" where
  "end_of_candidates g = (if g = RGS_Complete then [attribute_new (ascii ''end-of-candidates'') None] else [])"

lemma data_media_attributes: "md_attributes (data_media params) = data_attributes params"
  by (simp add: data_media_def with_ice_credentials_def media_with_value_attribute_def media_with_property_attribute_def data_attributes_def)

definition plain_params :: "add_data_params \<Rightarrow> bool" where
  "plain_params params \<longleftrightarrow> plain_word (ap_mid_value params) \<and> plain_word (ip_username_fragment (ap_ice_params params)) \<and>
     plain_word (ip_password (ap_ice_params params))"

lemma plain_role: "plain_word (connection_role_display role)"
  by (cases role) (simp_all add: plain_word_def ascii_def)

lemma data_no_lines: "plain_params params \<Longrightarrow> no_lines (data_attributes params)"
  using plain_role [of "ap_dtls_role params"] by (simp add: no_lines_def data_attributes_def attribute_new_def plain_params_def ascii_def)

lemma media_candidates:
  assumes "plain_params params" and "\<forall>r \<in> set rs. offerable r"
  obtains cs where "add_candidates_to_media_descriptions crc rand_id rs (data_media params) g =
      Ok ((data_media params)\<lparr>md_attributes := data_attributes params @ map (candidate_attribute crc) cs @ end_of_candidates g\<rparr>)"
    and "\<forall>c \<in> set cs. signalled c" and "cand_endpoint ` set cs = (\<lambda>(r, k). (rc_address r, rc_port r, k)) ` (set rs \<times> {1, 2})"
proof -
  from append_candidates_lines [of "data_media params" "data_attributes params" crc "[]" rs rand_id] assms data_no_lines [OF assms(1)]
  obtain cs where cs: "append_candidates crc rand_id rs (data_media params) =
      Ok ((data_media params)\<lparr>md_attributes := data_attributes params @ map (candidate_attribute crc) cs\<rparr>)" "\<forall>c \<in> set cs. signalled c"
    "cand_endpoint ` set cs = (\<lambda>(r, k). (rc_address r, rc_port r, k)) ` (set rs \<times> {1, 2})" by (auto simp: data_media_attributes)
  have "ascii ''end-of-candidates'' \<notin> set (map attr_key (data_attributes params @ map (candidate_attribute crc) cs))"
    by (auto simp: data_attributes_def candidate_attribute_def attribute_new_def ascii_def)
  with cs(1) have "add_candidates_to_media_descriptions crc rand_id rs (data_media params) g =
      Ok ((data_media params)\<lparr>md_attributes := data_attributes params @ map (candidate_attribute crc) cs @ end_of_candidates g\<rparr>)"
    by (simp add: add_candidates_to_media_descriptions_def end_of_candidates_def media_with_property_attribute_def del: map_append set_append set_map)
  from that [OF this cs(2,3)] show thesis .
qed

text \<open>The description \<^verbatim>\<open>populate_sdp\<close> makes of one data section.\<close>

definition offer_description :: "(bytes \<Rightarrow> u32) \<Rightarrow> session_description \<Rightarrow> dtls_fingerprint list \<Rightarrow> add_data_params \<Rightarrow> candidate list \<Rightarrow> session_description" where
  "offer_description crc d fps params cs = d\<lparr>
     sd_attributes := sd_attributes d @ map (\<lambda>f. attribute_new (ascii ''fingerprint'') (Some (fp_algorithm f @ [32] @ to_uppercase (fp_value f)))) fps @
       [attribute_new (ascii ''group'') (Some (ascii ''BUNDLE'' @ [32] @ ap_mid_value params))],
     sd_media_descriptions := sd_media_descriptions d @ [(data_media params)\<lparr>md_attributes := data_attributes params @ map (candidate_attribute crc) cs @
       end_of_candidates (ap_gathering params)\<rparr>]\<rparr>"

lemma fold_fingerprints: "fold (\<lambda>f. with_fingerprint (fp_algorithm f) (to_uppercase (fp_value f))) fps d =
    d\<lparr>sd_attributes := sd_attributes d @ map (\<lambda>f. attribute_new (ascii ''fingerprint'') (Some (fp_algorithm f @ [32] @ to_uppercase (fp_value f)))) fps\<rparr>"
  by (induction fps arbitrary: d) (simp_all add: with_fingerprint_def with_value_attribute_def)

lemma populate_offer:
  assumes "plain_word mid" "plain_word (ip_username_fragment ice)" "plain_word (ip_password ice)" and "\<forall>r \<in> set rs. offerable r"
  obtains cs where "populate_sdp crc rand_id d fps rs ice [\<lparr>ms_id = mid, ms_data = True\<rparr>]
      \<lparr>pp_is_icelite = False, pp_connection_role = role, pp_gathering = g\<rparr> =
      Ok (offer_description crc d fps \<lparr>ap_should_add_candidates = True, ap_mid_value = mid, ap_ice_params = ice, ap_dtls_role = role, ap_gathering = g\<rparr> cs)"
    and "\<forall>c \<in> set cs. signalled c" and "cand_endpoint ` set cs = (\<lambda>(r, k). (rc_address r, rc_port r, k)) ` (set rs \<times> {1, 2})"
proof -
  let ?p = "\<lparr>ap_should_add_candidates = True, ap_mid_value = mid, ap_ice_params = ice, ap_dtls_role = role, ap_gathering = g\<rparr>"
  have "plain_params ?p" using assms by (simp add: plain_params_def)
  then obtain cs where cs: "add_candidates_to_media_descriptions crc rand_id rs (data_media ?p) g =
      Ok ((data_media ?p)\<lparr>md_attributes := data_attributes ?p @ map (candidate_attribute crc) cs @ end_of_candidates g\<rparr>)"
    "\<forall>c \<in> set cs. signalled c" "cand_endpoint ` set cs = (\<lambda>(r, k). (rc_address r, rc_port r, k)) ` (set rs \<times> {1, 2})"
    by (rule media_candidates [OF _ assms(4)])
  from cs(1) have "populate_sdp crc rand_id d fps rs ice [\<lparr>ms_id = mid, ms_data = True\<rparr>]
      \<lparr>pp_is_icelite = False, pp_connection_role = role, pp_gathering = g\<rparr> = Ok (offer_description crc d fps ?p cs)"
    by (simp add: populate_sdp_def add_data_media_section_def fold_fingerprints with_media_def with_value_attribute_def offer_description_def)
  from that [OF this cs(2,3)] show thesis .
qed

text \<open>The description of \<^verbatim>\<open>new_jsep_session_description\<close> for given session identifier and version.\<close>

definition jsep :: "u64 \<Rightarrow> u64 \<Rightarrow> session_description" where
  "jsep i v = (new_jsep_session_description 0 0 False)\<lparr>sd_origin := (sd_origin (new_jsep_session_description 0 0 False))\<lparr>og_session_id := i, og_session_version := v\<rparr>\<rparr>"

lemma new_jsep: "new_jsep_session_description random nanos False = jsep (new_session_id random) (ucast nanos)"
  by (simp add: jsep_def new_jsep_session_description_def)

lemma update_origin_jsep:
  "\<exists>i' v'. snd (update_sdp_origin og (offer_description crc (jsep i v) fps params cs)) = offer_description crc (jsep i' v') fps params cs"
proof (cases "og_session_version og = 0")
  case True
  then show ?thesis by (intro exI [of _ i] exI [of _ v]) (simp add: update_sdp_origin_def)
next
  case False
  then show ?thesis
    by (intro exI [of _ "og_session_id og"] exI [of _ "v + 1"])
      (simp add: update_sdp_origin_def offer_description_def jsep_def new_jsep_session_description_def)
qed

lemma line_text_prefixed:
  assumes "\<forall>w \<in> set ws. plain_word w" and "ws \<noteq> []" and "\<forall>b \<in> set k. 33 \<le> b \<and> b < 0x80"
  shows "line_text (k @ unwords ws)"
proof -
  obtain w vs where ws: "ws = w # vs" using assms(2) by (cases ws) auto
  have "k @ unwords ws = unwords ((k @ w) # vs)" by (cases vs) (simp_all add: ws)
  moreover have "plain_word (k @ w)" using assms(1,3) by (auto simp: ws plain_word_def)
  ultimately show ?thesis using assms(1) line_text_unwords [of "(k @ w) # vs"] by (simp add: ws)
qed

lemma plain_uppercase: "plain_word w \<Longrightarrow> plain_word (to_uppercase w)"
proof -
  have "33 \<le> to_upper b \<and> to_upper b < 0x80" if "33 \<le> b" "b < 0x80" for b
  proof (cases "97 \<le> b \<and> b \<le> 122")
    case True
    then have "unat (b - 32) = unat b - 32" by (simp add: unat_sub word_le_nat_alt)
    with True show ?thesis by (auto simp: to_upper_def word_le_nat_alt word_less_nat_alt)
  qed (use that in \<open>auto simp: to_upper_def\<close>)
  then show "plain_word w \<Longrightarrow> plain_word (to_uppercase w)" by (auto simp: plain_word_def to_uppercase_def)
qed

definition offer_attributes :: "(bytes \<Rightarrow> u32) \<Rightarrow> add_data_params \<Rightarrow> candidate list \<Rightarrow> sdp_attribute list" where
  "offer_attributes crc params cs = [attribute_new (ascii ''setup'') (Some (connection_role_display (ap_dtls_role params))),
     attribute_new (ascii ''mid'') (Some (ap_mid_value params)), attribute_new (ascii ''sendrecv'') None,
     attribute_new (ascii ''sctp-port'') (Some (ascii ''5000'')),
     attribute_new (ascii ''ice-ufrag'') (Some (ip_username_fragment (ap_ice_params params))),
     attribute_new (ascii ''ice-pwd'') (Some (ip_password (ap_ice_params params)))] @
     map (candidate_attribute crc) cs @ end_of_candidates (ap_gathering params)"

definition session_attributes :: "dtls_fingerprint \<Rightarrow> add_data_params \<Rightarrow> sdp_attribute list" where
  "session_attributes f params = [attribute_new (ascii ''fingerprint'') (Some (fp_algorithm f @ [32] @ to_uppercase (fp_value f))),
     attribute_new (ascii ''group'') (Some (ascii ''BUNDLE'' @ [32] @ ap_mid_value params))]"

lemma reparse_port: "reparse_attribute (attribute_new (ascii ''sctp-port:5000'') None) = attribute_new (ascii ''sctp-port'') (Some (ascii ''5000''))"
  by (simp add: reparse_attribute_def attribute_new_def attribute_display_def parse_attribute_def ascii_def)

lemma reparse_offer_attributes:
  "map reparse_attribute (data_attributes params @ map (candidate_attribute crc) cs @ end_of_candidates g) = offer_attributes crc (params\<lparr>ap_gathering := g\<rparr>) cs"
  "map reparse_attribute (session_attributes f params) = session_attributes f params"
proof -
  have k: "58 \<notin> set (ascii ''setup'')" "58 \<notin> set (ascii ''mid'')" "58 \<notin> set (ascii ''sendrecv'')" "58 \<notin> set (ascii ''ice-ufrag'')"
    "58 \<notin> set (ascii ''ice-pwd'')" "58 \<notin> set (ascii ''candidate'')" "58 \<notin> set (ascii ''end-of-candidates'')"
    "58 \<notin> set (ascii ''fingerprint'')" "58 \<notin> set (ascii ''group'')" by (simp_all add: ascii_def)
  show "map reparse_attribute (data_attributes params @ map (candidate_attribute crc) cs @ end_of_candidates g) = offer_attributes crc (params\<lparr>ap_gathering := g\<rparr>) cs"
    by (simp add: data_attributes_def offer_attributes_def end_of_candidates_def candidate_attribute_def reparse_port reparse_value reparse_property k)
  show "map reparse_attribute (session_attributes f params) = session_attributes f params"
    by (simp add: session_attributes_def reparse_value k)
qed

lemma reparse_offer: "reparse (offer_description crc (jsep i v) [f] params cs) =
    (jsep i v)\<lparr>sd_attributes := session_attributes f params,
      sd_media_descriptions := [(data_media params)\<lparr>md_attributes := offer_attributes crc params cs\<rparr>]\<rparr>"
  using reparse_offer_attributes(1) [of params crc cs "ap_gathering params"] reparse_offer_attributes(2) [of f params]
  by (simp add: reparse_def offer_description_def reparse_media_def jsep_def new_jsep_session_description_def Let_def session_attributes_def)

definition plain_fingerprint :: "dtls_fingerprint \<Rightarrow> bool" where
  "plain_fingerprint f \<longleftrightarrow> plain_word (fp_algorithm f) \<and> plain_word (fp_value f)"

lemma attribute_text_word: "\<forall>b \<in> set k. 33 \<le> b \<and> b < 0x80 \<Longrightarrow> plain_word w \<Longrightarrow> line_text (attribute_display (attribute_new k (Some w)))"
  using line_text_prefixed [of "[w]" "k @ [58]"] by (simp add: attribute_display_def attribute_new_def)

lemma attribute_text_words:
  assumes "\<forall>b \<in> set k. 33 \<le> b \<and> b < 0x80" and "\<forall>w \<in> set ws. plain_word w" and "ws \<noteq> []"
  shows "line_text (attribute_display (attribute_new k (Some (unwords ws))))"
  using line_text_prefixed [of ws "k @ [58]"] assms by (simp add: attribute_display_def attribute_new_def)

lemma attribute_text_key: "plain_word k \<Longrightarrow> line_text (attribute_display (attribute_new k None))"
  by (simp add: attribute_display_def attribute_new_def line_text_word)

lemma candidate_text: "signalled c \<Longrightarrow> line_text (attribute_display (candidate_attribute crc c))"
proof -
  assume "signalled c"
  then obtain ws where "cand_marshal crc c = unwords ws" "length ws = 8" "\<forall>w \<in> set ws. plain_word w"
    using candidate_line(1) [of c crc] by (auto simp: signalled_def)
  moreover from \<open>length ws = 8\<close> have "ws \<noteq> []" by auto
  ultimately show ?thesis using attribute_text_words [of "ascii ''candidate''" ws] by (simp add: candidate_attribute_def) (simp add: ascii_def)
qed

lemma offer_text:
  assumes "plain_params params" and "\<forall>c \<in> set cs. signalled c"
  shows "list_all (\<lambda>a. line_text (attribute_display a)) (offer_attributes crc params cs)"
  using assms plain_role [of "ap_dtls_role params"] candidate_text
  by (auto simp: offer_attributes_def list_all_iff end_of_candidates_def plain_params_def ascii_def plain_word_def
      intro!: attribute_text_word attribute_text_key)

lemma session_attribute_text:
  assumes "plain_params params" and "plain_fingerprint f"
  shows "list_all (\<lambda>a. line_text (attribute_display a)) (session_attributes f params)"
  using attribute_text_words [of "ascii ''fingerprint''" "[fp_algorithm f, to_uppercase (fp_value f)]"] plain_uppercase [of "fp_value f"]
    attribute_text_words [of "ascii ''group''" "[ascii ''BUNDLE'', ap_mid_value params]"] assms
  by (simp add: session_attributes_def plain_params_def plain_fingerprint_def) (simp add: ascii_def plain_word_def)

lemma offer_attributes_typed: "list_all attribute_typed (offer_attributes crc params cs)" "list_all attribute_typed (session_attributes f params)"
  by (auto simp: offer_attributes_def session_attributes_def attribute_typed_def attribute_new_def candidate_attribute_def end_of_candidates_def
      list_all_iff ascii_def)

lemma offer_unmarshal:
  assumes "plain_params params" and "plain_fingerprint f" and "\<forall>c \<in> set cs. signalled c"
  shows "sdp_unmarshal parse_url (sdp_marshal (offer_description crc (jsep i v) [f] params cs)) = Ok (reparse (offer_description crc (jsep i v) [f] params cs))"
proof (rule unmarshal_reparse)
  show "session_typed (reparse (offer_description crc (jsep i v) [f] params cs))"
    unfolding reparse_offer using offer_attributes_typed
    by (simp add: session_typed_def lines_typed_def origin_typed_def time_typed_def media_typed_def media_name_typed_def port_typed_def
        connection_typed_def jsep_def new_jsep_session_description_def data_media_def with_ice_credentials_def media_with_value_attribute_def
        media_with_property_attribute_def MEDIA_SECTION_APPLICATION_def MEDIA_TYPES_def PROTOS_def)
  show "session_text (reparse (offer_description crc (jsep i v) [f] params cs))"
  proof -
    have "line_text (ascii ''-'')" "plain_word (ascii ''-'')" "plain_word (ascii ''0.0.0.0'')" "plain_word (ascii ''webrtc-datachannel'')"
      by (simp_all add: ascii_def plain_word_def line_text_ascii)
    then show ?thesis unfolding reparse_offer
      using offer_text [OF assms(1,3), of crc] session_attribute_text [OF assms(1,2)]
      by (simp add: session_text_def media_text_def connection_text_def jsep_def new_jsep_session_description_def data_media_def
          with_ice_credentials_def media_with_value_attribute_def media_with_property_attribute_def)
  qed
  show "sd_uri (offer_description crc (jsep i v) [f] params cs) = None"
    by (simp add: offer_description_def jsep_def new_jsep_session_description_def)
qed

lemma offer_fingerprint:
  assumes "plain_fingerprint f"
  shows "extract_fingerprint (reparse (offer_description crc (jsep i v) [f] params cs)) = Ok (to_uppercase (fp_value f), fp_algorithm f)"
proof -
  let ?d = "reparse (offer_description crc (jsep i v) [f] params cs)"
  have n: "find (\<lambda>a. attr_key a = ascii ''fingerprint'') (offer_attributes crc params cs) = None"
    by (auto simp: find_None_iff offer_attributes_def attribute_new_def candidate_attribute_def end_of_candidates_def ascii_def)
  have "all_values (ascii ''fingerprint'') ?d = [fp_algorithm f @ [32] @ to_uppercase (fp_value f)]"
    unfolding reparse_offer
    by (simp add: all_values_def media_values_def sdp_attribute_value_def media_attribute_def n session_attributes_def attribute_new_def
        List.map_filter_simps)
  moreover have "32 \<notin> set (fp_algorithm f)" "32 \<notin> set (to_uppercase (fp_value f))"
    using assms plain_uppercase [of "fp_value f"] by (auto simp: plain_fingerprint_def plain_word_def)
  then have "split_char 32 (fp_algorithm f @ [32] @ to_uppercase (fp_value f)) = [fp_algorithm f, to_uppercase (fp_value f)]"
    by (simp add: split_char_first split_char_none)
  ultimately show ?thesis by (simp add: extract_fingerprint_def)
qed

lemma offer_ice_details:
  assumes "\<forall>c \<in> set cs. signalled c"
  shows "\<exists>rs. extract_ice_details crc ids (reparse (offer_description crc (jsep i v) [f] params cs)) =
      Ok (ip_username_fragment (ap_ice_params params), ip_password (ap_ice_params params), rs) \<and> map rtc_endpoint rs = map cand_endpoint cs \<and>
      list_all offerable rs"
proof -
  let ?d = "reparse (offer_description crc (jsep i v) [f] params cs)"
  let ?base = "take 6 (offer_attributes crc params cs)"
  have k: "ascii ''setup'' \<noteq> ascii ''ice-ufrag''" "ascii ''mid'' \<noteq> ascii ''ice-ufrag''" "ascii ''sendrecv'' \<noteq> ascii ''ice-ufrag''"
    "ascii ''sctp-port'' \<noteq> ascii ''ice-ufrag''" "ascii ''setup'' \<noteq> ascii ''ice-pwd''" "ascii ''mid'' \<noteq> ascii ''ice-pwd''"
    "ascii ''sendrecv'' \<noteq> ascii ''ice-pwd''" "ascii ''sctp-port'' \<noteq> ascii ''ice-pwd''" "ascii ''ice-ufrag'' \<noteq> ascii ''ice-pwd''"
    "ascii ''fingerprint'' \<noteq> ascii ''ice-ufrag''" "ascii ''group'' \<noteq> ascii ''ice-ufrag''" "ascii ''fingerprint'' \<noteq> ascii ''ice-pwd''"
    "ascii ''group'' \<noteq> ascii ''ice-pwd''" by (simp_all add: ascii_def)
  have u: "all_values (ascii ''ice-ufrag'') ?d = [ip_username_fragment (ap_ice_params params)]"
    "all_values (ascii ''ice-pwd'') ?d = [ip_password (ap_ice_params params)]"
    unfolding reparse_offer
    by (simp_all add: all_values_def media_values_def sdp_attribute_value_def media_attribute_def session_attributes_def attribute_new_def
        offer_attributes_def List.map_filter_simps k)
  have b: "\<forall>a \<in> set ?base. attr_key a \<noteq> ascii ''candidate''" by (simp add: offer_attributes_def attribute_new_def ascii_def)
  have e: "extract_candidates crc ids (end_of_candidates (ap_gathering params)) xs = Ok xs" for xs
    using extract_skip [of "end_of_candidates (ap_gathering params)" crc ids "[]" xs] by (simp add: end_of_candidates_def attribute_new_def ascii_def)
  have s: "offer_attributes crc params cs = ?base @ map (candidate_attribute crc) cs @ end_of_candidates (ap_gathering params)"
    by (simp add: offer_attributes_def)
  have "concat (map md_attributes (sd_media_descriptions ?d)) = offer_attributes crc params cs" unfolding reparse_offer by simp
  moreover from extract_lines [OF assms, of crc ids "end_of_candidates (ap_gathering params)" "[]"] obtain rs where
    "extract_candidates crc ids (map (candidate_attribute crc) cs @ end_of_candidates (ap_gathering params)) [] = Ok rs"
    "map rtc_endpoint rs = map cand_endpoint cs" "list_all offerable rs" by (auto simp: e)
  ultimately show ?thesis
    by (intro exI [of _ rs]) (simp add: extract_ice_details_def u, subst s, simp only: extract_skip [OF b], simp)
qed

lemma offer_application: "have_application_media_section (reparse (offer_description crc (jsep i v) [f] params cs))"
  unfolding reparse_offer by (simp add: have_application_media_section_def data_media_def with_ice_credentials_def
      media_with_value_attribute_def media_with_property_attribute_def)

lemma offer_dtls_role: "ap_dtls_role params = CR_Actpass \<Longrightarrow> dtls_role_from (reparse (offer_description crc (jsep i v) [f] params cs)) = DR_Auto"
  unfolding reparse_offer by (simp add: dtls_role_from_def offer_attributes_def attribute_new_def) (simp add: ascii_def)

text \<open>The fingerprint of a certificate is a plain word.\<close>

lemma plain_hex: "plain_word (join 58 (map hex_byte bs))" if "bs \<noteq> []"
proof (rule plain_word_join)
  have "33 \<le> hex_digit n \<and> hex_digit n < 0x80" if "n < 16" for n
  proof -
    have "unat (hex_digit n) = (if n < 10 then 48 + n else 87 + n)" using that by (simp add: hex_digit_def unat_word_ariths unat_of_nat)
    with that show ?thesis by (auto simp: word_le_nat_alt word_less_nat_alt)
  qed
  moreover have "unat b div 16 < 16" for b :: u8 using unsigned_less [of b, where 'a = nat] by simp
  ultimately show "\<forall>w \<in> set (map hex_byte bs). plain_word w" by (auto simp: hex_byte_def plain_word_def)
qed (use that in auto)

end
