(* ===== verification/Peer_Connection.thy ===== *)
theory Peer_Connection
  imports Peer_Sdp Ice_Agent
begin

text \<open>
  The peer connection (\<^verbatim>\<open>peer_connection/\<close>) with the state of the ICE gatherer and of the ICE and DTLS transports (\<^verbatim>\<open>ice_transport/\<close>,
  \<^verbatim>\<open>dtls_transport/\<close>): offers, local and remote descriptions and the signalling state, candidates of the peer, the queue of operations,
  the start of the transports and the state of the connection, the SCTP transport (\<^verbatim>\<open>sctp_transport/\<close>) and the opening of the data
  channels. What the code gets from outside is in a record of the environment: random
  numbers, the clock, hashes, the URL parser and the match of the plan B expression, the new ICE agent with its random credentials, the
  gathering of candidates, and what the blocking calls \<^verbatim>\<open>dial\<close>, \<^verbatim>\<open>DTLSConn::new\<close> and \<^verbatim>\<open>Association::client\<close> come back with. Closures of the application are
  notified through a log.
\<close>

section \<open>States\<close>

datatype state_change_op = SetLocal | SetRemote

datatype signaling_state = SS_Unspecified | SS_Stable | SS_HaveLocalOffer | SS_HaveRemoteOffer | SS_HaveLocalPranswer | SS_HaveRemotePranswer
  | SS_Closed

fun signaling_state_as :: "signaling_state \<Rightarrow> u8" where
  "signaling_state_as SS_Unspecified = 0" | "signaling_state_as SS_Stable = 1" | "signaling_state_as SS_HaveLocalOffer = 2"
| "signaling_state_as SS_HaveRemoteOffer = 3" | "signaling_state_as SS_HaveLocalPranswer = 4" | "signaling_state_as SS_HaveRemotePranswer = 5"
| "signaling_state_as SS_Closed = 6"

definition signaling_state_from :: "u8 \<Rightarrow> signaling_state" where
  "signaling_state_from v = (if v = 1 then SS_Stable else if v = 2 then SS_HaveLocalOffer else if v = 3 then SS_HaveRemoteOffer
     else if v = 4 then SS_HaveLocalPranswer else if v = 5 then SS_HaveRemotePranswer else if v = 6 then SS_Closed else SS_Unspecified)"

definition check_next_signaling_state :: "signaling_state \<Rightarrow> signaling_state \<Rightarrow> state_change_op \<Rightarrow> sdp_type \<Rightarrow> signaling_state pc_result" where
  "check_next_signaling_state cur next_state op t =
     (if t = ST_Rollback \<and> cur = SS_Stable then Err PErr_CannotRollback
      else
        let ok = (case cur of
            SS_Stable \<Rightarrow> (case op of
                SetLocal \<Rightarrow> t = ST_Offer \<and> next_state = SS_HaveLocalOffer
              | SetRemote \<Rightarrow> t = ST_Offer \<and> next_state = SS_HaveRemoteOffer)
          | SS_HaveLocalOffer \<Rightarrow> op = SetRemote \<and>
              (t = ST_Answer \<and> next_state = SS_Stable \<or> t = ST_Pranswer \<and> next_state = SS_HaveRemotePranswer)
          | SS_HaveRemotePranswer \<Rightarrow> op = SetRemote \<and> t = ST_Answer \<and> next_state = SS_Stable
          | SS_HaveRemoteOffer \<Rightarrow> op = SetLocal \<and>
              (t = ST_Answer \<and> next_state = SS_Stable \<or> t = ST_Pranswer \<and> next_state = SS_HaveLocalPranswer)
          | SS_HaveLocalPranswer \<Rightarrow> op = SetLocal \<and> t = ST_Answer \<and> next_state = SS_Stable
          | _ \<Rightarrow> False)
        in if ok then Ok next_state else Err PErr_ProposedTransitionInvalid)"

datatype gatherer_state = GA_Unspecified | GA_New | GA_Gathering | GA_Complete | GA_Closed

datatype ice_transport_state = IT_Unspecified | IT_New | IT_Checking | IT_Connected | IT_Completed | IT_Failed | IT_Disconnected | IT_Closed

fun ice_transport_state_from :: "connection_state \<Rightarrow> ice_transport_state" where
  "ice_transport_state_from CS_New = IT_New" | "ice_transport_state_from CS_Checking = IT_Checking"
| "ice_transport_state_from CS_Connected = IT_Connected" | "ice_transport_state_from CS_Completed = IT_Completed"
| "ice_transport_state_from CS_Failed = IT_Failed" | "ice_transport_state_from CS_Disconnected = IT_Disconnected"
| "ice_transport_state_from CS_Closed = IT_Closed" | "ice_transport_state_from CS_Unspecified = IT_Unspecified"

datatype ice_connection_state = IC_Unspecified | IC_New | IC_Checking | IC_Connected | IC_Completed | IC_Disconnected | IC_Failed | IC_Closed

datatype dtls_transport_state = DT_Unspecified | DT_New | DT_Connecting | DT_Connected | DT_Closed | DT_Failed

datatype sctp_transport_state = TS_Unspecified | TS_Connecting | TS_Connected | TS_Closed

datatype peer_connection_state = PC_Unspecified | PC_New | PC_Connecting | PC_Connected | PC_Disconnected | PC_Failed | PC_Closed

record dtls_parameters =
  dp_role :: dtls_role
  dp_fingerprints :: "dtls_fingerprint list"

text \<open>The operation \<^verbatim>\<open>set_remote_description\<close> enqueues, with what its closure captures.\<close>

record start_operation =
  so_ice_role :: ice_role
  so_dtls_role :: dtls_role
  so_ufrag :: bytes
  so_pwd :: bytes
  so_fingerprint :: bytes
  so_hash :: bytes
  so_desc :: rtc_session_description

record peer_env =
  pe_crc :: "bytes \<Rightarrow> u32"
  pe_sha256 :: "bytes \<Rightarrow> bytes"
  pe_parse_url :: "bytes \<Rightarrow> bytes option"
  pe_plan_b :: "bytes \<Rightarrow> bool"
  pe_rand_id :: bytes
  pe_ids :: "nat \<Rightarrow> bytes"
  pe_random :: u64
  pe_nanos :: u32
  pe_new_agent :: "ice_agent ice_result"
  pe_gather :: "ice_agent \<Rightarrow> unit ice_result \<times> ice_agent"
  pe_order :: "network_type list"
  pe_mdns :: mdns_mode

datatype pc_event = Signaling_Changed signaling_state | Ice_Connection_Changed ice_connection_state | Connection_Changed peer_connection_state
  | Gatherer_Changed gatherer_state

record peer_connection =
  pc_idp_login_url :: "bytes option"
  pc_greater_mid :: int
  pc_sdp_origin :: origin
  pc_last_offer :: bytes
  pc_last_answer :: bytes
  pc_is_closed :: bool
  pc_ops :: "start_operation list"
  pc_signaling :: u8
  pc_gatherer :: gatherer_state
  pc_agent :: "ice_agent option"
  pc_ice_transport :: ice_transport_state
  pc_ice_role :: "ice_role option"
  pc_mux :: bool
  pc_certificates :: "bytes list list"
  pc_dtls :: dtls_transport_state
  pc_remote_parameters :: "dtls_parameters option"
  pc_dtls_conn :: bool
  pc_ice_connection :: ice_connection_state
  pc_state :: peer_connection_state
  pc_sctp :: sctp_transport_state
  pc_sctp_started :: bool
  pc_association :: "association option"
  pc_data_channels :: "rtc_data_channel list"
  pc_requested :: u32
  pc_opened :: u32
  pc_current_local :: "rtc_session_description option"
  pc_current_remote :: "rtc_session_description option"
  pc_pending_local :: "rtc_session_description option"
  pc_pending_remote :: "rtc_session_description option"
  pc_log :: "pc_event list"

definition peer_connection_new :: "bytes list \<Rightarrow> peer_connection" where
  "peer_connection_new certificate = \<lparr>pc_idp_login_url = None, pc_greater_mid = - 1, pc_sdp_origin = origin_new, pc_last_offer = [], pc_last_answer = [],
     pc_is_closed = False, pc_ops = [], pc_signaling = signaling_state_as SS_Stable, pc_gatherer = GA_New, pc_agent = None,
     pc_ice_transport = IT_New, pc_ice_role = None, pc_mux = False, pc_certificates = [certificate], pc_dtls = DT_New, pc_remote_parameters = None,
     pc_dtls_conn = False, pc_ice_connection = IC_New, pc_state = PC_New, pc_sctp = TS_Connecting, pc_sctp_started = False,
     pc_association = None, pc_data_channels = [], pc_requested = 0, pc_opened = 0, pc_current_local = None,
     pc_current_remote = None, pc_pending_local = None, pc_pending_remote = None, pc_log = []\<rparr>"

definition pc_signaling_state :: "peer_connection \<Rightarrow> signaling_state" where
  "pc_signaling_state pc = signaling_state_from (pc_signaling pc)"

definition pc_notify :: "pc_event \<Rightarrow> peer_connection \<Rightarrow> peer_connection" where
  "pc_notify e pc = pc\<lparr>pc_log := pc_log pc @ [e]\<rparr>"

section \<open>The gatherer\<close>

definition create_agent :: "peer_env \<Rightarrow> peer_connection \<Rightarrow> unit pc_result \<times> peer_connection" where
  "create_agent env pc =
     (if pc_agent pc \<noteq> None \<or> pc_gatherer pc \<noteq> GA_New then (Ok (), pc)
      else case lift_ice (pe_new_agent env) of
          Ok a \<Rightarrow> (Ok (), pc\<lparr>pc_agent := Some a\<rparr>)
        | Err e \<Rightarrow> (Err e, pc)
        | Panic \<Rightarrow> (Panic, pc))"

text \<open>Sequencing of calls that may fail: the state is kept, as the effects of a call that fails stay.\<close>

definition andThen :: "'a pc_result \<times> 's \<Rightarrow> ('a \<Rightarrow> 's \<Rightarrow> 'b pc_result \<times> 's) \<Rightarrow> 'b pc_result \<times> 's" where
  "andThen r f = (case r of (Ok x, s) \<Rightarrow> f x s | (Err e, s) \<Rightarrow> (Err e, s) | (Panic, s) \<Rightarrow> (Panic, s))"

definition get_local_parameters :: "peer_env \<Rightarrow> peer_connection \<Rightarrow> ice_parameters pc_result \<times> peer_connection" where
  "get_local_parameters env pc = andThen (create_agent env pc) (\<lambda>_ pc.
     case pc_agent pc of
       Some a \<Rightarrow> (Ok \<lparr>ip_username_fragment = ag_local_ufrag a, ip_password = ag_local_pwd a\<rparr>, pc)
     | None \<Rightarrow> (Err PErr_ICEAgentNotExist, pc))"

definition local_candidates :: "peer_env \<Rightarrow> ice_agent \<Rightarrow> rtc_ice_candidate list" where
  "local_candidates env a = map (\<lambda>c. rtc_candidate_from (pe_crc env) (cand a c)) (concat (map (of_type (ag_local a)) (pe_order env)))"

definition get_local_candidates :: "peer_env \<Rightarrow> peer_connection \<Rightarrow> rtc_ice_candidate list pc_result \<times> peer_connection" where
  "get_local_candidates env pc = andThen (create_agent env pc) (\<lambda>_ pc.
     case pc_agent pc of Some a \<Rightarrow> (Ok (local_candidates env a), pc) | None \<Rightarrow> (Err PErr_ICEAgentNotExist, pc))"

definition gatherer_set_state :: "gatherer_state \<Rightarrow> peer_connection \<Rightarrow> peer_connection" where
  "gatherer_set_state s pc = pc_notify (Gatherer_Changed s) (pc\<lparr>pc_gatherer := s\<rparr>)"

definition gather :: "peer_env \<Rightarrow> peer_connection \<Rightarrow> unit pc_result \<times> peer_connection" where
  "gather env pc = andThen (create_agent env pc) (\<lambda>_ pc.
     let pc = gatherer_set_state GA_Gathering pc in
     case pc_agent pc of
       Some a \<Rightarrow> (case pe_gather env a of (r, a) \<Rightarrow> (lift_ice r, pc\<lparr>pc_agent := Some a\<rparr>))
     | None \<Rightarrow> (Ok (), pc))"

text \<open>The handler the gatherer gives the agent, called with no candidate when gathering is over.\<close>

definition gathering_complete :: "peer_connection \<Rightarrow> peer_connection" where
  "gathering_complete pc = gatherer_set_state GA_Complete pc"

definition ice_gathering_state :: "peer_connection \<Rightarrow> rtc_gathering_state" where
  "ice_gathering_state pc = (case pc_gatherer pc of GA_New \<Rightarrow> RGS_New | GA_Gathering \<Rightarrow> RGS_Gathering | _ \<Rightarrow> RGS_Complete)"

definition ensure_gatherer :: "peer_env \<Rightarrow> peer_connection \<Rightarrow> unit pc_result \<times> peer_connection" where
  "ensure_gatherer env pc = (if pc_agent pc = None then create_agent env pc else (Ok (), pc))"

definition transport_add_remote_candidate :: "peer_env \<Rightarrow> rtc_ice_candidate option \<Rightarrow> peer_connection \<Rightarrow> unit pc_result \<times> peer_connection" where
  "transport_add_remote_candidate env remote_candidate pc = andThen (ensure_gatherer env pc) (\<lambda>_ pc.
     case pc_agent pc of
       None \<Rightarrow> (Err PErr_ICEAgentNotExist, pc)
     | Some a \<Rightarrow>
         (case remote_candidate of
            None \<Rightarrow> (Ok (), pc)
          | Some r \<Rightarrow> andThen (to_ice (pe_rand_id env) r, pc) (\<lambda>c pc.
              case agent_add_remote_candidate (pe_mdns env) c a of (x, a) \<Rightarrow> (lift_ice x, pc\<lparr>pc_agent := Some a\<rparr>))))"

section \<open>Offers\<close>

definition pc_remote_description :: "peer_connection \<Rightarrow> rtc_session_description option" where
  "pc_remote_description pc = (if pc_pending_remote pc \<noteq> None then pc_pending_remote pc else pc_current_remote pc)"

definition generate_unmatched_sdp :: "peer_env \<Rightarrow> bool \<Rightarrow> peer_connection \<Rightarrow> session_description pc_result \<times> peer_connection" where
  "generate_unmatched_sdp env use_identity pc =
     (let d = new_jsep_session_description (pe_random env) (pe_nanos env) use_identity in
      andThen (get_local_parameters env pc) (\<lambda>ice pc. andThen (get_local_candidates env pc) (\<lambda>candidates pc.
        let sections = (if pc_requested pc \<noteq> 0 then [\<lparr>ms_id = show_nat 0, ms_data = True\<rparr>] else []) in
        case pc_certificates pc of
          [] \<Rightarrow> (Err PErr_NonCertificate, pc)
        | cert # _ \<Rightarrow> (populate_sdp (pe_crc env) (pe_rand_id env) d (get_fingerprints (pe_sha256 env) cert) candidates ice sections
            \<lparr>pp_is_icelite = False, pp_connection_role = to_connection_role DEFAULT_DTLS_ROLE_OFFER, pp_gathering = ice_gathering_state pc\<rparr>, pc))))"

definition generate_matched_sdp :: "peer_env \<Rightarrow> bool \<Rightarrow> bool \<Rightarrow> connection_role \<Rightarrow> peer_connection \<Rightarrow> session_description pc_result \<times> peer_connection" where
  "generate_matched_sdp env use_identity include_unmatched role pc =
     (let d = new_jsep_session_description (pe_random env) (pe_nanos env) use_identity in
      andThen (get_local_parameters env pc) (\<lambda>ice pc. andThen (get_local_candidates env pc) (\<lambda>candidates pc.
        let detected_plan_b = description_is_plan_b (pe_plan_b env) (pc_remote_description pc);
            sections = (if include_unmatched \<and> pc_requested pc \<noteq> 0
              then [\<lparr>ms_id = (if detected_plan_b then ascii ''data'' else show_nat 0), ms_data = True\<rparr>] else []) in
        case pc_certificates pc of
          [] \<Rightarrow> (Err PErr_NonCertificate, pc)
        | cert # _ \<Rightarrow> (populate_sdp (pe_crc env) (pe_rand_id env) d (get_fingerprints (pe_sha256 env) cert) candidates ice sections
            \<lparr>pp_is_icelite = False, pp_connection_role = role, pp_gathering = ice_gathering_state pc\<rparr>, pc))))"

text \<open>\<^verbatim>\<open>isize\<close> has 64 bits.\<close>

definition update_greater_mid :: "rtc_session_description option \<Rightarrow> int \<Rightarrow> int" where
  "update_greater_mid remote g =
     (case Option.bind remote rs_parsed of
        None \<Rightarrow> g
      | Some p \<Rightarrow> fold (\<lambda>m g. case Option.bind (get_mid_value m) (\<lambda>mid. if mid = [] then None else parse_i64 mid) of
            Some n \<Rightarrow> max g n | None \<Rightarrow> g) (sd_media_descriptions p) g)"

definition create_offer :: "peer_env \<Rightarrow> peer_connection \<Rightarrow> rtc_session_description pc_result \<times> peer_connection" where
  "create_offer env pc =
     (let use_identity = pc_idp_login_url pc \<noteq> None in
      if use_identity then (Err PErr_IdentityProviderNotImplemented, pc)
      else if pc_is_closed pc then (Err PErr_ConnectionClosed, pc)
      else
        let is_plan_b = description_is_plan_b (pe_plan_b env) (pc_current_remote pc);
            pc = (if is_plan_b then pc else pc\<lparr>pc_greater_mid := update_greater_mid (pc_current_remote pc) (pc_greater_mid pc)\<rparr>)
        in andThen (if pc_current_remote pc = None then generate_unmatched_sdp env use_identity pc
              else generate_matched_sdp env use_identity True (to_connection_role DEFAULT_DTLS_ROLE_OFFER) pc) (\<lambda>d pc.
             let (og, d) = update_sdp_origin (pc_sdp_origin pc) d; sdp = sdp_marshal d
             in (Ok \<lparr>rs_type = ST_Offer, rs_sdp = sdp, rs_parsed = Some d\<rparr>, pc\<lparr>pc_sdp_origin := og, pc_last_offer := sdp\<rparr>)))"

section \<open>Descriptions\<close>

definition set_description :: "rtc_session_description \<Rightarrow> state_change_op \<Rightarrow> peer_connection \<Rightarrow> unit pc_result \<times> peer_connection" where
  "set_description sd op pc =
     (if pc_is_closed pc then (Err PErr_ConnectionClosed, pc)
      else if rs_type sd = ST_Unspecified then (Err PErr_SDPTypeInvalidValue, pc)
      else
        let cur = pc_signaling_state pc;
            check = (\<lambda>next_state. check_next_signaling_state cur next_state op (rs_type sd));
            apply_if_ok = (\<lambda>r upd. case r of Ok s \<Rightarrow> (Ok s, upd pc) | Err e \<Rightarrow> (Err e, pc) | Panic \<Rightarrow> (Panic, pc));
            (next_state, pc) =
          (case op of
             SetLocal \<Rightarrow>
               (case rs_type sd of
                  ST_Offer \<Rightarrow>
                    if rs_sdp sd \<noteq> pc_last_offer pc then (Err PErr_SDPDoesNotMatchOffer, pc)
                    else apply_if_ok (check SS_HaveLocalOffer) (\<lambda>pc. pc\<lparr>pc_pending_local := Some sd\<rparr>)
                | ST_Answer \<Rightarrow>
                    if rs_sdp sd \<noteq> pc_last_answer pc then (Err PErr_SDPDoesNotMatchAnswer, pc)
                    else apply_if_ok (check SS_Stable) (\<lambda>pc.
                      pc\<lparr>pc_pending_remote := None, pc_pending_local := None, pc_current_local := Some sd, pc_current_remote := pc_pending_remote pc\<rparr>)
                | ST_Rollback \<Rightarrow> apply_if_ok (check SS_Stable) (\<lambda>pc. pc\<lparr>pc_pending_local := None\<rparr>)
                | ST_Pranswer \<Rightarrow>
                    if rs_sdp sd \<noteq> pc_last_answer pc then (Err PErr_SDPDoesNotMatchAnswer, pc)
                    else apply_if_ok (check SS_HaveLocalPranswer) (\<lambda>pc. pc\<lparr>pc_pending_local := Some sd\<rparr>)
                | ST_Unspecified \<Rightarrow> (Err PErr_StateChangeInvalid, pc))
           | SetRemote \<Rightarrow>
               (case rs_type sd of
                  ST_Offer \<Rightarrow> apply_if_ok (check SS_HaveRemoteOffer) (\<lambda>pc. pc\<lparr>pc_pending_remote := Some sd\<rparr>)
                | ST_Answer \<Rightarrow> apply_if_ok (check SS_Stable) (\<lambda>pc.
                      pc\<lparr>pc_pending_local := None, pc_pending_remote := None, pc_current_remote := Some sd, pc_current_local := pc_pending_local pc\<rparr>)
                | ST_Rollback \<Rightarrow> apply_if_ok (check SS_Stable) (\<lambda>pc. pc\<lparr>pc_pending_remote := None\<rparr>)
                | ST_Pranswer \<Rightarrow> apply_if_ok (check SS_HaveRemotePranswer) (\<lambda>pc. pc\<lparr>pc_pending_remote := Some sd\<rparr>)
                | ST_Unspecified \<Rightarrow> (Err PErr_StateChangeInvalid, pc)))
        in case next_state of
             Ok s \<Rightarrow> (Ok (), pc_notify (Signaling_Changed s) (pc\<lparr>pc_signaling := signaling_state_as s\<rparr>))
           | Err e \<Rightarrow> (Err e, pc)
           | Panic \<Rightarrow> (Panic, pc))"

definition set_local_description :: "peer_env \<Rightarrow> rtc_session_description \<Rightarrow> peer_connection \<Rightarrow> unit pc_result \<times> peer_connection" where
  "set_local_description env desc pc =
     (if pc_is_closed pc then (Err PErr_ConnectionClosed, pc)
      else if rs_sdp desc = [] \<and> rs_type desc \<noteq> ST_Offer then (Err PErr_SDPTypeInvalidValueSetLocalDescription, pc)
      else
        let desc = (if rs_sdp desc = [] then desc\<lparr>rs_sdp := pc_last_offer pc\<rparr> else desc) in
        andThen (rs_unmarshal (pe_parse_url env) desc, pc) (\<lambda>p pc.
        andThen (set_description (desc\<lparr>rs_parsed := Some p\<rparr>) SetLocal pc) (\<lambda>_ pc.
          if pc_gatherer pc = GA_New then gather env pc else (Ok (), pc))))"

fun add_remote_candidates :: "peer_env \<Rightarrow> rtc_ice_candidate list \<Rightarrow> peer_connection \<Rightarrow> unit pc_result \<times> peer_connection" where
  "add_remote_candidates env [] pc = (Ok (), pc)"
| "add_remote_candidates env (r # rs) pc =
     andThen (transport_add_remote_candidate env (Some r) pc) (\<lambda>_ pc. add_remote_candidates env rs pc)"

definition set_remote_description :: "peer_env \<Rightarrow> rtc_session_description \<Rightarrow> peer_connection \<Rightarrow> unit pc_result \<times> peer_connection" where
  "set_remote_description env desc pc =
     (if pc_is_closed pc then (Err PErr_ConnectionClosed, pc)
      else andThen (rs_unmarshal (pe_parse_url env) desc, pc) (\<lambda>p pc.
        let desc = desc\<lparr>rs_parsed := Some p\<rparr> in
        andThen (set_description desc SetRemote pc) (\<lambda>_ pc.
        andThen (extract_ice_details (pe_crc env) (pe_ids env) p, pc) (\<lambda>(ufrag, pwd, candidates) pc.
        andThen (add_remote_candidates env candidates pc) (\<lambda>_ pc.
        andThen (extract_fingerprint p, pc) (\<lambda>(fingerprint, hash) pc.
          (Ok (), pc\<lparr>pc_ops := pc_ops pc @ [\<lparr>so_ice_role = Controlling, so_dtls_role = dtls_role_from p, so_ufrag = ufrag, so_pwd = pwd,
            so_fingerprint = fingerprint, so_hash = hash, so_desc = desc\<rparr>]\<rparr>)))))))"

text \<open>\<^verbatim>\<open>strip_prefix("candidate:")\<close>\<close>

definition strip_candidate :: "bytes \<Rightarrow> bytes" where
  "strip_candidate s = (if take 10 s = ascii ''candidate:'' then drop 10 s else s)"

definition add_ice_candidate :: "peer_env \<Rightarrow> bytes \<Rightarrow> peer_connection \<Rightarrow> unit pc_result \<times> peer_connection" where
  "add_ice_candidate env candidate_str pc =
     (if pc_remote_description pc = None then (Err PErr_NoRemoteDescription, pc)
      else
        let v = strip_candidate candidate_str in
        andThen ((if v = [] then Ok None
            else obind (lift_ice (unmarshal_candidate (pe_rand_id env) v)) (\<lambda>c. Ok (Some (rtc_candidate_from (pe_crc env) c)))), pc)
          (\<lambda>c pc. transport_add_remote_candidate env c pc))"

text \<open>The new channel is opened at once when SCTP is connected. No result means that the write of its first message does not return.\<close>

definition create_data_channel :: "nat \<Rightarrow> bytes \<Rightarrow> bytes \<Rightarrow> peer_connection \<Rightarrow> (unit pc_result \<times> peer_connection) option" where
  "create_data_channel now label protocol pc =
     (if pc_is_closed pc then Some (Err PErr_ConnectionClosed, pc)
      else
        let d = rtc_data_channel_new label protocol; ds = pc_data_channels pc;
            pc = pc\<lparr>pc_data_channels := ds @ [d], pc_requested := pc_requested pc + 1\<rparr>
        in if pc_sctp pc = TS_Connected
           then map_option (\<lambda>(r, a, d). (lift_channel r, pc\<lparr>pc_association := a, pc_data_channels := ds @ [d]\<rparr>)) (rtc_open now (pc_association pc) d)
           else Some (Ok (), pc))"

text \<open>The local description with the candidates gathered since; \<^verbatim>\<open>create_agent\<close> may run in it, as the state shows.\<close>

definition populate_local_candidates ::
    "peer_env \<Rightarrow> rtc_session_description option \<Rightarrow> peer_connection \<Rightarrow> rtc_session_description option \<times> peer_connection" where
  "populate_local_candidates env desc pc =
     (case desc of
        None \<Rightarrow> (None, pc)
      | Some sd \<Rightarrow>
          (case get_local_candidates env pc of
             (Ok candidates, pc1) \<Rightarrow>
               (case rs_unmarshal (pe_parse_url env) sd of
                  Ok p \<Rightarrow>
                    (case sd_media_descriptions p of
                       [] \<Rightarrow> (Some \<lparr>rs_type = rs_type sd, rs_sdp = sdp_marshal p, rs_parsed = Some p\<rparr>, pc1)
                     | m # ms \<Rightarrow>
                         (case add_candidates_to_media_descriptions (pe_crc env) (pe_rand_id env) candidates m (ice_gathering_state pc) of
                            Ok m \<Rightarrow>
                              let p = p\<lparr>sd_media_descriptions := m # ms\<rparr>
                              in (Some \<lparr>rs_type = rs_type sd, rs_sdp = sdp_marshal p, rs_parsed = Some p\<rparr>, pc1)
                          | _ \<Rightarrow> (Some sd, pc1)))
                | _ \<Rightarrow> (Some sd, pc1))
           | (_, pc1) \<Rightarrow> (Some sd, pc1)))"

definition local_description :: "peer_env \<Rightarrow> peer_connection \<Rightarrow> rtc_session_description option \<times> peer_connection" where
  "local_description env pc =
     (case populate_local_candidates env (pc_pending_local pc) pc of
        (Some d, pc) \<Rightarrow> (Some d, pc)
      | (None, pc) \<Rightarrow> populate_local_candidates env (pc_current_local pc) pc)"

section \<open>State of the connection\<close>

definition connection_state_of :: "bool \<Rightarrow> ice_connection_state \<Rightarrow> dtls_transport_state \<Rightarrow> peer_connection_state" where
  "connection_state_of is_closed ice dtls =
     (if is_closed then PC_Closed
      else if ice = IC_Failed \<or> dtls = DT_Failed then PC_Failed
      else if ice = IC_Disconnected then PC_Disconnected
      else if ice = IC_Connected \<and> dtls = DT_Connected then PC_Connected
      else if ice = IC_Checking \<and> dtls = DT_Connecting then PC_Connecting
      else PC_New)"

definition pc_update_connection_state :: "ice_connection_state \<Rightarrow> dtls_transport_state \<Rightarrow> peer_connection \<Rightarrow> peer_connection" where
  "pc_update_connection_state ice dtls pc =
     (let s = connection_state_of (pc_is_closed pc) ice dtls
      in if pc_state pc = s then pc else pc_notify (Connection_Changed s) (pc\<lparr>pc_state := s\<rparr>))"

text \<open>
  The handler \<^verbatim>\<open>create_ice_transport\<close> installs. It captures the DTLS transport at a time when it is still the default value, whose state is
  unspecified and never changes; the transport in use is created after it.
\<close>

definition CAPTURED_DTLS_STATE :: dtls_transport_state where "CAPTURED_DTLS_STATE = DT_Unspecified"

fun ice_connection_state_of :: "ice_transport_state \<Rightarrow> ice_connection_state option" where
  "ice_connection_state_of IT_New = Some IC_New" | "ice_connection_state_of IT_Checking = Some IC_Checking"
| "ice_connection_state_of IT_Connected = Some IC_Connected" | "ice_connection_state_of IT_Completed = Some IC_Completed"
| "ice_connection_state_of IT_Failed = Some IC_Failed" | "ice_connection_state_of IT_Disconnected = Some IC_Disconnected"
| "ice_connection_state_of IT_Closed = Some IC_Closed" | "ice_connection_state_of IT_Unspecified = None"

definition on_ice_transport_state :: "ice_transport_state \<Rightarrow> peer_connection \<Rightarrow> peer_connection" where
  "on_ice_transport_state s pc =
     (case ice_connection_state_of s of
        None \<Rightarrow> pc
      | Some cs \<Rightarrow> pc_update_connection_state cs CAPTURED_DTLS_STATE (pc_notify (Ice_Connection_Changed cs) (pc\<lparr>pc_ice_connection := cs\<rparr>)))"

text \<open>The handler \<^verbatim>\<open>RTCIceTransport::start\<close> gives the agent.\<close>

definition on_agent_state :: "connection_state \<Rightarrow> peer_connection \<Rightarrow> peer_connection" where
  "on_agent_state s pc = on_ice_transport_state (ice_transport_state_from s) (pc\<lparr>pc_ice_transport := ice_transport_state_from s\<rparr>)"

text \<open>
  \<open>dial\<close> is what \<^verbatim>\<open>Agent::dial\<close> does with the agent for the given role and credentials: its result, the agent after it and the states the
  agent went through meanwhile.
\<close>

type_synonym dial = "ice_role \<Rightarrow> bytes \<Rightarrow> bytes \<Rightarrow> ice_agent \<Rightarrow> unit ice_result \<times> ice_agent \<times> connection_state list"

definition ice_transport_start :: "peer_env \<Rightarrow> dial \<Rightarrow> ice_parameters \<Rightarrow> ice_role option \<Rightarrow> peer_connection \<Rightarrow> unit pc_result \<times> peer_connection" where
  "ice_transport_start env dial params role pc =
     (if pc_ice_transport pc \<noteq> IT_New then (Err PErr_ICETransportNotInNew, pc)
      else andThen (ensure_gatherer env pc) (\<lambda>_ pc.
        case pc_agent pc of
          None \<Rightarrow> (Err PErr_ICEAgentNotExist, pc)
        | Some a \<Rightarrow>
            let role = (case role of Some r \<Rightarrow> r | None \<Rightarrow> Controlled); pc = pc\<lparr>pc_ice_role := Some role\<rparr> in
            if role = Role_Unspecified then (Err PErr_ICERoleUnknown, pc)
            else case dial role (ip_username_fragment params) (ip_password params) a of (r, a, states) \<Rightarrow>
              andThen (lift_ice r, fold on_agent_state states (pc\<lparr>pc_agent := Some a\<rparr>)) (\<lambda>_ pc. (Ok (), pc\<lparr>pc_mux := True\<rparr>))))"

definition ensure_ice_conn :: "peer_connection \<Rightarrow> unit pc_result" where
  "ensure_ice_conn pc = (if pc_ice_transport pc = IT_New then Err PErr_ICEConnectionNotStarted else Ok ())"

definition prepare_transport :: "dtls_parameters \<Rightarrow> peer_connection \<Rightarrow> dtls_role pc_result \<times> peer_connection" where
  "prepare_transport remote pc = andThen (ensure_ice_conn pc, pc) (\<lambda>_ pc.
     if pc_dtls pc \<noteq> DT_New then (Err PErr_InvalidDTLSStart, pc)
     else
       let pc = pc\<lparr>pc_remote_parameters := Some remote\<rparr> in
       if pc_certificates pc = [] then (Err PErr_NonCertificate, pc) else (Ok DR_Client, pc\<lparr>pc_dtls := DT_Connecting\<rparr>))"

text \<open>\<open>connect role\<close> tells whether the handshake of \<^verbatim>\<open>DTLSConn::new\<close> succeeds.\<close>

definition dtls_transport_start :: "(dtls_role \<Rightarrow> bool) \<Rightarrow> dtls_parameters \<Rightarrow> peer_connection \<Rightarrow> unit pc_result \<times> peer_connection" where
  "dtls_transport_start connect remote pc =
     (if \<not> pc_mux pc then (Err PErr_Dtls, pc\<lparr>pc_dtls := DT_Failed\<rparr>)
      else andThen (prepare_transport remote pc) (\<lambda>role pc.
        if connect role then (Ok (), pc\<lparr>pc_dtls_conn := True, pc_dtls := DT_Connected\<rparr>) else (Err PErr_Dtls, pc\<lparr>pc_dtls := DT_Failed\<rparr>)))"

definition start_transports :: "peer_env \<Rightarrow> dial \<Rightarrow> (dtls_role \<Rightarrow> bool) \<Rightarrow> start_operation \<Rightarrow> peer_connection \<Rightarrow> peer_connection" where
  "start_transports env dial connect op pc =
     (case ice_transport_start env dial \<lparr>ip_username_fragment = so_ufrag op, ip_password = so_pwd op\<rparr> (Some (so_ice_role op)) pc of
        (Ok _, pc) \<Rightarrow>
          (case dtls_transport_start connect \<lparr>dp_role = so_dtls_role op,
               dp_fingerprints = [\<lparr>fp_algorithm = so_hash op, fp_value = so_fingerprint op\<rparr>]\<rparr> pc of
             (_, pc) \<Rightarrow> pc_update_connection_state (pc_ice_connection pc) (pc_dtls pc) pc)
      | (_, pc) \<Rightarrow> pc)"

section \<open>The SCTP transport\<close>

text \<open>\<open>client\<close> is what \<^verbatim>\<open>Association::client\<close> comes back with.\<close>

definition sctp_transport_start :: "association result \<Rightarrow> peer_connection \<Rightarrow> unit pc_result \<times> peer_connection" where
  "sctp_transport_start client pc =
     (if pc_sctp_started pc then (Ok (), pc)
      else
        let pc = pc\<lparr>pc_sctp_started := True\<rparr> in
        if pc_dtls_conn pc then andThen (lift_sctp client, pc) (\<lambda>a pc. (Ok (), pc\<lparr>pc_association := Some a, pc_sctp := TS_Connected\<rparr>))
        else (Err PErr_SCTPTransportDTLS, pc))"

text \<open>The association is taken out and closed; its close does not fail.\<close>

definition sctp_transport_stop :: "peer_connection \<Rightarrow> peer_connection" where
  "sctp_transport_stop pc = pc\<lparr>pc_association := None, pc_sctp := TS_Closed\<rparr>"

text \<open>
  The loop over the channels: the channels that are connecting are opened one after the other, a failure is only logged; opening does not
  panic (\<open>open_no_panic\<close>). The result has the channels, the association and the number of channels opened.
\<close>

fun open_channels :: "nat \<Rightarrow> rtc_data_channel list \<Rightarrow> association option \<Rightarrow> (rtc_data_channel list \<times> association option \<times> u32) option" where
  "open_channels now [] a = Some ([], a, 0)"
| "open_channels now (d # ds) a =
     (if ready_state d = DCS_Connecting
      then Option.bind (rtc_open now a d) (\<lambda>(r, a, d).
        map_option (\<lambda>(ds, a, n). (d # ds, a, (case r of Ok _ \<Rightarrow> n + 1 | _ \<Rightarrow> n))) (open_channels now ds a))
      else map_option (\<lambda>(ds, a, n). (d # ds, a, n)) (open_channels now ds a))"

definition start_sctp :: "nat \<Rightarrow> association result \<Rightarrow> peer_connection \<Rightarrow> peer_connection option" where
  "start_sctp now client pc =
     (case sctp_transport_start client pc of
        (Ok _, pc) \<Rightarrow> map_option (\<lambda>(ds, a, n). pc\<lparr>pc_data_channels := ds, pc_association := a, pc_opened := pc_opened pc + n\<rparr>)
          (open_channels now (pc_data_channels pc) (pc_association pc))
      | (_, pc) \<Rightarrow> Some (sctp_transport_stop pc))"

definition maybe_start_sctp :: "nat \<Rightarrow> association result \<Rightarrow> rtc_session_description \<Rightarrow> peer_connection \<Rightarrow> peer_connection option" where
  "maybe_start_sctp now client desc pc =
     (case rs_parsed desc of
        Some p \<Rightarrow> if have_application_media_section p then start_sctp now client pc else Some pc
      | None \<Rightarrow> Some pc)"

text \<open>What the outside answers while an operation runs.\<close>

record connects =
  on_dial :: dial
  on_dtls :: "dtls_role \<Rightarrow> bool"
  on_sctp :: "association result"

text \<open>
  One turn of \<^verbatim>\<open>Operations::start\<close>: the operations run one after the other, in the order of the queue; none asks to be repeated. No result
  means that the operation never ends.
\<close>

definition ops_turn :: "peer_env \<Rightarrow> nat \<Rightarrow> connects \<Rightarrow> peer_connection \<Rightarrow> peer_connection option" where
  "ops_turn env now c pc =
     (case pc_ops pc of
        [] \<Rightarrow> Some pc
      | op # ops \<Rightarrow> maybe_start_sctp now (on_sctp c) (so_desc op) (start_transports env (on_dial c) (on_dtls c) op (pc\<lparr>pc_ops := ops\<rparr>)))"

section \<open>The offer reaches the peer\<close>

lemma signaling_from_as [simp]: "signaling_state_from (signaling_state_as s) = s"
  by (cases s) (simp_all add: signaling_state_from_def)

text \<open>A connection in the stable state with one certificate, a requested data channel and an agent \<open>a\<close>, existing or created by the offer.\<close>

definition offer_ready :: "peer_env \<Rightarrow> ice_agent \<Rightarrow> bytes \<Rightarrow> peer_connection \<Rightarrow> bool" where
  "offer_ready env a der pc \<longleftrightarrow> pc_idp_login_url pc = None \<and> \<not> pc_is_closed pc \<and> pc_signaling_state pc = SS_Stable \<and> pc_current_remote pc = None \<and>
     pc_requested pc \<noteq> 0 \<and> pc_certificates pc = [[der]] \<and> pe_sha256 env der \<noteq> [] \<and>
     (pc_agent pc = Some a \<or> pc_agent pc = None \<and> pc_gatherer pc = GA_New \<and> pe_new_agent env = Ok a) \<and>
     plain_word (ag_local_ufrag a) \<and> plain_word (ag_local_pwd a) \<and> list_all offerable (local_candidates env a)"

lemma create_agent_ready: "offer_ready env a der pc \<Longrightarrow> create_agent env pc = (Ok (), pc\<lparr>pc_agent := Some a\<rparr>)"
  by (auto simp: offer_ready_def create_agent_def)

lemma ready_agent: "offer_ready env a der pc \<Longrightarrow> offer_ready env a der (pc\<lparr>pc_agent := Some a\<rparr>)"
  by (simp add: offer_ready_def pc_signaling_state_def)

text \<open>The fingerprint and the parameters an offer is made of.\<close>

definition certificate_fingerprint :: "peer_env \<Rightarrow> bytes \<Rightarrow> dtls_fingerprint" where
  "certificate_fingerprint env der = \<lparr>fp_algorithm = ascii ''sha-256'', fp_value = join 58 (map hex_byte (pe_sha256 env der))\<rparr>"

definition agent_params :: "ice_agent \<Rightarrow> rtc_gathering_state \<Rightarrow> add_data_params" where
  "agent_params a g = \<lparr>ap_should_add_candidates = True, ap_mid_value = show_nat 0,
     ap_ice_params = \<lparr>ip_username_fragment = ag_local_ufrag a, ip_password = ag_local_pwd a\<rparr>, ap_dtls_role = CR_Actpass, ap_gathering = g\<rparr>"

lemma unmatched_ready:
  assumes "offer_ready env a der pc"
  obtains cs i v where "generate_unmatched_sdp env False pc =
      (Ok (offer_description (pe_crc env) (jsep i v) [certificate_fingerprint env der] (agent_params a (ice_gathering_state pc)) cs), pc\<lparr>pc_agent := Some a\<rparr>)"
    and "\<forall>c \<in> set cs. signalled c"
    and "cand_endpoint ` set cs = (\<lambda>(r, k). (rc_address r, rc_port r, k)) ` (set (local_candidates env a) \<times> {1, 2})"
proof -
  let ?pc = "pc\<lparr>pc_agent := Some a\<rparr>" and ?ice = "\<lparr>ip_username_fragment = ag_local_ufrag a, ip_password = ag_local_pwd a\<rparr>"
  have p: "get_local_parameters env pc = (Ok ?ice, ?pc)" using create_agent_ready [OF assms] by (simp add: get_local_parameters_def andThen_def)
  have c: "get_local_candidates env ?pc = (Ok (local_candidates env a), ?pc)"
    using create_agent_ready [OF ready_agent [OF assms]] by (simp add: get_local_candidates_def andThen_def)
  have r: "pc_requested pc \<noteq> 0" "pc_certificates pc = [[der]]" "\<forall>r \<in> set (local_candidates env a). offerable r" "plain_word (ag_local_ufrag a)"
    "plain_word (ag_local_pwd a)" using assms by (simp_all add: offer_ready_def list_all_iff)
  define i v where "i = new_session_id (pe_random env)" and "v = (ucast (pe_nanos env) :: u64)"
  obtain cs where cs: "populate_sdp (pe_crc env) (pe_rand_id env) (jsep i v) [certificate_fingerprint env der] (local_candidates env a) ?ice
      [\<lparr>ms_id = show_nat 0, ms_data = True\<rparr>] \<lparr>pp_is_icelite = False, pp_connection_role = CR_Actpass, pp_gathering = ice_gathering_state pc\<rparr> =
      Ok (offer_description (pe_crc env) (jsep i v) [certificate_fingerprint env der] (agent_params a (ice_gathering_state pc)) cs)"
    "\<forall>c \<in> set cs. signalled c"
    "cand_endpoint ` set cs = (\<lambda>(r, k). (rc_address r, rc_port r, k)) ` (set (local_candidates env a) \<times> {1, 2})"
    unfolding agent_params_def by (rule populate_offer [of "show_nat 0" ?ice]) (use r plain_word_show_nat in auto)
  have f: "get_fingerprints (pe_sha256 env) [der] = [certificate_fingerprint env der]" by (simp add: get_fingerprints_def certificate_fingerprint_def)
  have g: "ice_gathering_state ?pc = ice_gathering_state pc" by (simp add: ice_gathering_state_def)
  have "generate_unmatched_sdp env False pc =
      (Ok (offer_description (pe_crc env) (jsep i v) [certificate_fingerprint env der] (agent_params a (ice_gathering_state pc)) cs), ?pc)"
    unfolding generate_unmatched_sdp_def Let_def p andThen_def prod.case outcome.case c
    using r(1,2) cs(1) by (simp add: new_jsep i_def v_def f g DEFAULT_DTLS_ROLE_OFFER_def)
  from that [OF this cs(2,3)] show thesis .
qed

lemma create_offer_ready:
  assumes "offer_ready env a der pc"
  obtains cs i v og where "create_offer env pc =
      (let d = offer_description (pe_crc env) (jsep i v) [certificate_fingerprint env der] (agent_params a (ice_gathering_state pc)) cs
       in (Ok \<lparr>rs_type = ST_Offer, rs_sdp = sdp_marshal d, rs_parsed = Some d\<rparr>,
           pc\<lparr>pc_greater_mid := update_greater_mid None (pc_greater_mid pc), pc_agent := Some a, pc_sdp_origin := og, pc_last_offer := sdp_marshal d\<rparr>))"
    and "\<forall>c \<in> set cs. signalled c"
    and "cand_endpoint ` set cs = (\<lambda>(r, k). (rc_address r, rc_port r, k)) ` (set (local_candidates env a) \<times> {1, 2})"
proof -
  have r: "pc_idp_login_url pc = None" "\<not> pc_is_closed pc" "pc_current_remote pc = None" using assms by (simp_all add: offer_ready_def)
  let ?pc = "pc\<lparr>pc_greater_mid := update_greater_mid None (pc_greater_mid pc)\<rparr>"
  have "offer_ready env a der ?pc" using assms by (simp add: offer_ready_def pc_signaling_state_def)
  then obtain cs i v where u: "generate_unmatched_sdp env False ?pc =
      (Ok (offer_description (pe_crc env) (jsep i v) [certificate_fingerprint env der] (agent_params a (ice_gathering_state ?pc)) cs), ?pc\<lparr>pc_agent := Some a\<rparr>)"
    and cs: "\<forall>c \<in> set cs. signalled c" "cand_endpoint ` set cs = (\<lambda>(r, k). (rc_address r, rc_port r, k)) ` (set (local_candidates env a) \<times> {1, 2})"
    by (rule unmatched_ready)
  let ?d = "\<lambda>i v. offer_description (pe_crc env) (jsep i v) [certificate_fingerprint env der] (agent_params a (ice_gathering_state pc)) cs"
  obtain og i' v' where o1: "update_sdp_origin (pc_sdp_origin pc) (?d i v) = (og, ?d i' v')"
    using update_origin_jsep [of "pc_sdp_origin pc" "pe_crc env" i v "[certificate_fingerprint env der]"] by (metis prod.collapse)
  have g: "ice_gathering_state ?pc = ice_gathering_state pc" by (simp add: ice_gathering_state_def)
  have b: "description_is_plan_b (pe_plan_b env) None = False" by (simp add: description_is_plan_b_def)
  have "create_offer env pc = (let d = ?d i' v' in (Ok \<lparr>rs_type = ST_Offer, rs_sdp = sdp_marshal d, rs_parsed = Some d\<rparr>,
      pc\<lparr>pc_greater_mid := update_greater_mid None (pc_greater_mid pc), pc_agent := Some a, pc_sdp_origin := og, pc_last_offer := sdp_marshal d\<rparr>))"
    unfolding create_offer_def Let_def r(1,3) b using r(2,3) u o1 by (simp add: andThen_def g)
  from that [OF this cs] show thesis .
qed

lemma gather_keeps: "gather env pc = (r, pc') \<Longrightarrow> pc_signaling pc' = pc_signaling pc \<and> pc_pending_local pc' = pc_pending_local pc"
  by (auto simp: gather_def create_agent_def andThen_def gatherer_set_state_def pc_notify_def Let_def split: if_splits outcome.splits option.splits prod.splits)

lemma set_local_offer:
  assumes "pc_signaling_state pc = SS_Stable" and "\<not> pc_is_closed pc" and "rs_type offer = ST_Offer" and "rs_sdp offer = pc_last_offer pc"
    and "sdp_unmarshal (pe_parse_url env) (rs_sdp offer) = Ok d"
  shows "\<exists>r pc'. set_local_description env offer pc = (r, pc') \<and> pc_signaling_state pc' = SS_HaveLocalOffer \<and>
    pc_pending_local pc' = Some (offer\<lparr>rs_parsed := Some d\<rparr>)"
proof -
  let ?sd = "offer\<lparr>rs_parsed := Some d\<rparr>"
  let ?pc = "pc_notify (Signaling_Changed SS_HaveLocalOffer) (pc\<lparr>pc_pending_local := Some ?sd, pc_signaling := signaling_state_as SS_HaveLocalOffer\<rparr>)"
  have "set_description ?sd SetLocal pc = (Ok (), ?pc)"
    using assms(1-4) by (simp add: set_description_def check_next_signaling_state_def Let_def)
  then have s: "set_local_description env offer pc = (if pc_gatherer pc = GA_New then gather env ?pc else (Ok (), ?pc))"
  proof -
    have o1: "(if rs_sdp offer = [] then offer\<lparr>rs_sdp := pc_last_offer pc\<rparr> else offer) = offer" using assms(4) by (cases offer) auto
    show ?thesis unfolding set_local_description_def Let_def o1 using assms(2,3,5) \<open>set_description ?sd SetLocal pc = (Ok (), ?pc)\<close>
      by (simp add: rs_unmarshal_def andThen_def pc_notify_def)
  qed
  have k: "pc_signaling ?pc = signaling_state_as SS_HaveLocalOffer" "pc_pending_local ?pc = Some ?sd" by (simp_all add: pc_notify_def)
  obtain r pc' where "gather env ?pc = (r, pc')" by fastforce
  with gather_keeps [OF this] s k show ?thesis by (cases "pc_gatherer pc = GA_New") (auto simp: pc_signaling_state_def signaling_state_from_def)
qed

lemma ready_params: "offer_ready env a der pc \<Longrightarrow> plain_params (agent_params a g) \<and> plain_fingerprint (certificate_fingerprint env der)"
proof -
  assume r: "offer_ready env a der pc"
  have "plain_word (ascii ''sha-256'')" by (simp add: ascii_def plain_word_def)
  with r plain_hex [of "pe_sha256 env der"] show ?thesis
    by (simp add: offer_ready_def plain_params_def agent_params_def plain_fingerprint_def certificate_fingerprint_def plain_word_show_nat)
qed

lemma offer_read_by_peer:
  assumes "offer_ready env a der pc"
  shows "\<exists>offer pc1 r pc2 d rs. create_offer env pc = (Ok offer, pc1) \<and> set_local_description env offer pc1 = (r, pc2) \<and>
    pc_signaling_state pc2 = SS_HaveLocalOffer \<and> pc_pending_local pc2 = Some (offer\<lparr>rs_parsed := Some d\<rparr>) \<and>
    sdp_unmarshal peer_url (rs_sdp offer) = Ok d \<and>
    extract_fingerprint d = Ok (to_uppercase (join 58 (map hex_byte (pe_sha256 env der))), ascii ''sha-256'') \<and>
    extract_ice_details (pe_crc env) ids d = Ok (ag_local_ufrag a, ag_local_pwd a, rs) \<and>
    rtc_endpoint ` set rs = (\<lambda>(r, k). (rc_address r, rc_port r, k)) ` (set (local_candidates env a) \<times> {1, 2}) \<and>
    list_all offerable rs \<and> have_application_media_section d \<and> dtls_role_from d = DR_Auto \<and>
    (\<exists>g og t. pc1 = pc\<lparr>pc_greater_mid := g, pc_agent := Some a, pc_sdp_origin := og, pc_last_offer := t\<rparr>)"
proof -
  let ?f = "certificate_fingerprint env der" and ?p = "agent_params a (ice_gathering_state pc)"
  obtain cs i v og where c: "create_offer env pc = (let d = offer_description (pe_crc env) (jsep i v) [?f] ?p cs
       in (Ok \<lparr>rs_type = ST_Offer, rs_sdp = sdp_marshal d, rs_parsed = Some d\<rparr>,
           pc\<lparr>pc_greater_mid := update_greater_mid None (pc_greater_mid pc), pc_agent := Some a, pc_sdp_origin := og, pc_last_offer := sdp_marshal d\<rparr>))"
    and cs: "\<forall>c \<in> set cs. signalled c"
    and ends: "cand_endpoint ` set cs = (\<lambda>(r, k). (rc_address r, rc_port r, k)) ` (set (local_candidates env a) \<times> {1, 2})"
    by (rule create_offer_ready [OF assms])
  define d0 where "d0 = offer_description (pe_crc env) (jsep i v) [?f] ?p cs"
  define offer where "offer = \<lparr>rs_type = ST_Offer, rs_sdp = sdp_marshal d0, rs_parsed = Some d0\<rparr>"
  define pc1 where "pc1 = pc\<lparr>pc_greater_mid := update_greater_mid None (pc_greater_mid pc), pc_agent := Some a, pc_sdp_origin := og, pc_last_offer := sdp_marshal d0\<rparr>"
  have u: "sdp_unmarshal q (rs_sdp offer) = Ok (reparse d0)" for q
    using offer_unmarshal [of ?p ?f cs q "pe_crc env" i v] ready_params [OF assms] cs by (simp add: offer_def d0_def)
  have s: "pc_signaling_state pc1 = SS_Stable" "\<not> pc_is_closed pc1"
    using assms by (simp_all add: pc1_def offer_ready_def pc_signaling_state_def)
  from set_local_offer [OF s, of offer env "reparse d0"] u obtain r pc2 where l: "set_local_description env offer pc1 = (r, pc2)"
    "pc_signaling_state pc2 = SS_HaveLocalOffer" "pc_pending_local pc2 = Some (offer\<lparr>rs_parsed := Some (reparse d0)\<rparr>)"
    by (auto simp: offer_def pc1_def)
  from offer_ice_details [OF cs, of "pe_crc env" ids i v ?f ?p] obtain rs where
    rs: "extract_ice_details (pe_crc env) ids (reparse d0) = Ok (ag_local_ufrag a, ag_local_pwd a, rs)" "map rtc_endpoint rs = map cand_endpoint cs"
    "list_all offerable rs" by (auto simp: d0_def agent_params_def)
  have e: "rtc_endpoint ` set rs = (\<lambda>(r, k). (rc_address r, rc_port r, k)) ` (set (local_candidates env a) \<times> {1, 2})"
    using ends arg_cong [OF rs(2), of set] by simp
  have f: "extract_fingerprint (reparse d0) = Ok (to_uppercase (join 58 (map hex_byte (pe_sha256 env der))), ascii ''sha-256'')"
    using offer_fingerprint [of ?f "pe_crc env" i v ?p cs] ready_params [OF assms] by (simp add: d0_def certificate_fingerprint_def)
  have "dtls_role_from (reparse d0) = DR_Auto" "have_application_media_section (reparse d0)"
    unfolding d0_def by (rule offer_dtls_role, simp add: agent_params_def, rule offer_application)
  moreover have "create_offer env pc = (Ok offer, pc1)" using c by (simp add: Let_def offer_def pc1_def d0_def)
  ultimately show ?thesis using l u [of peer_url] rs(1,3) e f pc1_def by blast
qed

definition sample_peer_agent :: ice_agent where
  "sample_peer_agent = (agent_internal_new 0 7 \<lparr>cf_controlling = False, cf_lite = False, cf_max_requests = None, cf_host_wait = None,
       cf_disconnected_timeout = None, cf_failed_timeout = None, cf_keepalive = None, cf_check_interval = 0\<rparr>)
     \<lparr>ag_local_ufrag := ascii ''user'', ag_local_pwd := ascii ''secret'', ag_local := [(Udp4, [0])],
      ag_cands := [candidate_default\<lparr>cb_id := ascii ''x'', cb_network_type := Udp4, cb_type := Host, cb_component := 1,
        cb_address := ascii ''a.local'', cb_port := 5000\<rparr>]\<rparr>"

definition sample_peer_env :: peer_env where
  "sample_peer_env = \<lparr>pe_crc = (\<lambda>_. 9), pe_sha256 = (\<lambda>_. [0xAB, 3]), pe_parse_url = Some, pe_plan_b = (\<lambda>_. False), pe_rand_id = ascii ''r'', pe_ids = (\<lambda>_. []),
     pe_random = 11, pe_nanos = 12, pe_new_agent = Ok sample_peer_agent, pe_gather = (\<lambda>a. (Ok (), a)), pe_order = [Udp4], pe_mdns = Mdns_QueryOnly\<rparr>"

definition sample_peer :: peer_connection where
  "sample_peer = (peer_connection_new [[1, 2, 3]])\<lparr>pc_data_channels := [rtc_data_channel_new (ascii ''data'') []], pc_requested := 1\<rparr>"

lemma sample_candidates: "local_candidates sample_peer_env sample_peer_agent =
    [\<lparr>rc_stats_id = ascii ''x'', rc_foundation = show_nat 9, rc_priority = cand_priority (cand sample_peer_agent 0), rc_address = ascii ''a.local'',
      rc_protocol = IP_Udp, rc_port = 5000, rc_typ = RCT_Host, rc_component = 1, rc_related_address = [], rc_related_port = 0\<rparr>]"
  by (simp add: local_candidates_def sample_peer_env_def sample_peer_agent_def of_type_def hm_get_def cand_def rtc_candidate_from_def candidate_default_def
      cand_foundation_def ice_protocol_from_def)

lemma sample_ready: "offer_ready sample_peer_env sample_peer_agent [1, 2, 3] sample_peer"
proof -
  have "ends_with (ascii ''a.local'') (ascii ''.local'')" "plain_word (ascii ''a.local'')" by (simp_all add: ends_with_def ascii_def plain_word_def)
  then have "list_all offerable (local_candidates sample_peer_env sample_peer_agent)"
    by (simp add: sample_candidates offerable_def plain_word_show_nat)
  moreover have "plain_word (ascii ''user'')" "plain_word (ascii ''secret'')" by (simp_all add: ascii_def plain_word_def)
  ultimately show ?thesis
    unfolding offer_ready_def
    by (simp add: sample_peer_def peer_connection_new_def pc_signaling_state_def signaling_state_from_def sample_peer_env_def
        sample_peer_agent_def)
qed



end
