(* ===== verification/Peer_Signaling.thy ===== *)
theory Peer_Signaling
  imports Peer_Connection
begin

text \<open>
  Negotiation over the life of a peer connection: the calls of the application and the tasks of the connection as steps, the states that are
  reachable and what holds in them, what an answer of the peer does, and how the state of the connection is reported.
\<close>

section \<open>Steps\<close>

text \<open>
  \<open>Agent_Runs\<close> and \<open>Association_Runs\<close> stand for the tasks of the ICE agent and of the association, which change them meanwhile in ways that
  are the subject of other theories. A call that never returns has no step.
\<close>

datatype pc_call = Create_Offer | Set_Local rtc_session_description | Set_Remote rtc_session_description | Add_Candidate bytes
  | Create_Channel nat bytes bytes | Local_Description | Gathering_Done | Run_Operation nat connects | Agent_State connection_state
  | Agent_Runs "ice_agent \<Rightarrow> ice_agent" | Association_Runs "association \<Rightarrow> association"

fun pc_step :: "peer_env \<Rightarrow> pc_call \<Rightarrow> peer_connection \<Rightarrow> peer_connection option" where
  "pc_step env Create_Offer pc = Some (snd (create_offer env pc))"
| "pc_step env (Set_Local d) pc = Some (snd (set_local_description env d pc))"
| "pc_step env (Set_Remote d) pc = Some (snd (set_remote_description env d pc))"
| "pc_step env (Add_Candidate s) pc = Some (snd (add_ice_candidate env s pc))"
| "pc_step env (Create_Channel now l p) pc = map_option snd (create_data_channel now l p pc)"
| "pc_step env Local_Description pc = Some (snd (local_description env pc))"
| "pc_step env Gathering_Done pc = Some (gathering_complete pc)"
| "pc_step env (Run_Operation now c) pc = ops_turn env now c pc"
| "pc_step env (Agent_State s) pc = Some (on_agent_state s pc)"
| "pc_step env (Agent_Runs f) pc = Some (pc\<lparr>pc_agent := map_option f (pc_agent pc)\<rparr>)"
| "pc_step env (Association_Runs f) pc = Some (pc\<lparr>pc_association := map_option f (pc_association pc)\<rparr>)"

inductive pc_reachable :: "peer_connection \<Rightarrow> bool" where
  start: "pc_reachable (peer_connection_new certificate)"
| step: "pc_reachable pc \<Longrightarrow> pc_step env c pc = Some pc' \<Longrightarrow> pc_reachable pc'"

section \<open>What the calls leave alone\<close>

text \<open>The part of the state that negotiation is about.\<close>

definition nego :: "peer_connection \<Rightarrow> bytes \<times> bool \<times> u8 \<times> rtc_session_description option \<times> rtc_session_description option \<times>
    rtc_session_description option \<times> rtc_session_description option" where
  "nego pc = (pc_last_answer pc, pc_is_closed pc, pc_signaling pc, pc_current_local pc, pc_current_remote pc, pc_pending_local pc, pc_pending_remote pc)"

named_theorems nego_keeps

lemma nego_andThen:
  assumes "nego (snd r) = n" and "\<And>x pc. nego pc = n \<Longrightarrow> nego (snd (f x pc)) = n"
  shows "nego (snd (andThen r f)) = n"
  using assms by (cases r; cases "fst r") (auto simp: andThen_def)

lemma nego_notify [nego_keeps]: "nego (pc_notify e pc) = nego pc"
  by (simp add: nego_def pc_notify_def)

lemma nego_create_agent [nego_keeps]: "nego (snd (create_agent env pc)) = nego pc"
  by (simp add: create_agent_def nego_def split: outcome.splits)

lemma nego_ensure [nego_keeps]: "nego (snd (ensure_gatherer env pc)) = nego pc"
  by (simp add: ensure_gatherer_def nego_create_agent)

lemma nego_parameters [nego_keeps]: "nego (snd (get_local_parameters env pc)) = nego pc"
  unfolding get_local_parameters_def by (rule nego_andThen) (auto simp: nego_keeps split: option.splits)

lemma nego_candidates [nego_keeps]: "nego (snd (get_local_candidates env pc)) = nego pc"
  unfolding get_local_candidates_def by (rule nego_andThen) (auto simp: nego_keeps split: option.splits)

lemma nego_agent [nego_keeps]: "nego (pc\<lparr>pc_agent := a\<rparr>) = nego pc"
  by (simp add: nego_def)

lemma nego_gather [nego_keeps]: "nego (snd (gather env pc)) = nego pc"
proof -
  have "nego (gatherer_set_state s pc) = nego pc" for s pc by (simp add: gatherer_set_state_def nego_keeps) (simp add: nego_def)
  then show ?thesis unfolding gather_def
    by (intro nego_andThen) (auto simp: nego_keeps Let_def split: option.splits prod.splits)
qed

lemma nego_unmatched [nego_keeps]: "nego (snd (generate_unmatched_sdp env u pc)) = nego pc"
  unfolding generate_unmatched_sdp_def Let_def
  by (intro nego_andThen) (auto simp: nego_keeps split: list.splits)

lemma nego_matched [nego_keeps]: "nego (snd (generate_matched_sdp env u i r pc)) = nego pc"
  unfolding generate_matched_sdp_def Let_def
  by (intro nego_andThen) (auto simp: nego_keeps split: list.splits)

lemma nego_create_offer [nego_keeps]: "nego (snd (create_offer env pc)) = nego pc"
proof -
  have m: "nego (pc\<lparr>pc_greater_mid := x\<rparr>) = nego pc" for pc x by (simp add: nego_def)
  have o1: "nego (pc\<lparr>pc_sdp_origin := x, pc_last_offer := y\<rparr>) = nego pc" for pc x y by (simp add: nego_def)
  show ?thesis unfolding create_offer_def Let_def
    by (simp split del: if_split) (auto intro!: nego_andThen simp: nego_keeps m o1 split: prod.splits)
qed

lemma nego_add_candidate [nego_keeps]: "nego (snd (transport_add_remote_candidate env c pc)) = nego pc"
  unfolding transport_add_remote_candidate_def
  by (intro nego_andThen) (auto intro!: nego_andThen simp: nego_keeps split: option.splits prod.splits)

lemma nego_add_candidates [nego_keeps]: "nego (snd (add_remote_candidates env rs pc)) = nego pc"
  by (induction rs arbitrary: pc) (auto intro!: nego_andThen simp: nego_keeps)

lemma nego_populate [nego_keeps]: "nego (snd (populate_local_candidates env d pc)) = nego pc"
proof -
  obtain r pc1 where g: "get_local_candidates env pc = (r, pc1)" by fastforce
  have "nego pc1 = nego pc" using nego_candidates [of env pc] g by simp
  then show ?thesis by (auto simp: populate_local_candidates_def g Let_def split: option.splits outcome.splits list.splits)
qed

lemma nego_local_description [nego_keeps]: "nego (snd (local_description env pc)) = nego pc"
proof -
  obtain x pc1 where p: "populate_local_candidates env (pc_pending_local pc) pc = (x, pc1)" by fastforce
  have "nego pc1 = nego pc" using nego_populate [of env "pc_pending_local pc" pc] p by simp
  then show ?thesis by (cases x) (simp_all add: local_description_def p nego_populate)
qed

lemma nego_update_state [nego_keeps]: "nego (pc_update_connection_state i d pc) = nego pc"
  by (simp add: pc_update_connection_state_def Let_def nego_notify) (simp add: nego_def)

lemma nego_agent_state [nego_keeps]: "nego (on_agent_state s pc) = nego pc"
proof -
  have "nego (on_ice_transport_state t pc) = nego pc" for t pc
    by (simp add: on_ice_transport_state_def nego_update_state nego_notify split: option.splits) (simp add: nego_def)
  then show ?thesis by (simp add: on_agent_state_def) (simp add: nego_def)
qed

lemma nego_fold_agent [nego_keeps]: "nego (fold on_agent_state ss pc) = nego pc"
  by (induction ss arbitrary: pc) (simp_all add: nego_agent_state)

lemma nego_ice_start [nego_keeps]: "nego (snd (ice_transport_start env dial params role pc)) = nego pc"
proof -
  have k: "nego (pc\<lparr>pc_mux := b\<rparr>) = nego pc" "nego (pc\<lparr>pc_ice_role := r\<rparr>) = nego pc" "nego (pc\<lparr>pc_ice_role := r, pc_agent := a\<rparr>) = nego pc" for pc b r a
    by (simp_all add: nego_def)
  show ?thesis unfolding ice_transport_start_def Let_def
    by (auto intro!: nego_andThen simp: nego_keeps k split: option.splits prod.splits)
qed

lemma nego_dtls_start [nego_keeps]: "nego (snd (dtls_transport_start connect remote pc)) = nego pc"
  by (auto simp: dtls_transport_start_def prepare_transport_def ensure_ice_conn_def andThen_def nego_def Let_def)

lemma nego_start_transports [nego_keeps]: "nego (start_transports env dial connect op pc) = nego pc"
proof -
  obtain r pc1 where i: "ice_transport_start env dial \<lparr>ip_username_fragment = so_ufrag op, ip_password = so_pwd op\<rparr> (Some (so_ice_role op)) pc = (r, pc1)"
    by fastforce
  obtain q pc2 where d: "dtls_transport_start connect \<lparr>dp_role = so_dtls_role op,
      dp_fingerprints = [\<lparr>fp_algorithm = so_hash op, fp_value = so_fingerprint op\<rparr>]\<rparr> pc1 = (q, pc2)" by fastforce
  have "nego pc1 = nego pc" using nego_ice_start i by (metis snd_conv)
  moreover have "nego pc2 = nego pc1" using nego_dtls_start d by (metis snd_conv)
  ultimately show ?thesis by (simp add: start_transports_def i d nego_update_state split: outcome.splits)
qed

lemma nego_start_sctp: "start_sctp now client pc = Some pc' \<Longrightarrow> nego pc' = nego pc"
  by (auto simp: start_sctp_def sctp_transport_start_def sctp_transport_stop_def andThen_def nego_def Let_def split: if_splits outcome.splits prod.splits)

lemma nego_ops_turn: "ops_turn env now c pc = Some pc' \<Longrightarrow> nego pc' = nego pc"
proof -
  have "nego (pc\<lparr>pc_ops := ops\<rparr>) = nego pc" for ops by (simp add: nego_def)
  then show "ops_turn env now c pc = Some pc' \<Longrightarrow> nego pc' = nego pc"
    by (auto simp: ops_turn_def maybe_start_sctp_def nego_start_transports dest!: nego_start_sctp split: list.splits option.splits if_splits)
qed

lemma nego_create_channel: "create_data_channel now l p pc = Some (r, pc') \<Longrightarrow> nego pc' = nego pc"
  by (auto simp: create_data_channel_def nego_def Let_def split: if_splits)

section \<open>The invariant of negotiation\<close>

definition has_desc :: "sdp_type \<Rightarrow> rtc_session_description option \<Rightarrow> bool" where
  "has_desc t x = (case x of Some s \<Rightarrow> rs_type s = t \<and> pred_option session_typed (rs_parsed s) \<and> rs_parsed s \<noteq> None | None \<Rightarrow> False)"

definition settled :: "rtc_session_description option \<Rightarrow> rtc_session_description option \<Rightarrow> bool" where
  "settled cl cr \<longleftrightarrow> cl = None \<and> cr = None \<or> has_desc ST_Offer cl \<and> has_desc ST_Answer cr"

definition negotiating :: "signaling_state \<Rightarrow> rtc_session_description option \<Rightarrow> rtc_session_description option \<Rightarrow> bool" where
  "negotiating s pl pr = (case s of
       SS_Stable \<Rightarrow> pl = None \<and> pr = None
     | SS_HaveLocalOffer \<Rightarrow> has_desc ST_Offer pl \<and> pr = None
     | SS_HaveRemotePranswer \<Rightarrow> has_desc ST_Offer pl \<and> has_desc ST_Pranswer pr
     | SS_HaveRemoteOffer \<Rightarrow> pl = None \<and> has_desc ST_Offer pr
     | _ \<Rightarrow> False)"

definition nego_inv :: "peer_connection \<Rightarrow> bool" where
  "nego_inv pc \<longleftrightarrow> pc_last_answer pc = [] \<and> \<not> pc_is_closed pc \<and> settled (pc_current_local pc) (pc_current_remote pc) \<and>
     negotiating (pc_signaling_state pc) (pc_pending_local pc) (pc_pending_remote pc)"

lemma nego_inv_cong: "nego pc' = nego pc \<Longrightarrow> nego_inv pc \<Longrightarrow> nego_inv pc'"
  by (simp add: nego_inv_def nego_def pc_signaling_state_def)

text \<open>The transitions that can be taken: a local answer never matches, as no answer is ever created.\<close>

lemma set_description_cases:
  assumes "nego_inv pc" and "set_description sd op pc = (r, pc')" and "op = SetLocal \<and> rs_type sd \<noteq> ST_Offer \<longrightarrow> rs_sdp sd \<noteq> []"
  obtains (refused) e where "r = Err e" "pc' = pc"
  | (local_offer) "pc_signaling_state pc = SS_Stable" "op = SetLocal" "rs_type sd = ST_Offer" "r = Ok ()"
      "pc' = pc_notify (Signaling_Changed SS_HaveLocalOffer) (pc\<lparr>pc_pending_local := Some sd, pc_signaling := signaling_state_as SS_HaveLocalOffer\<rparr>)"
  | (remote_offer) "pc_signaling_state pc = SS_Stable" "op = SetRemote" "rs_type sd = ST_Offer" "r = Ok ()"
      "pc' = pc_notify (Signaling_Changed SS_HaveRemoteOffer) (pc\<lparr>pc_pending_remote := Some sd, pc_signaling := signaling_state_as SS_HaveRemoteOffer\<rparr>)"
  | (answer) "pc_signaling_state pc \<in> {SS_HaveLocalOffer, SS_HaveRemotePranswer}" "op = SetRemote" "rs_type sd = ST_Answer" "r = Ok ()"
      "pc' = pc_notify (Signaling_Changed SS_Stable) (pc\<lparr>pc_pending_local := None, pc_pending_remote := None, pc_current_remote := Some sd,
        pc_current_local := pc_pending_local pc, pc_signaling := signaling_state_as SS_Stable\<rparr>)"
  | (pranswer) "pc_signaling_state pc = SS_HaveLocalOffer" "op = SetRemote" "rs_type sd = ST_Pranswer" "r = Ok ()"
      "pc' = pc_notify (Signaling_Changed SS_HaveRemotePranswer) (pc\<lparr>pc_pending_remote := Some sd, pc_signaling := signaling_state_as SS_HaveRemotePranswer\<rparr>)"
proof -
  let ?n = "\<lambda>s pc. pc_notify (Signaling_Changed s) (pc\<lparr>pc_signaling := signaling_state_as s\<rparr>)"
  have k: "\<not> pc_is_closed pc" "pc_last_answer pc = []" "pc_signaling_state pc \<in> {SS_Stable, SS_HaveLocalOffer, SS_HaveRemotePranswer, SS_HaveRemoteOffer}"
    using assms(1) by (auto simp: nego_inv_def negotiating_def split: signaling_state.splits)
  define s where "s = pc_signaling_state pc"
  have d: "(\<exists>e. (r, pc') = (Err e, pc)) \<or>
      s = SS_Stable \<and> op = SetLocal \<and> rs_type sd = ST_Offer \<and> (r, pc') = (Ok (), ?n SS_HaveLocalOffer (pc\<lparr>pc_pending_local := Some sd\<rparr>)) \<or>
      s = SS_Stable \<and> op = SetRemote \<and> rs_type sd = ST_Offer \<and> (r, pc') = (Ok (), ?n SS_HaveRemoteOffer (pc\<lparr>pc_pending_remote := Some sd\<rparr>)) \<or>
      (s = SS_HaveLocalOffer \<or> s = SS_HaveRemotePranswer) \<and> op = SetRemote \<and> rs_type sd = ST_Answer \<and> (r, pc') = (Ok (), ?n SS_Stable
        (pc\<lparr>pc_pending_local := None, pc_pending_remote := None, pc_current_remote := Some sd, pc_current_local := pc_pending_local pc\<rparr>)) \<or>
      s = SS_HaveLocalOffer \<and> op = SetRemote \<and> rs_type sd = ST_Pranswer \<and>
        (r, pc') = (Ok (), ?n SS_HaveRemotePranswer (pc\<lparr>pc_pending_remote := Some sd\<rparr>))"
    unfolding assms(2) [symmetric] set_description_def Let_def s_def [symmetric] using k [folded s_def] assms(3)
    by (cases op; cases "rs_type sd"; cases s) (simp_all add: check_next_signaling_state_def)
  then show thesis
  proof (elim disjE exE conjE, goal_cases)
    case 1
    then show ?case by (intro refused) simp_all
  next
    case 2
    then show ?case by (intro local_offer) (simp_all add: s_def)
  next
    case 3
    then show ?case by (intro remote_offer) (simp_all add: s_def)
  next
    case 4
    then show ?case by (intro answer) (simp_all add: s_def)
  next
    case 5
    then show ?case by (intro answer) (simp_all add: s_def)
  next
    case 6
    then show ?case by (intro pranswer) (simp_all add: s_def)
  qed
qed

lemma set_description_inv:
  assumes "nego_inv pc" and "set_description sd op pc = (r, pc')" and "op = SetLocal \<and> rs_type sd \<noteq> ST_Offer \<longrightarrow> rs_sdp sd \<noteq> []"
    and "rs_parsed sd = Some p" and "session_typed p"
  shows "nego_inv pc'"
proof -
  have t: "has_desc (rs_type sd) (Some sd)" using assms(4,5) by (simp add: has_desc_def)
  show ?thesis
  proof (cases rule: set_description_cases [OF assms(1-3), case_names refused local_offer remote_offer answer pranswer])
    case refused
    with assms(1) show ?thesis by simp
  next
    case local_offer
    with assms(1) t show ?thesis by (simp add: nego_inv_def pc_notify_def pc_signaling_state_def signaling_state_from_def negotiating_def)
  next
    case remote_offer
    with assms(1) t show ?thesis by (simp add: nego_inv_def pc_notify_def pc_signaling_state_def signaling_state_from_def negotiating_def)
  next
    case answer
    with assms(1) t have "has_desc ST_Offer (pc_pending_local pc)" by (auto simp: nego_inv_def negotiating_def)
    with answer assms(1) t show ?thesis
      by (simp add: nego_inv_def pc_notify_def pc_signaling_state_def signaling_state_from_def negotiating_def settled_def)
  next
    case pranswer
    with assms(1) t show ?thesis by (simp add: nego_inv_def pc_notify_def pc_signaling_state_def signaling_state_from_def negotiating_def)
  qed
qed

lemma unmarshal_typed: "rs_unmarshal parse_url s = Ok p \<Longrightarrow> session_typed p"
proof -
  assume "rs_unmarshal parse_url s = Ok p"
  then have "sdp_unmarshal parse_url (rs_sdp s) = Ok p" by (cases "sdp_unmarshal parse_url (rs_sdp s)") (simp_all add: rs_unmarshal_def)
  then show ?thesis by (rule unmarshal_session_typed)
qed

text \<open>A call is a call of \<^verbatim>\<open>set_description\<close> followed by calls that leave the negotiation alone.\<close>

lemma set_local_nego:
  obtains (unchanged) "nego (snd (set_local_description env desc pc)) = nego pc"
  | (set_desc) sd p r pc1 where "set_description sd SetLocal pc = (r, pc1)" "rs_parsed sd = Some p" "session_typed p"
      "rs_type sd = rs_type desc" "rs_type sd \<noteq> ST_Offer \<Longrightarrow> rs_sdp sd \<noteq> []" "nego (snd (set_local_description env desc pc)) = nego pc1"
proof -
  let ?desc = "if rs_sdp desc = [] then desc\<lparr>rs_sdp := pc_last_offer pc\<rparr> else desc"
  show thesis
  proof (cases "pc_is_closed pc \<or> rs_sdp desc = [] \<and> rs_type desc \<noteq> ST_Offer \<or> (\<forall>p. rs_unmarshal (pe_parse_url env) ?desc \<noteq> Ok p)")
    case True
    then have "nego (snd (set_local_description env desc pc)) = nego pc"
      by (cases "rs_unmarshal (pe_parse_url env) ?desc") (auto simp: set_local_description_def Let_def andThen_def simp del: if_split_asm)
    then show thesis by (rule unchanged)
  next
    case False
    then obtain p where p: "rs_unmarshal (pe_parse_url env) ?desc = Ok p" by blast
    obtain r pc1 where s: "set_description (?desc\<lparr>rs_parsed := Some p\<rparr>) SetLocal pc = (r, pc1)" by fastforce
    have e: "set_local_description env desc pc = andThen (r, pc1) (\<lambda>_ pc. if pc_gatherer pc = GA_New then gather env pc else (Ok (), pc))"
    proof -
      have "\<not> pc_is_closed pc" "\<not> (rs_sdp desc = [] \<and> rs_type desc \<noteq> ST_Offer)" using False by auto
      then show ?thesis unfolding set_local_description_def Let_def p andThen_def [of "(Ok p, pc)"] prod.case outcome.case s by (simp only: if_False)
    qed
    have "nego (snd (set_local_description env desc pc)) = nego pc1" unfolding e by (rule nego_andThen) (auto simp: nego_keeps)
    then show thesis using False by (intro set_desc [OF s]) (auto simp: unmarshal_typed [OF p])
  qed
qed

lemma set_remote_nego:
  obtains (unchanged) "nego (snd (set_remote_description env desc pc)) = nego pc"
  | (set_desc) sd p r pc1 where "set_description sd SetRemote pc = (r, pc1)" "rs_parsed sd = Some p" "session_typed p"
      "nego (snd (set_remote_description env desc pc)) = nego pc1"
proof (cases "pc_is_closed pc \<or> (\<forall>p. rs_unmarshal (pe_parse_url env) desc \<noteq> Ok p)")
  case True
  then have "nego (snd (set_remote_description env desc pc)) = nego pc"
    by (cases "rs_unmarshal (pe_parse_url env) desc") (auto simp: set_remote_description_def andThen_def)
  then show thesis by (rule unchanged)
next
  case False
  then obtain p where p: "rs_unmarshal (pe_parse_url env) desc = Ok p" by blast
  obtain r pc1 where s: "set_description (desc\<lparr>rs_parsed := Some p\<rparr>) SetRemote pc = (r, pc1)" by fastforce
  have o1: "nego (pc\<lparr>pc_ops := x\<rparr>) = nego pc" for x pc by (simp add: nego_def)
  have "nego (snd (set_remote_description env desc pc)) = nego pc1"
    unfolding set_remote_description_def Let_def p andThen_def [of "(Ok p, pc)"] prod.case outcome.case s
    using False by (auto intro!: nego_andThen simp: nego_keeps o1)
  from set_desc [OF s _ _ this] unmarshal_typed [OF p] show thesis by simp
qed

lemma nego_add_ice [nego_keeps]: "nego (snd (add_ice_candidate env s pc)) = nego pc"
  unfolding add_ice_candidate_def Let_def by (auto intro!: nego_andThen simp: nego_keeps)

lemma step_nego:
  assumes "pc_step env c pc = Some pc'"
  obtains (unchanged) "nego pc' = nego pc"
  | (set_desc) sd p op r pc1 where "set_description sd op pc = (r, pc1)" "op = SetLocal \<and> rs_type sd \<noteq> ST_Offer \<longrightarrow> rs_sdp sd \<noteq> []"
      "rs_parsed sd = Some p" "session_typed p" "nego pc' = nego pc1"
proof (cases c)
  case (Set_Local desc)
  show thesis
  proof (cases rule: set_local_nego [of env desc pc, case_names unchanged set_desc])
    case unchanged
    then show thesis using that(1) Set_Local assms by simp
  next
    case (set_desc sd p r pc1)
    then show thesis using that(2) [of sd SetLocal r pc1 p] Set_Local assms by auto
  qed
next
  case (Set_Remote desc)
  show thesis
  proof (cases rule: set_remote_nego [of env desc pc, case_names unchanged set_desc])
    case unchanged
    then show thesis using that(1) Set_Remote assms by simp
  next
    case (set_desc sd p r pc1)
    then show thesis using that(2) [of sd SetRemote r pc1 p] Set_Remote assms by auto
  qed
next
  case (Create_Channel now l p)
  with assms have "nego pc' = nego pc" by (auto dest: nego_create_channel)
  then show thesis by (rule that(1))
next
  case (Run_Operation now c)
  with assms have "nego pc' = nego pc" by (simp add: nego_ops_turn)
  then show thesis by (rule that(1))
next
  case Gathering_Done
  with assms have "nego pc' = nego pc" by (auto simp: gathering_complete_def gatherer_set_state_def nego_notify) (simp add: nego_def)
  then show thesis by (rule that(1))
next
  case (Association_Runs f)
  with assms have "nego pc' = nego pc" by (auto simp: nego_def)
  then show thesis by (rule that(1))
qed (use that(1) assms in \<open>auto simp: nego_keeps\<close>)

lemma step_inv:
  assumes "nego_inv pc" and "pc_step env c pc = Some pc'"
  shows "nego_inv pc'"
proof (cases rule: step_nego [OF assms(2), case_names unchanged set_desc])
  case unchanged
  then show ?thesis using assms(1) by (rule nego_inv_cong)
next
  case (set_desc sd p op r pc1)
  show ?thesis by (rule nego_inv_cong [OF set_desc(5) set_description_inv [OF assms(1) set_desc(1-4)]])
qed

lemma reachable_nego_inv: "pc_reachable pc \<Longrightarrow> nego_inv pc"
proof (induction rule: pc_reachable.induct)
  case (start certificate)
  show ?case by (simp add: nego_inv_def peer_connection_new_def pc_signaling_state_def signaling_state_from_def negotiating_def settled_def)
qed (rule step_inv)

lemma sample_peer_reachable: "pc_reachable sample_peer"
  by (rule pc_reachable.step [OF pc_reachable.start [of "[[1, 2, 3]]"], of undefined "Create_Channel 0 (ascii ''data'') []"])
    (simp add: create_data_channel_def sample_peer_def peer_connection_new_def)

lemma offered_reachable:
  assumes "create_offer env pc = (x, pc1)" and "set_local_description env offer pc1 = (y, pc2)" and "pc_reachable pc"
  shows "pc_reachable pc2"
proof -
  have "pc_reachable pc1" by (rule pc_reachable.step [OF assms(3), of env Create_Offer]) (simp add: assms(1))
  then show ?thesis by (rule pc_reachable.step [of _ env "Set_Local offer"]) (simp add: assms(2))
qed

section \<open>Properties\<close>

text \<open>
  C10. Negotiation stays consistent. In every reachable state of a peer connection the signalling state is stable, have-local-offer,
  have-remote-pranswer or have-remote-offer, and the descriptions fit it: nothing is pending when stable; a local offer alone, together with a
  provisional answer of the peer, or a remote offer alone is pending in the others; the current descriptions are both absent or an offer of
  ours with an answer of the peer. Every stored description has been parsed and is well typed.
\<close>

theorem negotiation_consistent:
  assumes "pc_reachable pc"
  shows "settled (pc_current_local pc) (pc_current_remote pc) \<and>
    negotiating (pc_signaling_state pc) (pc_pending_local pc) (pc_pending_remote pc) \<and> \<not> pc_is_closed pc"
  using reachable_nego_inv [OF assms] by (simp add: nego_inv_def)

theorem negotiation_consistent_witness:
  "\<exists>pc. pc_reachable pc \<and> pc_signaling_state pc = SS_HaveLocalOffer \<and> has_desc ST_Offer (pc_pending_local pc) \<and> pc_pending_remote pc = None"
proof -
  obtain offer pc1 x pc2 where o1: "create_offer sample_peer_env sample_peer = (Ok offer, pc1)"
    and s: "set_local_description sample_peer_env offer pc1 = (x, pc2)" and l: "pc_signaling_state pc2 = SS_HaveLocalOffer"
    using offer_read_by_peer [OF sample_ready, of Some "\<lambda>_. []"] by (elim exE conjE) (rule that)
  have r: "pc_reachable pc2" by (rule offered_reachable [OF o1 s sample_peer_reachable])
  from negotiation_consistent [OF r] l r show ?thesis by (auto simp: negotiating_def)
qed

text \<open>A remote offer is the end of negotiation: no call leaves have-remote-offer, as no answer can be set.\<close>

lemma remote_offer_final:
  assumes "pc_reachable pc" and "pc_signaling_state pc = SS_HaveRemoteOffer" and "pc_step env c pc = Some pc'"
  shows "pc_signaling_state pc' = SS_HaveRemoteOffer"
proof -
  have i: "nego_inv pc" using assms(1) by (rule reachable_nego_inv)
  show ?thesis
  proof (cases rule: step_nego [OF assms(3), case_names unchanged set_desc])
    case unchanged
    with assms(2) show ?thesis by (simp add: nego_def pc_signaling_state_def)
  next
    case (set_desc sd p op r pc1)
    have "pc1 = pc" by (rule set_description_cases [OF i set_desc(1,2)]) (use assms(2) in auto)
    with set_desc(5) assms(2) show ?thesis by (simp add: nego_def pc_signaling_state_def)
  qed
qed

text \<open>Rolling back is refused in every state, although the type of description exists for it.\<close>

lemma rollback_refused: "rs_type sd = ST_Rollback \<Longrightarrow> \<exists>e. set_description sd op pc = (Err e, pc)"
  by (cases op; cases "pc_signaling_state pc") (auto simp: set_description_def check_next_signaling_state_def Let_def)

section \<open>The answer\<close>

lemma add_remote_offerable:
  assumes "pc_agent pc = Some a" and "offerable r"
  obtains c where "transport_add_remote_candidate env (Some r) pc = (Ok (), pc\<lparr>pc_agent := Some (snd (agent_add_remote_candidate (pe_mdns env) c a))\<rparr>)"
    and "cb_address c = rc_address r" and "cb_port c = rc_port r"
proof -
  obtain c where c: "to_ice (pe_rand_id env) r = Ok c" "cb_address c = rc_address r" "cb_port c = rc_port r"
    by (rule to_ice_offerable [OF assms(2)])
  have "fst (agent_add_remote_candidate (pe_mdns env) c a) = Ok ()" by (simp add: agent_add_remote_candidate_def split: prod.splits)
  then have "transport_add_remote_candidate env (Some r) pc = (Ok (), pc\<lparr>pc_agent := Some (snd (agent_add_remote_candidate (pe_mdns env) c a))\<rparr>)"
    using assms(1) c(1) by (cases "agent_add_remote_candidate (pe_mdns env) c a")
      (simp add: transport_add_remote_candidate_def ensure_gatherer_def andThen_def)
  from that [OF this c(2,3)] show thesis .
qed

lemma add_remote_all:
  assumes "pc_agent pc = Some a" and "\<forall>r \<in> set rs. offerable r"
  shows "\<exists>cs. add_remote_candidates env rs pc = (Ok (), pc\<lparr>pc_agent := Some (fold (\<lambda>c a. snd (agent_add_remote_candidate (pe_mdns env) c a)) cs a)\<rparr>) \<and>
    map (\<lambda>c. (cb_address c, cb_port c)) cs = map (\<lambda>r. (rc_address r, rc_port r)) rs"
  using assms
proof (induction rs arbitrary: pc a)
  case (Cons r rs)
  have "offerable r" using Cons.prems(2) by simp
  obtain c where c: "transport_add_remote_candidate env (Some r) pc = (Ok (), pc\<lparr>pc_agent := Some (snd (agent_add_remote_candidate (pe_mdns env) c a))\<rparr>)"
    "cb_address c = rc_address r" "cb_port c = rc_port r"
    by (rule add_remote_offerable [OF Cons.prems(1) \<open>offerable r\<close>])
  from Cons.IH [of "pc\<lparr>pc_agent := Some (snd (agent_add_remote_candidate (pe_mdns env) c a))\<rparr>"] Cons.prems(2) obtain cs where
    "add_remote_candidates env rs (pc\<lparr>pc_agent := Some (snd (agent_add_remote_candidate (pe_mdns env) c a))\<rparr>) =
      (Ok (), pc\<lparr>pc_agent := Some (fold (\<lambda>c a. snd (agent_add_remote_candidate (pe_mdns env) c a)) cs (snd (agent_add_remote_candidate (pe_mdns env) c a)))\<rparr>)"
    "map (\<lambda>c. (cb_address c, cb_port c)) cs = map (\<lambda>r. (rc_address r, rc_port r)) rs" by auto
  with c show ?case by (intro exI [of _ "c # cs"]) (simp add: andThen_def)
qed (simp add: exI [of _ "[]"])


text \<open>The fields of the state that reports of the ICE agent do not touch.\<close>

definition sctp_fields :: "peer_connection \<Rightarrow> bool \<times> rtc_data_channel list \<times> u32" where
  "sctp_fields pc = (pc_sctp_started pc, pc_data_channels pc, pc_opened pc)"

definition transport_fields ::
    "peer_connection \<Rightarrow> dtls_transport_state \<times> bytes list list \<times> bool \<times> bool \<times> start_operation list \<times> bool \<times> rtc_data_channel list \<times> u32" where
  "transport_fields pc = (pc_dtls pc, pc_certificates pc, pc_is_closed pc, pc_mux pc, pc_ops pc, sctp_fields pc)"

lemma agent_state_fields:
  "transport_fields (on_agent_state s pc) = transport_fields pc"
  "pc_ice_transport (on_agent_state s pc) = ice_transport_state_from s"
  "pc_ice_connection (on_agent_state CS_Connected pc) = IC_Connected"
  by (auto simp: transport_fields_def sctp_fields_def on_agent_state_def on_ice_transport_state_def pc_update_connection_state_def pc_notify_def Let_def split: option.splits)

lemma fold_agent_fields: "transport_fields (fold on_agent_state ss pc) = transport_fields pc"
  by (induction ss arbitrary: pc) (simp_all add: agent_state_fields)

lemma start_transports_connected:
  assumes "pc_agent pc = Some a" and "pc_ice_transport pc = IT_New" and "pc_dtls pc = DT_New" and "pc_certificates pc \<noteq> []" and "\<not> pc_is_closed pc"
    and "so_ice_role op = Controlling" and "dial Controlling (so_ufrag op) (so_pwd op) a = (Ok (), a', ss @ [CS_Connected])" and "connect DR_Client"
  shows "pc_state (start_transports env dial connect op pc) = PC_Connected \<and> pc_dtls_conn (start_transports env dial connect op pc) \<and>
    pc_ops (start_transports env dial connect op pc) = pc_ops pc \<and> sctp_fields (start_transports env dial connect op pc) = sctp_fields pc"
proof -
  let ?pc0 = "pc\<lparr>pc_ice_role := Some Controlling, pc_agent := Some a'\<rparr>"
  define pc1 where "pc1 = (fold on_agent_state (ss @ [CS_Connected]) ?pc0)\<lparr>pc_mux := True\<rparr>"
  have i: "ice_transport_start env dial \<lparr>ip_username_fragment = so_ufrag op, ip_password = so_pwd op\<rparr> (Some (so_ice_role op)) pc = (Ok (), pc1)"
    using assms(1,2,6,7) by (simp add: ice_transport_start_def ensure_gatherer_def andThen_def Let_def pc1_def)
  have f: "pc_dtls pc1 = DT_New" "pc_certificates pc1 \<noteq> []" "\<not> pc_is_closed pc1" "pc_ops pc1 = pc_ops pc" "pc_mux pc1" "sctp_fields pc1 = sctp_fields pc"
    using fold_agent_fields [of "ss @ [CS_Connected]" ?pc0] assms(3-5) by (simp_all add: pc1_def transport_fields_def sctp_fields_def)
  have t: "pc_ice_transport pc1 = IT_Connected" "pc_ice_connection pc1 = IC_Connected"
    using agent_state_fields(2,3) by (simp_all add: pc1_def)
  let ?remote = "\<lparr>dp_role = so_dtls_role op, dp_fingerprints = [\<lparr>fp_algorithm = so_hash op, fp_value = so_fingerprint op\<rparr>]\<rparr>"
  define pc2 where "pc2 = pc1\<lparr>pc_remote_parameters := Some ?remote, pc_dtls_conn := True, pc_dtls := DT_Connected\<rparr>"
  have "dtls_transport_start connect ?remote pc1 = (Ok (), pc2)"
    using f t assms(8) by (simp add: dtls_transport_start_def prepare_transport_def ensure_ice_conn_def andThen_def Let_def pc2_def)
  with i have s: "start_transports env dial connect op pc = pc_update_connection_state (pc_ice_connection pc2) (pc_dtls pc2) pc2"
    by (simp add: start_transports_def)
  have "pc_ice_connection pc2 = IC_Connected" "pc_dtls pc2 = DT_Connected" "\<not> pc_is_closed pc2" "pc_dtls_conn pc2" "pc_ops pc2 = pc_ops pc"
    "sctp_fields pc2 = sctp_fields pc"
    using f t by (simp_all add: pc2_def sctp_fields_def)
  then show ?thesis unfolding s by (simp add: pc_update_connection_state_def connection_state_of_def pc_notify_def sctp_fields_def Let_def)
qed

lemma set_remote_answer:
  assumes "pc_reachable pc" and "pc_signaling_state pc = SS_HaveLocalOffer" and "pc_agent pc = Some a"
    and "rs_type sd = ST_Answer" and "sdp_unmarshal (pe_parse_url env) (rs_sdp sd) = Ok p"
    and "extract_ice_details (pe_crc env) (pe_ids env) p = Ok (ufrag, pwd, rs)" and "\<forall>r \<in> set rs. offerable r"
    and "extract_fingerprint p = Ok (fingerprint, hash)"
  obtains cs where "set_remote_description env sd pc = (Ok (), pc_notify (Signaling_Changed SS_Stable) (pc\<lparr>pc_pending_local := None, pc_pending_remote := None,
      pc_current_remote := Some (sd\<lparr>rs_parsed := Some p\<rparr>), pc_current_local := pc_pending_local pc, pc_signaling := signaling_state_as SS_Stable,
      pc_agent := Some (fold (\<lambda>c a. snd (agent_add_remote_candidate (pe_mdns env) c a)) cs a),
      pc_ops := pc_ops pc @ [\<lparr>so_ice_role = Controlling, so_dtls_role = dtls_role_from p, so_ufrag = ufrag, so_pwd = pwd,
        so_fingerprint = fingerprint, so_hash = hash, so_desc = sd\<lparr>rs_parsed := Some p\<rparr>\<rparr>]\<rparr>))"
    and "map (\<lambda>c. (cb_address c, cb_port c)) cs = map (\<lambda>r. (rc_address r, rc_port r)) rs"
proof -
  have c: "\<not> pc_is_closed pc" using reachable_nego_inv [OF assms(1)] by (simp add: nego_inv_def)
  define pc1 where "pc1 = pc_notify (Signaling_Changed SS_Stable) (pc\<lparr>pc_pending_local := None, pc_pending_remote := None,
    pc_current_remote := Some (sd\<lparr>rs_parsed := Some p\<rparr>), pc_current_local := pc_pending_local pc, pc_signaling := signaling_state_as SS_Stable\<rparr>)"
  have s: "set_description (sd\<lparr>rs_parsed := Some p\<rparr>) SetRemote pc = (Ok (), pc1)"
    using c assms(2,4) by (simp add: set_description_def check_next_signaling_state_def Let_def pc1_def)
  have "pc_agent pc1 = Some a" using assms(3) by (simp add: pc1_def pc_notify_def)
  from add_remote_all [OF this assms(7), of env] obtain cs where
    cs: "add_remote_candidates env rs pc1 = (Ok (), pc1\<lparr>pc_agent := Some (fold (\<lambda>c a. snd (agent_add_remote_candidate (pe_mdns env) c a)) cs a)\<rparr>)"
    "map (\<lambda>c. (cb_address c, cb_port c)) cs = map (\<lambda>r. (rc_address r, rc_port r)) rs" by blast
  show thesis
    by (rule that [OF _ cs(2)]) (use c s cs(1) assms(5,6,8) in \<open>simp add: set_remote_description_def rs_unmarshal_def andThen_def Let_def pc1_def pc_notify_def\<close>)
qed

text \<open>An association that a channel with an OPEN message of \<open>n\<close> bytes can be opened on.\<close>

definition takes_channel :: "nat \<Rightarrow> association \<Rightarrow> bool" where
  "takes_channel n a \<longleftrightarrow> hm_get (streams a) 0 = None \<and> get_state (sh a) = Established \<and> 0 < a_max_payload_size a \<and> n \<le> unat (max_message_size (sh a))"

lemma start_sctp_opens:
  assumes "\<not> pc_sctp_started pc" and "pc_dtls_conn pc" and "pc_data_channels pc = [d]" and "ready_state d = DCS_Connecting" and "\<not> rdc_transport d"
    and "takes_channel (12 + length (rdc_label d) + length (rdc_protocol d)) a"
  obtains a' d' where "start_sctp now (Ok a) pc = Some (pc\<lparr>pc_sctp_started := True, pc_association := Some a', pc_sctp := TS_Connected,
      pc_data_channels := [d'], pc_opened := pc_opened pc + 1\<rparr>)"
    and "ready_state d' = DCS_Open" and "rdc_channel d' = Some 0" and "hm_get (streams a') 0 \<noteq> None"
proof -
  obtain a' d' where o1: "rtc_open now (Some a) d = Some (Ok (), Some a', d')" and d: "ready_state d' = DCS_Open" "rdc_channel d' = Some 0"
    "hm_get (streams a') 0 \<noteq> None"
    by (rule rtc_open_opens [of a d now]) (use assms(5,6) in \<open>simp_all add: takes_channel_def\<close>)
  have "start_sctp now (Ok a) pc = Some (pc\<lparr>pc_sctp_started := True, pc_association := Some a', pc_sctp := TS_Connected,
      pc_data_channels := [d'], pc_opened := pc_opened pc + 1\<rparr>)"
    using assms(1-4) o1 by (simp add: start_sctp_def sctp_transport_start_def andThen_def Let_def)
  from that [OF this d] show thesis .
qed

text \<open>What an operation finds when everything it starts succeeds.\<close>

definition all_connect :: "connects \<Rightarrow> bytes \<Rightarrow> bytes \<Rightarrow> association \<Rightarrow> bool" where
  "all_connect c ufrag pwd s \<longleftrightarrow> (\<forall>a. \<exists>a' ss. on_dial c Controlling ufrag pwd a = (Ok (), a', ss @ [CS_Connected])) \<and> on_dtls c DR_Client \<and> on_sctp c = Ok s"

lemma operation_opens:
  assumes "pc_ops pc = [op]" and "pc_agent pc = Some a" and "pc_ice_transport pc = IT_New" and "pc_dtls pc = DT_New" and "pc_certificates pc \<noteq> []"
    and "\<not> pc_is_closed pc" and "so_ice_role op = Controlling" and "rs_parsed (so_desc op) = Some p" and "have_application_media_section p"
    and "all_connect c (so_ufrag op) (so_pwd op) s" and "sctp_fields pc = (False, [d], n)" and "ready_state d = DCS_Connecting" and "\<not> rdc_transport d"
    and "takes_channel (12 + length (rdc_label d) + length (rdc_protocol d)) s"
  shows "\<exists>pc2 d'. ops_turn env now c pc = Some pc2 \<and> pc_ops pc2 = [] \<and> pc_state pc2 = PC_Connected \<and> pc_sctp pc2 = TS_Connected \<and>
    pc_data_channels pc2 = [d'] \<and> ready_state d' = DCS_Open \<and> rdc_channel d' = Some 0 \<and> pc_opened pc2 = n + 1"
proof -
  from assms(10) obtain a' ss where d: "on_dial c Controlling (so_ufrag op) (so_pwd op) a = (Ok (), a', ss @ [CS_Connected])"
    and k: "on_dtls c DR_Client" "on_sctp c = Ok s" unfolding all_connect_def by blast
  define pc1 where "pc1 = start_transports env (on_dial c) (on_dtls c) op (pc\<lparr>pc_ops := []\<rparr>)"
  have t: "pc_state pc1 = PC_Connected \<and> pc_dtls_conn pc1 \<and> pc_ops pc1 = pc_ops (pc\<lparr>pc_ops := []\<rparr>) \<and> sctp_fields pc1 = sctp_fields (pc\<lparr>pc_ops := []\<rparr>)"
    unfolding pc1_def by (rule start_transports_connected [where a = a and a' = a' and ss = ss]) (use assms(2-7) d k(1) in simp_all)
  with assms(11) have f: "\<not> pc_sctp_started pc1" "pc_data_channels pc1 = [d]" "pc_opened pc1 = n" by (simp_all add: sctp_fields_def)
  obtain s' d' where "start_sctp now (Ok s) pc1 = Some (pc1\<lparr>pc_sctp_started := True, pc_association := Some s', pc_sctp := TS_Connected,
      pc_data_channels := [d'], pc_opened := pc_opened pc1 + 1\<rparr>)" and d': "ready_state d' = DCS_Open" "rdc_channel d' = Some 0"
    by (rule start_sctp_opens [of pc1 d s now]) (use f t assms(12-14) in simp_all)
  with assms(1,8,9) k(2) have "ops_turn env now c pc = Some (pc1\<lparr>pc_sctp_started := True, pc_association := Some s', pc_sctp := TS_Connected,
      pc_data_channels := [d'], pc_opened := pc_opened pc1 + 1\<rparr>)"
    by (simp add: ops_turn_def maybe_start_sctp_def pc1_def)
  with t f d' show ?thesis by simp
qed


lemma set_description_frame:
  "set_description sd op pc = (r, pc') \<Longrightarrow> pc_agent pc' = pc_agent pc \<and> transport_fields pc' = transport_fields pc \<and> pc_ice_transport pc' = pc_ice_transport pc"
  by (cases op; cases "rs_type sd") (auto simp: set_description_def transport_fields_def sctp_fields_def pc_notify_def Let_def split: if_splits outcome.splits)

lemma gather_frame:
  "gather env pc = (r, pc') \<Longrightarrow> pc_agent pc = Some a \<Longrightarrow>
    pc_agent pc' = Some (snd (pe_gather env a)) \<and> transport_fields pc' = transport_fields pc \<and> pc_ice_transport pc' = pc_ice_transport pc"
  by (auto simp: gather_def create_agent_def andThen_def gatherer_set_state_def pc_notify_def transport_fields_def sctp_fields_def Let_def split: prod.splits)

lemma set_local_frame:
  assumes "set_local_description env desc pc = (r, pc')" and "pc_agent pc = Some a"
  shows "pc_agent pc' \<noteq> None \<and> transport_fields pc' = transport_fields pc \<and> pc_ice_transport pc' = pc_ice_transport pc"
proof -
  let ?P = "\<lambda>pc'. pc_agent pc' \<noteq> None \<and> transport_fields pc' = transport_fields pc \<and> pc_ice_transport pc' = pc_ice_transport pc"
  have "?P (snd (andThen (set_description sd SetLocal pc) (\<lambda>_ pc. if pc_gatherer pc = GA_New then gather env pc else (Ok (), pc))))" for sd
  proof -
    obtain x pc1 where s: "set_description sd SetLocal pc = (x, pc1)" by fastforce
    obtain y pc2 where g: "gather env pc1 = (y, pc2)" by fastforce
    show ?thesis using set_description_frame [OF s] gather_frame [OF g] assms(2) s g by (cases x) (auto simp: andThen_def)
  qed
  then have "?P (snd (set_local_description env desc pc))"
    using assms(2) by (auto simp: set_local_description_def Let_def andThen_def [of "(_, pc)"] split: outcome.splits)
  with assms(1) show ?thesis by simp
qed

text \<open>The sample connection after its offer; the offer of a peer in the same position serves as answer.\<close>

definition sample_connects :: connects where
  "sample_connects = \<lparr>on_dial = (\<lambda>_ _ _ a. (Ok (), a, [CS_Checking, CS_Connected])), on_dtls = (\<lambda>_. True),
     on_sctp = Ok (set_state Established (association_client 0 0 1 2))\<rparr>"

lemma sample_takes: "takes_channel 16 (set_state Established (association_client 0 0 1 2))"
  by (simp add: takes_channel_def association_client_def association_new_def send_init_def wake_def set_state_def Let_def hm_get_def awake_write_loop_def
      get_state_def association_state_from_def INITIAL_MTU_def COMMON_HEADER_SIZE_def DATA_CHUNK_HEADER_SIZE_def DEFAULT_MAX_MESSAGE_SIZE_def)


section \<open>Reports of the state\<close>

text \<open>
  The handler of the ICE states computes the state of the connection from a DTLS transport that was captured before it was started: a
  connection that recovers from a disconnection is reported as new, not as connected.
\<close>

lemma reconnect_reported_new:
  assumes "pc_state pc = PC_Connected" and "\<not> pc_is_closed pc"
  shows "pc_state (on_agent_state CS_Connected (on_agent_state CS_Disconnected pc)) = PC_New"
  using assms by (simp add: on_agent_state_def on_ice_transport_state_def pc_update_connection_state_def connection_state_of_def pc_notify_def Let_def
      CAPTURED_DTLS_STATE_def)

text \<open>The fingerprints the peer announced and the role it chose have no influence on the start of DTLS: they are only stored.\<close>

lemma remote_parameters_ignored:
  "fst (dtls_transport_start connect remote pc) = fst (dtls_transport_start connect remote' pc) \<and>
    (snd (dtls_transport_start connect remote pc))\<lparr>pc_remote_parameters := None\<rparr> =
    (snd (dtls_transport_start connect remote' pc))\<lparr>pc_remote_parameters := None\<rparr>"
  by (auto simp: dtls_transport_start_def prepare_transport_def ensure_ice_conn_def andThen_def Let_def)

end
