(* ===== verification/Spec2Isabelle.thy ===== *)
theory Spec2Isabelle
  imports Sctp_Sender Sctp_Lifecycle Util_Replay Util_Buffer Dtls_Receive Ice_Limits Data_Channel Mux Peer_Signaling
begin

text \<open>
  Verification of webrtc-unreliable-client: the WebRTC stack of the client crate (\<^verbatim>\<open>src/client/src/webrtc/\<close>).

  \<^bold>\<open>The program.\<close> A client sends a session description to a server, receives an answer, and then exchanges datagrams with it over an
  unreliable, unordered data channel. The layers are separate modules: \<^verbatim>\<open>peer_connection\<close> makes offers, keeps the signalling state and
  queues the start of the transports; \<^verbatim>\<open>crates/sdp\<close> writes and parses descriptions; \<^verbatim>\<open>crates/ice\<close> finds a path by STUN
  connectivity checks (\<^verbatim>\<open>crates/stun\<close>); \<^verbatim>\<open>mux\<close> hands datagrams to endpoints, each with a packet buffer (\<^verbatim>\<open>crates/util/buffer\<close>);
  \<^verbatim>\<open>crates/dtls\<close> protects records, with a replay detector (\<^verbatim>\<open>crates/util/replay_detector\<close>); \<^verbatim>\<open>crates/sctp\<close> carries messages in an
  association with streams; \<^verbatim>\<open>data_channel\<close> runs the establishment protocol over a stream.

  \<^bold>\<open>Theories and sources.\<close>
  \<^item> \<open>Sctp_Prelude\<close>: results with errors and panics, readers and writers of bytes, hash maps, the collections of simplification rules.
  \<^item> \<open>Sctp_Error\<close>, \<open>Sctp_Util\<close>, \<open>Sctp_Param\<close>, \<open>Sctp_Chunk\<close>, \<open>Sctp_Chunk_Codec\<close>, \<open>Sctp_Packet\<close>: \<^verbatim>\<open>crates/sctp\<close>, serial numbers and
    the wire format.
  \<^item> \<open>Sctp_Payload_Queue\<close>, \<open>Sctp_Pending_Queue\<close>, \<open>Sctp_Reassembly_Queue\<close>, \<open>Sctp_Timer\<close>, \<open>Sctp_Stream\<close>: queues, timers and streams.
  \<^item> \<open>Sctp_Association\<close>, \<open>Sctp_Inbound\<close>, \<open>Sctp_Outbound\<close>: \<^verbatim>\<open>association/\<close>, its handlers, its loops, and the step relation
    \<open>assoc_step\<close> of everything that can happen to a client. \<open>Sctp_Client\<close>, \<open>Sctp_Sender\<close>, \<open>Sctp_Receiver\<close> and \<open>Sctp_Lifecycle\<close> hold
    the invariants and properties.
  \<^item> \<open>Data_Channel\<close>: \<^verbatim>\<open>data_channel/\<close>. \<open>Mux\<close>: \<^verbatim>\<open>mux/\<close>. \<open>Util_Buffer\<close>, \<open>Util_Replay\<close>, \<open>Util_Text\<close>, \<open>Util_Utf8\<close>: \<^verbatim>\<open>crates/util\<close> and the
    parts of the standard library for texts.
  \<^item> \<open>Dtls_Wire\<close>, \<open>Dtls_Message\<close>, \<open>Dtls_Record\<close>, \<open>Dtls_Fragment\<close>, \<open>Dtls_Cache\<close>, \<open>Dtls_Conn\<close>, \<open>Dtls_Receive\<close>: \<^verbatim>\<open>crates/dtls\<close>, from the
    formats to the tasks of a connection that send and receive records.
  \<^item> \<open>Stun_Message\<close>, \<open>Stun_Attributes\<close>: \<^verbatim>\<open>crates/stun\<close>. \<open>Ice_Candidate\<close>, \<open>Ice_Agent\<close>: \<^verbatim>\<open>crates/ice\<close>; \<open>Ice_Invariant\<close>, \<open>Ice_Safety\<close>,
    \<open>Ice_Check\<close> and \<open>Ice_Limits\<close> hold the properties of the agent.
  \<^item> \<open>Sdp_Session\<close>, \<open>Sdp_Parser\<close>: \<^verbatim>\<open>crates/sdp\<close>; \<open>Sdp_Roundtrip\<close> and \<open>Sdp_Typed\<close> hold its properties.
  \<^item> \<open>Peer_Sdp\<close>, \<open>Peer_Connection\<close>, \<open>Peer_Signaling\<close>: \<^verbatim>\<open>peer_connection/\<close>, \<^verbatim>\<open>ice_transport/\<close>, \<^verbatim>\<open>dtls_transport/\<close>, \<^verbatim>\<open>sctp_transport/\<close>.

  \<^bold>\<open>State and operations.\<close> A struct is a record, an enum a datatype, an integer of the source a word of its width (\<open>usize\<close> a natural
  number where the invariants show that it does not go below zero); the arithmetic of release builds wraps around. A method takes the record
  and returns it changed, with \<open>outcome\<close> (\<open>Ok\<close>, \<open>Err\<close>, \<open>Panic\<close>) for its \<^verbatim>\<open>Result\<close>; what a method changed before it failed stays changed.
  Objects shared through \<^verbatim>\<open>Arc\<close> are stores with references, as the candidates and pairs of the ICE agent, or fields of the record of their
  owner, as the association and the agent of a peer connection. Tasks are step relations whose steps are the code between two
  awaits, or between two turns of a loop; handlers of the application are values recorded when they are called.

  \<^bold>\<open>Interfaces.\<close> Locales state what a component relies on, and are interpreted on the definitions of the model: \<open>finite_map\<close> (hash maps),
  \<open>serial_arith\<close> (sequence numbers of 16 and 32 bits), \<open>prefix_codec\<close> (parameters of chunks), \<open>tsn_queue\<close> (payload queue), \<open>chunk_source\<close>
  (pending queue), \<open>packet_fifo\<close> (packet buffer), \<open>stun_attribute\<close> (attributes that are added to and read from a STUN message).

  \<^bold>\<open>What is shown.\<close>
  \<^item> Wire formats: SCTP packets, STUN messages, DTLS handshake messages and datagrams, and session descriptions are read back as they were
    written; every accepted description is well typed; message integrity is accepted by the peer.
  \<^item> Queues and buffers: the invariants of the payload and reassembly queues, delivery of whole messages in order, gap reports that are
    exact, no fragment stuck in the pending queue, the ring buffer as a bounded queue, the replay detector as a set of numbers.
  \<^item> Association: a client never shuts down by itself, its handshake completes, SACK, DATA and window handling do what they mean to,
    writes return, close releases everything.
  \<^item> ICE: the selected pair is validated and nominated in every reachable state, only authentic answers validate a pair, two agents with
    each other's credentials connect, unauthenticated datagrams change nothing but a time stamp, an unanswered pair fails after a fixed
    number of checks, a closed agent refuses everything.
  \<^item> DTLS: fragments in any order give the message, no record number is used twice for encryption, application data is authentic and is
    delivered once.
  \<^item> Composition: a message written on a data channel is read at the other end; a datagram sent over the selected pair reaches the
    endpoint of DTLS; the text of an offer gives the peer exactly the fingerprint, the credentials and the candidates; the answer makes the
    connection stable and, when ICE, DTLS and SCTP succeed, connected with its data channel open; the descriptions and the signalling state
    of a peer connection agree in every reachable state.
  \<^item> Lemmas without a claim of their own show behaviours that differ from what the code or its comments intend, among them:
    \<open>own_init_not_decoded\<close>, \<open>gap_ack_blocks_wrap\<close>, \<open>close_wakeup_lost\<close>, \<open>replay_window_48\<close>, \<open>append_message_diverges\<close>, \<open>key_exchange_panics\<close>,
    \<open>clear_alert_closes\<close>, \<open>open_layout_mismatch\<close>, \<open>peer_open_panics\<close>, \<open>second_channel_refused\<close>, \<open>full_endpoint_ends_loop\<close>,
    \<open>remote_offer_final\<close>, \<open>rollback_refused\<close>, \<open>reconnect_reported_new\<close>, \<open>remote_parameters_ignored\<close>.

  \<^bold>\<open>Termination.\<close> Loops are recursive functions with a termination proof, so nothing is bounded by fuel, except where the code may loop for
  ever: fragmentation with a payload size of zero (\<open>packetize_loop\<close>) and reassembly of DTLS fragments (\<open>append_message\<close>) are partial
  functions into \<open>option\<close>, and it is shown under which conditions they have a result. A write, the opening of a channel and the operations of
  a peer connection inherit the \<open>option\<close>; the properties of writes of a client and of the answer of the peer show that they return.

  \<^bold>\<open>Parameters.\<close> CRC-32, HMAC-SHA1, SHA-256, the hash of the handshake, record encryption, \<^verbatim>\<open>Url::parse\<close>, the match of a regular expression,
  clocks, random numbers, sockets, the order in which a hash map is walked, the result of gathering, and for a peer connection what
  \<^verbatim>\<open>Agent::dial\<close>, \<^verbatim>\<open>DTLSConn::new\<close> and \<^verbatim>\<open>Association::client\<close> come back with. Hypotheses on them are stated in the properties that need
  them, and witnesses instantiate them.

  \<^bold>\<open>Not modelled.\<close> The flights and the state machine of the DTLS handshake, key derivation, signatures and certificates, which are
  mostly calls of cryptographic crates; gathering of candidates, interface enumeration, mDNS, the mapper of external addresses and the virtual
  network, which are calls of the operating system; \<^verbatim>\<open>WrappedSlidingWindowDetector\<close>, \<^verbatim>\<open>Codec\<close> and \<^verbatim>\<open>extmap\<close>, which nothing uses; the
  conversions of enums to and from display texts that nothing parses; logging; the HTTP request of the client socket and the demos.
\<close>

end
